(* ===== verification/Prelude.thy ===== *)
theory Prelude
  imports Complex_Main "HOL-Library.AList" "HOL-Library.Char_ord" "HOL-Library.List_Lexorder"
    "HOL-Library.Word"
begin

text \<open>
  Shared vocabulary of the development: the Go strings, maps, integers and times the modelled
  packages use, and the generic lemmas about them.

  \<^item> A Go string is a byte sequence: \<open>string\<close>, whose characters are bytes. \<open>TrimSpace\<close> removes
    the UTF-8 encodings of every Unicode white-space character, as \<open>strings.TrimSpace\<close> does.
    \<open>ToLower\<close> and \<open>EqualFold\<close> map the ASCII letters and leave the other bytes alone, which is
    what the Go functions do on ASCII text (provider keys, level names, error texts are ASCII).
  \<^item> A Go map is an association list. The order of the list stands for the order in which a
    \<open>range\<close> loop happens to visit the map, so a fact that holds for every list holds for
    every iteration order.
  \<^item> A \<open>time.Time\<close> is the number of nanoseconds since the zero time, so that \<open>IsZero\<close> is
    \<open>t = 0\<close>. A \<open>time.Duration\<close> is a number of nanoseconds.
\<close>

named_theorems go_simps "unfolding rules for the small Go primitives"

subsection \<open>Machine integers\<close>

definition MaxInt64 :: int where
  "MaxInt64 = 9223372036854775807"

definition MinInt64 :: int where
  "MinInt64 = - 9223372036854775808"

text \<open>The value an \<open>int64\<close> expression takes when its exact value is \<open>x\<close> (two's complement).\<close>

definition int64 :: "int \<Rightarrow> int" where
  "int64 x = (x + 9223372036854775808) mod 18446744073709551616 - 9223372036854775808"

definition in_int64 :: "int \<Rightarrow> bool" where
  "in_int64 x \<longleftrightarrow> MinInt64 \<le> x \<and> x \<le> MaxInt64"

lemma int64_id [simp]: "in_int64 x \<Longrightarrow> int64 x = x"
  by (simp add: int64_def in_int64_def MinInt64_def MaxInt64_def)

lemma int64_range: "in_int64 (int64 x)"
proof -
  let ?m = "(x + 9223372036854775808) mod 18446744073709551616"
  have "0 \<le> ?m" and "?m < 18446744073709551616"
    by simp_all
  then show ?thesis
    by (simp add: in_int64_def int64_def MinInt64_def MaxInt64_def)
qed

text \<open>Go's integer division and remainder truncate towards zero.\<close>

definition go_div :: "int \<Rightarrow> int \<Rightarrow> int" where
  "go_div a b = sgn a * sgn b * (\<bar>a\<bar> div \<bar>b\<bar>)"

definition go_rem :: "int \<Rightarrow> int \<Rightarrow> int" where
  "go_rem a b = a - b * go_div a b"

subsection \<open>Times and durations\<close>

type_synonym go_time = int
type_synonym duration = int

definition Second :: duration where "Second = 1000000000"
definition Minute :: duration where "Minute = 60 * Second"
definition Hour :: duration where "Hour = 60 * Minute"

abbreviation (input) IsZero :: "go_time \<Rightarrow> bool" where
  "IsZero t \<equiv> t = 0"

text \<open>Seconds since 1970, \<open>Time.Unix\<close>; the zero time is 62135596800 seconds earlier.\<close>

definition Unix :: "go_time \<Rightarrow> int" where
  "Unix t = t div 1000000000 - 62135596800"

text \<open>\<open>Time.Sub\<close> saturates at the bounds of a \<open>Duration\<close>.\<close>

definition time_Sub :: "go_time \<Rightarrow> go_time \<Rightarrow> duration" where
  "time_Sub t u = max MinInt64 (min MaxInt64 (t - u))"

subsection \<open>Strings\<close>

text \<open>The UTF-8 encodings of the runes for which \<open>unicode.IsSpace\<close> holds.\<close>

definition go_spaces :: "string list" where
  "go_spaces =
     [[CHR 0x20], [CHR 0x09], [CHR 0x0A], [CHR 0x0B], [CHR 0x0C], [CHR 0x0D],
      [CHR 0xC2, CHR 0x85], [CHR 0xC2, CHR 0xA0], [CHR 0xE1, CHR 0x9A, CHR 0x80],
      [CHR 0xE2, CHR 0x80, CHR 0x80], [CHR 0xE2, CHR 0x80, CHR 0x81],
      [CHR 0xE2, CHR 0x80, CHR 0x82], [CHR 0xE2, CHR 0x80, CHR 0x83],
      [CHR 0xE2, CHR 0x80, CHR 0x84], [CHR 0xE2, CHR 0x80, CHR 0x85],
      [CHR 0xE2, CHR 0x80, CHR 0x86], [CHR 0xE2, CHR 0x80, CHR 0x87],
      [CHR 0xE2, CHR 0x80, CHR 0x88], [CHR 0xE2, CHR 0x80, CHR 0x89],
      [CHR 0xE2, CHR 0x80, CHR 0x8A], [CHR 0xE2, CHR 0x80, CHR 0xA8],
      [CHR 0xE2, CHR 0x80, CHR 0xA9], [CHR 0xE2, CHR 0x80, CHR 0xAF],
      [CHR 0xE2, CHR 0x81, CHR 0x9F], [CHR 0xE3, CHR 0x80, CHR 0x80]]"

definition space_len :: "string list \<Rightarrow> string \<Rightarrow> nat" where
  "space_len encs s = (case find (\<lambda>e. take (length e) s = e) encs of None \<Rightarrow> 0 | Some e \<Rightarrow> length e)"

function strip_with :: "string list \<Rightarrow> string \<Rightarrow> string" where
  "strip_with encs s =
     (if s = [] \<or> space_len encs s = 0 then s else strip_with encs (drop (space_len encs s) s))"
  by pat_completeness auto
termination
  by (relation "measure (\<lambda>(encs, s). length s)") auto

definition TrimLeftSpace :: "string \<Rightarrow> string" where
  "TrimLeftSpace s = strip_with go_spaces s"

definition TrimRightSpace :: "string \<Rightarrow> string" where
  "TrimRightSpace s = rev (strip_with (map rev go_spaces) (rev s))"

definition TrimSpace :: "string \<Rightarrow> string" where
  "TrimSpace s = TrimRightSpace (TrimLeftSpace s)"

definition ascii_lower :: "char \<Rightarrow> char" where
  "ascii_lower c =
     (let n = (of_char c :: nat) in if 65 \<le> n \<and> n \<le> 90 then char_of (n + 32) else c)"

definition ToLower :: "string \<Rightarrow> string" where
  "ToLower s = map ascii_lower s"

definition EqualFold :: "string \<Rightarrow> string \<Rightarrow> bool" where
  "EqualFold s t \<longleftrightarrow> ToLower s = ToLower t"

definition HasPrefix :: "string \<Rightarrow> string \<Rightarrow> bool" where
  "HasPrefix s p \<longleftrightarrow> take (length p) s = p"

definition HasSuffix :: "string \<Rightarrow> string \<Rightarrow> bool" where
  "HasSuffix s p \<longleftrightarrow> length p \<le> length s \<and> drop (length s - length p) s = p"

fun Contains :: "string \<Rightarrow> string \<Rightarrow> bool" where
  "Contains [] p = (p = [])"
| "Contains (c # s) p = (take (length p) (c # s) = p \<or> Contains s p)"

fun strings_Join :: "string list \<Rightarrow> string \<Rightarrow> string" where
  "strings_Join [] sep = []"
| "strings_Join [s] sep = s"
| "strings_Join (s # t # ts) sep = s @ sep @ strings_Join (t # ts) sep"

subsection \<open>strconv\<close>

definition digit_value :: "char \<Rightarrow> int option" where
  "digit_value c =
     (let n = (of_char c :: int) in if 48 \<le> n \<and> n \<le> 57 then Some (n - 48) else None)"

fun parse_digits :: "int \<Rightarrow> string \<Rightarrow> int option" where
  "parse_digits acc [] = Some acc"
| "parse_digits acc (c # s) =
     (case digit_value c of None \<Rightarrow> None | Some d \<Rightarrow> parse_digits (10 * acc + d) s)"

text \<open>
  \<open>strconv.ParseInt(s, 10, 64)\<close>, which \<open>strconv.Atoi\<close> is on a 64-bit platform: an optional
  sign, at least one digit, and a value in the range of \<open>int64\<close>. \<open>None\<close> is the error.
\<close>

definition ParseInt :: "string \<Rightarrow> int option" where
  "ParseInt s =
     (let (neg, ds) = (case s of c # cs \<Rightarrow> if c = CHR ''-'' then (True, cs)
                                          else if c = CHR ''+'' then (False, cs) else (False, s)
                      | [] \<Rightarrow> (False, []))
      in if ds = [] then None
         else case parse_digits 0 ds of None \<Rightarrow> None
              | Some v \<Rightarrow> let x = (if neg then - v else v)
                          in if in_int64 x then Some x else None)"

definition ParseBool :: "string \<Rightarrow> bool option" where
  "ParseBool s =
     (if s \<in> {''1'', ''t'', ''T'', ''TRUE'', ''true'', ''True''} then Some True
      else if s \<in> {''0'', ''f'', ''F'', ''FALSE'', ''false'', ''False''} then Some False
      else None)"

subsection \<open>Maps\<close>

type_synonym ('k, 'v) go_map = "('k \<times> 'v) list"

abbreviation wf_map :: "('k, 'v) go_map \<Rightarrow> bool" where
  "wf_map m \<equiv> distinct (map fst m)"

text \<open>Indexing a map that lacks the key yields the zero value.\<close>

definition map_get :: "'v \<Rightarrow> ('k, 'v) go_map \<Rightarrow> 'k \<Rightarrow> 'v" where
  "map_get zero m k = (case map_of m k of None \<Rightarrow> zero | Some v \<Rightarrow> v)"

definition has_key :: "('k, 'v) go_map \<Rightarrow> 'k \<Rightarrow> bool" where
  "has_key m k \<longleftrightarrow> map_of m k \<noteq> None"

subsection \<open>sort.Search\<close>

text \<open>The binary search of package \<open>sort\<close> on the half-open interval \<open>i, j\<close>.\<close>

function search_loop :: "(nat \<Rightarrow> bool) \<Rightarrow> nat \<Rightarrow> nat \<Rightarrow> nat" where
  "search_loop f i j =
     (if i < j then (let h = (i + j) div 2
                     in if \<not> f h then search_loop f (h + 1) j else search_loop f i h)
      else i)"
  by pat_completeness auto
termination
  by (relation "measure (\<lambda>(f, i, j). j - i)") auto

definition sort_Search :: "nat \<Rightarrow> (nat \<Rightarrow> bool) \<Rightarrow> nat" where
  "sort_Search n f = search_loop f 0 n"

declare strip_with.simps [simp del] search_loop.simps [simp del]


subsection \<open>Generic lemmas\<close>

lemmas go_consts [go_simps] = Second_def Minute_def Hour_def MaxInt64_def MinInt64_def

lemma map_get_update [simp]: "map_get z (AList.update k v m) k' = (if k' = k then v else map_get z m k')"
  by (simp add: map_get_def update_conv)

lemma map_get_Nil [simp]: "map_get z [] k = z"
  by (simp add: map_get_def)

lemma has_key_Nil [simp]: "\<not> has_key [] k"
  by (simp add: has_key_def)

lemma has_key_update [simp]: "has_key (AList.update k v m) k' \<longleftrightarrow> k' = k \<or> has_key m k'"
  by (simp add: has_key_def update_conv)

lemma has_key_iff: "has_key m k \<longleftrightarrow> k \<in> fst ` set m"
  by (auto simp: has_key_def map_of_eq_None_iff)

lemma map_of_update: "map_of (AList.update k v m) k' = (if k' = k then Some v else map_of m k')"
  by (simp add: update_conv)

lemma map_of_delete: "map_of (AList.delete k m) k' = (if k' = k then None else map_of m k')"
  by (simp add: delete_conv)

lemma update_fresh: "k \<notin> fst ` set m \<Longrightarrow> AList.update k v m = m @ [(k, v)]"
  by (induction m) auto

lemma ball_insert_subset: "A \<subseteq> insert x B \<Longrightarrow> P x \<Longrightarrow> \<forall>e \<in> B. P e \<Longrightarrow> \<forall>e \<in> A. P e"
  by blast

lemma wf_map_update [intro]: "wf_map m \<Longrightarrow> wf_map (AList.update k v m)"
  by (rule distinct_update)

lemma wf_map_delete [intro]: "wf_map m \<Longrightarrow> wf_map (AList.delete k m)"
  by (rule distinct_delete)

lemma map_of_SomeI: "wf_map m \<Longrightarrow> (k, v) \<in> set m \<Longrightarrow> map_of m k = Some v"
  by (rule map_of_is_SomeI)

lemma search_loop_bounds: "i \<le> j \<Longrightarrow> i \<le> search_loop f i j \<and> search_loop f i j \<le> j"
proof (induction f i j rule: search_loop.induct)
  case (1 f i j)
  show ?case
  proof (cases "i < j")
    case True
    let ?h = "(i + j) div 2"
    have h: "i \<le> ?h" "?h + 1 \<le> j" using True by auto
    show ?thesis
    proof (cases "f ?h")
      case True
      with 1(2)[OF \<open>i < j\<close> refl] h \<open>i < j\<close> show ?thesis
        by (subst search_loop.simps, subst (2) search_loop.simps) (simp add: Let_def)
    next
      case False
      with 1(1)[OF \<open>i < j\<close> refl] h \<open>i < j\<close> show ?thesis
        by (subst search_loop.simps, subst (2) search_loop.simps) (simp add: Let_def)
    qed
  next
    case False
    with 1(3) show ?thesis by (simp add: search_loop.simps)
  qed
qed

text \<open>
  On a predicate that stays true once it is true, the search finds the boundary: it is false
  before the result and true from it on.
\<close>

lemma search_loop_step:
  "i < j \<Longrightarrow> search_loop f i j =
     (if f ((i + j) div 2) then search_loop f i ((i + j) div 2)
      else search_loop f ((i + j) div 2 + 1) j)"
  by (subst search_loop.simps) (simp add: Let_def)

lemma search_loop_stop: "\<not> i < j \<Longrightarrow> search_loop f i j = i"
  by (subst search_loop.simps) simp

lemma search_loop_spec:
  assumes "\<forall>a b. a \<le> b \<and> b < n \<and> f a \<longrightarrow> f b"
    and "i \<le> j" "j \<le> n" "\<forall>k < i. \<not> f k" "\<forall>k. j \<le> k \<and> k < n \<longrightarrow> f k"
  shows "(\<forall>k < search_loop f i j. \<not> f k) \<and> (\<forall>k. search_loop f i j \<le> k \<and> k < n \<longrightarrow> f k)"
  using assms
proof (induction f i j rule: search_loop.induct)
  case (1 f i j)
  show ?case
  proof (cases "i < j")
    case True
    let ?h = "(i + j) div 2"
    have h: "i \<le> ?h" "?h < j" using True by auto
    show ?thesis
    proof (cases "f ?h")
      case True
      have up: "\<forall>k. ?h \<le> k \<and> k < n \<longrightarrow> f k"
        using 1(3) True by blast
      have "(\<forall>k < search_loop f i ?h. \<not> f k) \<and>
          (\<forall>k. search_loop f i ?h \<le> k \<and> k < n \<longrightarrow> f k)"
        using 1(2)[OF \<open>i < j\<close> refl _ 1(3) h(1) _ 1(6) up] True 1(5) h(2) by fastforce
      then show ?thesis
        unfolding search_loop_step[OF \<open>i < j\<close>, of f] using True by simp
    next
      case False
      have down: "\<forall>k < ?h + 1. \<not> f k"
        using 1(3) False 1(5) h by (metis Suc_eq_plus1 less_Suc_eq_le less_le_trans)
      have "(\<forall>k < search_loop f (?h + 1) j. \<not> f k) \<and>
          (\<forall>k. search_loop f (?h + 1) j \<le> k \<and> k < n \<longrightarrow> f k)"
        using 1(1)[OF \<open>i < j\<close> refl False 1(3) _ 1(5) down 1(7)] h(2) by fastforce
      then show ?thesis
        unfolding search_loop_step[OF \<open>i < j\<close>, of f] using False by simp
    qed
  next
    case False
    with 1(4-7) show ?thesis by (simp add: search_loop_stop)
  qed
qed

lemma sort_Search_spec:
  assumes "\<forall>a b. a \<le> b \<and> b < n \<and> f a \<longrightarrow> f b"
  shows "(\<forall>k < sort_Search n f. \<not> f k) \<and> (\<forall>k. sort_Search n f \<le> k \<and> k < n \<longrightarrow> f k)"
  unfolding sort_Search_def using assms by (intro search_loop_spec) auto

lemma sort_Search_le: "sort_Search n f \<le> n"
  unfolding sort_Search_def using search_loop_bounds[of 0 n f] by simp

subsection \<open>Trimming\<close>

lemma space_len_le: "space_len encs s \<le> length s"
proof (cases "find (\<lambda>e. take (length e) s = e) encs")
  case (Some e)
  then have "take (length e) s = e"
    by (auto simp: find_Some_iff)
  then have "length e \<le> length s"
    by (metis length_take min.absorb_iff2 nat_le_linear take_all)
  with Some show ?thesis by (simp add: space_len_def)
qed (simp add: space_len_def)

lemma strip_with_drop: "\<exists>n. strip_with encs s = drop n s"
proof (induction encs s rule: strip_with.induct)
  case (1 encs s)
  show ?case
  proof (cases "s = [] \<or> space_len encs s = 0")
    case True
    then show ?thesis by (subst strip_with.simps) (auto intro: exI[of _ 0])
  next
    case False
    with 1 obtain n where "strip_with encs (drop (space_len encs s) s) = drop n (drop (space_len encs s) s)"
      by blast
    with False show ?thesis by (subst strip_with.simps) (auto simp: drop_drop)
  qed
qed

lemma strip_with_stop:
  "strip_with encs s = [] \<or> space_len encs (strip_with encs s) = 0"
proof (induction encs s rule: strip_with.induct)
  case (1 encs s)
  then show ?case
    by (cases "s = [] \<or> space_len encs s = 0") (subst (1 2) strip_with.simps, force)+
qed

lemma space_len_0:
  "[] \<notin> set encs \<Longrightarrow> space_len encs s = 0 \<longleftrightarrow> (\<forall>e \<in> set encs. take (length e) s \<noteq> e)"
  by (auto simp: space_len_def find_None_iff find_Some_iff split: option.splits)
     (metis nth_mem)+

lemma strip_with_id: "s = [] \<or> space_len encs s = 0 \<Longrightarrow> strip_with encs s = s"
  by (subst strip_with.simps) simp

lemma no_empty_space: "[] \<notin> set go_spaces" "[] \<notin> set (map rev go_spaces)"
  by (simp_all add: go_spaces_def)

lemma TrimRightSpace_take: "\<exists>k. TrimRightSpace s = take k s"
proof -
  obtain n where "strip_with (map rev go_spaces) (rev s) = drop n (rev s)"
    using strip_with_drop by blast
  then have "TrimRightSpace s = take (length s - n) s"
    by (simp add: TrimRightSpace_def rev_drop)
  then show ?thesis ..
qed

lemma TrimRightSpace_idem [simp]: "TrimRightSpace (TrimRightSpace s) = TrimRightSpace s"
  using strip_with_stop[of "map rev go_spaces" "rev s"]
  by (simp add: TrimRightSpace_def strip_with_id)

lemma TrimLeftSpace_prefix:
  assumes "space_len go_spaces s = 0" shows "TrimLeftSpace (take k s) = take k s"
proof -
  have "take (length e) (take k s) \<noteq> e" if e: "e \<in> set go_spaces" for e
  proof
    assume eq: "take (length e) (take k s) = e"
    then have "length e \<le> k"
      by (metis length_take linorder_le_cases min.absorb2 min.cobounded1 min.cobounded2 order.trans take_take)
    with eq have "take (length e) s = e" by (simp add: min_absorb1)
    with assms e show False by (simp add: space_len_0 no_empty_space)
  qed
  then show ?thesis
    unfolding TrimLeftSpace_def by (intro strip_with_id) (simp add: space_len_0 no_empty_space)
qed

lemma TrimSpace_idem [simp]: "TrimSpace (TrimSpace s) = TrimSpace s"
proof -
  let ?l = "TrimLeftSpace s"
  obtain k where k: "TrimSpace s = take k ?l"
    using TrimRightSpace_take by (metis TrimSpace_def)
  have "?l = [] \<or> space_len go_spaces ?l = 0"
    unfolding TrimLeftSpace_def by (rule strip_with_stop)
  then have "TrimLeftSpace (TrimSpace s) = TrimSpace s"
    using k TrimLeftSpace_prefix by (auto simp: TrimLeftSpace_def strip_with_id)
  then show ?thesis
    by (simp add: TrimSpace_def)
qed

lemma TrimSpace_Nil [simp]: "TrimSpace [] = []"
  by (simp add: TrimSpace_def TrimRightSpace_def TrimLeftSpace_def strip_with_id)

lemma set_TrimSpace: "set (TrimSpace s) \<subseteq> set s"
proof -
  obtain k where "TrimSpace s = take k (TrimLeftSpace s)"
    using TrimRightSpace_take by (metis TrimSpace_def)
  moreover obtain n where "TrimLeftSpace s = drop n s"
    using strip_with_drop by (metis TrimLeftSpace_def)
  ultimately show ?thesis
    by (metis set_drop_subset set_take_subset subset_trans)
qed

subsection \<open>Lower-casing\<close>

lemma ascii_lower_idem [simp]: "ascii_lower (ascii_lower c) = ascii_lower c"
  by (simp add: ascii_lower_def Let_def)

lemma ToLower_idem [simp]: "ToLower (ToLower s) = ToLower s"
  by (simp add: ToLower_def)

lemma EqualFold_refl [simp]: "EqualFold s s"
  by (simp add: EqualFold_def)

text \<open>Lower-casing neither makes nor removes white space, so it commutes with trimming.\<close>

definition caseless :: "char \<Rightarrow> bool" where
  "caseless c \<longleftrightarrow> (let n = (of_char c :: nat) in \<not> (65 \<le> n \<and> n \<le> 90) \<and> \<not> (97 \<le> n \<and> n \<le> 122))"

lemma lower_caseless: "caseless c \<Longrightarrow> ascii_lower d = c \<longleftrightarrow> d = c"
  by (auto simp: caseless_def ascii_lower_def Let_def)

lemma map_lower_caseless: "list_all caseless e \<Longrightarrow> map ascii_lower xs = e \<longleftrightarrow> xs = e"
  by (induction e arbitrary: xs) (auto simp: lower_caseless Cons_eq_map_conv map_eq_Cons_conv)

lemma space_len_lower:
  assumes "\<forall>e \<in> set encs. list_all caseless e"
  shows "space_len encs (map ascii_lower s) = space_len encs s"
proof -
  have "take (length e) (map ascii_lower s) = e \<longleftrightarrow> take (length e) s = e" if "e \<in> set encs" for e
    using map_lower_caseless[of e "take (length e) s"] assms that by (simp add: take_map)
  then have "find (\<lambda>e. take (length e) (map ascii_lower s) = e) encs = find (\<lambda>e. take (length e) s = e) encs"
    by (intro find_cong) auto
  then show ?thesis by (simp add: space_len_def)
qed

lemma strip_lower:
  assumes "\<forall>e \<in> set encs. list_all caseless e"
  shows "strip_with encs (map ascii_lower s) = map ascii_lower (strip_with encs s)"
proof (induction s rule: length_induct)
  case (1 s)
  show ?case
  proof (cases "s = [] \<or> space_len encs s = 0")
    case True
    then show ?thesis using strip_with_id[of s encs] strip_with_id[of "map ascii_lower s" encs] space_len_lower[OF assms] by simp
  next
    case False
    then have "length (drop (space_len encs s) s) < length s" by simp
    with 1 have "strip_with encs (map ascii_lower (drop (space_len encs s) s)) = map ascii_lower (strip_with encs (drop (space_len encs s) s))"
      by blast
    then show ?thesis
      using False space_len_lower[OF assms, of s] strip_with.simps[of encs s] strip_with.simps[of encs "map ascii_lower s"]
      by (simp add: drop_map)
  qed
qed

lemma spaces_caseless: "\<forall>e \<in> set go_spaces. list_all caseless e" "\<forall>e \<in> set (map rev go_spaces). list_all caseless e"
  by code_simp+

lemma TrimSpace_ToLower: "TrimSpace (ToLower s) = ToLower (TrimSpace s)"
  using spaces_caseless
  by (simp add: TrimSpace_def TrimLeftSpace_def TrimRightSpace_def ToLower_def strip_lower rev_map)

lemma normal_key [simp]: "ToLower (TrimSpace (ToLower (TrimSpace s))) = ToLower (TrimSpace s)"
  by (simp add: TrimSpace_ToLower)

end
