(* ===== verification/Suffix.thy ===== *)
theory Suffix
  imports Prelude
begin

text \<open>
  The thinking suffix of a model name, \<open>internal/thinking/suffix.go\<close>, and the canonical model
  key built on it, \<open>canonicalModelKey\<close> of \<open>sdk/aps/auth/selector.go\<close>. A model may be written
  \<open>name(value)\<close>; the scheduler keys its state by the bare name.
\<close>

datatype ThinkingMode = ModeBudget | ModeLevel | ModeNone | ModeAuto

text \<open>A \<open>ThinkingLevel\<close> is a Go string type: any string can be one.\<close>

type_synonym ThinkingLevel = string

definition LevelNone :: ThinkingLevel where "LevelNone = ''none''"
definition LevelAuto :: ThinkingLevel where "LevelAuto = ''auto''"
definition LevelMinimal :: ThinkingLevel where "LevelMinimal = ''minimal''"
definition LevelLow :: ThinkingLevel where "LevelLow = ''low''"
definition LevelMedium :: ThinkingLevel where "LevelMedium = ''medium''"
definition LevelHigh :: ThinkingLevel where "LevelHigh = ''high''"
definition LevelXHigh :: ThinkingLevel where "LevelXHigh = ''xhigh''"
definition LevelMax :: ThinkingLevel where "LevelMax = ''max''"

lemmas level_defs = LevelNone_def LevelAuto_def LevelMinimal_def LevelLow_def LevelMedium_def
  LevelHigh_def LevelXHigh_def LevelMax_def

record ThinkingConfig =
  tc_Mode :: ThinkingMode
  tc_Budget :: int
  tc_Level :: ThinkingLevel

record SuffixResult =
  sr_ModelName :: string
  sr_HasSuffix :: bool
  sr_RawSuffix :: string

text \<open>\<open>strings.LastIndex\<close> for a one-byte separator; \<open>None\<close> is the result \<open>-1\<close>.\<close>

definition last_index :: "char \<Rightarrow> string \<Rightarrow> nat option" where
  "last_index c s =
     (if c \<in> set s then Some (length s - 1 - length (takeWhile (\<lambda>x. x \<noteq> c) (rev s))) else None)"

definition ParseSuffix :: "string \<Rightarrow> SuffixResult" where
  "ParseSuffix model =
     (case last_index (CHR ''('') model of
        None \<Rightarrow> \<lparr>sr_ModelName = model, sr_HasSuffix = False, sr_RawSuffix = []\<rparr>
      | Some lastOpen \<Rightarrow>
          if \<not> HasSuffix model '')'' then
            \<lparr>sr_ModelName = model, sr_HasSuffix = False, sr_RawSuffix = []\<rparr>
          else
            \<lparr>sr_ModelName = take lastOpen model, sr_HasSuffix = True,
             sr_RawSuffix = take (length model - 1 - (lastOpen + 1)) (drop (lastOpen + 1) model)\<rparr>)"

definition ParseNumericSuffix :: "string \<Rightarrow> int option" where
  "ParseNumericSuffix rawSuffix =
     (if rawSuffix = [] then None
      else case ParseInt rawSuffix of
             None \<Rightarrow> None
           | Some value \<Rightarrow> if value < 0 then None else Some value)"

definition ParseSpecialSuffix :: "string \<Rightarrow> ThinkingMode \<times> bool" where
  "ParseSpecialSuffix rawSuffix =
     (if rawSuffix = [] then (ModeBudget, False)
      else let s = ToLower rawSuffix
           in if s = ''none'' then (ModeNone, True)
              else if s = ''auto'' \<or> s = ''-1'' then (ModeAuto, True)
              else (ModeBudget, False))"

definition ParseLevelSuffix :: "string \<Rightarrow> ThinkingLevel option" where
  "ParseLevelSuffix rawSuffix =
     (if rawSuffix = [] then None
      else let s = ToLower rawSuffix
           in if s = ''minimal'' then Some LevelMinimal
              else if s = ''low'' then Some LevelLow
              else if s = ''medium'' then Some LevelMedium
              else if s = ''high'' then Some LevelHigh
              else if s = ''xhigh'' then Some LevelXHigh
              else if s = ''max'' then Some LevelMax
              else None)"

definition canonicalModelKey :: "string \<Rightarrow> string" where
  "canonicalModelKey model =
     (let model' = TrimSpace model
      in if model' = [] then []
         else let modelName = TrimSpace (sr_ModelName (ParseSuffix model'))
              in if modelName = [] then model' else modelName)"

subsection \<open>Parsing the suffix\<close>

lemma last_index_append: "c \<notin> set t \<Longrightarrow> last_index c (s @ c # t) = Some (length s)"
  by (simp add: last_index_def takeWhile_append takeWhile_eq_all_conv[THEN iffD2]) 

lemma last_index_Some:
  "last_index c s = Some i \<Longrightarrow> \<exists>t. s = take i s @ c # t \<and> c \<notin> set t"
proof -
  assume a: "last_index c s = Some i"
  then have "c \<in> set s" by (simp add: last_index_def split: if_splits)
  then obtain u t where ut: "s = u @ c # t" "c \<notin> set t"
    by (metis split_list_last)
  with a have "i = length u" by (simp add: last_index_append)
  with ut show ?thesis by auto
qed

lemma HasSuffix_snoc: "HasSuffix s [c] \<longleftrightarrow> s \<noteq> [] \<and> last s = c"
  by (cases s rule: rev_cases) (auto simp: HasSuffix_def)

lemma ParseSuffix_suffix:
  assumes "CHR ''('' \<notin> set v"
  shows "ParseSuffix (m @ ''('' @ v @ '')'') =
    \<lparr>sr_ModelName = m, sr_HasSuffix = True, sr_RawSuffix = v\<rparr>"
proof -
  have "last_index (CHR ''('') (m @ CHR ''('' # v @ '')'') = Some (length m)"
    by (rule last_index_append) (use assms in auto)
  then show ?thesis
    by (simp add: ParseSuffix_def HasSuffix_snoc)
qed

lemma ParseSuffix_plain:
  "CHR ''('' \<notin> set m \<Longrightarrow>
   ParseSuffix m = \<lparr>sr_ModelName = m, sr_HasSuffix = False, sr_RawSuffix = []\<rparr>"
  by (simp add: ParseSuffix_def last_index_def)

lemma ParseSuffix_inverse:
  assumes "sr_HasSuffix (ParseSuffix model)"
  shows "model = sr_ModelName (ParseSuffix model) @ ''('' @ sr_RawSuffix (ParseSuffix model) @ '')''"
proof -
  from assms obtain i where i: "last_index (CHR ''('') model = Some i" and s: "HasSuffix model '')''"
    by (auto simp: ParseSuffix_def split: option.splits if_splits)
  from last_index_Some[OF i] obtain t where t: "model = take i model @ CHR ''('' # t" "CHR ''('' \<notin> set t"
    by blast
  from s have "last model = CHR '')''" by (simp add: HasSuffix_snoc)
  moreover have "last model = (if t = [] then CHR ''('' else last t)"
    by (subst t(1)) simp
  ultimately have "t \<noteq> []" "last t = CHR '')''" by (auto split: if_splits)
  then obtain v where v: "t = v @ '')''" by (metis append_butlast_last_id)
  with t have "ParseSuffix model = \<lparr>sr_ModelName = take i model, sr_HasSuffix = True, sr_RawSuffix = v\<rparr>"
    using ParseSuffix_suffix[of v "take i model"] by simp
  with t v show ?thesis by simp
qed

lemma canonicalModelKey_trim [simp]: "canonicalModelKey (TrimSpace m) = canonicalModelKey m"
  by (simp add: canonicalModelKey_def)

lemma TrimSpace_canonicalModelKey [simp]: "TrimSpace (canonicalModelKey m) = canonicalModelKey m"
  by (simp add: canonicalModelKey_def Let_def)

lemma canonicalModelKey_Nil [simp]: "canonicalModelKey [] = []"
  by (simp add: canonicalModelKey_def)

text \<open>
  Canonicalisation is idempotent as soon as the key holds no parenthesis, which the scheduler
  relies on when it canonicalises a key a second time.
\<close>

lemma canonicalModelKey_plain:
  "CHR ''('' \<notin> set m \<Longrightarrow> canonicalModelKey m = TrimSpace m"
proof -
  assume "CHR ''('' \<notin> set m"
  then have "CHR ''('' \<notin> set (TrimSpace m)" using set_TrimSpace by blast
  then show ?thesis by (simp add: canonicalModelKey_def ParseSuffix_plain Let_def)
qed

lemma canonicalModelKey_idem:
  "CHR ''('' \<notin> set (canonicalModelKey m) \<Longrightarrow>
   canonicalModelKey (canonicalModelKey m) = canonicalModelKey m"
  by (simp add: canonicalModelKey_plain)

section \<open>Properties\<close>

text \<open>\<open>ParseSuffix\<close> and the notation \<open>name(value)\<close> are inverse to each other: a value without
  an opening parenthesis is parsed back with its name, and a name that is found to have a suffix
  is the concatenation of its parts; without a suffix the model name is the input itself.\<close>

theorem ParseSuffix_roundtrip:
  "(CHR ''('' \<notin> set v \<longrightarrow>
      ParseSuffix (m @ ''('' @ v @ '')'') =
        \<lparr>sr_ModelName = m, sr_HasSuffix = True, sr_RawSuffix = v\<rparr>) \<and>
   (sr_HasSuffix (ParseSuffix model) \<longrightarrow>
      model = sr_ModelName (ParseSuffix model) @ ''('' @ sr_RawSuffix (ParseSuffix model) @ '')'') \<and>
   (\<not> sr_HasSuffix (ParseSuffix model) \<longrightarrow> sr_ModelName (ParseSuffix model) = model)"
proof (intro conjI impI)
  show "CHR ''('' \<notin> set v \<Longrightarrow> ParseSuffix (m @ ''('' @ v @ '')'') =
      \<lparr>sr_ModelName = m, sr_HasSuffix = True, sr_RawSuffix = v\<rparr>"
    by (rule ParseSuffix_suffix)
  show "sr_HasSuffix (ParseSuffix model) \<Longrightarrow>
      model = sr_ModelName (ParseSuffix model) @ ''('' @ sr_RawSuffix (ParseSuffix model) @ '')''"
    by (rule ParseSuffix_inverse)
  show "\<not> sr_HasSuffix (ParseSuffix model) \<Longrightarrow> sr_ModelName (ParseSuffix model) = model"
    by (auto simp: ParseSuffix_def split: option.splits)
qed

theorem ParseSuffix_roundtrip_witness:
  "ParseSuffix ''gpt-5.2(high)'' =
     \<lparr>sr_ModelName = ''gpt-5.2'', sr_HasSuffix = True, sr_RawSuffix = ''high''\<rparr>"
  using ParseSuffix_roundtrip[of "''high''" "''gpt-5.2''"] by simp

end
