(* ===== verification/Thinking.thy ===== *)
theory Thinking
  imports Suffix
begin

text \<open>
  Thinking configuration, \<open>internal/thinking\<close>: the conversion between budgets and levels
  (\<open>convert.go\<close>), the validation and clamping of a configuration against the capabilities of a
  model (\<open>validate.go\<close>) and the pure helpers of \<open>apply.go\<close>. Log calls and the human-readable
  texts of the errors are left out; an error keeps its code and its model.
\<close>

section \<open>Conversion between budgets and levels\<close>

definition levelToBudgetMap :: "(string, int) go_map" where
  "levelToBudgetMap =
     [(''none'', 0), (''auto'', - 1), (''minimal'', 512), (''low'', 1024), (''medium'', 8192),
      (''high'', 24576), (''xhigh'', 32768), (''max'', 128000)]"

definition ConvertLevelToBudget :: "string \<Rightarrow> int option" where
  "ConvertLevelToBudget level = map_of levelToBudgetMap (ToLower level)"

definition ThresholdMinimal :: int where "ThresholdMinimal = 512"
definition ThresholdLow :: int where "ThresholdLow = 1024"
definition ThresholdMedium :: int where "ThresholdMedium = 8192"
definition ThresholdHigh :: int where "ThresholdHigh = 24576"

definition ConvertBudgetToLevel :: "int \<Rightarrow> string option" where
  "ConvertBudgetToLevel budget =
     (if budget < - 1 then None
      else if budget = - 1 then Some LevelAuto
      else if budget = 0 then Some LevelNone
      else if budget \<le> ThresholdMinimal then Some LevelMinimal
      else if budget \<le> ThresholdLow then Some LevelLow
      else if budget \<le> ThresholdMedium then Some LevelMedium
      else if budget \<le> ThresholdHigh then Some LevelHigh
      else Some LevelXHigh)"

fun HasLevel :: "string list \<Rightarrow> string \<Rightarrow> bool" where
  "HasLevel [] target = False"
| "HasLevel (level # levels) target =
     (if EqualFold (TrimSpace level) target then True else HasLevel levels target)"

definition MapToClaudeEffort :: "string \<Rightarrow> bool \<Rightarrow> string option" where
  "MapToClaudeEffort level0 supportsMax =
     (let level = ToLower (TrimSpace level0)
      in if level = [] then None
         else if level = ''minimal'' then Some ''low''
         else if level = ''low'' \<or> level = ''medium'' \<or> level = ''high'' then Some level
         else if level = ''xhigh'' \<or> level = ''max'' then
           (if supportsMax then Some ''max'' else Some ''high'')
         else if level = ''auto'' then Some ''high''
         else None)"

section \<open>Model capabilities\<close>

text \<open>\<open>registry.ThinkingSupport\<close>, and the fields of \<open>registry.ModelInfo\<close> this package reads.\<close>

record ThinkingSupport =
  ts_Min :: int
  ts_Max :: int
  ts_ZeroAllowed :: bool
  ts_DynamicAllowed :: bool
  ts_Levels :: "string list"

record ModelInfo =
  mi_ID :: string
  mi_Type :: string
  mi_Thinking :: "ThinkingSupport option"
  mi_UserDefined :: bool

datatype ModelCapability =
  CapabilityUnknown | CapabilityNone | CapabilityBudgetOnly | CapabilityLevelOnly | CapabilityHybrid

definition detectModelCapability :: "ModelInfo option \<Rightarrow> ModelCapability" where
  "detectModelCapability modelInfo =
     (case modelInfo of
        None \<Rightarrow> CapabilityUnknown
      | Some mi \<Rightarrow>
          (case mi_Thinking mi of
             None \<Rightarrow> CapabilityNone
           | Some support \<Rightarrow>
               (let hasBudget = (ts_Min support > 0 \<or> ts_Max support > 0);
                    hasLevels = (ts_Levels support \<noteq> [])
                in if hasBudget \<and> hasLevels then CapabilityHybrid
                   else if hasBudget then CapabilityBudgetOnly
                   else if hasLevels then CapabilityLevelOnly
                   else CapabilityNone)))"

fun isLevelSupported :: "string \<Rightarrow> string list \<Rightarrow> bool" where
  "isLevelSupported level [] = False"
| "isLevelSupported level (s # supported) =
     (if EqualFold level (TrimSpace s) then True else isLevelSupported level supported)"

definition standardLevelOrder :: "ThinkingLevel list" where
  "standardLevelOrder = [LevelMinimal, LevelLow, LevelMedium, LevelHigh, LevelXHigh, LevelMax]"

fun levelIndexFrom :: "int \<Rightarrow> string \<Rightarrow> ThinkingLevel list \<Rightarrow> int" where
  "levelIndexFrom i level [] = - 1"
| "levelIndexFrom i level (l # ls) =
     (if EqualFold level l then i else levelIndexFrom (i + 1) level ls)"

definition levelIndex :: "string \<Rightarrow> int" where
  "levelIndex level = levelIndexFrom 0 level standardLevelOrder"

text \<open>\<open>modelInfo.Thinking\<close>, or \<open>nil\<close> where there is no model.\<close>

abbreviation thinking_of :: "ModelInfo option \<Rightarrow> ThinkingSupport option" where
  "thinking_of modelInfo \<equiv> Option.bind modelInfo mi_Thinking"

section \<open>Clamping\<close>

text \<open>The loop of \<open>clampLevel\<close> over the supported levels, carrying the best index and distance.\<close>

fun clampLevelLoop :: "int \<Rightarrow> int \<Rightarrow> int \<Rightarrow> string list \<Rightarrow> int \<times> int" where
  "clampLevelLoop pos bestIdx bestDist [] = (bestIdx, bestDist)"
| "clampLevelLoop pos bestIdx bestDist (s # supported) =
     (let idx = levelIndex (TrimSpace s)
      in if idx \<noteq> - 1 \<and> (\<bar>pos - idx\<bar> < bestDist \<or> (\<bar>pos - idx\<bar> = bestDist \<and> idx < bestIdx))
         then clampLevelLoop pos idx \<bar>pos - idx\<bar> supported
         else clampLevelLoop pos bestIdx bestDist supported)"

definition clampLevel :: "ThinkingLevel \<Rightarrow> ModelInfo option \<Rightarrow> ThinkingLevel" where
  "clampLevel level modelInfo =
     (let supported = (case thinking_of modelInfo of None \<Rightarrow> [] | Some t \<Rightarrow> ts_Levels t)
      in if supported = [] \<or> isLevelSupported level supported then level
         else let pos = levelIndex level
              in if pos = - 1 then level
                 else let (bestIdx, bestDist) =
                            clampLevelLoop pos (- 1) (int (length standardLevelOrder) + 1) supported
                      in if bestIdx \<ge> 0 then standardLevelOrder ! nat bestIdx else level)"

definition clampBudget :: "int \<Rightarrow> ModelInfo option \<Rightarrow> int" where
  "clampBudget value modelInfo =
     (case thinking_of modelInfo of
        None \<Rightarrow> value
      | Some support \<Rightarrow>
          if value = - 1 then value
          else if value = 0 \<and> \<not> ts_ZeroAllowed support then ts_Min support
          else if ts_Min support = 0 \<and> ts_Max support = 0 then value
          else if value < ts_Min support then
            (if value = 0 \<and> ts_ZeroAllowed support then 0 else ts_Min support)
          else if value > ts_Max support then ts_Max support
          else value)"

definition convertAutoToMidRange :: "ThinkingConfig \<Rightarrow> ThinkingSupport \<Rightarrow> ThinkingConfig" where
  "convertAutoToMidRange config support =
     (if ts_Levels support \<noteq> [] \<and> ts_Min support = 0 \<and> ts_Max support = 0 then
        config\<lparr>tc_Mode := ModeLevel, tc_Level := LevelMedium, tc_Budget := 0\<rparr>
      else
        let mid = go_div (int64 (ts_Min support + ts_Max support)) 2
        in if mid \<le> 0 \<and> ts_ZeroAllowed support then config\<lparr>tc_Mode := ModeNone, tc_Budget := 0\<rparr>
           else if mid \<le> 0 then config\<lparr>tc_Mode := ModeBudget, tc_Budget := ts_Min support\<rparr>
           else config\<lparr>tc_Mode := ModeBudget, tc_Budget := mid\<rparr>)"

section \<open>Provider families\<close>

definition isBudgetCapableProvider :: "string \<Rightarrow> bool" where
  "isBudgetCapableProvider provider \<longleftrightarrow> provider \<in> {''gemini'', ''antigravity'', ''claude''}"

definition isGeminiFamily :: "string \<Rightarrow> bool" where
  "isGeminiFamily provider \<longleftrightarrow> provider \<in> {''gemini'', ''antigravity''}"

definition isOpenAIFamily :: "string \<Rightarrow> bool" where
  "isOpenAIFamily provider \<longleftrightarrow> provider \<in> {''openai'', ''openai-response'', ''codex''}"

definition isSameProviderFamily :: "string \<Rightarrow> string \<Rightarrow> bool" where
  "isSameProviderFamily fromP toP \<longleftrightarrow>
     (if fromP = toP then True
      else (isGeminiFamily fromP \<and> isGeminiFamily toP) \<or> (isOpenAIFamily fromP \<and> isOpenAIFamily toP))"

section \<open>Validation\<close>

text \<open>The message and the details of an error, which are text for the client, are left out.\<close>

datatype ErrorCode =
    ErrInvalidSuffix
  | ErrUnknownLevel
  | ErrThinkingNotSupported
  | ErrLevelNotSupported
  | ErrBudgetOutOfRange
  | ErrProviderMismatch

record ThinkingError =
  te_Code :: ErrorCode
  te_Model :: string

definition NewThinkingError :: "ErrorCode \<Rightarrow> ThinkingError" where
  "NewThinkingError code = \<lparr>te_Code = code, te_Model = []\<rparr>"

definition NewThinkingErrorWithModel :: "ErrorCode \<Rightarrow> string \<Rightarrow> ThinkingError" where
  "NewThinkingErrorWithModel code model = \<lparr>te_Code = code, te_Model = model\<rparr>"

text \<open>
  The stages of \<open>ValidateConfig\<close> in the order of the code. First the switch on the capability,
  which converts between budget and level; the flag is \<open>budgetDerivedFromLevel\<close>.
\<close>

definition convertForCapability ::
  "ThinkingConfig \<Rightarrow> ModelInfo option \<Rightarrow> ThinkingError + (ThinkingConfig \<times> bool)" where
  "convertForCapability config modelInfo =
     (case detectModelCapability modelInfo of
        CapabilityBudgetOnly \<Rightarrow>
          if tc_Mode config = ModeLevel then
            if tc_Level config = LevelAuto then Inr (config, False)
            else (case ConvertLevelToBudget (tc_Level config) of
                    None \<Rightarrow> Inl (NewThinkingError ErrUnknownLevel)
                  | Some budget \<Rightarrow>
                      Inr (config\<lparr>tc_Mode := ModeBudget, tc_Budget := budget, tc_Level := []\<rparr>, True))
          else Inr (config, False)
      | CapabilityLevelOnly \<Rightarrow>
          if tc_Mode config = ModeBudget then
            (case ConvertBudgetToLevel (tc_Budget config) of
               None \<Rightarrow> Inl (NewThinkingError ErrUnknownLevel)
             | Some level \<Rightarrow>
                 Inr (config\<lparr>tc_Mode := ModeLevel, tc_Level := clampLevel level modelInfo,
                             tc_Budget := 0\<rparr>, False))
          else Inr (config, False)
      | _ \<Rightarrow> Inr (config, False))"

text \<open>Then the special levels and the zero budget are normalised to their modes.\<close>

definition normalizeSpecials :: "ThinkingConfig \<Rightarrow> ThinkingConfig" where
  "normalizeSpecials config0 =
     (let config1 = (if tc_Mode config0 = ModeLevel \<and> tc_Level config0 = LevelNone
                     then config0\<lparr>tc_Mode := ModeNone, tc_Budget := 0, tc_Level := []\<rparr> else config0);
          config2 = (if tc_Mode config1 = ModeLevel \<and> tc_Level config1 = LevelAuto
                     then config1\<lparr>tc_Mode := ModeAuto, tc_Budget := - 1, tc_Level := []\<rparr> else config1)
      in if tc_Mode config2 = ModeBudget \<and> tc_Budget config2 = 0
         then config2\<lparr>tc_Mode := ModeNone, tc_Level := []\<rparr> else config2)"

text \<open>A level the model lacks is clamped across families and rejected otherwise.\<close>

definition checkLevel ::
  "ThinkingConfig \<Rightarrow> ThinkingSupport \<Rightarrow> ModelInfo option \<Rightarrow> bool \<Rightarrow> ThinkingError + ThinkingConfig" where
  "checkLevel config support modelInfo allowClampUnsupported =
     (if ts_Levels support \<noteq> [] \<and> tc_Mode config = ModeLevel \<and>
         \<not> isLevelSupported (tc_Level config) (ts_Levels support) then
        let config' = (if allowClampUnsupported
                       then config\<lparr>tc_Level := clampLevel (tc_Level config) modelInfo\<rparr> else config)
        in if \<not> isLevelSupported (tc_Level config') (ts_Levels support)
           then Inl (NewThinkingError ErrLevelNotSupported) else Inr config'
      else Inr config)"

definition checkBudget ::
  "ThinkingConfig \<Rightarrow> ThinkingSupport \<Rightarrow> bool \<Rightarrow> bool \<Rightarrow> ThinkingError + ThinkingConfig" where
  "checkBudget config support strictBudget budgetDerivedFromLevel =
     (if strictBudget \<and> tc_Mode config = ModeBudget \<and> \<not> budgetDerivedFromLevel \<and>
         (ts_Min support \<noteq> 0 \<or> ts_Max support \<noteq> 0) \<and>
         (tc_Budget config < ts_Min support \<or> tc_Budget config > ts_Max support \<or>
          (tc_Budget config = 0 \<and> \<not> ts_ZeroAllowed support))
      then Inl (NewThinkingError ErrBudgetOutOfRange) else Inr config)"

definition resolveAuto :: "ThinkingConfig \<Rightarrow> ThinkingSupport \<Rightarrow> ModelInfo option \<Rightarrow> ThinkingConfig" where
  "resolveAuto config support modelInfo =
     (if tc_Mode config = ModeAuto \<and> \<not> ts_DynamicAllowed support then
        let config' = convertAutoToMidRange config support
        in if tc_Mode config' = ModeLevel \<and> ts_Levels support \<noteq> [] \<and>
              \<not> isLevelSupported (tc_Level config') (ts_Levels support)
           then config'\<lparr>tc_Level := clampLevel (tc_Level config') modelInfo\<rparr> else config'
      else config)"

definition finalClamp ::
  "ThinkingConfig \<Rightarrow> ThinkingSupport \<Rightarrow> ModelInfo option \<Rightarrow> string \<Rightarrow> ThinkingConfig" where
  "finalClamp config support modelInfo toFormat =
     (if tc_Mode config = ModeNone \<and> toFormat = ''claude''
      then config\<lparr>tc_Budget := 0, tc_Level := []\<rparr>
      else
        let config' = (case tc_Mode config of
                         ModeLevel \<Rightarrow> config
                       | _ \<Rightarrow> config\<lparr>tc_Budget := clampBudget (tc_Budget config) modelInfo\<rparr>);
            cannotDisableLevelModel =
              (\<not> ts_ZeroAllowed support \<and> \<not> isLevelSupported LevelNone (ts_Levels support))
        in if tc_Mode config' = ModeNone \<and> ts_Levels support \<noteq> [] \<and>
              (tc_Budget config' > 0 \<or> cannotDisableLevelModel)
           then config'\<lparr>tc_Level := ts_Levels support ! 0\<rparr> else config')"

definition modelFamilyMismatch :: "ModelInfo option \<Rightarrow> string \<Rightarrow> string \<Rightarrow> bool" where
  "modelFamilyMismatch modelInfo fromFormat toFormat =
     (case modelInfo of
        None \<Rightarrow> False
      | Some mi \<Rightarrow>
          (let modelType = ToLower (TrimSpace (mi_Type mi))
           in modelType \<noteq> [] \<and>
              ((fromFormat \<noteq> [] \<and> \<not> isSameProviderFamily fromFormat modelType) \<or>
               (toFormat \<noteq> [] \<and> \<not> isSameProviderFamily toFormat modelType))))"

definition ValidateConfig ::
  "ThinkingConfig \<Rightarrow> ModelInfo option \<Rightarrow> string \<Rightarrow> string \<Rightarrow> bool \<Rightarrow> ThinkingError + ThinkingConfig" where
  "ValidateConfig config modelInfo fromFormat0 toFormat0 fromSuffix =
     (let fromFormat = ToLower (TrimSpace fromFormat0);
          toFormat = ToLower (TrimSpace toFormat0);
          model = (case modelInfo of None \<Rightarrow> ''unknown''
                   | Some mi \<Rightarrow> if mi_ID mi \<noteq> [] then mi_ID mi else ''unknown'')
      in case thinking_of modelInfo of
           None \<Rightarrow>
             if tc_Mode config \<noteq> ModeNone
             then Inl (NewThinkingErrorWithModel ErrThinkingNotSupported model)
             else Inr config
         | Some support \<Rightarrow>
             (let toCapability = detectModelCapability modelInfo;
                  toHasLevelSupport = (toCapability = CapabilityLevelOnly \<or> toCapability = CapabilityHybrid);
                  mismatch = modelFamilyMismatch modelInfo fromFormat toFormat;
                  allowClampUnsupported =
                    (toHasLevelSupport \<and> (\<not> isSameProviderFamily fromFormat toFormat \<or> mismatch));
                  strictBudget =
                    (\<not> fromSuffix \<and> fromFormat \<noteq> [] \<and> isSameProviderFamily fromFormat toFormat \<and> \<not> mismatch)
              in case convertForCapability config modelInfo of
                   Inl e \<Rightarrow> Inl e
                 | Inr (config1, budgetDerivedFromLevel) \<Rightarrow>
                     (case checkLevel (normalizeSpecials config1) support modelInfo allowClampUnsupported of
                        Inl e \<Rightarrow> Inl e
                      | Inr config2 \<Rightarrow>
                          (case checkBudget config2 support strictBudget budgetDerivedFromLevel of
                             Inl e \<Rightarrow> Inl e
                           | Inr config3 \<Rightarrow>
                               Inr (finalClamp (resolveAuto config3 support modelInfo)
                                      support modelInfo toFormat)))))"

section \<open>Helpers of apply.go\<close>

definition emptyThinkingConfig :: ThinkingConfig where
  "emptyThinkingConfig = \<lparr>tc_Mode = ModeBudget, tc_Budget = 0, tc_Level = []\<rparr>"

definition IsUserDefinedModel :: "ModelInfo option \<Rightarrow> bool" where
  "IsUserDefinedModel modelInfo = (case modelInfo of None \<Rightarrow> True | Some mi \<Rightarrow> mi_UserDefined mi)"

definition thinkingIsFullyDisabled :: "ThinkingConfig \<Rightarrow> bool" where
  "thinkingIsFullyDisabled config \<longleftrightarrow>
     tc_Mode config = ModeNone \<and> tc_Budget config = 0 \<and> tc_Level config = []"

definition shouldMapConfiguredHighIntent :: "string \<Rightarrow> string \<Rightarrow> ModelInfo option \<Rightarrow> bool" where
  "shouldMapConfiguredHighIntent fromFormat0 toFormat0 modelInfo =
     (let fromFormat = ToLower (TrimSpace fromFormat0);
          toFormat = ToLower (TrimSpace toFormat0)
      in if fromFormat \<noteq> toFormat then True
         else case modelInfo of
                None \<Rightarrow> False
              | Some mi \<Rightarrow> (let modelType = ToLower (TrimSpace (mi_Type mi))
                          in modelType \<noteq> [] \<and> \<not> isSameProviderFamily toFormat modelType))"

definition mapConfiguredHighIntent :: "ThinkingLevel \<Rightarrow> ModelInfo option \<Rightarrow> ThinkingLevel" where
  "mapConfiguredHighIntent level0 modelInfo =
     (case thinking_of modelInfo of
        None \<Rightarrow> level0
      | Some support \<Rightarrow>
          if ts_Levels support = [] then level0
          else let level = ToLower (TrimSpace level0);
                   candidates = (if level = LevelXHigh then [LevelXHigh, LevelMax, LevelHigh]
                                 else if level = LevelMax then [LevelMax, LevelXHigh, LevelHigh]
                                 else [])
               in case find (\<lambda>c. isLevelSupported c (ts_Levels support)) candidates of
                    None \<Rightarrow> level
                  | Some candidate \<Rightarrow> candidate)"

definition parseSuffixToConfig :: "string \<Rightarrow> ThinkingConfig" where
  "parseSuffixToConfig rawSuffix =
     (case ParseSpecialSuffix rawSuffix of
        (ModeNone, True) \<Rightarrow> \<lparr>tc_Mode = ModeNone, tc_Budget = 0, tc_Level = []\<rparr>
      | (ModeAuto, True) \<Rightarrow> \<lparr>tc_Mode = ModeAuto, tc_Budget = - 1, tc_Level = []\<rparr>
      | _ \<Rightarrow>
          (case ParseLevelSuffix rawSuffix of
             Some level \<Rightarrow> \<lparr>tc_Mode = ModeLevel, tc_Budget = 0, tc_Level = level\<rparr>
           | None \<Rightarrow>
               (case ParseNumericSuffix rawSuffix of
                  Some budget \<Rightarrow>
                    if budget = 0 then \<lparr>tc_Mode = ModeNone, tc_Budget = 0, tc_Level = []\<rparr>
                    else \<lparr>tc_Mode = ModeBudget, tc_Budget = budget, tc_Level = []\<rparr>
                | None \<Rightarrow> emptyThinkingConfig)))"

definition normalizeUserDefinedConfig :: "ThinkingConfig \<Rightarrow> string \<Rightarrow> ThinkingConfig" where
  "normalizeUserDefinedConfig config toFormat =
     (if tc_Mode config \<noteq> ModeLevel then config
      else if toFormat = ''claude'' then config
      else if \<not> isBudgetCapableProvider toFormat then config
      else case ConvertLevelToBudget (tc_Level config) of
             None \<Rightarrow> config
           | Some budget \<Rightarrow> config\<lparr>tc_Mode := ModeBudget, tc_Budget := budget, tc_Level := []\<rparr>)"

definition hasThinkingConfig :: "ThinkingConfig \<Rightarrow> bool" where
  "hasThinkingConfig config \<longleftrightarrow>
     tc_Mode config \<noteq> ModeBudget \<or> tc_Budget config \<noteq> 0 \<or> tc_Level config \<noteq> []"

definition reasoningEffortFromConfig :: "ThinkingConfig \<Rightarrow> string" where
  "reasoningEffortFromConfig config =
     (if \<not> hasThinkingConfig config then []
      else case tc_Mode config of
             ModeNone \<Rightarrow> LevelNone
           | ModeAuto \<Rightarrow> LevelAuto
           | ModeLevel \<Rightarrow> ToLower (TrimSpace (tc_Level config))
           | ModeBudget \<Rightarrow>
               (case ConvertBudgetToLevel (tc_Budget config) of None \<Rightarrow> [] | Some level \<Rightarrow> level))"

definition reasoningEffortFromSuffix :: "SuffixResult \<Rightarrow> string" where
  "reasoningEffortFromSuffix suffix =
     (if \<not> sr_HasSuffix suffix then []
      else reasoningEffortFromConfig (parseSuffixToConfig (sr_RawSuffix suffix)))"

section \<open>Facts about levels\<close>

lemma isLevelSupported_iff:
  "isLevelSupported level xs \<longleftrightarrow> (\<exists>s \<in> set xs. EqualFold level (TrimSpace s))"
  by (induction xs) auto

lemma standardLevelOrder_length [simp]: "length standardLevelOrder = 6"
  by (simp add: standardLevelOrder_def)

lemma levelIndexFrom_cases:
  "levelIndexFrom i level ls = - 1 \<or>
   (\<exists>k < length ls. levelIndexFrom i level ls = i + int k \<and> EqualFold level (ls ! k))"
proof (induction ls arbitrary: i)
  case (Cons l ls)
  show ?case
  proof (cases "EqualFold level l")
    case True
    then show ?thesis by (auto intro: exI[of _ 0])
  next
    case False
    with Cons[of "i + 1"] show ?thesis
      by (auto intro: exI[of _ "Suc _"])
  qed
qed simp

lemma levelIndex_cases:
  obtains "levelIndex level = - 1"
  | k where "k < 6" "levelIndex level = int k" "EqualFold level (standardLevelOrder ! k)"
  using levelIndexFrom_cases[of 0 level standardLevelOrder] by (auto simp: levelIndex_def)

lemma levelIndex_le: "levelIndex level \<le> 5"
  by (cases level rule: levelIndex_cases) auto

lemma levelIndex_nonneg: "levelIndex level \<noteq> - 1 \<Longrightarrow> 0 \<le> levelIndex level"
  by (cases level rule: levelIndex_cases) auto

text \<open>
  The loop keeps the candidate that is smallest in the order "distance first, index second":
  nothing it has seen is better than its result, and its result is one of the candidates.
\<close>

lemma clampLevelLoop_spec:
  assumes "clampLevelLoop pos bi bd xs = (bi', bd')"
  shows "(bd' < bd \<or> (bd' = bd \<and> bi' \<le> bi)) \<and>
         ((bi', bd') = (bi, bd) \<or>
           (\<exists>s \<in> set xs. levelIndex (TrimSpace s) = bi' \<and> bi' \<noteq> - 1 \<and> bd' = \<bar>pos - bi'\<bar>)) \<and>
         (\<forall>s \<in> set xs. levelIndex (TrimSpace s) \<noteq> - 1 \<longrightarrow>
            bd' < \<bar>pos - levelIndex (TrimSpace s)\<bar> \<or>
            (bd' = \<bar>pos - levelIndex (TrimSpace s)\<bar> \<and> bi' \<le> levelIndex (TrimSpace s)))"
  using assms
proof (induction xs arbitrary: bi bd)
  case (Cons s xs)
  let ?i = "levelIndex (TrimSpace s)"
  show ?case
  proof (cases "?i \<noteq> - 1 \<and> (\<bar>pos - ?i\<bar> < bd \<or> (\<bar>pos - ?i\<bar> = bd \<and> ?i < bi))")
    case True
    with Cons.prems have "clampLevelLoop pos ?i \<bar>pos - ?i\<bar> xs = (bi', bd')"
      by (simp add: Let_def)
    from Cons.IH[OF this] True show ?thesis by (auto simp del: TrimSpace_idem)
  next
    case False
    with Cons.prems have "clampLevelLoop pos bi bd xs = (bi', bd')"
      by (auto simp add: Let_def)
    from Cons.IH[OF this] False show ?thesis by (auto simp del: TrimSpace_idem)
  qed
qed simp

text \<open>What the clamped level is where the model has a level of the standard order.\<close>

lemma clampLevel_nearest:
  assumes sup: "thinking_of mi = Some t" and ns: "\<not> isLevelSupported level (ts_Levels t)"
    and pos: "levelIndex level \<noteq> - 1"
    and s: "s \<in> set (ts_Levels t)" "levelIndex (TrimSpace s) \<noteq> - 1"
  obtains k s' where "k < 6" "clampLevel level mi = standardLevelOrder ! k"
    "s' \<in> set (ts_Levels t)" "levelIndex (TrimSpace s') = int k"
    "\<bar>levelIndex level - int k\<bar> \<le> \<bar>levelIndex level - levelIndex (TrimSpace s)\<bar>"
    "\<bar>levelIndex level - int k\<bar> = \<bar>levelIndex level - levelIndex (TrimSpace s)\<bar> \<Longrightarrow>
       int k \<le> levelIndex (TrimSpace s)"
proof -
  let ?pos = "levelIndex level"
  obtain bi bd where loop: "clampLevelLoop ?pos (- 1) 7 (ts_Levels t) = (bi, bd)"
    by fastforce
  note spec = clampLevelLoop_spec[OF loop]
  have d: "\<bar>?pos - levelIndex (TrimSpace s)\<bar> < 7"
    using levelIndex_le[of level] levelIndex_le[of "TrimSpace s"] levelIndex_nonneg[OF pos]
      levelIndex_nonneg[OF s(2)] by linarith
  have le: "bd < \<bar>?pos - levelIndex (TrimSpace s)\<bar> \<or>
      (bd = \<bar>?pos - levelIndex (TrimSpace s)\<bar> \<and> bi \<le> levelIndex (TrimSpace s))"
    using spec s by blast
  then have "bd \<noteq> 7" using d by linarith
  with spec obtain s' where s': "s' \<in> set (ts_Levels t)" "levelIndex (TrimSpace s') = bi"
    "bi \<noteq> - 1" "bd = \<bar>?pos - bi\<bar>"
    by auto
  then obtain k where k: "k < 6" "bi = int k"
    by (cases "TrimSpace s'" rule: levelIndex_cases) auto
  have "ts_Levels t \<noteq> []" using s by auto
  then have "clampLevel level mi = standardLevelOrder ! k"
    using sup ns pos loop k by (simp add: clampLevel_def)
  with k s' le show thesis by (intro that[of k s']) auto
qed

lemma levelIndex_standard: "k < 6 \<Longrightarrow> levelIndex s = int k \<Longrightarrow> EqualFold (standardLevelOrder ! k) s"
  by (cases s rule: levelIndex_cases) (auto simp: EqualFold_def)

lemma clampLevel_supported:
  assumes "thinking_of mi = Some t" "levelIndex level \<noteq> - 1"
    "\<exists>s \<in> set (ts_Levels t). levelIndex (TrimSpace s) \<noteq> - 1"
  shows "isLevelSupported (clampLevel level mi) (ts_Levels t)"
proof (cases "isLevelSupported level (ts_Levels t)")
  case True
  with assms show ?thesis by (simp add: clampLevel_def Let_def)
next
  case False
  from assms obtain s where "s \<in> set (ts_Levels t)" "levelIndex (TrimSpace s) \<noteq> - 1" by blast
  with assms False obtain k s' where "k < 6" "clampLevel level mi = standardLevelOrder ! k"
    "s' \<in> set (ts_Levels t)" "levelIndex (TrimSpace s') = int k"
    using clampLevel_nearest by metis
  then show ?thesis by (auto simp: isLevelSupported_iff intro: levelIndex_standard)
qed

lemma levelIndex_nth: "k < 6 \<Longrightarrow> levelIndex (standardLevelOrder ! k) = int k"
proof -
  have "\<forall>k \<in> {0, 1, 2, 3, 4, 5}. levelIndex (standardLevelOrder ! k) = int k" by code_simp
  moreover assume "k < 6"
  then have "k \<in> {0, 1, 2, 3, 4, 5}" by auto
  ultimately show ?thesis by blast
qed

lemma levelIndex_LevelMedium: "levelIndex LevelMedium = 2"
  by code_simp

section \<open>Facts about budgets\<close>

lemma clampBudget_range:
  assumes "thinking_of mi = Some t" "ts_Min t \<noteq> 0 \<or> ts_Max t \<noteq> 0" "ts_Min t \<le> ts_Max t" "v \<noteq> - 1"
  shows "(ts_Min t \<le> clampBudget v mi \<and> clampBudget v mi \<le> ts_Max t) \<or>
         (clampBudget v mi = 0 \<and> ts_ZeroAllowed t)"
  using assms by (auto simp: clampBudget_def)

lemma clampBudget_auto [simp]: "clampBudget (- 1) mi = - 1"
  by (auto simp: clampBudget_def split: option.splits)

lemma normalizeSpecials_budget:
  "tc_Mode (normalizeSpecials c) = ModeBudget \<Longrightarrow> tc_Budget (normalizeSpecials c) \<noteq> 0"
  by (auto simp: normalizeSpecials_def Let_def split: if_splits)

lemma finalClamp_budget:
  "tc_Mode (finalClamp c t mi f) = ModeBudget \<Longrightarrow>
   tc_Mode c = ModeBudget \<and> tc_Budget (finalClamp c t mi f) = clampBudget (tc_Budget c) mi"
  by (auto simp: finalClamp_def Let_def split: if_splits ThinkingMode.splits)

lemma finalClamp_level:
  "tc_Mode (finalClamp c t mi f) = ModeLevel \<Longrightarrow>
   tc_Mode c = ModeLevel \<and> tc_Level (finalClamp c t mi f) = tc_Level c"
  by (auto simp: finalClamp_def Let_def split: if_splits ThinkingMode.splits)

lemma ValidateConfig_cases:
  assumes "ValidateConfig config mi ff tf sfx = Inr c" "thinking_of mi = Some t"
  obtains c1 b allow c2 where "convertForCapability config mi = Inr (c1, b)"
    "checkLevel (normalizeSpecials c1) t mi allow = Inr c2"
    "c = finalClamp (resolveAuto c2 t mi) t mi (ToLower (TrimSpace tf))"
  using assms
  by (auto simp: ValidateConfig_def Let_def checkBudget_def split: sum.splits if_splits prod.splits)

lemma checkLevel_budget:
  "checkLevel c t mi allow = Inr c' \<Longrightarrow> tc_Mode c' = tc_Mode c \<and> tc_Budget c' = tc_Budget c"
  by (auto simp: checkLevel_def Let_def split: if_splits)

lemma checkLevel_supported:
  "checkLevel c t mi allow = Inr c' \<Longrightarrow> tc_Mode c' = ModeLevel \<Longrightarrow> ts_Levels t \<noteq> [] \<Longrightarrow>
   isLevelSupported (tc_Level c') (ts_Levels t)"
  by (auto simp: checkLevel_def Let_def split: if_splits)

lemma resolveAuto_other: "tc_Mode c \<noteq> ModeAuto \<Longrightarrow> resolveAuto c t mi = c"
  by (simp add: resolveAuto_def)

lemma resolveAuto_budget:
  assumes "tc_Mode c = ModeAuto" "tc_Mode (resolveAuto c t mi) = ModeBudget"
  shows "tc_Budget (resolveAuto c t mi) > 0 \<or> tc_Budget (resolveAuto c t mi) = ts_Min t"
  using assms by (auto simp: resolveAuto_def convertAutoToMidRange_def Let_def split: if_splits)

lemma resolveAuto_level:
  assumes "tc_Mode c = ModeAuto" "tc_Mode (resolveAuto c t mi) = ModeLevel"
    "thinking_of mi = Some t" "\<exists>s \<in> set (ts_Levels t). levelIndex (TrimSpace s) \<noteq> - 1"
  shows "isLevelSupported (tc_Level (resolveAuto c t mi)) (ts_Levels t)"
  using assms clampLevel_supported[OF assms(3) _ assms(4), of LevelMedium]
  by (auto simp: resolveAuto_def convertAutoToMidRange_def Let_def levelIndex_LevelMedium
      split: if_splits)

lemma ConvertLevelToBudget_auto:
  "ConvertLevelToBudget l = Some (- 1) \<longleftrightarrow> ToLower l = ''auto''"
  by (auto simp: ConvertLevelToBudget_def levelToBudgetMap_def split: if_splits)

lemma convertForCapability_budget:
  assumes "convertForCapability config mi = Inr (c1, b)" "tc_Mode c1 = ModeBudget"
    "tc_Mode config = ModeBudget \<longrightarrow> tc_Budget config \<noteq> - 1"
    "tc_Mode config = ModeLevel \<and> ToLower (tc_Level config) = LevelAuto \<longrightarrow> tc_Level config = LevelAuto"
  shows "tc_Budget c1 \<noteq> - 1"
  using assms
  by (auto simp: convertForCapability_def ConvertLevelToBudget_auto[symmetric] LevelAuto_def
      split: if_splits ModelCapability.splits option.splits)

lemma normalizeSpecials_ModeBudget:
  "tc_Mode (normalizeSpecials c) = ModeBudget \<Longrightarrow>
   tc_Mode c = ModeBudget \<and> tc_Budget (normalizeSpecials c) = tc_Budget c"
  by (auto simp: normalizeSpecials_def Let_def split: if_splits)

lemmas threshold_defs = ThresholdMinimal_def ThresholdLow_def ThresholdMedium_def ThresholdHigh_def

lemma level_budgets:
  "ConvertLevelToBudget LevelMinimal = Some 512" "ConvertLevelToBudget LevelLow = Some 1024"
  "ConvertLevelToBudget LevelMedium = Some 8192" "ConvertLevelToBudget LevelHigh = Some 24576"
  "ConvertLevelToBudget LevelXHigh = Some 32768"
  by code_simp+

lemma level_indices:
  "levelIndex LevelMinimal = 0" "levelIndex LevelLow = 1" "levelIndex LevelMedium = 2"
  "levelIndex LevelHigh = 3" "levelIndex LevelXHigh = 4"
  by code_simp+

text \<open>Two models of the kinds the registry holds, used as concrete inputs below.\<close>

definition budget_model :: ModelInfo where
  "budget_model =
     \<lparr>mi_ID = ''gemini-2.5-pro'', mi_Type = ''gemini'',
      mi_Thinking = Some \<lparr>ts_Min = 128, ts_Max = 32768, ts_ZeroAllowed = False,
        ts_DynamicAllowed = True, ts_Levels = []\<rparr>, mi_UserDefined = False\<rparr>"

definition level_model :: ModelInfo where
  "level_model =
     \<lparr>mi_ID = ''kimi-k2'', mi_Type = ''kimi'',
      mi_Thinking = Some \<lparr>ts_Min = 0, ts_Max = 0, ts_ZeroAllowed = True,
        ts_DynamicAllowed = False, ts_Levels = [''low'', ''high'']\<rparr>, mi_UserDefined = False\<rparr>"

lemma validate_budget_example:
  "ValidateConfig \<lparr>tc_Mode = ModeBudget, tc_Budget = 100000, tc_Level = []\<rparr> (Some budget_model)
     ''openai'' ''gemini'' False =
   Inr \<lparr>tc_Mode = ModeBudget, tc_Budget = 32768, tc_Level = []\<rparr>"
  by code_simp

lemma validate_level_example:
  "ValidateConfig \<lparr>tc_Mode = ModeLevel, tc_Budget = 0, tc_Level = LevelMax\<rparr> (Some level_model)
     ''claude'' ''claude'' False =
   Inr \<lparr>tc_Mode = ModeLevel, tc_Budget = 0, tc_Level = LevelHigh\<rparr>"
  by code_simp

section \<open>Properties\<close>

text \<open>C40. A configuration that \<open>ValidateConfig\<close> accepts with a numeric budget, for a model that has a budget range, has
  a budget the model can take, in the range of the model or zero where zero is allowed, with one exception: the
  budget is -1 where the input was the numeric budget -1 or a level that is "auto" only up to case, the two
  ways to write "auto" that the code does not normalise.\<close>

theorem ValidateConfig_budget_in_range:
  assumes "ValidateConfig config mi ff tf sfx = Inr c" and "thinking_of mi = Some t"
    and "tc_Mode c = ModeBudget"
    and "ts_Min t \<noteq> 0 \<or> ts_Max t \<noteq> 0" and "ts_Min t \<le> ts_Max t"
  shows "(ts_Min t \<le> tc_Budget c \<and> tc_Budget c \<le> ts_Max t) \<or> (tc_Budget c = 0 \<and> ts_ZeroAllowed t) \<or>
    (tc_Budget c = - 1 \<and>
      (tc_Mode config = ModeBudget \<and> tc_Budget config = - 1 \<or>
       tc_Mode config = ModeLevel \<and> ToLower (tc_Level config) = LevelAuto \<and> tc_Level config \<noteq> LevelAuto))"
proof -
  obtain c1 b allow c2 where c1: "convertForCapability config mi = Inr (c1, b)"
    and c2: "checkLevel (normalizeSpecials c1) t mi allow = Inr c2"
    and c: "c = finalClamp (resolveAuto c2 t mi) t mi (ToLower (TrimSpace tf))"
    using assms(1,2) by (rule ValidateConfig_cases)
  let ?r = "resolveAuto c2 t mi"
  have r: "tc_Mode ?r = ModeBudget" "tc_Budget c = clampBudget (tc_Budget ?r) mi"
    using finalClamp_budget assms(3) unfolding c by blast+
  show ?thesis
  proof (cases "tc_Budget ?r = - 1")
    case True
    show ?thesis
    proof (cases "tc_Mode c2 = ModeBudget")
      case budget: True
      then have "tc_Budget c1 = - 1" "tc_Mode c1 = ModeBudget"
        using checkLevel_budget[OF c2] normalizeSpecials_ModeBudget True resolveAuto_other
        by (metis ThinkingMode.distinct(5))+
      then show ?thesis using convertForCapability_budget[OF c1] True r(2) by auto
    next
      case False
      then have "tc_Mode c2 = ModeAuto" using r(1) resolveAuto_other by metis
      then have "ts_Min t = - 1" using resolveAuto_budget r(1) True by fastforce
      with True r(2) assms(5) show ?thesis by simp
    qed
  next
    case False
    show ?thesis unfolding r(2) using clampBudget_range[OF assms(2,4,5) False] by blast
  qed
qed

text \<open>The exception is real: on a model with budgets only, a strict request with the level "AUTO" is accepted with the
  budget -1, although the range starts at 128; the numeric budget -1 is rejected there.\<close>

lemma auto_level_leaves_range:
  "ValidateConfig \<lparr>tc_Mode = ModeLevel, tc_Budget = 0, tc_Level = ''AUTO''\<rparr> (Some budget_model) ''gemini'' ''gemini'' False =
     Inr \<lparr>tc_Mode = ModeBudget, tc_Budget = - 1, tc_Level = []\<rparr>"
  "ValidateConfig \<lparr>tc_Mode = ModeBudget, tc_Budget = - 1, tc_Level = []\<rparr> (Some budget_model) ''gemini'' ''gemini'' False =
     Inl (NewThinkingError ErrBudgetOutOfRange)"
  "ValidateConfig \<lparr>tc_Mode = ModeLevel, tc_Budget = 0, tc_Level = LevelAuto\<rparr> (Some budget_model) ''gemini'' ''gemini'' False =
     Inr \<lparr>tc_Mode = ModeAuto, tc_Budget = - 1, tc_Level = []\<rparr>"
  by code_simp+

text \<open>A configuration that \<open>ValidateConfig\<close> accepts with a level has a level the model lists,
  whenever the model lists at least one level of the standard order.\<close>

theorem ValidateConfig_level_supported:
  assumes "ValidateConfig config mi ff tf sfx = Inr c" and "thinking_of mi = Some t"
    and "tc_Mode c = ModeLevel"
    and "\<exists>s \<in> set (ts_Levels t). levelIndex (TrimSpace s) \<noteq> - 1"
  shows "isLevelSupported (tc_Level c) (ts_Levels t)"
proof -
  obtain c1 b allow c2 where c2: "checkLevel (normalizeSpecials c1) t mi allow = Inr c2"
    and c: "c = finalClamp (resolveAuto c2 t mi) t mi (ToLower (TrimSpace tf))"
    using assms(1,2) by (rule ValidateConfig_cases)
  let ?r = "resolveAuto c2 t mi"
  have r: "tc_Mode ?r = ModeLevel" "tc_Level c = tc_Level ?r"
    using finalClamp_level assms(3) unfolding c by blast+
  show ?thesis
  proof (cases "tc_Mode c2 = ModeAuto")
    case True
    with r resolveAuto_level[OF True r(1) assms(2,4)] show ?thesis by simp
  next
    case False
    have "ts_Levels t \<noteq> []" using assms(4) by auto
    with False r checkLevel_supported[OF c2] show ?thesis by (simp add: resolveAuto_other)
  qed
qed

theorem ValidateConfig_budget_in_range_witness:
  "ValidateConfig \<lparr>tc_Mode = ModeBudget, tc_Budget = 100000, tc_Level = []\<rparr> (Some budget_model)
     ''openai'' ''gemini'' False = Inr \<lparr>tc_Mode = ModeBudget, tc_Budget = 32768, tc_Level = []\<rparr> \<and>
   (128 \<le> (32768::int) \<and> (32768::int) \<le> 32768)"
  using validate_budget_example
    ValidateConfig_budget_in_range[OF validate_budget_example, of "the (mi_Thinking budget_model)"]
  by (simp add: budget_model_def)

theorem ValidateConfig_level_supported_witness:
  "ValidateConfig \<lparr>tc_Mode = ModeLevel, tc_Budget = 0, tc_Level = LevelMax\<rparr> (Some level_model)
     ''claude'' ''claude'' False = Inr \<lparr>tc_Mode = ModeLevel, tc_Budget = 0, tc_Level = LevelHigh\<rparr> \<and>
   isLevelSupported LevelHigh [''low'', ''high'']"
proof -
  have "levelIndex (TrimSpace ''low'') \<noteq> - 1" by code_simp
  then show ?thesis
    using validate_level_example
      ValidateConfig_level_supported[OF validate_level_example, of "the (mi_Thinking level_model)"]
    by (simp add: level_model_def)
qed

text \<open>The level an unsupported level is clamped to is a level of the model, no level of the
  standard order that the model lists is closer to the requested one, and on a tie the lower one
  is taken.\<close>

theorem clampLevel_is_nearest:
  assumes "thinking_of mi = Some t" and "\<not> isLevelSupported level (ts_Levels t)"
    and "levelIndex level \<noteq> - 1"
    and "s \<in> set (ts_Levels t)" and "levelIndex (TrimSpace s) \<noteq> - 1"
  shows "isLevelSupported (clampLevel level mi) (ts_Levels t) \<and>
    (\<bar>levelIndex level - levelIndex (clampLevel level mi)\<bar> < \<bar>levelIndex level - levelIndex (TrimSpace s)\<bar> \<or>
     (\<bar>levelIndex level - levelIndex (clampLevel level mi)\<bar> = \<bar>levelIndex level - levelIndex (TrimSpace s)\<bar> \<and>
      levelIndex (clampLevel level mi) \<le> levelIndex (TrimSpace s)))"
proof -
  obtain k s' where k: "k < 6" "clampLevel level mi = standardLevelOrder ! k"
    "\<bar>levelIndex level - int k\<bar> \<le> \<bar>levelIndex level - levelIndex (TrimSpace s)\<bar>"
    "\<bar>levelIndex level - int k\<bar> = \<bar>levelIndex level - levelIndex (TrimSpace s)\<bar> \<Longrightarrow>
       int k \<le> levelIndex (TrimSpace s)"
    using clampLevel_nearest[OF assms] by metis
  have "levelIndex (clampLevel level mi) = int k"
    using k(1,2) levelIndex_nth by simp
  moreover have "isLevelSupported (clampLevel level mi) (ts_Levels t)"
    using clampLevel_supported assms by blast
  ultimately show ?thesis using k(3,4) by fastforce
qed

theorem clampLevel_is_nearest_witness:
  "isLevelSupported (clampLevel LevelMedium (Some level_model)) [''low'', ''high''] \<and>
   levelIndex (clampLevel LevelMedium (Some level_model)) = 1"
proof -
  let ?t = "the (mi_Thinking level_model)"
  have h: "thinking_of (Some level_model) = Some ?t" "ts_Levels ?t = [''low'', ''high'']"
    by (simp_all add: level_model_def)
  have l: "\<not> isLevelSupported LevelMedium [''low'', ''high'']" "levelIndex (TrimSpace ''low'') = 1"
    "levelIndex (TrimSpace ''high'') = 3"
    by code_simp+
  have "isLevelSupported (clampLevel LevelMedium (Some level_model)) [''low'', ''high'']"
    using clampLevel_is_nearest[OF h(1), of LevelMedium "''low''"] h l levelIndex_LevelMedium
    by (simp del: isLevelSupported.simps)
  moreover have "levelIndex (clampLevel LevelMedium (Some level_model)) = 1" by code_simp
  ultimately show ?thesis by simp
qed

text \<open>A configuration that comes from a model suffix is never rejected for its range: a strict
  range error is possible only for a request body whose source and target are of one family.\<close>

theorem range_error_only_from_body:
  assumes "ValidateConfig config mi ff tf sfx = Inl e" and "te_Code e = ErrBudgetOutOfRange"
  shows "\<not> sfx \<and> isSameProviderFamily (ToLower (TrimSpace ff)) (ToLower (TrimSpace tf))"
  using assms
  by (auto simp: ValidateConfig_def Let_def checkBudget_def checkLevel_def convertForCapability_def
      NewThinkingError_def NewThinkingErrorWithModel_def
      split: option.splits sum.splits if_splits prod.splits ModelCapability.splits)

theorem range_error_only_from_body_witness:
  "ValidateConfig \<lparr>tc_Mode = ModeBudget, tc_Budget = 64, tc_Level = []\<rparr> (Some budget_model)
     ''gemini'' ''gemini'' False = Inl (NewThinkingError ErrBudgetOutOfRange) \<and>
   isSameProviderFamily (ToLower (TrimSpace ''gemini'')) (ToLower (TrimSpace ''gemini''))"
proof -
  have e: "ValidateConfig \<lparr>tc_Mode = ModeBudget, tc_Budget = 64, tc_Level = []\<rparr> (Some budget_model)
     ''gemini'' ''gemini'' False = Inl (NewThinkingError ErrBudgetOutOfRange)"
    by code_simp
  show ?thesis
    using e range_error_only_from_body[OF e] by (simp add: NewThinkingError_def)
qed

text \<open>Level and budget convert back and forth: the budget of every level but "max" converts to
  that level again, the level of a budget that is at most the "xhigh" budget has a budget no
  smaller than it, and larger budgets convert to levels that are no lower.\<close>

theorem level_budget_conversion:
  "(\<forall>level b. ConvertLevelToBudget level = Some b \<and> ToLower level \<noteq> LevelMax \<longrightarrow>
      ConvertBudgetToLevel b = Some (ToLower level)) \<and>
   (\<forall>b level. 0 < b \<and> b \<le> 32768 \<and> ConvertBudgetToLevel b = Some level \<longrightarrow>
      (\<exists>b'. ConvertLevelToBudget level = Some b' \<and> b \<le> b')) \<and>
   (\<forall>a b la lb. 0 < a \<and> a \<le> b \<and> ConvertBudgetToLevel a = Some la \<and>
      ConvertBudgetToLevel b = Some lb \<longrightarrow> levelIndex la \<le> levelIndex lb)"
proof (intro conjI allI impI; elim conjE)
  fix level b
  assume "ConvertLevelToBudget level = Some b" "ToLower level \<noteq> LevelMax"
  then show "ConvertBudgetToLevel b = Some (ToLower level)"
    by (auto simp: ConvertLevelToBudget_def levelToBudgetMap_def ConvertBudgetToLevel_def
        threshold_defs level_defs split: if_splits)
next
  fix b :: int and level
  assume "0 < b" "b \<le> 32768" "ConvertBudgetToLevel b = Some level"
  then show "\<exists>b'. ConvertLevelToBudget level = Some b' \<and> b \<le> b'"
    using level_budgets by (auto simp: ConvertBudgetToLevel_def threshold_defs split: if_splits)
next
  fix a b :: int and la lb
  assume "0 < a" "a \<le> b" "ConvertBudgetToLevel a = Some la" "ConvertBudgetToLevel b = Some lb"
  then show "levelIndex la \<le> levelIndex lb"
    using level_indices by (auto simp: ConvertBudgetToLevel_def threshold_defs split: if_splits)
qed

theorem level_budget_conversion_witness:
  "ConvertBudgetToLevel 8192 = Some ''medium''"
proof -
  have "ConvertLevelToBudget ''Medium'' = Some 8192" "ToLower ''Medium'' = ''medium''" by code_simp+
  then show ?thesis
    using conjunct1[OF level_budget_conversion, rule_format, of "''Medium''" 8192]
    by (simp add: LevelMax_def)
qed

end
