(* ===== verification/Auth.thy ===== *)
theory Auth
  imports Suffix
begin

text \<open>
  The credential record of \<open>sdk/aps/auth/types.go\<close> and what is read off it: the weight
  (\<open>internal/credentialweight\<close>, \<open>weight.go\<close>), the priority and the websocket flag
  (\<open>selector.go\<close>), the kind (\<open>classification.go\<close>), the executor key and the eligibility for a
  request (\<open>conductor_execution.go\<close>, \<open>conductor_selection.go\<close>), and the ring of recent requests.

  A \<open>*Auth\<close> that may be \<open>nil\<close> is an \<open>auth option\<close>. Fields no modelled operation reads (labels
  of the management UI, token storage, proxy settings, refresh times) are left out. \<open>Clone\<close>
  copies the record, which is the identity on values.
\<close>

section \<open>Dynamic values\<close>

text \<open>
  The dynamic types a \<open>map[string]any\<close> of metadata can hold as far as the code tells them apart.
  A finite \<open>float64\<close> (or \<open>float32\<close>) is the rational number it denotes. \<open>GUint\<close> stands for
  \<open>uint\<close>, \<open>uint32\<close> and \<open>uint64\<close>, \<open>GUint16\<close> for \<open>uint8\<close> and \<open>uint16\<close>.
\<close>

datatype go_float = FNaN | FInf bool | FFin rat

datatype go_value =
    GNil
  | GBool bool
  | GString string
  | GBytes string
  | GInt int
  | GUint int
  | GUint16 int
  | GFloat go_float
  | GNumber string
  | GMap "(string \<times> go_value) list"
  | GOther

section \<open>Credential weights\<close>

definition DefaultWeight :: int where "DefaultWeight = 1"
definition MaxWeight :: int where "MaxWeight = 1000000"

definition Normalize :: "int \<Rightarrow> int option" where
  "Normalize weight = (if weight \<le> 0 then Some 0 else if weight > MaxWeight then None else Some weight)"

definition ParseString :: "string \<Rightarrow> int option" where
  "ParseString raw0 =
     (let raw = TrimSpace raw0
      in if raw = [] then Some DefaultWeight
         else case ParseInt raw of None \<Rightarrow> None | Some weight \<Rightarrow> Normalize weight)"

definition ParseFloat :: "go_float \<Rightarrow> int option" where
  "ParseFloat f =
     (case f of
        FNaN \<Rightarrow> None
      | FInf _ \<Rightarrow> None
      | FFin r \<Rightarrow> if of_int \<lfloor>r\<rfloor> \<noteq> r then None
                  else if r \<le> 0 then Some 0
                  else if r > of_int MaxWeight then None
                  else Some \<lfloor>r\<rfloor>)"

definition ParseValue :: "go_value \<Rightarrow> int option" where
  "ParseValue value =
     (case value of
        GInt typed \<Rightarrow> Normalize typed
      | GUint typed \<Rightarrow> if typed > MaxWeight then None else Some typed
      | GUint16 typed \<Rightarrow> Some typed
      | GFloat typed \<Rightarrow> ParseFloat typed
      | GNumber typed \<Rightarrow> (case ParseInt typed of None \<Rightarrow> None | Some weight \<Rightarrow> Normalize weight)
      | GString typed \<Rightarrow> ParseString typed
      | _ \<Rightarrow> None)"

section \<open>The credential record\<close>

datatype Status =
    StatusUnknown
  | StatusActive
  | StatusPending
  | StatusRefreshing
  | StatusError
  | StatusDisabled
  | StatusOther string

record Error =
  err_Code :: string
  err_Message :: string
  err_Retryable :: bool
  err_HTTPStatus :: int

record QuotaState =
  q_Exceeded :: bool
  q_Reason :: string
  q_NextRecoverAt :: go_time
  q_BackoffLevel :: int
  q_ObservedAt :: go_time
  q_Signals :: "(string, string) go_map"

record ModelState =
  ms_Status :: Status
  ms_StatusMessage :: string
  ms_Unavailable :: bool
  ms_NextRetryAfter :: go_time
  ms_LastError :: "Error option"
  ms_Quota :: QuotaState
  ms_UpdatedAt :: go_time

record recentRequestBucket =
  rb_bucketID :: int
  rb_success :: int
  rb_failed :: int

text \<open>
  \<open>RegistrationEpoch\<close> and \<open>Generation\<close> are \<open>uint64\<close> counters whose increments wrap. The values
  of \<open>ModelStates\<close> are pointers, which may be \<open>nil\<close>.
\<close>

record auth =
  auth_ID :: string
  auth_RegistrationEpoch :: "64 word"
  auth_Generation :: "64 word"
  auth_Provider :: string
  auth_Label :: string
  auth_Status :: Status
  auth_StatusMessage :: string
  auth_Disabled :: bool
  auth_Unavailable :: bool
  auth_Attributes :: "(string, string) go_map"
  auth_Metadata :: "(string, go_value) go_map"
  auth_Quota :: QuotaState
  auth_LastError :: "Error option"
  auth_UpdatedAt :: go_time
  auth_NextRetryAfter :: go_time
  auth_ModelStates :: "(string, ModelState option) go_map"
  auth_Success :: int
  auth_Failed :: int
  auth_recentRequests :: "recentRequestBucket list"

definition emptyQuota :: QuotaState where
  "emptyQuota = \<lparr>q_Exceeded = False, q_Reason = [], q_NextRecoverAt = 0, q_BackoffLevel = 0,
     q_ObservedAt = 0, q_Signals = []\<rparr>"

section \<open>Attributes and metadata\<close>

definition authAttribute :: "auth \<Rightarrow> string \<Rightarrow> string" where
  "authAttribute a key = TrimSpace (map_get [] (auth_Attributes a) key)"

definition authMetadataStringFromMap :: "(string, go_value) go_map \<Rightarrow> string \<Rightarrow> string" where
  "authMetadataStringFromMap metadata key =
     (case map_of metadata key of Some (GString value) \<Rightarrow> TrimSpace value | _ \<Rightarrow> [])"

definition authMetadataString :: "auth \<Rightarrow> string \<Rightarrow> string" where
  "authMetadataString a key =
     (case map_of (auth_Metadata a) key of Some (GString value) \<Rightarrow> TrimSpace value | _ \<Rightarrow> [])"

definition authPriority :: "auth option \<Rightarrow> int" where
  "authPriority ao =
     (case ao of
        None \<Rightarrow> 0
      | Some a \<Rightarrow>
          (let raw = TrimSpace (map_get [] (auth_Attributes a) ''priority'')
           in if raw = [] then 0
              else case ParseInt raw of None \<Rightarrow> 0 | Some parsed \<Rightarrow> parsed))"

definition authWeight :: "auth option \<Rightarrow> int" where
  "authWeight ao =
     (case ao of
        None \<Rightarrow> DefaultWeight
      | Some a \<Rightarrow>
          (let fromMetadata =
                 (case map_of (auth_Metadata a) ''weight'' of
                    Some rawWeight \<Rightarrow> (case ParseValue rawWeight of None \<Rightarrow> 0 | Some weight \<Rightarrow> weight)
                  | None \<Rightarrow> DefaultWeight)
           in case map_of (auth_Attributes a) ''weight'' of
                Some rawWeight \<Rightarrow>
                  if TrimSpace rawWeight \<noteq> []
                  then (case ParseString rawWeight of None \<Rightarrow> 0 | Some weight \<Rightarrow> weight)
                  else fromMetadata
              | None \<Rightarrow> fromMetadata))"

definition authWebsocketsEnabled :: "auth option \<Rightarrow> bool" where
  "authWebsocketsEnabled ao =
     (case ao of
        None \<Rightarrow> False
      | Some a \<Rightarrow>
          (let fromMetadata =
                 (case map_of (auth_Metadata a) ''websockets'' of
                    Some (GBool v) \<Rightarrow> v
                  | Some (GString v) \<Rightarrow>
                      (case ParseBool (TrimSpace v) of None \<Rightarrow> False | Some parsed \<Rightarrow> parsed)
                  | _ \<Rightarrow> False);
               raw = TrimSpace (map_get [] (auth_Attributes a) ''websockets'')
           in if raw \<noteq> []
              then (case ParseBool raw of Some parsed \<Rightarrow> parsed | None \<Rightarrow> fromMetadata)
              else fromMetadata))"

text \<open>
  \<open>ValidateAuthWeight\<close> and \<open>ApplyAuthWeightMetadata\<close>: an error is \<open>Inl\<close> with the source of the
  weight that does not parse. \<open>format_int\<close> is \<open>strconv.FormatInt(_, 10)\<close> on the numbers that
  occur here, which are not negative.
\<close>

datatype weight_error = InvalidAttributesWeight | InvalidMetadataWeight

definition digit_char :: "nat \<Rightarrow> char" where
  "digit_char d = char_of (48 + d)"

fun format_nat :: "nat \<Rightarrow> string" where
  "format_nat n = (if n < 10 then [digit_char n] else format_nat (n div 10) @ [digit_char (n mod 10)])"

declare format_nat.simps [simp del]

definition format_int :: "int \<Rightarrow> string" where
  "format_int x = (if x < 0 then CHR ''-'' # format_nat (nat (- x)) else format_nat (nat x))"

definition ValidateAuthWeight :: "auth option \<Rightarrow> weight_error option" where
  "ValidateAuthWeight ao =
     (case ao of
        None \<Rightarrow> None
      | Some a \<Rightarrow>
          if (case map_of (auth_Attributes a) ''weight'' of
                Some rawWeight \<Rightarrow> ParseString rawWeight = None | None \<Rightarrow> False)
          then Some InvalidAttributesWeight
          else if (case map_of (auth_Metadata a) ''weight'' of
                     Some rawWeight \<Rightarrow> ParseValue rawWeight = None | None \<Rightarrow> False)
          then Some InvalidMetadataWeight
          else None)"

definition ApplyAuthWeightMetadata ::
  "auth \<Rightarrow> (string, go_value) go_map \<Rightarrow> weight_error + auth" where
  "ApplyAuthWeightMetadata a metadata =
     (case ValidateAuthWeight (Some a) of
        Some e \<Rightarrow> Inl e
      | None \<Rightarrow>
          (case map_of metadata ''weight'' of
             None \<Rightarrow> Inr a
           | Some rawWeight \<Rightarrow>
               (case ParseValue rawWeight of
                  None \<Rightarrow> Inl InvalidMetadataWeight
                | Some weight \<Rightarrow>
                    Inr (a\<lparr>auth_Attributes :=
                             AList.update ''weight'' (format_int weight) (auth_Attributes a)\<rparr>))))"

section \<open>The kind of a credential\<close>

definition AuthKindAPIKey :: string where "AuthKindAPIKey = ''apikey''"
definition AuthKindOAuth :: string where "AuthKindOAuth = ''oauth''"

definition normalizeAuthKind :: "string \<Rightarrow> string" where
  "normalizeAuthKind kind =
     (let k = ToLower (TrimSpace kind)
      in if k \<in> {AuthKindAPIKey, ''api_key'', ''api-key''} then AuthKindAPIKey
         else if k \<in> {AuthKindOAuth, ''oauth2''} then AuthKindOAuth
         else [])"

definition authHasServiceAccountMetadata :: "auth \<Rightarrow> bool" where
  "authHasServiceAccountMetadata a =
     (case map_of (auth_Metadata a) ''service_account'' of
        Some (GMap value) \<Rightarrow> value \<noteq> []
      | Some (GString value) \<Rightarrow> TrimSpace value \<noteq> []
      | _ \<Rightarrow> False)"

definition authHasOAuthMetadata :: "auth \<Rightarrow> bool" where
  "authHasOAuthMetadata a =
     (if authHasServiceAccountMetadata a then False
      else if list_ex (\<lambda>key. authMetadataString a key \<noteq> []) [''access_token'', ''refresh_token'', ''id_token'']
      then True
      else (case map_of (auth_Metadata a) ''token'' of
              Some (GMap token) \<Rightarrow>
                authMetadataStringFromMap token ''access_token'' \<noteq> [] \<or>
                authMetadataStringFromMap token ''refresh_token'' \<noteq> [] \<or>
                authMetadataStringFromMap token ''id_token'' \<noteq> []
            | _ \<Rightarrow> False))"

definition AuthKind :: "auth \<Rightarrow> string" where
  "AuthKind a =
     (let kind = normalizeAuthKind (authAttribute a ''auth_kind'') in
      if kind \<noteq> [] then kind else
      let kind = normalizeAuthKind (authMetadataString a ''auth_kind'') in
      if kind \<noteq> [] then kind else
      if authAttribute a ''api_key'' \<noteq> [] then AuthKindAPIKey else
      if authHasServiceAccountMetadata a then AuthKindAPIKey else
      if authHasOAuthMetadata a then AuthKindOAuth else [])"

definition IsUnsupportedOAuthAuth :: "auth option \<Rightarrow> bool" where
  "IsUnsupportedOAuthAuth ao = (case ao of None \<Rightarrow> False | Some a \<Rightarrow> AuthKind a = AuthKindOAuth)"

section \<open>Executor key\<close>

definition openAICompatibleProviderPrefix :: string where
  "openAICompatibleProviderPrefix = ''openai-compatible-''"

definition OpenAICompatibleProviderKey :: "string \<Rightarrow> string" where
  "OpenAICompatibleProviderKey name0 =
     (let name = ToLower (TrimSpace name0)
      in if name = [] \<or> name = ''openai-compatibility'' \<or> HasPrefix name openAICompatibleProviderPrefix
         then (if name = [] then ''openai-compatibility'' else name)
         else openAICompatibleProviderPrefix @ name)"

definition executorKeyFromAuth :: "auth option \<Rightarrow> string" where
  "executorKeyFromAuth ao =
     (case ao of
        None \<Rightarrow> []
      | Some a \<Rightarrow>
          (let providerKey = TrimSpace (map_get [] (auth_Attributes a) ''provider_key'');
               compatName = TrimSpace (map_get [] (auth_Attributes a) ''compat_name'')
           in if compatName \<noteq> []
              then OpenAICompatibleProviderKey (if providerKey = [] then compatName else providerKey)
              else if EqualFold (TrimSpace (auth_Provider a)) ''openai-compatibility''
              then (let label = TrimSpace (auth_Label a)
                    in OpenAICompatibleProviderKey
                         (if label = [] then ''openai-compatibility'' else label))
              else ToLower (TrimSpace (auth_Provider a))))"

section \<open>Eligibility for a request\<close>

definition isFreeCodexAuth :: "auth \<Rightarrow> bool" where
  "isFreeCodexAuth a \<longleftrightarrow>
     EqualFold (TrimSpace (auth_Provider a)) ''codex'' \<and>
     EqualFold (TrimSpace (map_get [] (auth_Attributes a) ''plan_type'')) ''free''"

definition pinnedAuthIDFromMetadata :: "(string, go_value) go_map \<Rightarrow> string" where
  "pinnedAuthIDFromMetadata meta =
     (case map_of meta ''pinned_auth_id'' of
        Some (GString val) \<Rightarrow> TrimSpace val
      | Some (GBytes val) \<Rightarrow> TrimSpace val
      | _ \<Rightarrow> [])"

definition disallowFreeAuthFromMetadata :: "(string, go_value) go_map \<Rightarrow> bool" where
  "disallowFreeAuthFromMetadata meta =
     (case map_of meta ''disallow_free_auth'' of
        Some (GBool val) \<Rightarrow> val
      | Some (GString val) \<Rightarrow> ParseBool (TrimSpace val) = Some True
      | Some (GBytes val) \<Rightarrow> ParseBool (TrimSpace val) = Some True
      | _ \<Rightarrow> False)"

definition CredentialPolicyCodexAlphaSearchV1 :: string where
  "CredentialPolicyCodexAlphaSearchV1 = ''codex_alpha_search_v1''"

definition normalizeCredentialPolicy :: "string \<Rightarrow> string" where
  "normalizeCredentialPolicy policy =
     (if ToLower (TrimSpace policy) = CredentialPolicyCodexAlphaSearchV1
      then CredentialPolicyCodexAlphaSearchV1 else [])"

definition credentialPolicyAllows :: "string \<Rightarrow> auth \<Rightarrow> bool" where
  "credentialPolicyAllows policy a =
     (if policy = CredentialPolicyCodexAlphaSearchV1
      then if \<not> EqualFold (TrimSpace (auth_Provider a)) ''codex'' then False
           else if AuthKind a \<noteq> AuthKindAPIKey then False
           else EqualFold (authAttribute a ''codex_alpha_search'') ''true''
      else False)"

record authSelectionEligibility =
  el_requiredKind :: string
  el_credentialPolicy :: string
  el_disallowFreeAuth :: bool
  el_channelPanel :: string
  el_channelGroup :: string

definition eligibility_allows :: "authSelectionEligibility \<Rightarrow> auth option \<Rightarrow> bool" where
  "eligibility_allows e ao =
     (case ao of
        None \<Rightarrow> False
      | Some a \<Rightarrow>
          if el_requiredKind e \<noteq> [] \<and> AuthKind a \<noteq> el_requiredKind e then False
          else if el_credentialPolicy e \<noteq> [] \<and> \<not> credentialPolicyAllows (el_credentialPolicy e) a then False
          else if el_channelGroup e \<noteq> [] \<and>
                  (map_get [] (auth_Attributes a) ''group'' \<noteq> el_channelGroup e \<or>
                   el_channelPanel e \<noteq> [] \<and>
                   map_get [] (auth_Attributes a) ''channel_panel'' \<noteq> el_channelPanel e) then False
          else \<not> el_disallowFreeAuth e \<or> \<not> isFreeCodexAuth a)"

section \<open>The ring of recent requests\<close>

text \<open>
  Twenty buckets of ten minutes. The label of a snapshot entry is a function of its bucket and
  of the local time zone, so an entry carries its bucket. The counters are \<open>int64\<close>.
\<close>

definition recentRequestBucketSeconds :: int where "recentRequestBucketSeconds = 10 * 60"
definition recentRequestBucketCount :: nat where "recentRequestBucketCount = 20"

definition recentRequestBucketID :: "go_time \<Rightarrow> int" where
  "recentRequestBucketID now = (if IsZero now then 0 else go_div (Unix now) recentRequestBucketSeconds)"

definition recentRequestBucketIndex :: "int \<Rightarrow> nat" where
  "recentRequestBucketIndex bucketID =
     (let m = go_rem bucketID (int recentRequestBucketCount)
      in nat (if m < 0 then m + int recentRequestBucketCount else m))"

definition recordInRing :: "recentRequestBucket list \<Rightarrow> int \<Rightarrow> bool \<Rightarrow> recentRequestBucket list" where
  "recordInRing buckets bucketID success =
     (let idx = recentRequestBucketIndex bucketID;
          old = buckets ! idx;
          bucket = (if rb_bucketID old \<noteq> bucketID
                    then \<lparr>rb_bucketID = bucketID, rb_success = 0, rb_failed = 0\<rparr> else old)
      in buckets[idx := (if success then bucket\<lparr>rb_success := int64 (rb_success bucket + 1)\<rparr>
                         else bucket\<lparr>rb_failed := int64 (rb_failed bucket + 1)\<rparr>)])"

definition recordRecentRequest :: "auth \<Rightarrow> go_time \<Rightarrow> bool \<Rightarrow> auth" where
  "recordRecentRequest a now success =
     a\<lparr>auth_recentRequests := recordInRing (auth_recentRequests a) (recentRequestBucketID now) success\<rparr>"

definition emptyRing :: "recentRequestBucket list" where
  "emptyRing = replicate recentRequestBucketCount \<lparr>rb_bucketID = 0, rb_success = 0, rb_failed = 0\<rparr>"

definition ringSnapshot :: "recentRequestBucket list \<Rightarrow> int \<Rightarrow> recentRequestBucket list" where
  "ringSnapshot buckets currentBucketID =
     map (\<lambda>i. let bucketID = currentBucketID - int i;
                  bucket = buckets ! recentRequestBucketIndex bucketID
              in if rb_bucketID bucket = bucketID
                 then \<lparr>rb_bucketID = bucketID, rb_success = rb_success bucket, rb_failed = rb_failed bucket\<rparr>
                 else \<lparr>rb_bucketID = bucketID, rb_success = 0, rb_failed = 0\<rparr>)
         (rev [0..<recentRequestBucketCount])"

definition RecentRequestsSnapshot :: "auth \<Rightarrow> go_time \<Rightarrow> recentRequestBucket list" where
  "RecentRequestsSnapshot a now = ringSnapshot (auth_recentRequests a) (recentRequestBucketID now)"

section \<open>Weights are bounded, and survive the round trip through an attribute\<close>

lemma MaxWeight_bounds [simp]: "(0::int) \<le> MaxWeight" "DefaultWeight \<le> MaxWeight" "0 \<le> DefaultWeight" "0 < DefaultWeight"
  by (simp_all add: MaxWeight_def DefaultWeight_def)

lemma Normalize_range: "Normalize w = Some v \<Longrightarrow> 0 \<le> v \<and> v \<le> MaxWeight"
  by (auto simp: Normalize_def split: if_splits)

lemma ParseString_range: "ParseString s = Some v \<Longrightarrow> 0 \<le> v \<and> v \<le> MaxWeight"
  by (auto simp: ParseString_def Let_def dest: Normalize_range split: if_splits option.splits)

lemma ParseFloat_range: "ParseFloat f = Some v \<Longrightarrow> 0 \<le> v \<and> v \<le> MaxWeight"
  by (auto simp: ParseFloat_def le_floor_iff floor_le_iff split: go_float.splits if_splits)

text \<open>The unsigned kinds hold values that are not negative.\<close>

fun wf_value :: "go_value \<Rightarrow> bool" where
  "wf_value (GInt x) = in_int64 x"
| "wf_value (GUint x) = (0 \<le> x)"
| "wf_value (GUint16 x) = (0 \<le> x \<and> x < 65536)"
| "wf_value _ = True"

lemma ParseValue_range: "ParseValue x = Some v \<Longrightarrow> wf_value x \<Longrightarrow> 0 \<le> v \<and> v \<le> MaxWeight"
  by (cases x) (auto simp: ParseValue_def dest: Normalize_range ParseString_range ParseFloat_range
      split: if_splits option.splits, simp_all add: MaxWeight_def)

lemma authWeight_Some:
  "authWeight (Some a) =
     (case map_of (auth_Attributes a) ''weight'' of
        Some raw \<Rightarrow> if TrimSpace raw \<noteq> [] then (case ParseString raw of None \<Rightarrow> 0 | Some w \<Rightarrow> w)
                     else (case map_of (auth_Metadata a) ''weight'' of
                             Some v \<Rightarrow> (case ParseValue v of None \<Rightarrow> 0 | Some w \<Rightarrow> w) | None \<Rightarrow> DefaultWeight)
      | None \<Rightarrow> (case map_of (auth_Metadata a) ''weight'' of
                             Some v \<Rightarrow> (case ParseValue v of None \<Rightarrow> 0 | Some w \<Rightarrow> w) | None \<Rightarrow> DefaultWeight))"
  by (simp add: authWeight_def Let_def)

definition wf_metadata :: "(string, go_value) go_map \<Rightarrow> bool" where
  "wf_metadata m \<longleftrightarrow> list_all (\<lambda>(k, v). wf_value v) m"

lemma wf_metadataD: "wf_metadata m \<Longrightarrow> map_of m k = Some v \<Longrightarrow> wf_value v"
  by (auto simp: wf_metadata_def list_all_iff dest: map_of_SomeD)

lemma authWeight_range:
  "wf_metadata (auth_Metadata a) \<Longrightarrow> 0 \<le> authWeight (Some a) \<and> authWeight (Some a) \<le> MaxWeight"
  by (auto simp: authWeight_Some dest!: ParseString_range ParseValue_range dest: wf_metadataD
      split: option.splits)

lemma digit_value_digit_char: "d < 10 \<Longrightarrow> digit_value (digit_char d) = Some (int d)"
proof -
  assume "d < 10"
  moreover have "\<forall>d \<in> set [0..<10]. digit_value (digit_char d) = Some (int d)"
    by code_simp
  ultimately show ?thesis by simp
qed

lemma parse_digits_append:
  "parse_digits acc (xs @ ys) = (case parse_digits acc xs of None \<Rightarrow> None | Some v \<Rightarrow> parse_digits v ys)"
  by (induction xs arbitrary: acc) (auto split: option.splits)

lemma parse_format_nat: "parse_digits 0 (format_nat n) = Some (int n)"
proof (induction n rule: format_nat.induct)
  case (1 n)
  show ?case
  proof (cases "n < 10")
    case True
    then show ?thesis by (simp add: format_nat.simps[of n] digit_value_digit_char)
  next
    case False
    have "10 * int (n div 10) + int (n mod 10) = int n"
      by (metis mult_div_mod_eq of_nat_add of_nat_mult of_nat_numeral)
    with 1 False show ?thesis
      by (simp add: format_nat.simps[of n] parse_digits_append digit_value_digit_char)
  qed
qed

lemma go_spaces_no_digit:
  "\<forall>e \<in> set go_spaces. digit_value (hd e) = None \<and> digit_value (last e) = None"
  by code_simp

lemma TrimSpace_digits:
  assumes "s \<noteq> []" "\<forall>c \<in> set s. digit_value c \<noteq> None"
  shows "TrimSpace s = s"
proof -
  have stop: "space_len encs t = 0"
    if "\<forall>e \<in> set encs. digit_value (hd e) = None" "[] \<notin> set encs" "t \<noteq> []" "digit_value (hd t) \<noteq> None"
    for encs :: "string list" and t
  proof -
    have "take (length e) t \<noteq> e" if "e \<in> set encs" for e
      using that \<open>\<forall>e \<in> set encs. digit_value (hd e) = None\<close> \<open>[] \<notin> set encs\<close> \<open>digit_value (hd t) \<noteq> None\<close>
      by (metis hd_take length_greater_0_conv)
    then show ?thesis using that(2) by (simp add: space_len_0)
  qed
  have "space_len go_spaces s = 0"
    using stop[of go_spaces s] go_spaces_no_digit no_empty_space(1) assms by simp
  moreover have "space_len (map rev go_spaces) (rev s) = 0"
    using stop[of "map rev go_spaces" "rev s"] go_spaces_no_digit no_empty_space assms
    by (simp add: hd_rev image_iff)
  ultimately show ?thesis
    by (simp add: TrimSpace_def TrimRightSpace_def TrimLeftSpace_def strip_with_id)
qed

lemma format_nat_digits: "format_nat n \<noteq> [] \<and> (\<forall>c \<in> set (format_nat n). digit_value c \<noteq> None)"
proof (induction n rule: format_nat.induct)
  case (1 n)
  show ?case
    by (cases "n < 10")
       (use 1 in \<open>auto simp: format_nat.simps[of n] digit_value_digit_char\<close>)
qed

lemma ParseInt_format_nat: "int n \<le> MaxInt64 \<Longrightarrow> ParseInt (format_nat n) = Some (int n)"
proof -
  assume n: "int n \<le> MaxInt64"
  obtain c cs where c: "format_nat n = c # cs" "digit_value c \<noteq> None"
    using format_nat_digits[of n] by (cases "format_nat n") auto
  moreover have "digit_value CHR ''-'' = None" "digit_value CHR ''+'' = None"
    by code_simp+
  ultimately have "c \<noteq> CHR ''-''" "c \<noteq> CHR ''+''" by auto
  with c n parse_format_nat[of n] show ?thesis
    by (simp add: ParseInt_def in_int64_def MinInt64_def)
qed

lemma ParseString_format_int:
  assumes "0 \<le> w" "w \<le> MaxWeight" shows "ParseString (format_int w) = Some w"
proof -
  have "int (nat w) \<le> MaxInt64" using assms by (simp add: MaxWeight_def MaxInt64_def)
  then have "ParseInt (format_nat (nat w)) = Some w"
    using ParseInt_format_nat[of "nat w"] assms by simp
  moreover have "TrimSpace (format_nat (nat w)) = format_nat (nat w)" "format_nat (nat w) \<noteq> []"
    using TrimSpace_digits format_nat_digits by auto
  ultimately show ?thesis
    using assms by (simp add: ParseString_def format_int_def Normalize_def)
qed

text \<open>A credential's selection weight always lies between 0 and the maximum weight, whatever
  its attributes and metadata hold; a weight that does not parse counts as 0.\<close>

theorem authWeight_bounded:
  "wf_metadata (auth_Metadata a) \<Longrightarrow> 0 \<le> authWeight (Some a) \<and> authWeight (Some a) \<le> MaxWeight"
  by (rule authWeight_range)

definition sample_auth :: "string \<Rightarrow> string \<Rightarrow> auth" where
  "sample_auth ident provider = \<lparr>auth_ID = ident, auth_RegistrationEpoch = 0, auth_Generation = 0,
     auth_Provider = provider, auth_Label = [], auth_Status = StatusActive, auth_StatusMessage = [],
     auth_Disabled = False, auth_Unavailable = False, auth_Attributes = [], auth_Metadata = [],
     auth_Quota = emptyQuota, auth_LastError = None, auth_UpdatedAt = 0, auth_NextRetryAfter = 0,
     auth_ModelStates = [], auth_Success = 0, auth_Failed = 0, auth_recentRequests = emptyRing\<rparr>"

theorem authWeight_bounded_witness:
  "let a = (sample_auth ''a'' ''claude'')\<lparr>auth_Metadata := [(''weight'', GInt 2000000)]\<rparr>
   in 0 \<le> authWeight (Some a) \<and> authWeight (Some a) \<le> MaxWeight"
  unfolding Let_def by (rule authWeight_bounded) code_simp

text \<open>Synchronising a weight from metadata writes an attribute that reads back as that weight:
  after \<open>ApplyAuthWeightMetadata\<close> succeeds on metadata with a weight, the scheduler sees exactly
  the parsed weight, whatever weight the credential had before.\<close>

theorem ApplyAuthWeightMetadata_roundtrip:
  assumes "ApplyAuthWeightMetadata a metadata = Inr b"
    and "map_of metadata ''weight'' = Some v" and "wf_value v"
  shows "\<exists>w. ParseValue v = Some w \<and> authWeight (Some b) = w"
proof -
  obtain w where w: "ParseValue v = Some w"
    and b: "b = a\<lparr>auth_Attributes := AList.update ''weight'' (format_int w) (auth_Attributes a)\<rparr>"
    using assms(1,2) by (auto simp: ApplyAuthWeightMetadata_def split: option.splits)
  have r: "0 \<le> w" "w \<le> MaxWeight" using ParseValue_range[OF w assms(3)] by simp_all
  have "TrimSpace (format_int w) \<noteq> []"
    using r TrimSpace_digits format_nat_digits by (simp add: format_int_def)
  then have "authWeight (Some b) = w"
    using r by (simp add: authWeight_Some b map_of_update ParseString_format_int)
  with w show ?thesis by blast
qed

theorem ApplyAuthWeightMetadata_roundtrip_witness:
  "\<exists>w. ParseValue (GString '' 25 '') = Some w \<and>
     authWeight (Some ((sample_auth ''a'' ''claude'')\<lparr>auth_Attributes := [(''weight'', ''25'')]\<rparr>)) = w"
proof (rule ApplyAuthWeightMetadata_roundtrip)
  show "ApplyAuthWeightMetadata (sample_auth ''a'' ''claude'') [(''weight'', GString '' 25 '')] =
      Inr ((sample_auth ''a'' ''claude'')\<lparr>auth_Attributes := [(''weight'', ''25'')]\<rparr>)"
    by code_simp
qed simp_all

section \<open>The ring of recent requests counts exactly\<close>

definition ring_events :: "(int \<times> bool) list \<Rightarrow> recentRequestBucket list" where
  "ring_events evs = foldl (\<lambda>r (b, ok). recordInRing r b ok) emptyRing evs"

definition ev_count :: "(int \<times> bool) list \<Rightarrow> int \<Rightarrow> bool \<Rightarrow> int" where
  "ev_count evs b ok = int64 (int (length (filter (\<lambda>e. e = (b, ok)) evs)))"

lemma int64_succ: "int64 (int64 x + 1) = int64 (x + 1)"
proof -
  have "(int64 x + 1 + 9223372036854775808) mod 18446744073709551616 =
      ((x + 9223372036854775808) mod 18446744073709551616 + 1) mod 18446744073709551616"
    by (simp add: int64_def add.commute)
  also have "\<dots> = (x + 1 + 9223372036854775808) mod 18446744073709551616"
    by (simp only: mod_add_left_eq) (simp add: ac_simps)
  finally show ?thesis by (simp add: int64_def)
qed

lemma int64_0 [simp]: "int64 0 = 0"
  by (simp add: int64_def)

lemma bucketIndex_mod: "recentRequestBucketIndex b = nat (b mod 20)"
proof (cases "0 \<le> b")
  case True
  then have "go_rem b 20 = b mod 20"
    by (cases "b = 0") (simp_all add: go_rem_def go_div_def minus_mult_div_eq_mod)
  then show ?thesis
    by (simp add: recentRequestBucketIndex_def recentRequestBucketCount_def Let_def)
next
  case False
  then have "go_rem b 20 = - ((- b) mod 20)"
    by (simp add: go_rem_def go_div_def minus_mult_div_eq_mod [symmetric])
  moreover have "b mod 20 = (if (- b) mod 20 = 0 then 0 else 20 - (- b) mod 20)"
    using zmod_zminus1_eq_if[of "- b" 20] by simp
  moreover have "0 \<le> (- b) mod 20" "(- b) mod 20 < 20" by simp_all
  ultimately show ?thesis
    unfolding recentRequestBucketIndex_def recentRequestBucketCount_def Let_def by auto
qed

lemma bucketIndex_lt [simp]: "recentRequestBucketIndex b < 20"
  unfolding bucketIndex_mod by simp

text \<open>
  A slot is untouched, or it holds the counts of the latest bucket recorded in it.
\<close>

definition slot_ok :: "(int \<times> bool) list \<Rightarrow> nat \<Rightarrow> recentRequestBucket \<Rightarrow> bool" where
  "slot_ok evs i r \<longleftrightarrow>
     r = \<lparr>rb_bucketID = 0, rb_success = 0, rb_failed = 0\<rparr> \<and>
       (\<forall>e \<in> set evs. recentRequestBucketIndex (fst e) \<noteq> i) \<or>
     recentRequestBucketIndex (rb_bucketID r) = i \<and> rb_bucketID r \<in> fst ` set evs \<and>
       (\<forall>e \<in> set evs. recentRequestBucketIndex (fst e) = i \<longrightarrow> fst e \<le> rb_bucketID r) \<and>
       rb_success r = ev_count evs (rb_bucketID r) True \<and>
       rb_failed r = ev_count evs (rb_bucketID r) False"

lemma ev_count_snoc:
  "ev_count (evs @ [(b, ok)]) b' ok' =
     (if b' = b \<and> ok' = ok then int64 (ev_count evs b' ok' + 1) else ev_count evs b' ok')"
proof -
  have "int64 (1 + int n) = int64 (int64 (int n) + 1)" for n
    unfolding int64_succ by (simp add: add.commute)
  moreover have "length (filter (\<lambda>e. e = (b', ok')) (evs @ [(b, ok)])) =
      (if b' = b \<and> ok' = ok then 1 + length (filter (\<lambda>e. e = (b', ok')) evs)
       else length (filter (\<lambda>e. e = (b', ok')) evs))"
    by simp
  ultimately show ?thesis
    by (cases "b' = b \<and> ok' = ok") (simp_all only: ev_count_def of_nat_add of_nat_1 if_True if_False conj_absorb simp_thms)
qed

lemma ev_count_none: "b \<notin> fst ` set evs \<Longrightarrow> ev_count evs b ok = 0"
proof -
  assume "b \<notin> fst ` set evs"
  then have none: "filter (\<lambda>e. e = (b, ok)) evs = []"
    by (force simp: filter_empty_conv)
  show ?thesis unfolding ev_count_def none by simp
qed

lemma slot_ok_other:
  assumes "slot_ok evs i r" "recentRequestBucketIndex b \<noteq> i"
  shows "slot_ok (evs @ [(b, ok)]) i r"
  using assms(1)[unfolded slot_ok_def]
proof (rule disjE)
  assume "r = \<lparr>rb_bucketID = 0, rb_success = 0, rb_failed = 0\<rparr> \<and>
    (\<forall>e \<in> set evs. recentRequestBucketIndex (fst e) \<noteq> i)"
  with assms(2) show ?thesis unfolding slot_ok_def by simp
next
  assume r: "recentRequestBucketIndex (rb_bucketID r) = i \<and> rb_bucketID r \<in> fst ` set evs \<and>
    (\<forall>e \<in> set evs. recentRequestBucketIndex (fst e) = i \<longrightarrow> fst e \<le> rb_bucketID r) \<and>
    rb_success r = ev_count evs (rb_bucketID r) True \<and> rb_failed r = ev_count evs (rb_bucketID r) False"
  then have "rb_bucketID r \<noteq> b" using assms(2) by metis
  with r assms(2) show ?thesis unfolding slot_ok_def by (simp add: ev_count_snoc)
qed

lemma slot_ok_record:
  assumes ok: "slot_ok evs (recentRequestBucketIndex b) r" and le: "\<forall>e \<in> set evs. fst e \<le> b"
  shows "slot_ok (evs @ [(b, s)]) (recentRequestBucketIndex b)
    (let r' = (if rb_bucketID r \<noteq> b then \<lparr>rb_bucketID = b, rb_success = 0, rb_failed = 0\<rparr> else r)
     in if s then r'\<lparr>rb_success := int64 (rb_success r' + 1)\<rparr>
        else r'\<lparr>rb_failed := int64 (rb_failed r' + 1)\<rparr>)"
proof -
  define r' where "r' = (if rb_bucketID r \<noteq> b then \<lparr>rb_bucketID = b, rb_success = 0, rb_failed = 0\<rparr> else r)"
  have none: "b \<notin> fst ` set evs" if "rb_bucketID r \<noteq> b"
  proof
    assume "b \<in> fst ` set evs"
    then obtain e where e: "e \<in> set evs" "fst e = b" by auto
    with ok have "b \<le> rb_bucketID r" "rb_bucketID r \<in> fst ` set evs"
      unfolding slot_ok_def by metis+
    then have "rb_bucketID r = b" using le by fastforce
    with that show False by simp
  qed
  have "rb_success r = ev_count evs b True \<and> rb_failed r = ev_count evs b False" if "rb_bucketID r = b"
    using ok that ev_count_none[of b evs] unfolding slot_ok_def by (metis imageE recentRequestBucket.select_convs(2,3))
  then have r': "rb_bucketID r' = b" "rb_success r' = ev_count evs b True"
    "rb_failed r' = ev_count evs b False"
    using none by (auto simp: r'_def ev_count_none)
  have b: "b \<in> fst ` set (evs @ [(b, s)])" "\<forall>e \<in> set (evs @ [(b, s)]). fst e \<le> b"
    using le by simp_all
  show ?thesis
    unfolding r'_def[symmetric] Let_def slot_ok_def
    using r' b by (cases s) (simp_all add: ev_count_snoc)
qed

lemma ring_events_snoc: "ring_events (evs @ [(b, s)]) = recordInRing (ring_events evs) b s"
  by (simp add: ring_events_def)

lemma ring_ok:
  assumes "sorted (map fst evs)"
  shows "length (ring_events evs) = 20 \<and> (\<forall>i < 20. slot_ok evs i (ring_events evs ! i))"
  using assms
proof (induction evs rule: rev_induct)
  case Nil
  then show ?case
    by (simp add: ring_events_def emptyRing_def slot_ok_def recentRequestBucketCount_def)
next
  case (snoc e evs)
  obtain b s where e: "e = (b, s)" by (cases e)
  have le: "\<forall>e \<in> set evs. fst e \<le> b" and srt: "sorted (map fst evs)"
    using snoc.prems e by (auto simp: sorted_append)
  have IH: "length (ring_events evs) = 20" "\<forall>i < 20. slot_ok evs i (ring_events evs ! i)"
    using snoc.IH[OF srt] by simp_all
  have "slot_ok (evs @ [(b, s)]) i (recordInRing (ring_events evs) b s ! i)" if "i < 20" for i
  proof (cases "recentRequestBucketIndex b = i")
    case True
    then show ?thesis
      using slot_ok_record[of evs b "ring_events evs ! i" s] IH le that
      by (simp add: recordInRing_def Let_def)
  next
    case False
    then show ?thesis
      using slot_ok_other[of evs i "ring_events evs ! i" b s] IH that
      by (simp add: recordInRing_def Let_def)
  qed
  then show ?case
    using IH(1) unfolding e ring_events_snoc by (simp add: recordInRing_def Let_def)
qed

lemma same_slot_near:
  assumes "recentRequestBucketIndex b = recentRequestBucketIndex b'" "b \<le> b'" "b' \<le> b + 19"
  shows "b = b'"
proof -
  have "b mod 20 = b' mod 20"
    using assms(1) by (simp add: bucketIndex_mod eq_nat_nat_iff)
  then have "20 dvd b' - b" by (metis mod_eq_dvd_iff)
  moreover have "0 \<le> b' - b" "b' - b < 20" using assms(2,3) by simp_all
  ultimately have "b' - b = 0" using zdvd_not_zless[of "b' - b" 20] by linarith
  then show ?thesis by simp
qed

text \<open>The ring forgets nothing it still shows: after any sequence of requests whose buckets do
  not run backwards, the snapshot taken at \<open>cur\<close> lists the last twenty buckets in order, each
  with the exact numbers of successful and failed requests recorded in it (as \<open>int64\<close> counters).\<close>

theorem recent_requests_exact:
  assumes "sorted (map fst evs)" and "\<forall>e \<in> set evs. fst e \<le> cur"
  shows "ringSnapshot (foldl (\<lambda>r (b, ok). recordInRing r b ok) emptyRing evs) cur =
    map (\<lambda>i. let b = cur - int i
              in \<lparr>rb_bucketID = b,
                   rb_success = int64 (int (length (filter (\<lambda>e. e = (b, True)) evs))),
                   rb_failed = int64 (int (length (filter (\<lambda>e. e = (b, False)) evs)))\<rparr>)
        (rev [0..<20])"
proof -
  have "(let b = cur - int i; r = ring_events evs ! recentRequestBucketIndex b
         in if rb_bucketID r = b then \<lparr>rb_bucketID = b, rb_success = rb_success r, rb_failed = rb_failed r\<rparr>
            else \<lparr>rb_bucketID = b, rb_success = 0, rb_failed = 0\<rparr>) =
        (let b = cur - int i
         in \<lparr>rb_bucketID = b, rb_success = ev_count evs b True, rb_failed = ev_count evs b False\<rparr>)"
    if "i < 20" for i
  proof -
    let ?b = "cur - int i"
    let ?r = "ring_events evs ! recentRequestBucketIndex ?b"
    have ok: "slot_ok evs (recentRequestBucketIndex ?b) ?r"
      using ring_ok[OF assms(1)] by simp
    have "?b \<notin> fst ` set evs" if "rb_bucketID ?r \<noteq> ?b"
    proof
      assume "?b \<in> fst ` set evs"
      with ok have "recentRequestBucketIndex ?b = recentRequestBucketIndex (rb_bucketID ?r)"
        "?b \<le> rb_bucketID ?r" "rb_bucketID ?r \<in> fst ` set evs"
        unfolding slot_ok_def by force+
      moreover have "rb_bucketID ?r \<le> cur" using calculation(3) assms(2) by auto
      ultimately show False
        using same_slot_near[of ?b "rb_bucketID ?r"] \<open>i < 20\<close> that by simp
    qed
    moreover have "rb_success ?r = ev_count evs ?b True \<and> rb_failed ?r = ev_count evs ?b False"
      if "rb_bucketID ?r = ?b"
    proof (cases "?b \<in> fst ` set evs")
      case True
      then show ?thesis using ok that unfolding slot_ok_def by force
    next
      case False
      then show ?thesis using ok that unfolding slot_ok_def by (auto simp: ev_count_none)
    qed
    ultimately show ?thesis
      by (simp add: Let_def ev_count_none)
  qed
  then show ?thesis
    unfolding ringSnapshot_def ring_events_def[symmetric] ev_count_def[symmetric]
      recentRequestBucketCount_def
    by (intro map_cong refl) simp
qed

theorem recent_requests_exact_witness:
  "ringSnapshot (foldl (\<lambda>r (b, ok). recordInRing r b ok) emptyRing
       [(5, True), (5, False), (7, True), (26, True), (27, False), (27, False)]) 27 =
    map (\<lambda>i. let b = 27 - int i
              in \<lparr>rb_bucketID = b,
                   rb_success = int64 (int (length (filter (\<lambda>e. e = (b, True))
                     [(5, True), (5, False), (7, True), (26, True), (27, False), (27, False)]))),
                   rb_failed = int64 (int (length (filter (\<lambda>e. e = (b, False))
                     [(5, True), (5, False), (7, True), (26, True), (27, False), (27, False)])))\<rparr>)
        (rev [0..<20])"
  by (rule recent_requests_exact) simp_all

end
