(* ===== verification/QuotaSignals.thy ===== *)
theory QuotaSignals
  imports Auth "HOL-Library.Product_Lexorder"
begin

text \<open>
  The passive quota snapshot of a credential, \<open>sdk/aps/auth/quota_signals.go\<close>: which response
  headers are kept, how many and in which order of preference, and the separation of the observed
  fields from the cooldown fields of a \<open>QuotaState\<close>. A \<open>http.Header\<close> is a map from names to
  lists of values; the list order is the iteration order of the Go map.
\<close>

section \<open>Definitions\<close>

definition maxQuotaSignalHeaders :: nat where "maxQuotaSignalHeaders = 64"
definition maxQuotaSignalValue :: nat where "maxQuotaSignalValue = 512"

definition ProviderSupportsQuotaObservation :: "string \<Rightarrow> bool" where
  "ProviderSupportsQuotaObservation provider \<longleftrightarrow> ToLower (TrimSpace provider) \<in> {''claude'', ''codex''}"

definition validQuotaSignalValue :: "string \<Rightarrow> bool" where
  "validQuotaSignalValue value \<longleftrightarrow>
     \<not> (value = [] \<or> length value > maxQuotaSignalValue) \<and>
     list_all (\<lambda>c. \<not> ((of_char c :: nat) < 0x20 \<or> (of_char c :: nat) = 0x7f)) value"

definition quotaSignalRetentionRank :: "string \<Rightarrow> nat" where
  "quotaSignalRetentionRank name =
     (let lower = ToLower (TrimSpace name) in
      if lower = ''retry-after'' \<or> HasPrefix lower ''anthropic-ratelimit-unified-'' then 0
      else if lower = ''x-codex-plan-type'' \<or> lower = ''x-codex-active-limit'' \<or>
              HasPrefix lower ''x-codex-credits-'' then 1
      else if lower = ''x-codex-allowed'' \<or> lower = ''x-codex-limit-reached'' \<or>
              HasPrefix lower ''x-codex-primary-'' \<or> HasPrefix lower ''x-codex-secondary-'' then 2
      else if HasPrefix lower ''x-codex-code-review-'' then 3
      else if HasPrefix lower ''x-codex-additional-'' then 5
      else if HasPrefix lower ''x-codex-'' then 4
      else 6)"

definition isQuotaSignalHeaderForProvider :: "string \<Rightarrow> string \<Rightarrow> bool" where
  "isQuotaSignalHeaderForProvider provider0 name0 =
     (let provider = ToLower (TrimSpace provider0); name = ToLower (TrimSpace name0) in
      if name = ''retry-after'' then provider = ''claude'' \<or> provider = ''codex''
      else if HasPrefix name ''anthropic-ratelimit-unified-'' then provider = ''claude''
      else if HasPrefix name ''x-ratelimit-'' then provider = ''codex''
      else if \<not> HasPrefix name ''x-codex-'' then False
      else if provider \<noteq> ''codex'' then False
      else if name = ''x-codex-active-limit'' \<or> name = ''x-codex-plan-type'' \<or>
              HasPrefix name ''x-codex-credits-'' then True
      else list_ex (\<lambda>marker. Contains name marker)
             [''-allowed'', ''-limit-reached'', ''-limit-name'', ''-used-percent'', ''-window-minutes'',
              ''-reset-after-seconds'', ''-reset-at'', ''-over-secondary-limit-percent''])"

text \<open>
  \<open>http.CanonicalHeaderKey\<close>: a name with a byte that may not occur in a header name is left as it
  is; otherwise the first letter and every letter after a hyphen become upper case.
\<close>

definition ascii_upper :: "char \<Rightarrow> char" where
  "ascii_upper c =
     (let n = (of_char c :: nat) in if 97 \<le> n \<and> n \<le> 122 then char_of (n - 32) else c)"

definition validHeaderFieldByte :: "char \<Rightarrow> bool" where
  "validHeaderFieldByte c \<longleftrightarrow>
     (let n = (of_char c :: nat)
      in 48 \<le> n \<and> n \<le> 57 \<or> 65 \<le> n \<and> n \<le> 90 \<or> 97 \<le> n \<and> n \<le> 122) \<or>
     c \<in> set ''!#$%&*+-.^_`|~'' \<or> (of_char c :: nat) = 39"

fun canonical_bytes :: "bool \<Rightarrow> string \<Rightarrow> string" where
  "canonical_bytes upper [] = []"
| "canonical_bytes upper (c # s) =
     (if upper then ascii_upper c else ascii_lower c) # canonical_bytes (c = CHR ''-'') s"

definition CanonicalHeaderKey :: "string \<Rightarrow> string" where
  "CanonicalHeaderKey s = (if list_all validHeaderFieldByte s then canonical_bytes True s else s)"

type_synonym header = "(string, string list) go_map"

text \<open>
  The loop of \<open>collectQuotaSignals\<close> over the headers, with \<open>names\<close> and \<open>values\<close> as they grow.
\<close>

fun collectLoop ::
  "string \<Rightarrow> header \<Rightarrow> string list \<times> (string, string) go_map \<Rightarrow> string list \<times> (string, string) go_map" where
  "collectLoop provider [] acc = acc"
| "collectLoop provider ((key, headerValues) # headers) (names, vals) =
     (let canonicalKey = CanonicalHeaderKey (TrimSpace key)
      in if \<not> isQuotaSignalHeaderForProvider provider canonicalKey \<or> headerValues = []
         then collectLoop provider headers (names, vals)
         else let value = TrimSpace (last headerValues)
              in if \<not> validQuotaSignalValue value then collectLoop provider headers (names, vals)
                 else collectLoop provider headers
                        (if \<not> has_key vals canonicalKey then names @ [canonicalKey] else names,
                         AList.update canonicalKey value vals))"

definition collectQuotaSignals :: "string \<Rightarrow> header \<Rightarrow> (string, string) go_map" where
  "collectQuotaSignals provider headers =
     (if headers = [] then []
      else let (names, vals) = collectLoop provider headers ([], [])
           in if names = [] then []
              else let sorted_names = sort_key (\<lambda>n. (quotaSignalRetentionRank n, n)) names;
                       kept = take maxQuotaSignalHeaders sorted_names
                   in map (\<lambda>name. (name, map_get [] vals name)) kept)"

definition ClearObservationSignals :: "QuotaState \<Rightarrow> bool \<times> QuotaState" where
  "ClearObservationSignals q =
     (if q_Signals q = [] \<and> IsZero (q_ObservedAt q) then (False, q)
      else (True, q\<lparr>q_Signals := [], q_ObservedAt := 0\<rparr>))"

text \<open>\<open>now\<close> is the reading of the clock taken when no observation time is given.\<close>

definition ObserveResponseHeadersForProvider ::
  "go_time \<Rightarrow> string \<Rightarrow> header \<Rightarrow> go_time \<Rightarrow> QuotaState \<Rightarrow> bool \<times> QuotaState" where
  "ObserveResponseHeadersForProvider now provider headers observedAt q =
     (if \<not> ProviderSupportsQuotaObservation provider then ClearObservationSignals q
      else let next_signals = collectQuotaSignals provider headers
           in if next_signals = [] then (False, q)
              else (True, q\<lparr>q_Signals := next_signals,
                            q_ObservedAt := (if IsZero observedAt then now else observedAt)\<rparr>))"

definition cooldownFieldsOf :: "QuotaState \<Rightarrow> QuotaState" where
  "cooldownFieldsOf q =
     \<lparr>q_Exceeded = q_Exceeded q, q_Reason = q_Reason q, q_NextRecoverAt = q_NextRecoverAt q,
      q_BackoffLevel = q_BackoffLevel q, q_ObservedAt = 0, q_Signals = []\<rparr>"

definition applyCooldownFields :: "QuotaState \<Rightarrow> QuotaState \<Rightarrow> QuotaState" where
  "applyCooldownFields dst cooldown =
     dst\<lparr>q_Exceeded := q_Exceeded cooldown, q_Reason := q_Reason cooldown,
         q_NextRecoverAt := q_NextRecoverAt cooldown, q_BackoffLevel := q_BackoffLevel cooldown\<rparr>"

definition mergeQuotaObservation :: "QuotaState \<Rightarrow> QuotaState \<Rightarrow> QuotaState" where
  "mergeQuotaObservation target source =
     (if IsZero (q_ObservedAt source) \<or> q_ObservedAt source < q_ObservedAt target then target
      else target\<lparr>q_ObservedAt := q_ObservedAt source, q_Signals := q_Signals source\<rparr>)"

section \<open>The snapshot is bounded, and holds only quota signals of the provider\<close>

definition collected :: "string \<Rightarrow> string list \<times> (string, string) go_map \<Rightarrow> bool" where
  "collected provider acc \<longleftrightarrow>
     distinct (fst acc) \<and> (\<forall>n. n \<in> set (fst acc) \<longleftrightarrow> has_key (snd acc) n) \<and>
     (\<forall>n v. map_of (snd acc) n = Some v \<longrightarrow>
        isQuotaSignalHeaderForProvider provider n \<and> validQuotaSignalValue v)"

lemma collected_loop: "collected provider acc \<Longrightarrow> collected provider (collectLoop provider headers acc)"
proof (induction provider headers acc rule: collectLoop.induct)
  case (2 provider key vs headers names vals)
  show ?case
  proof (cases "\<not> isQuotaSignalHeaderForProvider provider (CanonicalHeaderKey (TrimSpace key)) \<or> vs = [] \<or>
      \<not> validQuotaSignalValue (TrimSpace (last vs))")
    case True
    with 2 show ?thesis by (auto simp: Let_def)
  next
    case False
    let ?k = "CanonicalHeaderKey (TrimSpace key)"
    have "collected provider (if \<not> has_key vals ?k then names @ [?k] else names,
        AList.update ?k (TrimSpace (last vs)) vals)"
      using 2(4) False by (auto simp: collected_def has_key_def map_of_update)
    with 2(3)[OF refl _ refl] False show ?thesis by (simp add: Let_def)
  qed
qed simp

lemma collected_init: "collected provider ([], [])"
  by (simp add: collected_def has_key_def)

definition kept_names :: "string \<Rightarrow> header \<Rightarrow> string list" where
  "kept_names provider headers =
     sort_key (\<lambda>n. (quotaSignalRetentionRank n, n)) (fst (collectLoop provider headers ([], [])))"

lemma collectQuotaSignals_alt:
  "collectQuotaSignals provider headers =
     map (\<lambda>name. (name, map_get [] (snd (collectLoop provider headers ([], []))) name))
       (take maxQuotaSignalHeaders (kept_names provider headers))"
  by (auto simp: collectQuotaSignals_def kept_names_def split: prod.splits)

text \<open>Whatever headers an upstream response carries, the stored snapshot is a map of at most 64
  entries, each a quota header of that provider with a non-empty printable value of at most 512
  bytes: no other header (an authorization header, a cookie) and no line break can enter it.\<close>

theorem quota_snapshot_bounded:
  "wf_map (collectQuotaSignals provider headers) \<and>
   length (collectQuotaSignals provider headers) \<le> 64 \<and>
   list_all (\<lambda>(name, value). isQuotaSignalHeaderForProvider provider name \<and> validQuotaSignalValue value)
     (collectQuotaSignals provider headers)"
proof -
  let ?acc = "collectLoop provider headers ([], [])"
  let ?kept = "take maxQuotaSignalHeaders (kept_names provider headers)"
  have c: "collected provider ?acc" by (intro collected_loop collected_init)
  have d: "distinct ?kept" using c by (simp add: kept_names_def collected_def)
  have sub: "set ?kept \<subseteq> set (fst ?acc)"
    using set_take_subset by (fastforce simp: kept_names_def)
  have "isQuotaSignalHeaderForProvider provider n \<and> validQuotaSignalValue (map_get [] (snd ?acc) n)"
    if "n \<in> set ?kept" for n
    using c sub that by (force simp: collected_def has_key_def map_get_def)
  then show ?thesis
    unfolding collectQuotaSignals_alt using d
    by (auto simp: list_all_iff comp_def maxQuotaSignalHeaders_def)
qed

text \<open>Truncation is by importance and does not depend on the order in which the map of headers is
  visited: of the accepted names, every one that is kept precedes every one that is dropped in the
  order by rank and then by name, so credential-level watermarks are never dropped in favour of an
  additional-limit header.\<close>

theorem quota_truncation_by_rank:
  "list_all (\<lambda>a. list_all (\<lambda>b. (quotaSignalRetentionRank a, a) < (quotaSignalRetentionRank b, b))
       (filter (\<lambda>n. \<not> has_key (collectQuotaSignals provider headers) n)
          (fst (collectLoop provider headers ([], [])))))
     (map fst (collectQuotaSignals provider headers))"
proof -
  let ?ns = "kept_names provider headers"
  let ?f = "\<lambda>n. (quotaSignalRetentionRank n, n)"
  have keys: "has_key (collectQuotaSignals provider headers) n \<longleftrightarrow> n \<in> set (take 64 ?ns)" for n
    unfolding collectQuotaSignals_alt has_key_def maxQuotaSignalHeaders_def
    by (simp add: map_of_eq_None_iff image_image)
  have "?f a < ?f b" if a: "a \<in> set (take 64 ?ns)" and b: "b \<in> set ?ns" "b \<notin> set (take 64 ?ns)" for a b
  proof -
    have "b \<in> set (drop 64 ?ns)"
      using b by (metis Un_iff append_take_drop_id set_append)
    moreover have "sorted (map ?f (take 64 ?ns @ drop 64 ?ns))"
      by (simp add: kept_names_def)
    ultimately have "?f a \<le> ?f b"
      using a unfolding map_append sorted_append by auto
    moreover have "a \<noteq> b" using a b by auto
    ultimately show ?thesis by (auto simp: less_le)
  qed
  moreover have "set (map fst (collectQuotaSignals provider headers)) = set (take 64 ?ns)"
    unfolding collectQuotaSignals_alt maxQuotaSignalHeaders_def by (simp add: image_image)
  moreover have "set (fst (collectLoop provider headers ([], []))) = set ?ns"
    by (simp add: kept_names_def)
  ultimately show ?thesis
    by (simp add: list_all_iff keys)
qed

text \<open>Observation and cooldown do not interfere: storing a snapshot leaves every field the
  scheduler reads, applying a cooldown leaves the snapshot, and the two commute.\<close>

theorem observation_cooldown_independent:
  "cooldownFieldsOf (snd (ObserveResponseHeadersForProvider now provider headers t q)) = cooldownFieldsOf q \<and>
   q_Signals (applyCooldownFields q c) = q_Signals q \<and> q_ObservedAt (applyCooldownFields q c) = q_ObservedAt q \<and>
   snd (ObserveResponseHeadersForProvider now provider headers t (applyCooldownFields q c)) =
     applyCooldownFields (snd (ObserveResponseHeadersForProvider now provider headers t q)) c"
  by (auto simp: ObserveResponseHeadersForProvider_def ClearObservationSignals_def cooldownFieldsOf_def
      applyCooldownFields_def Let_def)

end
