(* ===== verification/Availability.thy ===== *)
theory Availability
  imports QuotaSignals
begin

text \<open>
  When a credential may serve a model, \<open>sdk/aps/auth/selector.go\<close>: \<open>availabilityBlock\<close>,
  \<open>isAuthBlockedForModel\<close>, and the candidate lists built on it (\<open>collectAvailableByPriority\<close> to
  \<open>highestPriorityAuths\<close>). The candidates a selector is handed are not \<open>nil\<close>; their IDs are
  distinct, so that \<open>sort.Slice\<close> by ID has one result. The error of a selection that has no
  candidate is a value of \<open>pick_error\<close>, with the upstream error it wraps as its cause.
\<close>

section \<open>Definitions\<close>

datatype blockReason = blockReasonNone | blockReasonCooldown | blockReasonDisabled | blockReasonOther

definition laterCandidate :: "go_time \<Rightarrow> go_time \<Rightarrow> go_time \<Rightarrow> go_time" where
  "laterCandidate now next_time candidate =
     (if candidate > now \<and> (IsZero next_time \<or> candidate > next_time) then candidate else next_time)"

definition availabilityBlock ::
  "bool \<Rightarrow> bool \<Rightarrow> go_time \<Rightarrow> go_time \<Rightarrow> go_time \<Rightarrow> bool \<times> blockReason \<times> go_time" where
  "availabilityBlock unavailable quotaExceeded nextRetryAfter nextRecoverAt now =
     (if \<not> unavailable \<and> \<not> quotaExceeded then (False, blockReasonNone, 0)
      else let hasRecoveryTime = \<not> IsZero nextRetryAfter \<or> \<not> IsZero nextRecoverAt;
               next_time = foldl (laterCandidate now) 0 [nextRetryAfter, nextRecoverAt]
           in if \<not> IsZero next_time
              then (if quotaExceeded then (True, blockReasonCooldown, next_time)
                    else (True, blockReasonOther, next_time))
              else if hasRecoveryTime then (False, blockReasonNone, 0)
              else (True, blockReasonOther, 0))"

fun modelStatesLoop ::
  "string \<Rightarrow> go_time \<Rightarrow> (string, ModelState option) go_map \<Rightarrow> bool \<Rightarrow> bool \<times> blockReason \<times> go_time
    \<Rightarrow> bool \<times> blockReason \<times> go_time" where
  "modelStatesLoop modelKey now [] matched acc =
     (if matched then acc else (False, blockReasonNone, 0))"
| "modelStatesLoop modelKey now ((stateModel, None) # states) matched acc =
     modelStatesLoop modelKey now states matched acc"
| "modelStatesLoop modelKey now ((stateModel, Some state) # states) matched (blocked, blockedReason, nextRetry) =
     (if canonicalModelKey stateModel \<noteq> modelKey
      then modelStatesLoop modelKey now states matched (blocked, blockedReason, nextRetry)
      else if ms_Status state = StatusDisabled then (True, blockReasonDisabled, 0)
      else let (stateBlocked, reason, next_time) =
             availabilityBlock (ms_Unavailable state) (q_Exceeded (ms_Quota state))
               (ms_NextRetryAfter state) (q_NextRecoverAt (ms_Quota state)) now
           in if \<not> stateBlocked
              then modelStatesLoop modelKey now states True (blocked, blockedReason, nextRetry)
              else if IsZero next_time then (True, reason, 0)
              else modelStatesLoop modelKey now states True
                (if \<not> blocked \<or> next_time > nextRetry \<or> next_time = nextRetry \<and> reason = blockReasonCooldown
                 then (True, reason, next_time) else (blocked, blockedReason, nextRetry)))"

definition isAuthBlockedForModel :: "auth option \<Rightarrow> string \<Rightarrow> go_time \<Rightarrow> bool \<times> blockReason \<times> go_time" where
  "isAuthBlockedForModel ao model now =
     (case ao of
        None \<Rightarrow> (True, blockReasonOther, 0)
      | Some a \<Rightarrow>
          if auth_Disabled a \<or> auth_Status a = StatusDisabled then (True, blockReasonDisabled, 0)
          else if q_Exceeded (auth_Quota a) \<and> q_Reason (auth_Quota a) = ''credential_quota'' \<and>
                  q_NextRecoverAt (auth_Quota a) > now
          then (True, blockReasonCooldown, q_NextRecoverAt (auth_Quota a))
          else if model \<noteq> [] \<and> auth_ModelStates a \<noteq> []
          then modelStatesLoop (canonicalModelKey model) now (auth_ModelStates a) False
                 (False, blockReasonNone, 0)
          else availabilityBlock (auth_Unavailable a) (q_Exceeded (auth_Quota a))
                 (auth_NextRetryAfter a) (q_NextRecoverAt (auth_Quota a)) now)"

text \<open>
  \<open>CauseError\<close> is a recorded \<open>*Error\<close>, \<open>CauseText\<close> an error made from a status message.
  \<open>PickError\<close> carries the code of the \<open>*Error\<close>, \<open>CooldownError\<close> is a \<open>modelCooldownError\<close>.
\<close>

datatype cause = CauseError Error | CauseText string

datatype pick_error =
    PickError string "cause option"
  | CooldownError string string duration "cause option"

definition newModelCooldownErrorWithCause ::
  "string \<Rightarrow> string \<Rightarrow> duration \<Rightarrow> cause option \<Rightarrow> pick_error" where
  "newModelCooldownErrorWithCause model provider resetIn cause =
     CooldownError model provider (if resetIn < 0 then 0 else resetIn) cause"

definition preferCodexWebsocketAuths :: "bool \<Rightarrow> string \<Rightarrow> auth list \<Rightarrow> auth list" where
  "preferCodexWebsocketAuths downstreamWebsocket provider available =
     (if available = [] then available
      else if \<not> downstreamWebsocket then available
      else if \<not> EqualFold (TrimSpace provider) ''codex'' then available
      else let wsEnabled = filter (\<lambda>c. authWebsocketsEnabled (Some c)) available
           in if wsEnabled \<noteq> [] then wsEnabled else available)"

type_synonym priority_buckets = "(int, auth list) go_map"

fun collectAvailableLoop ::
  "string \<Rightarrow> go_time \<Rightarrow> auth list \<Rightarrow> priority_buckets \<times> nat \<times> go_time \<Rightarrow> priority_buckets \<times> nat \<times> go_time" where
  "collectAvailableLoop model now [] acc = acc"
| "collectAvailableLoop model now (candidate # auths) (available, cooldownCount, earliest) =
     (let (blocked, reason, next_time) = isAuthBlockedForModel (Some candidate) model now
      in if \<not> blocked
         then let priority = authPriority (Some candidate)
              in collectAvailableLoop model now auths
                   (AList.update priority (map_get [] available priority @ [candidate]) available,
                    cooldownCount, earliest)
         else if reason = blockReasonCooldown
         then collectAvailableLoop model now auths
                (available, cooldownCount + 1,
                 if \<not> IsZero next_time \<and> (IsZero earliest \<or> next_time < earliest) then next_time else earliest)
         else collectAvailableLoop model now auths (available, cooldownCount, earliest))"

definition collectAvailableByPriority ::
  "auth list \<Rightarrow> string \<Rightarrow> go_time \<Rightarrow> priority_buckets \<times> nat \<times> go_time" where
  "collectAvailableByPriority auths model now = collectAvailableLoop model now auths ([], 0, 0)"

definition availableAuthsFromPriorityBuckets :: "priority_buckets \<Rightarrow> bool \<Rightarrow> auth list" where
  "availableAuthsFromPriorityBuckets availableByPriority allPriorities =
     (let candidates =
        (if allPriorities then concat (map snd availableByPriority)
         else let (bestPriority, found) =
                foldl (\<lambda>(best, found) priority.
                         if \<not> found \<or> priority > best then (priority, True) else (best, found))
                  (0, False) (map fst availableByPriority)
              in map_get [] availableByPriority bestPriority)
      in if length candidates > 1 then sort_key auth_ID candidates else candidates)"

definition getAvailableAuthsWithPriorityMode ::
  "auth list \<Rightarrow> string \<Rightarrow> string \<Rightarrow> go_time \<Rightarrow> bool \<Rightarrow> pick_error + auth list" where
  "getAvailableAuthsWithPriorityMode auths provider model now allPriorities =
     (if auths = [] then Inl (PickError ''auth_not_found'' None)
      else let (availableByPriority, cooldownCount, earliest) = collectAvailableByPriority auths model now
           in if availableByPriority = []
              then if cooldownCount = length auths \<and> \<not> IsZero earliest
                   then let providerForError = (if provider = ''mixed'' then [] else provider);
                            resetIn = time_Sub earliest now
                        in Inl (newModelCooldownErrorWithCause model providerForError
                                  (if resetIn < 0 then 0 else resetIn) None)
                   else Inl (PickError ''auth_unavailable'' None)
              else Inr (availableAuthsFromPriorityBuckets availableByPriority allPriorities))"

definition getAvailableAuths :: "auth list \<Rightarrow> string \<Rightarrow> string \<Rightarrow> go_time \<Rightarrow> pick_error + auth list" where
  "getAvailableAuths auths provider model now =
     getAvailableAuthsWithPriorityMode auths provider model now False"

definition getAvailableAuthsAcrossPriorities ::
  "auth list \<Rightarrow> string \<Rightarrow> string \<Rightarrow> go_time \<Rightarrow> pick_error + auth list" where
  "getAvailableAuthsAcrossPriorities auths provider model now =
     getAvailableAuthsWithPriorityMode auths provider model now True"

definition highestPriorityAuths :: "auth list \<Rightarrow> auth list" where
  "highestPriorityAuths auths =
     (if length auths \<le> 1 then auths
      else let (bestPriority, bestCount) =
             foldl (\<lambda>(best, count) a.
                      let priority = authPriority (Some a)
                      in if count = 0 \<or> priority > best then (priority, 1::nat)
                         else if priority = best then (best, count + 1) else (best, count))
               (0, 0) auths
           in if bestCount = length auths then auths
              else filter (\<lambda>a. authPriority (Some a) = bestPriority) auths)"

definition positiveWeightAuths :: "auth list \<Rightarrow> auth list" where
  "positiveWeightAuths auths = filter (\<lambda>a. authWeight (Some a) > 0) auths"

section \<open>The verdict on one availability record\<close>

lemma availabilityBlock_alt:
  "0 \<le> now \<Longrightarrow> availabilityBlock u q ra rc now =
     (if \<not> u \<and> \<not> q then (False, blockReasonNone, 0)
      else if max ra rc > now then (True, if q then blockReasonCooldown else blockReasonOther, max ra rc)
      else if ra \<noteq> 0 \<or> rc \<noteq> 0 then (False, blockReasonNone, 0)
      else (True, blockReasonOther, 0))"
  by (auto simp: availabilityBlock_def laterCandidate_def Let_def max_def)

text \<open>A verdict is well formed, and its development over time is the one its retry time announces.\<close>

definition verdict_ok :: "go_time \<Rightarrow> bool \<times> blockReason \<times> go_time \<Rightarrow> bool" where
  "verdict_ok now v \<longleftrightarrow>
     (case v of (b, r, n) \<Rightarrow> (n \<noteq> 0 \<longrightarrow> b \<and> now < n) \<and> (r = blockReasonCooldown \<longrightarrow> b \<and> n \<noteq> 0))"

definition verdict_step :: "go_time \<Rightarrow> bool \<times> blockReason \<times> go_time \<Rightarrow> bool \<times> blockReason \<times> go_time \<Rightarrow> bool" where
  "verdict_step now' v v' \<longleftrightarrow>
     (\<not> fst v \<longrightarrow> \<not> fst v') \<and>
     (fst v \<and> (snd (snd v) = 0 \<or> now' < snd (snd v)) \<longrightarrow> fst v') \<and>
     (fst v \<and> snd (snd v) \<noteq> 0 \<and> snd (snd v) \<le> now' \<longrightarrow> \<not> fst v')"

lemma availabilityBlock_ok: "0 \<le> now \<Longrightarrow> verdict_ok now (availabilityBlock u q ra rc now)"
  by (auto simp: availabilityBlock_alt verdict_ok_def)

lemma availabilityBlock_step:
  "0 \<le> now \<Longrightarrow> now \<le> now' \<Longrightarrow>
   verdict_step now' (availabilityBlock u q ra rc now) (availabilityBlock u q ra rc now')"
  by (auto simp: availabilityBlock_alt verdict_step_def)

section \<open>The loop over the model states\<close>

text \<open>
  The states that match the model, each with its verdict. The loop combines the verdicts of the
  blocked ones: a verdict with no retry time decides at once, otherwise the latest retry time
  wins, a cooldown before another reason at equal times.
\<close>

definition state_verdict :: "go_time \<Rightarrow> ModelState \<Rightarrow> bool \<times> blockReason \<times> go_time" where
  "state_verdict now state =
     (if ms_Status state = StatusDisabled then (True, blockReasonDisabled, 0)
      else availabilityBlock (ms_Unavailable state) (q_Exceeded (ms_Quota state))
             (ms_NextRetryAfter state) (q_NextRecoverAt (ms_Quota state)) now)"

fun matching_states :: "string \<Rightarrow> (string, ModelState option) go_map \<Rightarrow> ModelState list" where
  "matching_states modelKey [] = []"
| "matching_states modelKey ((_, None) # states) = matching_states modelKey states"
| "matching_states modelKey ((stateModel, Some state) # states) =
     (if canonicalModelKey stateModel = modelKey then state # matching_states modelKey states
      else matching_states modelKey states)"

fun combine :: "(bool \<times> blockReason \<times> go_time) list \<Rightarrow> bool \<times> blockReason \<times> go_time
    \<Rightarrow> bool \<times> blockReason \<times> go_time" where
  "combine [] acc = acc"
| "combine ((b, r, n) # vs) (blocked, reason, next_time) =
     (if \<not> b then combine vs (blocked, reason, next_time)
      else if n = 0 then (True, r, 0)
      else combine vs (if \<not> blocked \<or> n > next_time \<or> n = next_time \<and> r = blockReasonCooldown
                       then (True, r, n) else (blocked, reason, next_time)))"

lemma modelStatesLoop_combine:
  "matched \<or> acc = (False, blockReasonNone, 0) \<Longrightarrow>
   modelStatesLoop k now states matched acc = combine (map (state_verdict now) (matching_states k states)) acc"
proof (induction k now states matched acc rule: modelStatesLoop.induct)
  case (3 k now stateModel state states matched b r n)
  show ?case
  proof (cases "canonicalModelKey stateModel = k \<and> ms_Status state \<noteq> StatusDisabled")
    case True
    obtain b' r' n' where v: "availabilityBlock (ms_Unavailable state) (q_Exceeded (ms_Quota state))
        (ms_NextRetryAfter state) (q_NextRecoverAt (ms_Quota state)) now = (b', r', n')"
      by (cases "availabilityBlock (ms_Unavailable state) (q_Exceeded (ms_Quota state))
        (ms_NextRetryAfter state) (q_NextRecoverAt (ms_Quota state)) now")
    have sv: "state_verdict now state = (b', r', n')" using True v by (simp add: state_verdict_def)
    show ?thesis
      using 3(2)[OF _ _ v[symmetric]] 3(3)[OF _ _ v[symmetric]] True
      by (simp add: v sv)
  next
    case False
    then show ?thesis using 3(1)[OF _ 3(4)] by (auto simp: state_verdict_def)
  qed
qed auto

text \<open>
  \<open>best S v\<close>: \<open>v\<close> is the combination of the blocked verdicts \<open>S\<close>. A reason and time of \<open>S\<close> is
  chosen; its time is zero if some time in \<open>S\<close> is, and otherwise it is the latest, at which a
  cooldown is preferred. This is a property of the set, and so of every order of the map.
\<close>

definition best :: "(blockReason \<times> go_time) set \<Rightarrow> bool \<times> blockReason \<times> go_time \<Rightarrow> bool" where
  "best S v \<longleftrightarrow>
     (fst v \<longleftrightarrow> S \<noteq> {}) \<and> (\<not> fst v \<longrightarrow> snd v = (blockReasonNone, 0)) \<and>
     (fst v \<longrightarrow> snd v \<in> S \<and>
        (snd (snd v) \<noteq> 0 \<longrightarrow>
           (\<forall>r n. (r, n) \<in> S \<longrightarrow> 0 < n \<and> n \<le> snd (snd v) \<and>
              (n = snd (snd v) \<and> r = blockReasonCooldown \<longrightarrow> fst (snd v) = blockReasonCooldown))))"

definition blocked_set :: "(bool \<times> blockReason \<times> go_time) list \<Rightarrow> (blockReason \<times> go_time) set" where
  "blocked_set vs = {(r, n). (True, r, n) \<in> set vs}"

lemma blocked_set_simps [simp]:
  "blocked_set [] = {}"
  "blocked_set ((b, r, n) # vs) = (if b then insert (r, n) (blocked_set vs) else blocked_set vs)"
  by (auto simp: blocked_set_def)

lemma best_dominated:
  assumes "best (insert (r, n) S) v" "0 < n0" "n0 < n \<or> n0 = n \<and> (r0 = blockReasonCooldown \<longrightarrow> r = blockReasonCooldown)"
  shows "best (insert (r0, n0) (insert (r, n) S)) v"
proof -
  have bv: "fst v" "snd v \<in> insert (r, n) S" using assms(1) unfolding best_def by auto
  have "0 < m \<and> m \<le> snd (snd v) \<and> (m = snd (snd v) \<and> q = blockReasonCooldown \<longrightarrow> fst (snd v) = blockReasonCooldown)"
    if nz: "snd (snd v) \<noteq> 0" and m: "(q, m) \<in> insert (r0, n0) (insert (r, n) S)" for q m
  proof -
    have old: "(q', m') \<in> insert (r, n) S \<Longrightarrow> 0 < m' \<and> m' \<le> snd (snd v) \<and>
        (m' = snd (snd v) \<and> q' = blockReasonCooldown \<longrightarrow> fst (snd v) = blockReasonCooldown)" for q' m'
      using assms(1) nz bv(1) unfolding best_def by blast
    show ?thesis
      using m old[of q m] old[of r n] assms(2,3) by auto
  qed
  then show ?thesis using bv unfolding best_def by blast
qed

lemma best_zero: "best (insert (r, 0) S) (True, r, 0)"
  by (simp add: best_def)

lemma combine_acc:
  assumes "n0 > 0" "\<forall>v \<in> set vs. 0 \<le> snd (snd v)"
  shows "best (insert (r0, n0) (blocked_set vs)) (combine vs (True, r0, n0))"
  using assms
proof (induction vs arbitrary: r0 n0)
  case Nil
  then show ?case by (auto simp: best_def)
next
  case (Cons v vs)
  obtain b r n where v: "v = (b, r, n)" by (cases v)
  have IH: "best (insert (r', n') (blocked_set vs)) (combine vs (True, r', n'))" if "n' > 0" for r' n'
    using Cons.IH[OF that] Cons.prems(2) by simp
  consider (free) "\<not> b" | (zero) "b" "n = 0"
    | (new) "b" "n > 0" "n > n0 \<or> n = n0 \<and> r = blockReasonCooldown"
    | (old) "b" "n > 0" "n < n0 \<or> n = n0 \<and> r \<noteq> blockReasonCooldown"
    using Cons.prems v by fastforce
  then show ?case
  proof cases
    case free
    with IH[OF Cons.prems(1)] v show ?thesis by simp
  next
    case zero
    then show ?thesis using v best_zero[of r "insert (r0, n0) (blocked_set vs)"]
      by (simp add: insert_commute)
  next
    case new
    then have "combine (v # vs) (True, r0, n0) = combine vs (True, r, n)" using v by auto
    moreover have "n0 < n \<or> n0 = n \<and> (r0 = blockReasonCooldown \<longrightarrow> r = blockReasonCooldown)"
      using new(3) by auto
    ultimately show ?thesis
      using best_dominated[OF IH[OF new(2)] Cons.prems(1)] new(1) v by simp
  next
    case old
    then have "combine (v # vs) (True, r0, n0) = combine vs (True, r0, n0)" using v by auto
    moreover have "n < n0 \<or> n = n0 \<and> (r = blockReasonCooldown \<longrightarrow> r0 = blockReasonCooldown)"
      using old(3) by auto
    ultimately show ?thesis
      using best_dominated[OF IH[OF Cons.prems(1)] old(2), of r r0] old(1) v
      by (simp add: insert_commute del: combine.simps)
  qed
qed

lemma combine_init:
  "\<forall>v \<in> set vs. 0 \<le> snd (snd v) \<Longrightarrow> best (blocked_set vs) (combine vs (False, blockReasonNone, 0))"
proof (induction vs)
  case (Cons v vs)
  obtain b r n where v: "v = (b, r, n)" by (cases v)
  consider "\<not> b" | "b" "n = 0" | "b" "n > 0" using Cons.prems v by fastforce
  then show ?case
    using Cons v combine_acc[of n vs r] best_zero[of r "blocked_set vs"] by cases auto
qed (simp add: best_def)

lemma state_verdict_ok: "0 \<le> now \<Longrightarrow> verdict_ok now (state_verdict now s)"
  unfolding state_verdict_def by (auto simp: availabilityBlock_ok) (simp add: verdict_ok_def)

lemma state_verdict_step:
  "0 \<le> now \<Longrightarrow> now \<le> now' \<Longrightarrow> verdict_step now' (state_verdict now s) (state_verdict now' s)"
  unfolding state_verdict_def by (auto simp: availabilityBlock_step) (simp add: verdict_step_def)

lemma loop_best:
  assumes "0 \<le> now"
  shows "best (blocked_set (map (state_verdict now) (matching_states k states)))
    (modelStatesLoop k now states False (False, blockReasonNone, 0))"
proof -
  have "0 \<le> snd (snd (state_verdict now s))" for s
    using state_verdict_ok[OF assms, of s] assms by (auto simp: verdict_ok_def split: prod.splits)
  then show ?thesis
    by (subst modelStatesLoop_combine) (simp_all add: combine_init)
qed

section \<open>The verdict on a credential\<close>

text \<open>
  The verdict of \<open>isAuthBlockedForModel\<close> by cases: a decision of the whole credential, or the
  combination of the verdicts of a list of records.
\<close>

definition auth_states :: "auth \<Rightarrow> string \<Rightarrow> (go_time \<Rightarrow> bool \<times> blockReason \<times> go_time) list" where
  "auth_states a model =
     (if model \<noteq> [] \<and> auth_ModelStates a \<noteq> []
      then map (\<lambda>s now. state_verdict now s) (matching_states (canonicalModelKey model) (auth_ModelStates a))
      else [\<lambda>now. availabilityBlock (auth_Unavailable a) (q_Exceeded (auth_Quota a))
             (auth_NextRetryAfter a) (q_NextRecoverAt (auth_Quota a)) now])"

definition auth_off :: "auth \<Rightarrow> bool" where
  "auth_off a \<longleftrightarrow> auth_Disabled a \<or> auth_Status a = StatusDisabled"

definition auth_quota_until :: "auth \<Rightarrow> go_time" where
  "auth_quota_until a =
     (if q_Exceeded (auth_Quota a) \<and> q_Reason (auth_Quota a) = ''credential_quota''
      then q_NextRecoverAt (auth_Quota a) else 0)"

lemma auth_states_ok:
  "0 \<le> now \<Longrightarrow> f \<in> set (auth_states a model) \<Longrightarrow> verdict_ok now (f now)"
  by (auto simp: auth_states_def availabilityBlock_ok state_verdict_ok split: if_splits)

lemma auth_states_step:
  "0 \<le> now \<Longrightarrow> now \<le> now' \<Longrightarrow> f \<in> set (auth_states a model) \<Longrightarrow> verdict_step now' (f now) (f now')"
  by (auto simp: auth_states_def availabilityBlock_step state_verdict_step split: if_splits)

definition blocked_now :: "auth \<Rightarrow> string \<Rightarrow> go_time \<Rightarrow> (blockReason \<times> go_time) set" where
  "blocked_now a model now = blocked_set (map (\<lambda>f. f now) (auth_states a model))"

lemma isAuthBlocked_split:
  "0 \<le> now \<Longrightarrow> isAuthBlockedForModel (Some a) model now =
     (if auth_off a then (True, blockReasonDisabled, 0)
      else if now < auth_quota_until a then (True, blockReasonCooldown, auth_quota_until a)
      else if model \<noteq> [] \<and> auth_ModelStates a \<noteq> []
      then modelStatesLoop (canonicalModelKey model) now (auth_ModelStates a) False
             (False, blockReasonNone, 0)
      else availabilityBlock (auth_Unavailable a) (q_Exceeded (auth_Quota a))
             (auth_NextRetryAfter a) (q_NextRecoverAt (auth_Quota a)) now)"
  unfolding isAuthBlockedForModel_def auth_off_def auth_quota_until_def by auto

lemma isAuthBlocked_cases:
  assumes "0 \<le> now"
  shows "if auth_off a then isAuthBlockedForModel (Some a) model now = (True, blockReasonDisabled, 0)
    else if now < auth_quota_until a
      then isAuthBlockedForModel (Some a) model now = (True, blockReasonCooldown, auth_quota_until a)
    else best (blocked_now a model now) (isAuthBlockedForModel (Some a) model now)"
proof -
  show ?thesis
  proof (cases "model \<noteq> [] \<and> auth_ModelStates a \<noteq> []")
    case True
    then have "map (\<lambda>f. f now) (auth_states a model) =
        map (state_verdict now) (matching_states (canonicalModelKey model) (auth_ModelStates a))"
      by (simp add: auth_states_def)
    then show ?thesis
      unfolding isAuthBlocked_split[OF assms] blocked_now_def if_P[OF True]
      using loop_best[OF assms] by simp
  next
    case False
    let ?v = "availabilityBlock (auth_Unavailable a) (q_Exceeded (auth_Quota a))
             (auth_NextRetryAfter a) (q_NextRecoverAt (auth_Quota a)) now"
    have "map (\<lambda>f. f now) (auth_states a model) = [?v]"
      unfolding auth_states_def if_not_P[OF False] by simp
    moreover have "best (blocked_set [?v]) ?v"
      using assms by (auto simp: availabilityBlock_alt best_def)
    ultimately show ?thesis
      unfolding isAuthBlocked_split[OF assms] blocked_now_def if_not_P[OF False] by simp
  qed
qed

lemma blocked_now_iff:
  "(r, n) \<in> blocked_now a model now \<longleftrightarrow> (\<exists>f \<in> set (auth_states a model). f now = (True, r, n))"
  unfolding blocked_now_def blocked_set_def by (simp add: image_iff eq_commute)

lemma blocked_now_ok:
  "0 \<le> now \<Longrightarrow> (r, n) \<in> blocked_now a model now \<Longrightarrow> (n \<noteq> 0 \<longrightarrow> now < n) \<and> (r = blockReasonCooldown \<longrightarrow> n \<noteq> 0)"
  using auth_states_ok unfolding blocked_now_iff verdict_ok_def by fastforce

lemma blocked_now_disabled: "0 \<le> now \<Longrightarrow> (blockReasonDisabled, n) \<in> blocked_now a model now \<Longrightarrow> n = 0"
  unfolding blocked_now_iff
  by (auto simp: auth_states_def state_verdict_def availabilityBlock_alt split: if_splits)

lemma blocked_now_later:
  "0 \<le> now \<Longrightarrow> now \<le> now' \<Longrightarrow> (r, n) \<in> blocked_now a model now \<Longrightarrow> n = 0 \<or> now' < n \<Longrightarrow>
   blocked_now a model now' \<noteq> {}"
proof -
  assume t: "0 \<le> now" "now \<le> now'" and "(r, n) \<in> blocked_now a model now" and n: "n = 0 \<or> now' < n"
  then obtain f where f: "f \<in> set (auth_states a model)" "f now = (True, r, n)"
    unfolding blocked_now_iff by blast
  obtain b r' n' where f': "f now' = (b, r', n')" by (cases "f now'")
  have "fst (f now')" using auth_states_step[OF t f(1)] f(2) n unfolding verdict_step_def by simp
  with f' f(1) have "(r', n') \<in> blocked_now a model now'" unfolding blocked_now_iff by auto
  then show ?thesis by blast
qed

lemma blocked_now_shrinks:
  "0 \<le> now \<Longrightarrow> now \<le> now' \<Longrightarrow> \<forall>r n. (r, n) \<in> blocked_now a model now \<longrightarrow> n \<noteq> 0 \<and> n \<le> now' \<Longrightarrow>
   blocked_now a model now' = {}"
proof -
  assume t: "0 \<le> now" "now \<le> now'" and *: "\<forall>r n. (r, n) \<in> blocked_now a model now \<longrightarrow> n \<noteq> 0 \<and> n \<le> now'"
  have False if rn: "(r', n') \<in> blocked_now a model now'" for r' n'
  proof -
    obtain f where f: "f \<in> set (auth_states a model)" "f now' = (True, r', n')"
      using rn unfolding blocked_now_iff by blast
    obtain b r n where v: "f now = (b, r, n)" by (cases "f now")
    have step: "verdict_step now' (f now) (f now')" using auth_states_step[OF t f(1)] .
    have b: "b" using step f(2) v by (auto simp: verdict_step_def)
    then have "(r, n) \<in> blocked_now a model now" using f(1) v unfolding blocked_now_iff by auto
    with * step f(2) v b show False by (auto simp: verdict_step_def)
  qed
  then show ?thesis by auto
qed

lemma isAuthBlocked_ok: "0 \<le> now \<Longrightarrow> verdict_ok now (isAuthBlockedForModel (Some a) model now)"
  using isAuthBlocked_cases[of now a model] blocked_now_ok[of now _ _ a model]
  by (cases "isAuthBlockedForModel (Some a) model now")
     (auto simp: verdict_ok_def best_def split: if_splits)

lemma isAuthBlocked_best:
  "0 \<le> now \<Longrightarrow> \<not> auth_off a \<Longrightarrow> auth_quota_until a \<le> now \<Longrightarrow>
   best (blocked_now a model now) (isAuthBlockedForModel (Some a) model now)"
  using isAuthBlocked_cases[of now a model] by (simp split: if_splits)

lemma isAuthBlocked_disabled:
  assumes "0 \<le> now" "isAuthBlockedForModel (Some a) model now = (b, blockReasonDisabled, n)"
  shows "n = 0"
  using isAuthBlocked_cases[OF assms(1), of a model] assms(2) blocked_now_disabled[OF assms(1), of n a model]
  by (auto simp: best_def split: if_splits)

lemma isAuthBlocked_over_time:
  assumes "0 \<le> now" and "now \<le> now'"
    and "isAuthBlockedForModel (Some a) model now = (b, r, n)"
  shows "(n \<noteq> 0 \<longrightarrow> b \<and> now < n) \<and>
    (\<not> b \<longrightarrow> \<not> fst (isAuthBlockedForModel (Some a) model now')) \<and>
    (b \<and> (n = 0 \<or> now' < n) \<longrightarrow> fst (isAuthBlockedForModel (Some a) model now')) \<and>
    (b \<and> n \<noteq> 0 \<and> n \<le> now' \<and> auth_quota_until a \<le> now \<longrightarrow>
       \<not> fst (isAuthBlockedForModel (Some a) model now'))"
proof -
  have t': "0 \<le> now'" using assms by simp
  have ok: "n \<noteq> 0 \<longrightarrow> b \<and> now < n"
    using isAuthBlocked_ok[OF assms(1), of a model] assms(3) by (simp add: verdict_ok_def)
  consider (off) "auth_off a" | (quota) "\<not> auth_off a" "now < auth_quota_until a"
    | (states) "\<not> auth_off a" "auth_quota_until a \<le> now" by fastforce
  then show ?thesis
  proof cases
    case off
    then show ?thesis
      using isAuthBlocked_cases[OF assms(1), of a model] isAuthBlocked_cases[OF t', of a model] assms(3)
      by auto
  next
    case quota
    then show ?thesis
      using isAuthBlocked_cases[OF assms(1), of a model] isAuthBlocked_cases[OF t', of a model] assms(1,3) ok
      by (auto split: if_splits)
  next
    case states
    have best: "best (blocked_now a model now) (b, r, n)"
      using isAuthBlocked_best[OF assms(1) states, of model] assms(3) by simp
    have best': "best (blocked_now a model now') (isAuthBlockedForModel (Some a) model now')"
      using isAuthBlocked_best[OF t' states(1), of model] states(2) assms(2) by simp
    have blk: "fst (isAuthBlockedForModel (Some a) model now') \<longleftrightarrow> blocked_now a model now' \<noteq> {}"
      using best' unfolding best_def by blast
    have "blocked_now a model now' = {}" if "\<not> b"
      using blocked_now_shrinks[OF assms(1,2), of a model] best that unfolding best_def by auto
    moreover have "blocked_now a model now' \<noteq> {}" if "b" "n = 0 \<or> now' < n"
      using blocked_now_later[OF assms(1,2), of r n a model] best that unfolding best_def by simp
    moreover have "blocked_now a model now' = {}" if "b" "n \<noteq> 0" "n \<le> now'"
      using blocked_now_shrinks[OF assms(1,2), of a model] best that unfolding best_def
      by (metis dual_order.trans fst_conv less_irrefl snd_conv)
    ultimately show ?thesis using ok blk by blast
  qed
qed

text \<open>The retry time of a blocked credential is exact: it lies in the future, the credential stays
  blocked until it and, with no retry time, for ever; a credential that is free stays free while its
  record is unchanged; and once the retry time is reached the block is over, except that the end of
  a credential-wide quota hands over to the model states.\<close>

theorem retry_time_exact:
  assumes "0 \<le> now" and "now \<le> now'"
    and "isAuthBlockedForModel (Some a) model now = (b, r, n)"
  shows "(n \<noteq> 0 \<longrightarrow> b \<and> now < n) \<and>
    (\<not> b \<longrightarrow> \<not> fst (isAuthBlockedForModel (Some a) model now')) \<and>
    (b \<and> (n = 0 \<or> now' < n) \<longrightarrow> fst (isAuthBlockedForModel (Some a) model now')) \<and>
    (b \<and> n \<noteq> 0 \<and> n \<le> now' \<and> auth_quota_until a \<le> now \<longrightarrow>
       \<not> fst (isAuthBlockedForModel (Some a) model now'))"
  by (rule isAuthBlocked_over_time[OF assms])

definition sample_state :: "go_time \<Rightarrow> ModelState" where
  "sample_state t = \<lparr>ms_Status = StatusError, ms_StatusMessage = ''quota exhausted'', ms_Unavailable = True,
     ms_NextRetryAfter = t, ms_LastError = None,
     ms_Quota = emptyQuota\<lparr>q_Exceeded := True, q_Reason := ''quota'', q_NextRecoverAt := t\<rparr>, ms_UpdatedAt = 1\<rparr>"

definition cooling_auth :: auth where
  "cooling_auth = (sample_auth ''a'' ''claude'')\<lparr>auth_ModelStates :=
     [(''m(high)'', Some (sample_state 50)), (''x'', Some (sample_state 90)), (''m'', Some (sample_state 40))]\<rparr>"

theorem retry_time_exact_witness:
  "isAuthBlockedForModel (Some cooling_auth) ''m'' 10 = (True, blockReasonCooldown, 50) \<and>
   fst (isAuthBlockedForModel (Some cooling_auth) ''m'' 49) \<and>
   \<not> fst (isAuthBlockedForModel (Some cooling_auth) ''m'' 50)"
proof -
  have v: "isAuthBlockedForModel (Some cooling_auth) ''m'' 10 = (True, blockReasonCooldown, 50)"
    and q: "auth_quota_until cooling_auth \<le> 10" by code_simp+
  show ?thesis
    using v q retry_time_exact[OF _ _ v, of 49] retry_time_exact[OF _ _ v, of 50] by simp
qed

text \<open>The combination is unique in everything but the reason of a block without retry time.\<close>

lemma best_unique:
  assumes "best S v" "best S w" "\<forall>r. (r, 0) \<in> S \<longrightarrow> r \<noteq> blockReasonCooldown"
  shows "fst v = fst w \<and> snd (snd v) = snd (snd w) \<and>
    (fst (snd v) = blockReasonCooldown \<longleftrightarrow> fst (snd w) = blockReasonCooldown)"
proof (cases "S = {}")
  case True
  then have "\<not> fst v" "\<not> fst w" "snd v = (blockReasonNone, 0)" "snd w = (blockReasonNone, 0)"
    using assms(1,2) unfolding best_def by blast+
  then show ?thesis by simp
next
  case False
  obtain r n where v: "v = (True, r, n)" "(r, n) \<in> S"
    using assms(1) False unfolding best_def by (cases v) auto
  obtain r' n' where w: "w = (True, r', n')" "(r', n') \<in> S"
    using assms(2) False unfolding best_def by (cases w) auto
  have 1: "n \<noteq> 0 \<Longrightarrow> (q, m) \<in> S \<Longrightarrow> 0 < m \<and> m \<le> n \<and> (m = n \<and> q = blockReasonCooldown \<longrightarrow> r = blockReasonCooldown)"
    for q m using assms(1) v(1) unfolding best_def by auto
  have 2: "n' \<noteq> 0 \<Longrightarrow> (q, m) \<in> S \<Longrightarrow> 0 < m \<and> m \<le> n' \<and> (m = n' \<and> q = blockReasonCooldown \<longrightarrow> r' = blockReasonCooldown)"
    for q m using assms(2) w(1) unfolding best_def by auto
  have "n = n'"
    using 1[OF _ w(2)] 2[OF _ v(2)] by (metis less_irrefl order_antisym)
  moreover have "r = blockReasonCooldown \<longleftrightarrow> r' = blockReasonCooldown"
  proof (cases "n = 0")
    case True
    with calculation v(2) w(2) assms(3) show ?thesis by metis
  next
    case False
    with calculation 1[OF _ w(2)] 2[OF _ v(2)] show ?thesis by metis
  qed
  ultimately show ?thesis unfolding v(1) w(1) by simp
qed

lemma matching_states_set:
  "set (matching_states k states) = {s. \<exists>m. (m, Some s) \<in> set states \<and> canonicalModelKey m = k}"
  by (induction k states rule: matching_states.induct) auto

text \<open>C39. The verdict on a credential does not depend on the order in which the map of its model states
  is visited: whether it is blocked, until when, and whether it counts as a cooldown are the same for
  every order (only the tag that tells a disabled model from another indefinite block may differ).\<close>

theorem blocked_order_independent:
  assumes "0 \<le> now" and "set states = set states'"
  shows "(let v = isAuthBlockedForModel (Some (a\<lparr>auth_ModelStates := states\<rparr>)) model now;
              w = isAuthBlockedForModel (Some (a\<lparr>auth_ModelStates := states'\<rparr>)) model now
          in fst v = fst w \<and> snd (snd v) = snd (snd w) \<and>
             (fst (snd v) = blockReasonCooldown \<longleftrightarrow> fst (snd w) = blockReasonCooldown))"
proof -
  let ?a = "a\<lparr>auth_ModelStates := states\<rparr>" and ?b = "a\<lparr>auth_ModelStates := states'\<rparr>"
  have e: "states = [] \<longleftrightarrow> states' = []" using assms(2) by (metis set_empty)
  have "set (auth_states ?a model) = set (auth_states ?b model)"
    using e assms(2) by (simp add: auth_states_def matching_states_set)
  then have S: "blocked_now ?a model now = blocked_now ?b model now"
    by (auto simp: blocked_now_iff)
  have same: "auth_off ?a = auth_off ?b" "auth_quota_until ?a = auth_quota_until ?b"
    by (simp_all add: auth_off_def auth_quota_until_def)
  consider "auth_off ?a" | "\<not> auth_off ?a" "now < auth_quota_until ?a"
    | "\<not> auth_off ?a" "auth_quota_until ?a \<le> now" by fastforce
  then show ?thesis
  proof cases
    case 3
    then have "best (blocked_now ?a model now) (isAuthBlockedForModel (Some ?a) model now)"
      "best (blocked_now ?a model now) (isAuthBlockedForModel (Some ?b) model now)"
      using isAuthBlocked_best[OF assms(1), of ?a model] isAuthBlocked_best[OF assms(1), of ?b model] same S
      by auto
    moreover have "\<forall>r. (r, 0) \<in> blocked_now ?a model now \<longrightarrow> r \<noteq> blockReasonCooldown"
      using blocked_now_ok[OF assms(1)] by blast
    ultimately show ?thesis using best_unique unfolding Let_def by blast
  qed (use isAuthBlocked_cases[OF assms(1), of ?a model] isAuthBlocked_cases[OF assms(1), of ?b model] same
       in \<open>auto simp: Let_def split: if_splits\<close>)
qed

theorem blocked_order_independent_witness:
  "let v = isAuthBlockedForModel (Some (cooling_auth\<lparr>auth_ModelStates :=
         [(''m(high)'', Some (sample_state 50)), (''m'', Some (sample_state 40))]\<rparr>)) ''m'' 10;
       w = isAuthBlockedForModel (Some (cooling_auth\<lparr>auth_ModelStates :=
         [(''m'', Some (sample_state 40)), (''m(high)'', Some (sample_state 50))]\<rparr>)) ''m'' 10
   in fst v = fst w \<and> snd (snd v) = snd (snd w) \<and>
      (fst (snd v) = blockReasonCooldown \<longleftrightarrow> fst (snd w) = blockReasonCooldown)"
  by (rule blocked_order_independent) auto

section \<open>The candidate lists\<close>

definition free_now :: "string \<Rightarrow> go_time \<Rightarrow> auth \<Rightarrow> bool" where
  "free_now model now a \<longleftrightarrow> \<not> fst (isAuthBlockedForModel (Some a) model now)"

definition cooling_now :: "string \<Rightarrow> go_time \<Rightarrow> auth \<Rightarrow> bool" where
  "cooling_now model now a \<longleftrightarrow>
     (case isAuthBlockedForModel (Some a) model now of (b, r, n) \<Rightarrow> b \<and> r = blockReasonCooldown)"

definition retry_at :: "string \<Rightarrow> go_time \<Rightarrow> auth \<Rightarrow> go_time" where
  "retry_at model now a = snd (snd (isAuthBlockedForModel (Some a) model now))"

abbreviation prio :: "auth \<Rightarrow> int" where
  "prio a \<equiv> authPriority (Some a)"

definition earlier :: "go_time \<Rightarrow> go_time \<Rightarrow> go_time" where
  "earlier e n = (if n \<noteq> 0 \<and> (e = 0 \<or> n < e) then n else e)"

lemma collectAvailableLoop_step:
  "collectAvailableLoop model now (a # as) (av, c, e) =
     collectAvailableLoop model now as
       (if free_now model now a then AList.update (prio a) (map_get [] av (prio a) @ [a]) av else av,
        if cooling_now model now a then c + 1 else c,
        if cooling_now model now a then earlier e (retry_at model now a) else e)"
  if "0 \<le> now"
  using isAuthBlocked_ok[OF that, of a model]
  by (cases "isAuthBlockedForModel (Some a) model now")
     (auto simp: free_now_def cooling_now_def retry_at_def earlier_def verdict_ok_def Let_def)

lemma collectAvailableLoop_spec:
  assumes "0 \<le> now" "\<forall>p. has_key av p \<longleftrightarrow> map_get [] av p \<noteq> []" "wf_map av"
  shows "case collectAvailableLoop model now auths (av, c, e) of (av', c', e') \<Rightarrow>
    wf_map av' \<and> (\<forall>p. has_key av' p \<longleftrightarrow> map_get [] av' p \<noteq> []) \<and>
    (\<forall>p. map_get [] av' p = map_get [] av p @ filter (\<lambda>a. free_now model now a \<and> prio a = p) auths) \<and>
    c' = c + length (filter (cooling_now model now) auths) \<and>
    e' = foldl earlier e (map (retry_at model now) (filter (cooling_now model now) auths))"
  using assms(2,3)
proof (induction auths arbitrary: av c e)
  case (Cons a as)
  let ?av = "if free_now model now a then AList.update (prio a) (map_get [] av (prio a) @ [a]) av else av"
  have ok: "\<forall>p. has_key ?av p \<longleftrightarrow> map_get [] ?av p \<noteq> []"
    using Cons.prems(1) by (auto simp: has_key_def map_of_update)
  have wf: "wf_map ?av" using Cons.prems(2) by (simp add: wf_map_update)
  show ?case
    using Cons.IH[OF ok wf, of "if cooling_now model now a then c + 1 else c"
        "if cooling_now model now a then earlier e (retry_at model now a) else e"]
    unfolding collectAvailableLoop_step[OF assms(1)] by (auto split: prod.splits)
qed simp

lemma foldl_best_priority:
  "foldl (\<lambda>(best, found) p. if \<not> found \<or> p > best then (p, True) else (best, found)) (b, f) ps =
     (if f then (Max (insert b (set ps)), True) else if ps = [] then (b, False) else (Max (set ps), True))"
  for b :: int
proof (induction ps arbitrary: b f)
  case (Cons p ps)
  have "foldl (\<lambda>(best, found) p. if \<not> found \<or> p > best then (p, True) else (best, found)) (b, f) (p # ps) =
      (Max (insert (if f then max b p else p) (set ps)), True)"
    using Cons.IH[of p True] Cons.IH[of b True] by (auto simp: max_def)
  also have "\<dots> = (if f then (Max (insert b (insert p (set ps))), True) else (Max (insert p (set ps)), True))"
    by (cases "ps = []") (auto simp: max.assoc)
  finally show ?case by simp
qed simp

lemma sort_short: "\<not> 1 < length xs \<Longrightarrow> sort_key f xs = xs"
  by (cases xs; cases "tl xs") auto

lemma highest_bucket:
  assumes "wf_map av" "av \<noteq> []"
  shows "availableAuthsFromPriorityBuckets av False = sort_key auth_ID (map_get [] av (Max (set (map fst av))))"
  using foldl_best_priority[of 0 False "map fst av"] assms(2)
  by (simp add: availableAuthsFromPriorityBuckets_def sort_short Let_def)

lemma foldl_earlier:
  "\<forall>t \<in> set ts. 0 < t \<Longrightarrow> 0 \<le> e \<Longrightarrow>
   foldl earlier e ts = (if ts = [] then e else if e = 0 then Min (set ts) else Min (insert e (set ts)))"
proof (induction ts arbitrary: e)
  case (Cons t ts)
  have t: "0 < t" and e': "0 \<le> earlier e t" "earlier e t \<noteq> 0"
    using Cons.prems by (auto simp: earlier_def)
  have "foldl earlier e (t # ts) = Min (insert (earlier e t) (set ts))"
    using Cons.IH[of "earlier e t"] Cons.prems(1) e' by simp
  also have "\<dots> = (if e = 0 then Min (insert t (set ts)) else Min (insert e (insert t (set ts))))"
    using Cons.prems t by (cases "ts = []") (auto simp: earlier_def min_def)
  finally show ?case by simp
qed simp

lemma cooling_now_retry: "0 \<le> now \<Longrightarrow> cooling_now model now a \<Longrightarrow> now < retry_at model now a"
  using isAuthBlocked_ok[of now a model]
  by (auto simp: cooling_now_def retry_at_def verdict_ok_def split: prod.splits)

lemma getAvailableAuths_eq:
  assumes "0 \<le> now"
  shows "getAvailableAuths auths provider model now =
    (let free = filter (free_now model now) auths
     in if auths = [] then Inl (PickError ''auth_not_found'' None)
        else if free \<noteq> []
        then Inr (sort_key auth_ID (filter (\<lambda>a. authPriority (Some a) = Max ((\<lambda>a. authPriority (Some a)) ` set free)) free))
        else if list_all (cooling_now model now) auths
        then Inl (CooldownError model (if provider = ''mixed'' then [] else provider)
                    (time_Sub (Min (retry_at model now ` set auths)) now) None)
        else Inl (PickError ''auth_unavailable'' None))"
proof -
  obtain av c e where col: "collectAvailableByPriority auths model now = (av, c, e)"
    by (cases "collectAvailableByPriority auths model now")
  have "wf_map av \<and> (\<forall>p. has_key av p \<longleftrightarrow> map_get [] av p \<noteq> []) \<and>
      (\<forall>p. map_get [] av p = filter (\<lambda>a. free_now model now a \<and> prio a = p) auths) \<and>
      c = length (filter (cooling_now model now) auths) \<and>
      e = foldl earlier 0 (map (retry_at model now) (filter (cooling_now model now) auths))"
    using collectAvailableLoop_spec[OF assms, of "[]" model auths 0 0] col
    by (simp add: collectAvailableByPriority_def)
  then have wf: "wf_map av" and keys: "\<And>p. has_key av p \<longleftrightarrow> map_get [] av p \<noteq> []"
    and bucket: "\<And>p. map_get [] av p = filter (\<lambda>a. free_now model now a \<and> prio a = p) auths"
    and c: "c = length (filter (cooling_now model now) auths)"
    and e: "e = foldl earlier 0 (map (retry_at model now) (filter (cooling_now model now) auths))"
    by blast+
  let ?free = "filter (free_now model now) auths"
  have "p \<in> set (map fst av) \<longleftrightarrow> p \<in> prio ` set ?free" for p
    using keys[of p] bucket[of p]
    by (auto simp: has_key_iff filter_empty_conv image_iff)
  then have dom: "set (map fst av) = prio ` set ?free" by blast
  then have nil: "av = [] \<longleftrightarrow> ?free = []" by (metis image_is_empty list.set(1) map_is_Nil_conv set_empty)
  have cool: "c = length auths \<longleftrightarrow> list_all (cooling_now model now) auths"
    unfolding c by (metis filter_id_conv length_filter_less list_all_iff nat_neq_iff)
  have times: "\<forall>t \<in> set (map (retry_at model now) (filter (cooling_now model now) auths)). now < t"
    using cooling_now_retry[OF assms] by auto
  have e': "e = Min (retry_at model now ` set auths) \<and> now < e"
    if "auths \<noteq> []" "list_all (cooling_now model now) auths"
  proof -
    have "filter (cooling_now model now) auths = auths"
      using that(2) by (simp add: filter_id_conv list_all_iff)
    moreover from this times have gt: "\<forall>t \<in> retry_at model now ` set auths. now < t" by auto
    then have "\<forall>t \<in> retry_at model now ` set auths. 0 < t" using assms by fastforce
    ultimately have "e = Min (retry_at model now ` set auths)"
      using foldl_earlier[of "map (retry_at model now) auths" 0] that(1) unfolding e by simp
    note this gt
    then show ?thesis using that(1) by simp
  qed
  have pos: "now < t \<Longrightarrow> \<not> time_Sub t now < 0" for t
    by (simp add: time_Sub_def MaxInt64_def MinInt64_def)
  have high: "availableAuthsFromPriorityBuckets av False =
      sort_key auth_ID (filter (\<lambda>a. prio a = Max (prio ` set ?free)) ?free)" if "?free \<noteq> []"
    using highest_bucket[OF wf] nil that dom bucket by (simp add: conj_commute)
  show ?thesis
  proof (cases "auths = [] \<or> ?free \<noteq> []")
    case True
    then show ?thesis
      using col high nil
      by (auto simp: getAvailableAuths_def getAvailableAuthsWithPriorityMode_def Let_def)
  next
    case False
    then have av: "av = []" and ne: "auths \<noteq> []" using nil by auto
    show ?thesis
    proof (cases "list_all (cooling_now model now) auths")
      case True
      have et: "e = Min (retry_at model now ` set auths)" "now < e" using e'[OF ne True] by simp_all
      have "\<not> time_Sub e now < 0" "e \<noteq> 0" using pos[OF et(2)] et(2) assms by auto
      then show ?thesis
        using True False col av cool et(1)
        by (simp add: getAvailableAuths_def getAvailableAuthsWithPriorityMode_def Let_def
            newModelCooldownErrorWithCause_def)
    next
      case False
      then show ?thesis
        using \<open>\<not> (auths = [] \<or> ?free \<noteq> [])\<close> col av cool
        by (simp add: getAvailableAuths_def getAvailableAuthsWithPriorityMode_def Let_def)
    qed
  qed
qed

text \<open>C38. What a selector chooses from: among the candidates, exactly those that are not blocked and
  have the highest priority of these, ordered by ID. With no candidate at all the error is
  \<open>auth_not_found\<close>; when every candidate is cooling down it is a cooldown error whose reset time is
  the earliest retry time; otherwise it is \<open>auth_unavailable\<close>.\<close>

theorem getAvailableAuths_spec:
  assumes "0 \<le> now"
  shows "getAvailableAuths auths provider model now =
    (let free = filter (free_now model now) auths
     in if auths = [] then Inl (PickError ''auth_not_found'' None)
        else if free \<noteq> []
        then Inr (sort_key auth_ID (filter (\<lambda>a. authPriority (Some a) = Max ((\<lambda>a. authPriority (Some a)) ` set free)) free))
        else if list_all (cooling_now model now) auths
        then Inl (CooldownError model (if provider = ''mixed'' then [] else provider)
                    (time_Sub (Min (retry_at model now ` set auths)) now) None)
        else Inl (PickError ''auth_unavailable'' None))"
  by (rule getAvailableAuths_eq[OF assms])

theorem getAvailableAuths_spec_witness:
  "getAvailableAuths [sample_auth ''b'' ''claude'', cooling_auth, sample_auth ''a'' ''claude''] ''claude'' ''m'' 10 =
    (let free = filter (free_now ''m'' 10) [sample_auth ''b'' ''claude'', cooling_auth, sample_auth ''a'' ''claude'']
     in if [sample_auth ''b'' ''claude'', cooling_auth, sample_auth ''a'' ''claude''] = []
        then Inl (PickError ''auth_not_found'' None)
        else if free \<noteq> []
        then Inr (sort_key auth_ID (filter (\<lambda>a. authPriority (Some a) = Max ((\<lambda>a. authPriority (Some a)) ` set free)) free))
        else if list_all (cooling_now ''m'' 10) [sample_auth ''b'' ''claude'', cooling_auth, sample_auth ''a'' ''claude'']
        then Inl (CooldownError ''m'' (if ''claude'' = ''mixed'' then [] else ''claude'')
                    (time_Sub (Min (retry_at ''m'' 10 ` set [sample_auth ''b'' ''claude'', cooling_auth,
                       sample_auth ''a'' ''claude''])) 10) None)
        else Inl (PickError ''auth_unavailable'' None))"
  by (rule getAvailableAuths_spec) simp

end
