(* ===== verification/SmoothWeighted.thy ===== *)
theory SmoothWeighted
  imports Availability
begin

text \<open>
  Smooth weighted round-robin, shared by \<open>WeightedRoundRobinSelector\<close> (\<open>selector.go\<close>) and by the
  scheduler (\<open>scheduler.go\<close>): the credits of a candidate set, their synchronisation with the
  configured weights, and the pick. The pick is written once over candidates of any type with an
  ID and a weight; \<open>pickSmoothWeightedAuth\<close> is its instance on credentials here, and
  \<open>pickSmoothWeightedScheduled\<close> its instance on shard entries in theory Scheduler.

  A \<open>nil\<close> map reads and grows like an empty one, so \<open>nil\<close> maps are \<open>[]\<close>.
\<close>

section \<open>Definitions\<close>

record smoothWeightedState =
  sw_current :: "(string, int) go_map"
  sw_weights :: "(string, int) go_map"

definition emptyWeightedState :: smoothWeightedState where
  "emptyWeightedState = \<lparr>sw_current = [], sw_weights = []\<rparr>"

definition maxSmoothWeightedStateEntries :: nat where
  "maxSmoothWeightedStateEntries = 1024"

definition saturatingAddInt64 :: "int \<Rightarrow> int \<Rightarrow> int" where
  "saturatingAddInt64 value delta =
     (if delta > 0 \<and> value > MaxInt64 - delta then MaxInt64
      else if delta < 0 \<and> value < MinInt64 - delta then MinInt64
      else int64 (value + delta))"

definition weightsConfigChanged :: "(string, int) go_map \<Rightarrow> (string, int) go_map \<Rightarrow> bool" where
  "weightsConfigChanged left right =
     (if left = [] then False
      else list_ex (\<lambda>(authID, weight).
             case map_of left authID of None \<Rightarrow> False | Some previous \<Rightarrow> previous \<noteq> weight) right)"

definition pruneStale :: "(string, int) go_map \<Rightarrow> smoothWeightedState \<Rightarrow> smoothWeightedState" where
  "pruneStale weights s =
     (if length (sw_current s) \<le> maxSmoothWeightedStateEntries \<and>
         length (sw_weights s) \<le> maxSmoothWeightedStateEntries then s
      else s\<lparr>sw_current := filter (\<lambda>(authID, _). has_key weights authID) (sw_current s),
             sw_weights := filter (\<lambda>(authID, _). has_key weights authID) (sw_weights s)\<rparr>)"

definition prepare :: "(string, int) go_map \<Rightarrow> smoothWeightedState \<Rightarrow> smoothWeightedState" where
  "prepare weights s =
     (let s1 = (if weightsConfigChanged (sw_weights s) weights then s\<lparr>sw_current := []\<rparr> else s);
          s2 = s1\<lparr>sw_weights := foldl (\<lambda>m (authID, weight). AList.update authID weight m) (sw_weights s1) weights\<rparr>
      in pruneStale weights s2)"

definition weightVector :: "('a \<Rightarrow> string) \<Rightarrow> ('a \<Rightarrow> int) \<Rightarrow> 'a list \<Rightarrow> (string, int) go_map" where
  "weightVector ident weight xs =
     foldl (\<lambda>m x. if weight x > 0 then AList.update (ident x) (weight x) m else m) [] xs"

fun smoothLoop ::
  "('a \<Rightarrow> string) \<Rightarrow> ('a \<Rightarrow> int) \<Rightarrow> 'a list \<Rightarrow> (string, int) go_map \<times> 'a option \<times> int \<times> int
    \<Rightarrow> (string, int) go_map \<times> 'a option \<times> int \<times> int" where
  "smoothLoop ident weight [] acc = acc"
| "smoothLoop ident weight (x # xs) (current, picked, pickedCurrent, totalWeight) =
     (if weight x \<le> 0 then smoothLoop ident weight xs (current, picked, pickedCurrent, totalWeight)
      else let credit = saturatingAddInt64 (map_get 0 current (ident x)) (weight x);
               current' = AList.update (ident x) credit current;
               totalWeight' = saturatingAddInt64 totalWeight (weight x)
           in if picked = None \<or> credit > pickedCurrent
              then smoothLoop ident weight xs (current', Some x, credit, totalWeight')
              else smoothLoop ident weight xs (current', picked, pickedCurrent, totalWeight'))"

definition pickSmooth ::
  "('a \<Rightarrow> string) \<Rightarrow> ('a \<Rightarrow> int) \<Rightarrow> 'a list \<Rightarrow> (string, int) go_map \<Rightarrow> 'a option \<times> (string, int) go_map" where
  "pickSmooth ident weight xs current =
     (case smoothLoop ident weight xs (current, None, 0, 0) of
        (current', None, _, _) \<Rightarrow> (None, current')
      | (current', Some p, _, totalWeight) \<Rightarrow>
          (Some p, AList.update (ident p)
                     (saturatingAddInt64 (map_get 0 current' (ident p)) (- totalWeight)) current'))"

text \<open>One selection: \<open>state.prepare(weights)\<close> and then the pick on \<open>state.current\<close>.\<close>

definition smoothSelect ::
  "('a \<Rightarrow> string) \<Rightarrow> ('a \<Rightarrow> int) \<Rightarrow> 'a list \<Rightarrow> smoothWeightedState \<Rightarrow> 'a option \<times> smoothWeightedState" where
  "smoothSelect ident weight xs s =
     (let s' = prepare (weightVector ident weight xs) s;
          (picked, current') = pickSmooth ident weight xs (sw_current s')
      in (picked, s'\<lparr>sw_current := current'\<rparr>))"

fun smoothRun ::
  "('a \<Rightarrow> string) \<Rightarrow> ('a \<Rightarrow> int) \<Rightarrow> 'a list \<Rightarrow> nat \<Rightarrow> smoothWeightedState \<Rightarrow> 'a option list \<times> smoothWeightedState" where
  "smoothRun ident weight xs 0 s = ([], s)"
| "smoothRun ident weight xs (Suc n) s =
     (let (picked, s') = smoothSelect ident weight xs s; (picks, s'') = smoothRun ident weight xs n s'
      in (picked # picks, s''))"

definition authWeightVector :: "auth list \<Rightarrow> (string, int) go_map" where
  "authWeightVector auths = weightVector auth_ID (\<lambda>a. authWeight (Some a)) auths"

definition pickSmoothWeightedAuth ::
  "auth list \<Rightarrow> (string, int) go_map \<Rightarrow> auth option \<times> (string, int) go_map" where
  "pickSmoothWeightedAuth auths current = pickSmooth auth_ID (\<lambda>a. authWeight (Some a)) auths current"

section \<open>Saturating addition\<close>

text \<open>The saturating addition of the credits is exact addition clamped to the range of \<open>int64\<close>:
  it never wraps around.\<close>

theorem saturatingAddInt64_clamps:
  assumes "in_int64 a" and "in_int64 b"
  shows "saturatingAddInt64 a b = max MinInt64 (min MaxInt64 (a + b))"
proof -
  have i: "in_int64 (a + b) \<Longrightarrow> int64 (a + b) = a + b" by simp
  show ?thesis
    using assms i unfolding saturatingAddInt64_def in_int64_def
    by (auto simp: MaxInt64_def MinInt64_def)
qed

theorem saturatingAddInt64_clamps_witness:
  "saturatingAddInt64 MaxInt64 5 = max MinInt64 (min MaxInt64 (MaxInt64 + 5))"
  by (rule saturatingAddInt64_clamps) (simp_all add: in_int64_def MaxInt64_def MinInt64_def)

lemma saturating_exact: "in_int64 (a + b) \<Longrightarrow> saturatingAddInt64 a b = a + b"
  unfolding saturatingAddInt64_def in_int64_def by (auto simp: in_int64_def)

section \<open>One pass\<close>

lemma sum_absent: "k \<notin> ident ` set xs \<Longrightarrow> (\<Sum>x \<leftarrow> xs. if ident x = k then f x else 0) = (0::int)"
  by (induction xs) auto

lemma smoothLoop_spec:
  assumes "distinct (map ident xs)" "\<forall>x \<in> set xs. 0 < weight x"
    and "\<forall>x \<in> set xs. in_int64 (map_get 0 cur (ident x) + weight x)"
    and "0 \<le> tot" "tot + (\<Sum>x \<leftarrow> xs. weight x) \<le> MaxInt64"
    and "smoothLoop ident weight xs (cur, pk, pc, tot) = (cur', pk', pc', tot')"
  shows "(\<forall>k. map_get 0 cur' k = map_get 0 cur k + (\<Sum>x \<leftarrow> xs. if ident x = k then weight x else 0)) \<and>
    tot' = tot + (\<Sum>x \<leftarrow> xs. weight x) \<and>
    (pk' = pk \<and> pc' = pc \<and> (pk = None \<longrightarrow> xs = []) \<or>
     (\<exists>x \<in> set xs. pk' = Some x \<and> pc' = map_get 0 cur (ident x) + weight x \<and> (pk \<noteq> None \<longrightarrow> pc < pc'))) \<and>
    (\<forall>x \<in> set xs. map_get 0 cur (ident x) + weight x \<le> pc')"
  using assms
proof (induction xs arbitrary: cur pk pc tot)
  case (Cons x xs)
  let ?c = "map_get 0 cur (ident x) + weight x"
  let ?cur = "AList.update (ident x) ?c cur"
  have w: "0 < weight x" and sum: "0 \<le> (\<Sum>x \<leftarrow> xs. weight x)"
    using Cons.prems(2) by (auto intro!: sum_list_nonneg simp: order_less_imp_le)
  have sc: "saturatingAddInt64 (map_get 0 cur (ident x)) (weight x) = ?c"
    using Cons.prems(3) by (simp add: saturating_exact)
  have "in_int64 (tot + weight x)"
    using Cons.prems(4,5) w sum by (simp add: in_int64_def MinInt64_def)
  then have st: "saturatingAddInt64 tot (weight x) = tot + weight x" by (rule saturating_exact)
  have d: "ident x \<notin> ident ` set xs" "distinct (map ident xs)" using Cons.prems(1) by auto
  have same: "map_get 0 ?cur (ident y) = map_get 0 cur (ident y)" if "y \<in> set xs" for y
  proof -
    have "ident y \<noteq> ident x" using d(1) that by (metis imageI)
    then show ?thesis by simp
  qed
  have step: "smoothLoop ident weight xs
      (?cur, if pk = None \<or> pc < ?c then Some x else pk, if pk = None \<or> pc < ?c then ?c else pc, tot + weight x)
      = (cur', pk', pc', tot')"
    using Cons.prems(6) w sc st by (auto simp: Let_def split: if_splits)
  have IH: "(\<forall>k. map_get 0 cur' k = map_get 0 ?cur k + (\<Sum>x \<leftarrow> xs. if ident x = k then weight x else 0)) \<and>
    tot' = tot + weight x + (\<Sum>x \<leftarrow> xs. weight x) \<and>
    (pk' = (if pk = None \<or> pc < ?c then Some x else pk) \<and> pc' = (if pk = None \<or> pc < ?c then ?c else pc) \<or>
     (\<exists>y \<in> set xs. pk' = Some y \<and> pc' = map_get 0 ?cur (ident y) + weight y \<and>
        (if pk = None \<or> pc < ?c then ?c else pc) < pc')) \<and>
    (\<forall>y \<in> set xs. map_get 0 ?cur (ident y) + weight y \<le> pc')"
  proof -
    have p: "\<forall>x \<in> set xs. 0 < weight x" "0 \<le> tot + weight x"
      "tot + weight x + (\<Sum>x \<leftarrow> xs. weight x) \<le> MaxInt64"
      using Cons.prems(2,4,5) w by simp_all
    have q: "\<forall>y \<in> set xs. in_int64 (map_get 0 ?cur (ident y) + weight y)"
      using Cons.prems(3) same by simp
    have "(if pk = None \<or> pc < ?c then Some x else pk) \<noteq> None" by simp
    then show ?thesis using Cons.IH[OF d(2) p(1) q p(2,3) step] by blast
  qed
  have none: "(\<Sum>y \<leftarrow> xs. if ident y = ident x then weight y else 0) = 0"
    by (rule sum_absent[OF d(1)])
  have a: "map_get 0 cur' k = map_get 0 cur k + (\<Sum>x \<leftarrow> x # xs. if ident x = k then weight x else 0)" for k
    using IH none by auto
  have b: "tot' = tot + (\<Sum>x \<leftarrow> x # xs. weight x)" using IH by simp
  have c: "\<forall>y \<in> set (x # xs). map_get 0 cur (ident y) + weight y \<le> pc'"
    using IH same by (auto split: if_splits)
  have e: "pk' = pk \<and> pc' = pc \<and> (pk = None \<longrightarrow> x # xs = []) \<or>
     (\<exists>y \<in> set (x # xs). pk' = Some y \<and> pc' = map_get 0 cur (ident y) + weight y \<and> (pk \<noteq> None \<longrightarrow> pc < pc'))"
  proof -
    consider (keep) "pk' = (if pk = None \<or> pc < ?c then Some x else pk)" "pc' = (if pk = None \<or> pc < ?c then ?c else pc)"
      | (new) y where "y \<in> set xs" "pk' = Some y" "pc' = map_get 0 cur (ident y) + weight y"
          "(if pk = None \<or> pc < ?c then ?c else pc) < pc'"
      using IH same by fastforce
    then show ?thesis
    proof cases
      case keep
      then show ?thesis by (cases "pk = None \<or> pc < ?c") auto
    next
      case new
      then have "pk \<noteq> None \<longrightarrow> pc < pc'" by (auto split: if_splits)
      with new show ?thesis by auto
    qed
  qed
  from a b c e show ?case by blast
qed simp

text \<open>A pass picks a candidate of positive weight, whenever there is one.\<close>

lemma smoothLoop_picks:
  assumes "smoothLoop ident weight xs (cur, pk, pc, tot) = (cur', pk', pc', tot')"
  shows "(pk' = pk \<or> (\<exists>x \<in> set xs. 0 < weight x \<and> pk' = Some x)) \<and>
    (pk' = None \<longrightarrow> pk = None \<and> (\<forall>x \<in> set xs. weight x \<le> 0))"
  using assms
proof (induction xs arbitrary: cur pk pc tot)
  case (Cons x xs)
  show ?case
  proof (cases "weight x \<le> 0")
    case True
    with Cons.IH[of cur pk pc tot] Cons.prems show ?thesis by auto
  next
    case False
    obtain cur1 pk1 pc1 tot1 where s: "smoothLoop ident weight xs (cur1, pk1, pc1, tot1) = (cur', pk', pc', tot')"
      and "pk1 = Some x \<or> pk1 = pk \<and> pk \<noteq> None"
      using Cons.prems False by (auto simp: Let_def split: if_splits)
    with Cons.IH[OF s] False show ?thesis by auto
  qed
qed simp

section \<open>Balanced credits\<close>

text \<open>
  With \<open>W\<close> the sum of the weights, the credits of the candidates are balanced when they add up to
  zero and each is above \<open>- W\<close>. A pick keeps them balanced, and \<open>W\<close> picks move each credit by
  \<open>W\<close> times the difference between the weight and the number of times the candidate was picked.
\<close>

definition total_weight :: "('a \<Rightarrow> int) \<Rightarrow> 'a list \<Rightarrow> int" where
  "total_weight weight xs = (\<Sum>x \<leftarrow> xs. weight x)"

definition balanced :: "('a \<Rightarrow> string) \<Rightarrow> ('a \<Rightarrow> int) \<Rightarrow> 'a list \<Rightarrow> (string, int) go_map \<Rightarrow> bool" where
  "balanced ident weight xs cur \<longleftrightarrow>
     (\<Sum>x \<leftarrow> xs. map_get 0 cur (ident x)) = 0 \<and>
     (\<forall>x \<in> set xs. - total_weight weight xs < map_get 0 cur (ident x))"

definition candidates_ok :: "('a \<Rightarrow> string) \<Rightarrow> ('a \<Rightarrow> int) \<Rightarrow> 'a list \<Rightarrow> bool" where
  "candidates_ok ident weight xs \<longleftrightarrow>
     distinct (map ident xs) \<and> (\<forall>x \<in> set xs. 0 < weight x) \<and>
     (int (length xs) + 1) * total_weight weight xs \<le> MaxInt64"

lemma sum_list_ge_member:
  "x \<in> set xs \<Longrightarrow> \<forall>y \<in> set xs. (lo::int) \<le> f y \<Longrightarrow> f x + (int (length xs) - 1) * lo \<le> (\<Sum>y \<leftarrow> xs. f y)"
proof (induction xs)
  case (Cons y ys)
  have all: "int (length ys) * lo \<le> (\<Sum>y \<leftarrow> ys. f y)"
    using Cons.prems(2) sum_list_mono[of ys "\<lambda>_. lo" f] by (simp add: sum_list_triv)
  show ?case
  proof (cases "x = y")
    case True
    with all show ?thesis by (simp add: algebra_simps)
  next
    case False
    with Cons have "f x + (int (length ys) - 1) * lo \<le> (\<Sum>y \<leftarrow> ys. f y)" "lo \<le> f y" by auto
    then show ?thesis by (simp add: algebra_simps)
  qed
qed simp

lemma balanced_upper:
  assumes "balanced ident weight xs cur" "x \<in> set xs"
  shows "map_get 0 cur (ident x) \<le> (int (length xs) - 1) * total_weight weight xs"
proof -
  have "map_get 0 cur (ident x) + (int (length xs) - 1) * - total_weight weight xs \<le> 0"
    using sum_list_ge_member[OF assms(2), of "- total_weight weight xs" "\<lambda>x. map_get 0 cur (ident x)"] assms(1)
    by (auto simp: balanced_def order_less_imp_le)
  then show ?thesis by simp
qed

lemma sum_indicator:
  "distinct (map ident xs) \<Longrightarrow> y \<in> set xs \<Longrightarrow> (\<Sum>x \<leftarrow> xs. if ident x = ident y then f x else 0) = (f y :: int)"
proof (induction xs)
  case (Cons z zs)
  show ?case
  proof (cases "y = z")
    case True
    have "(\<Sum>x \<leftarrow> zs. if ident x = ident z then f x else 0) = 0"
      using Cons.prems(1) by (intro sum_absent) simp
    with True show ?thesis by simp
  next
    case False
    then have "ident z \<noteq> ident y" using Cons.prems by (auto simp: image_iff)
    with False Cons show ?thesis by auto
  qed
qed simp

lemma weight_le_total:
  "candidates_ok ident weight xs \<Longrightarrow> x \<in> set xs \<Longrightarrow> weight x \<le> total_weight weight xs"
  using sum_list_ge_member[of x xs 0 weight] by (auto simp: candidates_ok_def total_weight_def order_less_imp_le)

lemma total_pos: "candidates_ok ident weight xs \<Longrightarrow> xs \<noteq> [] \<Longrightarrow> 0 < total_weight weight xs"
  using weight_le_total[of ident weight xs "hd xs"] unfolding candidates_ok_def
  by (meson hd_in_set order_less_le_trans)

lemma balanced_in_range:
  assumes "candidates_ok ident weight xs" "balanced ident weight xs cur" "x \<in> set xs"
  shows "in_int64 (map_get 0 cur (ident x) + weight x)"
proof -
  let ?W = "total_weight weight xs"
  have ne: "xs \<noteq> []" using assms(3) by auto
  have W: "0 < ?W" using total_pos[OF assms(1) ne] .
  have up: "map_get 0 cur (ident x) + weight x \<le> (int (length xs) - 1) * ?W + ?W"
    using balanced_upper[OF assms(2,3)] weight_le_total[OF assms(1,3)] by simp
  also have "\<dots> \<le> (int (length xs) + 1) * ?W" using W by (simp add: algebra_simps)
  also have "\<dots> \<le> MaxInt64" using assms(1) by (simp add: candidates_ok_def)
  finally have "map_get 0 cur (ident x) + weight x \<le> MaxInt64" .
  moreover have "1 * ?W \<le> (int (length xs) + 1) * ?W" using W by (intro mult_right_mono) auto
  then have "?W \<le> MaxInt64" using assms(1) by (simp add: candidates_ok_def)
  then have "MinInt64 \<le> map_get 0 cur (ident x) + weight x"
    using assms unfolding balanced_def candidates_ok_def MaxInt64_def MinInt64_def by fastforce
  ultimately show ?thesis by (simp add: in_int64_def)
qed

lemma total_le_MaxInt64:
  assumes "candidates_ok ident weight xs" "xs \<noteq> []" shows "total_weight weight xs \<le> MaxInt64"
proof -
  have "1 * total_weight weight xs \<le> (int (length xs) + 1) * total_weight weight xs"
    using total_pos[OF assms] by (intro mult_right_mono) auto
  with assms(1) show ?thesis by (simp add: candidates_ok_def)
qed

text \<open>One pick from balanced credits.\<close>

lemma pickSmooth_spec:
  assumes ok: "candidates_ok ident weight xs" and ne: "xs \<noteq> []" and bal: "balanced ident weight xs cur"
  shows "\<exists>p cur'. pickSmooth ident weight xs cur = (Some p, cur') \<and> p \<in> set xs \<and>
    (\<forall>x \<in> set xs. map_get 0 cur (ident x) + weight x \<le> map_get 0 cur (ident p) + weight p) \<and>
    (\<forall>x \<in> set xs. map_get 0 cur' (ident x) =
       map_get 0 cur (ident x) + weight x - (if x = p then total_weight weight xs else 0)) \<and>
    (\<forall>k. k \<notin> ident ` set xs \<longrightarrow> map_get 0 cur' k = map_get 0 cur k) \<and>
    balanced ident weight xs cur'"
proof -
  let ?W = "total_weight weight xs"
  obtain cur1 pk pc tot where loop: "smoothLoop ident weight xs (cur, None, 0, 0) = (cur1, pk, pc, tot)"
    by (metis prod_cases4)
  have dist: "distinct (map ident xs)" and pos: "\<forall>x \<in> set xs. 0 < weight x"
    using ok by (auto simp: candidates_ok_def)
  have WM: "?W \<le> MaxInt64" by (rule total_le_MaxInt64[OF ok ne])
  have spec: "(\<forall>k. map_get 0 cur1 k = map_get 0 cur k + (\<Sum>x \<leftarrow> xs. if ident x = k then weight x else 0)) \<and>
    tot = ?W \<and> (\<exists>p \<in> set xs. pk = Some p \<and> pc = map_get 0 cur (ident p) + weight p) \<and>
    (\<forall>x \<in> set xs. map_get 0 cur (ident x) + weight x \<le> pc)"
    using smoothLoop_spec[OF dist pos _ _ _ loop] balanced_in_range[OF ok bal] WM ne
    by (fastforce simp: total_weight_def)
  then obtain p where p: "p \<in> set xs" "pk = Some p" "pc = map_get 0 cur (ident p) + weight p" by blast
  have max: "\<forall>x \<in> set xs. map_get 0 cur (ident x) + weight x \<le> map_get 0 cur (ident p) + weight p"
    using spec p(3) by simp
  have cr1: "map_get 0 cur1 (ident x) = map_get 0 cur (ident x) + weight x" if "x \<in> set xs" for x
    using spec sum_indicator[OF dist that] by simp
  have sumW: "(\<Sum>x \<leftarrow> xs. map_get 0 cur (ident x) + weight x) = ?W"
    using bal by (simp add: sum_list_addf balanced_def total_weight_def)
  have ppos: "0 < map_get 0 cur (ident p) + weight p"
  proof (rule ccontr)
    assume "\<not> ?thesis"
    then have "(\<Sum>x \<leftarrow> xs. map_get 0 cur (ident x) + weight x) \<le> (\<Sum>x \<leftarrow> xs. 0)"
      using max by (intro sum_list_mono) fastforce
    then show False using sumW total_pos[OF ok ne] by simp
  qed
  have W: "0 < ?W" by (rule total_pos[OF ok ne])
  have "in_int64 (map_get 0 cur1 (ident p) + - ?W)"
    using balanced_in_range[OF ok bal p(1)] ppos WM W cr1[OF p(1)]
    by (auto simp: in_int64_def MinInt64_def MaxInt64_def)
  then have sub: "saturatingAddInt64 (map_get 0 cur1 (ident p)) (- ?W) = map_get 0 cur1 (ident p) - ?W"
    using saturating_exact by fastforce
  let ?cur' = "AList.update (ident p) (map_get 0 cur1 (ident p) - ?W) cur1"
  have res: "pickSmooth ident weight xs cur = (Some p, ?cur')"
    using loop p(2) spec sub by (simp add: pickSmooth_def)
  have inj: "x \<in> set xs \<Longrightarrow> ident x = ident p \<longleftrightarrow> x = p" for x
    using dist p(1) by (metis distinct_map inj_onD)
  have cr': "map_get 0 ?cur' (ident x) = map_get 0 cur (ident x) + weight x - (if x = p then ?W else 0)"
    if "x \<in> set xs" for x
    using cr1[OF that] inj[OF that] by auto
  have other: "map_get 0 ?cur' k = map_get 0 cur k" if "k \<notin> ident ` set xs" for k
  proof -
    have "(\<Sum>x \<leftarrow> xs. if ident x = k then weight x else 0) = 0"
      by (rule sum_absent[OF that])
    then show ?thesis using that p(1) spec by auto
  qed
  have "(\<Sum>x \<leftarrow> xs. if x = p then ?W else 0) = ?W"
    using sum_indicator[OF dist p(1), of "\<lambda>_. ?W"] inj by (simp cong: map_cong)
  then have "(\<Sum>x \<leftarrow> xs. map_get 0 ?cur' (ident x)) = 0"
    using cr' sumW by (simp add: sum_list_subtractf cong: map_cong)
  moreover have "- ?W < map_get 0 ?cur' (ident x)" if "x \<in> set xs" for x
    using cr'[OF that] ppos bal pos that by (fastforce simp: balanced_def)
  ultimately have "balanced ident weight xs ?cur'" by (simp add: balanced_def)
  with res p(1) max cr' other show ?thesis by blast
qed

section \<open>Synchronising the weights\<close>

lemma map_of_weightVector_fold:
  "map_of (foldl (\<lambda>m x. if weight x > 0 then AList.update (ident x) (weight x) m else m) m xs) k =
     (case find (\<lambda>x. 0 < weight x \<and> ident x = k) (rev xs) of None \<Rightarrow> map_of m k | Some x \<Rightarrow> Some (weight x))"
  by (induction xs rule: rev_induct) (auto simp: map_of_update)

lemma map_of_weightVector:
  assumes "candidates_ok ident weight xs"
  shows "x \<in> set xs \<Longrightarrow> map_of (weightVector ident weight xs) (ident x) = Some (weight x)"
    and "map_of (weightVector ident weight xs) k = Some v \<Longrightarrow> \<exists>x \<in> set xs. ident x = k \<and> v = weight x"
proof -
  have inj: "x \<in> set xs \<Longrightarrow> y \<in> set xs \<Longrightarrow> ident x = ident y \<Longrightarrow> x = y" for x y
    using assms by (auto simp: candidates_ok_def distinct_map inj_on_def)
  show "map_of (weightVector ident weight xs) (ident x) = Some (weight x)" if "x \<in> set xs"
  proof (cases "find (\<lambda>y. 0 < weight y \<and> ident y = ident x) (rev xs)")
    case None
    then show ?thesis using that assms by (auto simp: find_None_iff candidates_ok_def)
  next
    case (Some y)
    then have "y \<in> set xs" "ident y = ident x" by (auto simp: find_Some_iff) (metis nth_mem set_rev length_rev)
    with inj that Some show ?thesis by (auto simp: weightVector_def map_of_weightVector_fold)
  qed
  show "\<exists>x \<in> set xs. ident x = k \<and> v = weight x" if "map_of (weightVector ident weight xs) k = Some v"
  proof (cases "find (\<lambda>y. 0 < weight y \<and> ident y = k) (rev xs)")
    case None
    then show ?thesis using that by (simp add: weightVector_def map_of_weightVector_fold)
  next
    case (Some y)
    then have "y \<in> set xs" "ident y = k" by (auto simp: find_Some_iff) (metis nth_mem set_rev length_rev)
    with that Some show ?thesis by (auto simp: weightVector_def map_of_weightVector_fold)
  qed
qed

lemma map_of_filter_keys: "map_of (filter (\<lambda>(k, _). P k) m) k = (if P k then map_of m k else None)"
  by (induction m) auto

lemma map_of_update_fold:
  "distinct (map fst ws) \<Longrightarrow>
   map_of (foldl (\<lambda>m (k, v). AList.update k v m) m ws) k = (case map_of ws k of None \<Rightarrow> map_of m k | Some v \<Rightarrow> Some v)"
proof (induction ws arbitrary: m)
  case (Cons w ws)
  obtain a b where w: "w = (a, b)" by (cases w)
  have "map_of ws a = None" using Cons.prems w by (simp add: map_of_eq_None_iff)
  then show ?case
    using Cons.IH[of "AList.update a b m"] Cons.prems w
    by (cases "k = a") (simp_all add: map_of_update split: option.splits)
qed simp

lemma wf_weightVector: "wf_map (weightVector ident weight xs)"
proof -
  have "wf_map m \<Longrightarrow>
    wf_map (foldl (\<lambda>m x. if weight x > 0 then AList.update (ident x) (weight x) m else m) m xs)" for m
    by (induction xs arbitrary: m) (auto intro: wf_map_update)
  then show ?thesis by (simp add: weightVector_def)
qed

text \<open>No candidate is recorded with a weight it no longer has.\<close>

definition stable :: "('a \<Rightarrow> string) \<Rightarrow> ('a \<Rightarrow> int) \<Rightarrow> 'a list \<Rightarrow> smoothWeightedState \<Rightarrow> bool" where
  "stable ident weight xs s \<longleftrightarrow> list_all (\<lambda>x. map_of (sw_weights s) (ident x) \<in> {None, Some (weight x)}) xs"

lemma prepare_stable:
  assumes ok: "candidates_ok ident weight xs" and st: "stable ident weight xs s"
  shows "stable ident weight xs (prepare (weightVector ident weight xs) s)"
    and "x \<in> set xs \<Longrightarrow> map_get 0 (sw_current (prepare (weightVector ident weight xs) s)) (ident x) =
           map_get 0 (sw_current s) (ident x)"
proof -
  let ?w = "weightVector ident weight xs"
  have nc: "\<not> weightsConfigChanged (sw_weights s) ?w"
  proof -
    have "map_of (sw_weights s) k \<in> {None, Some v}" if "(k, v) \<in> set ?w" for k v
      using map_of_weightVector(2)[OF ok map_of_SomeI[OF wf_weightVector that]] st
      by (auto simp: stable_def list_all_iff)
    then have "\<not> (case map_of (sw_weights s) (fst e) of None \<Rightarrow> False | Some previous \<Rightarrow> previous \<noteq> snd e)"
      if "e \<in> set ?w" for e
      using that by (cases e) (fastforce split: option.splits)
    then show ?thesis
      by (auto simp: weightsConfigChanged_def list_ex_iff case_prod_unfold)
  qed
  have w: "map_of ?w (ident x) = Some (weight x)" if "x \<in> set xs" for x
    using map_of_weightVector(1)[OF ok that] .
  have keep: "map_of (sw_weights (prepare ?w s)) (ident x) = Some (weight x) \<and>
      map_of (sw_current (prepare ?w s)) (ident x) = map_of (sw_current s) (ident x)" if "x \<in> set xs" for x
    using nc w[OF that] map_of_update_fold[OF wf_weightVector[of ident weight xs]]
    by (simp add: prepare_def pruneStale_def Let_def map_of_filter_keys has_key_def)
  then show "stable ident weight xs (prepare ?w s)" by (simp add: stable_def list_all_iff)
  show "x \<in> set xs \<Longrightarrow> map_get 0 (sw_current (prepare ?w s)) (ident x) = map_get 0 (sw_current s) (ident x)"
    using keep by (simp add: map_get_def)
qed

lemma smoothSelect_spec:
  assumes ok: "candidates_ok ident weight xs" and ne: "xs \<noteq> []"
    and bal: "balanced ident weight xs (sw_current s)" and st: "stable ident weight xs s"
  shows "\<exists>p s'. smoothSelect ident weight xs s = (Some p, s') \<and> p \<in> set xs \<and>
    balanced ident weight xs (sw_current s') \<and> stable ident weight xs s' \<and>
    (\<forall>x \<in> set xs. map_get 0 (sw_current s') (ident x) =
       map_get 0 (sw_current s) (ident x) + weight x - (if x = p then total_weight weight xs else 0))"
proof -
  let ?s = "prepare (weightVector ident weight xs) s"
  have same: "x \<in> set xs \<Longrightarrow> map_get 0 (sw_current ?s) (ident x) = map_get 0 (sw_current s) (ident x)" for x
    by (rule prepare_stable(2)[OF ok st])
  have "balanced ident weight xs (sw_current ?s)"
    using bal same by (simp add: balanced_def cong: map_cong)
  from pickSmooth_spec[OF ok ne this] obtain p cur' where
    p: "pickSmooth ident weight xs (sw_current ?s) = (Some p, cur')" "p \<in> set xs"
    "\<forall>x \<in> set xs. map_get 0 cur' (ident x) =
       map_get 0 (sw_current ?s) (ident x) + weight x - (if x = p then total_weight weight xs else 0)"
    "balanced ident weight xs cur'" by blast
  have "stable ident weight xs (?s\<lparr>sw_current := cur'\<rparr>)"
    using prepare_stable(1)[OF ok st] by (simp add: stable_def)
  moreover have "smoothSelect ident weight xs s = (Some p, ?s\<lparr>sw_current := cur'\<rparr>)"
    using p(1) by (simp add: smoothSelect_def)
  ultimately show ?thesis
    using p same by (intro exI[of _ p] exI[of _ "?s\<lparr>sw_current := cur'\<rparr>"]) simp
qed

lemma smoothRun_spec:
  assumes ok: "candidates_ok ident weight xs" and ne: "xs \<noteq> []"
    and "balanced ident weight xs (sw_current s)" "stable ident weight xs s"
    and "smoothRun ident weight xs n s = (picks, s')"
  shows "length picks = n \<and> set picks \<subseteq> Some ` set xs \<and>
    balanced ident weight xs (sw_current s') \<and> stable ident weight xs s' \<and>
    (\<forall>x \<in> set xs. map_get 0 (sw_current s') (ident x) = map_get 0 (sw_current s) (ident x) +
       int n * weight x - total_weight weight xs * int (count_list picks (Some x)))"
  using assms(3-5)
proof (induction n arbitrary: s picks)
  case (Suc n)
  obtain p s1 where sel: "smoothSelect ident weight xs s = (Some p, s1)" "p \<in> set xs"
    "balanced ident weight xs (sw_current s1)" "stable ident weight xs s1"
    and cr: "\<forall>x \<in> set xs. map_get 0 (sw_current s1) (ident x) =
       map_get 0 (sw_current s) (ident x) + weight x - (if x = p then total_weight weight xs else 0)"
    using smoothSelect_spec[OF ok ne Suc.prems(1,2)] by blast
  obtain ps where ps: "smoothRun ident weight xs n s1 = (ps, s')" "picks = Some p # ps"
    using Suc.prems(3) sel(1) by (auto split: prod.splits)
  have IH: "length ps = n \<and> set ps \<subseteq> Some ` set xs \<and>
    balanced ident weight xs (sw_current s') \<and> stable ident weight xs s' \<and>
    (\<forall>x \<in> set xs. map_get 0 (sw_current s') (ident x) = map_get 0 (sw_current s1) (ident x) +
       int n * weight x - total_weight weight xs * int (count_list ps (Some x)))"
    by (rule Suc.IH[OF sel(3,4) ps(1)])
  have "map_get 0 (sw_current s') (ident x) = map_get 0 (sw_current s) (ident x) +
       int (Suc n) * weight x - total_weight weight xs * int (count_list picks (Some x))"
    if "x \<in> set xs" for x
    using IH cr that ps(2) by (auto simp: algebra_simps)
  with IH ps(2) sel(2) show ?case by simp
qed simp

section \<open>Fairness\<close>

text \<open>
  Weights as the credentials have them (at most \<open>MaxWeight\<close>, at most a million candidates) never
  reach the saturation bounds.
\<close>

lemma candidates_okI:
  assumes "distinct (map ident xs)" "\<forall>x \<in> set xs. 0 < weight x \<and> weight x \<le> MaxWeight" "length xs \<le> 1000000"
  shows "candidates_ok ident weight xs"
proof -
  have "total_weight weight xs \<le> (\<Sum>x \<leftarrow> xs. MaxWeight)"
    unfolding total_weight_def using assms(2) by (intro sum_list_mono) auto
  also have "\<dots> = int (length xs) * MaxWeight" by (simp add: sum_list_triv)
  also have "\<dots> \<le> 1000000 * MaxWeight"
    using assms(3) by (intro mult_right_mono) (simp_all add: MaxWeight_def)
  finally have t: "total_weight weight xs \<le> 1000000 * 1000000" by (simp add: MaxWeight_def)
  have "0 \<le> total_weight weight xs"
    unfolding total_weight_def using assms(2) by (intro sum_list_nonneg) auto
  then have "(int (length xs) + 1) * total_weight weight xs \<le> 1000001 * (1000000 * 1000000)"
    using t assms(3) by (intro mult_mono) auto
  also have "\<dots> \<le> MaxInt64" by (simp add: MaxInt64_def)
  finally show ?thesis using assms(1,2) by (simp add: candidates_ok_def)
qed

lemma sum_counts:
  "distinct xs \<Longrightarrow> set ps \<subseteq> Some ` set xs \<Longrightarrow> (\<Sum>x \<leftarrow> xs. int (count_list ps (Some x))) = int (length ps)"
proof (induction ps)
  case (Cons p ps)
  then obtain y where y: "p = Some y" "y \<in> set xs" by auto
  have "(\<Sum>x \<leftarrow> xs. int (count_list (p # ps) (Some x))) =
      (\<Sum>x \<leftarrow> xs. int (count_list ps (Some x)) + (if id x = id y then 1 else 0))"
    using y(1) by (intro arg_cong[where f = sum_list] map_cong) auto
  also have "\<dots> = int (length ps) + 1"
    using Cons y(2) sum_indicator[of id xs y "\<lambda>_. 1"] by (simp add: sum_list_addf)
  finally show ?case by simp
qed simp

text \<open>C36. Weighted fairness: over one cycle, as many consecutive selections as the weights add up to
  with the candidates and their weights unchanged, every candidate is picked exactly as often as its
  weight says, and the credits return to zero, so that the next cycle repeats. This is for any
  candidates with distinct IDs and weights between 1 and the maximum, starting from credits that are
  zero for them.\<close>

theorem smooth_weighted_fair:
  assumes "distinct (map ident xs)" and "xs \<noteq> []" and "length xs \<le> 1000000"
    and "\<forall>x \<in> set xs. 0 < weight x \<and> weight x \<le> MaxWeight"
    and "\<forall>x \<in> set xs. map_get 0 (sw_current s) (ident x) = 0 \<and> map_of (sw_weights s) (ident x) \<in> {None, Some (weight x)}"
    and "smoothRun ident weight xs (nat (\<Sum>x \<leftarrow> xs. weight x)) s = (picks, s')"
    and "x \<in> set xs"
  shows "int (count_list picks (Some x)) = weight x \<and> map_get 0 (sw_current s') (ident x) = 0"
proof -
  let ?W = "total_weight weight xs"
  have ok: "candidates_ok ident weight xs" by (rule candidates_okI[OF assms(1,4,3)])
  have W: "0 < ?W" by (rule total_pos[OF ok assms(2)])
  have "(\<Sum>x \<leftarrow> xs. map_get 0 (sw_current s) (ident x)) = 0"
  proof -
    have "(\<Sum>x \<leftarrow> xs. map_get 0 (sw_current s) (ident x)) = (\<Sum>x \<leftarrow> xs. 0)"
      using assms(5) by (intro arg_cong[where f = sum_list] map_cong) auto
    then show ?thesis by simp
  qed
  then have bal: "balanced ident weight xs (sw_current s)"
    using assms(5) W by (simp add: balanced_def)
  have st: "stable ident weight xs s" using assms(5) by (simp add: stable_def list_all_iff)
  have run: "smoothRun ident weight xs (nat ?W) s = (picks, s')"
    using assms(6) by (simp add: total_weight_def)
  have R: "length picks = nat ?W" "set picks \<subseteq> Some ` set xs" "balanced ident weight xs (sw_current s')"
    "\<forall>x \<in> set xs. map_get 0 (sw_current s') (ident x) = ?W * (weight x - int (count_list picks (Some x)))"
    using smoothRun_spec[OF ok assms(2) bal st run] assms(5) W by (auto simp: algebra_simps)
  have le: "int (count_list picks (Some y)) \<le> weight y" if "y \<in> set xs" for y
  proof -
    have "- ?W < ?W * (weight y - int (count_list picks (Some y)))"
      using R(3,4) that by (fastforce simp: balanced_def)
    then have "?W * (-1) < ?W * (weight y - int (count_list picks (Some y)))" by simp
    then have "-1 < weight y - int (count_list picks (Some y))"
      using W by (simp only: mult_less_cancel_left_pos)
    then show ?thesis by simp
  qed
  have "distinct xs" using assms(1) by (simp add: distinct_map)
  then have "(\<Sum>x \<leftarrow> xs. int (count_list picks (Some x))) = ?W"
    using sum_counts[OF _ R(2)] R(1) W by simp
  then have "(\<Sum>x \<leftarrow> xs. weight x - int (count_list picks (Some x))) = 0"
    by (simp add: sum_list_subtractf total_weight_def)
  moreover have "(weight x - int (count_list picks (Some x))) + (int (length xs) - 1) * 0 \<le>
      (\<Sum>x \<leftarrow> xs. weight x - int (count_list picks (Some x)))"
    using le by (intro sum_list_ge_member[OF assms(7)]) auto
  ultimately have "int (count_list picks (Some x)) = weight x" using le[OF assms(7)] by simp
  with R(4) assms(7) show ?thesis by simp
qed

theorem smooth_weighted_fair_witness:
  "int (count_list (fst (smoothRun fst snd [(''a'', 3), (''b'', 1), (''c'', 2)] 6 emptyWeightedState)) (Some (''a'', 3))) = 3 \<and>
   map_get 0 (sw_current (snd (smoothRun fst snd [(''a'', 3), (''b'', 1), (''c'', 2)] 6 emptyWeightedState))) ''a'' = 0"
proof -
  let ?xs = "[(''a'', 3), (''b'', 1), (''c'', 2)] :: (string \<times> int) list"
  have "int (count_list (fst (smoothRun fst snd ?xs 6 emptyWeightedState)) (Some (''a'', 3))) = snd (''a'', 3::int) \<and>
    map_get 0 (sw_current (snd (smoothRun fst snd ?xs 6 emptyWeightedState))) (fst (''a'', 3::int)) = 0"
    by (rule smooth_weighted_fair[where xs = ?xs and ident = fst and weight = snd and s = emptyWeightedState])
       (simp_all add: MaxWeight_def emptyWeightedState_def)
  then show ?thesis by simp
qed

end
