(* ===== verification/Selectors.thy ===== *)
theory Selectors
  imports SmoothWeighted "HOL-Library.Multiset"
begin

text \<open>
  The built-in selectors of \<open>sdk/aps/auth/selector.go\<close>: \<open>RoundRobinSelector\<close>,
  \<open>WeightedRoundRobinSelector\<close> and \<open>FillFirstSelector\<close>. A selector is its record, \<open>Pick\<close> a
  function to the result and the new record; the reading of the clock and the downstream transport
  are arguments.

  What the rotation of an ordered ring of candidates promises is the locale \<open>rotation\<close>. It is
  interpreted on \<open>successorIndex\<close> here and on the scheduler's rotation in theory Scheduler.
\<close>

section \<open>Definitions\<close>

record RoundRobinSelector =
  rr_lastPicked :: "(string, string) go_map"
  rr_maxKeys :: int

record WeightedRoundRobinSelector =
  wr_states :: "(string, smoothWeightedState) go_map"
  wr_maxKeys :: int

definition key_limit :: "int \<Rightarrow> nat" where
  "key_limit maxKeys = (if maxKeys \<le> 0 then 4096 else nat maxKeys)"

definition successorIndex :: "auth list \<Rightarrow> string \<Rightarrow> nat" where
  "successorIndex available lastID =
     (if lastID = [] then 0
      else let index = sort_Search (length available) (\<lambda>i. auth_ID (available ! i) > lastID)
           in if index \<ge> length available then 0 else index)"

definition ensureRotationKey :: "string \<Rightarrow> nat \<Rightarrow> (string, string) go_map \<Rightarrow> (string, string) go_map" where
  "ensureRotationKey key limit lastPicked =
     (if \<not> has_key lastPicked key \<and> length lastPicked \<ge> limit then [] else lastPicked)"

definition RoundRobin_Pick ::
  "bool \<Rightarrow> string \<Rightarrow> string \<Rightarrow> go_time \<Rightarrow> auth list \<Rightarrow> RoundRobinSelector
    \<Rightarrow> (pick_error + auth) \<times> RoundRobinSelector" where
  "RoundRobin_Pick downstreamWebsocket provider model now auths s =
     (case getAvailableAuths auths provider model now of
        Inl err \<Rightarrow> (Inl err, s)
      | Inr available0 \<Rightarrow>
          (let available = preferCodexWebsocketAuths downstreamWebsocket provider available0;
               key = provider @ '':'' @ canonicalModelKey model;
               lastPicked = ensureRotationKey key (key_limit (rr_maxKeys s)) (rr_lastPicked s);
               picked = available ! successorIndex available (map_get [] lastPicked key)
           in (Inr picked, s\<lparr>rr_lastPicked := AList.update key (auth_ID picked) lastPicked\<rparr>)))"

definition weightedSelectorStateModel :: "string \<Rightarrow> string \<Rightarrow> string" where
  "weightedSelectorStateModel routeModel availabilityModel =
     (if TrimSpace routeModel \<noteq> [] then routeModel else availabilityModel)"

definition WeightedRoundRobin_Pick ::
  "bool \<Rightarrow> string \<Rightarrow> string \<Rightarrow> string \<Rightarrow> go_time \<Rightarrow> auth list \<Rightarrow> WeightedRoundRobinSelector
    \<Rightarrow> (pick_error + auth) \<times> WeightedRoundRobinSelector" where
  "WeightedRoundRobin_Pick downstreamWebsocket routeModel provider model now auths s =
     (case getAvailableAuths (positiveWeightAuths auths) provider model now of
        Inl err \<Rightarrow> (Inl err, s)
      | Inr available0 \<Rightarrow>
          (let available = preferCodexWebsocketAuths downstreamWebsocket provider available0;
               stateModel = weightedSelectorStateModel routeModel model;
               key = provider @ '':'' @ canonicalModelKey stateModel;
               states = (if \<not> has_key (wr_states s) key \<and> length (wr_states s) \<ge> key_limit (wr_maxKeys s)
                         then [] else wr_states s);
               state = prepare (authWeightVector available) (map_get emptyWeightedState states key);
               (picked, current) = pickSmoothWeightedAuth available (sw_current state);
               s' = s\<lparr>wr_states := AList.update key (state\<lparr>sw_current := current\<rparr>) states\<rparr>
           in case picked of
                None \<Rightarrow> (Inl (PickError ''auth_unavailable'' None), s')
              | Some a \<Rightarrow> (Inr a, s')))"

definition FillFirst_Pick ::
  "bool \<Rightarrow> string \<Rightarrow> string \<Rightarrow> go_time \<Rightarrow> auth list \<Rightarrow> pick_error + auth" where
  "FillFirst_Pick downstreamWebsocket provider model now auths =
     (case getAvailableAuths auths provider model now of
        Inl err \<Rightarrow> Inl err
      | Inr available \<Rightarrow> Inr (preferCodexWebsocketAuths downstreamWebsocket provider available ! 0))"

section \<open>Rotation\<close>

lemma rotate1_mset: "mset (rotate1 xs) = mset xs"
  by (cases xs) simp_all

text \<open>
  The next candidate of an ordered ring: the first whose ID comes after the last pick, and the head
  of the ring when there is none. This is the specification both rotations implement.
\<close>

definition ring_next :: "('a \<Rightarrow> string) \<Rightarrow> 'a list \<Rightarrow> string \<Rightarrow> 'a option" where
  "ring_next ident xs lastID =
     (case find (\<lambda>x. ident x > lastID) xs of
        Some x \<Rightarrow> Some x
      | None \<Rightarrow> (case xs of [] \<Rightarrow> None | x # _ \<Rightarrow> Some x))"

definition ring_ok :: "('a \<Rightarrow> string) \<Rightarrow> 'a list \<Rightarrow> bool" where
  "ring_ok ident xs \<longleftrightarrow> sorted_wrt (\<lambda>x y. ident x < ident y) xs \<and> (\<forall>x \<in> set xs. ident x \<noteq> [])"

fun rotation_run :: "('a \<Rightarrow> string) \<Rightarrow> ('a list \<Rightarrow> string \<Rightarrow> 'a option) \<Rightarrow> 'a list \<Rightarrow> nat \<Rightarrow> string \<Rightarrow> 'a option list" where
  "rotation_run ident next_pick xs 0 lastID = []"
| "rotation_run ident next_pick xs (Suc n) lastID =
     (case next_pick xs lastID of
        None \<Rightarrow> None # rotation_run ident next_pick xs n lastID
      | Some x \<Rightarrow> Some x # rotation_run ident next_pick xs n (ident x))"

locale rotation =
  fixes ident :: "'a \<Rightarrow> string"
    and next_pick :: "'a list \<Rightarrow> string \<Rightarrow> 'a option"
  assumes next_pick_ring: "ring_ok ident xs \<Longrightarrow> next_pick xs lastID = ring_next ident xs lastID"
begin

lemma ring_nth_mono: "ring_ok ident xs \<Longrightarrow> i < j \<Longrightarrow> j < length xs \<Longrightarrow> ident (xs ! i) < ident (xs ! j)"
  by (simp add: ring_ok_def sorted_wrt_iff_nth_less)

lemma next_after:
  assumes "ring_ok ident xs" "i < length xs"
  shows "next_pick xs (ident (xs ! i)) = Some (xs ! (Suc i mod length xs))"
proof (cases "Suc i < length xs")
  case True
  have "\<not> ident (xs ! i) < ident (xs ! j)" if "j < Suc i" for j
    using that assms(2) ring_nth_mono[OF assms(1), of j i] by (cases "j = i") auto
  then have "find (\<lambda>x. ident x > ident (xs ! i)) xs = Some (xs ! Suc i)"
    using True ring_nth_mono[OF assms(1), of i "Suc i"]
    by (auto simp: find_Some_iff intro!: exI[of _ "Suc i"])
  with True assms(1) show ?thesis by (simp add: next_pick_ring ring_next_def)
next
  case False
  have none: "find (\<lambda>x. ident x > ident (xs ! i)) xs = None"
  proof -
    have "\<not> ident (xs ! i) < ident (xs ! j)" if "j < length xs" for j
      using False assms(2) that ring_nth_mono[OF assms(1), of j i] by (cases "j = i") auto
    then show ?thesis by (auto simp: find_None_iff in_set_conv_nth)
  qed
  have "Suc i = length xs" using False assms(2) by simp
  then have "Suc i mod length xs = 0" by simp
  with none assms show ?thesis
    by (cases xs) (simp_all add: next_pick_ring ring_next_def)
qed

lemma next_pick_in: "ring_ok ident xs \<Longrightarrow> xs \<noteq> [] \<Longrightarrow> \<exists>i < length xs. next_pick xs lastID = Some (xs ! i)"
  by (auto simp: next_pick_ring ring_next_def find_Some_iff split: option.splits list.splits)

lemma run_from:
  assumes "ring_ok ident xs" "i < length xs"
  shows "rotation_run ident next_pick xs n (ident (xs ! i)) =
    map (\<lambda>j. Some (xs ! ((Suc i + j) mod length xs))) [0..<n]"
  using assms(2)
proof (induction n arbitrary: i)
  case (Suc n)
  have lt: "Suc i mod length xs < length xs" using Suc.prems by (metis mod_less_divisor not_less_zero neq0_conv)
  have "rotation_run ident next_pick xs (Suc n) (ident (xs ! i)) =
      Some (xs ! (Suc i mod length xs)) # map (\<lambda>j. Some (xs ! ((Suc (Suc i mod length xs) + j) mod length xs))) [0..<n]"
    using next_after[OF assms(1) Suc.prems] Suc.IH[OF lt] by simp
  also have "\<dots> = map (\<lambda>j. Some (xs ! ((Suc i + j) mod length xs))) (0 # map Suc [0..<n])"
  proof -
    have "(Suc (Suc i mod length xs) + j) mod length xs = (Suc i + Suc j) mod length xs" for j
      by (metis add_Suc add_Suc_right mod_Suc_eq mod_add_left_eq)
    then show ?thesis by simp
  qed
  finally show ?case by (simp add: map_Suc_upt upt_conv_Cons del: upt_Suc)
qed simp

lemma run_all:
  assumes "ring_ok ident xs" "xs \<noteq> []"
  shows "mset (rotation_run ident next_pick xs (length xs) lastID) = image_mset Some (mset xs)"
proof -
  obtain i where i: "i < length xs" "next_pick xs lastID = Some (xs ! i)"
    using next_pick_in[OF assms] by blast
  obtain n where n: "length xs = Suc n" using assms(2) by (cases xs) auto
  have "rotation_run ident next_pick xs (length xs) lastID =
      Some (xs ! i) # map (\<lambda>j. Some (xs ! ((Suc i + j) mod length xs))) [0..<n]"
    using i(2) run_from[OF assms(1) i(1), of n] by (simp add: n)
  also have "\<dots> = map (\<lambda>j. Some (xs ! ((i + j) mod length xs))) (0 # map Suc [0..<n])"
    using i(1) by simp
  also have "\<dots> = map (\<lambda>j. Some (xs ! ((i + j) mod length xs))) [0..<length xs]"
    by (simp add: n map_Suc_upt upt_conv_Cons del: upt_Suc)
  also have "\<dots> = map Some (rotate i xs)"
    by (rule nth_equalityI) (simp_all add: nth_rotate add.commute)
  finally have "rotation_run ident next_pick xs (length xs) lastID = map Some (rotate i xs)" .
  moreover have "mset (rotate i xs) = mset xs" by (induction i) (auto simp: rotate1_mset)
  ultimately show ?thesis by simp
qed

end

section \<open>The selector's rotation\<close>

text \<open>Binary search for the successor finds the first candidate after the last pick.\<close>

lemma find_least:
  assumes "\<forall>k < n. \<not> P (xs ! k)" "n < length xs" "P (xs ! n)"
  shows "find P xs = Some (xs ! n)"
  unfolding find_Some_iff using assms by blast

lemma search_find:
  assumes "sorted_wrt (\<lambda>x y. ident x < (ident y :: string)) xs"
  shows "find (\<lambda>x. ident x > lastID) xs =
    (let n = sort_Search (length xs) (\<lambda>i. ident (xs ! i) > lastID)
     in if n \<ge> length xs then None else Some (xs ! n))"
proof -
  let ?f = "\<lambda>i. ident (xs ! i) > lastID"
  let ?n = "sort_Search (length xs) ?f"
  have mono: "\<forall>a b. a \<le> b \<and> b < length xs \<and> ?f a \<longrightarrow> ?f b"
  proof (intro allI impI)
    fix a b assume ab: "a \<le> b \<and> b < length xs \<and> ?f a"
    then have "a = b \<or> ident (xs ! a) < ident (xs ! b)"
      using assms by (cases "a = b") (auto simp: sorted_wrt_iff_nth_less)
    with ab show "?f b" by (metis less_trans)
  qed
  have spec: "\<forall>k < ?n. \<not> ?f k" "\<forall>k. ?n \<le> k \<and> k < length xs \<longrightarrow> ?f k"
    using sort_Search_spec[OF mono] by blast+
  show ?thesis
  proof (cases "?n \<ge> length xs")
    case True
    then have "find (\<lambda>x. ident x > lastID) xs = None"
      using spec(1) by (auto simp: find_None_iff in_set_conv_nth)
    with True show ?thesis by (simp add: Let_def)
  next
    case False
    then have "?f ?n" using spec(2) by simp
    then have "find (\<lambda>x. ident x > lastID) xs = Some (xs ! ?n)"
      using spec(1) False by (intro find_least) simp_all
    with False show ?thesis by (simp add: Let_def)
  qed
qed

definition selector_next :: "auth list \<Rightarrow> string \<Rightarrow> auth option" where
  "selector_next available lastID =
     (if available = [] then None else Some (available ! successorIndex available lastID))"

lemma not_less_Nil [simp]: "\<not> (s :: string) < []"
  by (cases s) (simp_all add: list_less_def lexord_def)

lemma Nil_less_iff [simp]: "[] < (s :: string) \<longleftrightarrow> s \<noteq> []"
  by (cases s) (auto simp: list_less_def lexord_def)

interpretation rr: rotation "auth_ID :: auth \<Rightarrow> string" selector_next
proof
  fix xs :: "auth list" and lastID
  assume ok: "ring_ok auth_ID xs"
  show "selector_next xs lastID = ring_next auth_ID xs lastID"
  proof (cases "xs = [] \<or> lastID = []")
    case True
    then show ?thesis
      using ok by (cases xs) (auto simp: selector_next_def ring_next_def successorIndex_def ring_ok_def)
  next
    case False
    then show ?thesis
      using search_find[of auth_ID xs lastID] ok
      by (cases xs) (auto simp: selector_next_def ring_next_def successorIndex_def ring_ok_def Let_def)
  qed
qed

text \<open>The candidates handed to the rotation form a ring.\<close>

lemma sorted_ring:
  assumes "distinct (map ident xs)" "\<forall>x \<in> set xs. ident x \<noteq> []" "set ys \<subseteq> set xs" "distinct ys"
  shows "ring_ok ident (sort_key ident ys)"
proof -
  have "inj_on ident (set ys)" using assms(1,3) by (meson distinct_map inj_on_subset)
  then have "sorted_wrt (<) (map ident (sort_key ident ys))"
    using assms(4) by (simp add: strict_sorted_iff distinct_map)
  then show ?thesis using assms(2,3) by (auto simp: ring_ok_def sorted_wrt_map)
qed

lemma ring_filter: "ring_ok ident xs \<Longrightarrow> ring_ok ident (filter P xs)"
  by (simp add: ring_ok_def sorted_wrt_filter)

lemma preferCodex_filter:
  "\<exists>P. preferCodexWebsocketAuths ws provider xs = filter P xs \<and> (xs \<noteq> [] \<longrightarrow> filter P xs \<noteq> [])"
proof (cases "xs = [] \<or> \<not> ws \<or> \<not> EqualFold (TrimSpace provider) ''codex'' \<or>
    filter (\<lambda>c. authWebsocketsEnabled (Some c)) xs = []")
  case True
  then have "preferCodexWebsocketAuths ws provider xs = filter (\<lambda>_. True) xs"
    by (auto simp: preferCodexWebsocketAuths_def Let_def)
  then show ?thesis by (intro exI[of _ "\<lambda>_. True"]) simp
next
  case False
  then have "preferCodexWebsocketAuths ws provider xs = filter (\<lambda>c. authWebsocketsEnabled (Some c)) xs"
    by (auto simp: preferCodexWebsocketAuths_def Let_def)
  with False show ?thesis by blast
qed

lemma available_ring:
  assumes "0 \<le> now" "distinct (map auth_ID auths)" "\<forall>a \<in> set auths. auth_ID a \<noteq> []"
    and "getAvailableAuths auths provider model now = Inr available"
  shows "ring_ok auth_ID available \<and> available \<noteq> [] \<and> set available \<subseteq> set (filter (free_now model now) auths)"
proof -
  let ?free = "filter (free_now model now) auths"
  let ?best = "filter (\<lambda>a. prio a = Max (prio ` set ?free)) ?free"
  have ne: "?free \<noteq> []" and av: "available = sort_key auth_ID ?best"
    using assms(4) unfolding getAvailableAuths_eq[OF assms(1)] by (auto simp: Let_def split: if_splits)
  have "Max (prio ` set ?free) \<in> prio ` set ?free" using ne by (intro Max_in) (auto simp del: set_filter)
  then have "?best \<noteq> []" by (force simp: filter_empty_conv)
  then have "available \<noteq> []" using av by (metis set_empty set_sort)
  moreover have "distinct ?best" using assms(2) by (simp add: distinct_map)
  then have "ring_ok auth_ID available"
    unfolding av by (intro sorted_ring[OF assms(2,3)]) auto
  ultimately show ?thesis unfolding av by auto
qed

section \<open>Round robin over a stable candidate set\<close>

text \<open>Consecutive picks, one per reading of the clock.\<close>

fun RoundRobin_run ::
  "bool \<Rightarrow> string \<Rightarrow> string \<Rightarrow> auth list \<Rightarrow> go_time list \<Rightarrow> RoundRobinSelector \<Rightarrow> (pick_error + auth) list" where
  "RoundRobin_run ws provider model auths [] s = []"
| "RoundRobin_run ws provider model auths (now # nows) s =
     (let (r, s') = RoundRobin_Pick ws provider model now auths s
      in r # RoundRobin_run ws provider model auths nows s')"

definition rotation_key :: "string \<Rightarrow> string \<Rightarrow> string" where
  "rotation_key provider model = provider @ '':'' @ canonicalModelKey model"

definition last_pick :: "string \<Rightarrow> string \<Rightarrow> RoundRobinSelector \<Rightarrow> string" where
  "last_pick provider model s =
     map_get [] (ensureRotationKey (rotation_key provider model) (key_limit (rr_maxKeys s)) (rr_lastPicked s))
       (rotation_key provider model)"

lemma RoundRobin_step:
  assumes "getAvailableAuths auths provider model now = Inr available" "available \<noteq> []"
  shows "\<exists>a s'. RoundRobin_Pick ws provider model now auths s = (Inr a, s') \<and>
    selector_next (preferCodexWebsocketAuths ws provider available) (last_pick provider model s) = Some a \<and>
    last_pick provider model s' = auth_ID a"
proof -
  have "preferCodexWebsocketAuths ws provider available \<noteq> []"
    using preferCodex_filter[of ws provider available] assms(2) by metis
  then show ?thesis
    using assms(1)
    by (simp add: RoundRobin_Pick_def Let_def selector_next_def last_pick_def rotation_key_def ensureRotationKey_def)
qed

lemma RoundRobin_run_rotation:
  assumes "\<forall>now \<in> set nows. getAvailableAuths auths provider model now = Inr available" "available \<noteq> []"
  shows "map Inr (map the (rotation_run auth_ID selector_next (preferCodexWebsocketAuths ws provider available)
      (length nows) (last_pick provider model s))) = RoundRobin_run ws provider model auths nows s"
  using assms(1)
proof (induction nows arbitrary: s)
  case (Cons now nows)
  from RoundRobin_step[OF _ assms(2), of auths provider model now ws s] Cons.prems
  obtain a s' where a: "RoundRobin_Pick ws provider model now auths s = (Inr a, s')"
    "selector_next (preferCodexWebsocketAuths ws provider available) (last_pick provider model s) = Some a"
    "last_pick provider model s' = auth_ID a" by auto
  from Cons.IH[of s'] Cons.prems a show ?case by simp
qed simp

text \<open>C37. Round robin is fair: while the candidates and their availability do not change, as many
  consecutive picks as there are eligible credentials pick each of them exactly once, from whatever
  point the rotation stands at.\<close>

theorem round_robin_fair:
  assumes "distinct (map auth_ID auths)" and "\<forall>a \<in> set auths. auth_ID a \<noteq> []"
    and "\<forall>now \<in> set nows. 0 \<le> now \<and> getAvailableAuths auths provider model now = Inr available"
    and "length nows = length (preferCodexWebsocketAuths ws provider available)" and "nows \<noteq> []"
  shows "mset (RoundRobin_run ws provider model auths nows s) =
    image_mset Inr (mset (preferCodexWebsocketAuths ws provider available))"
proof -
  let ?pref = "preferCodexWebsocketAuths ws provider available"
  obtain now where now: "now \<in> set nows" using assms(5) by (cases nows) auto
  have av: "ring_ok auth_ID available" "available \<noteq> []"
    using available_ring[OF _ assms(1,2), of now provider model available] assms(3) now by auto
  obtain P where P: "?pref = filter P available" "filter P available \<noteq> []"
    using preferCodex_filter av(2) by metis
  have ring: "ring_ok auth_ID ?pref" "?pref \<noteq> []" using ring_filter[OF av(1)] P by auto
  have "mset (map the (rotation_run auth_ID selector_next ?pref (length nows) (last_pick provider model s))) = mset ?pref"
    using rr.run_all[OF ring, of "last_pick provider model s"]
    unfolding assms(4) mset_map by (simp add: multiset.map_comp comp_def)
  then show ?thesis
    using RoundRobin_run_rotation[of nows auths provider model available ws s] assms(3) av(2)
    by (metis mset_map)
qed

theorem round_robin_fair_witness:
  "mset (RoundRobin_run False ''claude'' ''m'' [sample_auth ''b'' ''claude'', cooling_auth, sample_auth ''c'' ''claude''] [10, 11]
     \<lparr>rr_lastPicked = [(''claude:m'', ''b'')], rr_maxKeys = 0\<rparr>) =
   image_mset Inr (mset (preferCodexWebsocketAuths False ''claude'' [sample_auth ''b'' ''claude'', sample_auth ''c'' ''claude'']))"
proof (rule round_robin_fair)
  show "\<forall>now \<in> set [10, 11]. 0 \<le> now \<and>
      getAvailableAuths [sample_auth ''b'' ''claude'', cooling_auth, sample_auth ''c'' ''claude''] ''claude'' ''m'' now =
      Inr [sample_auth ''b'' ''claude'', sample_auth ''c'' ''claude'']"
    by code_simp
  show "length [10, 11::int] = length (preferCodexWebsocketAuths False ''claude''
      [sample_auth ''b'' ''claude'', sample_auth ''c'' ''claude''])"
    by code_simp
  show "distinct (map auth_ID [sample_auth ''b'' ''claude'', cooling_auth, sample_auth ''c'' ''claude''])"
    by code_simp
  show "\<forall>a \<in> set [sample_auth ''b'' ''claude'', cooling_auth, sample_auth ''c'' ''claude'']. auth_ID a \<noteq> []"
    by code_simp
qed simp

section \<open>What a selector can return\<close>

lemma getAvailableAuths_member:
  assumes "0 \<le> now" "getAvailableAuths auths provider model now = Inr available" "a \<in> set available"
  shows "a \<in> set auths \<and> free_now model now a \<and> (\<forall>b \<in> set auths. free_now model now b \<longrightarrow> prio b \<le> prio a)"
proof -
  let ?free = "filter (free_now model now) auths"
  have av: "available = sort_key auth_ID (filter (\<lambda>a. prio a = Max (prio ` set ?free)) ?free)"
    using assms(2) unfolding getAvailableAuths_eq[OF assms(1)] by (auto simp: Let_def split: if_splits)
  have a: "a \<in> set auths" "free_now model now a" "prio a = Max (prio ` set ?free)"
    using assms(3) unfolding av by auto
  have "prio b \<le> prio a" if "b \<in> set auths" "free_now model now b" for b
    unfolding a(3) using that by (intro Max_ge) auto
  with a show ?thesis by blast
qed

lemma getAvailableAuths_ne:
  assumes "0 \<le> now" "getAvailableAuths auths provider model now = Inr available"
  shows "available \<noteq> []"
proof -
  let ?free = "filter (free_now model now) auths"
  have ne: "?free \<noteq> []" and av: "available = sort_key auth_ID (filter (\<lambda>a. prio a = Max (prio ` set ?free)) ?free)"
    using assms(2) unfolding getAvailableAuths_eq[OF assms(1)] by (auto simp: Let_def split: if_splits)
  have "Max (prio ` set ?free) \<in> prio ` set ?free" using ne by (intro Max_in) (auto simp del: set_filter)
  then have "filter (\<lambda>a. prio a = Max (prio ` set ?free)) ?free \<noteq> []" by (force simp: filter_empty_conv)
  then show ?thesis unfolding av by (metis set_empty set_sort)
qed

text \<open>Fill-first is deterministic: it returns the credential with the least ID among those that are
  free now and have the highest priority of the free ones, whatever the order of the candidates.\<close>

theorem fill_first_least:
  assumes "0 \<le> now" and "FillFirst_Pick False provider model now auths = Inr a"
  shows "a \<in> set auths \<and> free_now model now a \<and>
    list_all (\<lambda>b. \<not> free_now model now b \<or> authPriority (Some b) < authPriority (Some a) \<or>
       authPriority (Some b) = authPriority (Some a) \<and> auth_ID a \<le> auth_ID b) auths"
proof -
  obtain available where av: "getAvailableAuths auths provider model now = Inr available" "a = available ! 0"
    using assms(2) by (auto simp: FillFirst_Pick_def preferCodexWebsocketAuths_def split: sum.splits if_splits)
  have ne: "available \<noteq> []" by (rule getAvailableAuths_ne[OF assms(1) av(1)])
  then have mem: "a \<in> set available" using av(2) by simp
  note a = getAvailableAuths_member[OF assms(1) av(1) mem]
  let ?free = "filter (free_now model now) auths"
  have eq: "available = sort_key auth_ID (filter (\<lambda>a. prio a = Max (prio ` set ?free)) ?free)"
    using av(1) unfolding getAvailableAuths_eq[OF assms(1)] by (auto simp: Let_def split: if_splits)
  have "auth_ID a \<le> auth_ID b" if "b \<in> set auths" "free_now model now b" "prio b = prio a" for b
  proof -
    have "prio a = Max (prio ` set ?free)" using mem unfolding eq by simp
    then have "b \<in> set available" unfolding eq using that by simp
    moreover have "sorted (map auth_ID available)" unfolding eq by simp
    ultimately show ?thesis using av(2) ne by (cases available) auto
  qed
  with a show ?thesis by (fastforce simp: list_all_iff)
qed

theorem fill_first_least_witness:
  "sample_auth ''b'' ''claude'' \<in> set [sample_auth ''c'' ''claude'', cooling_auth, sample_auth ''b'' ''claude''] \<and>
   free_now ''m'' 10 (sample_auth ''b'' ''claude'') \<and>
   list_all (\<lambda>x. \<not> free_now ''m'' 10 x \<or> authPriority (Some x) < authPriority (Some (sample_auth ''b'' ''claude'')) \<or>
       authPriority (Some x) = authPriority (Some (sample_auth ''b'' ''claude'')) \<and>
       auth_ID (sample_auth ''b'' ''claude'') \<le> auth_ID x)
     [sample_auth ''c'' ''claude'', cooling_auth, sample_auth ''b'' ''claude'']"
  by (rule fill_first_least[where provider = "''claude''"]) (simp, code_simp)

text \<open>Weighted round robin never returns a credential of weight zero, one that is blocked, or one
  of a lower priority than a free credential of positive weight; and it returns one whenever a
  candidate of positive weight is free.\<close>

theorem weighted_pick_eligible:
  assumes "0 \<le> now"
  shows "(case fst (WeightedRoundRobin_Pick ws routeModel provider model now auths s) of
      Inr a \<Rightarrow> a \<in> set auths \<and> authWeight (Some a) > 0 \<and> free_now model now a \<and>
        list_all (\<lambda>b. authWeight (Some b) \<le> 0 \<or> \<not> free_now model now b \<or>
          authPriority (Some b) \<le> authPriority (Some a)) auths
    | Inl _ \<Rightarrow> list_all (\<lambda>b. authWeight (Some b) \<le> 0 \<or> \<not> free_now model now b) auths)"
proof (cases "getAvailableAuths (positiveWeightAuths auths) provider model now")
  case (Inl err)
  then have "filter (free_now model now) (positiveWeightAuths auths) = []"
    unfolding getAvailableAuths_eq[OF assms] by (auto simp: Let_def split: if_splits)
  then have "list_all (\<lambda>b. authWeight (Some b) \<le> 0 \<or> \<not> free_now model now b) auths"
    by (auto simp: positiveWeightAuths_def filter_empty_conv list_all_iff)
  with Inl show ?thesis by (simp add: WeightedRoundRobin_Pick_def)
next
  case (Inr available)
  let ?pref = "preferCodexWebsocketAuths ws provider available"
  have ne: "available \<noteq> []" by (rule getAvailableAuths_ne[OF assms Inr])
  obtain P where P: "?pref = filter P available" "?pref \<noteq> []"
    using preferCodex_filter[of ws provider available] ne by metis
  have pos: "b \<in> set ?pref \<Longrightarrow> 0 < authWeight (Some b)" for b
    using getAvailableAuths_member[OF assms Inr] unfolding P(1) by (auto simp: positiveWeightAuths_def)
  have pick: "\<exists>a cur'. pickSmoothWeightedAuth ?pref cur = (Some a, cur') \<and> a \<in> set ?pref" for cur
  proof -
    obtain cur1 pk pc tot where l: "smoothLoop auth_ID (\<lambda>a. authWeight (Some a)) ?pref (cur, None, 0, 0) = (cur1, pk, pc, tot)"
      by (metis prod_cases4)
    then obtain a where "a \<in> set ?pref" "pk = Some a"
      using smoothLoop_picks[OF l] pos P(2) by (metis hd_in_set not_less option.exhaust)
    with l show ?thesis by (simp add: pickSmoothWeightedAuth_def pickSmooth_def)
  qed
  obtain a where a: "fst (WeightedRoundRobin_Pick ws routeModel provider model now auths s) = Inr a" "a \<in> set ?pref"
  proof -
    define st where "st = prepare (authWeightVector ?pref) (map_get emptyWeightedState
        (if \<not> has_key (wr_states s) (provider @ '':'' @ canonicalModelKey (weightedSelectorStateModel routeModel model)) \<and>
            length (wr_states s) \<ge> key_limit (wr_maxKeys s) then [] else wr_states s)
        (provider @ '':'' @ canonicalModelKey (weightedSelectorStateModel routeModel model)))"
    obtain a cur' where "pickSmoothWeightedAuth ?pref (sw_current st) = (Some a, cur')" "a \<in> set ?pref"
      using pick by blast
    then show thesis
      using that[of a] Inr by (simp add: WeightedRoundRobin_Pick_def Let_def st_def)
  qed
  then have "a \<in> set available" using P(1) by auto
  from getAvailableAuths_member[OF assms Inr this] a
  show ?thesis by (fastforce simp: positiveWeightAuths_def list_all_iff)
qed

theorem weighted_pick_eligible_witness:
  "case fst (WeightedRoundRobin_Pick False [] ''claude'' ''m'' 10
       [sample_auth ''c'' ''claude'', cooling_auth] \<lparr>wr_states = [], wr_maxKeys = 0\<rparr>) of
      Inr a \<Rightarrow> a \<in> set [sample_auth ''c'' ''claude'', cooling_auth] \<and> authWeight (Some a) > 0 \<and> free_now ''m'' 10 a \<and>
        list_all (\<lambda>b. authWeight (Some b) \<le> 0 \<or> \<not> free_now ''m'' 10 b \<or>
          authPriority (Some b) \<le> authPriority (Some a)) [sample_auth ''c'' ''claude'', cooling_auth]
    | Inl _ \<Rightarrow> list_all (\<lambda>b. authWeight (Some b) \<le> 0 \<or> \<not> free_now ''m'' 10 b)
        [sample_auth ''c'' ''claude'', cooling_auth]"
  by (rule weighted_pick_eligible) simp

end
