(* ===== verification/Shard.thy ===== *)
theory Shard
  imports Selectors
begin

text \<open>
  One model shard of the scheduler, \<open>modelScheduler\<close> in \<open>sdk/aps/auth/scheduler.go\<close>: its entries,
  the indexes built from them (the ready views by priority and the blocked queue), and the picks.

  The Go views and the blocked queue hold pointers to the entries, which are updated in place. Here
  they hold the IDs, and the map of entries is the store they are looked up in, so that an update
  of an entry is seen through every view that holds it, as in the code. An entry always has its
  metadata, whose credential is the entry's credential.
\<close>

section \<open>Data\<close>

datatype schedulerStrategy =
    schedulerStrategyCurrent
  | schedulerStrategyCustom
  | schedulerStrategyRoundRobin
  | schedulerStrategyFillFirst
  | schedulerStrategyWeightedRoundRobin

datatype scheduledState =
    scheduledStateReady
  | scheduledStateCooldown
  | scheduledStateBlocked
  | scheduledStateDisabled

record scheduledAuthMeta =
  sm_auth :: auth
  sm_providerKey :: string
  sm_priority :: int
  sm_weight :: int
  sm_websocketEnabled :: bool
  sm_supportedModelSet :: "string list"

record scheduledAuth =
  se_meta :: scheduledAuthMeta
  se_state :: scheduledState
  se_nextRetryAt :: go_time

abbreviation se_auth :: "scheduledAuth \<Rightarrow> auth" where
  "se_auth e \<equiv> sm_auth (se_meta e)"

abbreviation se_id :: "scheduledAuth \<Rightarrow> string" where
  "se_id e \<equiv> auth_ID (sm_auth (se_meta e))"

abbreviation se_weight :: "scheduledAuth \<Rightarrow> int" where
  "se_weight e \<equiv> sm_weight (se_meta e)"

record readyView =
  rv_flat :: "string list"
  rv_lastPicked :: string
  rv_weightedState :: smoothWeightedState

record readyBucket =
  bk_all :: readyView
  bk_ws :: readyView

record readyViewCursorState =
  rc_lastPicked :: string
  rc_weightedState :: smoothWeightedState

record readyBucketCursorState =
  bc_all :: readyViewCursorState
  bc_ws :: readyViewCursorState

type_synonym entries = "(string, scheduledAuth) go_map"

record modelScheduler =
  sh_modelKey :: string
  sh_entries :: entries
  sh_priorityOrder :: "int list"
  sh_readyByPriority :: "(int, readyBucket) go_map"
  sh_blocked :: "string list"

definition resolve :: "entries \<Rightarrow> string list \<Rightarrow> scheduledAuth list" where
  "resolve es ids = List.map_filter (map_of es) ids"

section \<open>Views\<close>

definition scheduledWeightVectorMatching ::
  "scheduledAuth list \<Rightarrow> (scheduledAuth \<Rightarrow> bool) \<Rightarrow> (string, int) go_map" where
  "scheduledWeightVectorMatching xs predicate = weightVector (\<lambda>e. se_id e) (\<lambda>e. se_weight e) (filter predicate xs)"

definition scheduledWeightVector :: "scheduledAuth list \<Rightarrow> (string, int) go_map" where
  "scheduledWeightVector xs = scheduledWeightVectorMatching xs (\<lambda>_. True)"

definition pickSmoothWeightedScheduled ::
  "scheduledAuth list \<Rightarrow> (string, int) go_map \<Rightarrow> (scheduledAuth \<Rightarrow> bool)
    \<Rightarrow> scheduledAuth option \<times> (string, int) go_map" where
  "pickSmoothWeightedScheduled xs current predicate =
     pickSmooth (\<lambda>e. se_id e) (\<lambda>e. se_weight e) (filter predicate xs) current"

definition scheduledSuccessorIndex :: "scheduledAuth list \<Rightarrow> string \<Rightarrow> nat" where
  "scheduledSuccessorIndex xs lastID =
     (if lastID = [] then 0
      else let index = sort_Search (length xs) (\<lambda>i. se_id (xs ! i) > lastID)
           in if index \<ge> length xs then 0 else index)"

definition view_pickFirst :: "entries \<Rightarrow> (scheduledAuth \<Rightarrow> bool) \<Rightarrow> readyView \<Rightarrow> scheduledAuth option" where
  "view_pickFirst es predicate v = find predicate (resolve es (rv_flat v))"

definition view_pickRoundRobin ::
  "entries \<Rightarrow> (scheduledAuth \<Rightarrow> bool) \<Rightarrow> readyView \<Rightarrow> scheduledAuth option \<times> readyView" where
  "view_pickRoundRobin es predicate v =
     (let flat = resolve es (rv_flat v)
      in if flat = [] then (None, v)
         else let start = scheduledSuccessorIndex flat (rv_lastPicked v)
              in case find (\<lambda>offset. predicate (flat ! ((start + offset) mod length flat))) [0..<length flat] of
                   None \<Rightarrow> (None, v)
                 | Some offset \<Rightarrow>
                     (let entry = flat ! ((start + offset) mod length flat)
                      in (Some entry, v\<lparr>rv_lastPicked := se_id entry\<rparr>)))"

definition view_pickWeighted ::
  "entries \<Rightarrow> (scheduledAuth \<Rightarrow> bool) \<Rightarrow> readyView \<Rightarrow> scheduledAuth option \<times> readyView" where
  "view_pickWeighted es predicate v =
     (let flat = resolve es (rv_flat v)
      in if flat = [] then (None, v)
         else let state = prepare (scheduledWeightVectorMatching flat predicate) (rv_weightedState v);
                  (picked, current) = pickSmoothWeightedScheduled flat (sw_current state) predicate
              in (picked, v\<lparr>rv_weightedState := state\<lparr>sw_current := current\<rparr>\<rparr>))"

definition snapshotReadyViewCursors :: "readyView \<Rightarrow> readyViewCursorState" where
  "snapshotReadyViewCursors v =
     \<lparr>rc_lastPicked = rv_lastPicked v, rc_weightedState = rv_weightedState v\<rparr>"

definition restoreReadyViewCursors :: "entries \<Rightarrow> readyView \<Rightarrow> readyViewCursorState \<Rightarrow> readyView" where
  "restoreReadyViewCursors es v0 state =
     (let v = v0\<lparr>rv_lastPicked := rc_lastPicked state\<rparr>;
          flat = resolve es (rv_flat v);
          weights = scheduledWeightVector flat
      in if sw_current (rc_weightedState state) = [] \<or>
            weightsConfigChanged (sw_weights (rc_weightedState state)) weights then v
         else let current = foldl (\<lambda>m entry.
                    case map_of (sw_current (rc_weightedState state)) (se_id entry) of
                      Some val \<Rightarrow> AList.update (se_id entry) val m | None \<Rightarrow> m) [] flat
              in v\<lparr>rv_weightedState := \<lparr>sw_current = current, sw_weights = weights\<rparr>\<rparr>)"

definition buildReadyView :: "scheduledAuth list \<Rightarrow> readyView" where
  "buildReadyView xs =
     \<lparr>rv_flat = map (\<lambda>e. se_id e) xs, rv_lastPicked = [], rv_weightedState = emptyWeightedState\<rparr>"

definition buildReadyBucket :: "scheduledAuth list \<Rightarrow> readyBucket" where
  "buildReadyBucket xs =
     \<lparr>bk_all = buildReadyView xs, bk_ws = buildReadyView (filter (\<lambda>e. sm_websocketEnabled (se_meta e)) xs)\<rparr>"

section \<open>Indexes\<close>

text \<open>
  \<open>blocked_key\<close> is the order of the blocked queue: by retry time with an unset time last, and by ID
  at equal times.
\<close>

definition blocked_key :: "scheduledAuth \<Rightarrow> bool \<times> go_time \<times> string" where
  "blocked_key e = (IsZero (se_nextRetryAt e), se_nextRetryAt e, se_id e)"

definition priorityBuckets :: "scheduledAuth list \<Rightarrow> (int, scheduledAuth list) go_map" where
  "priorityBuckets xs =
     foldl (\<lambda>m entry. if se_state entry = scheduledStateReady
                      then AList.update (sm_priority (se_meta entry))
                             (map_get [] m (sm_priority (se_meta entry)) @ [entry]) m
                      else m) [] xs"

definition rebuildBucket ::
  "entries \<Rightarrow> (int, readyBucketCursorState) go_map \<Rightarrow> int \<Rightarrow> scheduledAuth list \<Rightarrow> readyBucket" where
  "rebuildBucket es cursorStates priority members =
     (let bucket = buildReadyBucket (sort_key (\<lambda>e. se_id e) members)
      in case map_of cursorStates priority of
           None \<Rightarrow> bucket
         | Some cursorState \<Rightarrow>
             bucket\<lparr>bk_all := restoreReadyViewCursors es (bk_all bucket) (bc_all cursorState),
                    bk_ws := restoreReadyViewCursors es (bk_ws bucket) (bc_ws cursorState)\<rparr>)"

definition rebuildIndexesLocked :: "modelScheduler \<Rightarrow> modelScheduler" where
  "rebuildIndexesLocked m =
     (let cursorStates = map (\<lambda>(priority, bucket).
            (priority, \<lparr>bc_all = snapshotReadyViewCursors (bk_all bucket),
                        bc_ws = snapshotReadyViewCursors (bk_ws bucket)\<rparr>)) (sh_readyByPriority m);
          xs = map snd (sh_entries m);
          blocked = filter (\<lambda>e. se_state e = scheduledStateCooldown \<or> se_state e = scheduledStateBlocked) xs;
          buckets = priorityBuckets xs
      in m\<lparr>sh_readyByPriority :=
             map (\<lambda>(priority, members).
                    (priority, rebuildBucket (sh_entries m) cursorStates priority members)) buckets,
           sh_priorityOrder := rev (sort (map fst buckets)),
           sh_blocked := map (\<lambda>e. se_id e) (sort_key blocked_key blocked)\<rparr>)"

section \<open>Entries\<close>

text \<open>The state of an entry, as \<open>upsertEntryLocked\<close> and \<open>promoteExpiredLocked\<close> both set it.\<close>

definition entryState :: "auth \<Rightarrow> string \<Rightarrow> go_time \<Rightarrow> scheduledState \<times> go_time" where
  "entryState a modelKey now =
     (let (blocked, reason, next_time) = isAuthBlockedForModel (Some a) modelKey now
      in if \<not> blocked then (scheduledStateReady, 0)
         else if reason = blockReasonCooldown then (scheduledStateCooldown, next_time)
         else if reason = blockReasonDisabled then (scheduledStateDisabled, 0)
         else (scheduledStateBlocked, next_time))"

definition upsertEntryLocked :: "scheduledAuthMeta \<Rightarrow> go_time \<Rightarrow> modelScheduler \<Rightarrow> modelScheduler" where
  "upsertEntryLocked meta now m =
     (let ident = auth_ID (sm_auth meta);
          previous = map_of (sh_entries m) ident;
          (state, nextRetryAt) = entryState (sm_auth meta) (sh_modelKey m) now;
          m' = m\<lparr>sh_entries := AList.update ident
                   \<lparr>se_meta = meta, se_state = state, se_nextRetryAt = nextRetryAt\<rparr> (sh_entries m)\<rparr>
      in if (case previous of
               None \<Rightarrow> False
             | Some entry \<Rightarrow>
                 se_state entry = state \<and> se_nextRetryAt entry = nextRetryAt \<and>
                 sm_priority (se_meta entry) = sm_priority meta \<and>
                 sm_websocketEnabled (se_meta entry) = sm_websocketEnabled meta)
         then m' else rebuildIndexesLocked m')"

definition removeEntryLocked :: "string \<Rightarrow> modelScheduler \<Rightarrow> modelScheduler" where
  "removeEntryLocked authID m =
     (if authID = [] then m
      else if \<not> has_key (sh_entries m) authID then m
      else rebuildIndexesLocked (m\<lparr>sh_entries := AList.delete authID (sh_entries m)\<rparr>))"

text \<open>The loop of \<open>promoteExpiredLocked\<close> over the blocked queue, and whether it changed an entry.\<close>

fun promoteLoop :: "string \<Rightarrow> go_time \<Rightarrow> string list \<Rightarrow> entries \<times> bool \<Rightarrow> entries \<times> bool" where
  "promoteLoop modelKey now [] acc = acc"
| "promoteLoop modelKey now (ident # ids) (es, changed) =
     (case map_of es ident of
        None \<Rightarrow> promoteLoop modelKey now ids (es, changed)
      | Some entry \<Rightarrow>
          if IsZero (se_nextRetryAt entry) \<or> se_nextRetryAt entry > now
          then promoteLoop modelKey now ids (es, changed)
          else let (state, nextRetryAt) = entryState (se_auth entry) modelKey now
               in promoteLoop modelKey now ids
                    (AList.update ident (entry\<lparr>se_state := state, se_nextRetryAt := nextRetryAt\<rparr>) es, True))"

definition promoteExpiredLocked :: "go_time \<Rightarrow> modelScheduler \<Rightarrow> modelScheduler" where
  "promoteExpiredLocked now m =
     (if sh_blocked m = [] then m
      else let (es, changed) = promoteLoop (sh_modelKey m) now (sh_blocked m) (sh_entries m, False)
           in if changed then rebuildIndexesLocked (m\<lparr>sh_entries := es\<rparr>) else m)"

section \<open>Picks\<close>

definition highestReadyPriorityLocked :: "bool \<Rightarrow> (scheduledAuth \<Rightarrow> bool) \<Rightarrow> modelScheduler \<Rightarrow> int option" where
  "highestReadyPriorityLocked preferWebsocket predicate m =
     (let has = (\<lambda>view priority. case map_of (sh_readyByPriority m) priority of
                    None \<Rightarrow> False
                  | Some bucket \<Rightarrow> view_pickFirst (sh_entries m) predicate (view bucket) \<noteq> None);
          ws = (if preferWebsocket then find (has bk_ws) (sh_priorityOrder m) else None)
      in if ws \<noteq> None then ws else find (has bk_all) (sh_priorityOrder m))"

definition pickReadyAtPriorityLocked ::
  "bool \<Rightarrow> int \<Rightarrow> schedulerStrategy \<Rightarrow> (scheduledAuth \<Rightarrow> bool) \<Rightarrow> modelScheduler
    \<Rightarrow> auth option \<times> modelScheduler" where
  "pickReadyAtPriorityLocked preferWebsocket priority strategy predicate m =
     (case map_of (sh_readyByPriority m) priority of
        None \<Rightarrow> (None, m)
      | Some bucket \<Rightarrow>
          (let es = sh_entries m;
               useWs = (preferWebsocket \<and> view_pickFirst es predicate (bk_ws bucket) \<noteq> None);
               view = (if useWs then bk_ws bucket else bk_all bucket);
               (picked, view') =
                 (case strategy of
                    schedulerStrategyFillFirst \<Rightarrow> (view_pickFirst es predicate view, view)
                  | schedulerStrategyWeightedRoundRobin \<Rightarrow> view_pickWeighted es predicate view
                  | _ \<Rightarrow> view_pickRoundRobin es predicate view);
               bucket' = (if useWs then bucket\<lparr>bk_ws := view'\<rparr> else bucket\<lparr>bk_all := view'\<rparr>)
           in (map_option (\<lambda>e. se_auth e) picked,
               m\<lparr>sh_readyByPriority := AList.update priority bucket' (sh_readyByPriority m)\<rparr>)))"

definition pickReadyLocked ::
  "bool \<Rightarrow> schedulerStrategy \<Rightarrow> (scheduledAuth \<Rightarrow> bool) \<Rightarrow> go_time \<Rightarrow> modelScheduler
    \<Rightarrow> auth option \<times> modelScheduler" where
  "pickReadyLocked preferWebsocket strategy predicate now m0 =
     (let m = promoteExpiredLocked now m0
      in case highestReadyPriorityLocked preferWebsocket predicate m of
           None \<Rightarrow> (None, m)
         | Some priorityReady \<Rightarrow> pickReadyAtPriorityLocked preferWebsocket priorityReady strategy predicate m)"

definition readyCountAtPriorityLocked ::
  "bool \<Rightarrow> int \<Rightarrow> (scheduledAuth \<Rightarrow> bool) \<Rightarrow> modelScheduler \<Rightarrow> nat" where
  "readyCountAtPriorityLocked preferWebsocket priority predicate m =
     (case map_of (sh_readyByPriority m) priority of
        None \<Rightarrow> 0
      | Some bucket \<Rightarrow>
          (let view = (if preferWebsocket \<and> view_pickFirst (sh_entries m) predicate (bk_ws bucket) \<noteq> None
                       then bk_ws bucket else bk_all bucket)
           in length (filter predicate (resolve (sh_entries m) (rv_flat view)))))"

section \<open>Errors\<close>

definition availabilitySummaryLocked :: "(scheduledAuth \<Rightarrow> bool) \<Rightarrow> modelScheduler \<Rightarrow> nat \<times> nat \<times> go_time" where
  "availabilitySummaryLocked predicate m =
     foldl (\<lambda>(total, cooldownCount, earliest) entry.
              if \<not> predicate entry then (total, cooldownCount, earliest)
              else if se_state entry \<noteq> scheduledStateCooldown then (total + 1, cooldownCount, earliest)
              else (total + 1, cooldownCount + 1,
                    if \<not> IsZero (se_nextRetryAt entry) \<and> (IsZero earliest \<or> se_nextRetryAt entry < earliest)
                    then se_nextRetryAt entry else earliest))
       (0, 0, 0) (map snd (sh_entries m))"

text \<open>
  A candidate error with its time and the ID of its credential; \<open>None\<close> while there is none. The
  latest wins, the greater ID at equal times.
\<close>

type_synonym candidate_error = "(cause \<times> go_time \<times> string) option"

definition laterError :: "candidate_error \<Rightarrow> cause \<times> go_time \<times> string \<Rightarrow> candidate_error" where
  "laterError latest cand =
     (case (latest, cand) of
        (None, _) \<Rightarrow> Some cand
      | (Some (_, time, authID), (_, curTime, curID)) \<Rightarrow>
          if curTime > time \<or> curTime = time \<and> curID > authID then Some cand else latest)"

definition recordedError :: "Error option \<Rightarrow> string \<Rightarrow> cause option" where
  "recordedError lastError statusMessage =
     (case lastError of
        Some e \<Rightarrow> Some (CauseError e)
      | None \<Rightarrow> if TrimSpace statusMessage \<noteq> [] then Some (CauseText statusMessage) else None)"

definition candidateErrorsLocked ::
  "string \<Rightarrow> (scheduledAuth \<Rightarrow> bool) \<Rightarrow> modelScheduler \<Rightarrow> candidate_error \<times> candidate_error" where
  "candidateErrorsLocked model predicate m =
     (let modelKey = canonicalModelKey model
      in foldl (\<lambda>(modelErr, authErr) entry.
           if \<not> predicate entry then (modelErr, authErr)
           else let a = se_auth entry;
                    state = (case map_of (auth_ModelStates a) model of
                               Some (Some st) \<Rightarrow> Some st
                             | _ \<Rightarrow> (case map_of (auth_ModelStates a) modelKey of
                                       Some (Some st) \<Rightarrow> Some st | _ \<Rightarrow> None));
                    curModelErr = (case state of
                                     None \<Rightarrow> None
                                   | Some st \<Rightarrow> recordedError (ms_LastError st) (ms_StatusMessage st))
                in case (state, curModelErr) of
                     (Some st, Some err) \<Rightarrow>
                       (laterError modelErr
                          (err, if IsZero (ms_UpdatedAt st) then auth_UpdatedAt a else ms_UpdatedAt st, auth_ID a),
                        authErr)
                   | _ \<Rightarrow>
                       (case recordedError (auth_LastError a) (auth_StatusMessage a) of
                          None \<Rightarrow> (modelErr, authErr)
                        | Some err \<Rightarrow> (modelErr, laterError authErr (err, auth_UpdatedAt a, auth_ID a))))
         (None, None) (map snd (sh_entries m)))"

definition latestCandidateErrorWithTimeLocked ::
  "string \<Rightarrow> (scheduledAuth \<Rightarrow> bool) \<Rightarrow> modelScheduler \<Rightarrow> candidate_error" where
  "latestCandidateErrorWithTimeLocked model predicate m =
     (case candidateErrorsLocked model predicate m of
        (Some e, _) \<Rightarrow> Some e
      | (None, authErr) \<Rightarrow> authErr)"

definition unavailableErrorLocked ::
  "string \<Rightarrow> string \<Rightarrow> (scheduledAuth \<Rightarrow> bool) \<Rightarrow> go_time \<Rightarrow> modelScheduler \<Rightarrow> pick_error" where
  "unavailableErrorLocked provider model predicate now m =
     (let (total, cooldownCount, earliest) = availabilitySummaryLocked predicate m;
          lastCandidateErr = map_option fst (latestCandidateErrorWithTimeLocked model predicate m)
      in if total = 0 then PickError ''auth_not_found'' lastCandidateErr
         else if cooldownCount = total \<and> \<not> IsZero earliest
         then let providerForError = (if provider = ''mixed'' then [] else provider);
                  resetIn = time_Sub earliest now
              in newModelCooldownErrorWithCause model providerForError
                   (if resetIn < 0 then 0 else resetIn) lastCandidateErr
         else PickError ''auth_unavailable'' lastCandidateErr)"

end
