(* ===== verification/ShardIndex.thy ===== *)
theory ShardIndex
  imports Shard
begin

text \<open>
  The indexes of a model shard agree with its entries: the invariant of \<open>modelScheduler\<close> and its
  preservation by every operation. \<open>upsertEntryLocked\<close> keeps the indexes when the change of an entry
  cannot move it; the invariant shows that this is the same as rebuilding them.
\<close>

section \<open>The invariant\<close>

definition entries_ok :: "entries \<Rightarrow> bool" where
  "entries_ok es \<longleftrightarrow> wf_map es \<and> (\<forall>(k, e) \<in> set es. se_id e = k \<and> k \<noteq> [])"

definition ids_where :: "(scheduledAuth \<Rightarrow> bool) \<Rightarrow> entries \<Rightarrow> string list" where
  "ids_where P es = sort (map fst (filter (\<lambda>(k, e). P e) es))"

definition ready_at :: "int \<Rightarrow> scheduledAuth \<Rightarrow> bool" where
  "ready_at p e \<longleftrightarrow> se_state e = scheduledStateReady \<and> sm_priority (se_meta e) = p"

definition ready_ws_at :: "int \<Rightarrow> scheduledAuth \<Rightarrow> bool" where
  "ready_ws_at p e \<longleftrightarrow> ready_at p e \<and> sm_websocketEnabled (se_meta e)"

definition waiting :: "scheduledAuth \<Rightarrow> bool" where
  "waiting e \<longleftrightarrow> se_state e = scheduledStateCooldown \<or> se_state e = scheduledStateBlocked"

definition bucket_ok :: "entries \<Rightarrow> int \<Rightarrow> readyBucket \<Rightarrow> bool" where
  "bucket_ok es p b \<longleftrightarrow> rv_flat (bk_all b) = ids_where (ready_at p) es \<and> rv_flat (bk_ws b) = ids_where (ready_ws_at p) es"

definition indexes_ok :: "modelScheduler \<Rightarrow> bool" where
  "indexes_ok m \<longleftrightarrow>
     wf_map (sh_readyByPriority m) \<and>
     (\<forall>p. has_key (sh_readyByPriority m) p \<longleftrightarrow> ids_where (ready_at p) (sh_entries m) \<noteq> []) \<and>
     (\<forall>(p, b) \<in> set (sh_readyByPriority m). bucket_ok (sh_entries m) p b) \<and>
     sh_priorityOrder m = rev (sort (map fst (sh_readyByPriority m))) \<and>
     mset (sh_blocked m) = mset (ids_where waiting (sh_entries m))"

definition shard_ok :: "modelScheduler \<Rightarrow> bool" where
  "shard_ok m \<longleftrightarrow> entries_ok (sh_entries m) \<and> indexes_ok m"

section \<open>Lists of IDs\<close>

lemma map_sort_key: "map f (sort_key f xs) = sort (map f xs)"
proof (rule properties_for_sort[symmetric])
  show "mset (map f (sort_key f xs)) = mset (map f xs)" unfolding mset_map by simp
qed simp

lemma sort_key_Nil_iff [simp]: "sort_key f xs = [] \<longleftrightarrow> xs = []"
  by (metis set_empty set_sort)

lemma sorted_ids [simp]: "sorted (ids_where P es)"
  by (simp add: ids_where_def)

lemma set_ids_where: "set (ids_where P es) = {k. \<exists>e. (k, e) \<in> set es \<and> P e}"
  by (force simp: ids_where_def)

lemma distinct_ids: "wf_map es \<Longrightarrow> distinct (ids_where P es)"
  by (simp add: ids_where_def distinct_map inj_on_subset[where A = "set es"])

lemma entry_ids:
  assumes "entries_ok es"
  shows "map (\<lambda>e. se_id e) (filter P (map snd es)) = map fst (filter (\<lambda>(k, e). P e) es)"
proof -
  have "\<forall>(k, e) \<in> set es. se_id e = k" using assms by (auto simp: entries_ok_def)
  then show ?thesis by (induction es) auto
qed

lemma ids_where_update:
  assumes "map_of es k = Some old" "P old = P new"
  shows "ids_where P (AList.update k new es) = ids_where P es"
proof -
  have "map fst (filter (\<lambda>(k, e). P e) (AList.update k new es)) = map fst (filter (\<lambda>(k, e). P e) es)"
    using assms by (induction es) (auto split: if_splits)
  then show ?thesis by (simp add: ids_where_def)
qed

section \<open>Rebuilding\<close>

lemma priorityBuckets_fold:
  assumes "wf_map m" "\<forall>p. has_key m p \<longleftrightarrow> map_get [] m p \<noteq> []"
  shows "let m' = foldl (\<lambda>m entry. if se_state entry = scheduledStateReady
                      then AList.update (sm_priority (se_meta entry))
                             (map_get [] m (sm_priority (se_meta entry)) @ [entry]) m
                      else m) m xs
    in wf_map m' \<and> (\<forall>p. has_key m' p \<longleftrightarrow> map_get [] m' p \<noteq> []) \<and>
       (\<forall>p. map_get [] m' p = map_get [] m p @ filter (ready_at p) xs)"
  using assms
proof (induction xs arbitrary: m)
  case (Cons x xs)
  let ?m = "if se_state x = scheduledStateReady
    then AList.update (sm_priority (se_meta x)) (map_get [] m (sm_priority (se_meta x)) @ [x]) m else m"
  have "wf_map ?m" "\<forall>p. has_key ?m p \<longleftrightarrow> map_get [] ?m p \<noteq> []"
    using Cons.prems by (auto intro: wf_map_update)
  from Cons.IH[OF this] show ?case
    by (auto simp: Let_def ready_at_def)
qed simp

lemma priorityBuckets_spec:
  "wf_map (priorityBuckets xs)"
  "has_key (priorityBuckets xs) p \<longleftrightarrow> filter (ready_at p) xs \<noteq> []"
  "map_get [] (priorityBuckets xs) p = filter (ready_at p) xs"
  using priorityBuckets_fold[of "[]" xs] by (simp_all add: priorityBuckets_def Let_def)

lemma restore_flat [simp]: "rv_flat (restoreReadyViewCursors es v c) = rv_flat v"
  by (simp add: restoreReadyViewCursors_def Let_def)

lemma rebuildBucket_flat:
  "rv_flat (bk_all (rebuildBucket es cs p members)) = sort (map (\<lambda>e. se_id e) members)"
  "rv_flat (bk_ws (rebuildBucket es cs p members)) =
     sort (map (\<lambda>e. se_id e) (filter (\<lambda>e. sm_websocketEnabled (se_meta e)) members))"
  by (simp_all add: rebuildBucket_def Let_def buildReadyBucket_def buildReadyView_def map_sort_key filter_sort
      split: option.splits)

lemma rebuild_entries [simp]: "sh_entries (rebuildIndexesLocked m) = sh_entries m"
  "sh_modelKey (rebuildIndexesLocked m) = sh_modelKey m"
  by (simp_all add: rebuildIndexesLocked_def Let_def)

lemma rebuild_ok:
  assumes "entries_ok (sh_entries m)"
  shows "indexes_ok (rebuildIndexesLocked m)"
proof -
  let ?es = "sh_entries m" and ?xs = "map snd (sh_entries m)"
  define cs where "cs = map (\<lambda>(priority, bucket).
            (priority, \<lparr>bc_all = snapshotReadyViewCursors (bk_all bucket),
                        bc_ws = snapshotReadyViewCursors (bk_ws bucket)\<rparr>)) (sh_readyByPriority m)"
  have ready: "sh_readyByPriority (rebuildIndexesLocked m) =
      map (\<lambda>(p, members). (p, rebuildBucket ?es cs p members)) (priorityBuckets ?xs)"
    by (simp add: rebuildIndexesLocked_def Let_def cs_def)
  have keys: "map fst (sh_readyByPriority (rebuildIndexesLocked m)) = map fst (priorityBuckets ?xs)"
    unfolding ready by (simp add: case_prod_unfold comp_def)
  have ids: "sort (map (\<lambda>e. se_id e) (filter P ?xs)) = ids_where P ?es" for P
    using entry_ids[OF assms] by (simp add: ids_where_def)
  have "has_key (sh_readyByPriority (rebuildIndexesLocked m)) p \<longleftrightarrow> ids_where (ready_at p) ?es \<noteq> []" for p
  proof -
    have "has_key (sh_readyByPriority (rebuildIndexesLocked m)) p \<longleftrightarrow> has_key (priorityBuckets ?xs) p"
      unfolding has_key_iff using arg_cong[OF keys, of set] by simp
    also have "\<dots> \<longleftrightarrow> ids_where (ready_at p) ?es \<noteq> []"
      unfolding priorityBuckets_spec(2) ids[symmetric] sort_key_Nil_iff map_is_Nil_conv ..
    finally show ?thesis .
  qed
  moreover have "bucket_ok ?es p b" if pb: "(p, b) \<in> set (sh_readyByPriority (rebuildIndexesLocked m))" for p b
  proof -
    obtain members where mem: "(p, members) \<in> set (priorityBuckets ?xs)" "b = rebuildBucket ?es cs p members"
    proof -
      obtain x where "x \<in> set (priorityBuckets ?xs)"
        "(p, b) = (case x of (p, members) \<Rightarrow> (p, rebuildBucket ?es cs p members))"
        using pb unfolding ready set_map by blast
      then show thesis by (intro that[of "snd x"]) (auto split: prod.splits)
    qed
    have "members = filter (ready_at p) ?xs"
      using priorityBuckets_spec(3)[of ?xs p] map_of_SomeI[OF priorityBuckets_spec(1) mem(1)]
      by (simp add: map_get_def)
    moreover have "filter (\<lambda>e. sm_websocketEnabled (se_meta e)) (filter (ready_at p) ?xs) = filter (ready_ws_at p) ?xs"
      unfolding filter_filter by (rule filter_cong) (auto simp: ready_ws_at_def)
    ultimately show ?thesis
      unfolding mem(2) bucket_ok_def rebuildBucket_flat
      using ids[of "ready_at p"] ids[of "ready_ws_at p"] by simp
  qed
  moreover have "sh_priorityOrder (rebuildIndexesLocked m) = rev (sort (map fst (sh_readyByPriority (rebuildIndexesLocked m))))"
    unfolding keys by (simp add: rebuildIndexesLocked_def Let_def)
  moreover have "mset (sh_blocked (rebuildIndexesLocked m)) = mset (ids_where waiting ?es)"
    using arg_cong[OF ids[of waiting], of mset]
    by (simp add: rebuildIndexesLocked_def Let_def waiting_def)
  ultimately show ?thesis
    using priorityBuckets_spec(1)[of ?xs] keys unfolding indexes_ok_def by auto
qed

lemma rebuild_shard_ok: "entries_ok (sh_entries m) \<Longrightarrow> shard_ok (rebuildIndexesLocked m)"
  by (simp add: shard_ok_def rebuild_ok)

section \<open>Preservation\<close>

lemma entries_ok_alt:
  "entries_ok es \<longleftrightarrow> wf_map es \<and> (\<forall>k e. map_of es k = Some e \<longrightarrow> se_id e = k \<and> k \<noteq> [])"
  by (auto simp: entries_ok_def dest: map_of_SomeD map_of_SomeI)

lemma entries_ok_update:
  "entries_ok es \<Longrightarrow> se_id e = k \<Longrightarrow> k \<noteq> [] \<Longrightarrow> entries_ok (AList.update k e es)"
  by (auto simp: entries_ok_alt map_of_update wf_map_update)

lemma entries_ok_delete: "entries_ok es \<Longrightarrow> entries_ok (AList.delete k es)"
  by (auto simp: entries_ok_alt map_of_delete wf_map_delete)

lemma upsert_shard_ok:
  assumes "shard_ok m" "auth_ID (sm_auth meta) \<noteq> []"
  shows "shard_ok (upsertEntryLocked meta now m)"
proof -
  obtain st nx where st: "entryState (sm_auth meta) (sh_modelKey m) now = (st, nx)" by force
  let ?id = "auth_ID (sm_auth meta)"
  let ?new = "\<lparr>se_meta = meta, se_state = st, se_nextRetryAt = nx\<rparr>"
  let ?m = "m\<lparr>sh_entries := AList.update ?id ?new (sh_entries m)\<rparr>"
  have es: "entries_ok (sh_entries ?m)"
    using assms by (simp add: shard_ok_def entries_ok_update)
  show ?thesis
  proof (cases "\<exists>old. map_of (sh_entries m) ?id = Some old \<and> se_state old = st \<and> se_nextRetryAt old = nx \<and>
      sm_priority (se_meta old) = sm_priority meta \<and> sm_websocketEnabled (se_meta old) = sm_websocketEnabled meta")
    case True
    then obtain old where old: "map_of (sh_entries m) ?id = Some old" "se_state old = st"
      "sm_priority (se_meta old) = sm_priority meta" "sm_websocketEnabled (se_meta old) = sm_websocketEnabled meta" by blast
    have same: "ids_where (ready_at p) (sh_entries ?m) = ids_where (ready_at p) (sh_entries m)"
      "ids_where (ready_ws_at p) (sh_entries ?m) = ids_where (ready_ws_at p) (sh_entries m)"
      "ids_where waiting (sh_entries ?m) = ids_where waiting (sh_entries m)" for p
      using old by (simp_all add: ids_where_update ready_at_def ready_ws_at_def waiting_def)
    have "indexes_ok ?m"
      using assms(1) unfolding shard_ok_def indexes_ok_def bucket_ok_def same by simp
    moreover have "upsertEntryLocked meta now m = ?m"
      using True st by (auto simp: upsertEntryLocked_def Let_def)
    ultimately show ?thesis using es by (simp add: shard_ok_def)
  next
    case False
    then have "upsertEntryLocked meta now m = rebuildIndexesLocked ?m"
      using st by (auto simp: upsertEntryLocked_def Let_def split: option.splits)
    then show ?thesis using rebuild_shard_ok[OF es] by simp
  qed
qed

lemma remove_shard_ok: "shard_ok m \<Longrightarrow> shard_ok (removeEntryLocked authID m)"
  by (simp add: removeEntryLocked_def shard_ok_def entries_ok_delete rebuild_ok)

lemma promoteLoop_entries_ok:
  "entries_ok es \<Longrightarrow> entries_ok (fst (promoteLoop k now ids (es, ch)))"
proof (induction k now ids "(es, ch)" arbitrary: es ch rule: promoteLoop.induct)
  case (2 k now ident ids es ch)
  show ?case
  proof (cases "map_of es ident")
    case None
    with 2 show ?thesis by simp
  next
    case (Some e)
    obtain st nx where st: "entryState (se_auth e) k now = (st, nx)" by force
    have "se_id e = ident" "ident \<noteq> []" using 2(4) Some by (auto simp: entries_ok_alt)
    then have "entries_ok (AList.update ident (e\<lparr>se_state := st, se_nextRetryAt := nx\<rparr>) es)"
      using 2(4) by (intro entries_ok_update) simp_all
    with 2 Some st show ?thesis by auto
  qed
qed simp

lemma promote_shard_ok: "shard_ok m \<Longrightarrow> shard_ok (promoteExpiredLocked now m)"
  using promoteLoop_entries_ok[of "sh_entries m" "sh_modelKey m" now "sh_blocked m" False]
  by (auto simp: promoteExpiredLocked_def shard_ok_def rebuild_ok split: prod.splits)

text \<open>A pick moves a cursor or credits, never an index.\<close>

lemma view_picks_flat [simp]:
  "rv_flat (snd (view_pickRoundRobin es pred v)) = rv_flat v"
  "rv_flat (snd (view_pickWeighted es pred v)) = rv_flat v"
  by (simp_all add: view_pickRoundRobin_def view_pickWeighted_def Let_def split: option.splits prod.splits)

definition pick_in_view ::
  "schedulerStrategy \<Rightarrow> entries \<Rightarrow> (scheduledAuth \<Rightarrow> bool) \<Rightarrow> readyView \<Rightarrow> scheduledAuth option \<times> readyView" where
  "pick_in_view strategy es predicate view =
     (case strategy of
        schedulerStrategyFillFirst \<Rightarrow> (view_pickFirst es predicate view, view)
      | schedulerStrategyWeightedRoundRobin \<Rightarrow> view_pickWeighted es predicate view
      | _ \<Rightarrow> view_pickRoundRobin es predicate view)"

lemma pick_in_view_flat [simp]: "rv_flat (snd (pick_in_view strategy es pred v)) = rv_flat v"
  by (simp add: pick_in_view_def split: schedulerStrategy.splits)

lemma pickAt_alt:
  "pickReadyAtPriorityLocked ws p strategy pred m =
     (case map_of (sh_readyByPriority m) p of
        None \<Rightarrow> (None, m)
      | Some b \<Rightarrow>
          (let useWs = (ws \<and> view_pickFirst (sh_entries m) pred (bk_ws b) \<noteq> None);
               r = pick_in_view strategy (sh_entries m) pred (if useWs then bk_ws b else bk_all b)
           in (map_option (\<lambda>e. se_auth e) (fst r),
               m\<lparr>sh_readyByPriority := AList.update p
                   (if useWs then b\<lparr>bk_ws := snd r\<rparr> else b\<lparr>bk_all := snd r\<rparr>) (sh_readyByPriority m)\<rparr>)))"
  unfolding pickReadyAtPriorityLocked_def pick_in_view_def[symmetric] Let_def case_prod_unfold ..

lemma pickAt_entries [simp]:
  "sh_entries (snd (pickReadyAtPriorityLocked ws p strategy pred m)) = sh_entries m"
  "sh_modelKey (snd (pickReadyAtPriorityLocked ws p strategy pred m)) = sh_modelKey m"
  by (simp_all add: pickAt_alt Let_def split: option.splits)

lemma pickAt_shard_ok:
  assumes "shard_ok m" shows "shard_ok (snd (pickReadyAtPriorityLocked ws p strategy pred m))"
proof (cases "map_of (sh_readyByPriority m) p")
  case None
  with assms show ?thesis by (simp add: pickAt_alt)
next
  case (Some b)
  let ?m = "snd (pickReadyAtPriorityLocked ws p strategy pred m)"
  define useWs where "useWs = (ws \<and> view_pickFirst (sh_entries m) pred (bk_ws b) \<noteq> None)"
  define r where "r = pick_in_view strategy (sh_entries m) pred (if useWs then bk_ws b else bk_all b)"
  define b' where "b' = (if useWs then b\<lparr>bk_ws := snd r\<rparr> else b\<lparr>bk_all := snd r\<rparr>)"
  have b': "sh_readyByPriority ?m = AList.update p b' (sh_readyByPriority m)"
    "rv_flat (bk_all b') = rv_flat (bk_all b)" "rv_flat (bk_ws b') = rv_flat (bk_ws b)"
    and rest: "sh_priorityOrder ?m = sh_priorityOrder m" "sh_blocked ?m = sh_blocked m"
    unfolding pickAt_alt Some option.case Let_def useWs_def[symmetric] r_def[symmetric] b'_def[symmetric]
    by (simp_all add: b'_def r_def)
  have wf: "wf_map (sh_readyByPriority m)" and ok: "\<forall>(q, b) \<in> set (sh_readyByPriority m). bucket_ok (sh_entries m) q b"
    using assms by (simp_all add: shard_ok_def indexes_ok_def)
  have pb: "(p, b) \<in> set (sh_readyByPriority m)" using Some by (rule map_of_SomeD)
  have "map fst (sh_readyByPriority ?m) = map fst (sh_readyByPriority m)"
    using pb by (simp add: b'(1) update_keys) force
  moreover have "bucket_ok (sh_entries m) q c" if "(q, c) \<in> set (sh_readyByPriority ?m)" for q c
  proof -
    have "map_of (sh_readyByPriority ?m) q = Some c"
      using that wf by (intro map_of_SomeI) (simp_all add: b'(1) wf_map_update)
    then have "(q, c) = (p, b') \<or> (q, c) \<in> set (sh_readyByPriority m)"
      by (auto simp: b'(1) map_of_update dest: map_of_SomeD split: if_splits)
    then show ?thesis using ok pb b'(2,3) by (auto simp: bucket_ok_def)
  qed
  moreover from calculation(1) have "has_key (sh_readyByPriority ?m) q \<longleftrightarrow> has_key (sh_readyByPriority m) q" for q
    unfolding has_key_iff by (metis list.set_map)
  ultimately have "indexes_ok ?m"
    using assms wf rest unfolding shard_ok_def indexes_ok_def pickAt_entries by auto
  then show ?thesis using assms by (simp add: shard_ok_def)
qed

lemma pick_shard_ok: "shard_ok m \<Longrightarrow> shard_ok (snd (pickReadyLocked ws strategy pred now m))"
  by (simp add: pickReadyLocked_def Let_def promote_shard_ok pickAt_shard_ok split: option.splits)

text \<open>C35. The indexes of a shard always agree with its entries: the view of each priority lists, in
  order of ID, exactly the ready entries of that priority (and its websocket view those with
  websockets), the priorities are listed in descending order, the blocked queue holds exactly the
  waiting entries. Upserts, including those that skip the rebuild, removals, promotions and picks
  all preserve this.\<close>

theorem shard_indexes_invariant:
  assumes "shard_ok m" and "auth_ID (sm_auth meta) \<noteq> []"
  shows "shard_ok (upsertEntryLocked meta now m) \<and> shard_ok (removeEntryLocked authID m) \<and>
    shard_ok (promoteExpiredLocked now m) \<and> shard_ok (snd (pickReadyLocked ws strategy pred now m))"
  using assms by (simp add: upsert_shard_ok remove_shard_ok promote_shard_ok pick_shard_ok)

definition emptyShard :: "string \<Rightarrow> modelScheduler" where
  "emptyShard modelKey = \<lparr>sh_modelKey = modelKey, sh_entries = [], sh_priorityOrder = [],
     sh_readyByPriority = [], sh_blocked = []\<rparr>"

lemma emptyShard_ok [simp]: "shard_ok (emptyShard k)"
  by (simp add: shard_ok_def entries_ok_def indexes_ok_def emptyShard_def ids_where_def)

definition sample_meta :: "auth \<Rightarrow> scheduledAuthMeta" where
  "sample_meta a = \<lparr>sm_auth = a, sm_providerKey = auth_Provider a, sm_priority = authPriority (Some a),
     sm_weight = authWeight (Some a), sm_websocketEnabled = authWebsocketsEnabled (Some a),
     sm_supportedModelSet = [''m'']\<rparr>"

definition sample_shard :: modelScheduler where
  "sample_shard = upsertEntryLocked (sample_meta (sample_auth ''b'' ''claude'')) 5
     (upsertEntryLocked (sample_meta cooling_auth) 5 (emptyShard ''m''))"

lemma sample_shard_ok: "shard_ok sample_shard"
  unfolding sample_shard_def
  by (intro upsert_shard_ok) (simp_all add: sample_meta_def sample_auth_def cooling_auth_def)

theorem shard_indexes_invariant_witness:
  "shard_ok (upsertEntryLocked (sample_meta (sample_auth ''c'' ''claude'')) 6 sample_shard) \<and>
    shard_ok (removeEntryLocked ''b'' sample_shard) \<and> shard_ok (promoteExpiredLocked 60 sample_shard) \<and>
    shard_ok (snd (pickReadyLocked False schedulerStrategyRoundRobin (\<lambda>_. True) 60 sample_shard))"
  using shard_indexes_invariant[OF sample_shard_ok, of "sample_meta (sample_auth ''c'' ''claude'')"] 
    shard_indexes_invariant[OF sample_shard_ok, of "sample_meta (sample_auth ''c'' ''claude'')" 60]
  by (simp add: sample_meta_def sample_auth_def)

end
