(* ===== verification/ShardPicks.thy ===== *)
theory ShardPicks
  imports ShardIndex
begin

text \<open>
  What the picks of a model shard return. The incremental shard is related to its specification, the
  selectors of theory Selectors applied to the credentials of the shard: after promotion, at any
  time not before the last evaluation, the ready entries are exactly the credentials the selector
  would find free, and each strategy picks what the selector picks.
\<close>

section \<open>Views resolve to the ready entries\<close>

definition ready_list :: "entries \<Rightarrow> int \<Rightarrow> scheduledAuth list" where
  "ready_list es p = sort_key (\<lambda>e. se_id e) (filter (ready_at p) (map snd es))"

lemma entries_distinct: "entries_ok es \<Longrightarrow> distinct (map (\<lambda>e. se_id e) (map snd es))"
proof -
  assume "entries_ok es"
  from entry_ids[OF this, of "\<lambda>_. True"] this
  have "map (\<lambda>e. se_id e) (map snd es) = map fst es" "wf_map es"
    unfolding entries_ok_def filter_True[of es "\<lambda>(k, e). True", simplified] by simp_all
  then show ?thesis by metis
qed

lemma entries_lookup: "entries_ok es \<Longrightarrow> e \<in> snd ` set es \<Longrightarrow> map_of es (se_id e) = Some e"
  by (auto simp: entries_ok_def intro!: map_of_SomeI)

lemma resolve_ids:
  assumes "entries_ok es"
  shows "resolve es (ids_where P es) = sort_key (\<lambda>e. se_id e) (filter P (map snd es))"
proof -
  have "ids_where P es = map (\<lambda>e. se_id e) (sort_key (\<lambda>e. se_id e) (filter P (map snd es)))"
    using entry_ids[OF assms] by (simp add: map_sort_key ids_where_def)
  moreover have "List.map_filter (map_of es) (map (\<lambda>e. se_id e) xs) = xs" if "set xs \<subseteq> snd ` set es" for xs
    using that entries_lookup[OF assms] by (induction xs) (auto simp: map_filter_simps)
  ultimately show ?thesis by (auto simp: resolve_def)
qed

lemma resolve_all: "entries_ok es \<Longrightarrow> bucket_ok es p b \<Longrightarrow> resolve es (rv_flat (bk_all b)) = ready_list es p"
  by (simp add: bucket_ok_def resolve_ids ready_list_def)

lemma ready_list_ring:
  assumes "entries_ok es" shows "ring_ok (\<lambda>e. se_id e) (ready_list es p)"
  unfolding ready_list_def
proof (rule sorted_ring[OF entries_distinct[OF assms]])
  show "\<forall>x \<in> set (map snd es). se_id x \<noteq> []" using assms by (auto simp: entries_ok_def)
  have "distinct (map snd es)" using entries_distinct[OF assms] distinct_map[of _ "map snd es"] by blast
  then show "distinct (filter (ready_at p) (map snd es))" by simp
qed auto

section \<open>The rotation of a view\<close>

definition scheduled_next :: "scheduledAuth list \<Rightarrow> string \<Rightarrow> scheduledAuth option" where
  "scheduled_next xs lastID = (if xs = [] then None else Some (xs ! scheduledSuccessorIndex xs lastID))"

interpretation srr: rotation "\<lambda>e :: scheduledAuth. se_id e" scheduled_next
proof
  fix xs :: "scheduledAuth list" and lastID
  assume ok: "ring_ok (\<lambda>e. se_id e) xs"
  show "scheduled_next xs lastID = ring_next (\<lambda>e. se_id e) xs lastID"
  proof (cases "xs = [] \<or> lastID = []")
    case True
    then show ?thesis
      using ok by (cases xs) (auto simp: scheduled_next_def ring_next_def scheduledSuccessorIndex_def ring_ok_def)
  next
    case False
    then show ?thesis
      using search_find[of "\<lambda>e. se_id e" xs lastID] ok
      by (cases xs) (auto simp: scheduled_next_def ring_next_def scheduledSuccessorIndex_def ring_ok_def Let_def)
  qed
qed

lemma find_map: "find P (map f xs) = map_option f (find (\<lambda>x. P (f x)) xs)"
  by (induction xs) auto

lemma find_append: "find P (xs @ ys) = (case find P xs of Some x \<Rightarrow> Some x | None \<Rightarrow> find P ys)"
  by (induction xs) auto

lemma find_filter: "find P (filter Q xs) = find (\<lambda>x. Q x \<and> P x) xs"
  by (induction xs) auto

lemma find_hd: "find P xs = (case filter P xs of [] \<Rightarrow> None | x # _ \<Rightarrow> Some x)"
  by (induction xs) auto

lemma filter_after:
  assumes "sorted_wrt (\<lambda>x y. ident x < (ident y :: string)) xs"
  shows "filter (\<lambda>x. ident x > lastID) xs = drop (sort_Search (length xs) (\<lambda>i. ident (xs ! i) > lastID)) xs"
proof -
  let ?f = "\<lambda>i. ident (xs ! i) > lastID"
  let ?n = "sort_Search (length xs) ?f"
  have mono: "\<forall>a b. a \<le> b \<and> b < length xs \<and> ?f a \<longrightarrow> ?f b"
  proof (intro allI impI)
    fix a b assume ab: "a \<le> b \<and> b < length xs \<and> ?f a"
    then have "a = b \<or> ident (xs ! a) < ident (xs ! b)"
      using assms by (cases "a = b") (auto simp: sorted_wrt_iff_nth_less)
    with ab show "?f b" by (metis less_trans)
  qed
  have spec: "\<forall>k < ?n. \<not> ?f k" "\<forall>k. ?n \<le> k \<and> k < length xs \<longrightarrow> ?f k"
    using sort_Search_spec[OF mono] by blast+
  have "filter (\<lambda>x. ident x > lastID) (take ?n xs) = []"
    using spec(1) by (auto simp: filter_empty_conv in_set_conv_nth)
  moreover have "filter (\<lambda>x. ident x > lastID) (drop ?n xs) = drop ?n xs"
    using spec(2) by (auto simp: filter_id_conv in_set_conv_nth)
  ultimately show ?thesis
    by (metis append_Nil append_take_drop_id filter_append)
qed

text \<open>
  Walking the whole view from the successor and skipping what the predicate excludes is the rotation
  of the eligible entries alone.
\<close>

lemma ring_walk:
  assumes "ring_ok (\<lambda>e. se_id e) flat" "flat \<noteq> []"
  shows "map_option (\<lambda>offset. flat ! ((scheduledSuccessorIndex flat lastID + offset) mod length flat))
      (find (\<lambda>offset. pred (flat ! ((scheduledSuccessorIndex flat lastID + offset) mod length flat))) [0..<length flat])
    = ring_next (\<lambda>e. se_id e) (filter pred flat) lastID"
proof -
  let ?s = "scheduledSuccessorIndex flat lastID"
  let ?n = "sort_Search (length flat) (\<lambda>i. se_id (flat ! i) > lastID)"
  have s: "?s < length flat" using assms(2) by (auto simp: scheduledSuccessorIndex_def Let_def)
  have "map (\<lambda>offset. flat ! ((?s + offset) mod length flat)) [0..<length flat] = rotate ?s flat"
    by (rule nth_equalityI) (simp_all add: nth_rotate)
  then have rot: "map (\<lambda>offset. flat ! ((?s + offset) mod length flat)) [0..<length flat] = drop ?s flat @ take ?s flat"
    using s by (simp add: rotate_drop_take)
  have walk: "map_option (\<lambda>offset. flat ! ((?s + offset) mod length flat))
      (find (\<lambda>offset. pred (flat ! ((?s + offset) mod length flat))) [0..<length flat]) =
      find pred (drop ?s flat @ take ?s flat)"
    unfolding rot[symmetric] find_map ..
  have srt: "sorted_wrt (\<lambda>x y. se_id x < se_id y) flat" using assms(1) by (simp add: ring_ok_def)
  have gt: "find (\<lambda>e. se_id e > lastID) (filter pred flat) = find pred (drop ?n flat)"
    unfolding filter_after[OF srt, symmetric] find_filter by (rule arg_cong[where f = "\<lambda>P. find P flat"]) auto
  have hd: "(case filter pred flat of [] \<Rightarrow> None | x # _ \<Rightarrow> Some x) = find pred flat" by (simp add: find_hd)
  show ?thesis
  proof (cases "lastID = [] \<or> length flat \<le> ?n")
    case True
    then have "?s = 0" by (auto simp: scheduledSuccessorIndex_def Let_def)
    moreover have "ring_next (\<lambda>e. se_id e) (filter pred flat) lastID = find pred flat"
    proof (cases "lastID = []")
      case True
      have "find (\<lambda>e. se_id e > []) (filter pred flat) = find pred flat"
        using assms(1) unfolding find_filter by (intro find_cong) (auto simp: ring_ok_def)
      with True hd show ?thesis by (simp add: ring_next_def split: option.splits)
    next
      case False
      with True gt hd show ?thesis by (simp add: ring_next_def)
    qed
    ultimately show ?thesis unfolding walk by simp
  next
    case False
    then have sn: "?s = ?n" by (simp add: scheduledSuccessorIndex_def Let_def)
    have "find pred flat = (case find pred (take ?n flat) of Some x \<Rightarrow> Some x | None \<Rightarrow> find pred (drop ?n flat))"
      using find_append[of pred "take ?n flat" "drop ?n flat"] by simp
    then show ?thesis
      unfolding walk unfolding sn find_append using gt hd by (auto simp: ring_next_def split: option.splits)
  qed
qed

lemma view_pickRoundRobin_next:
  assumes "ring_ok (\<lambda>e. se_id e) (resolve es (rv_flat v))"
  shows "view_pickRoundRobin es pred v =
    (case scheduled_next (filter pred (resolve es (rv_flat v))) (rv_lastPicked v) of
       None \<Rightarrow> (None, v) | Some e \<Rightarrow> (Some e, v\<lparr>rv_lastPicked := se_id e\<rparr>))"
proof (cases "resolve es (rv_flat v) = []")
  case True
  then show ?thesis by (simp add: view_pickRoundRobin_def scheduled_next_def)
next
  case False
  show ?thesis
    unfolding srr.next_pick_ring[OF ring_filter[OF assms]] ring_walk[OF assms False, symmetric]
    by (auto simp: view_pickRoundRobin_def Let_def False split: option.splits)
qed

lemma view_pickWeighted_select:
  "resolve es (rv_flat v) \<noteq> [] \<Longrightarrow> view_pickWeighted es pred v =
     (case smoothSelect (\<lambda>e. se_id e) (\<lambda>e. se_weight e) (filter pred (resolve es (rv_flat v))) (rv_weightedState v) of
        (picked, st) \<Rightarrow> (picked, v\<lparr>rv_weightedState := st\<rparr>))"
  by (simp add: view_pickWeighted_def smoothSelect_def scheduledWeightVectorMatching_def
      pickSmoothWeightedScheduled_def Let_def split: prod.splits)

section \<open>The states are those of the present\<close>

text \<open>
  \<open>timely now m\<close>: the state of every entry was computed by \<open>entryState\<close> at some time not after
  \<open>now\<close>. Then, after promotion at \<open>now\<close>, the ready entries are exactly the credentials that are
  free at \<open>now\<close>, although most of them were not evaluated again.
\<close>

definition timely :: "go_time \<Rightarrow> modelScheduler \<Rightarrow> bool" where
  "timely now m \<longleftrightarrow>
     (\<forall>e \<in> snd ` set (sh_entries m). \<exists>t. 0 \<le> t \<and> t \<le> now \<and>
        entryState (se_auth e) (sh_modelKey m) t = (se_state e, se_nextRetryAt e))"

definition metas_ok :: "modelScheduler \<Rightarrow> bool" where
  "metas_ok m \<longleftrightarrow>
     (\<forall>e \<in> snd ` set (sh_entries m).
        sm_priority (se_meta e) = authPriority (Some (se_auth e)) \<and>
        sm_weight (se_meta e) = authWeight (Some (se_auth e)) \<and>
        sm_websocketEnabled (se_meta e) = authWebsocketsEnabled (Some (se_auth e)))"

lemma entryState_free:
  "entryState a k now = (st, nx) \<Longrightarrow> st = scheduledStateReady \<longleftrightarrow> free_now k now a"
  by (auto simp: entryState_def free_now_def split: prod.splits if_splits)

lemma entryState_later:
  assumes "0 \<le> t" "t \<le> now" "entryState a k t = (st, nx)"
  shows "st = scheduledStateReady \<Longrightarrow> free_now k now a"
    and "st \<noteq> scheduledStateReady \<Longrightarrow> nx = 0 \<or> now < nx \<Longrightarrow> \<not> free_now k now a"
proof -
  obtain b r n where v: "isAuthBlockedForModel (Some a) k t = (b, r, n)"
    by (cases "isAuthBlockedForModel (Some a) k t")
  have over: "\<not> b \<longrightarrow> \<not> fst (isAuthBlockedForModel (Some a) k now)"
    "b \<and> (n = 0 \<or> now < n) \<longrightarrow> fst (isAuthBlockedForModel (Some a) k now)"
    using isAuthBlocked_over_time[OF assms(1,2) v] by blast+
  show "st = scheduledStateReady \<Longrightarrow> free_now k now a"
    using assms(3) v over(1) by (auto simp: entryState_def free_now_def split: if_splits)
  show "\<not> free_now k now a" if ready: "st \<noteq> scheduledStateReady" and nx: "nx = 0 \<or> now < nx"
  proof -
    have "b" using assms(3) v ready by (auto simp: entryState_def split: if_splits)
    moreover have "n = nx"
      using assms(1,3) v \<open>b\<close> isAuthBlocked_disabled[of t a k b n]
      by (auto simp: entryState_def split: if_splits)
    ultimately show ?thesis using over(2) nx by (auto simp: free_now_def)
  qed
qed

lemma promoteLoop_metas:
  "map (\<lambda>(i, e). (i, se_meta e)) (fst (promoteLoop k now ids (es, ch))) = map (\<lambda>(i, e). (i, se_meta e)) es"
proof (induction k now ids "(es, ch)" arbitrary: es ch rule: promoteLoop.induct)
  case (2 k now ident ids es ch)
  have upd: "map (\<lambda>(i, e). (i, se_meta e)) (AList.update ident e' xs) = map (\<lambda>(i, e). (i, se_meta e)) xs"
    if "map_of xs ident = Some e" "se_meta e' = se_meta e" for e e' and xs :: entries
    using that by (induction xs) (auto split: if_splits)
  show ?case
  proof (cases "map_of es ident")
    case None
    with 2 show ?thesis by simp
  next
    case (Some e)
    obtain st nx where st: "entryState (se_auth e) k now = (st, nx)" by force
    show ?thesis
      using 2 Some st upd[OF Some, of "e\<lparr>se_state := st, se_nextRetryAt := nx\<rparr>"] by auto
  qed
qed simp

definition expired :: "go_time \<Rightarrow> scheduledAuth \<Rightarrow> bool" where
  "expired now e \<longleftrightarrow> se_nextRetryAt e \<noteq> 0 \<and> se_nextRetryAt e \<le> now"

definition reevaluate :: "string \<Rightarrow> go_time \<Rightarrow> scheduledAuth \<Rightarrow> scheduledAuth" where
  "reevaluate k now e =
     (case entryState (se_auth e) k now of (st, nx) \<Rightarrow> e\<lparr>se_state := st, se_nextRetryAt := nx\<rparr>)"

lemma promoteLoop_step:
  "promoteLoop k now (i # ids) (es, ch) =
     (case map_of es i of
        None \<Rightarrow> promoteLoop k now ids (es, ch)
      | Some e \<Rightarrow> if expired now e then promoteLoop k now ids (AList.update i (reevaluate k now e) es, True)
                  else promoteLoop k now ids (es, ch))"
  by (auto simp: expired_def reevaluate_def split: option.splits prod.splits)

lemma promoteLoop_lookup:
  "distinct ids \<Longrightarrow> map_of (fst (promoteLoop k now ids (es, ch))) i =
     (case map_of es i of
        None \<Rightarrow> None
      | Some e \<Rightarrow> Some (if i \<in> set ids \<and> expired now e then reevaluate k now e else e))"
proof (induction ids arbitrary: es ch)
  case (Cons j ids)
  show ?case
  proof (cases "\<exists>e. map_of es j = Some e \<and> expired now e")
    case True
    then obtain e where e: "map_of es j = Some e" "expired now e" by blast
    with Cons show ?thesis
      unfolding promoteLoop_step by (auto simp: map_of_update split: option.splits)
  next
    case False
    with Cons show ?thesis
      unfolding promoteLoop_step by (auto split: option.splits)
  qed
qed (simp split: option.splits)

lemma promoteLoop_unchanged:
  "\<not> snd (promoteLoop k now ids (es, ch)) \<Longrightarrow> fst (promoteLoop k now ids (es, ch)) = es"
proof (induction ids arbitrary: es ch)
  case (Cons j ids)
  have stays: "snd (promoteLoop k now ids (es', True))" for es'
    by (induction ids arbitrary: es') (auto simp: promoteLoop_step simp del: promoteLoop.simps(2) split: option.splits)
  with Cons show ?case
    by (auto simp: promoteLoop_step simp del: promoteLoop.simps(2) split: option.splits if_splits)
qed simp

lemma promote_entries:
  "sh_entries (promoteExpiredLocked now m) = fst (promoteLoop (sh_modelKey m) now (sh_blocked m) (sh_entries m, False))"
  "sh_modelKey (promoteExpiredLocked now m) = sh_modelKey m"
  using promoteLoop_unchanged[of "sh_modelKey m" now "sh_blocked m" "sh_entries m" False]
  by (auto simp: promoteExpiredLocked_def split: prod.splits)

lemma shard_blocked:
  assumes "shard_ok m"
  shows "distinct (sh_blocked m)" and "set (sh_blocked m) = {k. \<exists>e. (k, e) \<in> set (sh_entries m) \<and> waiting e}"
proof -
  have "mset (sh_blocked m) = mset (ids_where waiting (sh_entries m))" "wf_map (sh_entries m)"
    using assms by (simp_all add: shard_ok_def indexes_ok_def entries_ok_def)
  then show "distinct (sh_blocked m)" "set (sh_blocked m) = {k. \<exists>e. (k, e) \<in> set (sh_entries m) \<and> waiting e}"
    using distinct_ids[of "sh_entries m" waiting] set_ids_where[of waiting "sh_entries m"]
    by (metis mset_eq_imp_distinct_iff, metis mset_eq_setD)
qed

lemma promote_ready_iff_free:
  assumes "shard_ok m" "0 \<le> now" "timely now m" "e \<in> snd ` set (sh_entries (promoteExpiredLocked now m))"
  shows "(se_state e = scheduledStateReady \<longleftrightarrow> free_now (sh_modelKey m) now (se_auth e)) \<and>
    (\<exists>t. 0 \<le> t \<and> t \<le> now \<and> entryState (se_auth e) (sh_modelKey m) t = (se_state e, se_nextRetryAt e))"
proof -
  let ?es = "sh_entries (promoteExpiredLocked now m)"
  have es: "entries_ok ?es" using promote_shard_ok[OF assms(1)] by (simp add: shard_ok_def)
  obtain i where i: "map_of ?es i = Some e" using entries_lookup[OF es] assms(4) by blast
  then obtain e0 where e0: "map_of (sh_entries m) i = Some e0"
    and e: "e = (if i \<in> set (sh_blocked m) \<and> expired now e0 then reevaluate (sh_modelKey m) now e0 else e0)"
    unfolding promote_entries(1) promoteLoop_lookup[OF shard_blocked(1)[OF assms(1)]]
    by (auto split: option.splits)
  have in0: "(i, e0) \<in> set (sh_entries m)" by (rule map_of_SomeD[OF e0])
  show ?thesis
  proof (cases "i \<in> set (sh_blocked m) \<and> expired now e0")
    case True
    obtain st nx where st: "entryState (se_auth e0) (sh_modelKey m) now = (st, nx)" by force
    have "se_state e = st" "se_nextRetryAt e = nx" "se_auth e = se_auth e0"
      using True e st by (simp_all add: reevaluate_def)
    with entryState_free[OF st] st assms(2) show ?thesis by auto
  next
    case False
    then have same: "e = e0" using e by auto
    obtain t where t: "0 \<le> t" "t \<le> now"
      "entryState (se_auth e0) (sh_modelKey m) t = (se_state e0, se_nextRetryAt e0)"
      using assms(3) in0 unfolding timely_def by fastforce
    have "\<not> free_now (sh_modelKey m) now (se_auth e0)" if "se_state e0 \<noteq> scheduledStateReady"
    proof (cases "waiting e0")
      case True
      then have "i \<in> set (sh_blocked m)" using in0 shard_blocked(2)[OF assms(1)] by auto
      then have "se_nextRetryAt e0 = 0 \<or> now < se_nextRetryAt e0" using False by (auto simp: expired_def)
      then show ?thesis using entryState_later(2)[OF t that] by blast
    next
      case False
      then have "se_state e0 = scheduledStateDisabled" using that by (cases "se_state e0") (auto simp: waiting_def)
      then have "se_nextRetryAt e0 = 0" using t(3) by (auto simp: entryState_def split: prod.splits if_splits)
      then show ?thesis using entryState_later(2)[OF t that] by blast
    qed
    with entryState_later(1)[OF t] same t show ?thesis by auto
  qed
qed

section \<open>The candidates of a pick\<close>

lemma highestReady_spec:
  assumes "shard_ok m"
  shows "highestReadyPriorityLocked False pred m =
    (let E = filter (\<lambda>e. se_state e = scheduledStateReady \<and> pred e) (map snd (sh_entries m))
     in if E = [] then None else Some (Max ((\<lambda>e. sm_priority (se_meta e)) ` set E)))"
proof -
  let ?es = "sh_entries m" and ?order = "sh_priorityOrder m"
  let ?E = "filter (\<lambda>e. se_state e = scheduledStateReady \<and> pred e) (map snd ?es)"
  let ?pr = "\<lambda>e. sm_priority (se_meta e)"
  have es: "entries_ok ?es" and wf: "wf_map (sh_readyByPriority m)"
    and dom: "\<And>p. has_key (sh_readyByPriority m) p \<longleftrightarrow> ids_where (ready_at p) ?es \<noteq> []"
    and bok: "\<And>p b. (p, b) \<in> set (sh_readyByPriority m) \<Longrightarrow> bucket_ok ?es p b"
    and ord: "?order = rev (sort (map fst (sh_readyByPriority m)))"
    using assms unfolding shard_ok_def indexes_ok_def by auto
  define has where "has = (\<lambda>p. case map_of (sh_readyByPriority m) p of None \<Rightarrow> False
     | Some b \<Rightarrow> view_pickFirst ?es pred (bk_all b) \<noteq> None)"
  have has: "has p \<longleftrightarrow> p \<in> ?pr ` set ?E" for p
  proof (cases "map_of (sh_readyByPriority m) p")
    case None
    then have "ids_where (ready_at p) ?es = []" using dom[of p] by (simp add: has_key_def)
    then have "\<forall>(k, e) \<in> set ?es. \<not> ready_at p e" using set_ids_where[of "ready_at p" ?es] by auto
    then show ?thesis using None by (auto simp: has_def ready_at_def)
  next
    case (Some b)
    then have "resolve ?es (rv_flat (bk_all b)) = ready_list ?es p"
      using bok[OF map_of_SomeD[OF Some]] es by (simp add: resolve_all)
    then have "has p \<longleftrightarrow> (\<exists>e \<in> set (ready_list ?es p). pred e)"
      using Some by (auto simp: has_def view_pickFirst_def find_None_iff)
    then show ?thesis by (auto simp: ready_list_def ready_at_def image_iff)
  qed
  have in_order: "p \<in> set ?order" if "has p" for p
    using that unfolding ord has_def by (auto split: option.splits dest: map_of_SomeD intro: rev_image_eqI)
  have "highestReadyPriorityLocked False pred m = find has ?order"
    by (simp add: highestReadyPriorityLocked_def has_def Let_def)
  also have "\<dots> = (if ?E = [] then None else Some (Max (?pr ` set ?E)))"
  proof (cases "?E = []")
    case True
    then show ?thesis using has by (simp add: find_None_iff)
  next
    case False
    define M where "M = Max (?pr ` set ?E)"
    have M: "has M" unfolding has M_def using False by (intro Max_in) (auto simp del: set_filter)
    obtain p where p: "find has ?order = Some p" using M in_order by (metis find_None_iff option.exhaust)
    obtain i where i: "i < length ?order" "?order ! i = p" "has p" "\<forall>j < i. \<not> has (?order ! j)"
      using p unfolding find_Some_iff by auto
    obtain j where j: "j < length ?order" "?order ! j = M" using in_order[OF M] by (metis in_set_conv_nth)
    have "i \<le> j" using i(4) j M by (metis not_less)
    moreover have "sorted (rev ?order)" unfolding ord by simp
    then have "sorted_wrt (\<ge>) ?order" by (simp add: sorted_wrt_rev)
    ultimately have "M \<le> p" using i(1,2) j by (cases "i = j") (auto simp: sorted_wrt_iff_nth_less)
    moreover have "p \<le> M" using i(3) unfolding has M_def by (intro Max_ge) auto
    ultimately show ?thesis using p False by (simp add: M_def)
  qed
  finally show ?thesis by (simp add: Let_def)
qed

lemma sort_key_map: "sort_key f (map g xs) = map g (sort_key (\<lambda>x. f (g x)) xs)"
proof (induction xs)
  case (Cons x xs)
  have "insort_key f (g x) (map g ys) = map g (insort_key (\<lambda>x. f (g x)) x ys)" for ys
    by (induction ys) auto
  with Cons show ?case by simp
qed simp

definition shard_auths :: "(scheduledAuthMeta \<Rightarrow> bool) \<Rightarrow> modelScheduler \<Rightarrow> auth list" where
  "shard_auths Q m = map (\<lambda>e. se_auth e) (filter (\<lambda>e. Q (se_meta e)) (map snd (sh_entries m)))"

lemma shard_auths_promote: "shard_auths Q (promoteExpiredLocked now m) = shard_auths Q m"
proof -
  have metas: "shard_auths Q m' = map sm_auth (filter Q (map snd (map (\<lambda>(i, e). (i, se_meta e)) (sh_entries m'))))" for m'
    unfolding shard_auths_def by (induction "sh_entries m'" arbitrary: m') (auto simp: filter_map comp_def case_prod_unfold)
  show ?thesis
    unfolding metas promote_entries(1) promoteLoop_metas ..
qed

lemma metas_promote: "metas_ok m \<Longrightarrow> metas_ok (promoteExpiredLocked now m)"
proof -
  assume m: "metas_ok m"
  have "se_meta ` snd ` set (sh_entries (promoteExpiredLocked now m)) = se_meta ` snd ` set (sh_entries m)"
    using arg_cong[OF promoteLoop_metas[of "sh_modelKey m" now "sh_blocked m" "sh_entries m" False], of "\<lambda>l. snd ` set l"]
    unfolding promote_entries(1) by (simp add: image_image case_prod_unfold)
  then show ?thesis using m unfolding metas_ok_def by (metis (no_types, lifting) imageE imageI)
qed

lemma candidates_eq:
  fixes Q :: "scheduledAuthMeta \<Rightarrow> bool"
  assumes m: "shard_ok m" "0 \<le> now" "timely now m" "metas_ok m"
  defines "m1 \<equiv> promoteExpiredLocked now m" and "pred \<equiv> \<lambda>e. Q (se_meta e)"
  shows "case getAvailableAuths (shard_auths Q m) provider (sh_modelKey m) now of
      Inl _ \<Rightarrow> highestReadyPriorityLocked False pred m1 = None
    | Inr av \<Rightarrow> av \<noteq> [] \<and> highestReadyPriorityLocked False pred m1 = Some (prio (hd av)) \<and>
        map (\<lambda>e. se_auth e) (filter pred (ready_list (sh_entries m1) (prio (hd av)))) = av"
proof -
  let ?xs = "map snd (sh_entries m1)" and ?k = "sh_modelKey m"
  let ?E = "filter (\<lambda>e. se_state e = scheduledStateReady \<and> pred e) ?xs"
  have ok1: "shard_ok m1" unfolding m1_def by (rule promote_shard_ok[OF m(1)])
  have ready: "se_state e = scheduledStateReady \<longleftrightarrow> free_now ?k now (se_auth e)" if "e \<in> set ?xs" for e
    using promote_ready_iff_free[OF m(1-3), of e] that unfolding m1_def by auto
  have pr: "sm_priority (se_meta e) = prio (se_auth e)" if "e \<in> set ?xs" for e
    using metas_promote[OF m(4), of now] that unfolding m1_def metas_ok_def by auto
  have auths: "shard_auths Q m = map (\<lambda>e. se_auth e) (filter pred ?xs)"
    using shard_auths_promote[of Q now m] unfolding m1_def shard_auths_def pred_def by simp
  have "filter (\<lambda>e. free_now ?k now (se_auth e)) (filter pred ?xs) = ?E"
    unfolding filter_filter by (rule filter_cong) (auto simp: ready)
  then have free: "filter (free_now ?k now) (shard_auths Q m) = map (\<lambda>e. se_auth e) ?E"
    unfolding auths filter_map comp_def by simp
  have M: "Max (prio ` set (map (\<lambda>e. se_auth e) ?E)) = Max ((\<lambda>e. sm_priority (se_meta e)) ` set ?E)"
  proof -
    have "prio ` set (map (\<lambda>e. se_auth e) ?E) = (\<lambda>e. sm_priority (se_meta e)) ` set ?E"
      unfolding set_map image_image by (rule image_cong) (auto simp: pr)
    then show ?thesis by simp
  qed
  show ?thesis
  proof (cases "?E = []")
    case True
    then have "\<exists>err. getAvailableAuths (shard_auths Q m) provider ?k now = Inl err"
      unfolding getAvailableAuths_eq[OF m(2)] free by (simp add: Let_def)
    then show ?thesis using highestReady_spec[OF ok1, of pred] True by (auto simp: Let_def)
  next
    case False
    let ?M = "Max ((\<lambda>e. sm_priority (se_meta e)) ` set ?E)"
    let ?av = "sort_key auth_ID (filter (\<lambda>a. prio a = ?M) (map (\<lambda>e. se_auth e) ?E))"
    have ne: "shard_auths Q m \<noteq> []" using free False by (metis filter.simps(1) map_is_Nil_conv)
    have av: "getAvailableAuths (shard_auths Q m) provider ?k now = Inr ?av"
      unfolding getAvailableAuths_eq[OF m(2)] free Let_def M using False ne by simp
    have best: "filter (\<lambda>e. prio (se_auth e) = ?M) ?E = filter (\<lambda>e. pred e) (filter (ready_at ?M) ?xs)"
      unfolding filter_filter by (rule filter_cong) (auto simp: ready_at_def pr)
    have "?av = map (\<lambda>e. se_auth e) (sort_key (\<lambda>e. se_id e) (filter (\<lambda>e. prio (se_auth e) = ?M) ?E))"
      unfolding filter_map comp_def sort_key_map ..
    also have "\<dots> = map (\<lambda>e. se_auth e) (filter pred (ready_list (sh_entries m1) ?M))"
      unfolding best ready_list_def filter_sort ..
    finally have avl: "?av = map (\<lambda>e. se_auth e) (filter pred (ready_list (sh_entries m1) ?M))" .
    have avne: "?av \<noteq> []" by (rule getAvailableAuths_ne[OF m(2) av])
    then have "hd ?av \<in> set ?av" by (rule hd_in_set)
    then have pM: "prio (hd ?av) = ?M" by simp
    have hi: "highestReadyPriorityLocked False pred m1 = Some ?M"
      unfolding highestReady_spec[OF ok1] Let_def if_not_P[OF False] ..
    show ?thesis
      unfolding av sum.case pM by (intro conjI avne hi avl[symmetric])
  qed
qed

text \<open>The pick, once the priority is settled, is the strategy's pick in the view of that priority.\<close>

definition shard_view :: "modelScheduler \<Rightarrow> int \<Rightarrow> readyView" where
  "shard_view m p = (case map_of (sh_readyByPriority m) p of
     None \<Rightarrow> buildReadyView [] | Some b \<Rightarrow> bk_all b)"

lemma pickReady_view:
  assumes "shard_ok m" "highestReadyPriorityLocked False pred (promoteExpiredLocked now m) = Some p"
  defines "m1 \<equiv> promoteExpiredLocked now m"
  shows "fst (pickReadyLocked False strategy pred now m) =
      map_option (\<lambda>e. se_auth e) (fst (pick_in_view strategy (sh_entries m1) pred (shard_view m1 p)))"
    and "resolve (sh_entries m1) (rv_flat (shard_view m1 p)) = ready_list (sh_entries m1) p"
proof -
  have ok: "shard_ok m1" unfolding m1_def by (rule promote_shard_ok[OF assms(1)])
  have "find (\<lambda>p. case map_of (sh_readyByPriority m1) p of None \<Rightarrow> False
      | Some b \<Rightarrow> view_pickFirst (sh_entries m1) pred (bk_all b) \<noteq> None) (sh_priorityOrder m1) = Some p"
    using assms(2) unfolding m1_def highestReadyPriorityLocked_def Let_def by simp
  then obtain b where b: "map_of (sh_readyByPriority m1) p = Some b"
    by (auto simp: find_Some_iff split: option.splits)
  show "fst (pickReadyLocked False strategy pred now m) =
      map_option (\<lambda>e. se_auth e) (fst (pick_in_view strategy (sh_entries m1) pred (shard_view m1 p)))"
    using assms(2) b unfolding pickReadyLocked_def Let_def m1_def[symmetric]
    by (simp add: pickAt_alt shard_view_def Let_def)
  have "bucket_ok (sh_entries m1) p b" "entries_ok (sh_entries m1)"
    using ok map_of_SomeD[OF b] by (auto simp: shard_ok_def indexes_ok_def)
  then show "resolve (sh_entries m1) (rv_flat (shard_view m1 p)) = ready_list (sh_entries m1) p"
    using b by (simp add: shard_view_def resolve_all)
qed

lemma ring_next_map: "ring_next ident (map g xs) lastID = map_option g (ring_next (\<lambda>x. ident (g x)) xs lastID)"
  by (cases xs) (simp_all add: ring_next_def find_map split: option.splits)

lemma view_pickFirst_hd:
  "view_pickFirst es pred v = (case filter pred (resolve es (rv_flat v)) of [] \<Rightarrow> None | e # _ \<Rightarrow> Some e)"
  by (simp add: view_pickFirst_def find_hd)

section \<open>Reachable shards\<close>

text \<open>
  A shard starts empty and changes by its operations, at times that do not run backwards.
\<close>

definition meta_ok :: "scheduledAuthMeta \<Rightarrow> bool" where
  "meta_ok meta \<longleftrightarrow>
     sm_priority meta = authPriority (Some (sm_auth meta)) \<and>
     sm_weight meta = authWeight (Some (sm_auth meta)) \<and>
     sm_websocketEnabled meta = authWebsocketsEnabled (Some (sm_auth meta)) \<and> auth_ID (sm_auth meta) \<noteq> []"

inductive shard_reach :: "string \<Rightarrow> go_time \<Rightarrow> modelScheduler \<Rightarrow> bool" for k where
  init: "0 \<le> now \<Longrightarrow> shard_reach k now (emptyShard k)"
| wait: "shard_reach k t m \<Longrightarrow> t \<le> now \<Longrightarrow> shard_reach k now m"
| upsert: "shard_reach k t m \<Longrightarrow> t \<le> now \<Longrightarrow> meta_ok meta \<Longrightarrow> shard_reach k now (upsertEntryLocked meta now m)"
| remove: "shard_reach k t m \<Longrightarrow> t \<le> now \<Longrightarrow> shard_reach k now (removeEntryLocked authID m)"
| promote: "shard_reach k t m \<Longrightarrow> t \<le> now \<Longrightarrow> shard_reach k now (promoteExpiredLocked now m)"
| pickAt: "shard_reach k t m \<Longrightarrow> t \<le> now \<Longrightarrow>
    shard_reach k now (snd (pickReadyAtPriorityLocked ws p strategy pred m))"

definition entry_timely :: "string \<Rightarrow> go_time \<Rightarrow> scheduledAuth \<Rightarrow> bool" where
  "entry_timely k now e \<longleftrightarrow> (\<exists>t. 0 \<le> t \<and> t \<le> now \<and> entryState (se_auth e) k t = (se_state e, se_nextRetryAt e))"

lemma timely_alt: "timely now m \<longleftrightarrow> (\<forall>e \<in> snd ` set (sh_entries m). entry_timely (sh_modelKey m) now e)"
  by (simp add: timely_def entry_timely_def)

lemma metas_ok_alt: "shard_ok m \<Longrightarrow> metas_ok m \<longleftrightarrow> (\<forall>e \<in> snd ` set (sh_entries m). meta_ok (se_meta e))"
  by (fastforce simp: metas_ok_def meta_ok_def shard_ok_def entries_ok_def)

lemma entry_timely_mono: "entry_timely k t e \<Longrightarrow> t \<le> now \<Longrightarrow> entry_timely k now e"
  unfolding entry_timely_def by (meson order.trans)

lemma upsert_entries:
  "sh_entries (upsertEntryLocked meta now m) = AList.update (auth_ID (sm_auth meta))
     (reevaluate (sh_modelKey m) now \<lparr>se_meta = meta, se_state = scheduledStateReady, se_nextRetryAt = 0\<rparr>) (sh_entries m)"
  "sh_modelKey (upsertEntryLocked meta now m) = sh_modelKey m"
  by (simp_all add: upsertEntryLocked_def reevaluate_def Let_def split: prod.splits)

lemma values_update: "snd ` set (AList.update k v xs) \<subseteq> insert v (snd ` set xs)"
  by (induction xs) auto

lemma delete_subset: "set (AList.delete k xs) \<subseteq> set xs"
  by (induction xs) auto

lemma reevaluate_timely: "0 \<le> now \<Longrightarrow> entry_timely k now (reevaluate k now e)"
  by (force simp: entry_timely_def reevaluate_def split: prod.splits)

lemma remove_entries:
  "snd ` set (sh_entries (removeEntryLocked authID m)) \<subseteq> snd ` set (sh_entries m)"
  "sh_modelKey (removeEntryLocked authID m) = sh_modelKey m"
  using image_mono[OF delete_subset[of authID "sh_entries m"], of snd] by (simp_all add: removeEntryLocked_def)

lemma shard_reach_ok:
  "shard_reach k now m \<Longrightarrow> 0 \<le> now \<and> sh_modelKey m = k \<and> shard_ok m \<and>
     (\<forall>e \<in> snd ` set (sh_entries m). entry_timely k now e \<and> meta_ok (se_meta e))"
proof (induction rule: shard_reach.induct)
  case (init now)
  then show ?case by (simp add: emptyShard_def) (simp flip: emptyShard_def)
next
  case (wait t m now)
  then show ?case using entry_timely_mono[of k t _ now] by auto
next
  case (upsert t m now meta)
  let ?new = "reevaluate k now \<lparr>se_meta = meta, se_state = scheduledStateReady, se_nextRetryAt = 0\<rparr>"
  have sub: "snd ` set (sh_entries (upsertEntryLocked meta now m)) \<subseteq> insert ?new (snd ` set (sh_entries m))"
    using values_update upsert.IH unfolding upsert_entries by metis
  have new_t: "entry_timely k now ?new" using upsert by (intro reevaluate_timely) simp
  have new_m: "meta_ok (se_meta ?new)" using upsert.hyps(3) by (simp add: reevaluate_def split: prod.splits)
  have old: "entry_timely k now e \<and> meta_ok (se_meta e)" if "e \<in> snd ` set (sh_entries m)" for e
    using upsert.IH entry_timely_mono[OF _ upsert.hyps(2), of k e] that by blast
  have "\<forall>e \<in> snd ` set (sh_entries (upsertEntryLocked meta now m)). entry_timely k now e \<and> meta_ok (se_meta e)"
  proof (intro ballI)
    fix e assume "e \<in> snd ` set (sh_entries (upsertEntryLocked meta now m))"
    with sub consider "e = ?new" | "e \<in> snd ` set (sh_entries m)" by blast
    then show "entry_timely k now e \<and> meta_ok (se_meta e)"
      by cases (use new_t new_m old in \<open>simp_all only: simp_thms\<close>)
  qed
  then show ?case
    using upsert by (simp add: upsert_entries(2) upsert_shard_ok meta_ok_def)
next
  case (remove t m now authID)
  then show ?case
    using remove_entries[of authID m] entry_timely_mono[of k t _ now] remove_shard_ok by fastforce
next
  case (promote t m now)
  have now: "0 \<le> now" using promote by simp
  have timely: "timely now m" using promote entry_timely_mono[of k t _ now] by (auto simp: timely_alt)
  have "metas_ok (promoteExpiredLocked now m)"
    using promote metas_promote metas_ok_alt by blast
  then show ?case
    using promote now promote_ready_iff_free[OF _ now timely] metas_ok_alt[OF promote_shard_ok]
    by (auto simp: promote_entries(2) promote_shard_ok entry_timely_def)
next
  case (pickAt t m now ws p strategy pred)
  then show ?case using entry_timely_mono[of k t _ now] by (auto simp: pickAt_shard_ok)
qed

lemma shard_reach_pick:
  "shard_reach k t m \<Longrightarrow> t \<le> now \<Longrightarrow> shard_reach k now (snd (pickReadyLocked ws strategy pred now m))"
  by (auto simp: pickReadyLocked_def Let_def split: option.splits intro: shard_reach.promote shard_reach.pickAt)

text \<open>Every shard that can arise from upserts, removals, promotions and picks at times that do not
  run backwards has indexes that agree with its entries, states that were right when they were
  computed, and priorities, weights and websocket flags that are those of its credentials.\<close>

theorem reachable_shard_invariant:
  assumes "shard_reach k now m"
  shows "sh_modelKey m = k \<and> shard_ok m \<and> timely now m \<and> metas_ok m"
  using shard_reach_ok[OF assms] metas_ok_alt[of m] by (auto simp: timely_alt)

lemma sample_meta_ok: "auth_ID a \<noteq> [] \<Longrightarrow> meta_ok (sample_meta a)"
  by (simp add: meta_ok_def sample_meta_def)

lemma sample_shard_reach: "shard_reach ''m'' 5 sample_shard"
  unfolding sample_shard_def
  by (rule shard_reach.upsert[where t = 5, OF shard_reach.upsert[where t = 5, OF shard_reach.init]])
     (simp_all add: sample_meta_ok sample_auth_def cooling_auth_def)

theorem reachable_shard_invariant_witness:
  "sh_modelKey sample_shard = ''m'' \<and> shard_ok sample_shard \<and> timely 5 sample_shard \<and> metas_ok sample_shard"
  by (rule reachable_shard_invariant[OF sample_shard_reach])

lemma sample_shard_at: "5 \<le> now \<Longrightarrow> timely now sample_shard \<and> metas_ok sample_shard"
proof -
  assume now: "5 \<le> now"
  from shard_reach_ok[OF sample_shard_reach] now
  show ?thesis using entry_timely_mono[of "''m''" 5 _ now] metas_ok_alt[of sample_shard] by (auto simp: timely_alt)
qed

section \<open>The shard refines the selectors\<close>

lemma shard_fill_first:
  assumes "shard_ok m" and "0 \<le> now" and "timely now m" and "metas_ok m"
  shows "fst (pickReadyLocked False schedulerStrategyFillFirst (\<lambda>e. Q (se_meta e)) now m) =
    (case FillFirst_Pick False provider (sh_modelKey m) now (shard_auths Q m) of Inl _ \<Rightarrow> None | Inr a \<Rightarrow> Some a)"
proof (cases "getAvailableAuths (shard_auths Q m) provider (sh_modelKey m) now")
  case (Inl err)
  then show ?thesis
    using candidates_eq[OF assms, of Q provider] by (simp add: FillFirst_Pick_def pickReadyLocked_def Let_def)
next
  case (Inr av)
  let ?pred = "\<lambda>e. Q (se_meta e)" and ?m1 = "promoteExpiredLocked now m"
  have c: "av \<noteq> []" "highestReadyPriorityLocked False ?pred ?m1 = Some (prio (hd av))"
    "map (\<lambda>e. se_auth e) (filter ?pred (ready_list (sh_entries ?m1) (prio (hd av)))) = av"
    using candidates_eq[OF assms, of Q provider] Inr by auto
  have "fst (pickReadyLocked False schedulerStrategyFillFirst ?pred now m) = Some (hd av)"
    using pickReady_view[OF assms(1) c(2)] c(1,3)
    by (auto simp: pick_in_view_def view_pickFirst_hd split: list.splits)
  then show ?thesis
    using Inr c(1) by (simp add: FillFirst_Pick_def preferCodexWebsocketAuths_def hd_conv_nth)
qed

text \<open>Where websockets are preferred, the shard tries the credentials with websockets of every priority first. This
  is the list from which the selector has to pick to agree with it.\<close>

definition websocket_first :: "bool \<Rightarrow> string \<Rightarrow> go_time \<Rightarrow> auth list \<Rightarrow> auth list" where
  "websocket_first ws model now auths =
     (let enabled = filter (\<lambda>a. authWebsocketsEnabled (Some a)) auths
      in if ws \<and> list_ex (free_now model now) enabled then enabled else auths)"

definition ws_entry :: "(scheduledAuth \<Rightarrow> bool) \<Rightarrow> scheduledAuth \<Rightarrow> bool" where
  "ws_entry pred e \<longleftrightarrow> sm_websocketEnabled (se_meta e) \<and> pred e"

lemma ws_view:
  assumes "entries_ok es" "bucket_ok es p b"
  shows "view_pickFirst es pred (bk_ws b) = view_pickFirst es (ws_entry pred) (bk_all b)"
proof -
  have f: "filter (ready_ws_at p) xs = filter (\<lambda>e. sm_websocketEnabled (se_meta e)) (filter (ready_at p) xs)" for xs
    unfolding filter_filter by (rule filter_cong) (auto simp: ready_ws_at_def)
  have ws: "resolve es (rv_flat (bk_ws b)) = filter (\<lambda>e. sm_websocketEnabled (se_meta e)) (resolve es (rv_flat (bk_all b)))"
    using assms unfolding bucket_ok_def by (simp add: resolve_ids f filter_sort)
  show ?thesis unfolding view_pickFirst_def ws find_filter ws_entry_def ..
qed

definition pick_first :: "bool \<Rightarrow> (scheduledAuth \<Rightarrow> bool) \<Rightarrow> modelScheduler \<Rightarrow> auth option" where
  "pick_first ws pred m =
     (case highestReadyPriorityLocked ws pred m of
        None \<Rightarrow> None
      | Some p \<Rightarrow> fst (pickReadyAtPriorityLocked ws p schedulerStrategyFillFirst pred m))"

lemma pick_first_alt:
  "fst (pickReadyLocked ws schedulerStrategyFillFirst pred now m) = pick_first ws pred (promoteExpiredLocked now m)"
  by (simp add: pickReadyLocked_def pick_first_def Let_def split: option.split)

lemma pick_first_ws:
  assumes "shard_ok m"
  shows "pick_first True pred m =
    (case pick_first False (ws_entry pred) m of Some a \<Rightarrow> Some a | None \<Rightarrow> pick_first False pred m)"
proof -
  let ?es = "sh_entries m"
  define has where "has view P p = (case map_of (sh_readyByPriority m) p of None \<Rightarrow> False
     | Some b \<Rightarrow> view_pickFirst ?es P (view b) \<noteq> None)" for view P p
  have es: "entries_ok ?es" and bok: "\<And>p b. map_of (sh_readyByPriority m) p = Some b \<Longrightarrow> bucket_ok ?es p b"
    using assms map_of_SomeD by (fastforce simp: shard_ok_def indexes_ok_def)+
  have ws: "has bk_ws pred = has bk_all (ws_entry pred)"
    by (auto simp: has_def fun_eq_iff ws_view[OF es bok] split: option.split)
  have has_eq: "(\<lambda>p. case map_of (sh_readyByPriority m) p of None \<Rightarrow> False
     | Some b \<Rightarrow> view_pickFirst ?es P (view b) \<noteq> None) = has view P" for view P
    by (simp add: has_def fun_eq_iff)
  have h: "highestReadyPriorityLocked False P m = find (has bk_all P) (sh_priorityOrder m)"
    "highestReadyPriorityLocked True P m = (case find (has bk_ws P) (sh_priorityOrder m) of
       Some p \<Rightarrow> Some p | None \<Rightarrow> find (has bk_all P) (sh_priorityOrder m))" for P
    unfolding highestReadyPriorityLocked_def Let_def has_eq by (simp_all split: option.split)
  show ?thesis
  proof (cases "find (has bk_ws pred) (sh_priorityOrder m)")
    case None
    then have no: "\<not> has bk_ws pred p" if "p \<in> set (sh_priorityOrder m)" for p using that by (simp add: find_None_iff)
    have "fst (pickReadyAtPriorityLocked True p schedulerStrategyFillFirst pred m) =
        fst (pickReadyAtPriorityLocked False p schedulerStrategyFillFirst pred m)" if "p \<in> set (sh_priorityOrder m)" for p
      using no[OF that] by (simp add: pickReadyAtPriorityLocked_def has_def Let_def split: option.splits)
    moreover have "p \<in> set (sh_priorityOrder m)" if "find (has bk_all pred) (sh_priorityOrder m) = Some p" for p
      using that by (auto simp: find_Some_iff)
    ultimately show ?thesis using None by (simp add: pick_first_def h ws split: option.split)
  next
    case (Some p)
    then have "has bk_ws pred p" by (auto simp: find_Some_iff)
    then obtain b e where b: "map_of (sh_readyByPriority m) p = Some b" and e: "view_pickFirst ?es pred (bk_ws b) = Some e"
      by (auto simp: has_def split: option.splits)
    then have "view_pickFirst ?es (ws_entry pred) (bk_all b) = Some e" using ws_view[OF es bok[OF b]] by metis
    with b e Some show ?thesis unfolding ws by (simp add: pick_first_def h ws pickReadyAtPriorityLocked_def Let_def)
  qed
qed

lemma fill_first_fails: "0 \<le> now \<Longrightarrow> (\<exists>err. FillFirst_Pick False provider model now auths = Inl err) \<longleftrightarrow>
    \<not> list_ex (free_now model now) auths"
  unfolding FillFirst_Pick_def getAvailableAuths_eq
  by (auto simp: Let_def list_ex_iff filter_empty_conv)

lemma shard_fill_first_ws:
  assumes "shard_ok m" and "0 \<le> now" and "timely now m" and "metas_ok m"
  shows "fst (pickReadyLocked ws schedulerStrategyFillFirst (\<lambda>e. Q (se_meta e)) now m) =
    (case FillFirst_Pick False provider (sh_modelKey m) now (websocket_first ws (sh_modelKey m) now (shard_auths Q m)) of
       Inl _ \<Rightarrow> None | Inr a \<Rightarrow> Some a)"
proof (cases ws)
  case False
  then show ?thesis using shard_fill_first[OF assms, of Q provider] by (simp add: websocket_first_def)
next
  case True
  let ?k = "sh_modelKey m" and ?R = "\<lambda>meta. sm_websocketEnabled meta \<and> Q meta"
  let ?ff = "\<lambda>auths. case FillFirst_Pick False provider ?k now auths of Inl _ \<Rightarrow> None | Inr a \<Rightarrow> Some a"
  have enabled: "filter (\<lambda>a. authWebsocketsEnabled (Some a)) (shard_auths Q m) = shard_auths ?R m"
    using assms(4) by (auto simp: shard_auths_def filter_map comp_def metas_ok_def intro!: arg_cong[where f = "map _"] filter_cong)
  have pred: "ws_entry (\<lambda>e. Q (se_meta e)) = (\<lambda>e. ?R (se_meta e))" by (simp add: ws_entry_def fun_eq_iff)
  have "fst (pickReadyLocked True schedulerStrategyFillFirst (\<lambda>e. Q (se_meta e)) now m) =
      (case ?ff (shard_auths ?R m) of Some a \<Rightarrow> Some a | None \<Rightarrow> ?ff (shard_auths Q m))"
    unfolding pick_first_alt pick_first_ws[OF promote_shard_ok[OF assms(1)]] pred
    unfolding pick_first_alt[symmetric] shard_fill_first[OF assms, of ?R provider] shard_fill_first[OF assms, of Q provider] ..
  also have "\<dots> = ?ff (websocket_first True ?k now (shard_auths Q m))"
    using fill_first_fails[OF assms(2), of provider ?k "shard_auths ?R m"]
    by (auto simp: websocket_first_def enabled Let_def split: sum.splits)
  finally show ?thesis using True by simp
qed

text \<open>C34. The incremental scheduler implements fill-first: for every shard whose indexes agree with its
  entries and whose states were computed at earlier times, the credential it picks at \<open>now\<close> is the one
  that \<open>FillFirstSelector\<close> (without its own websocket preference) picks at \<open>now\<close> from the eligible
  credentials of the shard, and it picks none exactly when the selector reports an error. With websockets
  preferred, the candidates are the eligible credentials with websockets, of whatever priority, as soon as one of
  them is free at \<open>now\<close>, and all eligible ones otherwise.\<close>

theorem shard_refines_fill_first:
  assumes "shard_ok m" and "0 \<le> now" and "timely now m" and "metas_ok m"
  shows "fst (pickReadyLocked ws schedulerStrategyFillFirst (\<lambda>e. Q (se_meta e)) now m) =
    (case FillFirst_Pick False provider (sh_modelKey m) now (websocket_first ws (sh_modelKey m) now (shard_auths Q m)) of
       Inl _ \<Rightarrow> None | Inr a \<Rightarrow> Some a)"
  by (rule shard_fill_first_ws[OF assms])

text \<open>A credential with websockets and a lower priority than the others of the shard.\<close>

definition websocket_auth :: auth where
  "websocket_auth = (sample_auth ''w'' ''codex'')\<lparr>auth_Attributes := [(''websockets'', ''true''), (''priority'', ''-1'')]\<rparr>"

definition websocket_shard :: modelScheduler where
  "websocket_shard = upsertEntryLocked (sample_meta websocket_auth) 5 sample_shard"

lemma websocket_shard_at: "5 \<le> now \<Longrightarrow> shard_ok websocket_shard \<and> timely now websocket_shard \<and> metas_ok websocket_shard"
proof -
  assume now: "5 \<le> now"
  have "shard_reach ''m'' 5 websocket_shard"
    unfolding websocket_shard_def
    by (rule shard_reach.upsert[OF sample_shard_reach]) (simp_all add: sample_meta_ok sample_auth_def websocket_auth_def)
  from shard_reach_ok[OF this] now show ?thesis
    using entry_timely_mono[of "''m''" 5 _ now] metas_ok_alt[of websocket_shard] by (auto simp: timely_alt)
qed

lemma websocket_picked:
  "fst (pickReadyLocked True schedulerStrategyFillFirst (\<lambda>e. True) 60 websocket_shard) = Some websocket_auth"
  "fst (pickReadyLocked False schedulerStrategyFillFirst (\<lambda>e. True) 60 websocket_shard) = Some cooling_auth"
  by code_simp+

theorem shard_refines_fill_first_witness:
  "fst (pickReadyLocked True schedulerStrategyFillFirst (\<lambda>e. True) 60 websocket_shard) =
    (case FillFirst_Pick False ''codex'' (sh_modelKey websocket_shard) 60
       (websocket_first True (sh_modelKey websocket_shard) 60 (shard_auths (\<lambda>_. True) websocket_shard)) of
       Inl _ \<Rightarrow> None | Inr a \<Rightarrow> Some a)"
  using websocket_shard_at[of 60] by (intro shard_refines_fill_first[where Q = "\<lambda>_. True"]) auto

lemma shard_round_robin:
  assumes "shard_ok m" and "0 \<le> now" and "timely now m" and "metas_ok m"
  shows "fst (pickReadyLocked False schedulerStrategyRoundRobin (\<lambda>e. Q (se_meta e)) now m) =
    (case getAvailableAuths (shard_auths Q m) provider (sh_modelKey m) now of
       Inl _ \<Rightarrow> None
     | Inr av \<Rightarrow> selector_next av
         (rv_lastPicked (shard_view (promoteExpiredLocked now m) (authPriority (Some (hd av))))))"
proof (cases "getAvailableAuths (shard_auths Q m) provider (sh_modelKey m) now")
  case (Inl err)
  then show ?thesis
    using candidates_eq[OF assms, of Q provider] by (simp add: pickReadyLocked_def Let_def)
next
  case (Inr av)
  let ?pred = "\<lambda>e. Q (se_meta e)" and ?m1 = "promoteExpiredLocked now m"
  let ?p = "prio (hd av)"
  let ?flat = "ready_list (sh_entries ?m1) ?p"
  have c: "av \<noteq> []" "highestReadyPriorityLocked False ?pred ?m1 = Some ?p"
    "map (\<lambda>e. se_auth e) (filter ?pred ?flat) = av"
    using candidates_eq[OF assms, of Q provider] Inr by auto
  have es: "entries_ok (sh_entries ?m1)" using promote_shard_ok[OF assms(1)] by (simp add: shard_ok_def)
  note ring = ready_list_ring[OF es, of ?p]
  have flat: "resolve (sh_entries ?m1) (rv_flat (shard_view ?m1 ?p)) = ?flat"
    by (rule pickReady_view(2)[OF assms(1) c(2)])
  let ?last = "rv_lastPicked (shard_view ?m1 ?p)"
  have "fst (pickReadyLocked False schedulerStrategyRoundRobin ?pred now m) =
      map_option (\<lambda>e. se_auth e) (scheduled_next (filter ?pred ?flat) ?last)"
    unfolding pickReady_view(1)[OF assms(1) c(2)] pick_in_view_def
    using view_pickRoundRobin_next[of "sh_entries ?m1" "shard_view ?m1 ?p" ?pred] ring unfolding flat
    by (simp split: option.splits)
  also have "\<dots> = ring_next auth_ID av ?last"
    unfolding srr.next_pick_ring[OF ring_filter[OF ring]]
    using ring_next_map[of auth_ID "\<lambda>e. se_auth e" "filter ?pred ?flat" ?last] unfolding c(3) by simp
  also have "\<dots> = selector_next av ?last"
  proof -
    have "ring_ok auth_ID (map (\<lambda>e. se_auth e) (filter ?pred ?flat))"
      using ring_filter[OF ring, of ?pred] by (simp add: ring_ok_def sorted_wrt_map)
    then have "ring_ok auth_ID av" unfolding c(3) .
    then show ?thesis by (rule rr.next_pick_ring[symmetric])
  qed
  finally show ?thesis using Inr by simp
qed

text \<open>The incremental scheduler implements round robin: what it picks is the credential that follows
  the cursor of the view in the selector's rotation over the selector's candidates at \<open>now\<close>.\<close>

theorem shard_refines_round_robin:
  assumes "shard_ok m" and "0 \<le> now" and "timely now m" and "metas_ok m"
  shows "fst (pickReadyLocked False schedulerStrategyRoundRobin (\<lambda>e. Q (se_meta e)) now m) =
    (case getAvailableAuths (shard_auths Q m) provider (sh_modelKey m) now of
       Inl _ \<Rightarrow> None
     | Inr av \<Rightarrow> selector_next av
         (rv_lastPicked (shard_view (promoteExpiredLocked now m) (authPriority (Some (hd av))))))"
  by (rule shard_round_robin[OF assms])

theorem shard_refines_round_robin_witness:
  "fst (pickReadyLocked False schedulerStrategyRoundRobin (\<lambda>e. True) 60 sample_shard) =
    (case getAvailableAuths (shard_auths (\<lambda>_. True) sample_shard) ''claude'' (sh_modelKey sample_shard) 60 of
       Inl _ \<Rightarrow> None
     | Inr av \<Rightarrow> selector_next av
         (rv_lastPicked (shard_view (promoteExpiredLocked 60 sample_shard) (authPriority (Some (hd av))))))"
  using sample_shard_at[of 60] by (intro shard_refines_round_robin[where Q = "\<lambda>_. True"] sample_shard_ok) auto

lemma pickAt_from:
  assumes ok: "shard_ok m" and a: "fst (pickReadyAtPriorityLocked ws p strategy pred m) = Some a"
  obtains e where "e \<in> snd ` set (sh_entries m)" "pred e" "ready_at p e" "se_auth e = a"
proof -
  let ?es = "sh_entries m"
  have es: "entries_ok ?es" using ok by (simp add: shard_ok_def)
  obtain b v e where b: "map_of (sh_readyByPriority m) p = Some b" "v = bk_all b \<or> v = bk_ws b"
    and e: "fst (pick_in_view strategy ?es pred v) = Some e" "se_auth e = a"
    using a unfolding pickAt_alt by (auto simp: Let_def split: option.splits if_splits)
  obtain P where P: "rv_flat v = ids_where P ?es" "\<And>e. P e \<Longrightarrow> ready_at p e"
  proof -
    have "bucket_ok ?es p b" using ok map_of_SomeD[OF b(1)] by (auto simp: shard_ok_def indexes_ok_def)
    then show thesis
      using b(2) that[of "ready_at p"] that[of "ready_ws_at p"] by (auto simp: bucket_ok_def ready_ws_at_def)
  qed
  let ?flat = "resolve ?es (rv_flat v)"
  have flat: "?flat = sort_key (\<lambda>e. se_id e) (filter P (map snd ?es))"
    unfolding P(1) by (rule resolve_ids[OF es])
  have "e \<in> set (filter pred ?flat)"
  proof (cases "?flat = []")
    case True
    with e(1) show ?thesis
      by (auto simp: pick_in_view_def view_pickFirst_def view_pickWeighted_def view_pickRoundRobin_def
          split: schedulerStrategy.splits)
  next
    case False
    have rr: "e \<in> set (filter pred ?flat)" if "fst (view_pickRoundRobin ?es pred v) = Some e"
      using that by (auto simp: view_pickRoundRobin_def Let_def False find_Some_iff split: option.splits if_splits)
    have ff: "e \<in> set (filter pred ?flat)" if "view_pickFirst ?es pred v = Some e"
      using that by (auto simp: view_pickFirst_def find_Some_iff)
    have w: "e \<in> set (filter pred ?flat)" if "fst (view_pickWeighted ?es pred v) = Some e"
    proof -
      define cur where "cur = sw_current (prepare (weightVector (\<lambda>e. se_id e) (\<lambda>e. se_weight e) (filter pred ?flat))
          (rv_weightedState v))"
      obtain p1 c1 where ps: "pickSmooth (\<lambda>e. se_id e) (\<lambda>e. se_weight e) (filter pred ?flat) cur = (p1, c1)" by force
      then have "p1 = Some e"
        using that unfolding view_pickWeighted_select[OF False] smoothSelect_def cur_def by (simp add: Let_def)
      with ps obtain cur1 pc tot where "smoothLoop (\<lambda>e. se_id e) (\<lambda>e. se_weight e) (filter pred ?flat) (cur, None, 0, 0) =
          (cur1, Some e, pc, tot)"
        by (auto simp: pickSmooth_def split: prod.splits option.splits)
      from smoothLoop_picks[OF this] show ?thesis by auto
    qed
    from e(1) rr ff w show ?thesis by (auto simp: pick_in_view_def split: schedulerStrategy.splits)
  qed
  then have "e \<in> snd ` set ?es" "pred e" "P e" unfolding flat by auto
  with that e(2) P(2) show thesis by blast
qed

lemma shard_pick_free:
  assumes "shard_ok m" and "0 \<le> now" and "timely now m"
    and "fst (pickReadyLocked ws strategy pred now m) = Some a"
  shows "free_now (sh_modelKey m) now a \<and>
    (\<exists>e \<in> snd ` set (sh_entries (promoteExpiredLocked now m)). pred e \<and> se_auth e = a)"
proof -
  let ?m1 = "promoteExpiredLocked now m"
  have ok: "shard_ok ?m1" by (rule promote_shard_ok[OF assms(1)])
  obtain p where p: "fst (pickReadyAtPriorityLocked ws p strategy pred ?m1) = Some a"
    using assms(4) by (auto simp: pickReadyLocked_def Let_def split: option.splits)
  from pickAt_from[OF ok p] obtain e where e: "e \<in> snd ` set (sh_entries ?m1)" "pred e" "ready_at p e" "se_auth e = a" .
  then have "free_now (sh_modelKey m) now (se_auth e)"
    using promote_ready_iff_free[OF assms(1-3) e(1)] by (simp add: ready_at_def)
  with e show ?thesis by blast
qed

text \<open>Whatever the strategy and whether websockets are preferred, a pick at \<open>now\<close> returns only a
  credential of the shard that satisfies the request's predicate and is not blocked at \<open>now\<close>.\<close>

theorem shard_pick_safe:
  assumes "shard_ok m" and "0 \<le> now" and "timely now m"
    and "fst (pickReadyLocked ws strategy pred now m) = Some a"
  shows "free_now (sh_modelKey m) now a \<and>
    (\<exists>e \<in> snd ` set (sh_entries (promoteExpiredLocked now m)). pred e \<and> se_auth e = a)"
  by (rule shard_pick_free[OF assms])

lemma sample_pick:
  "fst (pickReadyLocked True schedulerStrategyFillFirst (\<lambda>e. True) 60 sample_shard) = Some cooling_auth"
  by code_simp

theorem shard_pick_safe_witness:
  "free_now (sh_modelKey sample_shard) 60 cooling_auth \<and>
    (\<exists>e \<in> snd ` set (sh_entries (promoteExpiredLocked 60 sample_shard)). True \<and> se_auth e = cooling_auth)"
  using shard_pick_safe[OF sample_shard_ok _ _ sample_pick] sample_shard_at[of 60] by simp

section \<open>Fairness of the scheduler\<close>

fun view_run :: "entries \<Rightarrow> (scheduledAuth \<Rightarrow> bool) \<Rightarrow> nat \<Rightarrow> readyView \<Rightarrow> scheduledAuth option list" where
  "view_run es pred 0 v = []"
| "view_run es pred (Suc n) v =
     (let (picked, v') = view_pickRoundRobin es pred v in picked # view_run es pred n v')"

lemma view_run_rotation:
  assumes "ring_ok (\<lambda>e. se_id e) flat" "resolve es (rv_flat v) = flat"
  shows "view_run es pred n v = rotation_run (\<lambda>e. se_id e) scheduled_next (filter pred flat) n (rv_lastPicked v)"
  using assms(2)
proof (induction n arbitrary: v)
  case (Suc n)
  note pick = view_pickRoundRobin_next[of es v pred, unfolded Suc.prems, OF assms(1)]
  show ?case
  proof (cases "scheduled_next (filter pred flat) (rv_lastPicked v)")
    case None
    then show ?thesis using pick Suc.IH[OF Suc.prems] by simp
  next
    case (Some e)
    then show ?thesis using pick Suc.IH[of "v\<lparr>rv_lastPicked := se_id e\<rparr>"] Suc.prems by simp
  qed
qed simp

text \<open>The scheduler's rotation is fair under any request predicate: over as many consecutive picks in
  a view as it has eligible entries, each eligible entry is picked exactly once, and entries the
  predicate excludes neither take a turn nor disturb the order.\<close>

theorem scheduler_rotation_fair:
  assumes "entries_ok es" and "rv_flat v = ids_where P es"
    and "filter pred (resolve es (rv_flat v)) \<noteq> []"
  shows "mset (view_run es pred (length (filter pred (resolve es (rv_flat v)))) v) =
    image_mset Some (mset (filter pred (resolve es (rv_flat v))))"
proof -
  have flat: "resolve es (rv_flat v) = sort_key (\<lambda>e. se_id e) (filter P (map snd es))"
    unfolding assms(2) by (rule resolve_ids[OF assms(1)])
  have "distinct (map snd es)" using entries_distinct[OF assms(1)] distinct_map[of _ "map snd es"] by blast
  then have ring: "ring_ok (\<lambda>e. se_id e) (resolve es (rv_flat v))"
    unfolding flat using assms(1)
    by (intro sorted_ring[OF entries_distinct[OF assms(1)]]) (auto simp: entries_ok_def)
  show ?thesis
    unfolding view_run_rotation[OF ring refl] by (rule srr.run_all[OF ring_filter[OF ring] assms(3)])
qed

theorem scheduler_rotation_fair_witness:
  "mset (view_run (sh_entries sample_shard) (\<lambda>_. True) (length (filter (\<lambda>_. True)
      (resolve (sh_entries sample_shard) (rv_flat (shard_view sample_shard 0))))) (shard_view sample_shard 0)) =
    image_mset Some (mset (filter (\<lambda>_. True) (resolve (sh_entries sample_shard) (rv_flat (shard_view sample_shard 0)))))"
proof (rule scheduler_rotation_fair)
  show "entries_ok (sh_entries sample_shard)" using sample_shard_ok by (simp add: shard_ok_def)
  show "rv_flat (shard_view sample_shard 0) = ids_where (ready_at 0) (sh_entries sample_shard)" by code_simp
  show "filter (\<lambda>_. True) (resolve (sh_entries sample_shard) (rv_flat (shard_view sample_shard 0))) \<noteq> []" by code_simp
qed

end
