(* ===== verification/Scheduler.thy ===== *)
theory Scheduler
  imports ShardPicks
begin

text \<open>
  The scheduler above the shards: \<open>authScheduler\<close> and \<open>providerScheduler\<close> of
  \<open>sdk/aps/auth/scheduler.go\<close>, with the request scope of \<open>channel_group.go\<close>.

  A section under the scheduler's mutex is one step. Where the code reads the clock more than once
  in a step, each reading is an argument. The models a credential has in the model registry are the
  function \<open>models_of\<close>. Shards are looked up in the state where the code holds a pointer to them.
\<close>

section \<open>Requests\<close>

text \<open>The parts of a request's options and context that selection reads.\<close>

record request =
  rq_Metadata :: "(string, go_value) go_map"
  rq_requiredKind :: string
  rq_credentialPolicy :: string
  rq_downstreamWebsocket :: bool

definition metadataString :: "(string, go_value) go_map \<Rightarrow> string \<Rightarrow> string" where
  "metadataString metadata key =
     (case map_of metadata key of Some (GString t) \<Rightarrow> TrimSpace t | _ \<Rightarrow> [])"

definition channelGroupScopeFromMetadata :: "(string, go_value) go_map \<Rightarrow> string \<times> string" where
  "channelGroupScopeFromMetadata metadata =
     (let panel = metadataString metadata ''channel-group-provider'';
          group = metadataString metadata ''channel-group''
      in if panel = [] \<or> group = [] then ([], []) else (panel, group))"

definition authSelectionEligibilityForRequest :: "request \<Rightarrow> authSelectionEligibility" where
  "authSelectionEligibilityForRequest rq =
     (let (panel, group) = channelGroupScopeFromMetadata (rq_Metadata rq)
      in \<lparr>el_requiredKind = rq_requiredKind rq, el_credentialPolicy = rq_credentialPolicy rq,
          el_disallowFreeAuth = disallowFreeAuthFromMetadata (rq_Metadata rq),
          el_channelPanel = panel, el_channelGroup = group\<rparr>)"

definition scheduledAuthPredicate ::
  "authSelectionEligibility \<Rightarrow> string list \<Rightarrow> string \<Rightarrow> bool \<Rightarrow> scheduledAuth \<Rightarrow> bool" where
  "scheduledAuthPredicate eligibility tried pinnedAuthID requirePositiveWeight entry =
     (if \<not> eligibility_allows eligibility (Some (se_auth entry)) then False
      else if requirePositiveWeight \<and> sm_weight (se_meta entry) \<le> 0 then False
      else if pinnedAuthID \<noteq> [] \<and> se_id entry \<noteq> pinnedAuthID then False
      else se_id entry \<notin> set tried)"

definition providerPrefersWebsocketTransport :: "string \<Rightarrow> bool" where
  "providerPrefersWebsocketTransport providerKey \<longleftrightarrow>
     ToLower (TrimSpace providerKey) \<in> {''codex'', ''xai''}"

definition normalizeProviderKeys :: "string list \<Rightarrow> string list" where
  "normalizeProviderKeys providers =
     foldl (\<lambda>out provider.
       let providerKey = ToLower (TrimSpace provider)
       in if providerKey = [] \<or> providerKey \<in> set out then out else out @ [providerKey])
     [] providers"

definition containsProvider :: "string list \<Rightarrow> string \<Rightarrow> bool" where
  "containsProvider providers provider = list_ex (\<lambda>candidate. candidate = provider) providers"

section \<open>State\<close>

record scheduledGenerationMeta =
  gm_epoch :: "64 word"
  gm_generation :: "64 word"
  gm_updatedAt :: go_time

record providerScheduler =
  pv_providerKey :: string
  pv_auths :: "(string, scheduledAuthMeta) go_map"
  pv_modelShards :: "(string, modelScheduler) go_map"

record authScheduler =
  as_strategy :: schedulerStrategy
  as_providers :: "(string, providerScheduler) go_map"
  as_authProviders :: "(string, string) go_map"
  as_authGenerations :: "(string, scheduledGenerationMeta) go_map"
  as_mixedCursors :: "(string, int) go_map"
  as_mixedWeightedStates :: "(string, smoothWeightedState) go_map"

text \<open>The selector types the scheduler distinguishes.\<close>

datatype selector_type =
  NilSelector | TypeRoundRobin | TypeWeightedRoundRobin | TypeFillFirst | OtherSelector

definition selectorStrategy :: "selector_type \<Rightarrow> schedulerStrategy" where
  "selectorStrategy selector =
     (case selector of
        TypeFillFirst \<Rightarrow> schedulerStrategyFillFirst
      | TypeWeightedRoundRobin \<Rightarrow> schedulerStrategyWeightedRoundRobin
      | NilSelector \<Rightarrow> schedulerStrategyRoundRobin
      | TypeRoundRobin \<Rightarrow> schedulerStrategyRoundRobin
      | OtherSelector \<Rightarrow> schedulerStrategyCustom)"

definition newAuthScheduler :: "selector_type \<Rightarrow> authScheduler" where
  "newAuthScheduler selector =
     \<lparr>as_strategy = selectorStrategy selector, as_providers = [], as_authProviders = [],
      as_authGenerations = [], as_mixedCursors = [], as_mixedWeightedStates = []\<rparr>"

definition setSelector :: "selector_type \<Rightarrow> authScheduler \<Rightarrow> authScheduler" where
  "setSelector selector s =
     s\<lparr>as_strategy := selectorStrategy selector, as_mixedCursors := [], as_mixedWeightedStates := []\<rparr>"

section \<open>One provider\<close>

definition supportedModelSetForAuth :: "(string \<Rightarrow> string list) \<Rightarrow> string \<Rightarrow> string list" where
  "supportedModelSetForAuth models_of authID0 =
     (let authID = TrimSpace authID0
      in if authID = [] then []
         else remdups (filter (\<lambda>k. k \<noteq> []) (map canonicalModelKey (models_of authID))))"

definition buildScheduledAuthMeta :: "(string \<Rightarrow> string list) \<Rightarrow> auth \<Rightarrow> scheduledAuthMeta" where
  "buildScheduledAuthMeta models_of a =
     \<lparr>sm_auth = a, sm_providerKey = executorKeyFromAuth (Some a), sm_priority = authPriority (Some a),
      sm_weight = authWeight (Some a), sm_websocketEnabled = authWebsocketsEnabled (Some a),
      sm_supportedModelSet = supportedModelSetForAuth models_of (auth_ID a)\<rparr>"

definition supportsModel :: "scheduledAuthMeta \<Rightarrow> string \<Rightarrow> bool" where
  "supportsModel meta modelKey0 =
     (let modelKey = canonicalModelKey modelKey0
      in if modelKey = [] then True else modelKey \<in> set (sm_supportedModelSet meta))"

definition provider_upsertAuthLocked :: "scheduledAuthMeta \<Rightarrow> go_time \<Rightarrow> providerScheduler \<Rightarrow> providerScheduler" where
  "provider_upsertAuthLocked meta now p =
     (let ident = auth_ID (sm_auth meta)
      in p\<lparr>pv_auths := AList.update ident meta (pv_auths p),
           pv_modelShards := map (\<lambda>(modelKey, shard).
             (modelKey, if \<not> supportsModel meta modelKey then removeEntryLocked ident shard
                        else upsertEntryLocked meta now shard)) (pv_modelShards p)\<rparr>)"

definition provider_removeAuthLocked :: "string \<Rightarrow> providerScheduler \<Rightarrow> providerScheduler" where
  "provider_removeAuthLocked authID p =
     (if authID = [] then p
      else p\<lparr>pv_auths := AList.delete authID (pv_auths p),
             pv_modelShards := map (\<lambda>(modelKey, shard). (modelKey, removeEntryLocked authID shard))
               (pv_modelShards p)\<rparr>)"

definition buildShard :: "string \<Rightarrow> go_time \<Rightarrow> (string, scheduledAuthMeta) go_map \<Rightarrow> modelScheduler" where
  "buildShard modelKey now auths =
     foldl (\<lambda>shard (_, meta). if supportsModel meta modelKey then upsertEntryLocked meta now shard else shard)
       (emptyShard modelKey) auths"

definition ensureModelLocked ::
  "string \<Rightarrow> go_time \<Rightarrow> providerScheduler \<Rightarrow> modelScheduler \<times> providerScheduler" where
  "ensureModelLocked modelKey0 now p =
     (let modelKey = canonicalModelKey modelKey0;
          shard = (case map_of (pv_modelShards p) modelKey of
                     Some shard \<Rightarrow> promoteExpiredLocked now shard
                   | None \<Rightarrow> buildShard modelKey now (pv_auths p))
      in (shard, p\<lparr>pv_modelShards := AList.update modelKey shard (pv_modelShards p)\<rparr>))"

section \<open>Registration\<close>

definition isStaleScheduledAuth ::
  "string \<Rightarrow> 64 word \<Rightarrow> 64 word \<Rightarrow> go_time \<Rightarrow> authScheduler \<Rightarrow> bool" where
  "isStaleScheduledAuth authID incomingEpoch incomingGen incomingUpdatedAt s =
     (case map_of (as_authGenerations s) authID of
        None \<Rightarrow> False
      | Some existing \<Rightarrow>
          if gm_epoch existing > incomingEpoch then True
          else if gm_epoch existing = incomingEpoch then
            (if gm_generation existing > incomingGen then True
             else gm_generation existing = incomingGen \<and> gm_updatedAt existing > incomingUpdatedAt)
          else False)"

definition ensureProviderLocked :: "string \<Rightarrow> authScheduler \<Rightarrow> providerScheduler" where
  "ensureProviderLocked providerKey s =
     (case map_of (as_providers s) providerKey of
        Some p \<Rightarrow> p
      | None \<Rightarrow> \<lparr>pv_providerKey = providerKey, pv_auths = [], pv_modelShards = []\<rparr>)"

definition removeAuthFrom :: "string \<Rightarrow> string \<Rightarrow> authScheduler \<Rightarrow> authScheduler" where
  "removeAuthFrom providerKey authID s =
     (case map_of (as_providers s) providerKey of
        None \<Rightarrow> s
      | Some p \<Rightarrow> s\<lparr>as_providers := AList.update providerKey (provider_removeAuthLocked authID p) (as_providers s)\<rparr>)"

definition removeAuthFromProvidersLocked :: "string \<Rightarrow> authScheduler \<Rightarrow> authScheduler" where
  "removeAuthFromProvidersLocked authID s =
     (let providerKey = map_get [] (as_authProviders s) authID
      in if providerKey = [] then s
         else let s' = removeAuthFrom providerKey authID s
              in s'\<lparr>as_authProviders := AList.delete authID (as_authProviders s')\<rparr>)"

definition upsertAuthLocked ::
  "(string \<Rightarrow> string list) \<Rightarrow> auth option \<Rightarrow> go_time \<Rightarrow> authScheduler \<Rightarrow> authScheduler" where
  "upsertAuthLocked models_of ao now s =
     (case ao of
        None \<Rightarrow> s
      | Some a \<Rightarrow>
          let authID = TrimSpace (auth_ID a)
          in if authID = [] then s
             else if isStaleScheduledAuth authID (auth_RegistrationEpoch a) (auth_Generation a) (auth_UpdatedAt a) s
             then s
             else
               let s1 = s\<lparr>as_authGenerations := AList.update authID
                            \<lparr>gm_epoch = auth_RegistrationEpoch a, gm_generation = auth_Generation a,
                             gm_updatedAt = auth_UpdatedAt a\<rparr> (as_authGenerations s)\<rparr>;
                   providerKey = executorKeyFromAuth (Some a)
               in if providerKey = [] \<or> auth_Disabled a \<or> auth_Status a = StatusDisabled
                  then removeAuthFromProvidersLocked authID s1
                  else
                    let previousProvider = map_get [] (as_authProviders s1) authID;
                        s2 = (if previousProvider \<noteq> [] \<and> previousProvider \<noteq> providerKey
                              then removeAuthFrom previousProvider authID s1 else s1);
                        meta = buildScheduledAuthMeta models_of a;
                        p = provider_upsertAuthLocked meta now (ensureProviderLocked providerKey s2)
                    in s2\<lparr>as_authProviders := AList.update authID providerKey (as_authProviders s2),
                          as_providers := AList.update providerKey p (as_providers s2)\<rparr>)"

definition rebuild ::
  "(string \<Rightarrow> string list) \<Rightarrow> auth option list \<Rightarrow> go_time \<Rightarrow> authScheduler \<Rightarrow> authScheduler" where
  "rebuild models_of auths now s =
     foldl (\<lambda>s a. upsertAuthLocked models_of a now s)
       (s\<lparr>as_providers := [], as_authProviders := [], as_mixedCursors := [], as_mixedWeightedStates := []\<rparr>)
       auths"

definition RecordRemovalTombstone :: "string \<Rightarrow> 64 word \<Rightarrow> go_time \<Rightarrow> authScheduler \<Rightarrow> authScheduler" where
  "RecordRemovalTombstone authID0 tombstoneEpoch now s =
     (let authID = TrimSpace authID0
      in if authID = [] then s
         else if (case map_of (as_authGenerations s) authID of
                    None \<Rightarrow> False | Some existing \<Rightarrow> tombstoneEpoch < gm_epoch existing) then s
         else removeAuthFromProvidersLocked authID
                (s\<lparr>as_authGenerations := AList.update authID
                     \<lparr>gm_epoch = tombstoneEpoch, gm_generation = 0, gm_updatedAt = now\<rparr> (as_authGenerations s)\<rparr>))"

definition removeAuth :: "string \<Rightarrow> go_time \<Rightarrow> authScheduler \<Rightarrow> authScheduler" where
  "removeAuth authID0 now s =
     (let authID = TrimSpace authID0
      in if authID = [] then s
         else let epoch = (case map_of (as_authGenerations s) authID of
                             None \<Rightarrow> 1 | Some existing \<Rightarrow> gm_epoch existing + 1)
              in removeAuthFromProvidersLocked authID
                   (s\<lparr>as_authGenerations := AList.update authID
                        \<lparr>gm_epoch = epoch, gm_generation = 0, gm_updatedAt = now\<rparr> (as_authGenerations s)\<rparr>))"

definition ResetAuthGeneration :: "string \<Rightarrow> authScheduler \<Rightarrow> authScheduler" where
  "ResetAuthGeneration authID0 s =
     (let authID = TrimSpace authID0
      in if authID = [] then s
         else s\<lparr>as_authGenerations := AList.delete authID (as_authGenerations s)\<rparr>)"

section \<open>Picks for one provider\<close>

definition not_found :: pick_error where
  "not_found = PickError ''auth_not_found'' None"

text \<open>Writes back the shard that the code has changed through its pointer.\<close>

definition putShard :: "string \<Rightarrow> string \<Rightarrow> modelScheduler \<Rightarrow> authScheduler \<Rightarrow> authScheduler" where
  "putShard providerKey modelKey shard s =
     (case map_of (as_providers s) providerKey of
        None \<Rightarrow> s
      | Some p \<Rightarrow> s\<lparr>as_providers := AList.update providerKey
                    (p\<lparr>pv_modelShards := AList.update modelKey shard (pv_modelShards p)\<rparr>) (as_providers s)\<rparr>)"

definition ensureIn :: "string \<Rightarrow> go_time \<Rightarrow> string \<Rightarrow> authScheduler \<Rightarrow> authScheduler" where
  "ensureIn modelKey now providerKey s =
     (case map_of (as_providers s) providerKey of
        None \<Rightarrow> s
      | Some p \<Rightarrow> s\<lparr>as_providers := AList.update providerKey (snd (ensureModelLocked modelKey now p)) (as_providers s)\<rparr>)"

definition candidateShard :: "string \<Rightarrow> authScheduler \<Rightarrow> string \<Rightarrow> modelScheduler option" where
  "candidateShard modelKey s providerKey =
     (case map_of (as_providers s) providerKey of
        None \<Rightarrow> None
      | Some p \<Rightarrow> map_of (pv_modelShards p) (canonicalModelKey modelKey))"

definition pickSingleWithStrategy ::
  "go_time \<Rightarrow> go_time \<Rightarrow> go_time \<Rightarrow> string \<Rightarrow> string \<Rightarrow> request \<Rightarrow> string list \<Rightarrow> schedulerStrategy
    \<Rightarrow> authScheduler \<Rightarrow> (pick_error + auth) \<times> authScheduler" where
  "pickSingleWithStrategy t1 t2 t3 provider model rq tried strategy0 s =
     (let providerKey = ToLower (TrimSpace provider);
          modelKey = canonicalModelKey model;
          pinnedAuthID = pinnedAuthIDFromMetadata (rq_Metadata rq);
          eligibility = authSelectionEligibilityForRequest rq;
          preferWebsocket = (rq_downstreamWebsocket rq \<and> providerPrefersWebsocketTransport providerKey \<and>
                             pinnedAuthID = []);
          strategy = (if strategy0 = schedulerStrategyCurrent then as_strategy s else strategy0);
          s1 = ensureIn modelKey t1 providerKey s
      in case candidateShard modelKey s1 providerKey of
           None \<Rightarrow> (Inl not_found, s)
         | Some shard \<Rightarrow>
             let predicate = scheduledAuthPredicate eligibility tried pinnedAuthID
                               (strategy = schedulerStrategyWeightedRoundRobin);
                 (picked, shard') = pickReadyLocked preferWebsocket strategy predicate t2 shard;
                 s2 = putShard providerKey (canonicalModelKey modelKey) shard' s1
             in (case picked of
                   Some a \<Rightarrow> Inr a
                 | None \<Rightarrow> Inl (unavailableErrorLocked provider model predicate t3 shard'), s2))"

definition pickSingle ::
  "go_time \<Rightarrow> go_time \<Rightarrow> go_time \<Rightarrow> string \<Rightarrow> string \<Rightarrow> request \<Rightarrow> string list
    \<Rightarrow> authScheduler \<Rightarrow> (pick_error + auth) \<times> authScheduler" where
  "pickSingle t1 t2 t3 provider model rq tried = pickSingleWithStrategy t1 t2 t3 provider model rq tried schedulerStrategyCurrent"

end
