(* ===== verification/SchedulerMixed.thy ===== *)
theory SchedulerMixed
  imports Scheduler
begin

text \<open>
  Picks over several providers, \<open>pickMixed\<close> in \<open>sdk/aps/auth/scheduler.go\<close>. The phases of the
  function (pinned credential, best priority, fill-first, weighted, rotation over the segments of
  the providers) are definitions of their own, composed in \<open>pickMixedWithStrategy\<close>.
\<close>

section \<open>Errors\<close>

definition mergeError :: "candidate_error \<Rightarrow> candidate_error \<Rightarrow> candidate_error" where
  "mergeError latest cand = (case cand of None \<Rightarrow> latest | Some c \<Rightarrow> laterError latest c)"

definition mixedUnavailableErrorLocked ::
  "string list \<Rightarrow> string \<Rightarrow> (scheduledAuth \<Rightarrow> bool) \<Rightarrow> go_time \<Rightarrow> authScheduler
    \<Rightarrow> pick_error \<times> authScheduler" where
  "mixedUnavailableErrorLocked providers model predicate now s0 =
     (let modelKey = canonicalModelKey model;
          (total, cooldownCount, earliest, latestModelErr, latestAuthErr, s) =
            foldl (\<lambda>(total, cooldownCount, earliest, modelErr, authErr, s) providerKey.
              let s' = ensureIn modelKey now providerKey s
              in case candidateShard modelKey s' providerKey of
                   None \<Rightarrow> (total, cooldownCount, earliest, modelErr, authErr, s)
                 | Some shard \<Rightarrow>
                     let (localTotal, localCooldownCount, localEarliest) = availabilitySummaryLocked predicate shard;
                         (candModelErr, candAuthErr) = candidateErrorsLocked model predicate shard
                     in (total + localTotal, cooldownCount + localCooldownCount,
                         if \<not> IsZero localEarliest \<and> (IsZero earliest \<or> localEarliest < earliest)
                         then localEarliest else earliest,
                         mergeError modelErr candModelErr, mergeError authErr candAuthErr, s'))
              (0, 0, 0, None, None, s0) providers;
          lastCandidateErr = map_option fst (if latestModelErr \<noteq> None then latestModelErr else latestAuthErr);
          resetIn = time_Sub earliest now
      in (if total = (0::nat) then PickError ''auth_not_found'' lastCandidateErr
          else if cooldownCount = total \<and> \<not> IsZero earliest
          then newModelCooldownErrorWithCause model [] (if resetIn < 0 then 0 else resetIn) lastCandidateErr
          else PickError ''auth_unavailable'' lastCandidateErr, s))"

section \<open>Candidates\<close>

text \<open>Makes sure that each listed provider has the shard, and promotes in it.\<close>

definition ensureAll :: "string \<Rightarrow> go_time \<Rightarrow> string list \<Rightarrow> authScheduler \<Rightarrow> authScheduler" where
  "ensureAll modelKey now providers s = foldl (\<lambda>s providerKey. ensureIn modelKey now providerKey s) s providers"

definition bestReadyPriority ::
  "string \<Rightarrow> (scheduledAuth \<Rightarrow> bool) \<Rightarrow> authScheduler \<Rightarrow> string list \<Rightarrow> int option" where
  "bestReadyPriority modelKey predicate s providers =
     foldl (\<lambda>best providerKey.
       case candidateShard modelKey s providerKey of
         None \<Rightarrow> best
       | Some shard \<Rightarrow>
           (case highestReadyPriorityLocked False predicate shard of
              None \<Rightarrow> best
            | Some priorityReady \<Rightarrow>
                (case best of
                   None \<Rightarrow> Some priorityReady
                 | Some bestPriority \<Rightarrow> if priorityReady > bestPriority then Some priorityReady else best)))
     None providers"

text \<open>A pick at a fixed priority in the shard of one provider, written back.\<close>

definition pickAtProvider ::
  "string \<Rightarrow> int \<Rightarrow> schedulerStrategy \<Rightarrow> (scheduledAuth \<Rightarrow> bool) \<Rightarrow> string \<Rightarrow> authScheduler
    \<Rightarrow> auth option \<times> authScheduler" where
  "pickAtProvider modelKey priority strategy predicate providerKey s =
     (case candidateShard modelKey s providerKey of
        None \<Rightarrow> (None, s)
      | Some shard \<Rightarrow>
          let (picked, shard') = pickReadyAtPriorityLocked False priority strategy predicate shard
          in (picked, putShard providerKey (canonicalModelKey modelKey) shard' s))"

fun mixedFillFirst ::
  "string \<Rightarrow> int \<Rightarrow> (scheduledAuth \<Rightarrow> bool) \<Rightarrow> string list \<Rightarrow> authScheduler
    \<Rightarrow> (auth \<times> string) option \<times> authScheduler" where
  "mixedFillFirst modelKey priority predicate [] s = (None, s)"
| "mixedFillFirst modelKey priority predicate (providerKey # providers) s =
     (case pickAtProvider modelKey priority schedulerStrategyFillFirst predicate providerKey s of
        (Some a, s') \<Rightarrow> (Some (a, providerKey), s')
      | (None, s') \<Rightarrow> mixedFillFirst modelKey priority predicate providers s')"

definition mixedEntries :: "string \<Rightarrow> int \<Rightarrow> authScheduler \<Rightarrow> string list \<Rightarrow> scheduledAuth list" where
  "mixedEntries modelKey priority s providers =
     sort_key (\<lambda>e. se_id e)
       (concat (map (\<lambda>providerKey. case candidateShard modelKey s providerKey of
            None \<Rightarrow> []
          | Some shard \<Rightarrow> (case map_of (sh_readyByPriority shard) priority of
                None \<Rightarrow> []
              | Some bucket \<Rightarrow> resolve (sh_entries shard) (rv_flat (bk_all bucket)))) providers))"

definition mixedWeighted ::
  "string \<Rightarrow> string \<Rightarrow> int \<Rightarrow> (scheduledAuth \<Rightarrow> bool) \<Rightarrow> string list \<Rightarrow> authScheduler
    \<Rightarrow> (auth \<times> string) option \<times> authScheduler" where
  "mixedWeighted cursorKey modelKey priority predicate providers s =
     (let entries = mixedEntries modelKey priority s providers;
          state = prepare (scheduledWeightVectorMatching entries predicate)
                    (map_get emptyWeightedState (as_mixedWeightedStates s) cursorKey);
          (picked, current) = pickSmoothWeightedScheduled entries (sw_current state) predicate
      in (map_option (\<lambda>e. (se_auth e, sm_providerKey (se_meta e))) picked,
          s\<lparr>as_mixedWeightedStates := AList.update cursorKey (state\<lparr>sw_current := current\<rparr>)
              (as_mixedWeightedStates s)\<rparr>))"

section \<open>The rotation over the providers\<close>

text \<open>
  Every provider owns a segment of slots, as many as it has ready candidates; the cursor walks
  over the slots of all of them.
\<close>

definition segmentStart :: "nat list \<Rightarrow> nat \<Rightarrow> nat" where
  "segmentStart weights i = sum_list (take i weights)"

definition segmentEnd :: "nat list \<Rightarrow> nat \<Rightarrow> nat" where
  "segmentEnd weights i = sum_list (take (Suc i) weights)"

definition startProvider :: "nat list \<Rightarrow> nat \<Rightarrow> nat option" where
  "startProvider weights startSlot =
     find (\<lambda>i. weights ! i \<noteq> 0 \<and> startSlot < segmentEnd weights i) [0..<length weights]"

definition readyWeights ::
  "string \<Rightarrow> int \<Rightarrow> (scheduledAuth \<Rightarrow> bool) \<Rightarrow> string list \<Rightarrow> authScheduler \<Rightarrow> nat list" where
  "readyWeights modelKey priority predicate providers s =
     map (\<lambda>providerKey. case candidateShard modelKey s providerKey of
            None \<Rightarrow> 0
          | Some shard \<Rightarrow> readyCountAtPriorityLocked False priority predicate shard) providers"

fun rotateProviders ::
  "string \<Rightarrow> string \<Rightarrow> int \<Rightarrow> (scheduledAuth \<Rightarrow> bool) \<Rightarrow> string list \<Rightarrow> nat list \<Rightarrow> nat \<Rightarrow> nat list \<Rightarrow> nat
    \<Rightarrow> authScheduler \<Rightarrow> (auth \<times> string) option \<times> authScheduler" where
  "rotateProviders cursorKey modelKey priority predicate providers weights start [] slot s = (None, s)"
| "rotateProviders cursorKey modelKey priority predicate providers weights start (offset # offsets) slot s =
     (let i = (start + offset) mod length providers
      in if weights ! i = 0
         then rotateProviders cursorKey modelKey priority predicate providers weights start offsets slot s
         else
           let slot' = (if i \<noteq> start then segmentStart weights i else slot)
           in case pickAtProvider modelKey priority schedulerStrategyRoundRobin predicate (providers ! i) s of
                (Some a, s') \<Rightarrow>
                  (Some (a, providers ! i),
                   s'\<lparr>as_mixedCursors := AList.update cursorKey (int slot' + 1) (as_mixedCursors s')\<rparr>)
              | (None, s') \<Rightarrow>
                  rotateProviders cursorKey modelKey priority predicate providers weights start offsets slot' s')"

definition mixedRotation ::
  "string \<Rightarrow> string \<Rightarrow> int \<Rightarrow> (scheduledAuth \<Rightarrow> bool) \<Rightarrow> string list \<Rightarrow> authScheduler
    \<Rightarrow> (auth \<times> string) option \<times> authScheduler" where
  "mixedRotation cursorKey modelKey priority predicate providers s =
     (let weights = readyWeights modelKey priority predicate providers s;
          totalWeight = sum_list weights
      in if totalWeight = 0 then (None, s)
         else let startSlot = nat (go_rem (map_get 0 (as_mixedCursors s) cursorKey) (int totalWeight))
              in case startProvider weights startSlot of
                   None \<Rightarrow> (None, s)
                 | Some start \<Rightarrow>
                     rotateProviders cursorKey modelKey priority predicate providers weights start
                       [0..<length providers] startSlot s)"

section \<open>The pick\<close>

definition pickPinned ::
  "go_time \<Rightarrow> go_time \<Rightarrow> go_time \<Rightarrow> string list \<Rightarrow> string \<Rightarrow> string \<Rightarrow> (scheduledAuth \<Rightarrow> bool) \<Rightarrow> schedulerStrategy
    \<Rightarrow> authScheduler \<Rightarrow> (pick_error + auth \<times> string) \<times> authScheduler" where
  "pickPinned t1 t2 t3 normalized model pinnedAuthID predicate strategy s =
     (let modelKey = canonicalModelKey model;
          providerKey = map_get [] (as_authProviders s) pinnedAuthID
      in if providerKey = [] \<or> \<not> containsProvider normalized providerKey then (Inl not_found, s)
         else let s1 = ensureIn modelKey t1 providerKey s
              in case candidateShard modelKey s1 providerKey of
                   None \<Rightarrow> (Inl not_found, s)
                 | Some shard \<Rightarrow>
                     let (picked, shard') = pickReadyLocked False strategy predicate t2 shard;
                         s2 = putShard providerKey (canonicalModelKey modelKey) shard' s1
                     in (case picked of
                           Some a \<Rightarrow> Inr (a, providerKey)
                         | None \<Rightarrow> Inl (unavailableErrorLocked ''mixed'' model predicate t3 shard'), s2))"

definition pickUnpinned ::
  "go_time \<Rightarrow> go_time \<Rightarrow> string list \<Rightarrow> string \<Rightarrow> (scheduledAuth \<Rightarrow> bool) \<Rightarrow> schedulerStrategy
    \<Rightarrow> authScheduler \<Rightarrow> (pick_error + auth \<times> string) \<times> authScheduler" where
  "pickUnpinned t1 t3 normalized model predicate strategy s =
     (let modelKey = canonicalModelKey model;
          cursorKey = strings_Join normalized '','' @ '':'' @ modelKey;
          s1 = ensureAll modelKey t1 normalized s;
          fail = (\<lambda>s'. let (err, s'') = mixedUnavailableErrorLocked normalized model predicate t3 s'
                       in (Inl err, s''))
      in case bestReadyPriority modelKey predicate s1 normalized of
           None \<Rightarrow> fail s1
         | Some bestPriority \<Rightarrow>
             (case (if strategy = schedulerStrategyFillFirst
                    then mixedFillFirst modelKey bestPriority predicate normalized s1
                    else if strategy = schedulerStrategyWeightedRoundRobin
                    then mixedWeighted cursorKey modelKey bestPriority predicate normalized s1
                    else mixedRotation cursorKey modelKey bestPriority predicate normalized s1) of
                (Some picked, s2) \<Rightarrow> (Inr picked, s2)
              | (None, s2) \<Rightarrow> fail s2))"

definition pickMixedWithStrategy ::
  "go_time \<Rightarrow> go_time \<Rightarrow> go_time \<Rightarrow> string list \<Rightarrow> string \<Rightarrow> request \<Rightarrow> string list \<Rightarrow> schedulerStrategy
    \<Rightarrow> authScheduler \<Rightarrow> (pick_error + auth \<times> string) \<times> authScheduler" where
  "pickMixedWithStrategy t1 t2 t3 providers model rq tried strategy0 s =
     (case normalizeProviderKeys providers of
        [] \<Rightarrow> (Inl (PickError ''provider_not_found'' None), s)
      | [providerKey] \<Rightarrow>
          (case pickSingleWithStrategy t1 t2 t3 providerKey model rq tried strategy0 s of
             (Inl err, s') \<Rightarrow> (Inl err, s')
           | (Inr a, s') \<Rightarrow> (Inr (a, providerKey), s'))
      | normalized \<Rightarrow>
          let pinnedAuthID = pinnedAuthIDFromMetadata (rq_Metadata rq);
              strategy = (if strategy0 = schedulerStrategyCurrent then as_strategy s else strategy0);
              predicate = scheduledAuthPredicate (authSelectionEligibilityForRequest rq) tried pinnedAuthID
                            (strategy = schedulerStrategyWeightedRoundRobin)
          in if pinnedAuthID \<noteq> []
             then pickPinned t1 t2 t3 normalized model pinnedAuthID predicate strategy s
             else pickUnpinned t1 t3 normalized model predicate strategy s)"

definition pickMixed ::
  "go_time \<Rightarrow> go_time \<Rightarrow> go_time \<Rightarrow> string list \<Rightarrow> string \<Rightarrow> request \<Rightarrow> string list
    \<Rightarrow> authScheduler \<Rightarrow> (pick_error + auth \<times> string) \<times> authScheduler" where
  "pickMixed t1 t2 t3 providers model rq tried = pickMixedWithStrategy t1 t2 t3 providers model rq tried schedulerStrategyCurrent"

end
