(* ===== verification/SchedulerInv.thy ===== *)
theory SchedulerInv
  imports SchedulerMixed
begin

text \<open>
  The invariant of the scheduler: every shard of a provider holds exactly the credentials of the
  provider that support its model, with their current metadata; every credential is registered
  with at most one provider, the one the pinned lookup finds; the recorded generation of a stored
  credential is its own. Every operation preserves it, so that what holds for reachable shards
  holds for every shard a pick meets.
\<close>

section \<open>Shards in step with their provider\<close>

definition wanted :: "(string, scheduledAuthMeta) go_map \<Rightarrow> string \<Rightarrow> string \<Rightarrow> scheduledAuthMeta option" where
  "wanted auths k ident =
     (case map_of auths ident of Some meta \<Rightarrow> if supportsModel meta k then Some meta else None | None \<Rightarrow> None)"

definition shard_in_step :: "(string, scheduledAuthMeta) go_map \<Rightarrow> string \<Rightarrow> modelScheduler \<Rightarrow> bool" where
  "shard_in_step auths k sh \<longleftrightarrow> (\<forall>ident. map_option se_meta (map_of (sh_entries sh) ident) = wanted auths k ident)"

lemma reevaluate_meta [simp]: "se_meta (reevaluate k now e) = se_meta e"
  by (simp add: reevaluate_def split: prod.splits)

lemma remove_lookup:
  "map_of (sh_entries (removeEntryLocked authID m)) ident =
     (if ident = authID \<and> authID \<noteq> [] then None else map_of (sh_entries m) ident)"
  by (simp add: removeEntryLocked_def map_of_delete has_key_def)

lemma upsert_lookup:
  "map_option se_meta (map_of (sh_entries (upsertEntryLocked meta now m)) ident) =
     (if ident = auth_ID (sm_auth meta) then Some meta else map_option se_meta (map_of (sh_entries m) ident))"
  by (simp add: upsert_entries(1) map_of_update)

lemma promoteLoop_meta:
  "map_option se_meta (map_of (fst (promoteLoop k now ids (es, ch))) ident) = map_option se_meta (map_of es ident)"
proof (induction ids arbitrary: es ch)
  case (Cons i ids)
  then show ?case
    by (auto simp: promoteLoop_step map_of_update simp del: promoteLoop.simps(2) split: option.splits)
qed simp

lemma promote_in_step: "shard_in_step auths k sh \<Longrightarrow> shard_in_step auths k (promoteExpiredLocked now sh)"
  by (simp add: shard_in_step_def promote_entries(1) promoteLoop_meta)

lemma pickAt_in_step:
  "shard_in_step auths k (snd (pickReadyAtPriorityLocked ws p strategy pred sh)) = shard_in_step auths k sh"
  by (simp add: shard_in_step_def)

lemma remove_in_step:
  "shard_in_step auths k sh \<Longrightarrow> authID \<noteq> [] \<Longrightarrow> shard_in_step (AList.delete authID auths) k (removeEntryLocked authID sh)"
  by (simp add: shard_in_step_def remove_lookup wanted_def map_of_delete)

lemma upsert_in_step:
  assumes "shard_in_step auths k sh" "auth_ID (sm_auth meta) = ident" "ident \<noteq> []"
  shows "shard_in_step (AList.update ident meta auths) k
    (if \<not> supportsModel meta k then removeEntryLocked ident sh else upsertEntryLocked meta now sh)"
  using assms by (simp add: shard_in_step_def remove_lookup upsert_lookup wanted_def map_of_update)

lemma build_in_step:
  assumes "wf_map auths" "\<forall>(ident, meta) \<in> set auths. auth_ID (sm_auth meta) = ident"
  shows "shard_in_step auths k (buildShard k now auths)"
  using assms
proof (induction auths rule: rev_induct)
  case Nil
  then show ?case by (simp add: shard_in_step_def wanted_def buildShard_def emptyShard_def)
next
  case (snoc x auths)
  obtain ident meta where x: "x = (ident, meta)" by force
  have step: "buildShard k now (auths @ [x]) =
      (if supportsModel meta k then upsertEntryLocked meta now (buildShard k now auths) else buildShard k now auths)"
    by (simp add: buildShard_def x)
  have fresh: "map_of auths ident = None" using snoc.prems(1) x by (simp add: map_of_eq_None_iff)
  have w: "wanted (auths @ [x]) k i = (if i = ident then (if supportsModel meta k then Some meta else None)
      else wanted auths k i)" for i
    using fresh by (auto simp: wanted_def x map_add_def split: option.splits)
  have "shard_in_step auths k (buildShard k now auths)" using snoc by simp
  then show ?case
    using fresh snoc.prems(2) unfolding step shard_in_step_def w
    by (auto simp: upsert_lookup x wanted_def)
qed

lemma build_reach:
  assumes "0 \<le> now" "\<forall>(ident, meta) \<in> set auths. meta_ok meta"
  shows "shard_reach k now (buildShard k now auths)"
  using assms
proof (induction auths rule: rev_induct)
  case Nil
  then show ?case by (simp add: buildShard_def shard_reach.init)
next
  case (snoc x auths)
  then have "shard_reach k now (buildShard k now auths)" by simp
  with snoc show ?case
    using shard_reach.upsert[of k now "buildShard k now auths" now "snd x"] by (auto simp: buildShard_def)
qed

section \<open>One provider\<close>

definition enabled_auth :: "auth \<Rightarrow> bool" where
  "enabled_auth a \<longleftrightarrow> \<not> auth_Disabled a \<and> auth_Status a \<noteq> StatusDisabled"

definition member_ok :: "string \<Rightarrow> string \<Rightarrow> scheduledAuthMeta \<Rightarrow> bool" where
  "member_ok pk ident meta \<longleftrightarrow>
     auth_ID (sm_auth meta) = ident \<and> meta_ok meta \<and> sm_providerKey meta = pk \<and>
     executorKeyFromAuth (Some (sm_auth meta)) = pk \<and> enabled_auth (sm_auth meta)"

definition provider_ok :: "go_time \<Rightarrow> string \<Rightarrow> providerScheduler \<Rightarrow> bool" where
  "provider_ok now pk p \<longleftrightarrow>
     pv_providerKey p = pk \<and> wf_map (pv_auths p) \<and>
     (\<forall>ident meta. map_of (pv_auths p) ident = Some meta \<longrightarrow> member_ok pk ident meta) \<and>
     (\<forall>k sh. map_of (pv_modelShards p) k = Some sh \<longrightarrow> shard_reach k now sh \<and> shard_in_step (pv_auths p) k sh)"

lemma provider_ok_mono: "provider_ok t pk p \<Longrightarrow> t \<le> now \<Longrightarrow> provider_ok now pk p"
  unfolding provider_ok_def by (blast intro: shard_reach.wait)

lemma member_ne: "member_ok pk ident meta \<Longrightarrow> ident \<noteq> []"
  by (auto simp: member_ok_def meta_ok_def)

lemma map_of_mapk: "map_of (map (\<lambda>(k, v). (k, f k v)) m) k = map_option (f k) (map_of m k)"
  by (induction m) auto

lemma provider_upsert_ok:
  assumes "provider_ok t pk p" "t \<le> now" "member_ok pk (auth_ID (sm_auth meta)) meta"
  shows "provider_ok now pk (provider_upsertAuthLocked meta now p)"
proof -
  let ?id = "auth_ID (sm_auth meta)"
  have ne: "?id \<noteq> []" by (rule member_ne[OF assms(3)])
  have shards: "shard_reach k now sh' \<and> shard_in_step (AList.update ?id meta (pv_auths p)) k sh'"
    if "map_of (pv_modelShards p) k = Some sh"
      and sh': "sh' = (if \<not> supportsModel meta k then removeEntryLocked ?id sh else upsertEntryLocked meta now sh)"
    for k sh sh'
  proof -
    have o: "shard_reach k t sh" "shard_in_step (pv_auths p) k sh" using assms(1) that(1) by (auto simp: provider_ok_def)
    have "shard_reach k now sh'"
      using shard_reach.remove[OF o(1) assms(2)] shard_reach.upsert[OF o(1) assms(2)] assms(3)
      unfolding sh' member_ok_def by simp
    then show ?thesis unfolding sh' using upsert_in_step[OF o(2) refl ne] by simp
  qed
  let ?p = "provider_upsertAuthLocked meta now p"
  have "shard_reach k now sh' \<and> shard_in_step (pv_auths ?p) k sh'" if k: "map_of (pv_modelShards ?p) k = Some sh'" for k sh'
  proof -
    obtain sh where "map_of (pv_modelShards p) k = Some sh"
      "sh' = (if \<not> supportsModel meta k then removeEntryLocked ?id sh else upsertEntryLocked meta now sh)"
      using k by (auto simp: provider_upsertAuthLocked_def Let_def map_of_mapk)
    from shards[OF this] show ?thesis by (simp add: provider_upsertAuthLocked_def Let_def)
  qed
  moreover have "wf_map (pv_auths ?p)"
    using assms(1) unfolding provider_ok_def
    by (simp add: provider_upsertAuthLocked_def Let_def distinct_update)
  moreover have "pv_providerKey ?p = pk" "\<forall>ident m. map_of (pv_auths ?p) ident = Some m \<longrightarrow> member_ok pk ident m"
    using assms(1,3) unfolding provider_ok_def
    by (simp_all add: provider_upsertAuthLocked_def Let_def map_of_update)
  ultimately show ?thesis unfolding provider_ok_def by blast
qed

lemma provider_remove_ok:
  assumes "provider_ok now pk p"
  shows "provider_ok now pk (provider_removeAuthLocked authID p)"
proof (cases "authID = []")
  case False
  with assms show ?thesis
    by (auto simp: provider_ok_def provider_removeAuthLocked_def map_of_mapk map_of_delete
        intro: shard_reach.remove[where t = now] remove_in_step split: if_splits)
qed (simp add: assms provider_removeAuthLocked_def)

lemma ensure_ok:
  assumes "provider_ok t pk p" "t \<le> now" "0 \<le> now"
  shows "provider_ok now pk (snd (ensureModelLocked k now p))"
proof -
  let ?k = "canonicalModelKey k"
  have mem: "\<forall>(ident, meta) \<in> set (pv_auths p). member_ok pk ident meta"
    using assms(1) by (auto simp: provider_ok_def)
  define sh where "sh = fst (ensureModelLocked k now p)"
  have "shard_reach ?k now sh \<and> shard_in_step (pv_auths p) ?k sh"
  proof (cases "map_of (pv_modelShards p) ?k")
    case None
    with mem assms(1,3) show ?thesis
      unfolding sh_def
      by (auto simp: ensureModelLocked_def Let_def provider_ok_def member_ok_def intro!: build_in_step build_reach)
  next
    case (Some sh0)
    then have o: "shard_reach ?k t sh0" "shard_in_step (pv_auths p) ?k sh0"
      using assms(1) by (auto simp: provider_ok_def)
    show ?thesis
      using Some promote_in_step[OF o(2)] shard_reach.promote[OF o(1) assms(2)]
      by (simp add: sh_def ensureModelLocked_def Let_def)
  qed
  moreover have "snd (ensureModelLocked k now p) = p\<lparr>pv_modelShards := AList.update ?k sh (pv_modelShards p)\<rparr>"
    by (simp add: ensureModelLocked_def Let_def sh_def)
  ultimately show ?thesis
    using provider_ok_mono[OF assms(1,2)] by (auto simp: provider_ok_def map_of_update)
qed

section \<open>The scheduler\<close>

text \<open>The metadata a provider stores under an ID.\<close>

definition stored :: "authScheduler \<Rightarrow> string \<Rightarrow> string \<Rightarrow> scheduledAuthMeta option" where
  "stored s pk ident = (case map_of (as_providers s) pk of None \<Rightarrow> None | Some p \<Rightarrow> map_of (pv_auths p) ident)"

definition generation_of :: "auth \<Rightarrow> scheduledGenerationMeta" where
  "generation_of a = \<lparr>gm_epoch = auth_RegistrationEpoch a, gm_generation = auth_Generation a, gm_updatedAt = auth_UpdatedAt a\<rparr>"

definition providers_ok :: "go_time \<Rightarrow> authScheduler \<Rightarrow> bool" where
  "providers_ok now s \<longleftrightarrow> (\<forall>pk p. map_of (as_providers s) pk = Some p \<longrightarrow> pk \<noteq> [] \<and> provider_ok now pk p)"

definition links_ok :: "authScheduler \<Rightarrow> bool" where
  "links_ok s \<longleftrightarrow>
     (\<forall>pk ident meta. stored s pk ident = Some meta \<longrightarrow>
        map_of (as_authProviders s) ident = Some pk \<and> TrimSpace ident = ident \<and>
        map_of (as_authGenerations s) ident \<in> {None, Some (generation_of (sm_auth meta))}) \<and>
     (\<forall>pk ident. map_of (as_authProviders s) ident = Some pk \<longrightarrow> pk \<noteq> [] \<and> stored s pk ident \<noteq> None)"

definition sched_ok :: "go_time \<Rightarrow> authScheduler \<Rightarrow> bool" where
  "sched_ok now s \<longleftrightarrow> 0 \<le> now \<and> providers_ok now s \<and> links_ok s"

lemma sched_ok_mono: "sched_ok t s \<Longrightarrow> t \<le> now \<Longrightarrow> sched_ok now s"
  unfolding sched_ok_def providers_ok_def
  by (intro conjI allI impI) (auto intro: provider_ok_mono[of t _ _ now] dest: spec)

lemma stored_removeFrom:
  "ident \<noteq> [] \<Longrightarrow> stored (removeAuthFrom k ident s) pk i = (if pk = k \<and> i = ident then None else stored s pk i)"
  by (auto simp: stored_def removeAuthFrom_def provider_removeAuthLocked_def map_of_update map_of_delete split: option.splits)

lemma removeFrom_fields [simp]:
  "as_authProviders (removeAuthFrom k ident s) = as_authProviders s"
  "as_authGenerations (removeAuthFrom k ident s) = as_authGenerations s"
  by (simp_all add: removeAuthFrom_def split: option.splits)

lemma stored_fields [simp]:
  "stored (s\<lparr>as_authProviders := x\<rparr>) = stored s" "stored (s\<lparr>as_authGenerations := y\<rparr>) = stored s"
  "stored (s\<lparr>as_mixedCursors := u\<rparr>) = stored s" "stored (s\<lparr>as_mixedWeightedStates := v\<rparr>) = stored s"
  "stored (s\<lparr>as_strategy := w\<rparr>) = stored s"
  by (simp_all add: stored_def fun_eq_iff)

lemma providers_removeFrom: "providers_ok now s \<Longrightarrow> providers_ok now (removeAuthFrom k ident s)"
  by (auto simp: providers_ok_def removeAuthFrom_def map_of_update provider_remove_ok split: option.splits)

lemma providers_ok_fields [simp]:
  "providers_ok now (s\<lparr>as_authProviders := x\<rparr>) = providers_ok now s"
  "providers_ok now (s\<lparr>as_authGenerations := y\<rparr>) = providers_ok now s"
  "providers_ok now (s\<lparr>as_mixedCursors := u\<rparr>) = providers_ok now s"
  "providers_ok now (s\<lparr>as_mixedWeightedStates := v\<rparr>) = providers_ok now s"
  "providers_ok now (s\<lparr>as_strategy := w\<rparr>) = providers_ok now s"
  by (simp_all add: providers_ok_def)

lemma stored_link:
  "links_ok s \<Longrightarrow> stored s pk ident = Some meta \<Longrightarrow>
     map_of (as_authProviders s) ident = Some pk \<and> TrimSpace ident = ident \<and>
     map_of (as_authGenerations s) ident \<in> {None, Some (generation_of (sm_auth meta))}"
  unfolding links_ok_def by blast

lemma stored_provider:
  "links_ok s \<Longrightarrow> stored s pk ident = Some meta \<Longrightarrow> map_of (as_authProviders s) ident = Some pk \<and> pk \<noteq> []"
  unfolding links_ok_def by blast

text \<open>Removing a credential clears it everywhere and nothing else.\<close>

lemma removeFromProviders:
  assumes "links_ok s" "ident \<noteq> []"
  defines "s' \<equiv> removeAuthFromProvidersLocked ident s"
  shows "stored s' pk i = (if i = ident then None else stored s pk i)"
    and "map_of (as_authProviders s') i = (if i = ident then None else map_of (as_authProviders s) i)"
    and "as_authGenerations s' = as_authGenerations s"
proof -
  have un: "stored s pk ident = None" if "map_get [] (as_authProviders s) ident \<noteq> pk \<or> map_get [] (as_authProviders s) ident = []"
    using stored_provider[OF assms(1), of pk ident] that by (cases "stored s pk ident") (auto simp: map_get_def)
  show "stored s' pk i = (if i = ident then None else stored s pk i)"
    using un by (auto simp: s'_def removeAuthFromProvidersLocked_def Let_def stored_removeFrom assms(2))
  show "map_of (as_authProviders s') i = (if i = ident then None else map_of (as_authProviders s) i)"
    using assms(1)
    by (auto simp: s'_def removeAuthFromProvidersLocked_def Let_def map_of_delete links_ok_def map_get_def
        split: option.splits)
  show "as_authGenerations s' = as_authGenerations s"
    by (simp add: s'_def removeAuthFromProvidersLocked_def Let_def)
qed

lemma remove_links:
  assumes "links_ok s" "ident \<noteq> []"
  shows "links_ok (removeAuthFromProvidersLocked ident (s\<lparr>as_authGenerations := AList.update ident g (as_authGenerations s)\<rparr>))"
proof -
  let ?s1 = "s\<lparr>as_authGenerations := AList.update ident g (as_authGenerations s)\<rparr>"
  define s0 where "s0 = removeAuthFromProvidersLocked ident s"
  have "removeAuthFromProvidersLocked ident ?s1 = s0\<lparr>as_authGenerations := AList.update ident g (as_authGenerations s)\<rparr>"
    by (auto simp: s0_def removeAuthFromProvidersLocked_def removeAuthFrom_def Let_def split: option.splits)
  then show ?thesis
    using assms removeFromProviders[OF assms] unfolding s0_def[symmetric] links_ok_def
    by (auto simp: map_of_update)
qed

lemma remove_providers: "providers_ok now s \<Longrightarrow> providers_ok now (removeAuthFromProvidersLocked ident s)"
  by (auto simp: removeAuthFromProvidersLocked_def Let_def providers_removeFrom)

subsection \<open>Registration\<close>

lemma build_member_ok:
  "auth_ID a \<noteq> [] \<Longrightarrow> enabled_auth a \<Longrightarrow>
     member_ok (executorKeyFromAuth (Some a)) (auth_ID a) (buildScheduledAuthMeta models_of a)"
  by (simp add: member_ok_def meta_ok_def buildScheduledAuthMeta_def)

lemma build_auth [simp]: "sm_auth (buildScheduledAuthMeta models_of a) = a"
  by (simp add: buildScheduledAuthMeta_def)

lemma ensureProvider_ok:
  "providers_ok now s \<Longrightarrow> provider_ok now pk (ensureProviderLocked pk s)"
  by (auto simp: providers_ok_def ensureProviderLocked_def provider_ok_def split: option.splits)

lemma ensureProvider_auths:
  "map_of (pv_auths (ensureProviderLocked pk s)) ident = stored s pk ident"
  by (simp add: ensureProviderLocked_def stored_def split: option.splits)

text \<open>An upsert that is not stale and of an enabled credential stores it with its provider alone.\<close>

lemma accepted_upsert:
  fixes models_of :: "string \<Rightarrow> string list" and now :: go_time
  assumes "links_ok s" "TrimSpace (auth_ID a) = auth_ID a" "auth_ID a \<noteq> []"
    and "\<not> isStaleScheduledAuth (auth_ID a) (auth_RegistrationEpoch a) (auth_Generation a) (auth_UpdatedAt a) s"
    and "executorKeyFromAuth (Some a) \<noteq> []" "enabled_auth a"
  defines "s' \<equiv> upsertAuthLocked models_of (Some a) now s"
  shows "stored s' pk i = (if i = auth_ID a
           then if pk = executorKeyFromAuth (Some a) then Some (buildScheduledAuthMeta models_of a) else None
           else stored s pk i)"
    and "map_of (as_authProviders s') i = (if i = auth_ID a then Some (executorKeyFromAuth (Some a)) else map_of (as_authProviders s) i)"
    and "map_of (as_authGenerations s') i = (if i = auth_ID a then Some (generation_of a) else map_of (as_authGenerations s) i)"
    and "providers_ok t s \<Longrightarrow> t \<le> now \<Longrightarrow> providers_ok now s'"
proof -
  let ?k = "executorKeyFromAuth (Some a)"
  define s1 where "s1 = s\<lparr>as_authGenerations := AList.update (auth_ID a) (generation_of a) (as_authGenerations s)\<rparr>"
  define prev where "prev = map_get [] (as_authProviders s) (auth_ID a)"
  define s2 where "s2 = (if prev \<noteq> [] \<and> prev \<noteq> ?k then removeAuthFrom prev (auth_ID a) s1 else s1)"
  define q where "q = provider_upsertAuthLocked (buildScheduledAuthMeta models_of a) now (ensureProviderLocked ?k s2)"
  have s': "s' = s2\<lparr>as_authProviders := AList.update (auth_ID a) ?k (as_authProviders s2),
      as_providers := AList.update ?k q (as_providers s2)\<rparr>"
    using assms(2-6)
    by (simp add: s'_def upsertAuthLocked_def Let_def s1_def s2_def q_def prev_def enabled_auth_def generation_of_def)
  have f: "as_authProviders s2 = as_authProviders s" "as_authGenerations s2 = as_authGenerations s1"
    by (simp_all add: s2_def s1_def)
  have un: "stored s pk (auth_ID a) = None" if "pk \<noteq> prev" for pk
    using stored_provider[OF assms(1), of pk "auth_ID a"] that
    by (cases "stored s pk (auth_ID a)") (auto simp: prev_def map_get_def)
  have st2: "stored s2 pk i = (if i = auth_ID a \<and> pk \<noteq> ?k then None else stored s pk i)" for pk i
    using un[of pk] stored_provider[OF assms(1), of pk "auth_ID a"]
    by (cases "stored s pk (auth_ID a)")
       (auto simp: s2_def s1_def stored_removeFrom assms(3))
  have q: "map_of (pv_auths q) i = (if i = auth_ID a then Some (buildScheduledAuthMeta models_of a) else stored s2 ?k i)" for i
    by (simp add: q_def provider_upsertAuthLocked_def Let_def map_of_update ensureProvider_auths)
  show "stored s' pk i = (if i = auth_ID a
      then if pk = ?k then Some (buildScheduledAuthMeta models_of a) else None else stored s pk i)"
    using st2[of pk i] q[of i] st2[of ?k i]
    by (auto simp: s' stored_def[of "s2\<lparr>as_authProviders := _, as_providers := _\<rparr>"] map_of_update)
       (auto simp: stored_def split: option.splits)
  show "map_of (as_authProviders s') i = (if i = auth_ID a then Some ?k else map_of (as_authProviders s) i)"
    by (simp add: s' f map_of_update)
  show "map_of (as_authGenerations s') i = (if i = auth_ID a then Some (generation_of a) else map_of (as_authGenerations s) i)"
    by (simp add: s' f s1_def map_of_update)
  assume "providers_ok t s" and t: "t \<le> now"
  then have "providers_ok t s2" by (simp add: s2_def s1_def providers_removeFrom)
  moreover from ensureProvider_ok[OF this] have "provider_ok now ?k q"
    unfolding q_def using t build_member_ok[OF assms(3,6)] by (intro provider_upsert_ok) simp_all
  ultimately show "providers_ok now s'"
    using assms(5) t by (auto simp: s' providers_ok_def map_of_update intro: provider_ok_mono)
qed

lemma upsert_sched_ok:
  assumes "sched_ok t s" "t \<le> now" "\<forall>a. ao = Some a \<longrightarrow> TrimSpace (auth_ID a) = auth_ID a"
  shows "sched_ok now (upsertAuthLocked models_of ao now s)"
proof (cases ao)
  case None
  then show ?thesis using sched_ok_mono[OF assms(1,2)] by (simp add: upsertAuthLocked_def)
next
  case (Some a)
  have tr: "TrimSpace (auth_ID a) = auth_ID a" using assms(3) Some by simp
  have ok: "links_ok s" "providers_ok t s" "0 \<le> now" using assms(1,2) by (auto simp: sched_ok_def)
  consider "auth_ID a = [] \<or> isStaleScheduledAuth (auth_ID a) (auth_RegistrationEpoch a) (auth_Generation a) (auth_UpdatedAt a) s"
    | "auth_ID a \<noteq> []" "\<not> isStaleScheduledAuth (auth_ID a) (auth_RegistrationEpoch a) (auth_Generation a) (auth_UpdatedAt a) s"
      "executorKeyFromAuth (Some a) = [] \<or> \<not> enabled_auth a"
    | "auth_ID a \<noteq> []" "\<not> isStaleScheduledAuth (auth_ID a) (auth_RegistrationEpoch a) (auth_Generation a) (auth_UpdatedAt a) s"
      "executorKeyFromAuth (Some a) \<noteq> []" "enabled_auth a"
    by blast
  then show ?thesis
  proof cases
    case 1
    then have "upsertAuthLocked models_of ao now s = s"
      by (elim disjE) (simp_all add: upsertAuthLocked_def Some tr Let_def)
    then show ?thesis using sched_ok_mono[OF assms(1,2)] by simp
  next
    case 2
    then have e: "upsertAuthLocked models_of ao now s = removeAuthFromProvidersLocked (auth_ID a)
        (s\<lparr>as_authGenerations := AList.update (auth_ID a) (generation_of a) (as_authGenerations s)\<rparr>)"
      by (auto simp: upsertAuthLocked_def Some tr Let_def enabled_auth_def generation_of_def)
    have "providers_ok now s" using sched_ok_mono[OF assms(1,2)] by (simp add: sched_ok_def)
    then show ?thesis
      using remove_links[OF ok(1) 2(1)] ok(3) by (simp add: e sched_ok_def remove_providers)
  next
    case 3
    note u = accepted_upsert[OF ok(1) tr 3, where models_of = models_of and now = now]
    have "links_ok (upsertAuthLocked models_of (Some a) now s)"
      using ok(1) 3(3) tr unfolding links_ok_def u(1-3) by (auto split: if_splits)
    then show ?thesis using u(4)[OF ok(2) assms(2)] ok(3) by (simp add: sched_ok_def Some)
  qed
qed

lemma removal_sched_ok:
  assumes "sched_ok t s" "t \<le> now"
  shows "sched_ok now (RecordRemovalTombstone ident epoch now s)" and "sched_ok now (removeAuth ident now s)"
    and "sched_ok now (ResetAuthGeneration ident s)" and "sched_ok now (setSelector sel s)"
proof -
  have ok: "sched_ok now s" by (rule sched_ok_mono[OF assms])
  then have "sched_ok now (removeAuthFromProvidersLocked i (s\<lparr>as_authGenerations := AList.update i g (as_authGenerations s)\<rparr>))"
    if "i \<noteq> []" for i g
    using remove_links[OF _ that, of s g] by (simp add: sched_ok_def remove_providers)
  then show "sched_ok now (RecordRemovalTombstone ident epoch now s)" "sched_ok now (removeAuth ident now s)"
    using ok by (simp_all add: RecordRemovalTombstone_def removeAuth_def Let_def)
  show "sched_ok now (ResetAuthGeneration ident s)" "sched_ok now (setSelector sel s)"
    using ok by (auto simp: ResetAuthGeneration_def setSelector_def Let_def sched_ok_def links_ok_def map_of_delete)
qed

lemma empty_sched_ok:
  "0 \<le> now \<Longrightarrow> as_providers s = [] \<Longrightarrow> as_authProviders s = [] \<Longrightarrow> sched_ok now s"
  by (simp add: sched_ok_def providers_ok_def links_ok_def stored_def)

lemma rebuild_sched_ok:
  assumes "0 \<le> now" "\<forall>a. Some a \<in> set auths \<longrightarrow> TrimSpace (auth_ID a) = auth_ID a"
  shows "sched_ok now (rebuild models_of auths now s)"
proof -
  have "sched_ok now (foldl (\<lambda>s a. upsertAuthLocked models_of a now s) s0 auths)" if "sched_ok now s0" for s0
    using that assms(2)
  proof (induction auths arbitrary: s0)
    case (Cons a auths)
    then show ?case using upsert_sched_ok[OF Cons.prems(1) order.refl, of a models_of] by auto
  qed simp
  then show ?thesis using assms(1) by (simp add: rebuild_def empty_sched_ok)
qed

subsection \<open>Picks\<close>

text \<open>What a pick may change: the shards and the cursors, never what is stored.\<close>

definition keeps :: "go_time \<Rightarrow> go_time \<Rightarrow> authScheduler \<Rightarrow> authScheduler \<Rightarrow> bool" where
  "keeps t now s s' \<longleftrightarrow>
     stored s' = stored s \<and> as_authProviders s' = as_authProviders s \<and> as_authGenerations s' = as_authGenerations s \<and>
     (providers_ok t s \<longrightarrow> providers_ok now s')"

lemma keeps_sched_ok: "keeps t now s s' \<Longrightarrow> sched_ok t s \<Longrightarrow> 0 \<le> now \<Longrightarrow> sched_ok now s'"
  by (simp add: keeps_def sched_ok_def links_ok_def)

lemma keeps_refl: "t \<le> now \<Longrightarrow> keeps t now s s"
  unfolding keeps_def providers_ok_def using provider_ok_mono by blast

lemma keeps_trans: "keeps t u s s' \<Longrightarrow> keeps u now s' s'' \<Longrightarrow> keeps t now s s''"
  by (simp add: keeps_def)

lemma keeps_cursors [simp]:
  "keeps t now s (s'\<lparr>as_mixedCursors := x\<rparr>) = keeps t now s s'"
  "keeps t now s (s'\<lparr>as_mixedWeightedStates := y\<rparr>) = keeps t now s s'"
  by (simp_all add: keeps_def)

lemma setProvider_keeps:
  assumes "t \<le> now" "map_of (as_providers s) pk = Some p" "pv_auths p' = pv_auths p"
    and "providers_ok t s \<Longrightarrow> provider_ok now pk p'"
  shows "keeps t now s (s\<lparr>as_providers := AList.update pk p' (as_providers s)\<rparr>)"
proof -
  have "providers_ok now (s\<lparr>as_providers := AList.update pk p' (as_providers s)\<rparr>)" if "providers_ok t s"
    unfolding providers_ok_def
  proof (intro allI impI)
    fix i q
    assume "map_of (as_providers (s\<lparr>as_providers := AList.update pk p' (as_providers s)\<rparr>)) i = Some q"
    then have "(i = pk \<and> q = p') \<or> map_of (as_providers s) i = Some q" by (auto simp: map_of_update split: if_splits)
    then show "i \<noteq> [] \<and> provider_ok now i q"
      using assms(2,4) that provider_ok_mono[OF _ assms(1)] unfolding providers_ok_def by blast
  qed
  then show ?thesis
    using assms(2,3) by (auto simp: keeps_def stored_def fun_eq_iff map_of_update)
qed

lemma ensureIn_keeps:
  assumes "t \<le> now" "0 \<le> now"
  shows "keeps t now s (ensureIn k now pk s)"
proof (cases "map_of (as_providers s) pk")
  case (Some p)
  then show ?thesis
    using ensure_ok[OF _ assms, of pk p k] unfolding ensureIn_def
    by (auto intro!: setProvider_keeps[OF assms(1) Some] simp: ensureModelLocked_def Let_def providers_ok_def)
qed (simp add: ensureIn_def keeps_refl assms(1))

lemma ensureIn_shard:
  "candidateShard k (ensureIn k now pk s) pk = map_option (\<lambda>p. fst (ensureModelLocked k now p)) (map_of (as_providers s) pk)"
  by (simp add: candidateShard_def ensureIn_def ensureModelLocked_def Let_def map_of_update split: option.splits)

lemma candidate_ok:
  assumes "providers_ok now s" "candidateShard k s pk = Some sh"
  shows "shard_reach (canonicalModelKey k) now sh"
    and "\<exists>p. map_of (as_providers s) pk = Some p \<and> shard_in_step (pv_auths p) (canonicalModelKey k) sh"
  using assms by (auto simp: providers_ok_def candidateShard_def provider_ok_def split: option.splits)

lemma putShard_keeps:
  assumes "t \<le> now"
    and "providers_ok t s \<Longrightarrow> shard_reach k now sh"
    and "\<And>p. providers_ok t s \<Longrightarrow> map_of (as_providers s) pk = Some p \<Longrightarrow> shard_in_step (pv_auths p) k sh"
  shows "keeps t now s (putShard pk k sh s)"
proof (cases "map_of (as_providers s) pk")
  case None
  then show ?thesis using keeps_refl[OF assms(1)] by (simp add: putShard_def)
next
  case (Some p)
  have "provider_ok now pk (p\<lparr>pv_modelShards := AList.update k sh (pv_modelShards p)\<rparr>)" if "providers_ok t s"
  proof -
    have "provider_ok now pk p" using that Some assms(1) provider_ok_mono unfolding providers_ok_def by blast
    then show ?thesis using assms(2,3) that Some by (auto simp: provider_ok_def map_of_update)
  qed
  then show ?thesis
    using setProvider_keeps[OF assms(1) Some, of "p\<lparr>pv_modelShards := AList.update k sh (pv_modelShards p)\<rparr>"]
    by (simp add: putShard_def Some)
qed

lemma pickReady_in_step:
  "shard_in_step auths k sh \<Longrightarrow> shard_in_step auths k (snd (pickReadyLocked ws strategy pred now sh))"
  by (auto simp: pickReadyLocked_def Let_def pickAt_in_step promote_in_step split: option.splits)

lemma pick_keeps:
  assumes "t \<le> now" "candidateShard k s pk = Some sh"
  shows "keeps t now s (putShard pk (canonicalModelKey k) (snd (pickReadyLocked ws strategy pred now sh)) s)"
    and "keeps t now s (putShard pk (canonicalModelKey k) (snd (pickReadyAtPriorityLocked ws p strategy pred sh)) s)"
proof -
  have c: "shard_reach (canonicalModelKey k) t sh" "\<exists>p. map_of (as_providers s) pk = Some p \<and> shard_in_step (pv_auths p) (canonicalModelKey k) sh"
    if "providers_ok t s" using candidate_ok[OF that assms(2)] by simp_all
  show "keeps t now s (putShard pk (canonicalModelKey k) (snd (pickReadyLocked ws strategy pred now sh)) s)"
    using c shard_reach_pick[OF _ assms(1)] pickReady_in_step by (intro putShard_keeps[OF assms(1)]) fastforce+
  show "keeps t now s (putShard pk (canonicalModelKey k) (snd (pickReadyAtPriorityLocked ws p strategy pred sh)) s)"
    using c shard_reach.pickAt[OF _ assms(1)] pickAt_in_step by (intro putShard_keeps[OF assms(1)]) fastforce+
qed

definition chosen_strategy :: "schedulerStrategy \<Rightarrow> authScheduler \<Rightarrow> schedulerStrategy" where
  "chosen_strategy strategy s = (if strategy = schedulerStrategyCurrent then as_strategy s else strategy)"

definition request_pred :: "request \<Rightarrow> string list \<Rightarrow> schedulerStrategy \<Rightarrow> scheduledAuth \<Rightarrow> bool" where
  "request_pred rq tried strategy = scheduledAuthPredicate (authSelectionEligibilityForRequest rq) tried
     (pinnedAuthIDFromMetadata (rq_Metadata rq)) (strategy = schedulerStrategyWeightedRoundRobin)"

definition prefers_ws :: "request \<Rightarrow> string \<Rightarrow> bool" where
  "prefers_ws rq providerKey \<longleftrightarrow> rq_downstreamWebsocket rq \<and> providerPrefersWebsocketTransport providerKey \<and>
     pinnedAuthIDFromMetadata (rq_Metadata rq) = []"

lemma pickSingle_alt:
  "pickSingleWithStrategy t1 t2 t3 provider model rq tried strategy s =
     (let pk = ToLower (TrimSpace provider); k = canonicalModelKey model;
          strat = chosen_strategy strategy s; pred = request_pred rq tried strat;
          s1 = ensureIn k t1 pk s
      in case candidateShard k s1 pk of
           None \<Rightarrow> (Inl not_found, s)
         | Some sh \<Rightarrow>
             let r = pickReadyLocked (prefers_ws rq pk) strat pred t2 sh
             in (case fst r of Some a \<Rightarrow> Inr a | None \<Rightarrow> Inl (unavailableErrorLocked provider model pred t3 (snd r)),
                 putShard pk (canonicalModelKey k) (snd r) s1))"
  unfolding pickSingleWithStrategy_def chosen_strategy_def[symmetric] request_pred_def prefers_ws_def Let_def split_beta ..

lemma pickSingle_keeps:
  assumes "t \<le> t1" "t1 \<le> t2" "t2 \<le> t3" "0 \<le> t1"
  shows "keeps t t3 s (snd (pickSingleWithStrategy t1 t2 t3 provider model rq tried strategy s))"
proof -
  let ?pk = "ToLower (TrimSpace provider)" and ?k = "canonicalModelKey model"
  have e: "keeps t t1 s (ensureIn ?k t1 ?pk s)" by (rule ensureIn_keeps[OF assms(1,4)])
  have p: "keeps t t3 s (putShard ?pk (canonicalModelKey ?k)
      (snd (pickReadyLocked ws strat pred t2 sh)) (ensureIn ?k t1 ?pk s))"
    if "candidateShard ?k (ensureIn ?k t1 ?pk s) ?pk = Some sh" for sh ws strat pred
    using keeps_trans[OF keeps_trans[OF e pick_keeps(1)[OF assms(2) that]] keeps_refl[OF assms(3)]] .
  have "t \<le> t3" using assms by simp
  with p show ?thesis unfolding pickSingle_alt Let_def by (simp add: keeps_refl split: option.split)
qed

subsection \<open>Picks over several providers\<close>

lemma ensureAll_keeps:
  "t \<le> now \<Longrightarrow> 0 \<le> now \<Longrightarrow> keeps t now s (ensureAll k now providers s)"
proof (induction providers arbitrary: s t)
  case (Cons pk providers)
  then show ?case
    using keeps_trans[OF ensureIn_keeps[OF Cons.prems] Cons.IH[OF order.refl Cons.prems(2)]] by (simp add: ensureAll_def)
qed (simp add: ensureAll_def keeps_refl)

lemma pickAtProvider_keeps: "keeps now now s (snd (pickAtProvider k p strategy pred pk s))"
  by (auto simp: pickAtProvider_def split_beta keeps_refl pick_keeps(2) split: option.split)

lemma mixedFillFirst_keeps: "keeps now now s (snd (mixedFillFirst k p pred providers s))"
proof (induction providers arbitrary: s)
  case (Cons pk providers)
  obtain r s' where r: "pickAtProvider k p schedulerStrategyFillFirst pred pk s = (r, s')" by force
  have k: "keeps now now s s'" using pickAtProvider_keeps[of now s k p schedulerStrategyFillFirst pred pk] r by simp
  show ?case using k keeps_trans[OF k Cons.IH] by (simp add: r split: option.split)
qed (simp add: keeps_refl)

lemma rotateProviders_keeps:
  "keeps now now s (snd (rotateProviders ck k p pred providers weights start offsets slot s))"
proof (induction offsets arbitrary: slot s)
  case (Cons off offsets)
  define i where "i = (start + off) mod length providers"
  obtain r s' where r: "pickAtProvider k p schedulerStrategyRoundRobin pred (providers ! i) s = (r, s')" by force
  have k: "keeps now now s s'"
    using pickAtProvider_keeps[of now s k p schedulerStrategyRoundRobin pred "providers ! i"] r by simp
  have step: "snd (rotateProviders ck k p pred providers weights start (off # offsets) slot s) =
      (if weights ! i = 0 then snd (rotateProviders ck k p pred providers weights start offsets slot s)
       else let slot' = (if i \<noteq> start then segmentStart weights i else slot) in
         case r of Some a \<Rightarrow> s'\<lparr>as_mixedCursors := AList.update ck (int slot' + 1) (as_mixedCursors s')\<rparr>
         | None \<Rightarrow> snd (rotateProviders ck k p pred providers weights start offsets slot' s'))"
    by (simp add: Let_def i_def[symmetric] r split: option.split)
  show ?case
    using k keeps_trans[OF k Cons.IH] Cons.IH unfolding step Let_def by (simp split: option.split)
qed (simp add: keeps_refl)

lemma mixedRotation_keeps: "keeps now now s (snd (mixedRotation ck k p pred providers s))"
  by (simp add: mixedRotation_def Let_def keeps_refl rotateProviders_keeps split: option.split)

lemma mixedWeighted_keeps: "keeps now now s (snd (mixedWeighted ck k p pred providers s))"
  by (simp add: mixedWeighted_def Let_def split_beta keeps_refl)

lemma mixedUnavailable_keeps:
  assumes "t \<le> now" "0 \<le> now"
  shows "keeps t now s (snd (mixedUnavailableErrorLocked providers model pred now s))"
proof -
  define f where "f = (\<lambda>(total, cooldownCount, earliest, modelErr, authErr, s) providerKey.
              let s' = ensureIn (canonicalModelKey model) now providerKey s
              in case candidateShard (canonicalModelKey model) s' providerKey of
                   None \<Rightarrow> (total, cooldownCount, earliest, modelErr, authErr, s)
                 | Some shard \<Rightarrow>
                     let (localTotal, localCooldownCount, localEarliest) = availabilitySummaryLocked pred shard;
                         (candModelErr, candAuthErr) = candidateErrorsLocked model pred shard
                     in (total + localTotal, cooldownCount + localCooldownCount,
                         if \<not> IsZero localEarliest \<and> (IsZero earliest \<or> localEarliest < earliest)
                         then localEarliest else earliest,
                         mergeError modelErr candModelErr, mergeError authErr candAuthErr, s'))"
  have step: "keeps now now s0 (case f (a, b, c, d, e, s0) pk of (_, _, _, _, _, s1) \<Rightarrow> s1)" for a b c d e s0 pk
    unfolding f_def by (simp add: Let_def split_beta keeps_refl ensureIn_keeps assms(2) split: option.split)
  have all: "keeps now now s0 (case foldl f (a, b, c, d, e, s0) providers of (_, _, _, _, _, s1) \<Rightarrow> s1)" for a b c d e s0
  proof (induction providers arbitrary: a b c d e s0)
    case (Cons pk providers)
    obtain a1 b1 c1 d1 e1 s1 where q: "f (a, b, c, d, e, s0) pk = (a1, b1, c1, d1, e1, s1)" by (metis prod_cases6)
    then have "keeps now now s0 s1" using step[of s0 a b c d e pk] by simp
    moreover have "keeps now now s1 (case foldl f (a1, b1, c1, d1, e1, s1) providers of (_, _, _, _, _, s1) \<Rightarrow> s1)"
      by (rule Cons.IH)
    ultimately show ?case using keeps_trans by (simp add: q)
  qed (simp add: keeps_refl)
  have "keeps now now s (case foldl f (0, 0, 0, None, None, s) providers of (_, _, _, _, _, s1) \<Rightarrow> s1)" by (rule all)
  moreover have "snd (mixedUnavailableErrorLocked providers model pred now s) =
      (case foldl f (0, 0, 0, None, None, s) providers of (_, _, _, _, _, s1) \<Rightarrow> s1)"
    unfolding mixedUnavailableErrorLocked_def Let_def f_def by (simp add: split_beta)
  ultimately show ?thesis using keeps_trans[OF keeps_refl[OF assms(1)]] by simp
qed

lemma pickPinned_keeps:
  assumes "t \<le> t1" "t1 \<le> t2" "t2 \<le> t3" "0 \<le> t1"
  shows "keeps t t3 s (snd (pickPinned t1 t2 t3 normalized model pinned pred strat s))"
proof -
  let ?k = "canonicalModelKey model" and ?pk = "map_get [] (as_authProviders s) pinned"
  have "keeps t t3 s (putShard ?pk (canonicalModelKey ?k)
      (snd (pickReadyLocked False strat pred t2 sh)) (ensureIn ?k t1 ?pk s))"
    if "candidateShard ?k (ensureIn ?k t1 ?pk s) ?pk = Some sh" for sh
    using keeps_trans[OF keeps_trans[OF ensureIn_keeps[OF assms(1,4)] pick_keeps(1)[OF assms(2) that]] keeps_refl[OF assms(3)]] .
  moreover have "t \<le> t3" using assms by simp
  ultimately show ?thesis
    unfolding pickPinned_def Let_def split_beta by (simp add: keeps_refl split: option.split)
qed

lemma pickUnpinned_keeps:
  assumes "t \<le> t1" "t1 \<le> t3" "0 \<le> t1"
  shows "keeps t t3 s (snd (pickUnpinned t1 t3 normalized model pred strat s))"
proof -
  let ?k = "canonicalModelKey model"
  let ?ck = "strings_Join normalized '','' @ '':'' @ ?k" and ?s1 = "ensureAll (canonicalModelKey model) t1 normalized s"
  have e: "keeps t t1 s ?s1" by (rule ensureAll_keeps[OF assms(1,3)])
  have f: "keeps t t3 s (snd (mixedUnavailableErrorLocked normalized model pred t3 s2))" if "keeps t1 t1 ?s1 s2" for s2
    using keeps_trans[OF keeps_trans[OF e that] mixedUnavailable_keeps[OF assms(2)]] assms by simp
  have g: "keeps t t3 s s2" if "keeps t1 t1 ?s1 s2" for s2
    using keeps_trans[OF keeps_trans[OF e that] keeps_refl[OF assms(2)]] .
  define r where "r bp = (if strat = schedulerStrategyFillFirst then mixedFillFirst ?k bp pred normalized ?s1
      else if strat = schedulerStrategyWeightedRoundRobin then mixedWeighted ?ck ?k bp pred normalized ?s1
      else mixedRotation ?ck ?k bp pred normalized ?s1)" for bp
  have r: "keeps t1 t1 ?s1 (snd (r bp))" for bp
    by (simp add: r_def mixedFillFirst_keeps mixedWeighted_keeps mixedRotation_keeps)
  show ?thesis
    using f[OF keeps_refl[OF order.refl]] f[OF r] g[OF r]
    unfolding pickUnpinned_def Let_def r_def[symmetric] split_beta by (simp split: option.split)
qed

lemma pickMixed_keeps:
  assumes "t \<le> t1" "t1 \<le> t2" "t2 \<le> t3" "0 \<le> t1"
  shows "keeps t t3 s (snd (pickMixedWithStrategy t1 t2 t3 providers model rq tried strat s))"
proof -
  have t: "t \<le> t3" "t1 \<le> t3" using assms by simp_all
  show ?thesis
    using pickSingle_keeps[OF assms, of s _ model rq tried strat]
    by (auto simp: pickMixedWithStrategy_def Let_def keeps_refl t split_beta
        pickPinned_keeps[OF assms] pickUnpinned_keeps[OF assms(1) t(2) assms(4)] split: list.split sum.split prod.split)
qed

section \<open>Reachable schedulers\<close>

text \<open>The model registry is read by every upsert and changes between them, so it is free in the two rules that read
  it: one upsert, or one rebuild, sees the models that the registry lists at that moment.\<close>

inductive sched_reach :: "go_time \<Rightarrow> authScheduler \<Rightarrow> bool" where
  new: "0 \<le> now \<Longrightarrow> sched_reach now (newAuthScheduler selector)"
| wait: "sched_reach t s \<Longrightarrow> t \<le> now \<Longrightarrow> sched_reach now s"
| upsert: "sched_reach now s \<Longrightarrow> \<forall>a. ao = Some a \<longrightarrow> TrimSpace (auth_ID a) = auth_ID a \<Longrightarrow>
    sched_reach now (upsertAuthLocked models_of ao now s)"
| rebuild: "sched_reach now s \<Longrightarrow> \<forall>a. Some a \<in> set auths \<longrightarrow> TrimSpace (auth_ID a) = auth_ID a \<Longrightarrow>
    sched_reach now (rebuild models_of auths now s)"
| tombstone: "sched_reach now s \<Longrightarrow> sched_reach now (RecordRemovalTombstone ident epoch now s)"
| remove: "sched_reach now s \<Longrightarrow> sched_reach now (removeAuth ident now s)"
| reset: "sched_reach now s \<Longrightarrow> sched_reach now (ResetAuthGeneration ident s)"
| selector: "sched_reach now s \<Longrightarrow> sched_reach now (setSelector selector s)"
| pickSingle: "sched_reach t1 s \<Longrightarrow> t1 \<le> t2 \<Longrightarrow> t2 \<le> t3 \<Longrightarrow>
    sched_reach t3 (snd (pickSingleWithStrategy t1 t2 t3 provider model rq tried strategy s))"
| pickMixed: "sched_reach t1 s \<Longrightarrow> t1 \<le> t2 \<Longrightarrow> t2 \<le> t3 \<Longrightarrow>
    sched_reach t3 (snd (pickMixedWithStrategy t1 t2 t3 providers model rq tried strategy s))"

lemma sched_reach_ok: "sched_reach now s \<Longrightarrow> sched_ok now s"
proof (induction rule: sched_reach.induct)
  case (new now selector)
  then show ?case by (simp add: empty_sched_ok newAuthScheduler_def)
next
  case (rebuild now s auths)
  then have "0 \<le> now" by (simp add: sched_ok_def)
  then show ?case using rebuild by (simp add: rebuild_sched_ok)
next
  case (pickSingle t1 s t2 t3 provider model rq tried strategy)
  then have t: "0 \<le> t1" "0 \<le> t3" by (auto simp: sched_ok_def)
  show ?case
    by (rule keeps_sched_ok[OF pickSingle_keeps[OF order.refl pickSingle.hyps(2,3) t(1)] pickSingle.IH t(2)])
next
  case (pickMixed t1 s t2 t3 providers model rq tried strategy)
  then have t: "0 \<le> t1" "0 \<le> t3" by (auto simp: sched_ok_def)
  show ?case
    by (rule keeps_sched_ok[OF pickMixed_keeps[OF order.refl pickMixed.hyps(2,3) t(1)] pickMixed.IH t(2)])
qed (auto intro: sched_ok_mono upsert_sched_ok removal_sched_ok)

text \<open>C1. In every state the scheduler can reach (by operations on credentials whose IDs have no white space around
  them, with a model registry that may change before every upsert and rebuild), a credential is stored with the one provider that a
  pinned request is sent to, under its own recorded generation, and enabled; and every shard of that
  provider holds exactly the stored credentials that support its model by the registry of their last upsert, with that metadata,
  indexes that agree with the entries, and states that were right when they were computed.\<close>

theorem scheduler_invariant:
  assumes "sched_reach now s"
  shows "(stored s pk ident = Some meta \<longrightarrow>
      map_of (as_authProviders s) ident = Some pk \<and> auth_ID (sm_auth meta) = ident \<and>
      executorKeyFromAuth (Some (sm_auth meta)) = pk \<and> enabled_auth (sm_auth meta) \<and>
      map_of (as_authGenerations s) ident \<in> {None, Some (generation_of (sm_auth meta))}) \<and>
    (map_of (as_providers s) pk = Some p \<and> map_of (pv_modelShards p) k = Some sh \<longrightarrow>
      shard_ok sh \<and> timely now sh \<and> metas_ok sh \<and> sh_modelKey sh = k \<and>
      map_option se_meta (map_of (sh_entries sh) ident) =
        (case stored s pk ident of
           Some meta \<Rightarrow> if supportsModel meta k then Some meta else None | None \<Rightarrow> None))"
proof (intro conjI impI; (elim conjE)?)
  have ok: "links_ok s" "providers_ok now s" using sched_reach_ok[OF assms] by (auto simp: sched_ok_def)
  {
    assume st: "stored s pk ident = Some meta"
    then have "member_ok pk ident meta"
      using ok(2) by (auto simp: stored_def providers_ok_def provider_ok_def split: option.splits)
    then show "map_of (as_authProviders s) ident = Some pk" "auth_ID (sm_auth meta) = ident"
      "executorKeyFromAuth (Some (sm_auth meta)) = pk" "enabled_auth (sm_auth meta)"
      "map_of (as_authGenerations s) ident \<in> {None, Some (generation_of (sm_auth meta))}"
      using stored_link[OF ok(1) st] by (simp_all add: member_ok_def)
  }
  assume p: "map_of (as_providers s) pk = Some p" "map_of (pv_modelShards p) k = Some sh"
  then have sh: "shard_reach k now sh" "shard_in_step (pv_auths p) k sh"
    using ok(2) by (auto simp: providers_ok_def provider_ok_def)
  from shard_reach_ok[OF sh(1)] show "shard_ok sh" "timely now sh" "metas_ok sh" "sh_modelKey sh = k"
    using metas_ok_alt[of sh] by (auto simp: timely_alt)
  show "map_option se_meta (map_of (sh_entries sh) ident) =
      (case stored s pk ident of Some meta \<Rightarrow> if supportsModel meta k then Some meta else None | None \<Rightarrow> None)"
    using sh(2) p(1) by (simp add: shard_in_step_def stored_def wanted_def)
qed

text \<open>A small scheduler: two credentials of one provider, one of another.\<close>

definition sample_models :: "string \<Rightarrow> string list" where
  "sample_models authID = [''m'']"

definition sample_scheduler :: authScheduler where
  "sample_scheduler =
     upsertAuthLocked sample_models (Some (sample_auth ''g'' ''gemini'')) 5
       (upsertAuthLocked sample_models (Some cooling_auth) 5
         (upsertAuthLocked sample_models (Some (sample_auth ''b'' ''claude'')) 5 (newAuthScheduler TypeRoundRobin)))"

lemma sample_scheduler_reach: "sched_reach 5 sample_scheduler"
proof -
  have "TrimSpace ''a'' = ''a''" "TrimSpace ''b'' = ''b''" "TrimSpace ''g'' = ''g''" by code_simp+
  then show ?thesis
    unfolding sample_scheduler_def
    by (intro sched_reach.upsert sched_reach.new) (simp_all add: sample_auth_def cooling_auth_def)
qed

text \<open>A pick creates the shard of the model; then the registry drops the model of one credential.\<close>

definition plain_request :: request where
  "plain_request = \<lparr>rq_Metadata = [], rq_requiredKind = [], rq_credentialPolicy = [], rq_downstreamWebsocket = False\<rparr>"

definition moved_scheduler :: authScheduler where
  "moved_scheduler =
     upsertAuthLocked (\<lambda>_. [''other'']) (Some (sample_auth ''b'' ''claude'')) 5
       (snd (pickSingleWithStrategy 5 5 5 ''claude'' ''m'' plain_request [] schedulerStrategyCurrent sample_scheduler))"

lemma moved_scheduler_reach: "sched_reach 5 moved_scheduler"
proof -
  have "TrimSpace ''b'' = ''b''" by code_simp
  then show ?thesis
    unfolding moved_scheduler_def
    by (intro sched_reach.upsert sched_reach.pickSingle[OF sample_scheduler_reach]) (simp_all add: sample_auth_def)
qed

definition moved_shard :: modelScheduler where
  "moved_shard = the (map_of (pv_modelShards (the (map_of (as_providers moved_scheduler) ''claude''))) ''m'')"

theorem scheduler_invariant_witness:
  "map_of (as_authProviders moved_scheduler) ''b'' = Some ''claude'' \<and> shard_ok moved_shard \<and>
   map_of (sh_entries moved_shard) ''b'' = None \<and> map_of (sh_entries moved_shard) ''a'' \<noteq> None"
proof -
  have "map_of (as_providers moved_scheduler) ''claude'' \<noteq> None"
    "map_of (pv_modelShards (the (map_of (as_providers moved_scheduler) ''claude''))) ''m'' \<noteq> None" by code_simp+
  then have sh: "map_of (as_providers moved_scheduler) ''claude'' = Some (the (map_of (as_providers moved_scheduler) ''claude'')) \<and>
      map_of (pv_modelShards (the (map_of (as_providers moved_scheduler) ''claude''))) ''m'' = Some moved_shard"
    by (simp add: moved_shard_def)
  have b: "stored moved_scheduler ''claude'' ''b'' = Some (buildScheduledAuthMeta (\<lambda>_. [''other'']) (sample_auth ''b'' ''claude''))"
    "\<not> supportsModel (buildScheduledAuthMeta (\<lambda>_. [''other'']) (sample_auth ''b'' ''claude'')) ''m''" by code_simp+
  have a: "stored moved_scheduler ''claude'' ''a'' = Some (buildScheduledAuthMeta sample_models cooling_auth)"
    "supportsModel (buildScheduledAuthMeta sample_models cooling_auth) ''m''" by code_simp+
  note inv = scheduler_invariant[OF moved_scheduler_reach]
  show ?thesis
    using inv[THEN conjunct1, rule_format, OF b(1)] inv[THEN conjunct2, rule_format, OF sh, of "''b''"]
      inv[THEN conjunct2, rule_format, OF sh, of "''a''"] a b by auto
qed

end
