(* ===== verification/SchedulerGen.thy ===== *)
theory SchedulerGen
  imports SchedulerInv
begin

text \<open>
  Generations: snapshots of a credential reach the scheduler in any order, and removals race with
  late upserts. The recorded epoch, generation and time decide; the newest snapshot wins, and a
  removed credential does not come back through an upsert from before its removal.
\<close>

definition newer :: "scheduledGenerationMeta \<Rightarrow> scheduledGenerationMeta \<Rightarrow> bool" where
  "newer x y \<longleftrightarrow> gm_epoch x > gm_epoch y \<or> gm_epoch x = gm_epoch y \<and>
     (gm_generation x > gm_generation y \<or> gm_generation x = gm_generation y \<and> gm_updatedAt x > gm_updatedAt y)"

lemma stale_iff:
  "isStaleScheduledAuth ident (auth_RegistrationEpoch a) (auth_Generation a) (auth_UpdatedAt a) s \<longleftrightarrow>
     (case map_of (as_authGenerations s) ident of None \<Rightarrow> False | Some g \<Rightarrow> newer g (generation_of a))"
  by (auto simp: isStaleScheduledAuth_def newer_def generation_of_def split: option.splits)

lemma not_newer:
  "\<not> newer y x \<longleftrightarrow> gm_epoch y < gm_epoch x \<or> gm_epoch y = gm_epoch x \<and>
     (gm_generation y < gm_generation x \<or> gm_generation y = gm_generation x \<and> gm_updatedAt y \<le> gm_updatedAt x)"
  by (auto simp: newer_def)

lemma newer_trans: "\<not> newer y x \<Longrightarrow> \<not> newer z y \<Longrightarrow> \<not> newer z x"
  unfolding not_newer by (auto dest: less_trans)

lemma newer_irrefl [simp]: "\<not> newer x x"
  by (simp add: newer_def)

lemma newer_asym: "newer x y \<Longrightarrow> \<not> newer y x"
  by (auto simp: newer_def)

text \<open>What an upsert does to the records of every ID.\<close>

lemma upsert_effect:
  assumes "links_ok s" "TrimSpace (auth_ID a) = auth_ID a" "auth_ID a \<noteq> []"
  defines "st \<equiv> isStaleScheduledAuth (auth_ID a) (auth_RegistrationEpoch a) (auth_Generation a) (auth_UpdatedAt a) s"
    and "k \<equiv> executorKeyFromAuth (Some a)"
  shows "map_of (as_authGenerations (upsertAuthLocked models_of (Some a) now s)) i =
      (if i = auth_ID a \<and> \<not> st then Some (generation_of a) else map_of (as_authGenerations s) i)"
    and "stored (upsertAuthLocked models_of (Some a) now s) pk i =
      (if i = auth_ID a \<and> \<not> st
       then if pk = k \<and> k \<noteq> [] \<and> enabled_auth a then Some (buildScheduledAuthMeta models_of a) else None
       else stored s pk i)"
proof -
  let ?s' = "upsertAuthLocked models_of (Some a) now s"
  consider (stale) st | (off) "\<not> st" "k = [] \<or> \<not> enabled_auth a" | (on) "\<not> st" "k \<noteq> []" "enabled_auth a" by blast
  then have "map_of (as_authGenerations ?s') i =
      (if i = auth_ID a \<and> \<not> st then Some (generation_of a) else map_of (as_authGenerations s) i) \<and>
    stored ?s' pk i = (if i = auth_ID a \<and> \<not> st
       then if pk = k \<and> k \<noteq> [] \<and> enabled_auth a then Some (buildScheduledAuthMeta models_of a) else None
       else stored s pk i)"
  proof cases
    case stale
    then have "?s' = s" by (simp add: upsertAuthLocked_def assms(2,3) Let_def st_def)
    then show ?thesis using stale by simp
  next
    case off
    define s1 where "s1 = s\<lparr>as_authGenerations := AList.update (auth_ID a) (generation_of a) (as_authGenerations s)\<rparr>"
    have e: "?s' = removeAuthFromProvidersLocked (auth_ID a) s1"
      using off by (auto simp: upsertAuthLocked_def assms(2,3) Let_def enabled_auth_def generation_of_def s1_def st_def k_def)
    have g: "removeAuthFromProvidersLocked (auth_ID a) s1 =
        (removeAuthFromProvidersLocked (auth_ID a) s)\<lparr>as_authGenerations := as_authGenerations s1\<rparr>"
      by (auto simp: s1_def removeAuthFromProvidersLocked_def removeAuthFrom_def Let_def split: option.splits)
    show ?thesis
      using removeFromProviders[OF assms(1,3)] off unfolding e g by (auto simp: s1_def map_of_update)
  next
    case on
    show ?thesis
      using accepted_upsert(1,3)[OF assms(1-3), where models_of = models_of and now = now] on
      by (auto simp: st_def k_def)
  qed
  then show "map_of (as_authGenerations ?s') i =
      (if i = auth_ID a \<and> \<not> st then Some (generation_of a) else map_of (as_authGenerations s) i)"
    and "stored ?s' pk i = (if i = auth_ID a \<and> \<not> st
       then if pk = k \<and> k \<noteq> [] \<and> enabled_auth a then Some (buildScheduledAuthMeta models_of a) else None
       else stored s pk i)" by blast+
qed

definition upsert_all :: "(string \<Rightarrow> string list) \<Rightarrow> go_time \<Rightarrow> auth list \<Rightarrow> authScheduler \<Rightarrow> authScheduler" where
  "upsert_all models_of now xs s = foldl (\<lambda>s a. upsertAuthLocked models_of (Some a) now s) s xs"

lemma upsert_all_simps:
  "upsert_all models_of now [] s = s"
  "upsert_all models_of now (xs @ [a]) s = upsertAuthLocked models_of (Some a) now (upsert_all models_of now xs s)"
  by (simp_all add: upsert_all_def)

lemma upsert_all_ok:
  "sched_ok now s \<Longrightarrow> \<forall>a \<in> set xs. TrimSpace (auth_ID a) = auth_ID a \<Longrightarrow> sched_ok now (upsert_all models_of now xs s)"
proof (induction xs rule: rev_induct)
  case (snoc a xs)
  then show ?case unfolding upsert_all_simps using upsert_sched_ok[OF _ order.refl, of now _ "Some a"] by simp
qed (simp add: upsert_all_simps)

lemma newest_wins:
  assumes "sched_ok now s" "\<forall>a \<in> set xs. TrimSpace (auth_ID a) = auth_ID a \<and> auth_ID a \<noteq> []"
    and "map_of (as_authGenerations s) i = None" "i \<in> auth_ID ` set xs"
  shows "\<exists>a \<in> set xs. auth_ID a = i \<and> (\<forall>b \<in> set xs. auth_ID b = i \<longrightarrow> \<not> newer (generation_of b) (generation_of a)) \<and>
    map_of (as_authGenerations (upsert_all models_of now xs s)) i = Some (generation_of a) \<and>
    (\<forall>pk. stored (upsert_all models_of now xs s) pk i =
       (if pk = executorKeyFromAuth (Some a) \<and> pk \<noteq> [] \<and> enabled_auth a
        then Some (buildScheduledAuthMeta models_of a) else None))"
  using assms(2,4)
proof (induction xs rule: rev_induct)
  case (snoc x xs)
  let ?s = "upsert_all models_of now xs s"
  have ok: "links_ok ?s" using upsert_all_ok[OF assms(1)] snoc.prems(1) by (simp add: sched_ok_def)
  note e = upsert_effect[OF ok, of x models_of now]
  have x: "TrimSpace (auth_ID x) = auth_ID x" "auth_ID x \<noteq> []" using snoc.prems(1) by simp_all
  have none: "map_of (as_authGenerations ?s) i = None" if "i \<notin> auth_ID ` set xs"
    using that snoc.prems(1)
  proof (induction xs rule: rev_induct)
    case (snoc y ys)
    have "links_ok (upsert_all models_of now ys s)" using upsert_all_ok[OF assms(1)] snoc.prems(2) by (simp add: sched_ok_def)
    then show ?case using snoc upsert_effect(1)[of "upsert_all models_of now ys s" y models_of now i]
      by (auto simp: upsert_all_simps)
  qed (simp add: upsert_all_simps assms(3))
  show ?case
  proof (cases "auth_ID x = i")
    case False
    then have "i \<in> auth_ID ` set xs" using snoc.prems(2) by auto
    with snoc.IH snoc.prems(1) False show ?thesis unfolding upsert_all_simps e[OF x] by auto
  next
    case True
    show ?thesis
    proof (cases "i \<in> auth_ID ` set xs")
      case False
      then have "\<forall>b \<in> set xs. auth_ID b \<noteq> i" by auto
      moreover have "\<not> isStaleScheduledAuth (auth_ID x) (auth_RegistrationEpoch x) (auth_Generation x) (auth_UpdatedAt x) ?s"
        using none[OF False] True by (simp add: stale_iff)
      ultimately show ?thesis using True unfolding upsert_all_simps e[OF x] by auto
    next
      case in_xs: True
      then obtain a where a: "a \<in> set xs" "auth_ID a = i"
        "\<forall>b \<in> set xs. auth_ID b = i \<longrightarrow> \<not> newer (generation_of b) (generation_of a)"
        "map_of (as_authGenerations ?s) i = Some (generation_of a)"
        "\<forall>pk. stored ?s pk i = (if pk = executorKeyFromAuth (Some a) \<and> pk \<noteq> [] \<and> enabled_auth a
           then Some (buildScheduledAuthMeta models_of a) else None)"
        using snoc.IH snoc.prems(1) by auto
      have st: "isStaleScheduledAuth (auth_ID x) (auth_RegistrationEpoch x) (auth_Generation x) (auth_UpdatedAt x) ?s \<longleftrightarrow>
          newer (generation_of a) (generation_of x)"
        using a(4) True by (simp add: stale_iff)
      show ?thesis
      proof (cases "newer (generation_of a) (generation_of x)")
        case True
        with a st newer_asym[OF True] show ?thesis unfolding upsert_all_simps e[OF x] by auto
      next
        case False
        with a(3) have "\<forall>b \<in> set (xs @ [x]). auth_ID b = i \<longrightarrow> \<not> newer (generation_of b) (generation_of x)"
          using newer_trans by (auto simp: newer_irrefl)
        with False st \<open>auth_ID x = i\<close> show ?thesis unfolding upsert_all_simps e[OF x] by auto
      qed
    qed
  qed
qed simp

text \<open>C5. The newest snapshot wins, in whatever order snapshots arrive: after any sequence of upserts of
  credentials not known before, what is stored for an ID is the snapshot with the greatest epoch,
  generation and time, with its own provider when it is enabled and nowhere when it is not.\<close>

theorem newest_snapshot_wins:
  assumes "sched_reach now s"
    and "\<forall>a \<in> set xs. TrimSpace (auth_ID a) = auth_ID a \<and> auth_ID a \<noteq> []"
    and "map_of (as_authGenerations s) i = None" and "i \<in> auth_ID ` set xs"
  shows "\<exists>a \<in> set xs. auth_ID a = i \<and> (\<forall>b \<in> set xs. auth_ID b = i \<longrightarrow> \<not> newer (generation_of b) (generation_of a)) \<and>
    (\<forall>pk. stored (upsert_all models_of now xs s) pk i =
       (if pk = executorKeyFromAuth (Some a) \<and> pk \<noteq> [] \<and> enabled_auth a
        then Some (buildScheduledAuthMeta models_of a) else None))"
  using newest_wins[OF sched_reach_ok[OF assms(1)] assms(2-4), of models_of] by blast

theorem newest_snapshot_wins_witness:
  "stored (upsert_all sample_models 5
      [(sample_auth ''a'' ''claude'')\<lparr>auth_Generation := 7\<rparr>, sample_auth ''a'' ''gemini''] (newAuthScheduler NilSelector))
    ''claude'' ''a'' = Some (buildScheduledAuthMeta sample_models ((sample_auth ''a'' ''claude'')\<lparr>auth_Generation := 7\<rparr>))"
proof -
  let ?x = "(sample_auth ''a'' ''claude'')\<lparr>auth_Generation := 7\<rparr>" and ?y = "sample_auth ''a'' ''gemini''"
  have r: "sched_reach 5 (newAuthScheduler NilSelector)" by (simp add: sched_reach.new)
  have t: "\<forall>a \<in> set [?x, ?y]. TrimSpace (auth_ID a) = auth_ID a \<and> auth_ID a \<noteq> []"
    by (simp add: sample_auth_def, code_simp)
  have n: "newer (generation_of ?x) (generation_of ?y)" by code_simp
  have k: "executorKeyFromAuth (Some ?x) = ''claude''" "enabled_auth ?x" by code_simp+
  have g: "map_of (as_authGenerations (newAuthScheduler NilSelector)) ''a'' = None" by (simp add: newAuthScheduler_def)
  have i: "''a'' \<in> auth_ID ` set [?x, ?y]" by (simp add: sample_auth_def)
  from newest_snapshot_wins[OF r t g i] obtain a where a: "a \<in> set [?x, ?y]" "auth_ID a = ''a''"
    "\<forall>b \<in> set [?x, ?y]. auth_ID b = ''a'' \<longrightarrow> \<not> newer (generation_of b) (generation_of a)"
    "\<forall>pk. stored (upsert_all sample_models 5 [?x, ?y] (newAuthScheduler NilSelector)) pk ''a'' =
       (if pk = executorKeyFromAuth (Some a) \<and> pk \<noteq> [] \<and> enabled_auth a
        then Some (buildScheduledAuthMeta sample_models a) else None)" by blast
  have "a \<noteq> ?y" using a(3) n by (auto simp: sample_auth_def)
  with a(1) have "a = ?x" by auto
  with a(4) k show ?thesis by simp
qed

section \<open>Removal\<close>

lemma removal_effect:
  assumes "links_ok s" "TrimSpace i = i" "i \<noteq> []"
  shows "stored (removeAuth i now s) pk i = None"
    and "map_of (as_authGenerations (removeAuth i now s)) i = Some \<lparr>gm_epoch =
        (case map_of (as_authGenerations s) i of None \<Rightarrow> 1 | Some g \<Rightarrow> gm_epoch g + 1), gm_generation = 0, gm_updatedAt = now\<rparr>"
proof -
  let ?g = "\<lparr>gm_epoch = (case map_of (as_authGenerations s) i of None \<Rightarrow> 1 | Some g \<Rightarrow> gm_epoch g + 1),
      gm_generation = 0, gm_updatedAt = now\<rparr> :: scheduledGenerationMeta"
  have g: "removeAuth i now s =
      (removeAuthFromProvidersLocked i s)\<lparr>as_authGenerations := AList.update i ?g (as_authGenerations s)\<rparr>"
    using assms(2,3)
    by (auto simp: removeAuth_def removeAuthFromProvidersLocked_def removeAuthFrom_def Let_def split: option.splits)
  show "stored (removeAuth i now s) pk i = None"
    unfolding g using removeFromProviders(1)[OF assms(1,3)] by simp
  show "map_of (as_authGenerations (removeAuth i now s)) i = Some ?g" unfolding g by (simp add: map_of_update)
qed

lemma older_upserts_ignored:
  assumes "sched_ok now s" "\<forall>a \<in> set xs. TrimSpace (auth_ID a) = auth_ID a \<and> auth_ID a \<noteq> []"
    and "map_of (as_authGenerations s) i = Some g" "\<forall>a \<in> set xs. auth_ID a = i \<longrightarrow> auth_RegistrationEpoch a < gm_epoch g"
    and "\<forall>pk. stored s pk i = None"
  shows "(\<forall>pk. stored (upsert_all models_of now xs s) pk i = None) \<and>
    map_of (as_authGenerations (upsert_all models_of now xs s)) i = Some g"
  using assms(2,4)
proof (induction xs rule: rev_induct)
  case Nil
  then show ?case using assms(3,5) by (simp add: upsert_all_simps)
next
  case (snoc x xs)
  let ?s = "upsert_all models_of now xs s"
  have ok: "links_ok ?s" using upsert_all_ok[OF assms(1)] snoc.prems(1) by (simp add: sched_ok_def)
  have x: "TrimSpace (auth_ID x) = auth_ID x" "auth_ID x \<noteq> []" using snoc.prems(1) by simp_all
  have "isStaleScheduledAuth (auth_ID x) (auth_RegistrationEpoch x) (auth_Generation x) (auth_UpdatedAt x) ?s" if "auth_ID x = i"
    using snoc that unfolding stale_iff by (simp add: newer_def generation_of_def)
  then show ?case using snoc unfolding upsert_all_simps upsert_effect[OF ok x] by auto
qed

text \<open>C6. A removed credential does not come back: after \<open>removeAuth\<close>, no sequence of late upserts
  of snapshots from the removed registration (of its epoch or earlier) makes any provider hold it
  again. (The epoch is a 64-bit counter; the last value is excluded.)\<close>

theorem removed_stays_removed:
  assumes "sched_reach now s" and "TrimSpace i = i" and "i \<noteq> []"
    and "map_of (as_authGenerations s) i = Some g" and "gm_epoch g \<noteq> - 1"
    and "\<forall>a \<in> set xs. TrimSpace (auth_ID a) = auth_ID a \<and> auth_ID a \<noteq> [] \<and>
      (auth_ID a = i \<longrightarrow> auth_RegistrationEpoch a \<le> gm_epoch g)"
  shows "stored (upsert_all models_of now xs (removeAuth i now s)) pk i = None"
proof -
  have ok: "sched_ok now s" by (rule sched_reach_ok[OF assms(1)])
  then have l: "links_ok s" by (simp add: sched_ok_def)
  have inc: "gm_epoch g < gm_epoch g + 1"
  proof -
    have "unat (gm_epoch g) + 1 < 2 ^ 64"
    proof -
      have "unat (gm_epoch g) \<noteq> unat (- 1 :: 64 word)" using assms(5) by (simp only: word_unat_eq_iff simp_thms)
      moreover have "unat (gm_epoch g) < 2 ^ 64" using unsigned_less[of "gm_epoch g", where ?'a = nat] by simp
      moreover have "unat (- 1 :: 64 word) = 2 ^ 64 - 1" by (simp add: unsigned_minus_1_eq_mask mask_eq_exp_minus_1)
      ultimately show ?thesis by linarith
    qed
    then show ?thesis by (simp add: word_less_nat_alt unat_word_ariths)
  qed
  note e = removal_effect[OF l assms(2,3), of now]
  have "\<forall>a \<in> set xs. auth_ID a = i \<longrightarrow> auth_RegistrationEpoch a < gm_epoch g + 1"
    using assms(6) inc by (meson le_less_trans)
  then show ?thesis
    using older_upserts_ignored[OF removal_sched_ok(2)[OF ok order.refl] _ e(2)] assms(4,6) e(1) by auto
qed

lemma sample_generation: "map_of (as_authGenerations sample_scheduler) ''b'' = Some \<lparr>gm_epoch = 0, gm_generation = 0, gm_updatedAt = 0\<rparr>"
  by code_simp

theorem removed_stays_removed_witness:
  "stored (upsert_all sample_models 5 [sample_auth ''b'' ''gemini'', sample_auth ''b'' ''claude'']
     (removeAuth ''b'' 5 sample_scheduler)) ''claude'' ''b'' = None"
proof -
  have "TrimSpace ''b'' = ''b''" by code_simp
  then show ?thesis
    by (intro removed_stays_removed[OF sample_scheduler_reach _ _ sample_generation]) (simp_all add: sample_auth_def)
qed

end
