(* ===== verification/SchedulerPicks.thy ===== *)
theory SchedulerPicks
  imports SchedulerInv
begin

text \<open>
  What the scheduler's picks return: a pick for one provider is the selector's pick among the
  credentials registered for it, a pick over several providers is safe and of the highest priority.
\<close>

section \<open>The candidate list does not depend on the order of the candidates\<close>

lemma available_perm:
  assumes "mset xs = mset ys" "distinct (map auth_ID xs)" "0 \<le> now"
  shows "getAvailableAuths xs provider model now = getAvailableAuths ys provider model now"
proof -
  have s: "set xs = set ys" using assms(1) by (rule mset_eq_setD)
  have e: "xs = [] \<longleftrightarrow> ys = []" using assms(1) by auto
  have f: "filter P xs = [] \<longleftrightarrow> filter P ys = []" for P using s by (simp add: filter_empty_conv)
  have sf: "sort_key auth_ID (filter P xs) = sort_key auth_ID (filter P ys)" for P
  proof -
    have "mset (map auth_ID (filter P xs)) = mset (map auth_ID (filter P ys))"
      using assms(1) by (simp add: mset_filter)
    then have "sort (map auth_ID (filter P xs)) = sort (map auth_ID (filter P ys))"
      by (metis sorted_list_of_multiset_mset)
    then have "map auth_ID (sort_key auth_ID (filter P xs)) = map auth_ID (sort_key auth_ID (filter P ys))"
      unfolding map_sort_key .
    moreover have "inj_on auth_ID (set xs)" using assms(2) by (simp add: distinct_map)
    then have "inj_on auth_ID (set (sort_key auth_ID (filter P xs)) \<union> set (sort_key auth_ID (filter P ys)))"
      by (rule inj_on_subset) (use s in auto)
    ultimately show ?thesis using inj_on_map_eq_map by blast
  qed
  have l: "list_all P xs = list_all P ys" for P using s by (simp add: list_all_iff)
  have m: "set (filter P xs) = set (filter P ys)" for P using s by auto
  show ?thesis
    unfolding getAvailableAuths_eq[OF assms(3)] Let_def filter_filter sf e f l s m ..
qed

section \<open>The pick for one provider refines the selector\<close>

text \<open>The request's predicate reads only the metadata of an entry.\<close>

definition allowed :: "request \<Rightarrow> string list \<Rightarrow> schedulerStrategy \<Rightarrow> scheduledAuthMeta \<Rightarrow> bool" where
  "allowed rq tried strategy meta = request_pred rq tried strategy
     \<lparr>se_meta = meta, se_state = scheduledStateReady, se_nextRetryAt = 0\<rparr>"

lemma request_pred_meta: "request_pred rq tried strategy = (\<lambda>e. allowed rq tried strategy (se_meta e))"
  by (simp add: allowed_def request_pred_def scheduledAuthPredicate_def fun_eq_iff)

text \<open>The credentials registered with a provider that support the model and that the request allows.\<close>

definition registered_for ::
  "(scheduledAuthMeta \<Rightarrow> bool) \<Rightarrow> string \<Rightarrow> providerScheduler \<Rightarrow> auth list" where
  "registered_for Q k p = map sm_auth (filter (\<lambda>meta. supportsModel meta k \<and> Q meta) (map snd (pv_auths p)))"

lemma registered_ids:
  assumes "provider_ok now pk p"
  shows "distinct (map auth_ID (registered_for Q k p))"
proof -
  have "\<forall>(i, m) \<in> set (pv_auths p). auth_ID (sm_auth m) = i"
    using assms by (auto simp: provider_ok_def member_ok_def)
  then have eq: "map (\<lambda>m. auth_ID (sm_auth m)) (map snd (pv_auths p)) = map fst (pv_auths p)"
    by (auto simp: comp_def intro!: map_cong)
  have "distinct (map (\<lambda>m. auth_ID (sm_auth m)) (map snd (pv_auths p)))"
    unfolding eq using assms by (simp add: provider_ok_def)
  from distinct_map_filter[OF this] show ?thesis by (simp add: registered_for_def comp_def)
qed

lemma wanted_Some: "wanted auths k i = Some m \<longleftrightarrow> map_of auths i = Some m \<and> supportsModel m k"
  by (auto simp: wanted_def split: option.splits)

lemma in_step_entry:
  assumes "shard_in_step auths k sh"
  shows "map_option se_meta (map_of (sh_entries sh) i) = Some m \<longleftrightarrow> map_of auths i = Some m \<and> supportsModel m k"
proof -
  have "map_option se_meta (map_of (sh_entries sh) i) = wanted auths k i" using assms by (simp only: shard_in_step_def)
  then show ?thesis by (simp only: wanted_Some)
qed

lemma shard_registered:
  assumes "provider_ok now pk p" "shard_ok sh" "shard_in_step (pv_auths p) k sh"
  shows "mset (shard_auths Q sh) = mset (registered_for Q k p)"
proof -
  have es: "entries_ok (sh_entries sh)" using assms(2) by (simp add: shard_ok_def)
  have wf: "wf_map (sh_entries sh)" "wf_map (pv_auths p)" using es assms(1) by (auto simp: entries_ok_def provider_ok_def)
  have d: "distinct (shard_auths Q sh)"
  proof -
    have "distinct (map auth_ID (shard_auths Q sh))"
      using distinct_map_filter[OF entries_distinct[OF es], of "\<lambda>e. Q (se_meta e)"] by (simp add: shard_auths_def comp_def)
    then show ?thesis using distinct_map by blast
  qed
  have r: "distinct (registered_for Q k p)" using registered_ids[OF assms(1)] distinct_map by blast
  have "a \<in> set (shard_auths Q sh) \<longleftrightarrow> a \<in> set (registered_for Q k p)" for a
  proof -
    have "a \<in> set (shard_auths Q sh) \<longleftrightarrow> (\<exists>i e. map_of (sh_entries sh) i = Some e \<and> Q (se_meta e) \<and> se_auth e = a)"
      using wf(1) by (force simp: shard_auths_def image_iff)
    also have "\<dots> \<longleftrightarrow> (\<exists>i m. map_option se_meta (map_of (sh_entries sh) i) = Some m \<and> Q m \<and> sm_auth m = a)"
      by (auto; fastforce)
    also have "\<dots> \<longleftrightarrow> (\<exists>i m. map_of (pv_auths p) i = Some m \<and> supportsModel m k \<and> Q m \<and> sm_auth m = a)"
      by (simp only: in_step_entry[OF assms(3)] conj_assoc)
    also have "\<dots> \<longleftrightarrow> a \<in> set (registered_for Q k p)"
      using wf(2) by (force simp: registered_for_def image_iff)
    finally show ?thesis .
  qed
  then have "set (shard_auths Q sh) = set (registered_for Q k p)" by blast
  then show ?thesis using d r set_eq_iff_mset_eq_distinct by blast
qed

text \<open>The shard a pick works on.\<close>

lemma ensured_shard:
  assumes "sched_ok t1 s" "map_of (as_providers s) pk = Some p"
  obtains sh where "candidateShard k (ensureIn k t1 pk s) pk = Some sh"
    and "shard_reach (canonicalModelKey k) t1 sh" and "shard_in_step (pv_auths p) (canonicalModelKey k) sh"
    and "sh = fst (ensureModelLocked k t1 p)"
proof -
  have t: "0 \<le> t1" "providers_ok t1 s" using assms(1) by (auto simp: sched_ok_def)
  let ?s = "ensureIn k t1 pk s"
  have ok: "providers_ok t1 ?s" using ensureIn_keeps[OF order.refl t(1), of s k pk] t(2) by (simp add: keeps_def)
  have c: "candidateShard k ?s pk = Some (fst (ensureModelLocked k t1 p))" by (simp add: ensureIn_shard assms(2))
  have "map_of (as_providers ?s) pk = Some (snd (ensureModelLocked k t1 p))"
    by (simp add: ensureIn_def assms(2) map_of_update)
  moreover have "pv_auths (snd (ensureModelLocked k t1 p)) = pv_auths p" by (simp add: ensureModelLocked_def Let_def)
  ultimately show thesis using that[OF c candidate_ok(1)[OF ok c] _ refl] candidate_ok(2)[OF ok c] by auto
qed

lemma fill_first_perm:
  assumes "mset xs = mset ys" "distinct (map auth_ID xs)" "0 \<le> now"
  shows "FillFirst_Pick False provider model now xs = FillFirst_Pick False provider model now ys"
  using available_perm[OF assms] by (simp add: FillFirst_Pick_def)

lemma websocket_first_perm:
  "mset xs = mset ys \<Longrightarrow> mset (websocket_first ws k now xs) = mset (websocket_first ws k now ys)"
  using mset_eq_setD[of xs ys] by (auto simp: websocket_first_def Let_def mset_filter list_ex_iff)

lemma websocket_first_ids: "distinct (map auth_ID xs) \<Longrightarrow> distinct (map auth_ID (websocket_first ws k now xs))"
  by (simp add: websocket_first_def Let_def distinct_map_filter)

text \<open>C2. The scheduler implements the fill-first selector: in every reachable state, a pick for one
  provider returns what \<open>FillFirstSelector\<close> (without its own websocket preference) picks from the credentials
  registered with the provider that support the model and that the request allows, and fails exactly when the
  selector fails. Where the scheduler prefers websockets (a websocket request for codex or xai that is not pinned),
  the candidates are those of them with websockets, of whatever priority, as soon as one of these is free.\<close>

theorem scheduler_refines_fill_first:
  fixes model provider :: string and rq :: request and tried :: "string list"
  assumes "sched_reach t1 s" and "t1 \<le> t2"
    and "map_of (as_providers s) (ToLower (TrimSpace provider)) = Some p"
    and "chosen_strategy strategy s = schedulerStrategyFillFirst"
  defines "k \<equiv> canonicalModelKey (canonicalModelKey model)"
  defines "candidates \<equiv> websocket_first (prefers_ws rq (ToLower (TrimSpace provider))) k t2
    (registered_for (allowed rq tried schedulerStrategyFillFirst) k p)"
  shows "(case FillFirst_Pick False provider k t2 candidates of
      Inr a \<Rightarrow> fst (pickSingleWithStrategy t1 t2 t3 provider model rq tried strategy s) = Inr a
    | Inl _ \<Rightarrow> \<exists>err. fst (pickSingleWithStrategy t1 t2 t3 provider model rq tried strategy s) = Inl err)"
proof -
  let ?pk = "ToLower (TrimSpace provider)" and ?k = "canonicalModelKey model"
  let ?Q = "allowed rq tried schedulerStrategyFillFirst" and ?ws = "prefers_ws rq (ToLower (TrimSpace provider))"
  have ok: "sched_ok t1 s" by (rule sched_reach_ok[OF assms(1)])
  obtain sh where sh: "candidateShard ?k (ensureIn ?k t1 ?pk s) ?pk = Some sh"
    "shard_reach k t1 sh" "shard_in_step (pv_auths p) k sh"
    using ensured_shard[OF ok assms(3), of ?k] unfolding k_def by blast
  note r = shard_reach_ok[OF shard_reach.wait[OF sh(2) assms(2)]]
  have m: "shard_ok sh" "0 \<le> t2" "timely t2 sh" "metas_ok sh" "sh_modelKey sh = k"
    using r metas_ok_alt[of sh] by (auto simp: timely_alt)
  have p: "provider_ok t1 ?pk p" using ok assms(3) by (auto simp: sched_ok_def providers_ok_def)
  have perm: "mset candidates = mset (websocket_first ?ws k t2 (shard_auths ?Q sh))"
    unfolding candidates_def by (rule websocket_first_perm) (rule shard_registered[OF p m(1) sh(3), symmetric])
  have ff: "FillFirst_Pick False provider k t2 candidates =
      FillFirst_Pick False provider k t2 (websocket_first ?ws k t2 (shard_auths ?Q sh))"
    by (rule fill_first_perm[OF perm _ m(2)]) (simp add: candidates_def websocket_first_ids registered_ids[OF p])
  have res: "fst (pickSingleWithStrategy t1 t2 t3 provider model rq tried strategy s) =
      (case fst (pickReadyLocked ?ws schedulerStrategyFillFirst (\<lambda>e. ?Q (se_meta e)) t2 sh) of
         Some a \<Rightarrow> Inr a
       | None \<Rightarrow> Inl (unavailableErrorLocked provider model (\<lambda>e. ?Q (se_meta e)) t3
           (snd (pickReadyLocked ?ws schedulerStrategyFillFirst (\<lambda>e. ?Q (se_meta e)) t2 sh))))"
    unfolding pickSingle_alt Let_def sh(1) assms(4) option.case fst_conv request_pred_meta ..
  show ?thesis
    unfolding ff res shard_fill_first_ws[OF m(1-4), of ?ws ?Q provider] m(5) by (simp split: sum.split)
qed

definition sample_request :: request where
  "sample_request = \<lparr>rq_Metadata = [], rq_requiredKind = [], rq_credentialPolicy = [], rq_downstreamWebsocket = False\<rparr>"

definition websocket_scheduler :: authScheduler where
  "websocket_scheduler =
     upsertAuthLocked sample_models (Some websocket_auth) 5
       (upsertAuthLocked sample_models (Some (sample_auth ''v'' ''codex'')) 5 (newAuthScheduler TypeRoundRobin))"

lemma websocket_scheduler_reach: "sched_reach 5 websocket_scheduler"
proof -
  have "TrimSpace ''v'' = ''v''" "TrimSpace ''w'' = ''w''" by code_simp+
  then show ?thesis
    unfolding websocket_scheduler_def
    by (intro sched_reach.upsert sched_reach.new) (simp_all add: sample_auth_def websocket_auth_def)
qed

theorem scheduler_refines_fill_first_witness:
  "case FillFirst_Pick False ''codex'' ''m'' 60
      (websocket_first (prefers_ws (sample_request\<lparr>rq_downstreamWebsocket := True\<rparr>) ''codex'') ''m'' 60
        (registered_for (allowed (sample_request\<lparr>rq_downstreamWebsocket := True\<rparr>) [] schedulerStrategyFillFirst) ''m''
          (the (map_of (as_providers websocket_scheduler) ''codex'')))) of
      Inr a \<Rightarrow> fst (pickSingleWithStrategy 5 60 60 ''codex'' ''m'' (sample_request\<lparr>rq_downstreamWebsocket := True\<rparr>) []
        schedulerStrategyFillFirst websocket_scheduler) = Inr a
    | Inl _ \<Rightarrow> \<exists>err. fst (pickSingleWithStrategy 5 60 60 ''codex'' ''m'' (sample_request\<lparr>rq_downstreamWebsocket := True\<rparr>) []
        schedulerStrategyFillFirst websocket_scheduler) = Inl err"
proof -
  have k: "ToLower (TrimSpace ''codex'') = ''codex''" "canonicalModelKey (canonicalModelKey ''m'') = ''m''" by code_simp+
  have "map_of (as_providers websocket_scheduler) ''codex'' \<noteq> None" by code_simp
  then have p: "map_of (as_providers websocket_scheduler) (ToLower (TrimSpace ''codex'')) =
      Some (the (map_of (as_providers websocket_scheduler) ''codex''))" by (simp add: k)
  show ?thesis
    using scheduler_refines_fill_first[OF websocket_scheduler_reach _ p, where strategy = schedulerStrategyFillFirst
        and rq = "sample_request\<lparr>rq_downstreamWebsocket := True\<rparr>" and model = "''m''" and tried = "[]" and ?t2.0 = 60 and ?t3.0 = 60]
    by (simp add: chosen_strategy_def k)
qed

text \<open>There the pick is the credential with websockets although the other one has a higher priority.\<close>

lemma websocket_preferred:
  "fst (pickSingleWithStrategy 5 60 60 ''codex'' ''m'' (sample_request\<lparr>rq_downstreamWebsocket := True\<rparr>) []
     schedulerStrategyFillFirst websocket_scheduler) = Inr websocket_auth"
  by code_simp

section \<open>Picks over several providers\<close>

subsection \<open>Shards that are up to date\<close>

definition fresh :: "string \<Rightarrow> go_time \<Rightarrow> modelScheduler \<Rightarrow> bool" where
  "fresh k now sh \<longleftrightarrow>
     (\<forall>e \<in> snd ` set (sh_entries sh). se_state e = scheduledStateReady \<longleftrightarrow> free_now k now (se_auth e))"

lemma reevaluate_fresh: "se_state (reevaluate k now e) = scheduledStateReady \<longleftrightarrow> free_now k now (se_auth e)"
  by (simp add: reevaluate_def entryState_free split: prod.split)

lemma build_model [simp]: "sh_modelKey (buildShard k now auths) = k"
  by (induction auths rule: rev_induct) (auto simp: buildShard_def emptyShard_def upsert_entries(2))

lemma build_fresh: "fresh k now (buildShard k now auths)"
proof (induction auths rule: rev_induct)
  case Nil
  then show ?case by (simp add: fresh_def buildShard_def emptyShard_def)
next
  case (snoc x auths)
  obtain i meta where x: "x = (i, meta)" by force
  let ?m = "buildShard k now auths"
  let ?new = "reevaluate k now \<lparr>se_meta = meta, se_state = scheduledStateReady, se_nextRetryAt = 0\<rparr>"
  have step: "buildShard k now (auths @ [x]) = (if supportsModel meta k then upsertEntryLocked meta now ?m else ?m)"
    by (simp add: buildShard_def x)
  have "snd ` set (sh_entries (upsertEntryLocked meta now ?m)) \<subseteq> insert ?new (snd ` set (sh_entries ?m))"
    unfolding upsert_entries(1) build_model by (rule values_update)
  moreover have "se_state ?new = scheduledStateReady \<longleftrightarrow> free_now k now (se_auth ?new)"
    by (simp add: reevaluate_fresh)
  moreover have "\<forall>e \<in> snd ` set (sh_entries ?m). se_state e = scheduledStateReady \<longleftrightarrow> free_now k now (se_auth e)"
    using snoc by (simp add: fresh_def)
  ultimately have "fresh k now (upsertEntryLocked meta now ?m)" unfolding fresh_def by (rule ball_insert_subset)
  then show ?case using snoc unfolding step by simp
qed

lemma ensured_fresh:
  assumes "sched_ok t s" "t \<le> now" "0 \<le> now" "map_of (as_providers s) pk = Some p"
  shows "fresh (canonicalModelKey k) now (fst (ensureModelLocked k now p))"
proof (cases "map_of (pv_modelShards p) (canonicalModelKey k)")
  case None
  then show ?thesis by (simp add: ensureModelLocked_def Let_def build_fresh)
next
  case (Some sh)
  then have "shard_reach (canonicalModelKey k) t sh"
    using assms(1,4) by (auto simp: sched_ok_def providers_ok_def provider_ok_def)
  from shard_reach_ok[OF shard_reach.wait[OF this assms(2)]]
  have "shard_ok sh" "timely now sh" "sh_modelKey sh = canonicalModelKey k" by (auto simp: timely_alt)
  then show ?thesis
    using Some promote_ready_iff_free[OF _ assms(3), of sh] by (simp add: fresh_def ensureModelLocked_def Let_def)
qed

subsection \<open>The entries the phases of a pick read\<close>

definition entries_view :: "string \<Rightarrow> authScheduler \<Rightarrow> string \<Rightarrow> entries option" where
  "entries_view k s pk = map_option sh_entries (candidateShard k s pk)"

definition shards_ok :: "string \<Rightarrow> authScheduler \<Rightarrow> bool" where
  "shards_ok k s \<longleftrightarrow> (\<forall>pk sh. candidateShard k s pk = Some sh \<longrightarrow> shard_ok sh)"

text \<open>A ready entry of the priority that the request allows, in the shard of a provider.\<close>

definition ready_here ::
  "string \<Rightarrow> authScheduler \<Rightarrow> int \<Rightarrow> (scheduledAuth \<Rightarrow> bool) \<Rightarrow> auth \<Rightarrow> string \<Rightarrow> bool" where
  "ready_here k s p pred a pk \<longleftrightarrow>
     (\<exists>es. entries_view k s pk = Some es \<and> (\<exists>e \<in> snd ` set es. pred e \<and> ready_at p e \<and> se_auth e = a))"

lemma candidate_put:
  "candidateShard k (putShard pk (canonicalModelKey k) sh s) pk' =
     (if pk' = pk \<and> map_of (as_providers s) pk \<noteq> None then Some sh else candidateShard k s pk')"
  by (auto simp: candidateShard_def putShard_def map_of_update split: option.splits)

lemma pickAtProvider_effect:
  assumes "shards_ok k s" "pickAtProvider k p strat pred pk s = (r, s')"
  shows "shards_ok k s'" and "entries_view k s' = entries_view k s"
    and "r = Some a \<Longrightarrow> ready_here k s p pred a pk"
proof -
  have "shards_ok k s' \<and> entries_view k s' = entries_view k s \<and> (r = Some a \<longrightarrow> ready_here k s p pred a pk)"
  proof (cases "candidateShard k s pk")
    case None
    then show ?thesis using assms by (auto simp: pickAtProvider_def)
  next
    case (Some sh)
    have ok: "shard_ok sh" using assms(1) Some by (simp add: shards_ok_def)
    let ?r = "pickReadyAtPriorityLocked False p strat pred sh"
    have s': "r = fst ?r" "s' = putShard pk (canonicalModelKey k) (snd ?r) s"
      using assms(2) Some by (auto simp: pickAtProvider_def split_beta)
    have "map_of (as_providers s) pk \<noteq> None" using Some by (auto simp: candidateShard_def split: option.splits)
    then have c: "candidateShard k s' pk' = (if pk' = pk then Some (snd ?r) else candidateShard k s pk')" for pk'
      by (simp add: s'(2) candidate_put)
    have "ready_here k s p pred a pk" if "r = Some a"
    proof -
      have "fst ?r = Some a" using that s'(1) by simp
      from pickAt_from[OF ok this] show ?thesis using Some by (auto simp: ready_here_def entries_view_def)
    qed
    moreover have "entries_view k s' = entries_view k s" by (simp add: fun_eq_iff entries_view_def c Some)
    moreover have "shards_ok k s'" using assms(1) pickAt_shard_ok[OF ok] unfolding shards_ok_def c by auto
    ultimately show ?thesis by blast
  qed
  then show "shards_ok k s'" "entries_view k s' = entries_view k s" "r = Some a \<Longrightarrow> ready_here k s p pred a pk"
    by blast+
qed

lemma ready_here_cong: "entries_view k s' = entries_view k s \<Longrightarrow> ready_here k s' = ready_here k s"
  by (simp add: ready_here_def fun_eq_iff)

lemma mixedFillFirst_from:
  assumes "shards_ok k s" "fst (mixedFillFirst k p pred providers s) = Some (a, pk)"
  shows "pk \<in> set providers \<and> ready_here k s p pred a pk"
  using assms
proof (induction providers arbitrary: s)
  case (Cons q providers)
  obtain r s' where r: "pickAtProvider k p schedulerStrategyFillFirst pred q s = (r, s')" by force
  note e = pickAtProvider_effect[OF Cons.prems(1) r]
  show ?case
  proof (cases r)
    case None
    then have "pk \<in> set providers \<and> ready_here k s' p pred a pk" using Cons.IH[OF e(1)] Cons.prems(2) r by simp
    then show ?thesis using ready_here_cong[OF e(2)] by simp
  next
    case (Some b)
    then show ?thesis using Cons.prems(2) r e(3) by auto
  qed
qed simp

lemma rotateProviders_from:
  assumes "shards_ok k s" "providers \<noteq> []"
    and "fst (rotateProviders ck k p pred providers weights start offsets slot s) = Some (a, pk)"
  shows "pk \<in> set providers \<and> ready_here k s p pred a pk"
  using assms(1,3)
proof (induction offsets arbitrary: slot s)
  case (Cons off offsets)
  define i where "i = (start + off) mod length providers"
  have i: "i < length providers" using assms(2) by (simp add: i_def)
  obtain r s' where r: "pickAtProvider k p schedulerStrategyRoundRobin pred (providers ! i) s = (r, s')" by force
  note e = pickAtProvider_effect[OF Cons.prems(1) r]
  have step: "fst (rotateProviders ck k p pred providers weights start (off # offsets) slot s) =
      (if weights ! i = 0 then fst (rotateProviders ck k p pred providers weights start offsets slot s)
       else case r of Some a \<Rightarrow> Some (a, providers ! i)
         | None \<Rightarrow> fst (rotateProviders ck k p pred providers weights start offsets
             (if i \<noteq> start then segmentStart weights i else slot) s'))"
    by (simp add: Let_def i_def[symmetric] r split: option.split)
  show ?case
  proof (cases "weights ! i = 0 \<or> r = None")
    case True
    then have "pk \<in> set providers \<and> (ready_here k s p pred a pk \<or> ready_here k s' p pred a pk)"
      using Cons.IH[OF Cons.prems(1)] Cons.IH[OF e(1)] Cons.prems(2) unfolding step by (auto split: if_splits)
    then show ?thesis using ready_here_cong[OF e(2)] by auto
  next
    case False
    then show ?thesis using Cons.prems(2) e(3) i unfolding step by auto
  qed
qed simp

lemma mixedRotation_from:
  assumes "shards_ok k s" "providers \<noteq> []" "fst (mixedRotation ck k p pred providers s) = Some (a, pk)"
  shows "pk \<in> set providers \<and> ready_here k s p pred a pk"
  using assms(3) rotateProviders_from[OF assms(1,2)] by (auto simp: mixedRotation_def Let_def split: if_splits option.splits)

lemma pickSmooth_member:
  assumes "fst (pickSmooth ident weight xs cur) = Some x"
  shows "x \<in> set xs"
proof -
  obtain cur1 p1 pc tot where "smoothLoop ident weight xs (cur, None, 0, 0) = (cur1, p1, pc, tot)" by (metis prod_cases4)
  with assms smoothLoop_picks[OF this] show ?thesis by (auto simp: pickSmooth_def split: option.splits)
qed

lemma mixedWeighted_from:
  assumes "providers_ok now s" "shards_ok k s" "fst (mixedWeighted ck k p pred providers s) = Some (a, pk)"
  shows "pk \<in> set providers \<and> ready_here k s p pred a pk"
proof -
  obtain e where e: "e \<in> set (mixedEntries k p s providers)" "pred e" "se_auth e = a" "sm_providerKey (se_meta e) = pk"
  proof -
    from assms(3) obtain e cur where "fst (pickSmooth (\<lambda>e. se_id e) (\<lambda>e. se_weight e) (filter pred (mixedEntries k p s providers)) cur) = Some e"
      "se_auth e = a" "sm_providerKey (se_meta e) = pk"
      by (auto simp: mixedWeighted_def Let_def split_beta pickSmoothWeightedScheduled_def)
    with pickSmooth_member[OF this(1)] that show thesis by auto
  qed
  then obtain q sh b where q: "q \<in> set providers" "candidateShard k s q = Some sh"
    and b: "map_of (sh_readyByPriority sh) p = Some b" "e \<in> set (resolve (sh_entries sh) (rv_flat (bk_all b)))"
    by (auto simp: mixedEntries_def split: option.splits) (metis (no_types))
  have ok: "shard_ok sh" using assms(2) q(2) by (simp add: shards_ok_def)
  then have es: "entries_ok (sh_entries sh)" and bo: "bucket_ok (sh_entries sh) p b"
    using map_of_SomeD[OF b(1)] by (auto simp: shard_ok_def indexes_ok_def)
  have m: "e \<in> snd ` set (sh_entries sh)" "ready_at p e"
    using b(2) unfolding resolve_all[OF es bo] ready_list_def by (auto simp: ready_at_def)
  obtain pr where pr: "map_of (as_providers s) q = Some pr" "shard_in_step (pv_auths pr) (canonicalModelKey k) sh"
    using candidate_ok(2)[OF assms(1) q(2)] by blast
  have "map_option se_meta (map_of (sh_entries sh) (se_id e)) = Some (se_meta e)"
    using entries_lookup[OF es m(1)] by simp
  then have "map_of (pv_auths pr) (se_id e) = Some (se_meta e)"
    using in_step_entry[OF pr(2)] by blast
  then have "sm_providerKey (se_meta e) = q"
    using assms(1) pr(1) by (auto simp: providers_ok_def provider_ok_def member_ok_def)
  then show ?thesis using e q m by (auto simp: ready_here_def entries_view_def)
qed

subsection \<open>The shards a pick starts from\<close>

lemma ensureIn_shards:
  "candidateShard k (ensureIn k now pk s) pk' =
     (if pk' = pk then map_option (\<lambda>p. fst (ensureModelLocked k now p)) (map_of (as_providers s) pk)
      else candidateShard k s pk')"
  by (auto simp: candidateShard_def ensureIn_def ensureModelLocked_def Let_def map_of_update split: option.splits)

lemma ensureIn_provider:
  "map_of (as_providers (ensureIn k now pk s)) pk' = (if pk' = pk
     then map_option (\<lambda>p. snd (ensureModelLocked k now p)) (map_of (as_providers s) pk) else map_of (as_providers s) pk')"
  by (auto simp: ensureIn_def map_of_update split: option.splits)

lemma ensureAll_shards:
  assumes "distinct providers" "sched_ok t s" "t \<le> now" "0 \<le> now"
  shows "\<forall>pk \<in> set providers. \<forall>sh. candidateShard k (ensureAll k now providers s) pk = Some sh \<longrightarrow>
      fresh (canonicalModelKey k) now sh"
    and "\<forall>pk. pk \<notin> set providers \<longrightarrow> candidateShard k (ensureAll k now providers s) pk = candidateShard k s pk"
    and "\<forall>pk \<in> set providers. candidateShard k (ensureAll k now providers s) pk = None \<longleftrightarrow> map_of (as_providers s) pk = None"
proof -
  have "(\<forall>pk \<in> set providers. \<forall>sh. candidateShard k (ensureAll k now providers s) pk = Some sh \<longrightarrow> fresh (canonicalModelKey k) now sh) \<and>
    (\<forall>pk. pk \<notin> set providers \<longrightarrow> candidateShard k (ensureAll k now providers s) pk = candidateShard k s pk \<and>
       map_of (as_providers (ensureAll k now providers s)) pk = map_of (as_providers s) pk) \<and>
    (\<forall>pk \<in> set providers. candidateShard k (ensureAll k now providers s) pk = None \<longleftrightarrow> map_of (as_providers s) pk = None)"
    using assms(1)
  proof (induction providers rule: rev_induct)
    case Nil
    then show ?case by (simp add: ensureAll_def)
  next
    case (snoc q providers)
    let ?s = "ensureAll k now providers s"
    have step: "ensureAll k now (providers @ [q]) s = ensureIn k now q ?s" by (simp add: ensureAll_def)
    have ok: "sched_ok now ?s"
      by (rule keeps_sched_ok[OF ensureAll_keeps[OF assms(3,4)] assms(2,4)])
    have "fresh (canonicalModelKey k) now sh" if "candidateShard k (ensureIn k now q ?s) q = Some sh" for sh
      using that ensured_fresh[OF ok order.refl assms(4)] by (auto simp: ensureIn_shards)
    then show ?case using snoc unfolding step by (auto simp: ensureIn_shards ensureIn_provider)
  qed
  then show "\<forall>pk \<in> set providers. \<forall>sh. candidateShard k (ensureAll k now providers s) pk = Some sh \<longrightarrow> fresh (canonicalModelKey k) now sh"
    and "\<forall>pk. pk \<notin> set providers \<longrightarrow> candidateShard k (ensureAll k now providers s) pk = candidateShard k s pk"
    and "\<forall>pk \<in> set providers. candidateShard k (ensureAll k now providers s) pk = None \<longleftrightarrow> map_of (as_providers s) pk = None"
    by blast+
qed

lemma providers_shards_ok: "providers_ok now s \<Longrightarrow> shards_ok k s"
  unfolding shards_ok_def using candidate_ok(1) shard_reach_ok by blast

text \<open>A ready entry of an up-to-date shard is a free registered credential, and conversely.\<close>

lemma ready_iff_free:
  assumes "providers_ok now s" "candidateShard k s pk = Some sh" "fresh (canonicalModelKey k) now sh"
  shows "(\<exists>e \<in> snd ` set (sh_entries sh). Q (se_meta e) \<and> ready_at p e \<and> se_auth e = a) \<longleftrightarrow>
    (\<exists>meta. stored s pk (auth_ID a) = Some meta \<and> sm_auth meta = a \<and> supportsModel meta (canonicalModelKey k) \<and> Q meta \<and>
       free_now (canonicalModelKey k) now a \<and> authPriority (Some a) = p)" (is "?L = ?R")
proof -
  obtain pr where pr: "map_of (as_providers s) pk = Some pr" "shard_in_step (pv_auths pr) (canonicalModelKey k) sh"
    using candidate_ok(2)[OF assms(1,2)] by blast
  have r: "shard_reach (canonicalModelKey k) now sh" by (rule candidate_ok(1)[OF assms(1,2)])
  have es: "entries_ok (sh_entries sh)" using shard_reach_ok[OF r] by (simp add: shard_ok_def)
  have st: "map_option se_meta (map_of (sh_entries sh) i) = Some m \<longleftrightarrow> stored s pk i = Some m \<and> supportsModel m (canonicalModelKey k)" for i m
    using in_step_entry[OF pr(2)] pr(1) by (simp add: stored_def)
  show ?thesis
  proof
    assume ?L
    then obtain e where e: "e \<in> snd ` set (sh_entries sh)" "Q (se_meta e)" "ready_at p e" "se_auth e = a" by blast
    then have "map_option se_meta (map_of (sh_entries sh) (auth_ID a)) = Some (se_meta e)"
      using entries_lookup[OF es e(1)] by simp
    moreover have "free_now (canonicalModelKey k) now a" using assms(3) e by (auto simp: fresh_def ready_at_def)
    moreover have "authPriority (Some a) = p"
      using shard_reach_ok[OF r] e by (auto simp: ready_at_def meta_ok_def)
    ultimately show ?R using e(2,4) st by blast
  next
    assume ?R
    then obtain meta where m: "stored s pk (auth_ID a) = Some meta" "sm_auth meta = a" "supportsModel meta (canonicalModelKey k)"
      "Q meta" "free_now (canonicalModelKey k) now a" "authPriority (Some a) = p" by blast
    then obtain e where e: "map_of (sh_entries sh) (auth_ID a) = Some e" "se_meta e = meta" using st by blast
    then have mem: "e \<in> snd ` set (sh_entries sh)" using map_of_SomeD by force
    then have "se_state e = scheduledStateReady" "sm_priority meta = p"
      using assms(3) m e(2) shard_reach_ok[OF r] by (auto simp: fresh_def meta_ok_def)
    then show ?L using mem e(2) m(2,4) by (auto simp: ready_at_def)
  qed
qed

subsection \<open>Safety\<close>

lemma free_mono: "free_now k t a \<Longrightarrow> 0 \<le> t \<Longrightarrow> t \<le> now \<Longrightarrow> free_now k now a"
  using isAuthBlocked_over_time[of t now a k] by (metis free_now_def prod_cases3 fst_conv)

text \<open>A credential that a pick may return: registered with the provider, for the model, allowed by
  the request, and free.\<close>

definition eligible ::
  "request \<Rightarrow> string list \<Rightarrow> schedulerStrategy \<Rightarrow> string \<Rightarrow> go_time \<Rightarrow> authScheduler \<Rightarrow> string \<Rightarrow> auth \<Rightarrow> bool" where
  "eligible rq tried strategy k now s pk a \<longleftrightarrow>
     (\<exists>meta. stored s pk (auth_ID a) = Some meta \<and> sm_auth meta = a \<and> supportsModel meta k \<and>
        allowed rq tried strategy meta) \<and> free_now k now a"

lemma eligible_mono: "eligible rq tried strategy k t s pk a \<Longrightarrow> 0 \<le> t \<Longrightarrow> t \<le> now \<Longrightarrow> eligible rq tried strategy k now s pk a"
  using free_mono by (auto simp: eligible_def)

lemma pick_in_provider_safe:
  assumes "sched_ok t1 s" "t1 \<le> t2" "map_of (as_providers s) pk = Some p"
    and "candidateShard k (ensureIn k t1 pk s) pk = Some sh"
    and "fst (pickReadyLocked ws strat (request_pred rq tried strat) t2 sh) = Some a"
  shows "eligible rq tried strat (canonicalModelKey k) t2 s pk a"
proof -
  let ?k = "canonicalModelKey k"
  obtain sh' where sh': "candidateShard k (ensureIn k t1 pk s) pk = Some sh'" "shard_reach ?k t1 sh'"
    "shard_in_step (pv_auths p) ?k sh'" using ensured_shard[OF assms(1,3)] by metis
  with assms(4) have sh: "shard_reach ?k t1 sh" "shard_in_step (pv_auths p) ?k sh" by simp_all
  note r = shard_reach_ok[OF shard_reach.wait[OF sh(1) assms(2)]]
  have m: "shard_ok sh" "0 \<le> t2" "timely t2 sh" "sh_modelKey sh = ?k" using r by (auto simp: timely_alt)
  let ?m1 = "promoteExpiredLocked t2 sh"
  have es: "entries_ok (sh_entries ?m1)" using promote_shard_ok[OF m(1)] by (simp add: shard_ok_def)
  from shard_pick_free[OF m(1-3) assms(5)] obtain e where e: "free_now ?k t2 a"
    "e \<in> snd ` set (sh_entries ?m1)" "request_pred rq tried strat e" "se_auth e = a" by (auto simp: m(4))
  have "map_option se_meta (map_of (sh_entries ?m1) (auth_ID a)) = Some (se_meta e)"
    using entries_lookup[OF es e(2)] e(4) by simp
  then have "stored s pk (auth_ID a) = Some (se_meta e) \<and> supportsModel (se_meta e) ?k"
    using in_step_entry[OF promote_in_step[OF sh(2)]] assms(3) by (simp add: stored_def)
  then show ?thesis using e by (auto simp: eligible_def request_pred_meta)
qed

lemma pickSingle_safe:
  assumes "sched_ok t1 s" "t1 \<le> t2"
    and "fst (pickSingleWithStrategy t1 t2 t3 provider model rq tried strategy s) = Inr a"
  shows "eligible rq tried (chosen_strategy strategy s) (canonicalModelKey (canonicalModelKey model)) t2 s
    (ToLower (TrimSpace provider)) a"
proof -
  let ?pk = "ToLower (TrimSpace provider)" and ?k = "canonicalModelKey model" and ?st = "chosen_strategy strategy s"
  obtain sh where sh: "candidateShard ?k (ensureIn ?k t1 ?pk s) ?pk = Some sh"
    and a: "fst (pickReadyLocked (prefers_ws rq ?pk) ?st (request_pred rq tried ?st) t2 sh) = Some a"
    using assms(3) unfolding pickSingle_alt Let_def by (auto split: option.splits)
  then obtain p where "map_of (as_providers s) ?pk = Some p" by (auto simp: ensureIn_shard)
  from pick_in_provider_safe[OF assms(1,2) this sh a] show ?thesis .
qed

lemma stored_member:
  assumes "sched_ok now s" "stored s pk i = Some meta"
  shows "member_ok pk i meta"
proof -
  obtain p where p: "map_of (as_providers s) pk = Some p" "map_of (pv_auths p) i = Some meta"
    using assms(2) by (auto simp: stored_def split: option.splits)
  then have "provider_ok now pk p" using assms(1) by (simp add: sched_ok_def providers_ok_def)
  with p(2) show ?thesis by (simp add: provider_ok_def)
qed

lemma unpinned_state:
  fixes k :: string
  assumes "sched_ok t1 s" "distinct providers"
  defines "s1 \<equiv> ensureAll k t1 providers s"
  shows "providers_ok t1 s1" and "shards_ok k s1" and "stored s1 = stored s"
    and "pk \<in> set providers \<Longrightarrow> candidateShard k s1 pk = Some sh \<Longrightarrow> fresh (canonicalModelKey k) t1 sh"
proof -
  have t: "0 \<le> t1" "providers_ok t1 s" using assms(1) by (auto simp: sched_ok_def)
  have kp: "keeps t1 t1 s s1" unfolding s1_def by (rule ensureAll_keeps[OF order.refl t(1)])
  then show "providers_ok t1 s1" "stored s1 = stored s" using t(2) by (auto simp: keeps_def)
  then show "shards_ok k s1" by (simp add: providers_shards_ok)
  show "pk \<in> set providers \<Longrightarrow> candidateShard k s1 pk = Some sh \<Longrightarrow> fresh (canonicalModelKey k) t1 sh"
    using ensureAll_shards(1)[OF assms(2,1) order.refl t(1), of k] unfolding s1_def by blast
qed

lemma ready_here_eligible:
  assumes "sched_ok t1 s" "distinct providers" "pk \<in> set providers"
  shows "ready_here k (ensureAll k t1 providers s) p (request_pred rq tried strat) a pk \<longleftrightarrow>
    candidateShard k (ensureAll k t1 providers s) pk \<noteq> None \<and>
    eligible rq tried strat (canonicalModelKey k) t1 s pk a \<and> authPriority (Some a) = p"
proof (cases "candidateShard k (ensureAll k t1 providers s) pk")
  case None
  then show ?thesis by (simp add: ready_here_def entries_view_def)
next
  case (Some sh)
  note u = unpinned_state[OF assms(1,2), where k = k]
  have "(\<exists>e \<in> snd ` set (sh_entries sh). request_pred rq tried strat e \<and> ready_at p e \<and> se_auth e = a) \<longleftrightarrow>
      eligible rq tried strat (canonicalModelKey k) t1 s pk a \<and> authPriority (Some a) = p"
    unfolding request_pred_meta ready_iff_free[OF u(1) Some u(4)[OF assms(3) Some]] u(3) eligible_def by blast
  then show ?thesis using Some by (simp add: ready_here_def entries_view_def)
qed

lemma normalize_distinct: "distinct (normalizeProviderKeys providers)"
  and normalize_keys: "pk \<in> set (normalizeProviderKeys providers) \<Longrightarrow> pk \<noteq> [] \<and> ToLower (TrimSpace pk) = pk"
proof -
  have "distinct (normalizeProviderKeys providers) \<and>
    (\<forall>pk \<in> set (normalizeProviderKeys providers). pk \<noteq> [] \<and> ToLower (TrimSpace pk) = pk)"
  proof (induction providers rule: rev_induct)
    case (snoc p ps)
    have "normalizeProviderKeys (ps @ [p]) = (if ToLower (TrimSpace p) = [] \<or> ToLower (TrimSpace p) \<in> set (normalizeProviderKeys ps)
        then normalizeProviderKeys ps else normalizeProviderKeys ps @ [ToLower (TrimSpace p)])"
      by (simp add: normalizeProviderKeys_def Let_def)
    then show ?case using snoc by simp
  qed (simp add: normalizeProviderKeys_def)
  then show "distinct (normalizeProviderKeys providers)"
    and "pk \<in> set (normalizeProviderKeys providers) \<Longrightarrow> pk \<noteq> [] \<and> ToLower (TrimSpace pk) = pk" by blast+
qed

lemma pickUnpinned_from:
  assumes "sched_ok t1 s" "distinct normalized" "normalized \<noteq> []"
    and "fst (pickUnpinned t1 t3 normalized model (request_pred rq tried strat) strat s) = Inr (a, pk)"
  obtains bp where "pk \<in> set normalized"
    and "ready_here (canonicalModelKey model) (ensureAll (canonicalModelKey model) t1 normalized s) bp (request_pred rq tried strat) a pk"
    and "bestReadyPriority (canonicalModelKey model) (request_pred rq tried strat)
      (ensureAll (canonicalModelKey model) t1 normalized s) normalized = Some bp"
proof -
  let ?k = "canonicalModelKey model" and ?pred = "request_pred rq tried strat"
  let ?s1 = "ensureAll ?k t1 normalized s" and ?ck = "strings_Join normalized '','' @ '':'' @ ?k"
  note u = unpinned_state[OF assms(1,2), where k = ?k]
  define r where "r bp = (if strat = schedulerStrategyFillFirst then mixedFillFirst ?k bp ?pred normalized ?s1
      else if strat = schedulerStrategyWeightedRoundRobin then mixedWeighted ?ck ?k bp ?pred normalized ?s1
      else mixedRotation ?ck ?k bp ?pred normalized ?s1)" for bp
  obtain bp where bp: "bestReadyPriority ?k ?pred ?s1 normalized = Some bp" "fst (r bp) = Some (a, pk)"
    using assms(4) unfolding pickUnpinned_def Let_def r_def[symmetric] split_beta by (auto split: option.splits)
  have "pk \<in> set normalized \<and> ready_here ?k ?s1 bp ?pred a pk"
    using bp(2) mixedFillFirst_from[OF u(2)] mixedWeighted_from[OF u(1,2)] mixedRotation_from[OF u(2) assms(3)]
    unfolding r_def by (auto split: if_splits)
  with bp(1) show thesis using that by blast
qed

lemma mixed_pick_eligible:
  assumes "sched_reach t1 s" and "t1 \<le> t2" and "t2 \<le> t3"
    and "fst (pickMixedWithStrategy t1 t2 t3 providers model rq tried strategy s) = Inr (a, pk)"
  shows "pk \<in> set (normalizeProviderKeys providers) \<and> enabled_auth a \<and>
    eligible rq tried (chosen_strategy strategy s) (canonicalModelKey (canonicalModelKey model)) t3 s pk a"
proof -
  let ?n = "normalizeProviderKeys providers" and ?st = "chosen_strategy strategy s" and ?k = "canonicalModelKey model"
  have ok: "sched_ok t1 s" by (rule sched_reach_ok[OF assms(1)])
  then have t: "0 \<le> t1" "0 \<le> t2" "t1 \<le> t3" using assms(2,3) by (auto simp: sched_ok_def)
  have "pk \<in> set ?n \<and> eligible rq tried ?st (canonicalModelKey ?k) t3 s pk a"
  proof (cases ?n)
    case Nil
    then show ?thesis using assms(4) by (simp add: pickMixedWithStrategy_def)
  next
    case (Cons p0 rest)
    show ?thesis
    proof (cases rest)
      case Nil
      then have e: "fst (pickSingleWithStrategy t1 t2 t3 p0 model rq tried strategy s) = Inr a" "pk = p0"
        using assms(4) Cons by (auto simp: pickMixedWithStrategy_def split: prod.splits sum.splits)
      moreover have "ToLower (TrimSpace p0) = p0" using normalize_keys[of p0 providers] Cons by simp
      ultimately show ?thesis
        using pickSingle_safe[OF ok assms(2) e(1)] eligible_mono[OF _ t(2) assms(3)] Cons by simp
    next
      case (Cons p1 rest')
      have n: "?n = p0 # p1 # rest'" using \<open>?n = p0 # rest\<close> Cons by simp
      let ?pin = "pinnedAuthIDFromMetadata (rq_Metadata rq)"
      have res: "fst (if ?pin \<noteq> [] then pickPinned t1 t2 t3 ?n model ?pin (request_pred rq tried ?st) ?st s
          else pickUnpinned t1 t3 ?n model (request_pred rq tried ?st) ?st s) = Inr (a, pk)"
        using assms(4) unfolding pickMixedWithStrategy_def n list.case Let_def request_pred_def chosen_strategy_def .
      show ?thesis
      proof (cases "?pin = []")
        case False
        let ?q = "map_get [] (as_authProviders s) ?pin"
        from res False obtain sh where q: "containsProvider ?n ?q" "pk = ?q"
          "candidateShard ?k (ensureIn ?k t1 ?q s) ?q = Some sh"
          "fst (pickReadyLocked False ?st (request_pred rq tried ?st) t2 sh) = Some a"
          by (auto simp: pickPinned_def Let_def split_beta split: if_splits option.splits)
        then obtain p where "map_of (as_providers s) ?q = Some p" by (auto simp: ensureIn_shard)
        from pick_in_provider_safe[OF ok assms(2) this q(3,4)] show ?thesis
          using q(1,2) eligible_mono[OF _ t(2) assms(3)] by (auto simp: containsProvider_def list_ex_iff)
      next
        case True
        with res have "fst (pickUnpinned t1 t3 ?n model (request_pred rq tried ?st) ?st s) = Inr (a, pk)" by simp
        from pickUnpinned_from[OF ok normalize_distinct _ this] obtain bp where
          "pk \<in> set ?n" "ready_here ?k (ensureAll ?k t1 ?n s) bp (request_pred rq tried ?st) a pk" using n by auto
        then show ?thesis using ready_here_eligible[OF ok normalize_distinct] eligible_mono[OF _ t(1,3)] by blast
      qed
    qed
  qed
  moreover have "enabled_auth a" if "stored s pk (auth_ID a) = Some meta" "sm_auth meta = a" for meta
    using stored_member[OF ok that(1)] that(2) by (simp add: member_ok_def)
  ultimately show ?thesis by (auto simp: eligible_def)
qed

text \<open>C3. Every pick over several providers is safe: the credential it returns is registered with the
  provider it names, which is one of the requested ones; it is enabled, supports the model, and the
  request allows it (its kind, policy, group, pin and the credentials already tried); and it is not
  blocked, neither when it was chosen nor when the pick returns.\<close>

theorem mixed_pick_safe:
  assumes "sched_reach t1 s" and "t1 \<le> t2" and "t2 \<le> t3"
    and "fst (pickMixedWithStrategy t1 t2 t3 providers model rq tried strategy s) = Inr (a, pk)"
  shows "pk \<in> set (normalizeProviderKeys providers) \<and> enabled_auth a \<and>
    eligible rq tried (chosen_strategy strategy s) (canonicalModelKey (canonicalModelKey model)) t3 s pk a"
  by (rule mixed_pick_eligible[OF assms])

theorem mixed_pick_safe_witness:
  "enabled_auth (sample_auth ''g'' ''gemini'') \<and>
   eligible sample_request [''b''] schedulerStrategyRoundRobin (canonicalModelKey (canonicalModelKey ''m'')) 7 sample_scheduler
     ''gemini'' (sample_auth ''g'' ''gemini'')"
proof -
  have "fst (pickMixedWithStrategy 5 6 7 [''Claude'', '' gemini''] ''m'' sample_request [''b''] schedulerStrategyCurrent sample_scheduler) =
      Inr (sample_auth ''g'' ''gemini'', ''gemini'')" by code_simp
  from mixed_pick_safe[OF sample_scheduler_reach _ _ this]
  have "enabled_auth (sample_auth ''g'' ''gemini'') \<and> eligible sample_request [''b'']
      (chosen_strategy schedulerStrategyCurrent sample_scheduler) (canonicalModelKey (canonicalModelKey ''m'')) 7
      sample_scheduler ''gemini'' (sample_auth ''g'' ''gemini'')" by simp
  moreover have "chosen_strategy schedulerStrategyCurrent sample_scheduler = schedulerStrategyRoundRobin" by code_simp
  ultimately show ?thesis by simp
qed

end
