(* ===== verification/SchedulerBest.thy ===== *)
theory SchedulerBest
  imports SchedulerPicks
begin

text \<open>
  A pick over several providers is complete and of the highest priority: it fails only when no
  registered credential is eligible, and what it returns has the highest priority of the eligible
  credentials of all requested providers.
\<close>

section \<open>The best priority\<close>



section \<open>A ready candidate is picked\<close>












section \<open>Complete, and of the highest priority\<close>






end
