(* ===== verification/SessionCache.thy ===== *)
theory SessionCache
  imports Prelude
begin

text \<open>
  The cache that binds sessions to credentials, \<open>sdk/aps/auth/session_cache.go\<close>. One logical session
  may have several identifiers (aliases); they form a group that is bound, refreshed, moved, expired
  and evicted as a whole.

  The eviction list and its map of elements change together and hold the primary keys of the groups;
  they are one list here, oldest first. Every operation is the section under the mutex, with the
  reading of the clock as an argument. \<open>Get\<close> has two sections, a reading one and, for an expired
  binding, the writing one \<open>Get_locked\<close>, and reads the clock in each; other operations may come between
  the two, so \<open>Get_locked\<close> is an operation of its own in the runs of \<open>SessionSpec\<close>. The interval between
  two cleanups, the initialisation of a zero cache and nil receivers are left out.
\<close>

section \<open>Aliases\<close>

definition maxStableSessionAliases :: nat where "maxStableSessionAliases = 64"
definition defaultMaxSessionEntries :: int where "defaultMaxSessionEntries = 65536"

fun add_aliases :: "string list \<Rightarrow> string list \<Rightarrow> string list" where
  "add_aliases aliases [] = aliases"
| "add_aliases aliases (alias # xs) =
     (if alias = [] \<or> alias \<in> set aliases then add_aliases aliases xs else add_aliases (aliases @ [alias]) xs)"

definition mergeSessionAliases :: "string list \<Rightarrow> string list \<Rightarrow> string list" where
  "mergeSessionAliases existing candidates = add_aliases (add_aliases [] existing) candidates"

text \<open>The part after the first \<open>"::"\<close>, as in \<open>strings.Cut\<close>.\<close>

fun after_colons :: "string \<Rightarrow> string option" where
  "after_colons (a # b # s) = (if a = CHR '':'' \<and> b = CHR '':'' then Some s else after_colons (b # s))"
| "after_colons s = None"

definition isLocalPromptCacheSessionAlias :: "string \<Rightarrow> bool" where
  "isLocalPromptCacheSessionAlias alias =
     (if HasPrefix alias ''pck:'' then True
      else case after_colons alias of None \<Rightarrow> False | Some rest \<Rightarrow> HasPrefix rest ''pck:'')"

fun compactLoop :: "(string \<Rightarrow> bool) \<Rightarrow> bool \<Rightarrow> nat \<Rightarrow> string list \<Rightarrow> string list" where
  "compactLoop isPck hasPck count [] = []"
| "compactLoop isPck hasPck count (alias # xs) =
     (if isPck alias
      then if hasPck then compactLoop isPck hasPck count xs
           else alias # compactLoop isPck True count xs
      else if count \<ge> maxStableSessionAliases then compactLoop isPck hasPck count xs
           else alias # compactLoop isPck hasPck (count + 1) xs)"

definition compactSessionAliasesWith :: "(string \<Rightarrow> bool) \<Rightarrow> string list \<Rightarrow> string list" where
  "compactSessionAliasesWith isPromptCacheAlias aliases = compactLoop isPromptCacheAlias False 0 aliases"

definition compactSessionAliases :: "string list \<Rightarrow> string list" where
  "compactSessionAliases aliases = compactSessionAliasesWith isLocalPromptCacheSessionAlias aliases"

definition compactHomeSessionAliases :: "string list \<Rightarrow> string list" where
  "compactHomeSessionAliases aliases = compactSessionAliasesWith (\<lambda>alias. HasPrefix alias ''pck:'') aliases"

section \<open>State\<close>

record sessionEntry =
  sn_authID :: string
  sn_expiresAt :: go_time
  sn_aliases :: "string list"

record SessionCache =
  sc_entries :: "(string, sessionEntry) go_map"
  sc_groups :: "(string, sessionEntry) go_map"
  sc_evictionOrder :: "string list"
  sc_maxEntries :: int
  sc_ttl :: duration

definition NewSessionCacheWithCapacity :: "duration \<Rightarrow> int \<Rightarrow> SessionCache" where
  "NewSessionCacheWithCapacity ttl maxEntries =
     \<lparr>sc_entries = [], sc_groups = [], sc_evictionOrder = [],
      sc_maxEntries = (if maxEntries \<le> 0 then defaultMaxSessionEntries else maxEntries),
      sc_ttl = (if ttl \<le> 0 then 30 * Minute else ttl)\<rparr>"

definition NewSessionCache :: "duration \<Rightarrow> SessionCache" where
  "NewSessionCache ttl = NewSessionCacheWithCapacity ttl defaultMaxSessionEntries"

section \<open>Groups\<close>

definition equalSessionAliases :: "string list \<Rightarrow> string list \<Rightarrow> bool" where
  "equalSessionAliases left right \<longleftrightarrow> length left = length right \<and> list_all2 (=) left right"

definition sameSessionEntryGroup :: "sessionEntry \<Rightarrow> sessionEntry \<Rightarrow> bool" where
  "sameSessionEntryGroup left right \<longleftrightarrow>
     sn_authID left = sn_authID right \<and> sn_expiresAt left = sn_expiresAt right \<and>
     equalSessionAliases (sn_aliases left) (sn_aliases right)"

definition removeAliasGroupLocked :: "sessionEntry \<Rightarrow> SessionCache \<Rightarrow> SessionCache" where
  "removeAliasGroupLocked entry c =
     (case sn_aliases entry of
        [] \<Rightarrow> c
      | primaryKey # _ \<Rightarrow>
          let c1 = (case map_of (sc_groups c) primaryKey of
                      None \<Rightarrow> c
                    | Some currentGroup \<Rightarrow>
                        if sameSessionEntryGroup currentGroup entry
                        then c\<lparr>sc_groups := AList.delete primaryKey (sc_groups c),
                               sc_evictionOrder := remove1 primaryKey (sc_evictionOrder c)\<rparr>
                        else c)
          in c1\<lparr>sc_entries := foldl (\<lambda>es alias. case map_of es alias of
                   None \<Rightarrow> es
                 | Some current \<Rightarrow> if sameSessionEntryGroup current entry then AList.delete alias es else es)
               (sc_entries c1) (sn_aliases entry)\<rparr>)"

text \<open>
  The eviction loop removes the oldest group until the entries fit. Every round takes a key off the
  front of the list, so the length of the list is enough fuel (\<open>evictLoop_fit\<close> in \<open>SessionStore\<close>).
\<close>

fun evictLoop :: "nat \<Rightarrow> SessionCache \<Rightarrow> SessionCache" where
  "evictLoop 0 c = c"
| "evictLoop (Suc fuel) c =
     (if int (length (sc_entries c)) \<le> sc_maxEntries c then c
      else case sc_evictionOrder c of
             [] \<Rightarrow> c
           | primaryKey # rest \<Rightarrow>
               (case map_of (sc_groups c) primaryKey of
                  None \<Rightarrow> evictLoop fuel (c\<lparr>sc_evictionOrder := rest\<rparr>)
                | Some grp \<Rightarrow> evictLoop fuel (removeAliasGroupLocked grp c)))"

definition evictExcessLocked :: "SessionCache \<Rightarrow> SessionCache" where
  "evictExcessLocked c = evictLoop (length (sc_evictionOrder c)) c"

definition bindGroup :: "sessionEntry \<Rightarrow> SessionCache \<Rightarrow> SessionCache" where
  "bindGroup entry c =
     (let primaryKey = hd (sn_aliases entry)
      in c\<lparr>sc_groups := AList.update primaryKey entry (sc_groups c),
           sc_entries := foldl (\<lambda>es alias. AList.update alias entry es) (sc_entries c) (sn_aliases entry),
           sc_evictionOrder := sc_evictionOrder c @ [primaryKey]\<rparr>)"

definition replaceAliasGroupsLocked ::
  "string \<Rightarrow> go_time \<Rightarrow> string list \<Rightarrow> sessionEntry list \<Rightarrow> SessionCache \<Rightarrow> SessionCache" where
  "replaceAliasGroupsLocked authID expiresAt aliases previousGroups c =
     (let c1 = foldl (\<lambda>c previous. removeAliasGroupLocked previous c) c previousGroups
      in if aliases = [] then c1
         else let c2 = (case map_of (sc_groups c1) (hd aliases) of
                          None \<Rightarrow> c1 | Some existing \<Rightarrow> removeAliasGroupLocked existing c1);
                  c3 = bindGroup \<lparr>sn_authID = authID, sn_expiresAt = expiresAt, sn_aliases = aliases\<rparr> c2
              in if sc_maxEntries c3 > 0 \<and> int (length (sc_entries c3)) > sc_maxEntries c3
                 then evictExcessLocked c3 else c3)"

section \<open>Operations\<close>

definition Get_locked :: "go_time \<Rightarrow> string \<Rightarrow> SessionCache \<Rightarrow> string option \<times> SessionCache" where
  "Get_locked now sessionID c =
     (case map_of (sc_entries c) sessionID of
        None \<Rightarrow> (None, c)
      | Some entry \<Rightarrow>
          if now < sn_expiresAt entry then (Some (sn_authID entry), c) else (None, removeAliasGroupLocked entry c))"

definition Get :: "go_time \<Rightarrow> go_time \<Rightarrow> string \<Rightarrow> SessionCache \<Rightarrow> string option \<times> SessionCache" where
  "Get t1 t2 sessionID c =
     (if sessionID = [] then (None, c)
      else case map_of (sc_entries c) sessionID of
             None \<Rightarrow> (None, c)
           | Some entry \<Rightarrow>
               if t1 < sn_expiresAt entry then (Some (sn_authID entry), c) else Get_locked t2 sessionID c)"

definition GetAndRefresh :: "go_time \<Rightarrow> string \<Rightarrow> SessionCache \<Rightarrow> string option \<times> SessionCache" where
  "GetAndRefresh now sessionID c =
     (if sessionID = [] then (None, c)
      else case map_of (sc_entries c) sessionID of
             None \<Rightarrow> (None, c)
           | Some entry \<Rightarrow>
               if \<not> now < sn_expiresAt entry then (None, removeAliasGroupLocked entry c)
               else let aliases = compactSessionAliases (mergeSessionAliases [sessionID] (sn_aliases entry))
                    in (Some (sn_authID entry),
                        replaceAliasGroupsLocked (sn_authID entry) (now + sc_ttl c) aliases [entry] c))"

fun collectGroups ::
  "go_time \<Rightarrow> string list \<Rightarrow> sessionEntry list \<times> string list \<times> SessionCache
    \<Rightarrow> sessionEntry list \<times> string list \<times> SessionCache" where
  "collectGroups now [] acc = acc"
| "collectGroups now (sessionID # ids) (previous, aliases, c) =
     (case map_of (sc_entries c) sessionID of
        None \<Rightarrow> collectGroups now ids (previous, aliases, c)
      | Some entry \<Rightarrow>
          if \<not> now < sn_expiresAt entry then collectGroups now ids (previous, aliases, removeAliasGroupLocked entry c)
          else collectGroups now ids (previous @ [entry], mergeSessionAliases aliases (sn_aliases entry), c))"

definition SetAliases :: "go_time \<Rightarrow> string \<Rightarrow> string list \<Rightarrow> SessionCache \<Rightarrow> SessionCache" where
  "SetAliases now authID sessionIDs c =
     (if authID = [] then c
      else let (previousGroups, aliases0, c1) =
                 collectGroups now sessionIDs ([], mergeSessionAliases [] sessionIDs, c);
               aliases = compactSessionAliases aliases0
           in if aliases = [] then c1
              else replaceAliasGroupsLocked authID (now + sc_ttl c1) aliases previousGroups c1)"

definition Set :: "go_time \<Rightarrow> string \<Rightarrow> string \<Rightarrow> SessionCache \<Rightarrow> SessionCache" where
  "Set now sessionID authID c = SetAliases now authID [sessionID] c"

definition Touch :: "go_time \<Rightarrow> string \<Rightarrow> string \<Rightarrow> SessionCache \<Rightarrow> bool \<times> SessionCache" where
  "Touch now sessionID expectedAuthID c =
     (if sessionID = [] \<or> expectedAuthID = [] then (False, c)
      else case map_of (sc_entries c) sessionID of
             None \<Rightarrow> (False, c)
           | Some entry \<Rightarrow>
               if sn_authID entry \<noteq> expectedAuthID \<or> \<not> now < sn_expiresAt entry then (False, c)
               else let aliases = compactSessionAliases (mergeSessionAliases [sessionID] (sn_aliases entry))
                    in (True, replaceAliasGroupsLocked expectedAuthID (now + sc_ttl c) aliases [entry] c))"

definition dropAlias :: "string \<Rightarrow> sessionEntry \<Rightarrow> SessionCache \<Rightarrow> SessionCache" where
  "dropAlias sessionID entry c =
     (let c1 = removeAliasGroupLocked entry c;
          surviving = filter (\<lambda>alias. alias \<noteq> sessionID) (sn_aliases entry)
      in if surviving \<noteq> [] then replaceAliasGroupsLocked (sn_authID entry) (sn_expiresAt entry) surviving [] c1
         else c1)"

definition CompareAndDelete :: "string \<Rightarrow> string \<Rightarrow> SessionCache \<Rightarrow> bool \<times> SessionCache" where
  "CompareAndDelete sessionID expectedAuthID c =
     (if sessionID = [] \<or> expectedAuthID = [] then (False, c)
      else case map_of (sc_entries c) sessionID of
             None \<Rightarrow> (False, c)
           | Some entry \<Rightarrow>
               if sn_authID entry \<noteq> expectedAuthID then (False, c) else (True, dropAlias sessionID entry c))"

definition Invalidate :: "string \<Rightarrow> SessionCache \<Rightarrow> SessionCache" where
  "Invalidate sessionID c =
     (if sessionID = [] then c
      else case map_of (sc_entries c) sessionID of
             None \<Rightarrow> c
           | Some entry \<Rightarrow> dropAlias sessionID entry c)"

definition removeGroupsWhere :: "(sessionEntry \<Rightarrow> bool) \<Rightarrow> SessionCache \<Rightarrow> SessionCache" where
  "removeGroupsWhere P c =
     foldl (\<lambda>c grp. if P grp then removeAliasGroupLocked grp c else c) c (map snd (sc_groups c))"

definition InvalidateAuth :: "string \<Rightarrow> SessionCache \<Rightarrow> SessionCache" where
  "InvalidateAuth authID c =
     (if authID = [] then c else removeGroupsWhere (\<lambda>grp. sn_authID grp = authID) c)"

definition cleanup :: "go_time \<Rightarrow> SessionCache \<Rightarrow> SessionCache" where
  "cleanup now c = removeGroupsWhere (\<lambda>grp. \<not> now < sn_expiresAt grp) c"

definition Len :: "SessionCache \<Rightarrow> nat" where
  "Len c = length (sc_entries c)"

end
