(* ===== verification/SessionStore.thy ===== *)
theory SessionStore
  imports SessionCache
begin

text \<open>
  The session cache refines a list of groups, oldest first. \<open>linked\<close> says that the maps, the
  eviction order and the alias lists describe the same groups; \<open>store\<close> is the list they describe.
  Removals filter that list, a binding appends to it, and eviction drops from its front.
\<close>

section \<open>Consistency of the maps\<close>

definition linked :: "SessionCache \<Rightarrow> bool" where
  "linked c \<longleftrightarrow>
     wf_map (sc_entries c) \<and> wf_map (sc_groups c) \<and> distinct (sc_evictionOrder c) \<and>
     set (sc_evictionOrder c) = fst ` set (sc_groups c) \<and>
     (\<forall>(k, g) \<in> set (sc_groups c). sn_aliases g \<noteq> [] \<and> hd (sn_aliases g) = k \<and> distinct (sn_aliases g) \<and>
        (\<forall>a \<in> set (sn_aliases g). (a, g) \<in> set (sc_entries c))) \<and>
     (\<forall>(a, e) \<in> set (sc_entries c). a \<in> set (sn_aliases e) \<and> (hd (sn_aliases e), e) \<in> set (sc_groups c))"

definition store :: "SessionCache \<Rightarrow> sessionEntry list" where
  "store c = List.map_filter (map_of (sc_groups c)) (sc_evictionOrder c)"

definition keep :: "(sessionEntry \<Rightarrow> bool) \<Rightarrow> SessionCache \<Rightarrow> SessionCache" where
  "keep P c = c\<lparr>sc_entries := filter (\<lambda>p. P (snd p)) (sc_entries c),
                sc_groups := filter (\<lambda>p. P (snd p)) (sc_groups c),
                sc_evictionOrder := filter (\<lambda>k. case map_of (sc_groups c) k of None \<Rightarrow> False | Some g \<Rightarrow> P g)
                                      (sc_evictionOrder c)\<rparr>"

lemma keep_bounds [simp]: "sc_maxEntries (keep P c) = sc_maxEntries c" "sc_ttl (keep P c) = sc_ttl c"
  by (simp_all add: keep_def)

lemma linkedD:
  assumes "linked c"
  shows linked_wf: "wf_map (sc_entries c)" "wf_map (sc_groups c)" "distinct (sc_evictionOrder c)"
    and linked_order: "set (sc_evictionOrder c) = fst ` set (sc_groups c)"
    and linked_group: "(k, g) \<in> set (sc_groups c) \<Longrightarrow>
          sn_aliases g \<noteq> [] \<and> hd (sn_aliases g) = k \<and> distinct (sn_aliases g)"
    and linked_alias: "(k, g) \<in> set (sc_groups c) \<Longrightarrow> a \<in> set (sn_aliases g) \<Longrightarrow> (a, g) \<in> set (sc_entries c)"
    and linked_entry: "(a, e) \<in> set (sc_entries c) \<Longrightarrow>
          a \<in> set (sn_aliases e) \<and> (hd (sn_aliases e), e) \<in> set (sc_groups c)"
  using assms unfolding linked_def by fast+

lemma map_of_filter_snd:
  "wf_map m \<Longrightarrow> map_of (filter (\<lambda>p. P (snd p)) m) k =
     (case map_of m k of None \<Rightarrow> None | Some v \<Rightarrow> if P v then Some v else None)"
  by (induction m) (auto split: option.splits simp: map_of_eq_None_iff)

lemma wf_map_filter [intro]: "wf_map m \<Longrightarrow> wf_map (filter P m)"
  by (rule distinct_map_filter)

lemma linked_keep:
  assumes "linked c"
  shows "linked (keep P c)"
proof -
  note wf = linked_wf[OF assms]
  have order: "set (sc_evictionOrder (keep P c)) = fst ` set (sc_groups (keep P c))"
  proof (rule set_eqI)
    fix k
    have "k \<in> fst ` set (sc_groups (keep P c)) \<longleftrightarrow>
        (case map_of (sc_groups c) k of None \<Rightarrow> False | Some g \<Rightarrow> P g)"
      unfolding has_key_iff[symmetric] has_key_def keep_def
      by (simp add: map_of_filter_snd wf split: option.split)
    moreover have "map_of (sc_groups c) k \<noteq> None \<Longrightarrow> k \<in> set (sc_evictionOrder c)"
      using linked_order[OF assms] by (simp add: map_of_eq_None_iff)
    ultimately show "k \<in> set (sc_evictionOrder (keep P c)) \<longleftrightarrow> k \<in> fst ` set (sc_groups (keep P c))"
      by (cases "map_of (sc_groups c) k") (simp_all add: keep_def)
  qed
  have "wf_map (sc_entries (keep P c))" "wf_map (sc_groups (keep P c))" "distinct (sc_evictionOrder (keep P c))"
    using wf by (simp_all add: keep_def distinct_map_filter)
  moreover have "\<forall>(k, g) \<in> set (sc_groups (keep P c)). sn_aliases g \<noteq> [] \<and> hd (sn_aliases g) = k \<and>
      distinct (sn_aliases g) \<and> (\<forall>a \<in> set (sn_aliases g). (a, g) \<in> set (sc_entries (keep P c)))"
    using linked_group[OF assms] linked_alias[OF assms] by (auto simp: keep_def)
  moreover have "\<forall>(a, e) \<in> set (sc_entries (keep P c)).
      a \<in> set (sn_aliases e) \<and> (hd (sn_aliases e), e) \<in> set (sc_groups (keep P c))"
    using linked_entry[OF assms] by (auto simp: keep_def)
  ultimately show ?thesis
    using order unfolding linked_def by blast
qed

lemma keep_keep:
  assumes "linked c"
  shows "keep P (keep Q c) = keep (\<lambda>g. Q g \<and> P g) c"
proof -
  have order: "((case map_of (sc_groups c) k of None \<Rightarrow> False | Some g \<Rightarrow> Q g) \<and>
      (case map_of (filter (\<lambda>p. Q (snd p)) (sc_groups c)) k of None \<Rightarrow> False | Some g \<Rightarrow> P g))
     \<longleftrightarrow> (case map_of (sc_groups c) k of None \<Rightarrow> False | Some g \<Rightarrow> Q g \<and> P g)" for k
    unfolding map_of_filter_snd[OF linked_wf(2)[OF assms]] by (cases "map_of (sc_groups c) k") auto
  show ?thesis
    by (simp add: keep_def order)
qed

lemma store_eq:
  assumes "linked c"
  shows "store c = map (\<lambda>k. the (map_of (sc_groups c) k)) (sc_evictionOrder c)"
proof -
  have "map_of (sc_groups c) k \<noteq> None" if "k \<in> set (sc_evictionOrder c)" for k
    using that linked_order[OF assms] by (simp add: map_of_eq_None_iff)
  then have "filter (\<lambda>k. map_of (sc_groups c) k \<noteq> None) (sc_evictionOrder c) = sc_evictionOrder c"
    by (simp add: filter_id_conv)
  then show ?thesis
    unfolding store_def List.map_filter_def by simp
qed

lemma set_store:
  assumes "linked c"
  shows "g \<in> set (store c) \<longleftrightarrow> (hd (sn_aliases g), g) \<in> set (sc_groups c)"
proof
  assume "g \<in> set (store c)"
  then obtain k where "k \<in> set (sc_evictionOrder c)" "g = the (map_of (sc_groups c) k)"
    using store_eq[OF assms] by auto
  moreover then obtain g' where "(k, g') \<in> set (sc_groups c)"
    using linked_order[OF assms] by auto
  ultimately show "(hd (sn_aliases g), g) \<in> set (sc_groups c)"
    using linked_wf[OF assms] linked_group[OF assms] by (auto simp: map_of_SomeI)
next
  assume g: "(hd (sn_aliases g), g) \<in> set (sc_groups c)"
  then have "hd (sn_aliases g) \<in> set (sc_evictionOrder c)"
    using linked_order[OF assms] by force
  moreover have "map_of (sc_groups c) (hd (sn_aliases g)) = Some g"
    using linked_wf[OF assms] g by (simp add: map_of_SomeI)
  ultimately show "g \<in> set (store c)"
    using store_eq[OF assms] by force
qed

lemma store_keep:
  assumes "linked c"
  shows "store (keep P c) = filter P (store c)"
proof -
  have "map_of (sc_groups (keep P c)) k = map_of (sc_groups c) k"
    if "case map_of (sc_groups c) k of None \<Rightarrow> False | Some g \<Rightarrow> P g" for k
    using that unfolding keep_def
    by (cases "map_of (sc_groups c) k") (simp_all add: map_of_filter_snd linked_wf(2)[OF assms])
  moreover have "(case map_of (sc_groups c) k of None \<Rightarrow> False | Some g \<Rightarrow> P g) = P (the (map_of (sc_groups c) k))"
    if "k \<in> set (sc_evictionOrder c)" for k
    using that linked_order[OF assms] by (auto split: option.splits simp: map_of_eq_None_iff)
  ultimately show ?thesis
    unfolding store_eq[OF assms] store_eq[OF linked_keep[OF assms]]
    by (auto simp: keep_def filter_map o_def intro!: map_cong filter_cong)
qed

section \<open>Lookups\<close>

lemma lookup_store:
  assumes "linked c"
  shows "map_of (sc_entries c) a = find (\<lambda>g. a \<in> set (sn_aliases g)) (store c)"
proof (cases "find (\<lambda>g. a \<in> set (sn_aliases g)) (store c)")
  case None
  then have "\<forall>g \<in> set (store c). a \<notin> set (sn_aliases g)"
    by (simp add: find_None_iff)
  then have "map_of (sc_entries c) a = None"
    using linked_entry[OF assms] set_store[OF assms] by (metis map_of_SomeD not_None_eq)
  with None show ?thesis by simp
next
  case (Some g)
  then have "g \<in> set (store c)" "a \<in> set (sn_aliases g)"
    by (auto simp: find_Some_iff)
  then have "(a, g) \<in> set (sc_entries c)"
    using set_store[OF assms] linked_alias[OF assms] by blast
  with Some show ?thesis
    using linked_wf[OF assms] by (simp add: map_of_SomeI)
qed

lemma lookupD:
  assumes "linked c" "map_of (sc_entries c) a = Some g"
  shows "g \<in> set (store c)" "a \<in> set (sn_aliases g)"
  using assms linked_entry[OF assms(1)] set_store[OF assms(1)] by (metis map_of_SomeD)+

lemma lookupI:
  assumes "linked c" "g \<in> set (store c)" "a \<in> set (sn_aliases g)"
  shows "map_of (sc_entries c) a = Some g"
  using assms set_store[OF assms(1)] linked_alias[OF assms(1)] linked_wf[OF assms(1)]
  by (simp add: map_of_SomeI)

lemma lookup_keep:
  "linked c \<Longrightarrow> map_of (sc_entries (keep P c)) a =
     (case map_of (sc_entries c) a of None \<Rightarrow> None | Some g \<Rightarrow> if P g then Some g else None)"
  using linked_wf(1) by (simp add: keep_def map_of_filter_snd)

lemma keep_cong:
  assumes "linked c" and eq: "\<And>g. g \<in> set (store c) \<Longrightarrow> P g = Q g"
  shows "keep P c = keep Q c"
proof -
  have "P e = Q e" if "(a, e) \<in> set (sc_entries c)" for a e
    using that linked_entry[OF assms(1)] eq set_store[OF assms(1)] by blast
  moreover have groups: "P g = Q g" if "(k, g) \<in> set (sc_groups c)" for k g
    using that linked_group[OF assms(1)] eq set_store[OF assms(1)] by blast
  moreover have "(case map_of (sc_groups c) k of None \<Rightarrow> False | Some g \<Rightarrow> P g) =
      (case map_of (sc_groups c) k of None \<Rightarrow> False | Some g \<Rightarrow> Q g)" for k
    using groups by (auto split: option.splits dest: map_of_SomeD)
  ultimately show ?thesis
    unfolding keep_def by (auto intro!: filter_cong arg_cong2[where f = "\<lambda>x y. c\<lparr>sc_entries := x, sc_groups := y, sc_evictionOrder := _\<rparr>"])
qed

lemma keep_all: 
  assumes "linked c" and all: "\<And>g. g \<in> set (store c) \<Longrightarrow> P g"
  shows "keep P c = c"
proof -
  have "keep P c = keep (\<lambda>g. True) c"
    using assms by (intro keep_cong) auto
  also have "\<dots> = c"
    using linked_order[OF assms(1)] 
    by (auto simp: keep_def filter_id_conv map_of_eq_None_iff split: option.splits intro!: SessionCache.equality)
  finally show ?thesis .
qed

section \<open>Removing groups\<close>

lemma sameSessionEntryGroup_eq [simp]: "sameSessionEntryGroup l r \<longleftrightarrow> l = r"
  by (cases l; cases r) (auto simp: sameSessionEntryGroup_def equalSessionAliases_def list.rel_eq)

lemma delete_filter: "AList.delete k m = filter (\<lambda>p. fst p \<noteq> k) m"
  by (auto simp: AList.delete_eq intro: filter_cong)

lemma remove_bindings:
  "wf_map es \<Longrightarrow>
   foldl (\<lambda>es alias. case map_of es alias of None \<Rightarrow> es
            | Some current \<Rightarrow> if current = e then AList.delete alias es else es) es as =
   filter (\<lambda>p. \<not> (fst p \<in> set as \<and> snd p = e)) es"
proof (induction as arbitrary: es)
  case (Cons a as)
  let ?es = "case map_of es a of None \<Rightarrow> es | Some current \<Rightarrow> if current = e then AList.delete a es else es"
  have step: "?es = filter (\<lambda>p. \<not> (fst p = a \<and> snd p = e)) es"
  proof (cases "map_of es a = Some e")
    case True
    then have "snd p = e" if "p \<in> set es" "fst p = a" for p
      using that map_of_SomeI[OF Cons.prems, of a "snd p"] by (cases p) auto
    then show ?thesis
      using True by (auto simp: delete_filter intro!: filter_cong)
  next
    case False
    then have "\<not> (fst p = a \<and> snd p = e)" if "p \<in> set es" for p
      using that map_of_SomeI[OF Cons.prems, of a e] by (cases p) auto
    moreover have "?es = es"
      using False by (auto split: option.split)
    ultimately show ?thesis
      by (simp add: filter_id_conv)
  qed
  have "foldl (\<lambda>es alias. case map_of es alias of None \<Rightarrow> es
            | Some current \<Rightarrow> if current = e then AList.delete alias es else es) es (a # as) =
        filter (\<lambda>p. \<not> (fst p \<in> set as \<and> snd p = e)) ?es"
    unfolding foldl_Cons using Cons.prems step by (intro Cons.IH) (simp add: distinct_map_filter)
  then show ?case
    unfolding step by (auto intro: filter_cong)
qed simp

lemma remove_alt:
  assumes "wf_map (sc_entries c)" "sn_aliases e \<noteq> []"
  shows "removeAliasGroupLocked e c =
    (if map_of (sc_groups c) (hd (sn_aliases e)) = Some e
     then c\<lparr>sc_groups := AList.delete (hd (sn_aliases e)) (sc_groups c),
            sc_evictionOrder := remove1 (hd (sn_aliases e)) (sc_evictionOrder c)\<rparr> else c)
    \<lparr>sc_entries := filter (\<lambda>p. \<not> (fst p \<in> set (sn_aliases e) \<and> snd p = e)) (sc_entries c)\<rparr>"
proof -
  obtain a as where as: "sn_aliases e = a # as"
    using assms(2) by (cases "sn_aliases e") auto
  show ?thesis
    unfolding removeAliasGroupLocked_def Let_def sameSessionEntryGroup_eq
    using as remove_bindings[OF assms(1), of e "a # as"]
    by (simp del: foldl_Cons split: option.split)
qed

lemma remove_keep:
  assumes "linked c"
  shows "removeAliasGroupLocked e c = keep (\<lambda>g. g \<noteq> e) c"
proof (cases "e \<in> set (store c)")
  case False
  then have "(hd (sn_aliases e), e) \<notin> set (sc_groups c)"
    using set_store[OF assms] by simp
  then have group: "map_of (sc_groups c) (hd (sn_aliases e)) \<noteq> Some e"
    by (auto dest: map_of_SomeD)
  have "snd p \<noteq> e" if "p \<in> set (sc_entries c)" for p
    using that linked_entry[OF assms, of "fst p" "snd p"] \<open>_ \<notin> set (sc_groups c)\<close> by auto
  then have "filter (\<lambda>p. \<not> (fst p \<in> set (sn_aliases e) \<and> snd p = e)) (sc_entries c) = sc_entries c"
    by (simp add: filter_id_conv)
  then have "removeAliasGroupLocked e c = c"
    using remove_alt[OF linked_wf(1)[OF assms], of e] group
    by (cases "sn_aliases e = []") (simp_all add: removeAliasGroupLocked_def)
  moreover have "keep (\<lambda>g. g \<noteq> e) c = c"
    using False by (intro keep_all[OF assms]) auto
  ultimately show ?thesis by simp
next
  case True
  let ?pk = "hd (sn_aliases e)"
  have mem: "(?pk, e) \<in> set (sc_groups c)"
    using True set_store[OF assms] by simp
  have pk: "map_of (sc_groups c) ?pk = Some e"
    using mem linked_wf[OF assms] by (simp add: map_of_SomeI)
  have groups: "AList.delete ?pk (sc_groups c) = filter (\<lambda>p. snd p \<noteq> e) (sc_groups c)"
  proof -
    have "fst p \<noteq> ?pk \<longleftrightarrow> snd p \<noteq> e" if p: "p \<in> set (sc_groups c)" for p
    proof -
      have "map_of (sc_groups c) (fst p) = Some (snd p)"
        using p linked_wf(2)[OF assms] by (simp add: map_of_SomeI)
      moreover have "fst p = hd (sn_aliases (snd p))"
        using p linked_group[OF assms, of "fst p" "snd p"] by simp
      ultimately show ?thesis
        using pk by (metis option.inject)
    qed
    then show ?thesis
      unfolding delete_filter by (intro filter_cong) auto
  qed
  have order: "remove1 ?pk (sc_evictionOrder c) =
      filter (\<lambda>k. case map_of (sc_groups c) k of None \<Rightarrow> False | Some g \<Rightarrow> g \<noteq> e) (sc_evictionOrder c)"
  proof -
    have "k \<noteq> ?pk \<longleftrightarrow> (case map_of (sc_groups c) k of None \<Rightarrow> False | Some g \<Rightarrow> g \<noteq> e)"
      if "k \<in> set (sc_evictionOrder c)" for k
    proof (cases "map_of (sc_groups c) k")
      case None
      then show ?thesis using that linked_order[OF assms] by (simp add: map_of_eq_None_iff)
    next
      case (Some g)
      then show ?thesis using pk linked_group[OF assms, of k g] by (auto dest: map_of_SomeD)
    qed
    then show ?thesis
      unfolding distinct_remove1_removeAll[OF linked_wf(3)[OF assms]] removeAll_filter_not_eq
      by (intro filter_cong) auto
  qed
  have entries: "filter (\<lambda>p. \<not> (fst p \<in> set (sn_aliases e) \<and> snd p = e)) (sc_entries c) =
      filter (\<lambda>p. snd p \<noteq> e) (sc_entries c)"
    using linked_entry[OF assms] by (intro filter_cong) auto
  show ?thesis
    using remove_alt[OF linked_wf(1)[OF assms], of e] pk groups order entries linked_group[OF assms mem]
    by (simp add: keep_def)
qed

lemma removeGroupsWhere_keep:
  assumes "linked c"
  shows "removeGroupsWhere P c = keep (\<lambda>g. \<not> P g) c"
proof -
  have "foldl (\<lambda>c grp. if P grp then removeAliasGroupLocked grp c else c) c gs = keep (\<lambda>g. \<not> (g \<in> set gs \<and> P g)) c"
    if "linked c" for gs c
    using that
  proof (induction gs arbitrary: c)
    case Nil
    then show ?case by (simp add: keep_all)
  next
    case (Cons g gs)
    have "(if P g then removeAliasGroupLocked g c else c) = keep (\<lambda>h. \<not> (h = g \<and> P g)) c"
      using Cons.prems by (auto simp: remove_keep keep_all)
    then show ?case
      using Cons.IH[OF linked_keep[OF Cons.prems]] Cons.prems
      by (auto simp: keep_keep intro!: keep_cong)
  qed
  note this[OF assms, of "map snd (sc_groups c)"]
  also have "keep (\<lambda>g. \<not> (g \<in> set (map snd (sc_groups c)) \<and> P g)) c = keep (\<lambda>g. \<not> P g) c"
    using set_store[OF assms] by (intro keep_cong[OF assms]) force
  finally show ?thesis
    unfolding removeGroupsWhere_def .
qed

section \<open>Binding a group\<close>

lemma update_all_fresh:
  "distinct as \<Longrightarrow> set as \<inter> fst ` set m = {} \<Longrightarrow>
   foldl (\<lambda>es alias. AList.update alias e es) m as = m @ map (\<lambda>a. (a, e)) as"
proof (induction as arbitrary: m)
  case (Cons a as)
  have "set as \<inter> fst ` set (m @ [(a, e)]) = {}"
    using Cons.prems by auto
  then show ?case
    using Cons.IH[of "m @ [(a, e)]"] Cons.prems by (simp add: update_fresh)
qed simp

lemma bind_fresh:
  assumes "linked c" and e: "sn_aliases e \<noteq> []" "distinct (sn_aliases e)"
    and fresh: "\<And>a. a \<in> set (sn_aliases e) \<Longrightarrow> map_of (sc_entries c) a = None"
  shows "linked (bindGroup e c)" "store (bindGroup e c) = store c @ [e]"
proof -
  let ?pk = "hd (sn_aliases e)"
  have entries: "sc_entries (bindGroup e c) = sc_entries c @ map (\<lambda>a. (a, e)) (sn_aliases e)"
    using fresh unfolding bindGroup_def Let_def
    by (simp add: update_all_fresh[OF e(2)] map_of_eq_None_iff disjoint_iff)
  have new: "?pk \<notin> fst ` set (sc_groups c)"
  proof
    assume "?pk \<in> fst ` set (sc_groups c)"
    then obtain g where g: "(?pk, g) \<in> set (sc_groups c)" by auto
    then have "?pk \<in> set (sn_aliases g)"
      using linked_group[OF assms(1) g] hd_in_set by metis
    then have "(?pk, g) \<in> set (sc_entries c)"
      using linked_alias[OF assms(1) g] by simp
    then show False
      using fresh[of ?pk] e by (force simp: map_of_eq_None_iff)
  qed
  have groups: "sc_groups (bindGroup e c) = sc_groups c @ [(?pk, e)]"
    unfolding bindGroup_def Let_def using new by (simp add: update_fresh)
  have order: "sc_evictionOrder (bindGroup e c) = sc_evictionOrder c @ [?pk]"
    by (simp add: bindGroup_def Let_def)
  have "set (sn_aliases e) \<inter> fst ` set (sc_entries c) = {}"
    using fresh by (auto simp: map_of_eq_None_iff)
  then have wf: "wf_map (sc_entries (bindGroup e c))" "wf_map (sc_groups (bindGroup e c))"
    "distinct (sc_evictionOrder (bindGroup e c))"
    "set (sc_evictionOrder (bindGroup e c)) = fst ` set (sc_groups (bindGroup e c))"
    using linked_wf[OF assms(1)] linked_order[OF assms(1)] new e
    by (auto simp: entries groups order o_def)
  moreover have "\<forall>(k, g) \<in> set (sc_groups (bindGroup e c)). sn_aliases g \<noteq> [] \<and> hd (sn_aliases g) = k \<and>
      distinct (sn_aliases g) \<and> (\<forall>a \<in> set (sn_aliases g). (a, g) \<in> set (sc_entries (bindGroup e c)))"
    using linked_group[OF assms(1)] linked_alias[OF assms(1)] e by (auto simp: entries groups)
  moreover have "\<forall>(a, x) \<in> set (sc_entries (bindGroup e c)).
      a \<in> set (sn_aliases x) \<and> (hd (sn_aliases x), x) \<in> set (sc_groups (bindGroup e c))"
    using linked_entry[OF assms(1)] by (auto simp: entries groups)
  ultimately show linked: "linked (bindGroup e c)"
    unfolding linked_def by blast
  have "map_of (sc_groups c @ [(?pk, e)]) k = map_of (sc_groups c) k" if "k \<in> set (sc_evictionOrder c)" for k
  proof -
    have "k \<noteq> ?pk" using that new unfolding linked_order[OF assms(1)] by blast
    then show ?thesis by (simp add: map_add_def split: option.split)
  qed
  moreover have "map_of (sc_groups c @ [(?pk, e)]) ?pk = Some e"
    using new by (simp add: map_add_def map_of_eq_None_iff[symmetric] split: option.split)
  ultimately show "store (bindGroup e c) = store c @ [e]"
    unfolding store_eq[OF linked] store_eq[OF assms(1)] by (simp add: order groups)
qed

section \<open>Capacity\<close>

definition total :: "sessionEntry list \<Rightarrow> nat" where
  "total gs = sum_list (map (\<lambda>g. length (sn_aliases g)) gs)"

fun fit :: "int \<Rightarrow> sessionEntry list \<Rightarrow> sessionEntry list" where
  "fit m [] = []"
| "fit m (g # gs) = (if int (total (g # gs)) \<le> m then g # gs else fit m gs)"

lemma total_simps [simp]: "total [] = 0" "total (g # gs) = length (sn_aliases g) + total gs"
  "total (gs @ hs) = total gs + total hs"
  by (simp_all add: total_def)

lemma total_filter: "total (filter P gs) \<le> total gs"
  by (induction gs) auto

lemma fit_id: "int (total gs) \<le> m \<Longrightarrow> fit m gs = gs"
  by (cases gs) auto

lemma fit_bound: "0 \<le> m \<Longrightarrow> int (total (fit m gs)) \<le> m"
  by (induction gs) auto

lemma fit_last: "int (length (sn_aliases g)) \<le> m \<Longrightarrow> \<exists>hs. fit m (gs @ [g]) = hs @ [g]"
  by (induction gs) auto

lemma fit_suffix: "\<exists>hs. gs = hs @ fit m gs"
  by (induction gs) (auto, metis append_Cons)

lemma set_fit: "set (fit m gs) \<subseteq> set gs"
  using fit_suffix[of gs m] by (metis set_append sup_ge2)

lemma store_keys:
  assumes "linked c"
  shows "map (\<lambda>g. hd (sn_aliases g)) (store c) = sc_evictionOrder c"
proof -
  have "hd (sn_aliases (the (map_of (sc_groups c) k))) = k" if k: "k \<in> set (sc_evictionOrder c)" for k
  proof -
    obtain g where "(k, g) \<in> set (sc_groups c)"
      using k linked_order[OF assms] by auto
    then show ?thesis
      using linked_group[OF assms, of k g] linked_wf[OF assms] by (simp add: map_of_SomeI)
  qed
  then show ?thesis
    unfolding store_eq[OF assms] by (simp add: o_def map_idI)
qed

lemma store_group:
  "linked c \<Longrightarrow> g \<in> set (store c) \<Longrightarrow> sn_aliases g \<noteq> [] \<and> distinct (sn_aliases g)"
  using linked_group set_store by blast

lemma store_distinct:
  assumes "linked c"
  shows "distinct (store c)" "distinct (map sn_aliases (store c))"
proof -
  have "distinct (map hd (map sn_aliases (store c)))"
    using store_keys[OF assms] linked_wf[OF assms] by (simp add: o_def)
  then show "distinct (map sn_aliases (store c))" by (rule distinct_map[THEN iffD1, THEN conjunct1])
  then show "distinct (store c)" by (rule distinct_map[THEN iffD1, THEN conjunct1])
qed

lemma length_entries:
  assumes "linked c"
  shows "length (sc_entries c) = total (store c)"
proof -
  let ?as = "concat (map sn_aliases (store c))"
  have "set xs \<inter> set ys = {}"
    if ne: "xs \<in> set (map sn_aliases (store c))" "ys \<in> set (map sn_aliases (store c))" "xs \<noteq> ys" for xs ys
  proof -
    obtain g h where gh: "g \<in> set (store c)" "h \<in> set (store c)" "xs = sn_aliases g" "ys = sn_aliases h"
      using ne by auto
    then have "g \<noteq> h" using ne by blast
    then have "\<not> (a \<in> set xs \<and> a \<in> set ys)" for a
      using gh lookupI[OF assms, of g a] lookupI[OF assms, of h a] by auto
    then show ?thesis by blast
  qed
  then have "distinct ?as"
    using store_distinct[OF assms] store_group[OF assms] by (intro distinct_concat) auto
  then have "length ?as = card (set ?as)"
    by (rule distinct_card[symmetric])
  also have "set ?as = fst ` set (sc_entries c)"
  proof
    show "set ?as \<subseteq> fst ` set (sc_entries c)"
      using lookupI[OF assms] by (force dest: map_of_SomeD)
    show "fst ` set (sc_entries c) \<subseteq> set ?as"
      using linked_entry[OF assms] set_store[OF assms] by force
  qed
  also have "card (fst ` set (sc_entries c)) = length (sc_entries c)"
    using distinct_card[OF linked_wf(1)[OF assms]] by simp
  finally show ?thesis
    by (simp add: length_concat total_def o_def)
qed

lemma evictLoop_fit:
  assumes "linked c" "length (sc_evictionOrder c) \<le> fuel"
  shows "linked (evictLoop fuel c) \<and> store (evictLoop fuel c) = fit (sc_maxEntries c) (store c) \<and>
    sc_maxEntries (evictLoop fuel c) = sc_maxEntries c \<and> sc_ttl (evictLoop fuel c) = sc_ttl c"
  using assms
proof (induction fuel arbitrary: c)
  case 0
  then show ?case by (simp add: store_def)
next
  case (Suc fuel)
  show ?case
  proof (cases "int (length (sc_entries c)) \<le> sc_maxEntries c")
    case True
    then show ?thesis using Suc.prems by (simp add: fit_id length_entries)
  next
    case False
    show ?thesis
    proof (cases "sc_evictionOrder c")
      case Nil
      then show ?thesis using False Suc.prems by (simp add: store_def)
    next
      case (Cons k ks)
      obtain g gs where store: "store c = g # gs" and g: "map_of (sc_groups c) k = Some g"
        using Cons store_eq[OF Suc.prems(1)] linked_order[OF Suc.prems(1)]
        by (cases "map_of (sc_groups c) k") (auto simp: map_of_eq_None_iff)
      have "g \<notin> set gs"
        using store_distinct(1)[OF Suc.prems(1)] store by simp
      then have rest: "store (keep (\<lambda>h. h \<noteq> g) c) = gs"
        using store by (simp add: store_keep[OF Suc.prems(1)] filter_id_conv) metis
      have "length (sc_evictionOrder (keep (\<lambda>h. h \<noteq> g) c)) = length gs"
        using store_keys[OF linked_keep[OF Suc.prems(1)]] rest by (metis length_map)
      moreover have "length gs < length (sc_evictionOrder c)"
        using store store_keys[OF Suc.prems(1)] by (metis length_map impossible_Cons linorder_not_le)
      moreover have "\<not> int (total (g # gs)) \<le> sc_maxEntries c"
        using False store length_entries[OF Suc.prems(1)] by simp
      ultimately show ?thesis
        using Suc.IH[OF linked_keep[OF Suc.prems(1)], of "\<lambda>h. h \<noteq> g"] Suc.prems False Cons g rest store
        by (simp add: remove_keep)
    qed
  qed
qed

end
