(* ===== verification/SessionSpec.thy ===== *)
theory SessionSpec
  imports SessionStore
begin

text \<open>
  What the operations of the session cache do to the list of groups, the invariant of the reachable
  caches, and the properties of the cache. The reachable caches are those a sequence of operations
  makes of a new one, each at its own reading of the clock.
\<close>

section \<open>Alias lists\<close>

lemma add_aliases_set: "set (add_aliases al xs) = set al \<union> (set xs - {[]})"
  by (induction al xs rule: add_aliases.induct) auto

lemma add_aliases_distinct: "distinct al \<Longrightarrow> distinct (add_aliases al xs)"
  by (induction al xs rule: add_aliases.induct) auto

lemma add_aliases_extends: "\<exists>ys. add_aliases al xs = al @ ys"
proof (induction al xs rule: add_aliases.induct)
  case (2 al x xs)
  then show ?case
    by (cases "x = [] \<or> x \<in> set al") auto
qed simp

lemma merge_set: "set (mergeSessionAliases as bs) = (set as \<union> set bs) - {[]}"
  by (auto simp: mergeSessionAliases_def add_aliases_set)

lemma merge_distinct: "distinct (mergeSessionAliases as bs)"
  by (simp add: mergeSessionAliases_def add_aliases_distinct)

lemma compactLoop_set: "set (compactLoop p h n xs) \<subseteq> set xs"
  by (induction xs arbitrary: h n) (auto simp: subset_insertI2)

lemma compactLoop_distinct: "distinct xs \<Longrightarrow> distinct (compactLoop p h n xs)"
  by (induction p h n xs rule: compactLoop.induct) (auto dest: subsetD[OF compactLoop_set])

lemma compactLoop_limits:
  "length (filter p (compactLoop p h n xs)) \<le> (if h then 0 else 1) \<and>
   length (filter (\<lambda>a. \<not> p a) (compactLoop p h n xs)) \<le> maxStableSessionAliases - n"
  by (induction p h n xs rule: compactLoop.induct) (auto split: if_splits)

lemma compactLoop_id:
  "length (filter p xs) \<le> (if h then 0 else 1) \<Longrightarrow>
   length (filter (\<lambda>a. \<not> p a) xs) \<le> maxStableSessionAliases - n \<Longrightarrow> compactLoop p h n xs = xs"
  by (induction p h n xs rule: compactLoop.induct) (auto split: if_splits)

lemma compact_first: "compactSessionAliases (a # xs) = a # compactLoop isLocalPromptCacheSessionAlias
    (isLocalPromptCacheSessionAlias a) (if isLocalPromptCacheSessionAlias a then 0 else 1) xs"
  by (simp add: compactSessionAliases_def compactSessionAliasesWith_def maxStableSessionAliases_def)

lemma compact_Nil [simp]: "compactSessionAliases [] = []"
  by (simp add: compactSessionAliases_def compactSessionAliasesWith_def)

lemma compact_nonempty [simp]: "compactSessionAliases xs = [] \<longleftrightarrow> xs = []"
  by (cases xs) (simp_all add: compact_first)

lemma compact_set: "set (compactSessionAliases xs) \<subseteq> set xs"
  unfolding compactSessionAliases_def compactSessionAliasesWith_def by (rule compactLoop_set)

lemma compact_distinct: "distinct xs \<Longrightarrow> distinct (compactSessionAliases xs)"
  unfolding compactSessionAliases_def compactSessionAliasesWith_def by (rule compactLoop_distinct)

definition within_limits :: "string list \<Rightarrow> bool" where
  "within_limits as \<longleftrightarrow> length (filter isLocalPromptCacheSessionAlias as) \<le> 1 \<and>
     length (filter (\<lambda>a. \<not> isLocalPromptCacheSessionAlias a) as) \<le> maxStableSessionAliases"

lemma compact_limits: "within_limits (compactSessionAliases xs)"
  using compactLoop_limits[of isLocalPromptCacheSessionAlias False 0 xs]
  by (simp add: within_limits_def compactSessionAliases_def compactSessionAliasesWith_def)

lemma compact_id: "within_limits xs \<Longrightarrow> compactSessionAliases xs = xs"
  by (simp add: within_limits_def compactSessionAliases_def compactSessionAliasesWith_def compactLoop_id)

lemma filter_twice_le: "length (filter Q (filter P xs)) \<le> length (filter Q xs)"
  by (induction xs) auto

lemma within_limits_filter: "within_limits xs \<Longrightarrow> within_limits (filter P xs)"
  unfolding within_limits_def using filter_twice_le order_trans by blast

lemma within_limits_length: "within_limits xs \<Longrightarrow> length xs \<le> 65"
  using sum_length_filter_compl[of isLocalPromptCacheSessionAlias xs]
  by (simp add: within_limits_def maxStableSessionAliases_def)

section \<open>Operations on the list of groups\<close>

lemma replace_store:
  fixes auth :: string and t :: go_time
  assumes "linked c" and "distinct aliases" and max: "0 < sc_maxEntries c"
    and free: "\<And>a g. a \<in> set aliases \<Longrightarrow> map_of (sc_entries c) a = Some g \<Longrightarrow> g \<in> set olds"
  defines "c' \<equiv> replaceAliasGroupsLocked auth t aliases olds c"
  shows "linked c'" "sc_maxEntries c' = sc_maxEntries c" "sc_ttl c' = sc_ttl c"
    and "store c' = (let rest = filter (\<lambda>g. g \<notin> set olds) (store c)
           in if aliases = [] then rest
              else fit (sc_maxEntries c) (rest @ [\<lparr>sn_authID = auth, sn_expiresAt = t, sn_aliases = aliases\<rparr>]))"
proof -
  let ?e = "\<lparr>sn_authID = auth, sn_expiresAt = t, sn_aliases = aliases\<rparr>"
  let ?c1 = "keep (\<lambda>g. g \<notin> set olds) c"
  have "foldl (\<lambda>c previous. removeAliasGroupLocked previous c) c olds = keep (\<lambda>g. g \<notin> set olds) c" if "linked c" for c
    using that
  proof (induction olds arbitrary: c)
    case Nil
    then show ?case by (simp add: keep_all)
  next
    case (Cons g gs)
    then show ?case
      using Cons.IH[OF linked_keep[OF Cons.prems]] by (auto simp: remove_keep keep_keep intro!: keep_cong)
  qed
  then have c1: "foldl (\<lambda>c previous. removeAliasGroupLocked previous c) c olds = ?c1"
    using assms(1) .
  note linked1 = linked_keep[OF assms(1), of "\<lambda>g. g \<notin> set olds"]
  have fresh: "map_of (sc_entries ?c1) a = None" if "a \<in> set aliases" for a
    using free[OF that] by (auto simp: lookup_keep[OF assms(1)] split: option.split)
  have pk: "map_of (sc_groups ?c1) (hd aliases) = None" if "aliases \<noteq> []"
  proof (rule ccontr)
    assume "map_of (sc_groups ?c1) (hd aliases) \<noteq> None"
    then obtain g where g: "(hd aliases, g) \<in> set (sc_groups ?c1)"
      by (auto dest: map_of_SomeD)
    then have "hd aliases \<in> set (sn_aliases g)"
      using linked_group[OF linked1 g] by (metis hd_in_set)
    then show False
      using fresh[of "hd aliases"] linked_alias[OF linked1 g] that by (force simp: map_of_eq_None_iff)
  qed
  let ?c3 = "bindGroup ?e ?c1"
  have bound: "linked ?c3" "store ?c3 = store ?c1 @ [?e]" if "aliases \<noteq> []"
    using bind_fresh[OF linked1, of ?e] that assms(2) fresh by simp_all
  have c3: "sc_maxEntries ?c3 = sc_maxEntries c" "sc_ttl ?c3 = sc_ttl c"
    by (simp_all add: bindGroup_def Let_def)
  have c': "c' = (if aliases = [] then ?c1 else if int (length (sc_entries ?c3)) > sc_maxEntries c
      then evictExcessLocked ?c3 else ?c3)"
    unfolding c'_def replaceAliasGroupsLocked_def c1 Let_def using pk max c3 by simp
  have "linked c' \<and> sc_maxEntries c' = sc_maxEntries c \<and> sc_ttl c' = sc_ttl c \<and>
     store c' = (if aliases = [] then store ?c1 else fit (sc_maxEntries c) (store ?c1 @ [?e]))"
    unfolding c' using linked1 bound c3 evictLoop_fit[OF bound(1) order_refl]
    by (auto simp: evictExcessLocked_def fit_id length_entries)
  then show "linked c'" "sc_maxEntries c' = sc_maxEntries c" "sc_ttl c' = sc_ttl c"
    "store c' = (let rest = filter (\<lambda>g. g \<notin> set olds) (store c)
       in if aliases = [] then rest else fit (sc_maxEntries c) (rest @ [?e]))"
    by (simp_all add: store_keep[OF assms(1)] Let_def)
qed

text \<open>The list of groups an operation leaves, as functions of the list it finds.\<close>

definition spec_lookup :: "string \<Rightarrow> sessionEntry list \<Rightarrow> sessionEntry option" where
  "spec_lookup a gs = find (\<lambda>g. a \<in> set (sn_aliases g)) gs"

definition spec_live :: "go_time \<Rightarrow> string \<Rightarrow> sessionEntry list \<Rightarrow> sessionEntry option" where
  "spec_live now a gs =
     (case spec_lookup a gs of None \<Rightarrow> None | Some g \<Rightarrow> if now < sn_expiresAt g then Some g else None)"

definition spec_bind :: "int \<Rightarrow> go_time \<Rightarrow> string \<Rightarrow> string list \<Rightarrow> go_time \<Rightarrow> sessionEntry list \<Rightarrow> sessionEntry list" where
  "spec_bind m now auth ids t gs =
     (let live = List.map_filter (\<lambda>a. spec_live now a gs) ids;
          aliases = compactSessionAliases
                      (foldl (\<lambda>al g. mergeSessionAliases al (sn_aliases g)) (mergeSessionAliases [] ids) live)
      in if aliases = [] then gs
         else fit m (filter (\<lambda>g. set (sn_aliases g) \<inter> set ids = {}) gs @
                      [\<lparr>sn_authID = auth, sn_expiresAt = t, sn_aliases = aliases\<rparr>]))"

definition spec_refresh :: "string \<Rightarrow> go_time \<Rightarrow> sessionEntry \<Rightarrow> sessionEntry list \<Rightarrow> sessionEntry list" where
  "spec_refresh a t g gs =
     filter (\<lambda>h. h \<noteq> g) gs @ [g\<lparr>sn_expiresAt := t, sn_aliases := mergeSessionAliases [a] (sn_aliases g)\<rparr>]"

definition spec_drop :: "string \<Rightarrow> sessionEntry \<Rightarrow> sessionEntry list \<Rightarrow> sessionEntry list" where
  "spec_drop a g gs =
     (let surviving = filter (\<lambda>b. b \<noteq> a) (sn_aliases g)
      in filter (\<lambda>h. h \<noteq> g) gs @ (if surviving = [] then [] else [g\<lparr>sn_aliases := surviving\<rparr>]))"

section \<open>The invariant\<close>

definition group_ok :: "sessionEntry \<Rightarrow> bool" where
  "group_ok g \<longleftrightarrow> sn_authID g \<noteq> [] \<and> [] \<notin> set (sn_aliases g) \<and> within_limits (sn_aliases g)"

definition cache_ok :: "SessionCache \<Rightarrow> bool" where
  "cache_ok c \<longleftrightarrow> linked c \<and> (\<forall>g \<in> set (store c). group_ok g) \<and>
     int (length (sc_entries c)) \<le> sc_maxEntries c \<and> 0 < sc_maxEntries c \<and> 0 < sc_ttl c"

lemma lookup_spec: "linked c \<Longrightarrow> map_of (sc_entries c) a = spec_lookup a (store c)"
  by (simp add: lookup_store spec_lookup_def)

lemma cache_ok_linked: "cache_ok c \<Longrightarrow> linked c"
  by (simp add: cache_ok_def)

lemma cache_ok_lookup:
  assumes "cache_ok c" "spec_lookup a (store c) = Some g"
  shows "g \<in> set (store c)" "a \<in> set (sn_aliases g)" "a \<noteq> []" "group_ok g" "distinct (sn_aliases g)"
    "map_of (sc_entries c) a = Some g" "map_of (sc_entries c) b = Some h \<Longrightarrow> b \<in> set (sn_aliases g) \<Longrightarrow> h = g"
proof -
  note linked = cache_ok_linked[OF assms(1)]
  show g: "g \<in> set (store c)" "a \<in> set (sn_aliases g)"
    using lookupD[OF linked] assms(2) lookup_spec[OF linked] by auto
  show "group_ok g" using g(1) assms(1) by (simp add: cache_ok_def)
  then show "a \<noteq> []" using g(2) by (auto simp: group_ok_def)
  show "distinct (sn_aliases g)" using store_group[OF linked g(1)] by simp
  show "map_of (sc_entries c) a = Some g" using assms(2) lookup_spec[OF linked] by simp
  show "map_of (sc_entries c) b = Some h \<Longrightarrow> b \<in> set (sn_aliases g) \<Longrightarrow> h = g"
    using lookupI[OF linked g(1)] by simp
qed

lemma cache_ok_new [simp]: "cache_ok (NewSessionCacheWithCapacity ttl n)"
  by (simp add: cache_ok_def linked_def store_def List.map_filter_def NewSessionCacheWithCapacity_def go_simps
      defaultMaxSessionEntries_def)

lemma cache_ok_total:
  assumes "cache_ok c"
  shows "int (total (filter P (store c))) \<le> sc_maxEntries c"
proof -
  have "int (total (store c)) \<le> sc_maxEntries c"
    using assms length_entries[OF cache_ok_linked[OF assms]] by (simp add: cache_ok_def)
  then show ?thesis
    using total_filter[of P "store c"] by linarith
qed

lemma cache_ok_keep:
  assumes "cache_ok c"
  shows "cache_ok (keep P c)"
proof -
  note linked = cache_ok_linked[OF assms]
  show ?thesis
    using assms cache_ok_total[OF assms, of P] linked_keep[OF linked, of P] store_keep[OF linked, of P]
    by (simp add: cache_ok_def length_entries)
qed

lemma cache_ok_replace:
  fixes auth :: string and t :: go_time
  assumes "cache_ok c" "distinct aliases" "auth \<noteq> []" "[] \<notin> set aliases" "within_limits aliases"
    and free: "\<And>a g. a \<in> set aliases \<Longrightarrow> map_of (sc_entries c) a = Some g \<Longrightarrow> g \<in> set olds"
  shows "cache_ok (replaceAliasGroupsLocked auth t aliases olds c)"
proof -
  let ?e = "\<lparr>sn_authID = auth, sn_expiresAt = t, sn_aliases = aliases\<rparr>"
  let ?rest = "filter (\<lambda>g. g \<notin> set olds) (store c)"
  have ok: "linked c" "0 < sc_maxEntries c" "\<forall>g \<in> set (store c). group_ok g"
    using assms(1) by (simp_all add: cache_ok_def)
  note new = replace_store[OF ok(1) assms(2) ok(2) free, where auth = auth and t = t]
  have "set (fit (sc_maxEntries c) (?rest @ [?e])) \<subseteq> set (store c) \<union> {?e}"
    using set_fit[of "sc_maxEntries c" "?rest @ [?e]"] by auto
  then have groups: "\<forall>g \<in> set (store (replaceAliasGroupsLocked auth t aliases olds c)). group_ok g"
    using ok(3) assms(3-5) by (auto simp: new(4) Let_def group_ok_def)
  have "int (total ?rest) \<le> sc_maxEntries c"
    by (rule cache_ok_total[OF assms(1)])
  then have "int (total (store (replaceAliasGroupsLocked auth t aliases olds c))) \<le> sc_maxEntries c"
    using fit_bound[of "sc_maxEntries c"] ok(2) by (simp add: new(4) Let_def)
  with groups show ?thesis
    using assms(1) new(1-3) by (simp add: cache_ok_def length_entries)
qed

section \<open>Each operation refines its specification\<close>

lemma set_map_filter: "set (List.map_filter f xs) = {y. \<exists>x \<in> set xs. f x = Some y}"
  by (induction xs) (auto split: option.splits)

lemma spec_live_Some: "spec_live now a gs = Some g \<longleftrightarrow> spec_lookup a gs = Some g \<and> now < sn_expiresAt g"
  by (auto simp: spec_live_def split: option.splits if_splits)

lemma spec_live_keep:
  assumes "linked c" "spec_lookup a (store c) = Some e" "\<not> now < sn_expiresAt e"
  shows "spec_live now b (store (keep (\<lambda>g. g \<noteq> e) c)) = spec_live now b (store c)"
proof -
  have "spec_lookup b (store (keep (\<lambda>g. g \<noteq> e) c)) =
      (case spec_lookup b (store c) of None \<Rightarrow> None | Some g \<Rightarrow> if g \<noteq> e then Some g else None)"
    using lookup_keep[OF assms(1), of _ b] lookup_spec[OF linked_keep[OF assms(1)]] lookup_spec[OF assms(1)] by simp
  then show ?thesis
    using assms(3) by (auto simp: spec_live_def split: option.split)
qed

lemma collect_spec:
  assumes "linked c"
  shows "collectGroups now ids (previous, al, c) =
    (let live = List.map_filter (\<lambda>a. spec_live now a (store c)) ids
     in (previous @ live, foldl (\<lambda>al g. mergeSessionAliases al (sn_aliases g)) al live,
         keep (\<lambda>g. now < sn_expiresAt g \<or> set (sn_aliases g) \<inter> set ids = {}) c))"
  using assms
proof (induction ids arbitrary: previous al c)
  case Nil
  then show ?case by (simp add: keep_all)
next
  case (Cons a ids)
  note linked = Cons.prems
  have lookup: "map_of (sc_entries c) a = spec_lookup a (store c)"
    by (rule lookup_spec[OF linked])
  have other: "g = e" if "g \<in> set (store c)" "a \<in> set (sn_aliases g)" "spec_lookup a (store c) = Some e" for g e
    using lookupI[OF linked that(1,2)] that(3) lookup by simp
  show ?case
  proof (cases "spec_lookup a (store c)")
    case None
    then have "a \<notin> set (sn_aliases g)" if "g \<in> set (store c)" for g
      using lookupI[OF linked that] lookup by fastforce
    then have "keep (\<lambda>g. now < sn_expiresAt g \<or> set (sn_aliases g) \<inter> set ids = {}) c =
        keep (\<lambda>g. now < sn_expiresAt g \<or> set (sn_aliases g) \<inter> set (a # ids) = {}) c"
      by (intro keep_cong[OF linked]) auto
    then show ?thesis
      using None Cons.IH[OF linked] lookup by (simp add: spec_live_def Let_def)
  next
    case (Some e)
    show ?thesis
    proof (cases "now < sn_expiresAt e")
      case True
      have "keep (\<lambda>g. now < sn_expiresAt g \<or> set (sn_aliases g) \<inter> set ids = {}) c =
          keep (\<lambda>g. now < sn_expiresAt g \<or> set (sn_aliases g) \<inter> set (a # ids) = {}) c"
        using other[OF _ _ Some] True by (intro keep_cong[OF linked]) auto
      then show ?thesis
        using Some True Cons.IH[OF linked] lookup by (simp add: spec_live_def Let_def)
    next
      case False
      have "a \<in> set (sn_aliases e)"
        using lookupD[OF linked] Some lookup by simp
      then have "keep (\<lambda>g. now < sn_expiresAt g \<or> set (sn_aliases g) \<inter> set ids = {}) (keep (\<lambda>g. g \<noteq> e) c) =
          keep (\<lambda>g. now < sn_expiresAt g \<or> set (sn_aliases g) \<inter> set (a # ids) = {}) c"
        unfolding keep_keep[OF linked] using other[OF _ _ Some] False by (intro keep_cong[OF linked]) auto
      moreover have "List.map_filter (\<lambda>a. spec_live now a (store (keep (\<lambda>g. g \<noteq> e) c))) ids =
          List.map_filter (\<lambda>a. spec_live now a (store c)) ids"
        using spec_live_keep[OF linked Some False] by simp
      ultimately show ?thesis
        using Some False Cons.IH[OF linked_keep[OF linked], of previous al "\<lambda>g. g \<noteq> e"] lookup remove_keep[OF linked, of e]
        by (simp add: spec_live_def Let_def)
    qed
  qed
qed

lemma merge_all_set:
  "set (foldl (\<lambda>al g. mergeSessionAliases al (sn_aliases g)) al gs) - {[]} =
     (set al \<union> (\<Union>g \<in> set gs. set (sn_aliases g))) - {[]}"
  by (induction gs arbitrary: al) (auto simp: merge_set)

lemma merge_all_ok:
  "distinct al \<Longrightarrow> [] \<notin> set al \<Longrightarrow>
   distinct (foldl (\<lambda>al g. mergeSessionAliases al (sn_aliases g)) al gs) \<and>
   [] \<notin> set (foldl (\<lambda>al g. mergeSessionAliases al (sn_aliases g)) al gs)"
  by (induction gs arbitrary: al) (auto simp: merge_set merge_distinct)

lemma SetAliases_spec:
  assumes ok: "cache_ok c" and auth: "auth \<noteq> []"
  shows "cache_ok (SetAliases now auth ids c) \<and> sc_maxEntries (SetAliases now auth ids c) = sc_maxEntries c \<and>
    sc_ttl (SetAliases now auth ids c) = sc_ttl c \<and>
    store (SetAliases now auth ids c) = spec_bind (sc_maxEntries c) now auth ids (now + sc_ttl c) (store c)"
proof -
  note linked = cache_ok_linked[OF ok]
  let ?live = "List.map_filter (\<lambda>a. spec_live now a (store c)) ids"
  let ?al = "foldl (\<lambda>al g. mergeSessionAliases al (sn_aliases g)) (mergeSessionAliases [] ids) ?live"
  let ?P = "\<lambda>g. now < sn_expiresAt g \<or> set (sn_aliases g) \<inter> set ids = {}"
  have al: "distinct ?al" "[] \<notin> set ?al"
    using merge_all_ok[OF merge_distinct, of "[]" ids ?live] merge_set[of "[]" ids] by auto
  then have set_al: "set ?al = (set ids \<union> (\<Union>g \<in> set ?live. set (sn_aliases g))) - {[]}"
    using merge_all_set[of "mergeSessionAliases [] ids" ?live] merge_set[of "[]" ids] by auto
  have live: "g \<in> set ?live \<longleftrightarrow> (\<exists>a \<in> set ids. spec_lookup a (store c) = Some g) \<and> now < sn_expiresAt g" for g
    by (auto simp: set_map_filter spec_live_Some)
  have touched: "spec_lookup a (store c) = Some g" if "g \<in> set (store c)" "a \<in> set (sn_aliases g)" for a g
    using lookupI[OF linked that] lookup_spec[OF linked] by simp
  have rest: "filter (\<lambda>g. g \<notin> set ?live) (filter ?P (store c)) = filter (\<lambda>g. set (sn_aliases g) \<inter> set ids = {}) (store c)"
  proof -
    have "?P g \<and> g \<notin> set ?live \<longleftrightarrow> set (sn_aliases g) \<inter> set ids = {}" if g: "g \<in> set (store c)" for g
      using touched[OF g] live cache_ok_lookup(2)[OF ok, of _ g] by blast
    then show ?thesis unfolding filter_filter by (rule filter_cong[OF refl])
  qed
  show ?thesis
  proof (cases "?al = []")
    case True
    then have "a = []" if "a \<in> set ids" for a using that set_al by auto
    then have "keep ?P c = c"
      using ok by (intro keep_all[OF linked]) (auto simp: cache_ok_def group_ok_def)
    then show ?thesis
      using True ok auth by (simp add: SetAliases_def collect_spec[OF linked] spec_bind_def Let_def)
  next
    case False
    let ?c1 = "keep ?P c" and ?as = "compactSessionAliases ?al"
    have as: "distinct ?as" "[] \<notin> set ?as" "within_limits ?as"
      using compact_distinct[OF al(1)] compact_set[of ?al] al(2) compact_limits by auto
    have free: "g \<in> set ?live" if a: "a \<in> set ?as" and g: "map_of (sc_entries ?c1) a = Some g" for a g
    proof -
      have g': "spec_lookup a (store c) = Some g" "?P g"
        using g by (auto simp: lookup_keep[OF linked] lookup_spec[OF linked] split: option.splits if_splits)
      have "a \<in> set ?al" using a compact_set by blast
      then consider "a \<in> set ids" | h where "h \<in> set ?live" "a \<in> set (sn_aliases h)"
        using set_al by blast
      then show ?thesis
      proof cases
        case 1
        then show ?thesis using g' live cache_ok_lookup(2)[OF ok g'(1)] by blast
      next
        case 2
        then have "h \<in> set (store c)" using live cache_ok_lookup(1)[OF ok] by blast
        then show ?thesis using touched 2 g' by fastforce
      qed
    qed
    note ok1 = cache_ok_keep[OF ok, of ?P]
    have pos: "0 < sc_maxEntries ?c1" using ok by (simp add: cache_ok_def)
    note new = replace_store[OF cache_ok_linked[OF ok1] as(1) pos free, where auth = auth and t = "now + sc_ttl c"]
    have "SetAliases now auth ids c = replaceAliasGroupsLocked auth (now + sc_ttl c) ?as ?live ?c1"
      using False auth by (simp add: SetAliases_def collect_spec[OF linked] Let_def)
    then show ?thesis
      using new cache_ok_replace[OF ok1 as(1) auth as(2,3) free] False rest
      by (simp add: spec_bind_def Let_def store_keep[OF linked])
  qed
qed

lemma total_without:
  "distinct gs \<Longrightarrow> g \<in> set gs \<Longrightarrow> total (filter (\<lambda>h. h \<noteq> g) gs) + length (sn_aliases g) = total gs"
proof (induction gs)
  case (Cons h gs)
  show ?case
  proof (cases "h = g")
    case True
    then have "filter (\<lambda>h. h \<noteq> g) gs = gs"
      using Cons.prems by (auto simp: filter_id_conv)
    with True show ?thesis by simp
  next
    case False
    then show ?thesis using Cons by simp
  qed
qed simp

lemma filter_length_cong:
  "distinct xs \<Longrightarrow> distinct ys \<Longrightarrow> set xs = set ys \<Longrightarrow> length (filter P xs) = length (filter P ys)"
  using distinct_card[of "filter P xs"] distinct_card[of "filter P ys"] by simp

lemma within_limits_cong:
  "distinct xs \<Longrightarrow> distinct ys \<Longrightarrow> set xs = set ys \<Longrightarrow> within_limits xs = within_limits ys"
  unfolding within_limits_def by (simp add: filter_length_cong[of xs ys])

lemma replace_group:
  fixes t :: go_time
  assumes ok: "cache_ok c" and g: "spec_lookup a (store c) = Some g"
    and as: "distinct as" "set as \<subseteq> set (sn_aliases g)" "within_limits as" "as \<noteq> []"
  defines "c' \<equiv> replaceAliasGroupsLocked (sn_authID g) t as [g] c"
  shows "cache_ok c' \<and> sc_maxEntries c' = sc_maxEntries c \<and> sc_ttl c' = sc_ttl c \<and>
    store c' = filter (\<lambda>h. h \<noteq> g) (store c) @ [g\<lparr>sn_expiresAt := t, sn_aliases := as\<rparr>]"
proof -
  note linked = cache_ok_linked[OF ok] and gD = cache_ok_lookup[OF ok g]
  have free: "h \<in> set [g]" if "b \<in> set as" "map_of (sc_entries c) b = Some h" for b h
    using gD(7)[OF that(2)] as(2) that(1) by auto
  have pos: "0 < sc_maxEntries c" using ok by (simp add: cache_ok_def)
  have auth: "sn_authID g \<noteq> []" "[] \<notin> set as"
    using gD(4) as(2) by (auto simp: group_ok_def)
  note new = replace_store[OF linked as(1) pos free, where auth = "sn_authID g" and t = t]
  have "length as \<le> length (sn_aliases g)"
    using as gD(5) by (metis card_mono distinct_card finite_set)
  moreover have "int (total (filter (\<lambda>h. h \<noteq> g) (store c)) + length (sn_aliases g)) \<le> sc_maxEntries c"
    using total_without[OF store_distinct(1)[OF linked] gD(1)] cache_ok_total[OF ok, of "\<lambda>_. True"] by simp
  ultimately have "int (total (filter (\<lambda>h. h \<noteq> g) (store c) @ [\<lparr>sn_authID = sn_authID g, sn_expiresAt = t, sn_aliases = as\<rparr>]))
      \<le> sc_maxEntries c"
    by simp
  then show ?thesis
    using new cache_ok_replace[OF ok as(1) auth as(3) free, where t = t] as(4)
    by (simp add: c'_def fit_id)
qed

lemma refresh_spec:
  fixes t :: go_time
  assumes ok: "cache_ok c" and g: "spec_lookup a (store c) = Some g"
  defines "c' \<equiv> replaceAliasGroupsLocked (sn_authID g) t
      (compactSessionAliases (mergeSessionAliases [a] (sn_aliases g))) [g] c"
  shows "cache_ok c' \<and> sc_maxEntries c' = sc_maxEntries c \<and> sc_ttl c' = sc_ttl c \<and>
    store c' = spec_refresh a t g (store c)"
proof -
  note gD = cache_ok_lookup[OF ok g]
  let ?as = "mergeSessionAliases [a] (sn_aliases g)"
  have set_as: "set ?as = set (sn_aliases g)"
    using gD(2,4) by (auto simp: merge_set group_ok_def)
  moreover have "within_limits ?as"
    using within_limits_cong[OF merge_distinct gD(5) set_as] gD(4) by (simp add: group_ok_def)
  moreover have "?as \<noteq> []" using set_as gD(2) by auto
  ultimately show ?thesis
    unfolding c'_def using replace_group[OF ok g merge_distinct, of "[a]" "sn_aliases g" t]
    by (simp add: compact_id spec_refresh_def)
qed

lemma drop_spec:
  assumes ok: "cache_ok c" and g: "spec_lookup a (store c) = Some g"
  shows "cache_ok (dropAlias a g c) \<and> sc_maxEntries (dropAlias a g c) = sc_maxEntries c \<and>
    sc_ttl (dropAlias a g c) = sc_ttl c \<and> store (dropAlias a g c) = spec_drop a g (store c)"
proof -
  note linked = cache_ok_linked[OF ok] and gD = cache_ok_lookup[OF ok g]
  let ?as = "filter (\<lambda>b. b \<noteq> a) (sn_aliases g)" and ?c1 = "keep (\<lambda>h. h \<noteq> g) c"
  have drop: "dropAlias a g c = (if ?as \<noteq> [] then replaceAliasGroupsLocked (sn_authID g) (sn_expiresAt g) ?as [] ?c1 else ?c1)"
    by (simp add: dropAlias_def remove_keep[OF linked] Let_def)
  show ?thesis
  proof (cases "?as = []")
    case True
    then show ?thesis
      using drop cache_ok_keep[OF ok] by (simp add: store_keep[OF linked] spec_drop_def)
  next
    case False
    have free: "h \<in> set []" if "b \<in> set ?as" "map_of (sc_entries ?c1) b = Some h" for b h
      using that gD(7)[of b h] by (auto simp: lookup_keep[OF linked] split: option.splits if_splits)
    have as: "distinct ?as" "[] \<notin> set ?as" "within_limits ?as" and auth: "sn_authID g \<noteq> []"
      using gD(4,5) by (auto simp: group_ok_def within_limits_filter)
    note ok1 = cache_ok_keep[OF ok, of "\<lambda>h. h \<noteq> g"]
    have pos: "0 < sc_maxEntries ?c1" using ok by (simp add: cache_ok_def)
    note new = replace_store[OF cache_ok_linked[OF ok1] as(1) pos free, where auth = "sn_authID g" and t = "sn_expiresAt g"]
    have "int (total (filter (\<lambda>h. h \<noteq> g) (store c)) + length (sn_aliases g)) \<le> sc_maxEntries c"
      using total_without[OF store_distinct(1)[OF linked] gD(1)] cache_ok_total[OF ok, of "\<lambda>_. True"] by simp
    moreover have "int (length ?as) \<le> int (length (sn_aliases g))"
      by (intro of_nat_mono length_filter_le)
    ultimately have "int (total (filter (\<lambda>h. h \<noteq> g) (store c) @
        [\<lparr>sn_authID = sn_authID g, sn_expiresAt = sn_expiresAt g, sn_aliases = ?as\<rparr>])) \<le> sc_maxEntries c"
      unfolding total_simps sessionEntry.simps of_nat_add of_nat_0 by linarith
    then show ?thesis
      using new cache_ok_replace[OF ok1 as(1) auth as(2,3) free] False drop
      by (simp add: store_keep[OF linked] spec_drop_def fit_id Let_def)
  qed
qed

section \<open>Runs\<close>

text \<open>The operations a client can call, each with its readings of the clock, and their answers.\<close>

datatype cache_op =
    Op_Get go_time go_time string
  | Op_Get_locked go_time string
  | Op_GetAndRefresh go_time string
  | Op_Set go_time string string
  | Op_SetAliases go_time string "string list"
  | Op_Touch go_time string string
  | Op_CompareAndDelete string string
  | Op_Invalidate string
  | Op_InvalidateAuth string
  | Op_cleanup go_time
  | Op_Len

datatype cache_answer = Answer_auth "string option" | Answer_bool bool | Answer_len nat | Answer_none

fun cache_exec :: "cache_op \<Rightarrow> SessionCache \<Rightarrow> cache_answer \<times> SessionCache" where
  "cache_exec (Op_Get t1 t2 a) c = apfst Answer_auth (Get t1 t2 a c)"
| "cache_exec (Op_Get_locked now a) c = apfst Answer_auth (Get_locked now a c)"
| "cache_exec (Op_GetAndRefresh now a) c = apfst Answer_auth (GetAndRefresh now a c)"
| "cache_exec (Op_Set now a auth) c = (Answer_none, Set now a auth c)"
| "cache_exec (Op_SetAliases now auth ids) c = (Answer_none, SetAliases now auth ids c)"
| "cache_exec (Op_Touch now a auth) c = apfst Answer_bool (Touch now a auth c)"
| "cache_exec (Op_CompareAndDelete a auth) c = apfst Answer_bool (CompareAndDelete a auth c)"
| "cache_exec (Op_Invalidate a) c = (Answer_none, Invalidate a c)"
| "cache_exec (Op_InvalidateAuth auth) c = (Answer_none, InvalidateAuth auth c)"
| "cache_exec (Op_cleanup now) c = (Answer_none, cleanup now c)"
| "cache_exec Op_Len c = (Answer_len (Len c), c)"

fun cache_run :: "cache_op list \<Rightarrow> SessionCache \<Rightarrow> cache_answer list \<times> SessionCache" where
  "cache_run [] c = ([], c)"
| "cache_run (op # ops) c =
     (let (r, c1) = cache_exec op c; (rs, c2) = cache_run ops c1 in (r # rs, c2))"

text \<open>The same operations on the list of groups, for a cache of capacity \<open>m\<close> and lifetime \<open>ttl\<close>.\<close>

fun spec_exec :: "int \<Rightarrow> duration \<Rightarrow> cache_op \<Rightarrow> sessionEntry list \<Rightarrow> cache_answer \<times> sessionEntry list" where
  "spec_exec m ttl (Op_Get t1 t2 a) gs =
     (case spec_lookup a gs of
        None \<Rightarrow> (Answer_auth None, gs)
      | Some g \<Rightarrow> if t1 < sn_expiresAt g \<or> t2 < sn_expiresAt g then (Answer_auth (Some (sn_authID g)), gs)
                  else (Answer_auth None, filter (\<lambda>h. h \<noteq> g) gs))"
| "spec_exec m ttl (Op_Get_locked now a) gs =
     (case spec_lookup a gs of
        None \<Rightarrow> (Answer_auth None, gs)
      | Some g \<Rightarrow> if now < sn_expiresAt g then (Answer_auth (Some (sn_authID g)), gs)
                  else (Answer_auth None, filter (\<lambda>h. h \<noteq> g) gs))"
| "spec_exec m ttl (Op_GetAndRefresh now a) gs =
     (case spec_lookup a gs of
        None \<Rightarrow> (Answer_auth None, gs)
      | Some g \<Rightarrow> if now < sn_expiresAt g then (Answer_auth (Some (sn_authID g)), spec_refresh a (now + ttl) g gs)
                  else (Answer_auth None, filter (\<lambda>h. h \<noteq> g) gs))"
| "spec_exec m ttl (Op_Set now a auth) gs =
     (Answer_none, if auth = [] then gs else spec_bind m now auth [a] (now + ttl) gs)"
| "spec_exec m ttl (Op_SetAliases now auth ids) gs =
     (Answer_none, if auth = [] then gs else spec_bind m now auth ids (now + ttl) gs)"
| "spec_exec m ttl (Op_Touch now a auth) gs =
     (case spec_live now a gs of
        None \<Rightarrow> (Answer_bool False, gs)
      | Some g \<Rightarrow> if sn_authID g = auth then (Answer_bool True, spec_refresh a (now + ttl) g gs)
                  else (Answer_bool False, gs))"
| "spec_exec m ttl (Op_CompareAndDelete a auth) gs =
     (case spec_lookup a gs of
        None \<Rightarrow> (Answer_bool False, gs)
      | Some g \<Rightarrow> if sn_authID g = auth then (Answer_bool True, spec_drop a g gs) else (Answer_bool False, gs))"
| "spec_exec m ttl (Op_Invalidate a) gs =
     (Answer_none, case spec_lookup a gs of None \<Rightarrow> gs | Some g \<Rightarrow> spec_drop a g gs)"
| "spec_exec m ttl (Op_InvalidateAuth auth) gs = (Answer_none, filter (\<lambda>g. sn_authID g \<noteq> auth) gs)"
| "spec_exec m ttl (Op_cleanup now) gs = (Answer_none, filter (\<lambda>g. now < sn_expiresAt g) gs)"
| "spec_exec m ttl Op_Len gs = (Answer_len (total gs), gs)"

fun spec_run :: "int \<Rightarrow> duration \<Rightarrow> cache_op list \<Rightarrow> sessionEntry list \<Rightarrow> cache_answer list \<times> sessionEntry list" where
  "spec_run m ttl [] gs = ([], gs)"
| "spec_run m ttl (op # ops) gs =
     (let (r, gs1) = spec_exec m ttl op gs; (rs, gs2) = spec_run m ttl ops gs1 in (r # rs, gs2))"

definition refines :: "SessionCache \<Rightarrow> cache_answer \<times> SessionCache \<Rightarrow> cache_answer \<times> sessionEntry list \<Rightarrow> bool" where
  "refines c rc rs \<longleftrightarrow> fst rc = fst rs \<and> store (snd rc) = snd rs \<and> cache_ok (snd rc) \<and>
     sc_maxEntries (snd rc) = sc_maxEntries c \<and> sc_ttl (snd rc) = sc_ttl c"

lemma cache_ok_lookup_Nil [simp]: "cache_ok c \<Longrightarrow> spec_lookup [] (store c) = None"
  using cache_ok_lookup(3) by (metis not_None_eq)

lemma cache_ok_entries: "cache_ok c \<Longrightarrow> map_of (sc_entries c) a = spec_lookup a (store c)"
  by (simp add: lookup_spec cache_ok_linked)

lemma refines_remove:
  "cache_ok c \<Longrightarrow> cache_ok (removeAliasGroupLocked g c) \<and> sc_maxEntries (removeAliasGroupLocked g c) = sc_maxEntries c \<and>
    sc_ttl (removeAliasGroupLocked g c) = sc_ttl c \<and> store (removeAliasGroupLocked g c) = filter (\<lambda>h. h \<noteq> g) (store c)"
  by (simp add: remove_keep cache_ok_linked cache_ok_keep store_keep)

lemma refines_where:
  "cache_ok c \<Longrightarrow> cache_ok (removeGroupsWhere P c) \<and> sc_maxEntries (removeGroupsWhere P c) = sc_maxEntries c \<and>
    sc_ttl (removeGroupsWhere P c) = sc_ttl c \<and> store (removeGroupsWhere P c) = filter (\<lambda>h. \<not> P h) (store c)"
  by (simp add: removeGroupsWhere_keep cache_ok_linked cache_ok_keep store_keep)

lemma exec_refines:
  assumes ok: "cache_ok c"
  shows "refines c (cache_exec op c) (spec_exec (sc_maxEntries c) (sc_ttl c) op (store c))"
proof -
  note simps = refines_def cache_ok_entries[OF ok] Let_def apfst_def map_prod_def
  note lookup = cache_ok_lookup(3)[OF ok]
  show ?thesis
  proof (cases op)
    case (Op_Get t1 t2 a)
    show ?thesis
      using ok refines_remove[OF ok] lookup
      by (auto simp: Op_Get Get_def Get_locked_def simps split: option.split)
  next
    case (Op_Get_locked now a)
    show ?thesis
      using ok refines_remove[OF ok]
      by (auto simp: Op_Get_locked Get_locked_def simps split: option.split)
  next
    case (Op_GetAndRefresh now a)
    show ?thesis
      using ok refines_remove[OF ok] lookup refresh_spec[OF ok]
      by (auto simp: Op_GetAndRefresh GetAndRefresh_def simps split: option.split)
  next
    case (Op_Set now a auth)
    show ?thesis
      using ok SetAliases_spec[OF ok, of auth now "[a]"]
      by (cases "auth = []") (simp_all add: Op_Set Set_def SetAliases_def simps)
  next
    case (Op_SetAliases now auth ids)
    show ?thesis
      using ok SetAliases_spec[OF ok, of auth now ids]
      by (cases "auth = []") (simp_all add: Op_SetAliases SetAliases_def simps)
  next
    case (Op_Touch now a auth)
    show ?thesis
    proof (cases "spec_lookup a (store c)")
      case None
      then show ?thesis using ok by (simp add: Op_Touch Touch_def simps spec_live_def)
    next
      case (Some g)
      have "sn_authID g \<noteq> []" using cache_ok_lookup(4)[OF ok Some] by (simp add: group_ok_def)
      then show ?thesis
        using ok Some lookup[OF Some] refresh_spec[OF ok Some]
        by (auto simp: Op_Touch Touch_def simps spec_live_def)
    qed
  next
    case (Op_CompareAndDelete a auth)
    show ?thesis
    proof (cases "spec_lookup a (store c)")
      case None
      then show ?thesis using ok by (simp add: Op_CompareAndDelete CompareAndDelete_def simps)
    next
      case (Some g)
      have "sn_authID g \<noteq> []" using cache_ok_lookup(4)[OF ok Some] by (simp add: group_ok_def)
      then show ?thesis
        using ok Some lookup[OF Some] drop_spec[OF ok Some]
        by (auto simp: Op_CompareAndDelete CompareAndDelete_def simps)
    qed
  next
    case (Op_Invalidate a)
    show ?thesis
      using ok lookup drop_spec[OF ok]
      by (auto simp: Op_Invalidate Invalidate_def simps split: option.split)
  next
    case (Op_InvalidateAuth auth)
    have "filter (\<lambda>g. sn_authID g \<noteq> []) (store c) = store c"
      using ok by (auto simp: cache_ok_def group_ok_def filter_id_conv)
    then show ?thesis
      using ok refines_where[OF ok] by (auto simp: Op_InvalidateAuth InvalidateAuth_def simps)
  next
    case (Op_cleanup now)
    show ?thesis
      using refines_where[OF ok] by (auto simp: Op_cleanup cleanup_def simps)
  next
    case Op_Len
    show ?thesis
      using ok by (simp add: Op_Len Len_def simps length_entries cache_ok_linked)
  qed
qed

lemma run_refines:
  "cache_ok c \<Longrightarrow> fst (cache_run ops c) = fst (spec_run (sc_maxEntries c) (sc_ttl c) ops (store c)) \<and>
     store (snd (cache_run ops c)) = snd (spec_run (sc_maxEntries c) (sc_ttl c) ops (store c)) \<and>
     cache_ok (snd (cache_run ops c)) \<and> sc_maxEntries (snd (cache_run ops c)) = sc_maxEntries c \<and>
     sc_ttl (snd (cache_run ops c)) = sc_ttl c"
proof (induction ops arbitrary: c)
  case (Cons op ops)
  show ?case
    using Cons.IH[of "snd (cache_exec op c)"] exec_refines[OF Cons.prems, of op]
    by (simp add: refines_def split_beta Let_def)
qed simp

lemma run_new:
  fixes n :: int and ttl :: duration
  defines "c \<equiv> NewSessionCacheWithCapacity ttl n"
  shows "fst (cache_run ops c) = fst (spec_run (sc_maxEntries c) (sc_ttl c) ops [])"
    "store (snd (cache_run ops c)) = snd (spec_run (sc_maxEntries c) (sc_ttl c) ops [])"
    "cache_ok (snd (cache_run ops c))" "sc_maxEntries (snd (cache_run ops c)) = sc_maxEntries c"
    "sc_ttl (snd (cache_run ops c)) = sc_ttl c"
proof -
  have "store c = []"
    by (simp add: c_def NewSessionCacheWithCapacity_def store_def List.map_filter_def)
  then show "fst (cache_run ops c) = fst (spec_run (sc_maxEntries c) (sc_ttl c) ops [])"
    "store (snd (cache_run ops c)) = snd (spec_run (sc_maxEntries c) (sc_ttl c) ops [])"
    "cache_ok (snd (cache_run ops c))" "sc_maxEntries (snd (cache_run ops c)) = sc_maxEntries c"
    "sc_ttl (snd (cache_run ops c)) = sc_ttl c"
    using run_refines[of c ops] by (simp_all add: c_def)
qed

section \<open>Properties\<close>

text \<open>Whatever sequence of operations runs on a new cache, its maps and its eviction order stay linked, every group
  has at most 64 stable aliases and one prompt-cache key, and the number of bound aliases stays within
  the capacity.\<close>

theorem session_cache_invariant:
  "cache_ok (snd (cache_run ops (NewSessionCacheWithCapacity ttl n)))"
  by (rule run_new(3))

text \<open>C18. The session cache answers every sequence of operations as a plain list of groups does, in which a
  lookup is a search, a removal filters, a binding absorbs the groups it touches, goes to the end and
  pushes the oldest groups out when the capacity is exceeded.\<close>

theorem session_cache_refines:
  "fst (cache_run ops (NewSessionCacheWithCapacity ttl n)) =
     fst (spec_run (sc_maxEntries (NewSessionCacheWithCapacity ttl n))
            (sc_ttl (NewSessionCacheWithCapacity ttl n)) ops [])"
  by (rule run_new(1))

lemma spec_bind_single:
  fixes auth :: string and now t :: go_time
  assumes ok: "cache_ok c" and s: "s \<noteq> []"
  defines "as \<equiv> (case spec_live now s (store c) of None \<Rightarrow> [s] | Some g \<Rightarrow> mergeSessionAliases [s] (sn_aliases g))"
  shows "spec_bind (sc_maxEntries c) now auth [s] t (store c) =
      fit (sc_maxEntries c) (filter (\<lambda>g. s \<notin> set (sn_aliases g)) (store c) @
        [\<lparr>sn_authID = auth, sn_expiresAt = t, sn_aliases = as\<rparr>])"
    and "within_limits as" "set as = insert s (case spec_live now s (store c) of None \<Rightarrow> {} | Some g \<Rightarrow> set (sn_aliases g))"
proof -
  have single: "mergeSessionAliases [] [s] = [s]"
    using s by (simp add: mergeSessionAliases_def)
  have merge: "compactSessionAliases (foldl (\<lambda>al g. mergeSessionAliases al (sn_aliases g)) [s]
      (List.map_filter (\<lambda>a. spec_live now a (store c)) [s])) = as \<and> within_limits as \<and> as \<noteq> [] \<and>
    set as = insert s (case spec_live now s (store c) of None \<Rightarrow> {} | Some g \<Rightarrow> set (sn_aliases g))"
  proof (cases "spec_live now s (store c)")
    case None
    have "within_limits [s]"
      by (simp add: within_limits_def maxStableSessionAliases_def)
    with None show ?thesis by (simp add: as_def compact_id)
  next
    case (Some g)
    then have g: "spec_lookup s (store c) = Some g"
      by (auto simp: spec_live_def split: option.splits if_splits)
    note gD = cache_ok_lookup[OF ok g]
    have eq: "set (mergeSessionAliases [s] (sn_aliases g)) = set (sn_aliases g)"
      using gD(2,4) by (auto simp: merge_set group_ok_def)
    then have "within_limits (mergeSessionAliases [s] (sn_aliases g))"
      using within_limits_cong[OF merge_distinct gD(5) eq] gD(4) by (simp add: group_ok_def)
    then show ?thesis
      using Some eq gD(2) by (auto simp: as_def compact_id)
  qed
  then show "spec_bind (sc_maxEntries c) now auth [s] t (store c) =
      fit (sc_maxEntries c) (filter (\<lambda>g. s \<notin> set (sn_aliases g)) (store c) @
        [\<lparr>sn_authID = auth, sn_expiresAt = t, sn_aliases = as\<rparr>])"
    by (simp add: spec_bind_def single Let_def del: compact_nonempty List.map_filter_simps)
  show "within_limits as" "set as = insert s (case spec_live now s (store c) of None \<Rightarrow> {} | Some g \<Rightarrow> set (sn_aliases g))"
    using merge by simp_all
qed

lemma lookup_iff:
  "linked c \<Longrightarrow> spec_lookup b (store c) = Some g \<longleftrightarrow> g \<in> set (store c) \<and> b \<in> set (sn_aliases g)"
  using lookupD[of c b g] lookupI[of c g b] lookup_spec[of c b] by auto

lemma lookup_none:
  "linked c \<Longrightarrow> (\<And>g. g \<in> set (store c) \<Longrightarrow> b \<notin> set (sn_aliases g)) \<Longrightarrow> spec_lookup b (store c) = None"
  by (metis lookup_iff not_None_eq)

definition spec_answer :: "go_time \<Rightarrow> go_time \<Rightarrow> sessionEntry option \<Rightarrow> string option" where
  "spec_answer t1 t2 x = (case x of None \<Rightarrow> None
     | Some g \<Rightarrow> if t1 < sn_expiresAt g \<or> t2 < sn_expiresAt g then Some (sn_authID g) else None)"

lemma Get_answer:
  "cache_ok c \<Longrightarrow> fst (Get t1 t2 b c) = spec_answer t1 t2 (spec_lookup b (store c))"
  using cache_ok_lookup(3)[of c b]
  by (auto simp: Get_def Get_locked_def cache_ok_entries spec_answer_def split: option.split)

lemma Get_drop:
  assumes ok: "cache_ok c" and g: "spec_lookup s (store c) = Some g"
  shows "fst (Get t1 t2 b (dropAlias s g c)) = (if b = s then None else fst (Get t1 t2 b c))"
proof -
  let ?c' = "dropAlias s g c" and ?g' = "g\<lparr>sn_aliases := filter (\<lambda>b. b \<noteq> s) (sn_aliases g)\<rparr>"
  note new = drop_spec[OF ok g]
  have linked: "linked c" "linked ?c'" using ok new by (simp_all add: cache_ok_linked)
  note gD = cache_ok_lookup[OF ok g]
  have store: "set (store ?c') = {h \<in> set (store c). h \<noteq> g} \<union> (if \<forall>x \<in> set (sn_aliases g). x = s then {} else {?g'})"
    using new by (auto simp: spec_drop_def Let_def filter_empty_conv)
  have same: "spec_answer t1 t2 (spec_lookup b (store ?c')) = (if b = s then None else spec_answer t1 t2 (spec_lookup b (store c)))"
  proof (cases "b = s")
    case True
    have "s \<notin> set (sn_aliases h)" if "h \<in> set (store ?c')" for h
    proof
      assume "s \<in> set (sn_aliases h)"
      moreover then have "h \<noteq> ?g'" by auto
      ultimately have "h \<in> set (store c) \<and> h \<noteq> g \<and> s \<in> set (sn_aliases h)"
        using that unfolding store by (simp split: if_splits)
      then show False
        using lookup_iff[OF linked(1), of s h] g by simp
    qed
    then show ?thesis
      using True lookup_none[OF linked(2), of s] by (simp add: spec_answer_def)
  next
    case False
    consider "spec_lookup b (store c) = None" | "spec_lookup b (store c) = Some g"
      | h where "spec_lookup b (store c) = Some h" "h \<noteq> g" by fastforce
    then show ?thesis
    proof cases
      case 1
      then have "b \<notin> set (sn_aliases h)" if "h \<in> set (store c)" for h
        using that lookup_iff[OF linked(1), of b h] by simp
      then have "b \<notin> set (sn_aliases h)" if "h \<in> set (store ?c')" for h
        using that store gD(1) by (auto split: if_splits)
      then show ?thesis
        using 1 False lookup_none[OF linked(2), of b] by simp
    next
      case 2
      then have "b \<in> set (sn_aliases g)" using lookup_iff[OF linked(1)] by blast
      then have "spec_lookup b (store ?c') = Some ?g'"
        unfolding lookup_iff[OF linked(2)] using store False by auto
      then show ?thesis using 2 False by (simp add: spec_answer_def)
    next
      case 3
      then have "spec_lookup b (store ?c') = Some h"
        unfolding lookup_iff[OF linked(2)] using store lookup_iff[OF linked(1), of b h] by auto
      then show ?thesis using 3 False by simp
    qed
  qed
  then show ?thesis
    using Get_answer ok new by simp
qed

lemma lookup_keep_spec:
  assumes "cache_ok c"
  shows "spec_lookup b (store (keep P c)) =
    (case spec_lookup b (store c) of None \<Rightarrow> None | Some g \<Rightarrow> if P g then Some g else None)"
  using lookup_keep[OF cache_ok_linked[OF assms], of P b] cache_ok_entries[OF assms] cache_ok_entries[OF cache_ok_keep[OF assms]]
  by simp

lemma removals_exact:
  assumes ok: "cache_ok c"
  shows "fst (Get t1 t2 b (Invalidate s c)) = (if b = s then None else fst (Get t1 t2 b c))"
    and "fst (Get t1 t2 b (snd (CompareAndDelete s auth c))) =
       (if b = s \<and> fst (CompareAndDelete s auth c) then None else fst (Get t1 t2 b c))"
    and "fst (Get t1 t2 b (InvalidateAuth auth c)) =
       (if fst (Get t1 t2 b c) = Some auth then None else fst (Get t1 t2 b c))"
    and "fst (Get (max now t1) (max now t2) b (cleanup now c)) = fst (Get (max now t1) (max now t2) b c)"
proof -
  have none: "fst (Get t1 t2 s c) = None" if "spec_lookup s (store c) = None"
    using that by (simp add: Get_answer[OF ok] spec_answer_def)
  show "fst (Get t1 t2 b (Invalidate s c)) = (if b = s then None else fst (Get t1 t2 b c))"
    using none Get_drop[OF ok] ok
    by (auto simp: Invalidate_def cache_ok_entries[OF ok] Get_answer[OF ok] spec_answer_def split: option.split)
  show "fst (Get t1 t2 b (snd (CompareAndDelete s auth c))) =
      (if b = s \<and> fst (CompareAndDelete s auth c) then None else fst (Get t1 t2 b c))"
    using Get_drop[OF ok]
    by (auto simp: CompareAndDelete_def cache_ok_entries[OF ok] split: option.split)
  have auths: "sn_authID g \<noteq> []" if "spec_lookup b (store c) = Some g" for g
    using cache_ok_lookup(4)[OF ok that] by (simp add: group_ok_def)
  show "fst (Get t1 t2 b (InvalidateAuth auth c)) = (if fst (Get t1 t2 b c) = Some auth then None else fst (Get t1 t2 b c))"
    using ok cache_ok_keep[OF ok] auths
    by (auto simp: InvalidateAuth_def removeGroupsWhere_keep cache_ok_linked Get_answer lookup_keep_spec spec_answer_def
        split: option.split)
  show "fst (Get (max now t1) (max now t2) b (cleanup now c)) = fst (Get (max now t1) (max now t2) b c)"
    using ok cache_ok_keep[OF ok]
    by (auto simp: cleanup_def removeGroupsWhere_keep cache_ok_linked Get_answer lookup_keep_spec spec_answer_def
        split: option.split)
qed

text \<open>Invalidating a session takes away that session alone, compare-and-delete does so when the
  credential matches, invalidating a credential takes away exactly its sessions, and a cleanup changes
  no later answer.\<close>

theorem session_removals_exact:
  "let c = snd (cache_run ops (NewSessionCacheWithCapacity ttl n))
   in fst (Get t1 t2 b (Invalidate s c)) = (if b = s then None else fst (Get t1 t2 b c)) \<and>
      fst (Get t1 t2 b (snd (CompareAndDelete s auth c))) =
        (if b = s \<and> fst (CompareAndDelete s auth c) then None else fst (Get t1 t2 b c)) \<and>
      fst (Get t1 t2 b (InvalidateAuth auth c)) =
        (if fst (Get t1 t2 b c) = Some auth then None else fst (Get t1 t2 b c)) \<and>
      fst (Get (max now t1) (max now t2) b (cleanup now c)) = fst (Get (max now t1) (max now t2) b c)"
  unfolding Let_def by (intro conjI removals_exact run_new(3))

lemma Set_store:
  fixes c :: SessionCache and now :: go_time
  assumes ok: "cache_ok c" and s: "s \<noteq> []" "auth \<noteq> []" and room: "65 \<le> sc_maxEntries c"
  defines "live \<equiv> (case spec_live now s (store c) of None \<Rightarrow> {} | Some g \<Rightarrow> set (sn_aliases g))"
  shows "cache_ok (Set now s auth c) \<and> (\<exists>as hs. set as = insert s live \<and>
    store (Set now s auth c) = hs @ [\<lparr>sn_authID = auth, sn_expiresAt = now + sc_ttl c, sn_aliases = as\<rparr>] \<and>
    set hs \<subseteq> set (store c))"
proof -
  define as where "as = (case spec_live now s (store c) of None \<Rightarrow> [s] | Some g \<Rightarrow> mergeSessionAliases [s] (sn_aliases g))"
  let ?e = "\<lparr>sn_authID = auth, sn_expiresAt = now + sc_ttl c, sn_aliases = as\<rparr>"
  let ?rest = "filter (\<lambda>g. s \<notin> set (sn_aliases g)) (store c)"
  note bind = spec_bind_single(1)[OF ok s(1), where now = now and auth = auth and t = "now + sc_ttl c", folded as_def]
    and as = spec_bind_single(2,3)[OF ok s(1), where now = now, folded as_def live_def]
  have "int (length as) \<le> sc_maxEntries c"
    using within_limits_length[OF as(1)] room by simp
  then obtain hs where hs: "fit (sc_maxEntries c) (?rest @ [?e]) = hs @ [?e]"
    using fit_last[of ?e "sc_maxEntries c" ?rest] by auto
  obtain ys where "?rest @ [?e] = ys @ hs @ [?e]"
    using fit_suffix[of "?rest @ [?e]" "sc_maxEntries c"] hs by auto
  then have "set hs \<subseteq> set (store c)"
    by (metis append.assoc append_same_eq filter_is_subset le_sup_iff set_append)
  then show ?thesis
    using SetAliases_spec[OF ok s(2), of now "[s]"] bind as(2) hs unfolding Set_def by auto
qed

lemma live_Get:
  assumes "cache_ok c"
  shows "spec_live now s (store c) = Some g \<longleftrightarrow> map_of (sc_entries c) s = Some g \<and> fst (Get now now s c) \<noteq> None"
  using Get_answer[OF assms] cache_ok_entries[OF assms]
  by (auto simp: spec_live_def spec_answer_def split: option.splits if_splits)

lemma Set_exact:
  fixes now :: go_time and auth b :: string
  assumes ok: "cache_ok c" and s: "s \<noteq> []" "auth \<noteq> []" and room: "65 \<le> sc_maxEntries c"
  defines "c' \<equiv> Set now s auth c"
    and "moved \<equiv> b = s \<or> (fst (Get now now s c) \<noteq> None \<and> map_of (sc_entries c) b = map_of (sc_entries c) s)"
  shows "moved \<Longrightarrow> fst (Get t1 t2 b c') = (if t1 < now + sc_ttl c \<or> t2 < now + sc_ttl c then Some auth else None)"
    and "\<not> moved \<Longrightarrow> fst (Get t1 t2 b c') \<in> {None, fst (Get t1 t2 b c)}"
proof -
  note linked = cache_ok_linked[OF ok]
  obtain as hs where ok': "cache_ok c'"
    and as: "set as = insert s (case spec_live now s (store c) of None \<Rightarrow> {} | Some g \<Rightarrow> set (sn_aliases g))"
    and store: "store c' = hs @ [\<lparr>sn_authID = auth, sn_expiresAt = now + sc_ttl c, sn_aliases = as\<rparr>]"
      "set hs \<subseteq> set (store c)"
    using Set_store[OF ok s room, of now] unfolding c'_def by auto
  let ?e = "\<lparr>sn_authID = auth, sn_expiresAt = now + sc_ttl c, sn_aliases = as\<rparr>"
  note linked' = cache_ok_linked[OF ok']
  have moved: "moved \<longleftrightarrow> b \<in> set as"
  proof (cases "spec_live now s (store c)")
    case None
    then have "fst (Get now now s c) = None \<or> map_of (sc_entries c) s = None"
      using live_Get[OF ok, of now s] by (metis not_None_eq)
    then have "fst (Get now now s c) = None"
      by (auto simp: Get_answer[OF ok] cache_ok_entries[OF ok] spec_answer_def)
    then show ?thesis using None as by (simp add: moved_def)
  next
    case (Some g)
    then have g: "map_of (sc_entries c) s = Some g" "fst (Get now now s c) \<noteq> None"
      using live_Get[OF ok] by blast+
    then have "map_of (sc_entries c) b = Some g \<longleftrightarrow> b \<in> set (sn_aliases g)"
      using lookupD[OF linked] lookupI[OF linked] by metis
    then show ?thesis using Some g as by (simp add: moved_def)
  qed
  show "fst (Get t1 t2 b c') = (if t1 < now + sc_ttl c \<or> t2 < now + sc_ttl c then Some auth else None)" if moved
  proof -
    have "spec_lookup b (store c') = Some ?e"
      unfolding lookup_iff[OF linked'] using store that moved by simp
    then show ?thesis by (simp add: Get_answer[OF ok'] spec_answer_def)
  qed
  show "fst (Get t1 t2 b c') \<in> {None, fst (Get t1 t2 b c)}" if "\<not> moved"
  proof (cases "spec_lookup b (store c')")
    case None
    then show ?thesis by (simp add: Get_answer[OF ok'] spec_answer_def)
  next
    case (Some h)
    then have "h \<in> set (store c') \<and> b \<in> set (sn_aliases h)"
      using lookup_iff[OF linked'] by blast
    then have "spec_lookup b (store c) = Some h"
      unfolding lookup_iff[OF linked] using store that moved by auto
    then show ?thesis using Some by (simp add: Get_answer[OF ok'] Get_answer[OF ok])
  qed
qed

lemma new_capacity: "65 \<le> n \<Longrightarrow> 65 \<le> sc_maxEntries (NewSessionCacheWithCapacity ttl n)"
  by (simp add: NewSessionCacheWithCapacity_def)

text \<open>C19. Binding a session moves every alias of its live group to the credential: they all answer with it
  until the lifetime has passed and with nothing from then on. Any other session answers as before,
  unless its group was expired or has been evicted.\<close>

theorem session_binding_exact:
  "s \<noteq> [] \<Longrightarrow> auth \<noteq> [] \<Longrightarrow> 65 \<le> n \<Longrightarrow>
   let c = snd (cache_run ops (NewSessionCacheWithCapacity ttl n));
       c' = Set now s auth c;
       moved = (b = s \<or> (fst (Get now now s c) \<noteq> None \<and> map_of (sc_entries c) b = map_of (sc_entries c) s))
   in (moved \<longrightarrow> fst (Get t1 t2 b c') = (if t1 < now + sc_ttl c \<or> t2 < now + sc_ttl c then Some auth else None)) \<and>
      (\<not> moved \<longrightarrow> fst (Get t1 t2 b c') \<in> {None, fst (Get t1 t2 b c)})"
  unfolding Let_def
  by (intro conjI impI Set_exact[OF run_new(3)]) (simp_all add: run_new(4) new_capacity)

lemma session_binding_exact_witness:
  "fst (Get 1600 1700 ''b'' (Set 600 ''a'' ''auth2''
     (snd (cache_run [Op_SetAliases 0 ''auth1'' [''a'', ''b'']] (NewSessionCacheWithCapacity 1000 65))))) = None \<and>
   fst (Get 1500 1700 ''b'' (Set 600 ''a'' ''auth2''
     (snd (cache_run [Op_SetAliases 0 ''auth1'' [''a'', ''b'']] (NewSessionCacheWithCapacity 1000 65))))) = Some ''auth2''"
proof -
  note claim = session_binding_exact[of "''a''" "''auth2''" 65 "[Op_SetAliases 0 ''auth1'' [''a'', ''b'']]" 1000 600 "''b''"]
  have "fst (Get 600 600 ''a'' (snd (cache_run [Op_SetAliases 0 ''auth1'' [''a'', ''b'']] (NewSessionCacheWithCapacity 1000 65)))) \<noteq> None"
    "map_of (sc_entries (snd (cache_run [Op_SetAliases 0 ''auth1'' [''a'', ''b'']] (NewSessionCacheWithCapacity 1000 65)))) ''b'' =
     map_of (sc_entries (snd (cache_run [Op_SetAliases 0 ''auth1'' [''a'', ''b'']] (NewSessionCacheWithCapacity 1000 65)))) ''a''"
    "sc_ttl (snd (cache_run [Op_SetAliases 0 ''auth1'' [''a'', ''b'']] (NewSessionCacheWithCapacity 1000 65))) = 1000"
    by code_simp+
  then show ?thesis
    using claim[of 1600 1700] claim[of 1500 1700] by (simp add: Let_def)
qed

end
