(* ===== verification/Json.thy ===== *)
theory Json
  imports Prelude "HOL-Library.Monad_Syntax"
begin

text \<open>
  \<open>json.Valid\<close> of package \<open>encoding/json\<close>, which the classification of upstream errors asks before
  it looks into a body: the grammar of RFC 8259 over bytes, at most 10000 levels of nesting, and
  nothing but white space after the value. A scanner takes the text that is left and returns what
  follows the item it accepts. The mutual recursion is bounded by fuel; three calls consume at least
  one byte, so three times the length of the text and one is enough (\<open>json_fuel\<close>).
\<close>

definition json_ws :: "char \<Rightarrow> bool" where
  "json_ws c \<longleftrightarrow> c = CHR 0x20 \<or> c = CHR 0x09 \<or> c = CHR 0x0A \<or> c = CHR 0x0D"

abbreviation skip_ws :: "string \<Rightarrow> string" where
  "skip_ws s \<equiv> dropWhile json_ws s"

definition hex_digit :: "char \<Rightarrow> bool" where
  "hex_digit c = (let n = (of_char c :: nat) in (48 \<le> n \<and> n \<le> 57) \<or> (65 \<le> n \<and> n \<le> 70) \<or> (97 \<le> n \<and> n \<le> 102))"

text \<open>The rest of a string literal after its opening quote.\<close>

fun json_string :: "string \<Rightarrow> string option" where
  "json_string [] = None"
| "json_string (c # s) =
     (if c = CHR 0x22 then Some s
      else if (of_char c :: nat) < 32 then None
      else if c \<noteq> CHR 0x5C then json_string s
      else case s of
             [] \<Rightarrow> None
           | e # s1 \<Rightarrow>
               if e \<in> set ''bfnrt'' \<or> e = CHR 0x22 \<or> e = CHR 0x5C \<or> e = CHR ''/'' then json_string s1
               else if e = CHR ''u''
               then (case s1 of
                       h1 # h2 # h3 # h4 # s2 \<Rightarrow>
                         if hex_digit h1 \<and> hex_digit h2 \<and> hex_digit h3 \<and> hex_digit h4
                         then json_string s2 else None
                     | _ \<Rightarrow> None)
               else None)"

definition is_digit :: "char \<Rightarrow> bool" where
  "is_digit c = (digit_value c \<noteq> None)"

definition json_digits :: "string \<Rightarrow> string option" where
  "json_digits s = (case s of c # r \<Rightarrow> if is_digit c then Some (dropWhile is_digit r) else None | [] \<Rightarrow> None)"

definition json_integer :: "string \<Rightarrow> string option" where
  "json_integer s = (case s of c # r \<Rightarrow> if c = CHR ''0'' then Some r else json_digits s | [] \<Rightarrow> None)"

definition json_fraction :: "string \<Rightarrow> string option" where
  "json_fraction s = (case s of c # r \<Rightarrow> if c = CHR ''.'' then json_digits r else Some s | [] \<Rightarrow> Some s)"

definition json_exponent :: "string \<Rightarrow> string option" where
  "json_exponent s =
     (case s of
        c # r \<Rightarrow>
          if c = CHR ''e'' \<or> c = CHR ''E''
          then (case r of d # r1 \<Rightarrow> json_digits (if d = CHR ''+'' \<or> d = CHR ''-'' then r1 else r) | [] \<Rightarrow> None)
          else Some s
      | [] \<Rightarrow> Some s)"

definition json_number :: "string \<Rightarrow> string option" where
  "json_number s =
     (let s1 = (case s of c # r \<Rightarrow> if c = CHR ''-'' then r else s | [] \<Rightarrow> s)
      in Option.bind (Option.bind (json_integer s1) json_fraction) json_exponent)"

definition json_literal :: "string \<Rightarrow> string \<Rightarrow> string option" where
  "json_literal w s = (if HasPrefix s w then Some (drop (length w) s) else None)"

definition maxNestingDepth :: nat where "maxNestingDepth = 10000"

text \<open>The next byte that is not white space, and what follows it.\<close>

definition next_char :: "string \<Rightarrow> (char \<times> string) option" where
  "next_char s = (case skip_ws s of [] \<Rightarrow> None | c # r \<Rightarrow> Some (c, r))"

datatype json_item = Value | Object | Members | Array | Elements

definition json_step ::
  "(json_item \<Rightarrow> nat \<Rightarrow> string \<Rightarrow> string option) \<Rightarrow> json_item \<Rightarrow> nat \<Rightarrow> string \<Rightarrow> string option" where
  "json_step scan item depth s =
     (case item of
        Value \<Rightarrow> do {
          (c, r) \<leftarrow> next_char s;
          if c = CHR 0x22 then json_string r
          else if c = CHR ''{'' then scan Object depth r
          else if c = CHR ''['' then scan Array depth r
          else if c = CHR ''t'' then json_literal ''rue'' r
          else if c = CHR ''f'' then json_literal ''alse'' r
          else if c = CHR ''n'' then json_literal ''ull'' r
          else json_number (c # r)
        }
      | Object \<Rightarrow>
          if depth \<ge> maxNestingDepth then None
          else do {
            (c, r) \<leftarrow> next_char s;
            if c = CHR ''}'' then Some r else scan Members (depth + 1) s
          }
      | Members \<Rightarrow> do {
          (c, r1) \<leftarrow> next_char s;
          r2 \<leftarrow> (if c = CHR 0x22 then json_string r1 else None);
          (d, r3) \<leftarrow> next_char r2;
          r4 \<leftarrow> (if d = CHR '':'' then scan Value depth r3 else None);
          (e, r5) \<leftarrow> next_char r4;
          if e = CHR ''}'' then Some r5 else if e = CHR '','' then scan Members depth r5 else None
        }
      | Array \<Rightarrow>
          if depth \<ge> maxNestingDepth then None
          else do {
            (c, r) \<leftarrow> next_char s;
            if c = CHR '']'' then Some r else scan Elements (depth + 1) s
          }
      | Elements \<Rightarrow> do {
          r1 \<leftarrow> scan Value depth s;
          (c, r2) \<leftarrow> next_char r1;
          if c = CHR '']'' then Some r2 else if c = CHR '','' then scan Elements depth r2 else None
        })"

primrec json_scan :: "nat \<Rightarrow> json_item \<Rightarrow> nat \<Rightarrow> string \<Rightarrow> string option" where
  "json_scan 0 = (\<lambda>item depth s. None)"
| "json_scan (Suc fuel) = json_step (json_scan fuel)"

definition json_Valid :: "string \<Rightarrow> bool" where
  "json_Valid s \<longleftrightarrow>
     (case json_scan (3 * length s + 1) Value 0 s of None \<Rightarrow> False | Some rest \<Rightarrow> skip_ws rest = [])"

section \<open>Fuel\<close>

lemma json_string_shorter: "json_string s = Some r \<Longrightarrow> length r < length s"
proof (induction s arbitrary: r rule: json_string.induct)
  case (2 c s)
  then show ?case by (fastforce split: if_splits list.splits)
qed simp

lemma dropWhile_shorter: "length (dropWhile P s) \<le> length s"
  by (rule length_dropWhile_le)

lemma json_digits_shorter: "json_digits s = Some r \<Longrightarrow> length r < length s"
  using dropWhile_shorter[of is_digit "tl s"] by (auto simp: json_digits_def split: list.splits if_splits)

lemma json_number_shorter:
  assumes "json_number s = Some r"
  shows "length r < length s"
proof -
  let ?s1 = "case s of c # r \<Rightarrow> if c = CHR ''-'' then r else s | [] \<Rightarrow> s"
  obtain a b where a: "json_integer ?s1 = Some a" "json_fraction a = Some b" "json_exponent b = Some r"
    using assms by (auto simp: json_number_def bind_eq_Some_conv)
  have "length ?s1 \<le> length s" by (auto split: list.split)
  moreover have "length a < length ?s1"
    using a(1) json_digits_shorter[of ?s1 a] unfolding json_integer_def by (auto split: list.splits if_splits)
  moreover have "length b \<le> length a"
    using a(2) json_digits_shorter[of "tl a" b] by (auto simp: json_fraction_def split: list.splits if_splits)
  moreover have "length r \<le> length b"
    using a(3) json_digits_shorter[of _ r] by (fastforce simp: json_exponent_def split: list.splits if_splits)
  ultimately show ?thesis by linarith
qed

lemma next_char_shorter: "next_char s = Some (c, r) \<Longrightarrow> length r < length s"
  using dropWhile_shorter[of json_ws s] by (auto simp: next_char_def split: list.splits)

lemma json_literal_shorter: "json_literal w s = Some r \<Longrightarrow> length r \<le> length s"
  by (auto simp: json_literal_def split: if_splits)

lemmas json_lengths = next_char_shorter json_string_shorter json_literal_shorter

lemma json_step_shorter:
  assumes shorter: "\<And>item depth s r. scan item depth s = Some r \<Longrightarrow> length r < length s"
    and step: "json_step scan item depth s = Some r"
  shows "length r < length s"
proof (cases item)
  case Value
  with step obtain c r1 where c: "next_char s = Some (c, r1)"
    by (auto simp: json_step_def bind_eq_Some_conv)
  have "length r \<le> length r1"
    using step Value c shorter[of _ depth r1 r] json_string_shorter[of r1 r]
      json_literal_shorter[of _ r1 r] json_number_shorter[of "c # r1" r]
    by (auto simp: json_step_def split: if_splits dest: less_imp_le)
  with next_char_shorter[OF c] show ?thesis by simp
next
  case Object
  then show ?thesis
    using step shorter by (auto simp: json_step_def bind_eq_Some_conv split: if_splits dest: next_char_shorter)
next
  case Members
  then obtain c r1 r2 d r3 r4 e r5 where
    "next_char s = Some (c, r1)" "json_string r1 = Some r2" "next_char r2 = Some (d, r3)"
    "scan Value depth r3 = Some r4" "next_char r4 = Some (e, r5)"
    "r = r5 \<or> scan Members depth r5 = Some r"
    using step by (auto simp: json_step_def bind_eq_Some_conv split: if_splits)
  then show ?thesis
    using json_lengths(1)[of s c r1] json_lengths(2)[of r1 r2] json_lengths(1)[of r2 d r3] shorter[of Value depth r3 r4]
      json_lengths(1)[of r4 e r5] shorter[of Members depth r5 r]
    by auto
next
  case Array
  then show ?thesis
    using step shorter by (auto simp: json_step_def bind_eq_Some_conv split: if_splits dest: next_char_shorter)
next
  case Elements
  then obtain r1 c r2 where
    "scan Value depth s = Some r1" "next_char r1 = Some (c, r2)" "r = r2 \<or> scan Elements depth r2 = Some r"
    using step by (auto simp: json_step_def bind_eq_Some_conv split: if_splits)
  then show ?thesis
    using json_lengths(1)[of r1 c r2] shorter[of Value depth s r1] shorter[of Elements depth r2 r] by auto
qed

lemma json_shorter: "json_scan fuel item depth s = Some r \<Longrightarrow> length r < length s"
proof (induction fuel arbitrary: item depth s r)
  case (Suc fuel)
  then show ?case
    using json_step_shorter[of "json_scan fuel"] by simp
qed simp

text \<open>Fuel is measured by the calls that may precede the next byte.\<close>

fun json_need :: "json_item \<Rightarrow> nat" where
  "json_need Value = 1"
| "json_need Object = 3"
| "json_need Members = 2"
| "json_need Array = 3"
| "json_need Elements = 2"

lemma json_step_cong:
  assumes shorter: "\<And>item depth s r. scan item depth s = Some r \<Longrightarrow> length r < length s"
    and agree: "\<And>it d r. 3 * length r + json_need it < 3 * length s + json_need item \<Longrightarrow> scan it d r = scan' it d r"
  shows "json_step scan item depth s = json_step scan' item depth s"
proof (cases item)
  case Value
  have "scan it depth r = scan' it depth r" if "next_char s = Some (c, r)" for it c r
  proof (rule agree)
    have "json_need it \<le> 3" by (cases it) auto
    then show "3 * length r + json_need it < 3 * length s + json_need item"
      using next_char_shorter[OF that] Value by simp
  qed
  then show ?thesis
    unfolding json_step_def Value json_item.case by (intro bind_option_cong refl) auto
next
  case Object
  then show ?thesis
    using agree[of s Members] by (auto simp: json_step_def intro!: bind_option_cong)
next
  case Array
  then show ?thesis
    using agree[of s Elements] by (auto simp: json_step_def intro!: bind_option_cong)
next
  case Members
  have vals: "scan Value depth r3 = scan' Value depth r3"
    if "next_char s = Some (c, r1)" "json_string r1 = Some r2" "next_char r2 = Some (d, r3)" for c r1 r2 d r3
    using json_lengths(1)[OF that(1)] json_lengths(2)[OF that(2)] json_lengths(1)[OF that(3)] Members
    by (intro agree) simp
  have mems: "scan Members depth r5 = scan' Members depth r5"
    if "next_char s = Some (c, r1)" "json_string r1 = Some r2" "next_char r2 = Some (d, r3)"
      "scan' Value depth r3 = Some r4" "next_char r4 = Some (e, r5)" for c r1 r2 d r3 r4 e r5
    using json_lengths(1)[OF that(1)] json_lengths(2)[OF that(2)] json_lengths(1)[OF that(3)]
      shorter[of Value depth r3 r4] vals[OF that(1-3)] that(4) json_lengths(1)[OF that(5)] Members
    by (intro agree) simp
  show ?thesis
    unfolding json_step_def Members json_item.case
    using vals mems by (auto intro!: bind_option_cong split: if_splits)
next
  case Elements
  have val: "scan Value depth s = scan' Value depth s"
    using Elements by (intro agree) simp
  have "scan Elements depth r2 = scan' Elements depth r2"
    if "scan' Value depth s = Some r1" "next_char r1 = Some (c, r2)" for r1 c r2
    using shorter[of Value depth s r1] val that(1) json_lengths(1)[OF that(2)] Elements
    by (intro agree) simp
  then show ?thesis
    unfolding json_step_def Elements json_item.case val
    by (auto intro!: bind_option_cong split: if_splits)
qed

lemma json_fuel:
  "3 * length s + json_need item \<le> fuel \<Longrightarrow> fuel \<le> fuel' \<Longrightarrow>
   json_scan fuel' item depth s = json_scan fuel item depth s"
proof (induction fuel arbitrary: fuel' item depth s)
  case 0
  then show ?case by (cases item) auto
next
  case (Suc fuel)
  then obtain k where k: "fuel' = Suc k" "fuel \<le> k" by (cases fuel') auto
  have "json_step (json_scan fuel) item depth s = json_step (json_scan k) item depth s"
    using Suc.IH[of _ _ k] Suc.prems(1) k(2)
    by (intro json_step_cong) (auto dest: json_shorter simp del: json_scan.simps)
  then show ?case
    using k by simp
qed

end
