(* ===== verification/Failures.thy ===== *)
theory Failures
  imports Json Auth
begin

text \<open>
  How upstream failures are classified: \<open>internal/clienterror/client_error.go\<close>, \<open>errors.go\<close>, the
  predicates of \<open>conductor_cooldown.go\<close> and the rules of \<open>conductor_request_scoped_errors.go\<close>.

  An \<open>error\<close> is the list of the values \<open>errors.As\<close> visits, the error itself first; each value says
  which of the interfaces the code asks for it implements and what it answers. The empty list is
  \<open>nil\<close>. \<open>gjson_Get body path\<close> is the text of package gjson's result, and \<open>regexp_match pattern text\<close>
  says that a pattern compiles and matches; both are parameters. The identification of "model not
  found" bodies is not modelled.
\<close>

section \<open>Errors\<close>

datatype sentinel = Canceled | DeadlineExceeded | EOF | ErrUnexpectedEOF

record error_node =
  en_text :: string
  en_StatusCode :: "int option"
  en_Error :: "Error option"
  en_IsRequestScoped :: "bool option"
  en_IsRequestStop :: "bool option"
  en_IsCredentialScoped :: "bool option"
  en_RetryAfter :: "duration option option"
  en_ResponseBody :: "string option"
  en_sentinel :: "sentinel option"
  en_closeCode :: "int option"

type_synonym go_error = "error_node list"

definition errors_As :: "(error_node \<Rightarrow> 'a option) \<Rightarrow> go_error \<Rightarrow> 'a option" where
  "errors_As f err = (case List.map_filter f err of [] \<Rightarrow> None | x # _ \<Rightarrow> Some x)"

definition errors_Is :: "go_error \<Rightarrow> sentinel \<Rightarrow> bool" where
  "errors_Is err target \<longleftrightarrow> Some target \<in> set (map en_sentinel err)"

definition errorString :: "go_error \<Rightarrow> string" where
  "errorString err = (case err of [] \<Rightarrow> [] | e # _ \<Rightarrow> en_text e)"

definition plain_error :: "string \<Rightarrow> go_error" where
  "plain_error text =
     [\<lparr>en_text = text, en_StatusCode = None, en_Error = None, en_IsRequestScoped = None, en_IsRequestStop = None,
       en_IsCredentialScoped = None, en_RetryAfter = None, en_ResponseBody = None, en_sentinel = None,
       en_closeCode = None\<rparr>]"

definition ErrorCodeRequestScoped :: string where "ErrorCodeRequestScoped = ''request_scoped''"
definition ErrorCodeConnectionLifecycle :: string where "ErrorCodeConnectionLifecycle = ''connection_lifecycle''"
definition ErrorCodeForceCooldown :: string where "ErrorCodeForceCooldown = ''force_cooldown''"

definition Error_Error :: "Error \<Rightarrow> string" where
  "Error_Error e = (if err_Code e = [] then err_Message e else err_Code e @ '': '' @ err_Message e)"

definition Error_IsRequestScoped :: "Error \<Rightarrow> bool" where
  "Error_IsRequestScoped e \<longleftrightarrow> err_Code e = ErrorCodeRequestScoped"

text \<open>An \<open>*Error\<close> as an \<open>error\<close>.\<close>

definition auth_error :: "Error \<Rightarrow> go_error" where
  "auth_error e =
     [\<lparr>en_text = Error_Error e, en_StatusCode = Some (err_HTTPStatus e), en_Error = Some e,
       en_IsRequestScoped = Some (Error_IsRequestScoped e), en_IsRequestStop = None, en_IsCredentialScoped = None,
       en_RetryAfter = None, en_ResponseBody = None, en_sentinel = None, en_closeCode = None\<rparr>]"

definition statusCodeFromError :: "go_error \<Rightarrow> int" where
  "statusCodeFromError err = (case errors_As en_StatusCode err of None \<Rightarrow> 0 | Some code \<Rightarrow> code)"

definition statusCodeFromResult :: "Error option \<Rightarrow> int" where
  "statusCodeFromResult eo = (case eo of None \<Rightarrow> 0 | Some e \<Rightarrow> err_HTTPStatus e)"

definition isRequestScopedError :: "go_error \<Rightarrow> bool" where
  "isRequestScopedError err \<longleftrightarrow> errors_As en_IsRequestScoped err = Some True"

definition isCredentialScopedError :: "go_error \<Rightarrow> bool" where
  "isCredentialScopedError err \<longleftrightarrow> errors_As en_IsCredentialScoped err = Some True"

definition isRequestStopError :: "go_error \<Rightarrow> bool" where
  "isRequestStopError err \<longleftrightarrow> errors_As en_IsRequestStop err = Some True"

definition retryAfterFromError :: "go_error \<Rightarrow> duration option" where
  "retryAfterFromError err = (case errors_As en_RetryAfter err of None \<Rightarrow> None | Some retryAfter \<Rightarrow> retryAfter)"

section \<open>Request faults\<close>

definition HTTPStatusFromError :: "go_error \<Rightarrow> int" where
  "HTTPStatusFromError err =
     (case errors_As en_StatusCode err of
        Some code \<Rightarrow> if code > 0 then code
                     else if errors_Is err Canceled then 499 else if errors_Is err DeadlineExceeded then 504 else 0
      | None \<Rightarrow> if errors_Is err Canceled then 499 else if errors_Is err DeadlineExceeded then 504 else 0)"

definition HTTPStatusFromErrorOr :: "go_error \<Rightarrow> int \<Rightarrow> int" where
  "HTTPStatusFromErrorOr err fallback =
     (let code = HTTPStatusFromError err in if code > 0 then code else fallback)"

definition requestFaultCodes :: "string list" where
  "requestFaultCodes =
     [''cyber_policy'', ''context_length_exceeded'', ''message_too_big'', ''string_above_max_length'',
      ''invalid_prompt'', ''invalid_value'', ''unsupported_value'', ''invalid_request_error'',
      ''previous_response_not_found'']"

definition requestFaultTypes :: "string list" where
  "requestFaultTypes = [''invalid_request'', ''invalid_request_error'', ''bad_request_error'', ''invalid_prompt'']"

definition IsItemNotPersisted :: "string \<Rightarrow> bool" where
  "IsItemNotPersisted message \<longleftrightarrow>
     (let lower = ToLower message
      in Contains lower ''item with id'' \<and> Contains lower ''not found'' \<and>
         Contains lower (''items are not persisted when '' @ [CHR 0x60] @ ''store'' @ [CHR 0x60] @ '' is set to false''))"

definition hasAuthenticationErrorBody :: "(string \<Rightarrow> string \<Rightarrow> string) \<Rightarrow> go_error \<Rightarrow> bool" where
  "hasAuthenticationErrorBody gjson_Get err =
     (if err = [] then False
      else let body = TrimSpace (errorString err)
           in if body = [] \<or> \<not> json_Valid body then False
              else list_ex (\<lambda>path. ToLower (TrimSpace (gjson_Get body path)) = ''authentication_error'')
                     [''error.type'', ''type'', ''response.error.type'', ''body.error.type''])"

definition hasRequestFaultBody :: "(string \<Rightarrow> string \<Rightarrow> string) \<Rightarrow> go_error \<Rightarrow> bool" where
  "hasRequestFaultBody gjson_Get err =
     (if err = [] then False
      else let body = TrimSpace (errorString err)
           in if body = [] \<or> \<not> json_Valid body then False
              else list_ex (\<lambda>path. ToLower (TrimSpace (gjson_Get body path)) \<in> set requestFaultCodes)
                     [''error.code'', ''code'', ''response.error.code'', ''body.error.code''] \<or>
                   list_ex (\<lambda>path. ToLower (TrimSpace (gjson_Get body path)) \<in> set requestFaultTypes)
                     [''error.type'', ''type'', ''response.error.type'', ''body.error.type''])"

definition IsRequestFault :: "(string \<Rightarrow> string \<Rightarrow> string) \<Rightarrow> int \<Rightarrow> go_error \<Rightarrow> bool" where
  "IsRequestFault gjson_Get status0 err =
     (let status = (if status0 \<le> 0 \<and> err \<noteq> []
                    then (case errors_As en_StatusCode err of None \<Rightarrow> status0 | Some code \<Rightarrow> code) else status0)
      in if status = 402 \<or> status = 429 then False
         else if status = 401 \<and> hasAuthenticationErrorBody gjson_Get err then False
         else if hasRequestFaultBody gjson_Get err then True
         else if err \<noteq> [] \<and> IsItemNotPersisted (errorString err) then True
         else status \<in> {400, 409, 413, 422})"

definition IsClientCancellation :: "int \<Rightarrow> go_error \<Rightarrow> bool" where
  "IsClientCancellation status err =
     (if status = 499 then True
      else if err = [] then False
      else if errors_Is err Canceled then True
      else if errors_As en_StatusCode err = Some 499 then True
      else let lower = ToLower (errorString err)
           in Contains lower ''context canceled'' \<or> Contains lower ''client closed request'')"

section \<open>Kinds of failures\<close>

definition isModelSupportErrorMessage :: "string \<Rightarrow> bool" where
  "isModelSupportErrorMessage message =
     (let lower = ToLower (TrimSpace message)
      in if lower = [] then False
         else list_ex (Contains lower)
           [''model_not_supported'', ''requested model is not supported'', ''requested model is unsupported'',
            ''requested model is unavailable'', ''model is not supported'', ''model not supported'',
            ''unsupported model'', ''model unavailable'', ''not available for your plan'',
            ''not available for your account''])"

definition isModelSupportError :: "go_error \<Rightarrow> bool" where
  "isModelSupportError err =
     (if err = [] then False
      else let status = statusCodeFromError err
           in if status \<noteq> 400 \<and> status \<noteq> 422 then False else isModelSupportErrorMessage (errorString err))"

definition isModelSupportResultError :: "Error option \<Rightarrow> bool" where
  "isModelSupportResultError eo =
     (case eo of
        None \<Rightarrow> False
      | Some e \<Rightarrow> let status = statusCodeFromResult eo
                  in if status \<noteq> 400 \<and> status \<noteq> 422 then False else isModelSupportErrorMessage (err_Message e))"

definition isInvalidGrantErrorMessage :: "string \<Rightarrow> bool" where
  "isInvalidGrantErrorMessage message \<longleftrightarrow> Contains (ToLower message) ''invalid_grant''"

definition isInvalidGrantError :: "go_error \<Rightarrow> bool" where
  "isInvalidGrantError err =
     (if err = [] then False
      else let status = statusCodeFromError err
           in if status \<noteq> 400 \<and> status \<noteq> 401 then False else isInvalidGrantErrorMessage (errorString err))"

definition isInvalidGrantResultError :: "Error option \<Rightarrow> bool" where
  "isInvalidGrantResultError eo =
     (case eo of
        None \<Rightarrow> False
      | Some e \<Rightarrow> let status = statusCodeFromResult eo
                  in if status \<noteq> 400 \<and> status \<noteq> 401 then False
                     else isInvalidGrantErrorMessage (err_Code e) \<or> isInvalidGrantErrorMessage (err_Message e))"

definition isCloudflareChallengeErrorMessage :: "string \<Rightarrow> bool" where
  "isCloudflareChallengeErrorMessage message \<longleftrightarrow>
     (let lower = ToLower (TrimSpace message)
      in Contains lower ''challenge-platform'' \<or> Contains lower ''cf-mitigated'' \<or>
         Contains lower ''cloudflare challenge'' \<or>
         (Contains lower ''cloudflare'' \<and> Contains lower ''<html''))"

definition isCloudflareChallengeError :: "go_error \<Rightarrow> bool" where
  "isCloudflareChallengeError err = (if err = [] then False else isCloudflareChallengeErrorMessage (errorString err))"

definition isCloudflareChallengeResultError :: "Error option \<Rightarrow> bool" where
  "isCloudflareChallengeResultError eo =
     (case eo of None \<Rightarrow> False | Some e \<Rightarrow> isCloudflareChallengeErrorMessage (err_Message e))"

definition isRequestInvalidError :: "(string \<Rightarrow> string \<Rightarrow> string) \<Rightarrow> go_error \<Rightarrow> bool" where
  "isRequestInvalidError gjson_Get err =
     (if err = [] then False
      else if isRequestScopedError err then True
      else if isCloudflareChallengeError err then False
      else if isInvalidGrantError err then False
      else if isModelSupportError err then False
      else let status = statusCodeFromError err
           in if IsRequestFault gjson_Get status err then True
              else (case errors_As en_Error err of
                      None \<Rightarrow> False
                    | Some e \<Rightarrow> err_Message e \<noteq> [] \<and> IsRequestFault gjson_Get status (plain_error (err_Message e))))"

definition isRequestScopedNotFoundResultError :: "Error option \<Rightarrow> bool" where
  "isRequestScopedNotFoundResultError eo =
     (case eo of
        None \<Rightarrow> False
      | Some e \<Rightarrow> if statusCodeFromResult eo \<noteq> 404 then False else IsItemNotPersisted (err_Message e))"

definition isRequestScopedResultError :: "(string \<Rightarrow> string \<Rightarrow> string) \<Rightarrow> Error option \<Rightarrow> bool" where
  "isRequestScopedResultError gjson_Get eo =
     (case eo of
        None \<Rightarrow> False
      | Some e \<Rightarrow> if Error_IsRequestScoped e \<or> isRequestScopedNotFoundResultError eo then True
                  else isRequestInvalidError gjson_Get (auth_error e))"

definition isConnectionLifecycleMessage :: "string \<Rightarrow> bool" where
  "isConnectionLifecycleMessage message =
     (let lower = ToLower (TrimSpace message)
      in if lower = [] then False
         else if lower \<in> {''context canceled'', ''context deadline exceeded'', ''eof'', ''unexpected eof''} then True
         else if Contains lower ''websocket: close 1000'' \<or> Contains lower ''websocket: close 1001'' \<or>
                 Contains lower ''websocket: close 1006'' then True
         else Contains lower ''unexpected eof'')"

definition isConnectionLifecycleError :: "go_error \<Rightarrow> bool" where
  "isConnectionLifecycleError err =
     (if err = [] then False
      else if (case errors_As en_closeCode err of None \<Rightarrow> False | Some code \<Rightarrow> code \<in> {1000, 1001, 1006}) then True
      else if statusCodeFromError err \<noteq> 0 then False
      else if errors_Is err Canceled \<or> errors_Is err DeadlineExceeded \<or> errors_Is err EOF \<or>
              errors_Is err ErrUnexpectedEOF then True
      else isConnectionLifecycleMessage (errorString err))"

definition isConnectionLifecycleResultError :: "Error option \<Rightarrow> bool" where
  "isConnectionLifecycleResultError eo =
     (case eo of
        None \<Rightarrow> False
      | Some e \<Rightarrow> if err_Code e = ErrorCodeConnectionLifecycle then True
                  else if statusCodeFromResult eo \<noteq> 0 then False
                  else isConnectionLifecycleMessage (err_Message e))"

definition shouldSkipCredentialCooldown :: "(string \<Rightarrow> string \<Rightarrow> string) \<Rightarrow> Error option \<Rightarrow> bool" where
  "shouldSkipCredentialCooldown gjson_Get eo =
     (if eo \<noteq> None \<and> err_Code (the eo) = ErrorCodeForceCooldown then False
      else isRequestScopedResultError gjson_Get eo \<or> isConnectionLifecycleResultError eo)"

definition resultErrorFromError :: "(string \<Rightarrow> string \<Rightarrow> string) \<Rightarrow> go_error \<Rightarrow> Error option" where
  "resultErrorFromError gjson_Get err =
     (if err = [] then None
      else let resultErr0 = (case errors_As en_Error err of
                               Some sourceErr \<Rightarrow> sourceErr
                             | None \<Rightarrow> \<lparr>err_Code = [], err_Message = errorString err, err_Retryable = False,
                                       err_HTTPStatus = 0\<rparr>);
               resultErr = (if err_HTTPStatus resultErr0 = 0
                            then resultErr0\<lparr>err_HTTPStatus := statusCodeFromError err\<rparr> else resultErr0)
           in Some (if isRequestScopedError err \<or> isRequestInvalidError gjson_Get err
                    then resultErr\<lparr>err_Code := ErrorCodeRequestScoped\<rparr>
                    else if isConnectionLifecycleError err
                    then (if err_Code resultErr = [] \<or> err_Code resultErr = ErrorCodeConnectionLifecycle
                          then resultErr\<lparr>err_Code := ErrorCodeConnectionLifecycle\<rparr> else resultErr)
                    else resultErr))"

definition isUnauthorizedError :: "go_error \<Rightarrow> bool" where
  "isUnauthorizedError err =
     (if err = [] then False
      else if statusCodeFromError err = 401 then True
      else let raw = ToLower (errorString err) in Contains raw ''status 401'' \<or> Contains raw ''401 unauthorized'')"

definition hasUnauthorizedAuthFailure :: "auth \<Rightarrow> bool" where
  "hasUnauthorizedAuthFailure a =
     (case auth_LastError a of
        None \<Rightarrow> False
      | Some e \<Rightarrow> err_HTTPStatus e = 401 \<or> EqualFold (err_Code e) ''unauthorized'')"

definition refreshErrorFromError :: "go_error \<Rightarrow> Error option" where
  "refreshErrorFromError err =
     (if err = [] then None
      else let statusCode = (if statusCodeFromError err = 0 \<and> isUnauthorizedError err then 401
                             else statusCodeFromError err)
           in Some \<lparr>err_Code = (if statusCode = 401 then ''unauthorized'' else []), err_Message = errorString err,
                    err_Retryable = False, err_HTTPStatus = statusCode\<rparr>)"

section \<open>Compaction requests\<close>

definition isResponsesCompactRequest :: "string \<Rightarrow> bool" where
  "isResponsesCompactRequest alt \<longleftrightarrow> alt = ''responses/compact''"

definition isResponsesCompactRequestFaultError :: "(string \<Rightarrow> string \<Rightarrow> string) \<Rightarrow> string \<Rightarrow> go_error \<Rightarrow> bool" where
  "isResponsesCompactRequestFaultError gjson_Get alt err =
     (if \<not> isResponsesCompactRequest alt \<or> err = [] then False
      else if isCredentialScopedError err \<or> isCloudflareChallengeError err \<or> isInvalidGrantError err then False
      else let status = statusCodeFromError err
           in if IsRequestFault gjson_Get status err then True else status \<in> {400, 404, 405, 409, 413, 422, 501})"

definition isResponsesCompactAvailabilityNeutralError :: "string \<Rightarrow> go_error \<Rightarrow> Error option \<Rightarrow> bool" where
  "isResponsesCompactAvailabilityNeutralError alt err resultErr =
     (if \<not> isResponsesCompactRequest alt then False
      else if (case resultErr of None \<Rightarrow> False | Some e \<Rightarrow> err_Code e = ErrorCodeForceCooldown) then False
      else if isCredentialScopedError err \<or> isCloudflareChallengeError err \<or> isInvalidGrantError err then False
      else if resultErr \<noteq> None \<and> (isCloudflareChallengeResultError resultErr \<or> isInvalidGrantResultError resultErr)
      then False
      else let status0 = statusCodeFromError err;
               status = (if status0 = 0 \<and> resultErr \<noteq> None then statusCodeFromResult resultErr else status0)
           in \<not> (status \<in> {401, 402, 403, 429}))"

section \<open>Configured rules\<close>

record RequestScopedErrorRule =
  rule_Status :: int
  rule_Match :: "string list"
  rule_MatchRegexr :: "string list"
  rule_Action :: string

definition request_scoped_actions :: "string list" where
  "request_scoped_actions = [''stop'', ''stop-and-cooldown'', ''continue'', ''continue-and-cooldown'']"

definition extractErrorBody :: "go_error \<Rightarrow> string" where
  "extractErrorBody err =
     (case errors_As en_ResponseBody err of
        Some (b # bs) \<Rightarrow> b # bs
      | _ \<Rightarrow> (case errors_As en_Error err of
               Some e \<Rightarrow> if err_Message e \<noteq> [] then err_Message e else errorString err
             | None \<Rightarrow> errorString err))"

definition rule_matches :: "(string \<Rightarrow> string \<Rightarrow> bool) \<Rightarrow> int \<Rightarrow> string \<Rightarrow> RequestScopedErrorRule \<Rightarrow> bool" where
  "rule_matches regexp_match statusCode body rule \<longleftrightarrow>
     0 < rule_Status rule \<and> rule_Status rule = statusCode \<and>
     (list_ex (\<lambda>substr. substr \<noteq> [] \<and> Contains body substr) (rule_Match rule) \<or>
      list_ex (\<lambda>pattern. pattern \<noteq> [] \<and> regexp_match pattern body) (rule_MatchRegexr rule))"

text \<open>The rules are those configured for the credential. \<open>None\<close> is the answer that no rule matches.\<close>

definition matchRequestScopedErrorAction ::
  "(string \<Rightarrow> string \<Rightarrow> bool) \<Rightarrow> RequestScopedErrorRule list \<Rightarrow> go_error \<Rightarrow> string option" where
  "matchRequestScopedErrorAction regexp_match rules err =
     (if err = [] then None
      else map_option (\<lambda>rule. ToLower (TrimSpace (rule_Action rule)))
             (find (\<lambda>rule. rule_matches regexp_match (statusCodeFromError err) (extractErrorBody err) rule \<and>
                           ToLower (TrimSpace (rule_Action rule)) \<in> set request_scoped_actions) rules))"

definition applyRequestScopedActionToResult :: "string option \<Rightarrow> Error option \<Rightarrow> Error option" where
  "applyRequestScopedActionToResult action eo =
     (case (action, eo) of
        (Some a, Some e) \<Rightarrow>
          if a = ''stop'' \<or> a = ''continue'' then Some (e\<lparr>err_Code := ErrorCodeRequestScoped\<rparr>)
          else if a = ''stop-and-cooldown'' \<or> a = ''continue-and-cooldown''
          then Some (e\<lparr>err_Code := ErrorCodeForceCooldown\<rparr>) else eo
      | _ \<Rightarrow> eo)"

definition isRequestScopedStop :: "string option \<Rightarrow> bool" where
  "isRequestScopedStop action \<longleftrightarrow> action = Some ''stop'' \<or> action = Some ''stop-and-cooldown''"

end
