(* ===== verification/Cooldown.thy ===== *)
theory Cooldown
  imports Failures Availability Scheduler
begin

text \<open>
  The cooldown state machine, \<open>sdk/aps/auth/conductor_cooldown.go\<close>: the backoff ladder, the record of
  a model of a credential, the availability aggregated from those records, and \<open>MarkResult\<close>, which
  turns the result of a request into the next state of a credential and of the scheduler.

  A pointer to a model state is the key of its entry, so two keys never share a state. Persisting,
  hooks, events, session affinity and the projections into the model registry come after the modelled
  state change and do not touch it.
\<close>

section \<open>Configuration\<close>

record OpenAICompatibility =
  oc_Name :: string
  oc_Disabled :: bool
  oc_DisableCooling :: "bool option"

record Config =
  cfg_HomeEnabled :: bool
  cfg_DisableCooling :: bool
  cfg_OpenAICompatibility :: "OpenAICompatibility list"

text \<open>
  What \<open>MarkResult\<close> reads besides the credential: the configuration, the two process-wide settings,
  the resolution of a route model to the key of its state, and package gjson.
\<close>

record cooldown_env =
  ce_cfg :: "Config option"
  ce_quotaCooldownDisabled :: bool
  ce_transientErrorCooldownSeconds :: int
  ce_selectionModelKey :: "auth \<Rightarrow> string \<Rightarrow> string"
  ce_gjson_Get :: "string \<Rightarrow> string \<Rightarrow> string"

definition parseBoolAny :: "go_value \<Rightarrow> bool option" where
  "parseBoolAny val =
     (case val of
        GBool b \<Rightarrow> Some b
      | GString s \<Rightarrow> let trimmed = TrimSpace s in if trimmed = [] then None else ParseBool trimmed
      | GFloat f \<Rightarrow> Some (f \<noteq> FFin 0)
      | GNumber s \<Rightarrow> map_option (\<lambda>n. n \<noteq> 0) (ParseInt s)
      | _ \<Rightarrow> None)"

definition DisableCoolingOverride :: "auth \<Rightarrow> bool option" where
  "DisableCoolingOverride a =
     (case Option.bind (map_of (auth_Metadata a) ''disable_cooling'') parseBoolAny of
        Some b \<Rightarrow> Some b
      | None \<Rightarrow> Option.bind (map_of (auth_Metadata a) ''disable-cooling'') parseBoolAny)"

definition resolveOpenAICompatConfig ::
  "Config \<Rightarrow> string \<Rightarrow> string \<Rightarrow> string \<Rightarrow> OpenAICompatibility option" where
  "resolveOpenAICompatConfig cfg providerKey compatName authProvider =
     (let candidates = filter (\<lambda>v. v \<noteq> []) (map TrimSpace [compatName, providerKey, authProvider])
      in find (\<lambda>compat. \<not> oc_Disabled compat \<and>
                list_ex (\<lambda>candidate. candidate \<noteq> [] \<and> EqualFold (TrimSpace candidate) (oc_Name compat)) candidates)
           (cfg_OpenAICompatibility cfg))"

definition providerCoolingOverrideForAuth :: "auth \<Rightarrow> Config option \<Rightarrow> bool option" where
  "providerCoolingOverrideForAuth a cfgo =
     (case cfgo of
        None \<Rightarrow> None
      | Some cfg \<Rightarrow>
          let provider = ToLower (TrimSpace (auth_Provider a));
              providerKey = TrimSpace (authAttribute a ''provider_key'');
              compatName = TrimSpace (authAttribute a ''compat_name'')
          in if provider = [] then None
             else if providerKey = [] \<and> compatName = [] \<and> provider \<noteq> ''openai-compatibility'' then None
             else Option.bind (resolveOpenAICompatConfig cfg (if providerKey = [] then provider else providerKey)
                                 compatName provider) oc_DisableCooling)"

definition quotaCooldownDisabledForAuthWithConfig :: "cooldown_env \<Rightarrow> auth \<Rightarrow> bool" where
  "quotaCooldownDisabledForAuthWithConfig env a =
     (if ce_cfg env \<noteq> None \<and> cfg_HomeEnabled (the (ce_cfg env)) then True
      else case DisableCoolingOverride a of
             Some override \<Rightarrow> override
           | None \<Rightarrow>
               (case providerCoolingOverrideForAuth a (ce_cfg env) of
                  Some override \<Rightarrow> override
                | None \<Rightarrow> if ce_cfg env \<noteq> None \<and> cfg_DisableCooling (the (ce_cfg env)) then True
                          else ce_quotaCooldownDisabled env))"

section \<open>Deadlines and the backoff ladder\<close>

definition quotaBackoffBase :: duration where "quotaBackoffBase = Second"
definition quotaBackoffMax :: duration where "quotaBackoffMax = 30 * Minute"
definition transientErrorCooldown :: duration where "transientErrorCooldown = Minute"

definition nextTransientErrorRetryAfter :: "int \<Rightarrow> go_time \<Rightarrow> go_time" where
  "nextTransientErrorRetryAfter seconds now =
     (if seconds < 0 then 0
      else if seconds = 0 then now + transientErrorCooldown
      else now + int64 (seconds * Second))"

definition recoverableFailureRetryAfter :: "int \<Rightarrow> go_time \<Rightarrow> bool \<Rightarrow> go_time" where
  "recoverableFailureRetryAfter seconds now disableCooling =
     (if disableCooling then 0 else nextTransientErrorRetryAfter seconds now)"

text \<open>\<open>1 << prevLevel\<close> is an \<open>int64\<close> shift, and the product wraps.\<close>

definition shifted_one :: "int \<Rightarrow> int" where
  "shifted_one n = (if n \<ge> 64 then 0 else int64 (2 ^ nat n))"

definition nextQuotaCooldown :: "int \<Rightarrow> bool \<Rightarrow> duration \<times> int" where
  "nextQuotaCooldown prevLevel0 disableCooling =
     (let prevLevel = (if prevLevel0 < 0 then 0 else prevLevel0)
      in if disableCooling then (0, prevLevel)
         else let cooldown0 = int64 (quotaBackoffBase * shifted_one prevLevel);
                  cooldown = (if cooldown0 < quotaBackoffBase then quotaBackoffBase else cooldown0)
              in if cooldown \<ge> quotaBackoffMax then (quotaBackoffMax, prevLevel) else (cooldown, prevLevel + 1))"

definition quotaCooldownAfterFailure :: "QuotaState \<Rightarrow> go_time \<Rightarrow> go_time \<times> int" where
  "quotaCooldownAfterFailure quota now =
     (if q_NextRecoverAt quota > now then (q_NextRecoverAt quota, q_BackoffLevel quota)
      else let (cooldown, nextLevel) = nextQuotaCooldown (q_BackoffLevel quota) False
           in (if cooldown > 0 then now + cooldown else 0, nextLevel))"

definition nextCloudflareCooldown :: "int \<Rightarrow> bool \<Rightarrow> go_time \<Rightarrow> go_time \<times> int" where
  "nextCloudflareCooldown backoffLevel disableCooling now =
     (if disableCooling then (0, backoffLevel)
      else let (cooldown0, nextLevel) = nextQuotaCooldown backoffLevel disableCooling;
               cooldown = (if cooldown0 < 10 * Second then 10 * Second else cooldown0)
           in (if cooldown > 0 then now + cooldown else 0, nextLevel))"

section \<open>Model states\<close>

definition newModelState :: ModelState where
  "newModelState = \<lparr>ms_Status = StatusActive, ms_StatusMessage = [], ms_Unavailable = False, ms_NextRetryAfter = 0,
     ms_LastError = None, ms_Quota = emptyQuota, ms_UpdatedAt = 0\<rparr>"

definition existingModelState :: "auth \<Rightarrow> string \<Rightarrow> ModelState option" where
  "existingModelState a model0 =
     (let model = canonicalModelKey model0
      in if model = [] then None else map_get None (auth_ModelStates a) model)"

definition mergeModelState :: "ModelState option \<Rightarrow> ModelState option \<Rightarrow> ModelState option" where
  "mergeModelState target0 source0 =
     (case (target0, source0) of
        (None, _) \<Rightarrow> source0
      | (_, None) \<Rightarrow> target0
      | (Some target, Some source) \<Rightarrow>
          let swap = ms_UpdatedAt source > ms_UpdatedAt target;
              preferred = (if swap then source else target);
              fallback = (if swap then target else source);
              tq = ms_Quota target; sq = ms_Quota source;
              quota0 = \<lparr>q_Exceeded = (q_Exceeded tq \<or> q_Exceeded sq), q_Reason = q_Reason (ms_Quota preferred),
                        q_NextRecoverAt = q_NextRecoverAt tq, q_BackoffLevel = q_BackoffLevel tq,
                        q_ObservedAt = 0, q_Signals = []\<rparr>;
              quota1 = mergeQuotaObservation (mergeQuotaObservation quota0 (ms_Quota fallback)) (ms_Quota preferred);
              quota = quota1\<lparr>q_NextRecoverAt := max (q_NextRecoverAt tq) (q_NextRecoverAt sq),
                             q_BackoffLevel := max (q_BackoffLevel tq) (q_BackoffLevel sq),
                             q_Reason := (if q_Reason quota1 = [] then q_Reason (ms_Quota fallback)
                                          else q_Reason quota1)\<rparr>;
              unavailable = (ms_Unavailable target \<or> ms_Unavailable source)
          in Some \<lparr>ms_Status = (if ms_Status target = StatusDisabled \<or> ms_Status source = StatusDisabled
                                then StatusDisabled
                                else if unavailable \<or> q_Exceeded quota then StatusError
                                else ms_Status preferred),
                   ms_StatusMessage = (if ms_StatusMessage preferred = [] then ms_StatusMessage fallback
                                       else ms_StatusMessage preferred),
                   ms_Unavailable = unavailable,
                   ms_NextRetryAfter = max (ms_NextRetryAfter target) (ms_NextRetryAfter source),
                   ms_LastError = (if ms_LastError preferred = None then ms_LastError fallback
                                   else ms_LastError preferred),
                   ms_Quota = quota,
                   ms_UpdatedAt = max (ms_UpdatedAt target) (ms_UpdatedAt source)\<rparr>)"

definition normalizedKey :: "string \<Rightarrow> string" where
  "normalizedKey model = (let modelKey = canonicalModelKey model in if modelKey = [] then TrimSpace model else modelKey)"

definition normalizeModelStates :: "auth \<Rightarrow> auth" where
  "normalizeModelStates a =
     (let (normalized, changed) =
            foldl (\<lambda>(normalized, changed) (model, state).
              let modelKey = normalizedKey model
              in case map_of normalized modelKey of
                   Some existing \<Rightarrow> (AList.update modelKey (mergeModelState existing state) normalized, True)
                 | None \<Rightarrow> (AList.update modelKey state normalized, changed \<or> modelKey \<noteq> model))
            ([], False) (auth_ModelStates a)
      in if changed then a\<lparr>auth_ModelStates := normalized\<rparr> else a)"

text \<open>\<open>ensureModelState\<close> on a model whose key is not empty: the state is in the map afterwards.\<close>

definition ensureModelState :: "auth \<Rightarrow> string \<Rightarrow> auth" where
  "ensureModelState a0 model0 =
     (let model = canonicalModelKey model0
      in if model = [] then a0
         else let a = normalizeModelStates a0
              in case map_of (auth_ModelStates a) model of
                   Some (Some state) \<Rightarrow> a
                 | _ \<Rightarrow> a\<lparr>auth_ModelStates := AList.update model (Some newModelState) (auth_ModelStates a)\<rparr>)"

definition updateState :: "string \<Rightarrow> (ModelState \<Rightarrow> ModelState) \<Rightarrow> auth \<Rightarrow> auth" where
  "updateState key f a =
     (case map_of (auth_ModelStates a) key of
        Some (Some state) \<Rightarrow> a\<lparr>auth_ModelStates := AList.update key (Some (f state)) (auth_ModelStates a)\<rparr>
      | _ \<Rightarrow> a)"

definition resetModelState :: "go_time \<Rightarrow> ModelState \<Rightarrow> ModelState" where
  "resetModelState now state =
     state\<lparr>ms_Unavailable := False, ms_Status := StatusActive, ms_StatusMessage := [], ms_NextRetryAfter := 0,
           ms_LastError := None, ms_Quota := applyCooldownFields (ms_Quota state) emptyQuota, ms_UpdatedAt := now\<rparr>"

definition isModelStateActiveCooldown :: "ModelState \<Rightarrow> go_time \<Rightarrow> bool" where
  "isModelStateActiveCooldown state now =
     (if ms_Status state = StatusDisabled then True
      else if \<not> IsZero (ms_NextRetryAfter state) \<and> ms_NextRetryAfter state > now then True
      else if \<not> IsZero (q_NextRecoverAt (ms_Quota state)) \<and> q_NextRecoverAt (ms_Quota state) > now then True
      else q_Exceeded (ms_Quota state) \<and> IsZero (q_NextRecoverAt (ms_Quota state)))"

definition modelStateIsClean :: "ModelState \<Rightarrow> bool" where
  "modelStateIsClean state \<longleftrightarrow>
     ms_Status state = StatusActive \<and> \<not> ms_Unavailable state \<and> ms_StatusMessage state = [] \<and>
     IsZero (ms_NextRetryAfter state) \<and> ms_LastError state = None \<and>
     \<not> q_Exceeded (ms_Quota state) \<and> q_Reason (ms_Quota state) = [] \<and>
     IsZero (q_NextRecoverAt (ms_Quota state)) \<and> q_BackoffLevel (ms_Quota state) = 0"

section \<open>Aggregated availability\<close>

definition clearAggregatedAvailability :: "auth \<Rightarrow> auth" where
  "clearAggregatedAvailability a =
     a\<lparr>auth_Unavailable := False, auth_NextRetryAfter := 0,
       auth_Quota := applyCooldownFields (auth_Quota a) emptyQuota\<rparr>"

record aggregate =
  ag_allUnavailable :: bool
  ag_earliestRetry :: go_time
  ag_quotaExceeded :: bool
  ag_quotaRecover :: go_time
  ag_maxBackoffLevel :: int
  ag_hasState :: bool

definition aggregateStart :: aggregate where
  "aggregateStart = \<lparr>ag_allUnavailable = True, ag_earliestRetry = 0, ag_quotaExceeded = False, ag_quotaRecover = 0,
     ag_maxBackoffLevel = 0, ag_hasState = False\<rparr>"

text \<open>An expired block of a state is lifted on the way.\<close>

definition liftExpired :: "go_time \<Rightarrow> ModelState \<Rightarrow> ModelState" where
  "liftExpired now state =
     (if ms_Status state \<noteq> StatusDisabled \<and> ms_Unavailable state \<and> \<not> IsZero (ms_NextRetryAfter state) \<and>
         \<not> ms_NextRetryAfter state > now
      then state\<lparr>ms_Unavailable := False, ms_NextRetryAfter := 0\<rparr> else state)"

definition aggregateStep :: "go_time \<Rightarrow> ModelState \<Rightarrow> aggregate \<Rightarrow> aggregate" where
  "aggregateStep now state g =
     (let cooling = (ms_Status state \<noteq> StatusDisabled \<and> ms_Unavailable state \<and> \<not> IsZero (ms_NextRetryAfter state) \<and>
                     ms_NextRetryAfter state > now);
          stateUnavailable = (ms_Status state = StatusDisabled \<or> cooling);
          q = ms_Quota state
      in g\<lparr>ag_hasState := True,
           ag_allUnavailable := ag_allUnavailable g \<and> stateUnavailable,
           ag_earliestRetry := (if cooling \<and> (IsZero (ag_earliestRetry g) \<or> ms_NextRetryAfter state < ag_earliestRetry g)
                                then ms_NextRetryAfter state else ag_earliestRetry g),
           ag_quotaExceeded := ag_quotaExceeded g \<or> q_Exceeded q,
           ag_quotaRecover := (if q_Exceeded q \<and> (IsZero (ag_quotaRecover g) \<or>
                                   (\<not> IsZero (q_NextRecoverAt q) \<and> q_NextRecoverAt q < ag_quotaRecover g))
                               then q_NextRecoverAt q else ag_quotaRecover g),
           ag_maxBackoffLevel := (if q_Exceeded q \<and> q_BackoffLevel q > ag_maxBackoffLevel g
                                  then q_BackoffLevel q else ag_maxBackoffLevel g)\<rparr>)"

definition credentialQuotaActive :: "auth \<Rightarrow> go_time \<Rightarrow> bool" where
  "credentialQuotaActive a now \<longleftrightarrow>
     q_Exceeded (auth_Quota a) \<and> q_Reason (auth_Quota a) = ''credential_quota'' \<and> q_NextRecoverAt (auth_Quota a) > now"

definition updateAggregatedAvailability :: "auth \<Rightarrow> go_time \<Rightarrow> auth" where
  "updateAggregatedAvailability a now =
     (if credentialQuotaActive a now then a\<lparr>auth_Unavailable := True\<rparr>
      else if auth_ModelStates a = [] then clearAggregatedAvailability a
      else
        let g = foldl (\<lambda>g (model, state). case state of None \<Rightarrow> g | Some state \<Rightarrow> aggregateStep now state g)
                  aggregateStart (auth_ModelStates a);
            a1 = a\<lparr>auth_ModelStates := map (\<lambda>(model, state). (model, map_option (liftExpired now) state))
                     (auth_ModelStates a)\<rparr>
        in if \<not> ag_hasState g then clearAggregatedAvailability a1
           else
             let a2 = a1\<lparr>auth_Unavailable := ag_allUnavailable g,
                         auth_NextRetryAfter := (if ag_allUnavailable g then ag_earliestRetry g else 0)\<rparr>;
                 q = auth_Quota a2
             in if ag_quotaExceeded g
                then a2\<lparr>auth_Quota := q\<lparr>q_Exceeded := True, q_Reason := ''quota'',
                          q_NextRecoverAt := (if q_NextRecoverAt q > ag_quotaRecover g then q_NextRecoverAt q
                                              else ag_quotaRecover g),
                          q_BackoffLevel := ag_maxBackoffLevel g\<rparr>\<rparr>
                else if q_Exceeded q \<and> q_NextRecoverAt q > now then a2
                else a2\<lparr>auth_Quota := applyCooldownFields q emptyQuota\<rparr>)"

definition hasModelError :: "auth \<Rightarrow> go_time \<Rightarrow> bool" where
  "hasModelError a now \<longleftrightarrow>
     list_ex (\<lambda>(model, state). case state of
                None \<Rightarrow> False
              | Some state \<Rightarrow>
                  ms_LastError state \<noteq> None \<or>
                  (ms_Status state = StatusError \<and> ms_Unavailable state \<and>
                   (IsZero (ms_NextRetryAfter state) \<or> ms_NextRetryAfter state > now)))
       (auth_ModelStates a)"

definition clearAuthStateOnSuccess :: "auth \<Rightarrow> go_time \<Rightarrow> auth" where
  "clearAuthStateOnSuccess a now =
     a\<lparr>auth_Unavailable := False, auth_Status := StatusActive, auth_StatusMessage := [],
       auth_Quota := applyCooldownFields (auth_Quota a) emptyQuota, auth_LastError := None,
       auth_NextRetryAfter := 0, auth_UpdatedAt := now\<rparr>"

end
