(* ===== verification/MarkResult.thy ===== *)
theory MarkResult
  imports Cooldown
begin

text \<open>
  \<open>MarkResult\<close> and what it is made of (\<open>conductor_cooldown.go\<close>): the next state of the model, of the
  other models when the failure concerns the whole credential, of the credential, and of the scheduler.
  Also the other operations on cooldown state: manual reset, clearing, saving and restoring.

  \<open>selectionModelKeyForAuth\<close> (\<open>conductor_models.go\<close>), which is called only for a result without a model, resolves
  prefixes and alias tables of the configuration; it is the argument \<open>ce_selectionModelKey\<close> of the model.
\<close>

section \<open>Results\<close>

record Result =
  rs_AuthID :: string
  rs_Provider :: string
  rs_Model :: string
  rs_RouteModel :: string
  rs_Success :: bool
  rs_RetryAfter :: "duration option"
  rs_CredentialScope :: bool
  rs_Error :: "Error option"
  rs_SkipQuotaObservation :: bool

definition forcesCooldown :: "Error option \<Rightarrow> bool" where
  "forcesCooldown eo \<longleftrightarrow> (case eo of None \<Rightarrow> False | Some e \<Rightarrow> err_Code e = ErrorCodeForceCooldown)"

definition coolingDisabled :: "cooldown_env \<Rightarrow> Result \<Rightarrow> auth \<Rightarrow> bool" where
  "coolingDisabled env result a =
     (if forcesCooldown (rs_Error result) then False else quotaCooldownDisabledForAuthWithConfig env a)"

section \<open>A failure of a model\<close>

text \<open>The deadline and the backoff level after a quota failure.\<close>

definition quotaFailure :: "bool \<Rightarrow> duration option \<Rightarrow> QuotaState \<Rightarrow> go_time \<Rightarrow> go_time \<times> int" where
  "quotaFailure disableCooling retryAfter quota now =
     (if disableCooling then (0, q_BackoffLevel quota)
      else let (next, backoffLevel) = (case retryAfter of
                                         Some d \<Rightarrow> (now + d, q_BackoffLevel quota)
                                       | None \<Rightarrow> quotaCooldownAfterFailure quota now)
           in (if q_Exceeded quota \<and> q_NextRecoverAt quota > next then q_NextRecoverAt quota else next, backoffLevel))"

definition cooldownQuota :: "string \<Rightarrow> go_time \<Rightarrow> int \<Rightarrow> QuotaState" where
  "cooldownQuota reason next level =
     \<lparr>q_Exceeded = True, q_Reason = reason, q_NextRecoverAt = next, q_BackoffLevel = level, q_ObservedAt = 0, q_Signals = []\<rparr>"

definition startFailure :: "Result \<Rightarrow> go_time \<Rightarrow> ModelState \<Rightarrow> ModelState" where
  "startFailure result now state =
     (let state1 = state\<lparr>ms_Unavailable := True, ms_Status := StatusError, ms_UpdatedAt := now\<rparr>
      in case rs_Error result of
           None \<Rightarrow> state1
         | Some e \<Rightarrow> state1\<lparr>ms_LastError := Some e, ms_StatusMessage := err_Message e\<rparr>)"

text \<open>The deadline by the kind of the failure, on a state on which the failure has been noted.\<close>

definition classifyFailure :: "cooldown_env \<Rightarrow> bool \<Rightarrow> Result \<Rightarrow> go_time \<Rightarrow> ModelState \<Rightarrow> ModelState" where
  "classifyFailure env disableCooling result now state =
     (let statusCode = statusCodeFromResult (rs_Error result);
          after = (\<lambda>d. if disableCooling then 0 else now + d)
      in if isModelSupportResultError (rs_Error result) then state\<lparr>ms_NextRetryAfter := now + 12 * Hour\<rparr>
         else if isCloudflareChallengeResultError (rs_Error result)
         then let (next, backoffLevel) = nextCloudflareCooldown (q_BackoffLevel (ms_Quota state)) disableCooling now
              in state\<lparr>ms_NextRetryAfter := next, ms_StatusMessage := ''cloudflare challenge'',
                       ms_Quota := applyCooldownFields (ms_Quota state)
                                     (cooldownQuota ''cloudflare challenge'' next backoffLevel)\<rparr>
         else if isInvalidGrantResultError (rs_Error result) then state\<lparr>ms_NextRetryAfter := after (30 * Minute)\<rparr>
         else if statusCode \<in> {401, 402, 403} then state\<lparr>ms_NextRetryAfter := after (30 * Minute)\<rparr>
         else if statusCode = 404 then state\<lparr>ms_NextRetryAfter := after (12 * Hour)\<rparr>
         else if statusCode = 429
         then let (next, backoffLevel) = quotaFailure disableCooling (rs_RetryAfter result) (ms_Quota state) now
              in state\<lparr>ms_NextRetryAfter := next,
                       ms_Quota := applyCooldownFields (ms_Quota state) (cooldownQuota ''quota'' next backoffLevel)\<rparr>
         else let next = recoverableFailureRetryAfter (ce_transientErrorCooldownSeconds env) now disableCooling
              in state\<lparr>ms_NextRetryAfter := next, ms_Unavailable := \<not> IsZero next\<rparr>)"

definition finishFailure :: "bool \<Rightarrow> Result \<Rightarrow> go_time \<Rightarrow> ModelState \<Rightarrow> ModelState" where
  "finishFailure disableCooling result now state =
     (let state1 = (if disableCooling \<and> IsZero (ms_NextRetryAfter state) \<and> IsZero (q_NextRecoverAt (ms_Quota state))
                    then state\<lparr>ms_Unavailable := False, ms_Quota := (ms_Quota state)\<lparr>q_Exceeded := False\<rparr>\<rparr> else state)
      in if forcesCooldown (rs_Error result) \<and> IsZero (ms_NextRetryAfter state1)
         then state1\<lparr>ms_NextRetryAfter := now + transientErrorCooldown, ms_Unavailable := True\<rparr> else state1)"

definition failModelState :: "cooldown_env \<Rightarrow> bool \<Rightarrow> Result \<Rightarrow> go_time \<Rightarrow> ModelState \<Rightarrow> ModelState" where
  "failModelState env disableCooling result now state =
     finishFailure disableCooling result now
       (classifyFailure env disableCooling result now (startFailure result now state))"

text \<open>Which failures reach the case of status 429 of the switch.\<close>

definition quotaCase :: "Result \<Rightarrow> bool" where
  "quotaCase result \<longleftrightarrow>
     \<not> isModelSupportResultError (rs_Error result) \<and> \<not> isCloudflareChallengeResultError (rs_Error result) \<and>
     \<not> isInvalidGrantResultError (rs_Error result) \<and> statusCodeFromResult (rs_Error result) = 429"

text \<open>A quota failure of the whole credential: every other model and the credential itself.\<close>

definition scopeOtherState :: "go_time \<Rightarrow> int \<Rightarrow> ModelState \<Rightarrow> ModelState" where
  "scopeOtherState next backoffLevel other =
     (let otherNext = (if q_Exceeded (ms_Quota other) \<and> q_NextRecoverAt (ms_Quota other) > next
                       then q_NextRecoverAt (ms_Quota other) else next)
      in other\<lparr>ms_Unavailable := True, ms_Status := StatusError, ms_NextRetryAfter := otherNext,
               ms_Quota := applyCooldownFields (ms_Quota other)
                             (cooldownQuota ''credential_quota'' otherNext backoffLevel)\<rparr>)"

definition scopeCredential :: "string \<Rightarrow> go_time \<Rightarrow> int \<Rightarrow> auth \<Rightarrow> auth" where
  "scopeCredential key next backoffLevel a =
     (let q = auth_Quota a;
          authNext = (if q_NextRecoverAt q > next then q_NextRecoverAt q else next)
      in a\<lparr>auth_ModelStates := map (\<lambda>(model, state).
             (model, if model = key then state else map_option (scopeOtherState next backoffLevel) state))
             (auth_ModelStates a),
           auth_Unavailable := True,
           auth_Quota := q\<lparr>q_Exceeded := True, q_Reason := ''credential_quota'', q_NextRecoverAt := authNext\<rparr>,
           auth_NextRetryAfter := authNext\<rparr>)"

definition stateAt :: "auth \<Rightarrow> string \<Rightarrow> ModelState" where
  "stateAt a key = (case map_of (auth_ModelStates a) key of Some (Some state) \<Rightarrow> state | _ \<Rightarrow> newModelState)"

definition failModel :: "cooldown_env \<Rightarrow> Result \<Rightarrow> string \<Rightarrow> go_time \<Rightarrow> auth \<Rightarrow> auth" where
  "failModel env result modelKey now a =
     (if shouldSkipCredentialCooldown (ce_gjson_Get env) (rs_Error result) then a
      else
        let disableCooling = coolingDisabled env result a;
            a1 = ensureModelState a modelKey;
            key = canonicalModelKey modelKey;
            quota = ms_Quota (stateAt a1 key);
            a2 = updateState key (failModelState env disableCooling result now) a1;
            a3 = (case rs_Error result of
                    None \<Rightarrow> a2
                  | Some e \<Rightarrow> a2\<lparr>auth_LastError := Some e,
                                auth_StatusMessage :=
                                  (if isCloudflareChallengeResultError (Some e) \<and> \<not> isModelSupportResultError (Some e)
                                   then ''cloudflare challenge'' else err_Message e)\<rparr>);
            a4 = (if quotaCase result \<and> rs_CredentialScope result \<and> \<not> disableCooling
                  then let (next, backoffLevel) = quotaFailure disableCooling (rs_RetryAfter result) quota now
                       in scopeCredential key next backoffLevel a3
                  else a3)
        in updateAggregatedAvailability (a4\<lparr>auth_Status := StatusError\<rparr>) now)"

section \<open>A failure without a model\<close>

definition applyAuthFailureState ::
  "cooldown_env \<Rightarrow> Error option \<Rightarrow> duration option \<Rightarrow> go_time \<Rightarrow> bool \<Rightarrow> auth \<Rightarrow> auth" where
  "applyAuthFailureState env resultErr retryAfter now disableCooling a =
     (if shouldSkipCredentialCooldown (ce_gjson_Get env) resultErr then a
      else
        let undo = (\<lambda>a. if disableCooling \<and> IsZero (auth_NextRetryAfter a) \<and> IsZero (q_NextRecoverAt (auth_Quota a))
                        then a\<lparr>auth_Unavailable := False, auth_Quota := (auth_Quota a)\<lparr>q_Exceeded := False\<rparr>\<rparr> else a);
            force = (\<lambda>a. if forcesCooldown resultErr \<and> IsZero (auth_NextRetryAfter a)
                         then a\<lparr>auth_NextRetryAfter := now + transientErrorCooldown, auth_Unavailable := True\<rparr> else a);
            after = (\<lambda>d. if disableCooling then 0 else now + d);
            a0 = a\<lparr>auth_Unavailable := True, auth_Status := StatusError, auth_UpdatedAt := now\<rparr>;
            a1 = (case resultErr of
                    None \<Rightarrow> a0
                  | Some e \<Rightarrow> a0\<lparr>auth_LastError := Some e,
                                auth_StatusMessage := (if err_Message e \<noteq> [] then err_Message e
                                                       else auth_StatusMessage a0)\<rparr>);
            statusCode = statusCodeFromResult resultErr
        in if isCloudflareChallengeResultError resultErr
           then let (next, backoffLevel) = nextCloudflareCooldown (q_BackoffLevel (auth_Quota a1)) disableCooling now
                in undo (a1\<lparr>auth_StatusMessage := ''cloudflare challenge'',
                            auth_Quota := applyCooldownFields (auth_Quota a1)
                                            (cooldownQuota ''cloudflare challenge'' next backoffLevel),
                            auth_NextRetryAfter := next\<rparr>)
           else if isInvalidGrantResultError resultErr
           then undo (a1\<lparr>auth_StatusMessage := ''invalid_grant'', auth_NextRetryAfter := after (30 * Minute)\<rparr>)
           else undo (force (
             if statusCode = 401
             then a1\<lparr>auth_StatusMessage := ''unauthorized'', auth_NextRetryAfter := after (30 * Minute)\<rparr>
             else if statusCode = 402 \<or> statusCode = 403
             then a1\<lparr>auth_StatusMessage := ''payment_required'', auth_NextRetryAfter := after (30 * Minute)\<rparr>
             else if statusCode = 404
             then a1\<lparr>auth_StatusMessage := ''not_found'', auth_NextRetryAfter := after (12 * Hour)\<rparr>
             else if statusCode = 429
             then let q = (auth_Quota a1)\<lparr>q_Exceeded := True, q_Reason := ''quota''\<rparr>;
                      (next, backoffLevel) = quotaFailure disableCooling retryAfter q now
                  in a1\<lparr>auth_StatusMessage := ''quota exhausted'', auth_NextRetryAfter := next,
                        auth_Quota := q\<lparr>q_NextRecoverAt := next, q_BackoffLevel := backoffLevel\<rparr>\<rparr>
             else let next = recoverableFailureRetryAfter (ce_transientErrorCooldownSeconds env) now disableCooling
                  in a1\<lparr>auth_StatusMessage :=
                          (if statusCode \<in> {408, 500, 502, 503, 504} then ''transient upstream error''
                           else if auth_StatusMessage a1 = [] then ''request failed'' else auth_StatusMessage a1),
                        auth_NextRetryAfter := next, auth_Unavailable := \<not> IsZero next\<rparr>)))"

section \<open>MarkResult\<close>

definition succeedModel :: "string \<Rightarrow> go_time \<Rightarrow> auth \<Rightarrow> auth" where
  "succeedModel modelKey now a =
     (let a1 = updateAggregatedAvailability
                 (updateState (canonicalModelKey modelKey) (resetModelState now) (ensureModelState a modelKey)) now
      in if hasModelError a1 now then a1
         else a1\<lparr>auth_LastError := None, auth_StatusMessage := [], auth_Status := StatusActive\<rparr>)"

definition resultModelKey :: "cooldown_env \<Rightarrow> Result \<Rightarrow> auth \<Rightarrow> string" where
  "resultModelKey env result a =
     (let modelKey = canonicalModelKey (rs_Model result)
      in if modelKey = [] \<and> TrimSpace (rs_RouteModel result) \<noteq> []
         then let routeKey = ce_selectionModelKey env a (rs_RouteModel result)
              in if routeKey = [] then canonicalModelKey (rs_RouteModel result) else routeKey
         else modelKey)"

definition countResult :: "Result \<Rightarrow> go_time \<Rightarrow> auth \<Rightarrow> auth" where
  "countResult result now a =
     (let a1 = recordRecentRequest a now (rs_Success result)
      in if rs_Success result then a1\<lparr>auth_Success := int64 (auth_Success a1 + 1)\<rparr>
         else a1\<lparr>auth_Failed := int64 (auth_Failed a1 + 1)\<rparr>)"

definition settleResult :: "cooldown_env \<Rightarrow> Result \<Rightarrow> string \<Rightarrow> go_time \<Rightarrow> auth \<Rightarrow> auth" where
  "settleResult env result modelKey now a =
     (if rs_Success result
      then if q_Reason (auth_Quota a) = ''credential_quota'' \<and> q_NextRecoverAt (auth_Quota a) > now then a
           else if modelKey \<noteq> [] then succeedModel modelKey now a
           else clearAuthStateOnSuccess a now
      else if modelKey \<noteq> [] then failModel env result modelKey now a
      else applyAuthFailureState env (rs_Error result) (rs_RetryAfter result) now (coolingDisabled env result a) a)"

text \<open>
  The headers are observed by the credential and by the state of the model: the one the result settled,
  or the one that was there when the settling left the states alone.
\<close>

definition observeResult :: "Result \<Rightarrow> header \<Rightarrow> string \<Rightarrow> go_time \<Rightarrow> auth \<Rightarrow> auth" where
  "observeResult result headers key now a =
     (if rs_SkipQuotaObservation result then a
      else let observe = (\<lambda>q. snd (ObserveResponseHeadersForProvider now (rs_Provider result) headers now q));
               a1 = a\<lparr>auth_Quota := observe (auth_Quota a)\<rparr>
           in if key = [] then a1
              else updateState key (\<lambda>state. state\<lparr>ms_Quota := observe (ms_Quota state)\<rparr>) a1)"

definition markAuth :: "cooldown_env \<Rightarrow> Result \<Rightarrow> header \<Rightarrow> go_time \<Rightarrow> auth \<Rightarrow> auth" where
  "markAuth env result headers now a =
     (let modelKey = resultModelKey env result a;
          a1 = settleResult env result modelKey now (countResult result now a);
          a2 = a1\<lparr>auth_Generation := auth_Generation a1 + 1, auth_UpdatedAt := now\<rparr>
      in observeResult result headers (canonicalModelKey modelKey) now a2)"

record Manager =
  mg_auths :: "(string, auth option) go_map"
  mg_scheduler :: authScheduler

text \<open>\<open>now\<close> is read under the manager's lock, \<open>t\<close> under the scheduler's.\<close>

definition MarkResult ::
  "cooldown_env \<Rightarrow> (string \<Rightarrow> string list) \<Rightarrow> Result \<Rightarrow> header \<Rightarrow> go_time \<Rightarrow> go_time \<Rightarrow> Manager \<Rightarrow> Manager" where
  "MarkResult env models_of result headers now t m =
     (if rs_AuthID result = [] then m
      else case map_get None (mg_auths m) (rs_AuthID result) of
             None \<Rightarrow> m
           | Some a \<Rightarrow>
               let a' = markAuth env result headers now a
               in m\<lparr>mg_auths := AList.update (rs_AuthID result) (Some a') (mg_auths m),
                    mg_scheduler := upsertAuthLocked models_of (Some a') t (mg_scheduler m)\<rparr>)"

definition recordAvailabilityNeutralResult :: "Result \<Rightarrow> go_time \<Rightarrow> Manager \<Rightarrow> Manager" where
  "recordAvailabilityNeutralResult result now m =
     (if rs_AuthID result = [] then m
      else case map_get None (mg_auths m) (rs_AuthID result) of
             None \<Rightarrow> m
           | Some a \<Rightarrow>
               let a1 = countResult result now a
               in m\<lparr>mg_auths := AList.update (rs_AuthID result)
                       (Some (a1\<lparr>auth_Generation := auth_Generation a1 + 1, auth_UpdatedAt := now\<rparr>)) (mg_auths m)\<rparr>)"

section \<open>Clearing and resetting\<close>

definition hasCooldown :: "bool \<Rightarrow> go_time \<Rightarrow> QuotaState \<Rightarrow> bool" where
  "hasCooldown unavailable nextRetryAfter quota \<longleftrightarrow>
     unavailable \<or> \<not> IsZero nextRetryAfter \<or> q_Exceeded quota \<or> \<not> IsZero (q_NextRecoverAt quota)"

definition clearState :: "go_time \<Rightarrow> ModelState \<Rightarrow> ModelState" where
  "clearState now state =
     (if hasCooldown (ms_Unavailable state) (ms_NextRetryAfter state) (ms_Quota state)
      then state\<lparr>ms_Unavailable := False, ms_NextRetryAfter := 0,
                 ms_Quota := applyCooldownFields (ms_Quota state) emptyQuota, ms_UpdatedAt := now\<rparr> else state)"

definition clearCooldownStateForAuth :: "auth \<Rightarrow> go_time \<Rightarrow> bool \<times> auth" where
  "clearCooldownStateForAuth a now =
     (let authChanged = hasCooldown (auth_Unavailable a) (auth_NextRetryAfter a) (auth_Quota a);
          a1 = (if authChanged
                then a\<lparr>auth_Unavailable := False, auth_NextRetryAfter := 0,
                       auth_Quota := applyCooldownFields (auth_Quota a) emptyQuota, auth_UpdatedAt := now\<rparr> else a);
          changed = (authChanged \<or>
            list_ex (\<lambda>(model, state). case state of None \<Rightarrow> False
                     | Some state \<Rightarrow> hasCooldown (ms_Unavailable state) (ms_NextRetryAfter state) (ms_Quota state))
              (auth_ModelStates a1));
          a2 = a1\<lparr>auth_ModelStates := map (\<lambda>(model, state). (model, map_option (clearState now) state))
                   (auth_ModelStates a1)\<rparr>;
          a3 = (if auth_ModelStates a2 \<noteq> [] then updateAggregatedAvailability a2 now else a2)
      in (changed, if changed then a3\<lparr>auth_Generation := auth_Generation a3 + 1, auth_UpdatedAt := now\<rparr> else a3))"

definition resetAuthQuota :: "go_time \<Rightarrow> auth \<Rightarrow> auth" where
  "resetAuthQuota now a =
     (let a1 = a\<lparr>auth_ModelStates := map (\<lambda>(model, state).
                  (model, if TrimSpace model = [] then state else map_option (resetModelState now) state))
                  (auth_ModelStates a)\<rparr>;
          (cleared, a2) = clearCooldownStateForAuth a1 now;
          a3 = (if \<not> cleared \<and> auth_ModelStates a2 \<noteq> [] then updateAggregatedAvailability a2 now else a2);
          a4 = (if \<not> auth_Disabled a3 \<and> auth_Status a3 \<noteq> StatusDisabled \<and> \<not> hasModelError a3 now
                then a3\<lparr>auth_LastError := None, auth_StatusMessage := [], auth_Status := StatusActive\<rparr> else a3)
      in a4\<lparr>auth_Generation := auth_Generation a4 + 1, auth_UpdatedAt := now\<rparr>)"

definition ResetQuota ::
  "(string \<Rightarrow> string list) \<Rightarrow> string \<Rightarrow> go_time \<Rightarrow> go_time \<Rightarrow> Manager \<Rightarrow> Manager" where
  "ResetQuota models_of authID0 now t m =
     (let authID = TrimSpace authID0
      in if authID = [] then m
         else case map_get None (mg_auths m) authID of
                None \<Rightarrow> m
              | Some a \<Rightarrow>
                  let a' = resetAuthQuota now a
                  in m\<lparr>mg_auths := AList.update authID (Some a') (mg_auths m),
                       mg_scheduler := upsertAuthLocked models_of (Some a') t (mg_scheduler m)\<rparr>)"

section \<open>Saving and restoring\<close>

text \<open>The file of the credential is bookkeeping of the store and not part of the record here.\<close>

record CooldownStateRecord =
  cr_Provider :: string
  cr_AuthID :: string
  cr_Model :: string
  cr_Status :: string
  cr_NextRetryAfter :: go_time
  cr_Reason :: string
  cr_Quota :: QuotaState
  cr_LastError :: "Error option"
  cr_UpdatedAt :: go_time

definition cooldownReason :: "string \<Rightarrow> QuotaState \<Rightarrow> Error option \<Rightarrow> string" where
  "cooldownReason statusMessage quota lastErr =
     (if TrimSpace (q_Reason quota) \<noteq> [] then TrimSpace (q_Reason quota)
      else if TrimSpace statusMessage \<noteq> [] then TrimSpace statusMessage
      else case lastErr of
             None \<Rightarrow> []
           | Some e \<Rightarrow> if TrimSpace (err_Code e) \<noteq> [] then TrimSpace (err_Code e) else TrimSpace (err_Message e))"

definition authCooldownStateRecord :: "auth \<Rightarrow> go_time \<Rightarrow> CooldownStateRecord option" where
  "authCooldownStateRecord a now =
     (if \<not> auth_Unavailable a \<or> IsZero (auth_NextRetryAfter a) \<or> \<not> auth_NextRetryAfter a > now then None
      else Some \<lparr>cr_Provider = TrimSpace (auth_Provider a), cr_AuthID = auth_ID a, cr_Model = [], cr_Status = ''cooling'',
                 cr_NextRetryAfter = auth_NextRetryAfter a,
                 cr_Reason = cooldownReason (auth_StatusMessage a) (auth_Quota a) (auth_LastError a),
                 cr_Quota = cooldownFieldsOf (auth_Quota a), cr_LastError = auth_LastError a,
                 cr_UpdatedAt = auth_UpdatedAt a\<rparr>)"

definition modelCooldownStateRecord ::
  "auth \<Rightarrow> string \<Rightarrow> ModelState option \<Rightarrow> go_time \<Rightarrow> CooldownStateRecord option" where
  "modelCooldownStateRecord a model0 so now =
     (let model = TrimSpace model0
      in case so of
           None \<Rightarrow> None
         | Some state \<Rightarrow>
             if model = [] \<or> \<not> ms_Unavailable state \<or> IsZero (ms_NextRetryAfter state) \<or> \<not> ms_NextRetryAfter state > now
             then None
             else Some \<lparr>cr_Provider = TrimSpace (auth_Provider a), cr_AuthID = auth_ID a, cr_Model = model,
                        cr_Status = ''cooling'', cr_NextRetryAfter = ms_NextRetryAfter state,
                        cr_Reason = cooldownReason (ms_StatusMessage state) (ms_Quota state) (ms_LastError state),
                        cr_Quota = cooldownFieldsOf (ms_Quota state), cr_LastError = ms_LastError state,
                        cr_UpdatedAt = ms_UpdatedAt state\<rparr>)"

text \<open>Restoring one record into the credential it names, when that is registered.\<close>

definition restoreIntoAuth :: "CooldownStateRecord \<Rightarrow> go_time \<Rightarrow> auth \<Rightarrow> auth" where
  "restoreIntoAuth rec now a =
     (let updatedAt = (if IsZero (cr_UpdatedAt rec) then now else cr_UpdatedAt rec);
          reason = TrimSpace (cr_Reason rec);
          model = TrimSpace (cr_Model rec);
          quota = (if q_Exceeded (cr_Quota rec) \<and> IsZero (q_NextRecoverAt (cr_Quota rec))
                   then (cr_Quota rec)\<lparr>q_NextRecoverAt := cr_NextRetryAfter rec\<rparr> else cr_Quota rec)
      in if model = []
         then a\<lparr>auth_Unavailable := True, auth_Status := StatusError, auth_NextRetryAfter := cr_NextRetryAfter rec,
                auth_Quota := mergeQuotaObservation (applyCooldownFields (auth_Quota a) quota) quota,
                auth_Generation := auth_Generation a + 1, auth_UpdatedAt := updatedAt,
                auth_StatusMessage := (if reason \<noteq> [] then reason else auth_StatusMessage a),
                auth_LastError := cr_LastError rec\<rparr>
         else
           let restored = \<lparr>ms_Status = StatusError, ms_StatusMessage = reason, ms_Unavailable = True,
                           ms_NextRetryAfter = cr_NextRetryAfter rec, ms_LastError = cr_LastError rec,
                           ms_Quota = quota, ms_UpdatedAt = updatedAt\<rparr>;
               a1 = updateState (canonicalModelKey model)
                      (\<lambda>state. the (mergeModelState (Some state) (Some restored))) (ensureModelState a model)
           in updateAggregatedAvailability
                (a1\<lparr>auth_Generation := auth_Generation a1 + 1, auth_UpdatedAt := updatedAt\<rparr>) now)"

definition restoreCooldownRecordLocked ::
  "cooldown_env \<Rightarrow> CooldownStateRecord \<Rightarrow> go_time \<Rightarrow> (string, auth option) go_map \<Rightarrow> bool \<times> (string, auth option) go_map" where
  "restoreCooldownRecordLocked env rec now auths =
     (let authID = TrimSpace (cr_AuthID rec)
      in if authID = [] \<or> IsZero (cr_NextRetryAfter rec) \<or> \<not> cr_NextRetryAfter rec > now then (False, auths)
         else case map_get None auths authID of
                None \<Rightarrow> (False, auths)
              | Some a \<Rightarrow>
                  if auth_Disabled a \<or> auth_Status a = StatusDisabled \<or> quotaCooldownDisabledForAuthWithConfig env a
                  then (False, auths)
                  else (True, AList.update authID (Some (restoreIntoAuth rec now a)) auths))"

definition cooldownStateRecordsForAuthLocked :: "cooldown_env \<Rightarrow> auth option \<Rightarrow> go_time \<Rightarrow> CooldownStateRecord list" where
  "cooldownStateRecordsForAuthLocked env ao now =
     (case ao of
        None \<Rightarrow> []
      | Some a \<Rightarrow>
          if auth_ID a = [] \<or> auth_Disabled a \<or> auth_Status a = StatusDisabled \<or>
             quotaCooldownDisabledForAuthWithConfig env a then []
          else sort_key cr_Model
                 ((case authCooldownStateRecord a now of None \<Rightarrow> [] | Some r \<Rightarrow> [r]) @
                  List.map_filter (\<lambda>(model, state). modelCooldownStateRecord a model state now) (auth_ModelStates a)))"

text \<open>
  Restoring every saved record, those of models before those of whole credentials; the credentials that
  changed are then put into the scheduler, in the order \<open>restored\<close> of the map of snapshots.
\<close>

definition restoreRecords ::
  "cooldown_env \<Rightarrow> CooldownStateRecord list \<Rightarrow> go_time \<Rightarrow> (string, auth option) go_map
    \<Rightarrow> (string, auth option) go_map \<times> string list" where
  "restoreRecords env records now auths =
     foldl (\<lambda>(auths, restored) rec.
       let (ok, auths') = restoreCooldownRecordLocked env rec now auths
       in (auths', if ok then List.insert (TrimSpace (cr_AuthID rec)) restored else restored))
     (auths, [])
     (filter (\<lambda>rec. TrimSpace (cr_Model rec) \<noteq> []) records @ filter (\<lambda>rec. TrimSpace (cr_Model rec) = []) records)"

definition RestoreCooldownStates ::
  "cooldown_env \<Rightarrow> (string \<Rightarrow> string list) \<Rightarrow> CooldownStateRecord list \<Rightarrow> go_time \<Rightarrow> go_time \<Rightarrow> Manager \<Rightarrow> Manager" where
  "RestoreCooldownStates env models_of records now t m =
     (let (auths, restored) = restoreRecords env records now (mg_auths m)
      in m\<lparr>mg_auths := auths,
           mg_scheduler := foldl (\<lambda>s authID. upsertAuthLocked models_of (map_get None auths authID) t s)
             (mg_scheduler m) restored\<rparr>)"

end
