(* ===== verification/CooldownFacts.thy ===== *)
theory CooldownFacts
  imports MarkResult
begin

text \<open>
  Facts about the cooldown state machine: the backoff ladder as powers of two, credentials whose states
  have canonical keys, and what a failure and a success leave.
\<close>

section \<open>The ladder\<close>

text \<open>What the ladder means: a second, doubled at every level, and never more than half an hour.\<close>

definition ladder :: "nat \<Rightarrow> duration" where
  "ladder level = min (2 ^ level * Second) (30 * Minute)"

lemma ladder_small: "n < 11 \<Longrightarrow> 2 ^ n * Second < 30 * Minute"
proof -
  assume "n < 11"
  then have "(2::int) ^ n \<le> 2 ^ 10" by (intro power_increasing) auto
  then show ?thesis by (simp add: go_simps)
qed

lemma ladder_big: "11 \<le> n \<Longrightarrow> 30 * Minute \<le> 2 ^ n * Second"
proof -
  assume "11 \<le> n"
  then have "(2::int) ^ 11 \<le> 2 ^ n" by (intro power_increasing) auto
  then show ?thesis by (simp add: go_simps)
qed

text \<open>Whatever the level, a level of a restored file that overflows the shift included, the wait after a
  quota failure is at least a second and at most half an hour.\<close>

theorem nextQuotaCooldown_range:
  "quotaBackoffBase \<le> fst (nextQuotaCooldown level False) \<and> fst (nextQuotaCooldown level False) \<le> quotaBackoffMax"
  by (simp add: nextQuotaCooldown_def Let_def quotaBackoffBase_def quotaBackoffMax_def go_simps)

lemma nextQuotaCooldown_ladder:
  assumes "0 \<le> level" "level \<le> 33"
  shows "nextQuotaCooldown level False =
    (ladder (nat level), if level < 11 then level + 1 else level)"
proof -
  let ?n = "nat level"
  have n: "?n \<le> 33" using assms by simp
  define x where "x = (2::int) ^ ?n"
  have x: "1 \<le> x" "x \<le> 2 ^ 33"
    unfolding x_def using n by (simp, intro power_increasing) auto
  have "shifted_one level = x"
    using assms x by (simp add: shifted_one_def x_def[symmetric] in_int64_def MinInt64_def MaxInt64_def)
  moreover have "in_int64 (quotaBackoffBase * x)"
    using x by (simp add: in_int64_def MinInt64_def MaxInt64_def quotaBackoffBase_def go_simps)
  ultimately have c: "int64 (quotaBackoffBase * shifted_one level) = 2 ^ ?n * Second"
    by (simp add: quotaBackoffBase_def x_def mult.commute)
  have base: "Second \<le> 2 ^ ?n * Second" by (simp add: go_simps)
  show ?thesis
  proof (cases "level < 11")
    case True
    then have "2 ^ ?n * Second < 30 * Minute" using ladder_small[of ?n] assms by simp
    then show ?thesis
      using c base True assms
      by (simp add: nextQuotaCooldown_def Let_def ladder_def quotaBackoffBase_def quotaBackoffMax_def)
  next
    case False
    then have "30 * Minute \<le> 2 ^ ?n * Second" using ladder_big[of ?n] assms by simp
    then show ?thesis
      using c base False assms
      by (simp add: nextQuotaCooldown_def Let_def ladder_def quotaBackoffBase_def quotaBackoffMax_def)
  qed
qed

section \<open>Credentials with canonical keys\<close>

definition plain_key :: "string \<Rightarrow> bool" where
  "plain_key k \<longleftrightarrow> k \<noteq> [] \<and> canonicalModelKey k = k"

definition plain_states :: "auth \<Rightarrow> bool" where
  "plain_states a \<longleftrightarrow> wf_map (auth_ModelStates a) \<and> list_all plain_key (map fst (auth_ModelStates a))"

lemma plain_keyD [simp]: "plain_key k \<Longrightarrow> canonicalModelKey k = k" "plain_key k \<Longrightarrow> k \<noteq> []"
  by (simp_all add: plain_key_def)

lemma normalized_plain [simp]: "plain_key k \<Longrightarrow> normalizedKey k = k"
  by (simp add: normalizedKey_def)

lemma normalize_loop:
  "wf_map (acc @ ms) \<Longrightarrow> list_all plain_key (map fst ms) \<Longrightarrow>
   snd (foldl (\<lambda>(normalized, changed) (model, state).
          let modelKey = normalizedKey model
          in case map_of normalized modelKey of
               Some existing \<Rightarrow> (AList.update modelKey (mergeModelState existing state) normalized, True)
             | None \<Rightarrow> (AList.update modelKey state normalized, changed \<or> modelKey \<noteq> model)) (acc, False) ms) = False"
proof (induction ms arbitrary: acc)
  case (Cons p ms)
  obtain k s where p: "p = (k, s)" by (cases p)
  have new: "k \<notin> fst ` set acc" using Cons.prems(1) p by auto
  then have "AList.update k s acc = acc @ [(k, s)]" by (rule update_fresh)
  moreover have "map_of acc k = None" using new by (simp add: map_of_eq_None_iff)
  ultimately show ?case
    using Cons.IH[of "acc @ [(k, s)]"] Cons.prems p by simp
qed simp

lemma normalize_plain: "plain_states a \<Longrightarrow> normalizeModelStates a = a"
  using normalize_loop[of "[]" "auth_ModelStates a"]
  unfolding normalizeModelStates_def plain_states_def by (simp add: split_beta del: foldl.simps)

abbreviation setState :: "string \<Rightarrow> ModelState \<Rightarrow> auth \<Rightarrow> auth" where
  "setState k s a \<equiv> a\<lparr>auth_ModelStates := AList.update k (Some s) (auth_ModelStates a)\<rparr>"

lemma ensure_plain:
  assumes "plain_states a" "plain_key k"
  shows "ensureModelState a k = setState k (stateAt a k) a"
  using assms
  by (auto simp: ensureModelState_def normalize_plain stateAt_def update_triv Let_def split: option.split)

lemma updateState_setState: "updateState k f (setState k s a) = setState k (f s) a"
  by (simp add: updateState_def map_of_update)

lemma plain_setState: "plain_states a \<Longrightarrow> plain_key k \<Longrightarrow> plain_states (setState k s a)"
proof -
  assume a: "plain_states a" "plain_key k"
  have "set (map fst (AList.update k (Some s) (auth_ModelStates a))) \<subseteq> insert k (set (map fst (auth_ModelStates a)))"
    by (simp add: dom_update)
  then have "list_all plain_key (map fst (AList.update k (Some s) (auth_ModelStates a)))"
    unfolding list_all_iff by (rule ball_insert_subset) (use a in \<open>simp_all add: plain_states_def list_all_iff\<close>)
  then show ?thesis
    using a by (simp add: plain_states_def distinct_update)
qed

section \<open>Blocking\<close>

lemma loop_other:
  "\<forall>(k', s) \<in> set ms. canonicalModelKey k' \<noteq> k \<Longrightarrow>
   modelStatesLoop k now ms matched acc = (if matched then acc else (False, blockReasonNone, 0))"
proof (induction ms arbitrary: matched acc)
  case (Cons p ms)
  obtain k' s where p: "p = (k', s)" by (cases p)
  obtain b r t where "acc = (b, r, t)" by (cases acc)
  with Cons p show ?case by (cases s) auto
qed simp

lemma plain_other:
  assumes "list_all plain_key (map fst ms)" "k \<notin> set (map fst ms)"
  shows "\<forall>(k', s) \<in> set ms. canonicalModelKey k' \<noteq> k"
proof -
  have "canonicalModelKey (fst p) \<noteq> k" if "p \<in> set ms" for p
  proof -
    have "canonicalModelKey (fst p) = fst p" using that assms(1) by (simp add: list_all_iff)
    then show ?thesis using that assms(2) by auto
  qed
  then show ?thesis unfolding split_def by blast
qed

lemma loop_plain:
  assumes "wf_map ms" "list_all plain_key (map fst ms)" "0 \<le> now"
  shows "modelStatesLoop k now ms False (False, blockReasonNone, 0) =
    (case map_of ms k of Some (Some s) \<Rightarrow> state_verdict now s | _ \<Rightarrow> (False, blockReasonNone, 0))"
  using assms
proof (induction ms)
  case (Cons p ms)
  obtain k' so where p: "p = (k', so)" by (cases p)
  have k': "canonicalModelKey k' = k'" using Cons.prems p by simp
  show ?case
  proof (cases "k' = k \<and> so \<noteq> None")
    case False
    then show ?thesis
    proof (cases so)
      case None
      show ?thesis
      proof (cases "k' = k")
        case True
        then have "k \<notin> set (map fst ms)" using Cons.prems p by simp
        then have "\<forall>(k', s) \<in> set ms. canonicalModelKey k' \<noteq> k"
          using Cons.prems by (intro plain_other) simp_all
        then show ?thesis using None True p loop_other[of ms k now False] True \<open>k \<notin> set (map fst ms)\<close>
          by (simp add: map_of_eq_None_iff)
      next
        case False
        then show ?thesis using None p Cons by simp
      qed
    next
      case (Some s)
      then show ?thesis using False p k' Cons by simp
    qed
  next
    case True
    then obtain s where s: "so = Some s" by auto
    have "k \<notin> set (map fst ms)" using Cons.prems p True by simp
    then have other: "\<forall>(k', s) \<in> set ms. canonicalModelKey k' \<noteq> k"
      using Cons.prems by (intro plain_other) simp_all
    obtain b r t where v: "availabilityBlock (ms_Unavailable s) (q_Exceeded (ms_Quota s))
        (ms_NextRetryAfter s) (q_NextRecoverAt (ms_Quota s)) now = (b, r, t)" by (cases "availabilityBlock (ms_Unavailable s) (q_Exceeded (ms_Quota s))
        (ms_NextRetryAfter s) (q_NextRecoverAt (ms_Quota s)) now")
    have "\<not> b \<Longrightarrow> (b, r, t) = (False, blockReasonNone, 0)"
      using v by (auto simp: availabilityBlock_def Let_def split: if_splits)
    then show ?thesis
      using True p s v k' loop_other[OF other] by (auto simp: state_verdict_def)
  qed
qed simp

definition model_verdict :: "auth \<Rightarrow> string \<Rightarrow> go_time \<Rightarrow> bool \<times> blockReason \<times> go_time" where
  "model_verdict a k now =
     (case map_of (auth_ModelStates a) k of Some (Some s) \<Rightarrow> state_verdict now s | _ \<Rightarrow> (False, blockReasonNone, 0))"

lemma blocked_plain:
  assumes "plain_states a" "0 \<le> now" "m \<noteq> []" "auth_ModelStates a \<noteq> []"
  shows "isAuthBlockedForModel (Some a) m now =
    (if auth_off a then (True, blockReasonDisabled, 0)
     else if credentialQuotaActive a now then (True, blockReasonCooldown, q_NextRecoverAt (auth_Quota a))
     else model_verdict a (canonicalModelKey m) now)"
  using assms loop_plain[of "auth_ModelStates a" now "canonicalModelKey m"]
  unfolding isAuthBlockedForModel_def auth_off_def credentialQuotaActive_def model_verdict_def plain_states_def
  by simp

section \<open>Aggregation\<close>

lemma aggregated_states:
  "auth_ModelStates (updateAggregatedAvailability a now) =
     (if credentialQuotaActive a now then auth_ModelStates a
      else map (\<lambda>(k, s). (k, map_option (liftExpired now) s)) (auth_ModelStates a))"
  by (simp add: updateAggregatedAvailability_def clearAggregatedAvailability_def Let_def)

lemma map_of_mapped: "map_of (map (\<lambda>(k, s). (k, f k s)) ms) k = map_option (f k) (map_of ms k)"
  by (induction ms) auto

lemma plain_mapped: "plain_states a \<Longrightarrow> plain_states (a\<lparr>auth_ModelStates := map (\<lambda>(k, s). (k, f k s)) (auth_ModelStates a)\<rparr>)"
  by (simp add: plain_states_def o_def split_def)

lemma plain_states_cong: "auth_ModelStates a = auth_ModelStates b \<Longrightarrow> plain_states a = plain_states b"
  by (simp add: plain_states_def)

lemma plain_aggregated: "plain_states a \<Longrightarrow> plain_states (updateAggregatedAvailability a now)"
  using plain_mapped[of a "\<lambda>k. map_option (liftExpired now)"]
  by (simp add: plain_states_def aggregated_states)

end
