(* ===== verification/MarkFacts.thy ===== *)
theory MarkFacts
  imports CooldownFacts
begin

text \<open>
  What one result leaves of a credential: the record of the model, the record of the credential, and the
  verdict \<open>isAuthBlockedForModel\<close> gives at every later time.
\<close>

section \<open>Observation and counting leave the verdict\<close>

lemma observe_fields:
  "q_Exceeded (snd (ObserveResponseHeadersForProvider now p h t q)) = q_Exceeded q"
  "q_Reason (snd (ObserveResponseHeadersForProvider now p h t q)) = q_Reason q"
  "q_NextRecoverAt (snd (ObserveResponseHeadersForProvider now p h t q)) = q_NextRecoverAt q"
  "q_BackoffLevel (snd (ObserveResponseHeadersForProvider now p h t q)) = q_BackoffLevel q"
  by (simp_all add: ObserveResponseHeadersForProvider_def ClearObservationSignals_def Let_def)

text \<open>Two states, two lists of states, two credentials that no verdict tells apart.\<close>

definition alike :: "ModelState option \<Rightarrow> ModelState option \<Rightarrow> bool" where
  "alike x y \<longleftrightarrow> (case (x, y) of
      (None, None) \<Rightarrow> True
    | (Some s, Some s') \<Rightarrow> ms_Status s = ms_Status s' \<and> ms_Unavailable s = ms_Unavailable s' \<and>
        ms_NextRetryAfter s = ms_NextRetryAfter s' \<and> q_Exceeded (ms_Quota s) = q_Exceeded (ms_Quota s') \<and>
        q_NextRecoverAt (ms_Quota s) = q_NextRecoverAt (ms_Quota s') \<and>
        q_BackoffLevel (ms_Quota s) = q_BackoffLevel (ms_Quota s')
    | _ \<Rightarrow> False)"

definition alike_auths :: "auth \<Rightarrow> auth \<Rightarrow> bool" where
  "alike_auths a b \<longleftrightarrow> auth_Disabled a = auth_Disabled b \<and> auth_Status a = auth_Status b \<and>
     auth_Unavailable a = auth_Unavailable b \<and> auth_NextRetryAfter a = auth_NextRetryAfter b \<and>
     q_Exceeded (auth_Quota a) = q_Exceeded (auth_Quota b) \<and> q_Reason (auth_Quota a) = q_Reason (auth_Quota b) \<and>
     q_NextRecoverAt (auth_Quota a) = q_NextRecoverAt (auth_Quota b) \<and>
     list_all2 (\<lambda>(k, x) (k', y). k = k' \<and> alike x y) (auth_ModelStates a) (auth_ModelStates b)"

lemma alike_refl [simp]: "alike x x"
  by (simp add: alike_def split: option.split)

lemma alike_list_refl: "list_all2 (\<lambda>(k, x) (k', y). k = k' \<and> alike x y) ms ms"
  by (rule list_all2_refl) auto

lemma alike_loop:
  "list_all2 (\<lambda>(k, x) (k', y). k = k' \<and> alike x y) ms ms' \<Longrightarrow>
   modelStatesLoop key now ms matched acc = modelStatesLoop key now ms' matched acc"
proof (induction ms ms' arbitrary: matched acc rule: list_all2_induct)
  case (Cons p ms p' ms')
  obtain k x where p: "p = (k, x)" by (cases p)
  obtain y where p': "p' = (k, y)" "alike x y" using Cons.hyps(1) p by (cases p') auto
  obtain b r t where acc: "acc = (b, r, t)" by (cases acc)
  show ?case
  proof (cases x)
    case None
    then show ?thesis using p p' Cons.IH acc by (cases y) (simp_all add: alike_def)
  next
    case (Some s)
    then obtain s' where "y = Some s'" using p'(2) by (cases y) (simp_all add: alike_def)
    with Some p p' Cons.IH acc show ?thesis by (simp add: alike_def split: prod.split)
  qed
qed simp

lemma alike_blocked:
  assumes "alike_auths a b"
  shows "isAuthBlockedForModel (Some a) m now = isAuthBlockedForModel (Some b) m now"
proof -
  have "auth_ModelStates a = [] \<longleftrightarrow> auth_ModelStates b = []"
    using assms by (auto simp: alike_auths_def)
  moreover have "modelStatesLoop (canonicalModelKey m) now (auth_ModelStates a) False (False, blockReasonNone, 0) =
      modelStatesLoop (canonicalModelKey m) now (auth_ModelStates b) False (False, blockReasonNone, 0)"
    using assms by (intro alike_loop) (simp add: alike_auths_def)
  ultimately show ?thesis using assms by (simp add: isAuthBlockedForModel_def alike_auths_def)
qed

lemma alike_trans: "alike_auths a b \<Longrightarrow> alike_auths b c \<Longrightarrow> alike_auths a c"
proof -
  let ?R = "\<lambda>(k :: string, x) (k', y). k = k' \<and> alike x y"
  have step: "alike x y \<Longrightarrow> alike y z \<Longrightarrow> alike x z" for x y z
    by (auto simp: alike_def split: option.splits)
  assume ab: "alike_auths a b" and bc: "alike_auths b c"
  have "list_all2 ?R (auth_ModelStates a) (auth_ModelStates c)"
    by (rule list_all2_trans[of ?R ?R])
      (use ab bc step in \<open>auto simp: alike_auths_def\<close>)
  then show ?thesis using ab bc by (simp add: alike_auths_def)
qed

lemma alike_update:
  "map_of ms k = Some (Some s) \<Longrightarrow> alike (Some s) (Some s') \<Longrightarrow>
   list_all2 (\<lambda>(k, x) (k', y). k = k' \<and> alike x y) ms (AList.update k (Some s') ms)"
  by (induction ms) (auto simp: alike_list_refl split: if_splits)

lemma observe_alike: "alike_auths a (observeResult result headers key now a)"
  by (auto simp: observeResult_def updateState_def alike_auths_def alike_list_refl observe_fields Let_def
      intro!: alike_update split: option.split) (simp_all add: alike_def observe_fields)

lemma observe_state:
  "alike (map_get None (auth_ModelStates a) k) (map_get None (auth_ModelStates (observeResult result headers key now a)) k)"
  by (auto simp: observeResult_def updateState_def alike_def observe_fields Let_def map_get_def map_of_update
      split: option.split)

lemma count_alike [simp]:
  "auth_ModelStates (countResult result now a) = auth_ModelStates a"
  "auth_Quota (countResult result now a) = auth_Quota a" "auth_Disabled (countResult result now a) = auth_Disabled a"
  "auth_Status (countResult result now a) = auth_Status a"
  "auth_Unavailable (countResult result now a) = auth_Unavailable a"
  "auth_NextRetryAfter (countResult result now a) = auth_NextRetryAfter a"
  "auth_ID (countResult result now a) = auth_ID a"
  "auth_Generation (countResult result now a) = auth_Generation a"
  "auth_RegistrationEpoch (countResult result now a) = auth_RegistrationEpoch a"
  "auth_Provider (countResult result now a) = auth_Provider a"
  "auth_Metadata (countResult result now a) = auth_Metadata a"
  "auth_Attributes (countResult result now a) = auth_Attributes a"
  by (simp_all add: countResult_def recordRecentRequest_def Let_def)

lemma count_plain [simp]: "plain_states (countResult result now a) = plain_states a"
  by (simp add: plain_states_def)

section \<open>A failure of a model\<close>

text \<open>
  The table of the deadlines: when a model may be tried again after a failure, with cooling enabled.
  \<open>q\<close> is the quota record of the model before the failure.
\<close>

definition retryDeadline :: "cooldown_env \<Rightarrow> Result \<Rightarrow> go_time \<Rightarrow> QuotaState \<Rightarrow> go_time" where
  "retryDeadline env result now q =
     (let status = statusCodeFromResult (rs_Error result);
          wait = ladder (nat (q_BackoffLevel q));
          transient = ce_transientErrorCooldownSeconds env
      in if isModelSupportResultError (rs_Error result) then now + 12 * Hour
         else if isCloudflareChallengeResultError (rs_Error result) then now + max (10 * Second) wait
         else if isInvalidGrantResultError (rs_Error result) \<or> status \<in> {401, 402, 403} then now + 30 * Minute
         else if status = 404 then now + 12 * Hour
         else if status = 429
         then let asked = (case rs_RetryAfter result of
                             Some d \<Rightarrow> now + d
                           | None \<Rightarrow> if now < q_NextRecoverAt q then q_NextRecoverAt q else now + wait)
              in if q_Exceeded q then max asked (q_NextRecoverAt q) else asked
         else if transient = 0 then now + Minute
         else if transient > 0 then now + transient * Second
         else if forcesCooldown (rs_Error result) then now + Minute
         else 0)"

text \<open>An earlier quota window survives a failure of another kind.\<close>

definition setsQuota :: "Result \<Rightarrow> bool" where
  "setsQuota result \<longleftrightarrow> \<not> isModelSupportResultError (rs_Error result) \<and>
     (isCloudflareChallengeResultError (rs_Error result) \<or> quotaCase result)"

definition failureDeadline :: "cooldown_env \<Rightarrow> Result \<Rightarrow> go_time \<Rightarrow> QuotaState \<Rightarrow> go_time" where
  "failureDeadline env result now q =
     (if setsQuota result then retryDeadline env result now q
      else max (retryDeadline env result now q) (q_NextRecoverAt q))"

text \<open>The bounds under which no product of durations wraps.\<close>

definition sane :: "cooldown_env \<Rightarrow> QuotaState \<Rightarrow> bool" where
  "sane env q \<longleftrightarrow> 0 \<le> q_BackoffLevel q \<and> q_BackoffLevel q \<le> 33 \<and> ce_transientErrorCooldownSeconds env \<le> 10 ^ 9"

lemma ladder_range: "Second \<le> ladder n \<and> ladder n \<le> 30 * Minute"
proof -
  have "(1::int) \<le> 2 ^ n" by simp
  then show ?thesis by (simp add: ladder_def go_simps)
qed

lemma ladder_pos [simp]: "0 < ladder n"
  using ladder_range[of n] by (simp add: go_simps)

lemma quotaFailure_table:
  assumes "0 \<le> q_BackoffLevel q" "q_BackoffLevel q \<le> 33"
  shows "fst (quotaFailure False retryAfter q now) =
    (let asked = (case retryAfter of
                    Some d \<Rightarrow> now + d
                  | None \<Rightarrow> if now < q_NextRecoverAt q then q_NextRecoverAt q else now + ladder (nat (q_BackoffLevel q)))
     in if q_Exceeded q then max asked (q_NextRecoverAt q) else asked)"
  using nextQuotaCooldown_ladder[OF assms]
  by (auto simp: quotaFailure_def quotaCooldownAfterFailure_def Let_def max_def split: option.split prod.split)

lemma cloudflare_table:
  assumes "0 \<le> level" "level \<le> 33"
  shows "fst (nextCloudflareCooldown level False now) = now + max (10 * Second) (ladder (nat level))"
  using nextQuotaCooldown_ladder[OF assms] ladder_range[of "nat level"]
  by (auto simp: nextCloudflareCooldown_def Let_def max_def go_simps split: prod.split)

lemma transient_table:
  assumes "0 \<le> n" "n \<le> 10 ^ 9"
  shows "nextTransientErrorRetryAfter n now = (if n = 0 then now + Minute else now + n * Second)"
proof -
  have "in_int64 (n * Second)"
    using assms by (simp add: in_int64_def MinInt64_def MaxInt64_def go_simps)
  then show ?thesis
    using assms by (simp add: nextTransientErrorRetryAfter_def transientErrorCooldown_def)
qed

lemma startFailure_fields [simp]:
  "ms_Status (startFailure result now s) = StatusError" "ms_Unavailable (startFailure result now s)"
  "ms_Quota (startFailure result now s) = ms_Quota s" "ms_NextRetryAfter (startFailure result now s) = ms_NextRetryAfter s"
  by (simp_all add: startFailure_def Let_def split: option.split)

lemma failModelState_table:
  assumes "sane env (ms_Quota s)" "now < retryDeadline env result now (ms_Quota s)" "0 \<le> now"
  defines "s' \<equiv> failModelState env False result now s"
  shows "ms_Status s' = StatusError \<and> ms_Unavailable s' \<and>
    ms_NextRetryAfter s' = retryDeadline env result now (ms_Quota s) \<and>
    q_NextRecoverAt (ms_Quota s') = (if setsQuota result then retryDeadline env result now (ms_Quota s)
                                     else q_NextRecoverAt (ms_Quota s))"
proof -
  have b: "0 \<le> q_BackoffLevel (ms_Quota s)" "q_BackoffLevel (ms_Quota s) \<le> 33"
    "ce_transientErrorCooldownSeconds env \<le> 10 ^ 9" using assms(1) by (simp_all add: sane_def)
  note q = quotaFailure_table[OF b(1,2), of "rs_RetryAfter result" now]
  note c = cloudflare_table[OF b(1,2), of now]
  note t = transient_table[OF _ b(3), of now]
  let ?e = "rs_Error result" and ?st = "statusCodeFromResult (rs_Error result)"
  consider (support) "isModelSupportResultError ?e"
    | (cloudflare) "\<not> isModelSupportResultError ?e" "isCloudflareChallengeResultError ?e"
    | (grant) "\<not> isModelSupportResultError ?e" "\<not> isCloudflareChallengeResultError ?e"
        "isInvalidGrantResultError ?e \<or> ?st \<in> {401, 402, 403}"
    | (missing) "\<not> isModelSupportResultError ?e" "\<not> isCloudflareChallengeResultError ?e"
        "\<not> isInvalidGrantResultError ?e" "?st = 404"
    | (quota) "\<not> isModelSupportResultError ?e" "\<not> isCloudflareChallengeResultError ?e"
        "\<not> isInvalidGrantResultError ?e" "?st = 429"
    | (other) "\<not> isModelSupportResultError ?e" "\<not> isCloudflareChallengeResultError ?e"
        "\<not> isInvalidGrantResultError ?e" "?st \<notin> {401, 402, 403, 404, 429}" by auto
  then show ?thesis
  proof cases
    case cloudflare
    then show ?thesis using c assms(2,3)
      by (simp add: s'_def failModelState_def finishFailure_def classifyFailure_def retryDeadline_def setsQuota_def
          applyCooldownFields_def cooldownQuota_def split_beta Let_def)
  next
    case quota
    then show ?thesis using q assms(2,3)
      by (simp add: s'_def failModelState_def finishFailure_def classifyFailure_def retryDeadline_def setsQuota_def
          quotaCase_def applyCooldownFields_def cooldownQuota_def split_beta Let_def)
  next
    case other
    then show ?thesis using t assms(2,3)
      by (auto simp: s'_def failModelState_def finishFailure_def classifyFailure_def retryDeadline_def setsQuota_def
          quotaCase_def recoverableFailureRetryAfter_def nextTransientErrorRetryAfter_def transientErrorCooldown_def
          Let_def split: if_splits)
  next
    case grant
    have "classifyFailure env False result now (startFailure result now s) =
        (startFailure result now s)\<lparr>ms_NextRetryAfter := now + 30 * Minute\<rparr>"
      using grant by (auto simp: classifyFailure_def Let_def)
    then show ?thesis using grant assms(2,3)
      by (auto simp: s'_def failModelState_def finishFailure_def retryDeadline_def setsQuota_def quotaCase_def Let_def
          split: if_splits)
  next
    case missing
    have "classifyFailure env False result now (startFailure result now s) =
        (startFailure result now s)\<lparr>ms_NextRetryAfter := now + 12 * Hour\<rparr>"
      using missing by (simp add: classifyFailure_def Let_def)
    then show ?thesis using missing assms(2,3)
      by (auto simp: s'_def failModelState_def finishFailure_def retryDeadline_def setsQuota_def quotaCase_def Let_def
          split: if_splits)
  next
    case support
    have "classifyFailure env False result now (startFailure result now s) =
        (startFailure result now s)\<lparr>ms_NextRetryAfter := now + 12 * Hour\<rparr>"
      using support by (simp add: classifyFailure_def Let_def)
    then show ?thesis using support assms(2,3)
      by (auto simp: s'_def failModelState_def finishFailure_def retryDeadline_def setsQuota_def quotaCase_def Let_def
          split: if_splits)
  qed
qed

section \<open>The credential after a failure\<close>

lemma agg_credential_quota:
  "now \<le> t \<Longrightarrow> credentialQuotaActive (updateAggregatedAvailability a now) t = credentialQuotaActive a t"
  by (auto simp: updateAggregatedAvailability_def credentialQuotaActive_def clearAggregatedAvailability_def
      applyCooldownFields_def emptyQuota_def Let_def)

lemma agg_fields [simp]:
  "auth_Disabled (updateAggregatedAvailability a now) = auth_Disabled a"
  "auth_Status (updateAggregatedAvailability a now) = auth_Status a"
  "auth_ID (updateAggregatedAvailability a now) = auth_ID a"
  "auth_Generation (updateAggregatedAvailability a now) = auth_Generation a"
  "auth_RegistrationEpoch (updateAggregatedAvailability a now) = auth_RegistrationEpoch a"
  "auth_Provider (updateAggregatedAvailability a now) = auth_Provider a"
  "auth_Metadata (updateAggregatedAvailability a now) = auth_Metadata a"
  "auth_Attributes (updateAggregatedAvailability a now) = auth_Attributes a"
  by (simp_all add: updateAggregatedAvailability_def clearAggregatedAvailability_def Let_def)

lemma agg_state:
  assumes "map_of (auth_ModelStates a) k = Some (Some s)" "liftExpired now s = s"
  shows "map_of (auth_ModelStates (updateAggregatedAvailability a now)) k = Some (Some s)"
  using assms map_of_mapped[of "\<lambda>k. map_option (liftExpired now)" "auth_ModelStates a" k]
  by (simp add: aggregated_states)

lemma lift_quota [simp]: "ms_Quota (liftExpired now s) = ms_Quota s"
  by (simp add: liftExpired_def)

lemma agg_state_quota:
  assumes "map_of (auth_ModelStates a) k = Some (Some s)"
  obtains s' where "map_of (auth_ModelStates (updateAggregatedAvailability a now)) k = Some (Some s')"
    "ms_Quota s' = ms_Quota s"
  using assms map_of_mapped[of "\<lambda>k. map_option (liftExpired now)" "auth_ModelStates a" k]
    that[of s] that[of "liftExpired now s"]
  by (cases "credentialQuotaActive a now") (simp_all add: aggregated_states)

text \<open>The credential as \<open>failModel\<close> hands it to the aggregation.\<close>

definition wholeCredential :: "cooldown_env \<Rightarrow> Result \<Rightarrow> auth \<Rightarrow> bool" where
  "wholeCredential env result a \<longleftrightarrow> quotaCase result \<and> rs_CredentialScope result \<and> \<not> coolingDisabled env result a"

lemma failModel_split:
  assumes "plain_states a" "plain_key k" "\<not> shouldSkipCredentialCooldown (ce_gjson_Get env) (rs_Error result)"
  obtains b where "failModel env result k now a = updateAggregatedAvailability b now"
    "auth_Disabled b = auth_Disabled a" "auth_Status b = StatusError" "plain_states b"
    "map_of (auth_ModelStates b) k =
       Some (Some (failModelState env (coolingDisabled env result a) result now (stateAt a k)))"
    "\<not> wholeCredential env result a \<Longrightarrow> auth_Quota b = auth_Quota a"
    "wholeCredential env result a \<Longrightarrow> q_Exceeded (auth_Quota b) \<and> q_Reason (auth_Quota b) = ''credential_quota'' \<and>
       fst (quotaFailure False (rs_RetryAfter result) (ms_Quota (stateAt a k)) now) \<le> q_NextRecoverAt (auth_Quota b)"
    "\<not> wholeCredential env result a \<Longrightarrow> auth_ModelStates b = AList.update k
       (Some (failModelState env (coolingDisabled env result a) result now (stateAt a k))) (auth_ModelStates a)"
proof -
  let ?d = "coolingDisabled env result a"
  let ?s' = "failModelState env ?d result now (stateAt a k)"
  let ?a2 = "setState k ?s' a"
  define a3 where "a3 = (case rs_Error result of
      None \<Rightarrow> ?a2
    | Some e \<Rightarrow> ?a2\<lparr>auth_LastError := Some e,
          auth_StatusMessage := (if isCloudflareChallengeResultError (Some e) \<and> \<not> isModelSupportResultError (Some e)
                                 then ''cloudflare challenge'' else err_Message e)\<rparr>)"
  have a3: "auth_ModelStates a3 = auth_ModelStates ?a2" "auth_Quota a3 = auth_Quota a" "auth_Disabled a3 = auth_Disabled a"
    by (simp_all add: a3_def split: option.split)
  have st: "stateAt (setState k (stateAt a k) a) k = stateAt a k" by (simp add: stateAt_def map_of_update)
  let ?nx = "quotaFailure ?d (rs_RetryAfter result) (ms_Quota (stateAt a k)) now"
  define b where "b = (if wholeCredential env result a then scopeCredential k (fst ?nx) (snd ?nx) a3 else a3)
      \<lparr>auth_Status := StatusError\<rparr>"
  have "failModel env result k now a = updateAggregatedAvailability b now"
    using assms
    unfolding failModel_def Let_def ensure_plain[OF assms(1,2)] plain_keyD(1)[OF assms(2)] updateState_setState st
      a3_def[symmetric] b_def wholeCredential_def split_beta
    by simp
  moreover have "plain_states b"
  proof -
    have "plain_states a3" using plain_setState[OF assms(1,2), of ?s'] a3(1) plain_states_cong by blast
    then show ?thesis
      by (auto simp: b_def scopeCredential_def plain_states_def o_def split_def Let_def)
  qed
  moreover have "map_of (auth_ModelStates b) k = Some (Some ?s')"
    using map_of_mapped[of "\<lambda>model state. if model = k then state else map_option (scopeOtherState (fst ?nx) (snd ?nx)) state"
        "auth_ModelStates a3" k] a3(1)
    by (simp add: b_def scopeCredential_def Let_def map_of_update)
  moreover have "auth_Disabled b = auth_Disabled a" "auth_Status b = StatusError"
    using a3(3) by (simp_all add: b_def scopeCredential_def Let_def)
  moreover have "\<not> wholeCredential env result a \<Longrightarrow> auth_Quota b = auth_Quota a"
    using a3(2) by (simp add: b_def)
  moreover have "wholeCredential env result a \<Longrightarrow>
      q_Exceeded (auth_Quota b) \<and> q_Reason (auth_Quota b) = ''credential_quota'' \<and>
      fst (quotaFailure False (rs_RetryAfter result) (ms_Quota (stateAt a k)) now) \<le> q_NextRecoverAt (auth_Quota b)"
    by (simp add: b_def scopeCredential_def Let_def) (simp add: wholeCredential_def)
  moreover have "\<not> wholeCredential env result a \<Longrightarrow> auth_ModelStates b = AList.update k (Some ?s') (auth_ModelStates a)"
    using a3(1) by (simp add: b_def)
  ultimately show thesis by (intro that)
qed

text \<open>The verdict on the model, for a failure that has a deadline in the future.\<close>

lemma failModel_verdict:
  assumes "plain_states a" "plain_key k" "\<not> shouldSkipCredentialCooldown (ce_gjson_Get env) (rs_Error result)"
    and "\<not> coolingDisabled env result a" "\<not> auth_Disabled a" "0 \<le> now" "now \<le> t"
    and "sane env (ms_Quota (stateAt a k))" "now < retryDeadline env result now (ms_Quota (stateAt a k))"
    and "m \<noteq> []" "canonicalModelKey m = k"
  shows "fst (isAuthBlockedForModel (Some (failModel env result k now a)) m t) \<longleftrightarrow>
    t < failureDeadline env result now (ms_Quota (stateAt a k)) \<or> credentialQuotaActive (failModel env result k now a) t"
proof -
  let ?a' = "failModel env result k now a" and ?s' = "failModelState env False result now (stateAt a k)"
  obtain b where b: "?a' = updateAggregatedAvailability b now" "auth_Disabled b = auth_Disabled a"
    "auth_Status b = StatusError" "plain_states b" "map_of (auth_ModelStates b) k = Some (Some ?s')"
    using failModel_split[OF assms(1-3), of now thesis] assms(4) by simp
  note s' = failModelState_table[OF assms(8,9,6)]
  have "liftExpired now ?s' = ?s'" using s' assms(9) by (simp add: liftExpired_def)
  then have st: "map_of (auth_ModelStates ?a') k = Some (Some ?s')" unfolding b(1) by (rule agg_state[OF b(5)])
  have pl: "plain_states ?a'" unfolding b(1) by (rule plain_aggregated[OF b(4)])
  have off: "\<not> auth_off ?a'" using b(1-3) assms(5) by (simp add: auth_off_def)
  have ne: "auth_ModelStates ?a' \<noteq> []" using st by auto
  have "fst (model_verdict ?a' k t) \<longleftrightarrow> t < failureDeadline env result now (ms_Quota (stateAt a k))"
    using s' assms(6,7,9)
    by (auto simp: model_verdict_def st state_verdict_def availabilityBlock_alt failureDeadline_def)
  then show ?thesis
    using blocked_plain[OF pl _ assms(10) ne, of t] off assms(6,7,11) by simp
qed

end
