(* ===== verification/CooldownSpec.thy ===== *)
theory CooldownSpec
  imports MarkFacts
begin

text \<open>
  What the cooldown state machine promises: how long a failed model is blocked, which failures never block,
  what a success lifts, how repeated quota failures escalate, and that a saved cooldown is restored.
\<close>

section \<open>Settling and marking\<close>

lemma model_key_plain: "plain_key k \<Longrightarrow> canonicalModelKey (rs_Model result) = k \<Longrightarrow> resultModelKey env result a = k"
  by (simp add: resultModelKey_def Let_def)

lemma mark_settled:
  "alike_auths (settleResult env result (resultModelKey env result a) now (countResult result now a)) (markAuth env result headers now a)"
  unfolding markAuth_def Let_def
  by (rule alike_trans[OF _ observe_alike]) (simp add: alike_auths_def alike_list_refl)

lemma cooling_cong:
  assumes "auth_Provider b = auth_Provider a" "auth_Attributes b = auth_Attributes a" "auth_Metadata b = auth_Metadata a"
  shows "coolingDisabled env result b = coolingDisabled env result a"
  unfolding coolingDisabled_def quotaCooldownDisabledForAuthWithConfig_def DisableCoolingOverride_def
    providerCoolingOverrideForAuth_def authAttribute_def assms ..

lemma count_cooling [simp]: "coolingDisabled env result (countResult result now a) = coolingDisabled env result a"
  by (rule cooling_cong) simp_all

lemma count_credential_quota [simp]: "credentialQuotaActive (countResult result now a) t = credentialQuotaActive a t"
  by (simp add: credentialQuotaActive_def)

lemma count_stateAt [simp]: "stateAt (countResult result now a) k = stateAt a k"
  by (simp add: stateAt_def)

text \<open>What no result changes.\<close>

definition same_identity :: "auth \<Rightarrow> auth \<Rightarrow> bool" where
  "same_identity a b \<longleftrightarrow> auth_ID b = auth_ID a \<and> auth_RegistrationEpoch b = auth_RegistrationEpoch a \<and>
     auth_Generation b = auth_Generation a \<and> auth_Provider b = auth_Provider a \<and> auth_Disabled b = auth_Disabled a \<and>
     auth_Attributes b = auth_Attributes a \<and> auth_Metadata b = auth_Metadata a"

lemma same_refl [simp]: "same_identity a a"
  by (simp add: same_identity_def)

lemma same_trans: "same_identity a b \<Longrightarrow> same_identity b c \<Longrightarrow> same_identity a c"
  by (simp add: same_identity_def)

lemma same_update: "same_identity a (updateState k f a)" "same_identity a (updateAggregatedAvailability a now)"
  "same_identity a (normalizeModelStates a)" "same_identity a (scopeCredential k next level a)"
  "same_identity a (countResult result now a)" "same_identity a (clearAuthStateOnSuccess a now)"
  by (simp_all add: same_identity_def updateState_def normalizeModelStates_def scopeCredential_def
      clearAuthStateOnSuccess_def Let_def split_beta updateAggregatedAvailability_def clearAggregatedAvailability_def
      split: option.split)

lemma same_ensure: "same_identity a (ensureModelState a model)"
  using same_update(3)[of a] by (auto simp: ensureModelState_def Let_def same_identity_def split: option.split)

lemma same_upd:
  "same_identity a b \<Longrightarrow> same_identity a (b\<lparr>auth_Unavailable := u\<rparr>)"
  "same_identity a b \<Longrightarrow> same_identity a (b\<lparr>auth_Status := st\<rparr>)"
  "same_identity a b \<Longrightarrow> same_identity a (b\<lparr>auth_StatusMessage := msg\<rparr>)"
  "same_identity a b \<Longrightarrow> same_identity a (b\<lparr>auth_Quota := q\<rparr>)"
  "same_identity a b \<Longrightarrow> same_identity a (b\<lparr>auth_LastError := e\<rparr>)"
  "same_identity a b \<Longrightarrow> same_identity a (b\<lparr>auth_UpdatedAt := t\<rparr>)"
  "same_identity a b \<Longrightarrow> same_identity a (b\<lparr>auth_NextRetryAfter := t\<rparr>)"
  "same_identity a x \<Longrightarrow> same_identity a y \<Longrightarrow> same_identity a (if c then x else y)"
  "same_identity a x \<Longrightarrow> (\<And>e. same_identity a (f e)) \<Longrightarrow> same_identity a (case eo of None \<Rightarrow> x | Some e \<Rightarrow> f e)"
  by (simp_all add: same_identity_def split: option.split)

lemmas same_through = same_trans[OF _ same_update(1)] same_trans[OF _ same_update(2)] same_trans[OF _ same_update(4)]
  same_trans[OF _ same_ensure]

lemma same_fail: "same_identity a (failModel env result k now a)"
  unfolding failModel_def Let_def split_beta
  by (intro same_upd same_through same_refl)

lemma same_success: "same_identity a (succeedModel k now a)"
  unfolding succeedModel_def Let_def
  by (intro same_upd same_through same_refl)

lemma same_auth_failure: "same_identity a (applyAuthFailureState env eo ra now d a)"
  unfolding applyAuthFailureState_def Let_def split_beta
  by (intro same_upd same_refl)

lemma mark_identity: "same_identity (a\<lparr>auth_Generation := auth_Generation a + 1\<rparr>) (markAuth env result headers now a)"
proof -
  let ?s = "settleResult env result (resultModelKey env result a) now (countResult result now a)"
  have "same_identity (countResult result now a) ?s"
    by (simp add: settleResult_def same_success same_fail same_auth_failure same_update(6))
  then have "same_identity a ?s" by (rule same_trans[OF same_update(5)])
  then show ?thesis
    by (auto simp: markAuth_def Let_def observeResult_def same_identity_def updateState_def split: option.split)
qed

lemma mark_cooling: "coolingDisabled env r (markAuth env result headers now a) = coolingDisabled env r a"
  by (rule cooling_cong) (use mark_identity[of a env result headers now] in \<open>simp_all add: same_identity_def\<close>)

lemma alike_plain: "alike_auths a b \<Longrightarrow> plain_states a \<Longrightarrow> plain_states b"
proof -
  assume l: "alike_auths a b" "plain_states a"
  have "map fst ms = map fst ms'" if "list_all2 (\<lambda>(k, x) (k', y). k = k' \<and> alike x y) ms ms'" for ms ms'
    using that by (induction rule: list_all2_induct) auto
  from this[of "auth_ModelStates a" "auth_ModelStates b"] l(1)
  have "map fst (auth_ModelStates a) = map fst (auth_ModelStates b)" by (simp add: alike_auths_def)
  then show ?thesis using l(2) by (simp add: plain_states_def)
qed

lemma alike_stateAt:
  assumes "alike_auths a b" "map_of (auth_ModelStates a) k = Some (Some s)"
  obtains s' where "map_of (auth_ModelStates b) k = Some (Some s')" "alike (Some s) (Some s')"
proof -
  have "alike (Some s) y \<Longrightarrow> \<exists>s'. y = Some s'" for y by (cases y) (simp_all add: alike_def)
  moreover have "\<exists>y. map_of ms' k = Some y \<and> alike (Some s) y"
    if "list_all2 (\<lambda>(k, x) (k', y). k = k' \<and> alike x y) ms ms'" "map_of ms k = Some (Some s)" for ms ms'
    using that by (induction rule: list_all2_induct) (auto split: if_splits)
  ultimately show thesis using assms that unfolding alike_auths_def by metis
qed

lemma mark_failed:
  assumes "plain_key k" "canonicalModelKey (rs_Model result) = k" "\<not> rs_Success result"
  shows "alike_auths (failModel env result k now (countResult result now a)) (markAuth env result headers now a)"
  using mark_settled[of env result a now headers] assms
  by (simp add: settleResult_def model_key_plain)

lemma alike_quota: "alike_auths a b \<Longrightarrow> credentialQuotaActive b t = credentialQuotaActive a t"
  by (simp add: alike_auths_def credentialQuotaActive_def)

lemma failModel_quota:
  assumes "plain_states a" "plain_key k" "\<not> wholeCredential env result a" "now \<le> t"
  shows "credentialQuotaActive (failModel env result k now a) t = credentialQuotaActive a t"
proof (cases "shouldSkipCredentialCooldown (ce_gjson_Get env) (rs_Error result)")
  case False
  obtain b where "failModel env result k now a = updateAggregatedAvailability b now" "auth_Quota b = auth_Quota a"
    using failModel_split[OF assms(1,2) False, of now thesis] assms(3) by simp
  then show ?thesis using agg_credential_quota[OF assms(4), of b] by (simp add: credentialQuotaActive_def)
qed (simp add: failModel_def)

section \<open>How long a failure blocks\<close>

text \<open>C8. A failure blocks the model it concerns exactly until its deadline: after \<open>MarkResult\<close> has
  recorded the failure (cooling enabled, not a fault of the request, not a quota of the whole credential),
  the credential is blocked for the model at a later time if and only if that time is before the deadline
  of the table \<open>failureDeadline\<close>.\<close>

theorem failure_blocks_until:
  assumes "plain_states a" "plain_key k" "canonicalModelKey (rs_Model result) = k" "\<not> rs_Success result"
    and "\<not> shouldSkipCredentialCooldown (ce_gjson_Get env) (rs_Error result)" "\<not> coolingDisabled env result a"
    and "\<not> wholeCredential env result a" "\<not> auth_Disabled a" "\<not> credentialQuotaActive a t"
    and "sane env (ms_Quota (stateAt a k))" "now < retryDeadline env result now (ms_Quota (stateAt a k))"
    and "0 \<le> now" "now \<le> t" "m \<noteq> []" "canonicalModelKey m = k"
  shows "fst (isAuthBlockedForModel (Some (markAuth env result headers now a)) m t) \<longleftrightarrow>
    t < failureDeadline env result now (ms_Quota (stateAt a k))"
proof -
  let ?a = "countResult result now a"
  have w: "\<not> wholeCredential env result ?a" using assms(7) by (simp add: wholeCredential_def)
  have "fst (isAuthBlockedForModel (Some (markAuth env result headers now a)) m t) =
      fst (isAuthBlockedForModel (Some (failModel env result k now ?a)) m t)"
    using alike_blocked[OF mark_failed[OF assms(2-4)]] by simp
  then show ?thesis
    using failModel_verdict[of ?a k env result now t m] failModel_quota[OF _ assms(2) w assms(13)] assms by simp
qed

text \<open>A quota failure of the whole credential blocks every model: until the deadline of the failure, the
  credential is blocked for every model, known or not, and the reported retry time is not before it.\<close>

theorem credential_quota_blocks_all:
  assumes "plain_states a" "plain_key k" "canonicalModelKey (rs_Model result) = k" "\<not> rs_Success result"
    and "\<not> shouldSkipCredentialCooldown (ce_gjson_Get env) (rs_Error result)"
    and "wholeCredential env result a" "\<not> auth_Disabled a" "sane env (ms_Quota (stateAt a k))"
    and "now \<le> t" "t < retryDeadline env result now (ms_Quota (stateAt a k))"
  shows "\<exists>until \<ge> retryDeadline env result now (ms_Quota (stateAt a k)).
    isAuthBlockedForModel (Some (markAuth env result headers now a)) m t = (True, blockReasonCooldown, until)"
proof -
  let ?a = "countResult result now a"
  have w: "wholeCredential env result ?a" using assms(6) by (simp add: wholeCredential_def)
  have dl: "retryDeadline env result now (ms_Quota (stateAt a k)) =
      fst (quotaFailure False (rs_RetryAfter result) (ms_Quota (stateAt a k)) now)"
    using assms(6,8) quotaFailure_table[of "ms_Quota (stateAt a k)"]
    by (simp add: wholeCredential_def quotaCase_def retryDeadline_def sane_def Let_def)
  obtain b where b: "failModel env result k now ?a = updateAggregatedAvailability b now"
    "auth_Disabled b = auth_Disabled ?a" "auth_Status b = StatusError"
    "q_Exceeded (auth_Quota b) \<and> q_Reason (auth_Quota b) = ''credential_quota'' \<and>
       fst (quotaFailure False (rs_RetryAfter result) (ms_Quota (stateAt ?a k)) now) \<le> q_NextRecoverAt (auth_Quota b)"
    using failModel_split[of ?a k env result now thesis] assms(1,2,5) w by simp
  let ?r = "failModel env result k now ?a"
  have at_t: "t < q_NextRecoverAt (auth_Quota b)" using b(4) dl assms(10) by simp
  then have "credentialQuotaActive b now" using b(4) assms(9) by (simp add: credentialQuotaActive_def)
  then have "auth_Quota ?r = auth_Quota b" unfolding b(1) by (simp add: updateAggregatedAvailability_def)
  then have "isAuthBlockedForModel (Some ?r) m t = (True, blockReasonCooldown, q_NextRecoverAt (auth_Quota b))"
    using b assms(7) at_t by (simp add: isAuthBlockedForModel_def)
  moreover have "isAuthBlockedForModel (Some (markAuth env result headers now a)) m t = isAuthBlockedForModel (Some ?r) m t"
    using alike_blocked[OF mark_failed[OF assms(2-4)]] by simp
  ultimately show ?thesis using b(4) dl by auto
qed

section \<open>Failures that must not block\<close>

lemma settle_skipped:
  assumes "\<not> rs_Success result" "shouldSkipCredentialCooldown (ce_gjson_Get env) (rs_Error result)"
  shows "settleResult env result k now a = a"
  using assms by (simp add: settleResult_def failModel_def applyAuthFailureState_def)

text \<open>C10. A failure that is the fault of the request or of the connection (and no failure forced by an
  operator) changes no availability: the verdict on the credential stays what it was, for every model and
  at every time, with or without a model in the result.\<close>

theorem skipped_failure_neutral:
  assumes "\<not> rs_Success result" "shouldSkipCredentialCooldown (ce_gjson_Get env) (rs_Error result)"
  shows "isAuthBlockedForModel (Some (markAuth env result headers now a)) m t = isAuthBlockedForModel (Some a) m t"
proof -
  have "alike_auths a (countResult result now a)" by (simp add: alike_auths_def alike_list_refl)
  from alike_trans[OF this mark_settled[of env result a now headers, unfolded settle_skipped[OF assms]]]
  show ?thesis by (simp add: alike_blocked)
qed

text \<open>With cooling disabled.\<close>

lemma disabled_failure_state:
  fixes env :: cooldown_env and now :: go_time
  assumes "\<not> isModelSupportResultError (rs_Error result)" "\<not> forcesCooldown (rs_Error result)"
    and "q_NextRecoverAt (ms_Quota s) = 0"
  defines "s' \<equiv> failModelState env True result now s"
  shows "ms_Status s' = StatusError \<and> \<not> ms_Unavailable s' \<and> \<not> q_Exceeded (ms_Quota s')"
proof -
  define c where "c = classifyFailure env True result now (startFailure result now s)"
  have c: "ms_Status c = StatusError \<and> ms_NextRetryAfter c = 0 \<and> q_NextRecoverAt (ms_Quota c) = 0"
    using assms(1,3)
    by (auto simp: c_def classifyFailure_def Let_def nextCloudflareCooldown_def quotaFailure_def
        applyCooldownFields_def cooldownQuota_def recoverableFailureRetryAfter_def)
  have "s' = finishFailure True result now c" by (simp add: s'_def c_def failModelState_def)
  then show ?thesis using c assms(2) by (simp add: finishFailure_def)
qed

text \<open>With cooling disabled, by the credential, its provider or the configuration, no failure blocks the
  model, except one that says that the credential's account does not support it.\<close>

theorem disabled_cooling_never_blocks:
  assumes "plain_states a" "plain_key k" "canonicalModelKey (rs_Model result) = k" "\<not> rs_Success result"
    and "\<not> shouldSkipCredentialCooldown (ce_gjson_Get env) (rs_Error result)" "coolingDisabled env result a"
    and "\<not> isModelSupportResultError (rs_Error result)" "q_NextRecoverAt (ms_Quota (stateAt a k)) = 0"
    and "\<not> auth_Disabled a" "\<not> credentialQuotaActive a t" "0 \<le> now" "now \<le> t" "m \<noteq> []" "canonicalModelKey m = k"
  shows "\<not> fst (isAuthBlockedForModel (Some (markAuth env result headers now a)) m t)"
proof -
  let ?a = "countResult result now a"
  let ?r = "failModel env result k now ?a" and ?s' = "failModelState env True result now (stateAt a k)"
  have nf: "\<not> forcesCooldown (rs_Error result)" using assms(6) by (auto simp: coolingDisabled_def split: if_splits)
  have w: "\<not> wholeCredential env result ?a" using assms(6) by (simp add: wholeCredential_def)
  obtain b where b: "?r = updateAggregatedAvailability b now" "auth_Disabled b = auth_Disabled a"
    "auth_Status b = StatusError" "plain_states b" "map_of (auth_ModelStates b) k = Some (Some ?s')"
    using failModel_split[of ?a k env result now thesis] assms(1,2,5,6) by simp
  note s' = disabled_failure_state[OF assms(7) nf assms(8), of env now]
  have "liftExpired now ?s' = ?s'" using s' by (simp add: liftExpired_def)
  then have st: "map_of (auth_ModelStates ?r) k = Some (Some ?s')" unfolding b(1) by (rule agg_state[OF b(5)])
  have pl: "plain_states ?r" unfolding b(1) by (rule plain_aggregated[OF b(4)])
  have "\<not> auth_off ?r" using b(1-3) assms(9) by (simp add: auth_off_def)
  moreover have "auth_ModelStates ?r \<noteq> []" using st by auto
  moreover have "\<not> fst (model_verdict ?r k t)"
    using s' by (simp add: model_verdict_def st state_verdict_def availabilityBlock_def)
  moreover have "\<not> credentialQuotaActive ?r t"
    using failModel_quota[OF _ assms(2) w assms(12)] assms(1,10) by simp
  ultimately have "\<not> fst (isAuthBlockedForModel (Some ?r) m t)"
    using blocked_plain[OF pl _ assms(13), of t] assms(11,12,14) by simp
  then show ?thesis using alike_blocked[OF mark_failed[OF assms(2-4)]] by simp
qed

section \<open>Success\<close>

lemma success_split:
  assumes "plain_states a" "plain_key k"
  obtains b where "auth_ModelStates (succeedModel k now a) = auth_ModelStates b"
    "auth_Quota (succeedModel k now a) = auth_Quota b" "auth_Disabled (succeedModel k now a) = auth_Disabled a"
    "auth_Status (succeedModel k now a) \<in> {auth_Status a, StatusActive}"
    "b = updateAggregatedAvailability (setState k (resetModelState now (stateAt a k)) a) now"
  using that assms
  by (auto simp: succeedModel_def ensure_plain updateState_setState Let_def)

text \<open>A success lifts the block of its model at once: when \<open>MarkResult\<close> has recorded it, the credential
  is free for the model from then on, whatever had been recorded for the model before.\<close>

theorem success_unblocks:
  assumes "plain_states a" "plain_key k" "canonicalModelKey (rs_Model result) = k" "rs_Success result"
    and "\<not> auth_off a" "\<not> (q_Reason (auth_Quota a) = ''credential_quota'' \<and> now < q_NextRecoverAt (auth_Quota a))"
    and "0 \<le> now" "now \<le> t" "m \<noteq> []" "canonicalModelKey m = k"
  shows "\<not> fst (isAuthBlockedForModel (Some (markAuth env result headers now a)) m t)"
proof -
  let ?a = "countResult result now a" and ?s = "resetModelState now (stateAt a k)"
  let ?r = "succeedModel k now ?a"
  have pl: "plain_states ?a" using assms(1) by simp
  obtain b where b: "auth_ModelStates ?r = auth_ModelStates b" "auth_Quota ?r = auth_Quota b"
    "auth_Disabled ?r = auth_Disabled ?a" "auth_Status ?r \<in> {auth_Status ?a, StatusActive}"
    "b = updateAggregatedAvailability (setState k (resetModelState now (stateAt ?a k)) ?a) now"
    using success_split[OF pl assms(2)] .
  have "liftExpired now ?s = ?s" by (simp add: liftExpired_def resetModelState_def)
  then have st: "map_of (auth_ModelStates ?r) k = Some (Some ?s)"
    unfolding b(1,5) count_stateAt by (intro agg_state) (simp add: map_of_update)
  have "plain_states b" unfolding b(5) by (intro plain_aggregated plain_setState pl assms(2))
  then have "plain_states ?r" using b(1) plain_states_cong by blast
  moreover have "\<not> auth_off ?r" using b(3,4) assms(5) by (auto simp: auth_off_def)
  moreover have "auth_ModelStates ?r \<noteq> []" using st by auto
  moreover have "\<not> fst (model_verdict ?r k t)"
    by (simp add: model_verdict_def st state_verdict_def availabilityBlock_def resetModelState_def
        applyCooldownFields_def emptyQuota_def)
  moreover have "credentialQuotaActive ?r t = credentialQuotaActive b t" by (simp add: credentialQuotaActive_def b(2))
  then have "credentialQuotaActive ?r t = credentialQuotaActive a t"
    unfolding b(5) agg_credential_quota[OF assms(8)] by (simp add: credentialQuotaActive_def)
  then have "\<not> credentialQuotaActive ?r t" using assms(6,8) by (auto simp: credentialQuotaActive_def)
  ultimately have "\<not> fst (isAuthBlockedForModel (Some ?r) m t)"
    using blocked_plain[of ?r t m] assms(7-10) by simp
  moreover have "settleResult env result (resultModelKey env result a) now ?a = ?r"
    using assms(2,4,6) by (auto simp: settleResult_def model_key_plain[OF assms(2,3)])
  ultimately show ?thesis
    using alike_blocked[OF mark_settled[of env result a now headers]] by simp
qed

section \<open>Repeated quota failures\<close>

text \<open>
  A quota window: its level and its end. A failure inside the window leaves it, a failure after it opens
  the next one, twice as long up to half an hour.
\<close>

definition quotaStep :: "nat \<times> go_time \<Rightarrow> go_time \<Rightarrow> nat \<times> go_time" where
  "quotaStep w now =
     (if now < snd w then w else (if fst w < 11 then fst w + 1 else fst w, now + ladder (fst w)))"

definition windowOf :: "auth \<Rightarrow> string \<Rightarrow> nat \<times> go_time" where
  "windowOf a k = (nat (q_BackoffLevel (ms_Quota (stateAt a k))), q_NextRecoverAt (ms_Quota (stateAt a k)))"

text \<open>A quota failure of the model that names no time, and the credential after a sequence of results.\<close>

definition plain_quota_failure :: "cooldown_env \<Rightarrow> auth \<Rightarrow> string \<Rightarrow> Result \<Rightarrow> bool" where
  "plain_quota_failure env a k result \<longleftrightarrow>
     canonicalModelKey (rs_Model result) = k \<and> \<not> rs_Success result \<and> quotaCase result \<and> rs_RetryAfter result = None \<and>
     \<not> rs_CredentialScope result \<and> \<not> shouldSkipCredentialCooldown (ce_gjson_Get env) (rs_Error result) \<and>
     \<not> coolingDisabled env result a"

fun markAll :: "cooldown_env \<Rightarrow> (Result \<times> header \<times> go_time) list \<Rightarrow> auth \<Rightarrow> auth" where
  "markAll env [] a = a"
| "markAll env ((result, headers, now) # rs) a = markAll env rs (markAuth env result headers now a)"

lemma quota_failure_state:
  assumes "quotaCase result" "rs_RetryAfter result = None" "0 \<le> q_BackoffLevel (ms_Quota s)" "q_BackoffLevel (ms_Quota s) \<le> 33"
    and "0 \<le> now"
  shows "(nat (q_BackoffLevel (ms_Quota (failModelState env False result now s))),
      q_NextRecoverAt (ms_Quota (failModelState env False result now s))) =
    quotaStep (nat (q_BackoffLevel (ms_Quota s)), q_NextRecoverAt (ms_Quota s)) now"
    and "0 \<le> q_BackoffLevel (ms_Quota (failModelState env False result now s))"
    and "q_BackoffLevel (ms_Quota (failModelState env False result now s)) \<le> 33"
proof -
  define q where "q = ms_Quota s"
  define f where "f = quotaFailure False None q now"
  have bnd: "0 \<le> q_BackoffLevel q" "q_BackoffLevel q \<le> 33" using assms(3,4) by (simp_all add: q_def)
  have "f = (if now < q_NextRecoverAt q then (q_NextRecoverAt q, q_BackoffLevel q)
      else (now + ladder (nat (q_BackoffLevel q)), if q_BackoffLevel q < 11 then q_BackoffLevel q + 1 else q_BackoffLevel q))"
    using nextQuotaCooldown_ladder[OF bnd] ladder_pos[of "nat (q_BackoffLevel q)"]
    by (auto simp: f_def quotaFailure_def quotaCooldownAfterFailure_def Let_def simp del: ladder_pos)
  moreover have "q_BackoffLevel (ms_Quota (failModelState env False result now s)) = snd f \<and>
      q_NextRecoverAt (ms_Quota (failModelState env False result now s)) = fst f"
    using assms(1,2) by (simp add: failModelState_def finishFailure_def classifyFailure_def quotaCase_def Let_def
        f_def q_def applyCooldownFields_def cooldownQuota_def split_beta)
  ultimately show "(nat (q_BackoffLevel (ms_Quota (failModelState env False result now s))),
      q_NextRecoverAt (ms_Quota (failModelState env False result now s))) =
    quotaStep (nat (q_BackoffLevel (ms_Quota s)), q_NextRecoverAt (ms_Quota s)) now"
    "0 \<le> q_BackoffLevel (ms_Quota (failModelState env False result now s))"
    "q_BackoffLevel (ms_Quota (failModelState env False result now s)) \<le> 33"
    using bnd by (auto simp: quotaStep_def q_def[symmetric])
qed

lemma mark_quota_step:
  fixes headers :: header
  assumes "plain_states a" "plain_key k" "plain_quota_failure env a k result" "0 \<le> now"
    and "0 \<le> q_BackoffLevel (ms_Quota (stateAt a k))" "q_BackoffLevel (ms_Quota (stateAt a k)) \<le> 33"
  defines "a' \<equiv> markAuth env result headers now a"
  shows "windowOf a' k = quotaStep (windowOf a k) now" "plain_states a'"
    and "0 \<le> q_BackoffLevel (ms_Quota (stateAt a' k))" "q_BackoffLevel (ms_Quota (stateAt a' k)) \<le> 33"
proof -
  let ?a = "countResult result now a"
  let ?r = "failModel env result k now ?a" and ?s' = "failModelState env False result now (stateAt a k)"
  have p: "canonicalModelKey (rs_Model result) = k" "\<not> rs_Success result" "quotaCase result" "rs_RetryAfter result = None"
    "\<not> shouldSkipCredentialCooldown (ce_gjson_Get env) (rs_Error result)" "\<not> coolingDisabled env result a"
    using assms(3) by (simp_all add: plain_quota_failure_def)
  obtain b where b: "?r = updateAggregatedAvailability b now" "plain_states b"
    "map_of (auth_ModelStates b) k = Some (Some ?s')"
    using failModel_split[of ?a k env result now thesis] assms(1,2) p by simp
  obtain s'' where s'': "map_of (auth_ModelStates ?r) k = Some (Some s'')" "ms_Quota s'' = ms_Quota ?s'"
    using agg_state_quota[OF b(3)] unfolding b(1) .
  have al: "alike_auths ?r a'" unfolding a'_def by (rule mark_failed[OF assms(2) p(1,2)])
  obtain s where s: "map_of (auth_ModelStates a') k = Some (Some s)" "alike (Some s'') (Some s)"
    using alike_stateAt[OF al s''(1)] .
  then have "stateAt a' k = s" "q_BackoffLevel (ms_Quota s) = q_BackoffLevel (ms_Quota ?s')"
    "q_NextRecoverAt (ms_Quota s) = q_NextRecoverAt (ms_Quota ?s')"
    using s''(2) by (simp_all add: stateAt_def alike_def)
  then show "windowOf a' k = quotaStep (windowOf a k) now"
    "0 \<le> q_BackoffLevel (ms_Quota (stateAt a' k))" "q_BackoffLevel (ms_Quota (stateAt a' k)) \<le> 33"
    using quota_failure_state[OF p(3,4) assms(5,6,4)] by (simp_all add: windowOf_def)
  have "plain_states ?r" unfolding b(1) by (rule plain_aggregated[OF b(2)])
  then show "plain_states a'" by (rule alike_plain[OF al])
qed

text \<open>C9. Repeated quota failures refine a machine of quota windows: after any sequence of quota failures of a
  model that name no time, at whatever times, the level and the end of its window are those of the machine;
  a burst of failures escalates once, and the next window is twice as long, up to half an hour.\<close>

theorem quota_windows_refine:
  assumes "plain_states a" "plain_key k" "list_all (\<lambda>(result, _, now). plain_quota_failure env a k result \<and> 0 \<le> now) rs"
    and "0 \<le> q_BackoffLevel (ms_Quota (stateAt a k))" "q_BackoffLevel (ms_Quota (stateAt a k)) \<le> 33"
  shows "windowOf (markAll env rs a) k = foldl quotaStep (windowOf a k) (map (snd \<circ> snd) rs)"
  using assms
proof (induction rs arbitrary: a)
  case (Cons r rs)
  obtain result headers now where r: "r = (result, headers, now)" by (cases r)
  have f: "plain_quota_failure env a k result" "0 \<le> now" using Cons.prems(3) r by simp_all
  let ?a = "markAuth env result headers now a"
  note step = mark_quota_step[OF Cons.prems(1,2) f Cons.prems(4,5), of headers]
  have "plain_quota_failure env ?a k x = plain_quota_failure env a k x" for x
    by (simp add: plain_quota_failure_def mark_cooling)
  then have "list_all (\<lambda>(result, _, now). plain_quota_failure env ?a k result \<and> 0 \<le> now) rs"
    using Cons.prems(3) by simp
  from Cons.IH[OF step(2) Cons.prems(2) this step(3,4)] show ?case by (simp add: r step(1))
qed simp

section \<open>The other models\<close>

text \<open>A state that has no retry time, as a failure with cooling disabled leaves it, or whose quota is exceeded exactly when
  the quota has a recovery time.\<close>

definition steady :: "ModelState \<Rightarrow> bool" where
  "steady s \<longleftrightarrow> ms_NextRetryAfter s = 0 \<or> (q_Exceeded (ms_Quota s) \<longleftrightarrow> q_NextRecoverAt (ms_Quota s) \<noteq> 0)"

lemma lift_verdict:
  "steady s \<Longrightarrow> 0 \<le> now \<Longrightarrow> now \<le> t \<Longrightarrow> fst (state_verdict t (liftExpired now s)) = fst (state_verdict t s)"
  by (auto simp: steady_def state_verdict_def liftExpired_def availabilityBlock_alt max_def)

lemma other_verdict:
  assumes "auth_ModelStates b = AList.update k x (auth_ModelStates a)" "k' \<noteq> k" "0 \<le> now" "now \<le> t"
    and "\<And>s. map_of (auth_ModelStates a) k' = Some (Some s) \<Longrightarrow> steady s"
  shows "fst (model_verdict (updateAggregatedAvailability b now) k' t) = fst (model_verdict a k' t)"
proof -
  have same: "map_of (auth_ModelStates b) k' = map_of (auth_ModelStates a) k'"
    unfolding assms(1) using assms(2) by (simp add: map_of_update)
  have "map_of (auth_ModelStates (updateAggregatedAvailability b now)) k' \<in>
      {map_of (auth_ModelStates a) k', map_option (map_option (liftExpired now)) (map_of (auth_ModelStates a) k')}"
    using same map_of_mapped[of "\<lambda>k. map_option (liftExpired now)" "auth_ModelStates b" k']
    by (simp add: aggregated_states)
  then show ?thesis
    using assms(5) lift_verdict[OF _ assms(3,4)]
    by (auto simp: model_verdict_def split: option.split)
qed

lemma settle_cases:
  assumes "k \<noteq> []" "settleResult env result k now a \<noteq> a"
  shows "settleResult env result k now a = succeedModel k now a \<or>
    settleResult env result k now a = failModel env result k now a \<and>
    \<not> shouldSkipCredentialCooldown (ce_gjson_Get env) (rs_Error result)"
proof (cases "rs_Success result")
  case True
  then show ?thesis using assms by (auto simp: settleResult_def split: if_splits)
next
  case False
  then show ?thesis using assms settle_skipped[OF False, of env k now a] by (auto simp: settleResult_def)
qed

lemma settle_effect:
  assumes "plain_states a" "plain_key k" "\<not> wholeCredential env result a" "\<not> auth_off a" "now \<le> t"
    and "settleResult env result k now a \<noteq> a"
  obtains b x where "plain_states (settleResult env result k now a)" "\<not> auth_off (settleResult env result k now a)"
    "auth_ModelStates (settleResult env result k now a) = auth_ModelStates (updateAggregatedAvailability b now)"
    "auth_ModelStates b = AList.update k x (auth_ModelStates a)"
    "credentialQuotaActive (settleResult env result k now a) t = credentialQuotaActive a t"
  using settle_cases[OF plain_keyD(2)[OF assms(2)] assms(6)]
proof (elim disjE conjE)
  let ?s = "settleResult env result k now a"
  assume e: "?s = succeedModel k now a"
  obtain b where b: "auth_ModelStates ?s = auth_ModelStates b" "auth_Quota ?s = auth_Quota b"
    "auth_Disabled ?s = auth_Disabled a" "auth_Status ?s \<in> {auth_Status a, StatusActive}"
    "b = updateAggregatedAvailability (setState k (resetModelState now (stateAt a k)) a) now"
    using success_split[OF assms(1,2)] unfolding e .
  have "plain_states b" unfolding b(5) by (intro plain_aggregated plain_setState assms(1,2))
  then have "plain_states ?s" using b(1) plain_states_cong by blast
  moreover have "\<not> auth_off ?s" using b(3,4) assms(4) by (auto simp: auth_off_def)
  moreover have "credentialQuotaActive ?s t = credentialQuotaActive b t" by (simp add: credentialQuotaActive_def b(2))
  then have "credentialQuotaActive ?s t = credentialQuotaActive a t"
    unfolding b(5) agg_credential_quota[OF assms(5)] by (simp add: credentialQuotaActive_def)
  ultimately show thesis
    using that[of "setState k (resetModelState now (stateAt a k)) a" "Some (resetModelState now (stateAt a k))"] b(1,5)
    by simp
next
  let ?s = "settleResult env result k now a"
  assume e: "?s = failModel env result k now a" and n: "\<not> shouldSkipCredentialCooldown (ce_gjson_Get env) (rs_Error result)"
  obtain b where b: "?s = updateAggregatedAvailability b now" "auth_Disabled b = auth_Disabled a"
    "auth_Status b = StatusError" "plain_states b"
    "auth_ModelStates b = AList.update k (Some (failModelState env (coolingDisabled env result a) result now (stateAt a k)))
       (auth_ModelStates a)"
    using failModel_split[OF assms(1,2) n, of now thesis] assms(3) unfolding e by simp
  have "plain_states ?s" unfolding b(1) by (rule plain_aggregated[OF b(4)])
  moreover have "\<not> auth_off ?s" using b(1-3) assms(4) by (simp add: auth_off_def)
  moreover have "credentialQuotaActive ?s t = credentialQuotaActive a t"
    unfolding e by (rule failModel_quota[OF assms(1-3,5)])
  ultimately show thesis using that b(1,5) by metis
qed

text \<open>C11. A result for one model, success or failure, leaves the verdict on every other model of the credential as
  it was, at every later time, unless it is a quota failure of the whole credential or it gives the credential its
  first model state. In that last case a block that was recorded for the credential as a whole no longer counts: the
  other models are then blocked exactly while a quota of the whole credential is active. The credential is enabled,
  its states are kept under canonical model names, and the state of the other model, if there is one with a retry time, has
  an exceeded quota exactly when that quota has a recovery time.\<close>

theorem result_leaves_other_models:
  assumes "plain_states a" "plain_key k" "canonicalModelKey (rs_Model result) = k" "\<not> wholeCredential env result a"
    and "m \<noteq> []" "canonicalModelKey m \<noteq> k" "\<not> auth_off a" "0 \<le> now" "now \<le> t"
    and "\<And>s. map_of (auth_ModelStates a) (canonicalModelKey m) = Some (Some s) \<Longrightarrow> steady s"
  shows "fst (isAuthBlockedForModel (Some (markAuth env result headers now a)) m t) =
    (if auth_ModelStates a = [] \<and> auth_ModelStates (markAuth env result headers now a) \<noteq> []
     then credentialQuotaActive a t else fst (isAuthBlockedForModel (Some a) m t))"
proof -
  let ?a = "countResult result now a"
  let ?s = "settleResult env result k now ?a" and ?r = "markAuth env result headers now a"
  have key: "resultModelKey env result a = k" by (rule model_key_plain[OF assms(2,3)])
  have "alike_auths a ?a" by (simp add: alike_auths_def alike_list_refl)
  note base = alike_blocked[OF this, of m t]
  note top = alike_blocked[OF mark_settled[of env result a now headers, unfolded key], of m t]
  have states: "auth_ModelStates ?r = [] \<longleftrightarrow> auth_ModelStates ?s = []"
    using mark_settled[of env result a now headers, unfolded key] by (auto simp: alike_auths_def)
  show ?thesis
  proof (cases "?s = ?a")
    case True
    then have "auth_ModelStates ?r = [] \<longleftrightarrow> auth_ModelStates a = []" unfolding states by simp
    then show ?thesis using top base True by simp
  next
    case False
    have "plain_states ?a" "\<not> wholeCredential env result ?a" "\<not> auth_off ?a"
      using assms(1,4,7) by (simp_all add: wholeCredential_def auth_off_def)
    from settle_effect[OF this(1) assms(2) this(2,3) assms(9) False] obtain b x where b: "plain_states ?s" "\<not> auth_off ?s"
      "auth_ModelStates ?s = auth_ModelStates (updateAggregatedAvailability b now)"
      "auth_ModelStates b = AList.update k x (auth_ModelStates ?a)" "credentialQuotaActive ?s t = credentialQuotaActive ?a t" .
    have b4: "auth_ModelStates b = AList.update k x (auth_ModelStates a)" using b(4) by simp
    have ne: "auth_ModelStates ?s \<noteq> []" unfolding b(3) aggregated_states b4 by (cases "auth_ModelStates a") auto
    have "fst (model_verdict ?s (canonicalModelKey m) t) = fst (model_verdict a (canonicalModelKey m) t)"
      using other_verdict[OF b4 assms(6,8,9,10)] b(3) by (simp add: model_verdict_def)
    then have s: "fst (isAuthBlockedForModel (Some ?s) m t) =
        (credentialQuotaActive a t \<or> fst (model_verdict a (canonicalModelKey m) t))"
      using blocked_plain[OF b(1) _ assms(5) ne, of t] b(2,5) assms(8,9) by simp
    show ?thesis
    proof (cases "auth_ModelStates a = []")
      case True
      then have "\<not> fst (model_verdict a (canonicalModelKey m) t)" by (simp add: model_verdict_def)
      then show ?thesis using s top ne states True by simp
    next
      case False
      then show ?thesis using s top blocked_plain[OF assms(1) _ assms(5) False, of t] assms(7-9) by simp
    qed
  qed
qed

section \<open>Saving and restoring\<close>

lemma mergeModelState_fresh:
  assumes "0 \<le> ms_NextRetryAfter r" "ms_Unavailable r" "ms_Status r \<noteq> StatusDisabled"
  shows "ms_Status (the (mergeModelState (Some newModelState) (Some r))) = StatusError"
    "ms_Unavailable (the (mergeModelState (Some newModelState) (Some r)))"
    "ms_NextRetryAfter (the (mergeModelState (Some newModelState) (Some r))) = ms_NextRetryAfter r"
    "q_NextRecoverAt (ms_Quota (the (mergeModelState (Some newModelState) (Some r)))) =
       max 0 (q_NextRecoverAt (ms_Quota r))"
  using assms by (simp_all add: mergeModelState_def newModelState_def emptyQuota_def Let_def max_def)

text \<open>C12. A cooldown survives a restart: the record saved for a cooling model, restored before the cooldown ends
  into the registered credential that has no state for the model, blocks the model at exactly the times at
  which the saved state would have blocked it.\<close>

theorem restored_cooldown_blocks:
  assumes "modelCooldownStateRecord a k (Some s) now = Some rec" "plain_key k" "TrimSpace k = k"
    and "ms_Status s \<noteq> StatusDisabled" "TrimSpace (auth_ID a) = auth_ID a" "auth_ID a \<noteq> []"
    and "map_of auths (auth_ID a) = Some (Some b)" "plain_states b" "map_of (auth_ModelStates b) k = None"
    and "\<not> auth_off b" "\<not> quotaCooldownDisabledForAuthWithConfig env b" "\<not> credentialQuotaActive b t"
    and "0 \<le> restart" "restart < ms_NextRetryAfter s" "restart \<le> t" "m \<noteq> []" "canonicalModelKey m = k"
  shows "\<exists>b'. map_of (snd (restoreCooldownRecordLocked env rec restart auths)) (auth_ID a) = Some (Some b') \<and>
    fst (isAuthBlockedForModel (Some b') m t) = fst (state_verdict t s)"
proof -
  have rec: "ms_Unavailable s" "cr_AuthID rec = auth_ID a" "cr_Model rec = k" "cr_NextRetryAfter rec = ms_NextRetryAfter s"
    "cr_Quota rec = cooldownFieldsOf (ms_Quota s)"
    using assms(1,3) by (auto simp: modelCooldownStateRecord_def Let_def split: if_splits)
  let ?b' = "restoreIntoAuth rec restart b"
  define quota where "quota = (if q_Exceeded (cr_Quota rec) \<and> IsZero (q_NextRecoverAt (cr_Quota rec))
      then (cr_Quota rec)\<lparr>q_NextRecoverAt := cr_NextRetryAfter rec\<rparr> else cr_Quota rec)"
  define r where "r = \<lparr>ms_Status = StatusError, ms_StatusMessage = TrimSpace (cr_Reason rec), ms_Unavailable = True,
      ms_NextRetryAfter = cr_NextRetryAfter rec, ms_LastError = cr_LastError rec, ms_Quota = quota,
      ms_UpdatedAt = (if IsZero (cr_UpdatedAt rec) then restart else cr_UpdatedAt rec)\<rparr>"
  define s' where "s' = the (mergeModelState (Some newModelState) (Some r))"
  have s': "ms_Status s' = StatusError" "ms_Unavailable s'" "ms_NextRetryAfter s' = ms_NextRetryAfter s"
    "q_NextRecoverAt (ms_Quota s') = max 0 (q_NextRecoverAt quota)"
    unfolding s'_def using mergeModelState_fresh[of r] rec(4) assms(13,14) by (simp_all add: r_def)
  have "stateAt b k = newModelState" by (simp add: stateAt_def assms(9))
  moreover define c0 where "c0 = updateState k (\<lambda>state. the (mergeModelState (Some state) (Some r))) (setState k (stateAt b k) b)"
  have "?b' = updateAggregatedAvailability (c0\<lparr>auth_Generation := auth_Generation c0 + 1,
      auth_UpdatedAt := (if IsZero (cr_UpdatedAt rec) then restart else cr_UpdatedAt rec)\<rparr>) restart"
    using plain_keyD(2)[OF assms(2)]
    unfolding restoreIntoAuth_def Let_def rec(3) assms(3) plain_keyD(1)[OF assms(2)] ensure_plain[OF assms(8,2)]
      c0_def r_def quota_def by simp
  then obtain g u where "?b' = updateAggregatedAvailability (c0\<lparr>auth_Generation := g, auth_UpdatedAt := u\<rparr>) restart"
    by blast
  ultimately have b': "?b' = updateAggregatedAvailability
      ((setState k s' b)\<lparr>auth_Generation := g, auth_UpdatedAt := u\<rparr>) restart"
    unfolding c0_def updateState_setState s'_def by simp
  let ?c = "(setState k s' b)\<lparr>auth_Generation := g, auth_UpdatedAt := u\<rparr>"
  have "liftExpired restart s' = s'" using s' assms(14) by (simp add: liftExpired_def)
  then have st: "map_of (auth_ModelStates ?b') k = Some (Some s')"
    unfolding b' by (intro agg_state) (simp add: map_of_update)
  have "plain_states ?c" using plain_setState[OF assms(8,2), of s'] by (simp add: plain_states_def)
  then have pl: "plain_states ?b'" unfolding b' by (rule plain_aggregated)
  have "\<not> auth_off ?b'" using assms(10) unfolding b' by (simp add: auth_off_def)
  moreover have "\<not> credentialQuotaActive ?b' t"
    unfolding b' agg_credential_quota[OF assms(15)] using assms(12) by (simp add: credentialQuotaActive_def)
  moreover have "auth_ModelStates ?b' \<noteq> []" using st by auto
  ultimately have "fst (isAuthBlockedForModel (Some ?b') m t) = fst (state_verdict t s')"
    using blocked_plain[OF pl _ assms(16), of t] assms(13,15,17) by (simp add: model_verdict_def st)
  also have "\<dots> = fst (state_verdict t s)"
    using s' rec assms(4,13-15)
    by (auto simp: state_verdict_def availabilityBlock_alt quota_def cooldownFieldsOf_def max_def)
  finally have "fst (isAuthBlockedForModel (Some ?b') m t) = fst (state_verdict t s)" .
  moreover have "map_of (snd (restoreCooldownRecordLocked env rec restart auths)) (auth_ID a) = Some (Some ?b')"
    using rec assms(5-7,10,11,13,14)
    by (simp add: restoreCooldownRecordLocked_def Let_def map_get_def auth_off_def map_of_update)
  ultimately show ?thesis by blast
qed

section \<open>Examples\<close>

definition sample_env :: cooldown_env where
  "sample_env = \<lparr>ce_cfg = None, ce_quotaCooldownDisabled = False, ce_transientErrorCooldownSeconds = 0,
     ce_selectionModelKey = (\<lambda>a model. model), ce_gjson_Get = (\<lambda>body path. [])\<rparr>"

definition sample_failure :: "int \<Rightarrow> Result" where
  "sample_failure status = \<lparr>rs_AuthID = ''b'', rs_Provider = ''claude'', rs_Model = ''m(high)'', rs_RouteModel = [],
     rs_Success = False, rs_RetryAfter = None, rs_CredentialScope = False,
     rs_Error = Some \<lparr>err_Code = [], err_Message = ''failed'', err_Retryable = False, err_HTTPStatus = status\<rparr>,
     rs_SkipQuotaObservation = False\<rparr>"

abbreviation "sample_cred \<equiv> sample_auth ''b'' ''claude''"

lemma sample_plain: "plain_states sample_cred" "plain_key ''m''"
  by code_simp+

lemma sample_facts:
  "canonicalModelKey (rs_Model (sample_failure 429)) = ''m''" "\<not> rs_Success (sample_failure 429)"
  "\<not> shouldSkipCredentialCooldown (ce_gjson_Get sample_env) (rs_Error (sample_failure 429))"
  "\<not> coolingDisabled sample_env (sample_failure 429) sample_cred" "\<not> auth_Disabled sample_cred"
  "sane sample_env (ms_Quota (stateAt sample_cred ''m''))" "canonicalModelKey ''m'' = ''m''"
  by code_simp+

lemma sample_deadlines:
  "retryDeadline sample_env (sample_failure 429) 5 (ms_Quota (stateAt sample_cred ''m'')) = 1000000005"
  "failureDeadline sample_env (sample_failure 429) 5 (ms_Quota (stateAt sample_cred ''m'')) = 1000000005"
  by code_simp+

theorem failure_blocks_until_witness:
  "fst (isAuthBlockedForModel (Some (markAuth sample_env (sample_failure 429) [] 5 sample_cred)) ''m'' 1000000004) \<and>
   \<not> fst (isAuthBlockedForModel (Some (markAuth sample_env (sample_failure 429) [] 5 sample_cred)) ''m'' 1000000005)"
proof -
  have w: "\<not> wholeCredential sample_env (sample_failure 429) sample_cred" by code_simp
  have q: "\<not> credentialQuotaActive sample_cred t" for t by (simp add: sample_auth_def credentialQuotaActive_def emptyQuota_def)
  note base = failure_blocks_until[OF sample_plain sample_facts(1-4) w sample_facts(5) q sample_facts(6) _ _ _ _ sample_facts(7), of 5]
  show ?thesis using base[of 1000000004 "[]"] base[of 1000000005 "[]"] by (simp add: sample_deadlines)
qed

theorem credential_quota_blocks_all_witness:
  "\<exists>until \<ge> 1000000005. isAuthBlockedForModel
     (Some (markAuth sample_env (sample_failure 429\<lparr>rs_CredentialScope := True\<rparr>) [] 5 sample_cred)) ''other'' 7 =
     (True, blockReasonCooldown, until)"
proof -
  let ?r = "sample_failure 429\<lparr>rs_CredentialScope := True\<rparr>"
  have r: "canonicalModelKey (rs_Model ?r) = ''m''" "\<not> rs_Success ?r"
    "\<not> shouldSkipCredentialCooldown (ce_gjson_Get sample_env) (rs_Error ?r)" by code_simp+
  have w: "wholeCredential sample_env ?r sample_cred" by code_simp
  have d: "retryDeadline sample_env ?r 5 (ms_Quota (stateAt sample_cred ''m'')) = 1000000005" by code_simp
  show ?thesis
    using credential_quota_blocks_all[OF sample_plain r w sample_facts(5,6), of 5 7 "[]" "''other''"] unfolding d by simp
qed

theorem skipped_failure_neutral_witness:
  "isAuthBlockedForModel (Some (markAuth sample_env (sample_failure 400) [] 5 cooling_auth)) ''m'' 10 =
   isAuthBlockedForModel (Some cooling_auth) ''m'' 10"
  by (rule skipped_failure_neutral) code_simp+

theorem disabled_cooling_never_blocks_witness:
  "\<not> fst (isAuthBlockedForModel (Some (markAuth (sample_env\<lparr>ce_quotaCooldownDisabled := True\<rparr>) (sample_failure 429) [] 5
      sample_cred)) ''m'' 6)"
proof -
  let ?env = "sample_env\<lparr>ce_quotaCooldownDisabled := True\<rparr>"
  have r: "\<not> shouldSkipCredentialCooldown (ce_gjson_Get ?env) (rs_Error (sample_failure 429))"
    "coolingDisabled ?env (sample_failure 429) sample_cred" "\<not> isModelSupportResultError (rs_Error (sample_failure 429))"
    "q_NextRecoverAt (ms_Quota (stateAt sample_cred ''m'')) = 0" "\<not> credentialQuotaActive sample_cred 6" by code_simp+
  show ?thesis
    by (rule disabled_cooling_never_blocks[OF sample_plain sample_facts(1,2) r(1-4) sample_facts(5) r(5) _ _ _ sample_facts(7)])
      simp_all
qed

theorem success_unblocks_witness:
  "\<not> fst (isAuthBlockedForModel (Some (markAuth sample_env (sample_failure 429\<lparr>rs_Success := True\<rparr>) [] 5
      (sample_cred\<lparr>auth_ModelStates := [(''m'', Some (sample_state 50))]\<rparr>))) ''m'' 6)"
proof -
  let ?a = "sample_cred\<lparr>auth_ModelStates := [(''m'', Some (sample_state 50))]\<rparr>" and ?r = "sample_failure 429\<lparr>rs_Success := True\<rparr>"
  have "plain_states ?a" "canonicalModelKey (rs_Model ?r) = ''m''" "rs_Success ?r" "\<not> auth_off ?a"
    "\<not> (q_Reason (auth_Quota ?a) = ''credential_quota'' \<and> 5 < q_NextRecoverAt (auth_Quota ?a))" by code_simp+
  from success_unblocks[OF this(1) sample_plain(2) this(2-5) _ _ _ sample_facts(7)] show ?thesis by simp
qed

theorem quota_windows_refine_witness:
  "windowOf (markAll sample_env [(sample_failure 429, [], 5), (sample_failure 429, [], 9), (sample_failure 429, [], 2 * Second)]
     sample_cred) ''m'' = (2, 4 * Second)"
proof -
  let ?rs = "[(sample_failure 429, [], 5), (sample_failure 429, [], 9), (sample_failure 429, [], 2 * Second)]"
  have "plain_quota_failure sample_env sample_cred ''m'' (sample_failure 429)" by code_simp
  then have l: "list_all (\<lambda>(result, _, now). plain_quota_failure sample_env sample_cred ''m'' result \<and> 0 \<le> now) ?rs"
    by (simp add: go_simps)
  have b: "0 \<le> q_BackoffLevel (ms_Quota (stateAt sample_cred ''m''))" "q_BackoffLevel (ms_Quota (stateAt sample_cred ''m'')) \<le> 33"
    by code_simp+
  have "foldl quotaStep (windowOf sample_cred ''m'') (map (snd \<circ> snd) ?rs) = (2, 4 * Second)" by code_simp
  with quota_windows_refine[OF sample_plain l b] show ?thesis by simp
qed

text \<open>A credential that a rejected login without a model has blocked as a whole: a quota failure for one model then frees
  it for all the others.\<close>

definition rejected_cred :: auth where
  "rejected_cred = markAuth sample_env ((sample_failure 401)\<lparr>rs_Model := []\<rparr>) [] 5 sample_cred"

lemma rejected_facts:
  "plain_states rejected_cred" "\<not> wholeCredential sample_env (sample_failure 429) rejected_cred" "\<not> auth_off rejected_cred"
  "auth_ModelStates rejected_cred = []" "auth_ModelStates (markAuth sample_env (sample_failure 429) [] 6 rejected_cred) \<noteq> []"
  "\<not> credentialQuotaActive rejected_cred 7" "canonicalModelKey ''x'' = ''x''" "fst (isAuthBlockedForModel (Some rejected_cred) ''x'' 7)"
  by code_simp+

theorem result_leaves_other_models_witness:
  "fst (isAuthBlockedForModel (Some (markAuth sample_env (sample_failure 429) [] 5
      (sample_cred\<lparr>auth_ModelStates := [(''x'', Some (sample_state 50))]\<rparr>))) ''x'' 6) =
   fst (isAuthBlockedForModel (Some (sample_cred\<lparr>auth_ModelStates := [(''x'', Some (sample_state 50))]\<rparr>)) ''x'' 6) \<and>
   fst (isAuthBlockedForModel (Some rejected_cred) ''x'' 7) \<and>
   \<not> fst (isAuthBlockedForModel (Some (markAuth sample_env (sample_failure 429) [] 6 rejected_cred)) ''x'' 7)"
proof (intro conjI)
  let ?a = "sample_cred\<lparr>auth_ModelStates := [(''x'', Some (sample_state 50))]\<rparr>"
  have a: "plain_states ?a" "\<not> wholeCredential sample_env (sample_failure 429) ?a" "\<not> auth_off ?a"
    "canonicalModelKey ''x'' = ''x''" "steady (sample_state 50)" by code_simp+
  have "fst (isAuthBlockedForModel (Some (markAuth sample_env (sample_failure 429) [] 5 ?a)) ''x'' 6) =
      (if auth_ModelStates ?a = [] \<and> auth_ModelStates (markAuth sample_env (sample_failure 429) [] 5 ?a) \<noteq> []
       then credentialQuotaActive ?a 6 else fst (isAuthBlockedForModel (Some ?a) ''x'' 6))"
    by (rule result_leaves_other_models[OF a(1) sample_plain(2) sample_facts(1) a(2)]) (use a in simp_all)
  then show "fst (isAuthBlockedForModel (Some (markAuth sample_env (sample_failure 429) [] 5 ?a)) ''x'' 6) =
      fst (isAuthBlockedForModel (Some ?a) ''x'' 6)" by simp
next
  note r = rejected_facts
  show "fst (isAuthBlockedForModel (Some rejected_cred) ''x'' 7)" by (rule r(8))
  have "fst (isAuthBlockedForModel (Some (markAuth sample_env (sample_failure 429) [] 6 rejected_cred)) ''x'' 7) =
      (if auth_ModelStates rejected_cred = [] \<and> auth_ModelStates (markAuth sample_env (sample_failure 429) [] 6 rejected_cred) \<noteq> []
       then credentialQuotaActive rejected_cred 7 else fst (isAuthBlockedForModel (Some rejected_cred) ''x'' 7))"
    by (rule result_leaves_other_models[OF r(1) sample_plain(2) sample_facts(1) r(2)]) (use r in simp_all)
  then show "\<not> fst (isAuthBlockedForModel (Some (markAuth sample_env (sample_failure 429) [] 6 rejected_cred)) ''x'' 7)"
    using r(4-6) by simp
qed

theorem restored_cooldown_blocks_witness:
  "\<exists>b'. map_of (snd (restoreCooldownRecordLocked sample_env
       (the (modelCooldownStateRecord sample_cred ''m'' (Some (sample_state 50)) 5)) 10 [(''b'', Some sample_cred)])) ''b'' = Some (Some b') \<and>
     fst (isAuthBlockedForModel (Some b') ''m'' 20) = fst (state_verdict 20 (sample_state 50))"
proof -
  let ?rec = "the (modelCooldownStateRecord sample_cred ''m'' (Some (sample_state 50)) 5)"
  have "modelCooldownStateRecord sample_cred ''m'' (Some (sample_state 50)) 5 = Some ?rec" by code_simp
  moreover have "TrimSpace ''m'' = ''m''" "TrimSpace (auth_ID sample_cred) = auth_ID sample_cred" "\<not> auth_off sample_cred"
    "\<not> quotaCooldownDisabledForAuthWithConfig sample_env sample_cred" "\<not> credentialQuotaActive sample_cred 20" by code_simp+
  ultimately show ?thesis
    using restored_cooldown_blocks[of sample_cred "''m''" "sample_state 50" 5 ?rec "[(''b'', Some sample_cred)]" sample_cred
        sample_env 20 10 "''m''"] sample_plain sample_facts(7)
    by (simp add: sample_state_def sample_auth_def)
qed

end
