(* ===== verification/CooldownPicks.thy ===== *)
theory CooldownPicks
  imports CooldownSpec SchedulerGen SchedulerPicks
begin

text \<open>
  The cooldown and the scheduler together: a credential whose failure \<open>MarkResult\<close> has recorded is not
  picked for the model before the deadline, and nothing else about the scheduler's choice changes.
\<close>

lemma word_less_inc: "x \<noteq> - 1 \<Longrightarrow> x < x + 1" for x :: "64 word"
proof -
  assume "x \<noteq> - 1"
  then have "1 + x \<noteq> 0" by (metis add.commute eq_neg_iff_add_eq_0)
  then have "unat (1 + x) = Suc (unat x)" by (rule unatSuc)
  then show ?thesis by (simp add: word_less_nat_alt add.commute)
qed

text \<open>The generation of the marked credential is accepted by a scheduler that knows the one before.\<close>

lemma mark_not_stale:
  assumes "map_of (as_authGenerations s) (auth_ID a) = Some (generation_of a)" "auth_Generation a \<noteq> - 1"
    and "a' = markAuth env result headers now a"
  shows "\<not> isStaleScheduledAuth (auth_ID a') (auth_RegistrationEpoch a') (auth_Generation a') (auth_UpdatedAt a') s"
    and "auth_ID a' = auth_ID a"
proof -
  have i: "auth_ID a' = auth_ID a" "auth_RegistrationEpoch a' = auth_RegistrationEpoch a" "auth_Generation a' = auth_Generation a + 1"
    using mark_identity[of a env result headers now] by (simp_all add: assms(3) same_identity_def)
  have "auth_Generation a < auth_Generation a + 1" by (rule word_less_inc[OF assms(2)])
  then show "\<not> isStaleScheduledAuth (auth_ID a') (auth_RegistrationEpoch a') (auth_Generation a') (auth_UpdatedAt a') s"
    using i assms(1) by (auto simp: isStaleScheduledAuth_def generation_of_def)
  show "auth_ID a' = auth_ID a" by (rule i(1))
qed

text \<open>A scheduler that has accepted a snapshot picks the credential only at times at which the snapshot is free.\<close>

lemma pick_after_upsert:
  assumes "sched_reach t s" "TrimSpace (auth_ID a') = auth_ID a'" "auth_ID a' \<noteq> []"
    and "\<not> isStaleScheduledAuth (auth_ID a') (auth_RegistrationEpoch a') (auth_Generation a') (auth_UpdatedAt a') s"
    and "t \<le> t1" "t1 \<le> t2" "t2 \<le> t3"
    and "fst (pickMixedWithStrategy t1 t2 t3 providers model rq tried strategy (upsertAuthLocked models_of (Some a') t s)) = Inr (c, pk)"
    and "auth_ID c = auth_ID a'"
  shows "c = a' \<and> free_now (canonicalModelKey (canonicalModelKey model)) t3 a'"
proof -
  let ?s = "upsertAuthLocked models_of (Some a') t s"
  have ok: "links_ok s" using sched_reach_ok[OF assms(1)] by (simp add: sched_ok_def)
  have "sched_reach t ?s" using assms(1,2) by (intro sched_reach.upsert) simp_all
  then have "sched_reach t1 ?s" by (rule sched_reach.wait[OF _ assms(5)])
  note el = mixed_pick_eligible[OF this assms(6-8)]
  then obtain meta where "stored ?s pk (auth_ID c) = Some meta" "sm_auth meta = c"
    by (auto simp: eligible_def)
  moreover from this have "meta = buildScheduledAuthMeta models_of a'"
    using upsert_effect(2)[OF ok assms(2,3), of models_of t pk "auth_ID a'"] assms(4,9)
    by (auto split: if_splits)
  ultimately have "c = a'" by simp
  then show ?thesis using el by (simp add: eligible_def)
qed

text \<open>C7. A failed credential is not picked again before its deadline: once \<open>MarkResult\<close> has recorded a failure
  with cooling enabled, no pick of the scheduler over any providers, with any request and strategy, returns
  the credential for the model until the deadline of the failure.\<close>

theorem failed_credential_not_picked:
  assumes "sched_reach t (mg_scheduler m)" "map_of (mg_auths m) (rs_AuthID result) = Some (Some a)"
    and "auth_ID a = rs_AuthID result" "TrimSpace (auth_ID a) = auth_ID a" "auth_ID a \<noteq> []"
    and "map_of (as_authGenerations (mg_scheduler m)) (auth_ID a) = Some (generation_of a)" "auth_Generation a \<noteq> - 1"
    and "plain_states a" "plain_key k" "canonicalModelKey (rs_Model result) = k" "\<not> rs_Success result"
    and "\<not> shouldSkipCredentialCooldown (ce_gjson_Get env) (rs_Error result)" "\<not> coolingDisabled env result a"
    and "\<not> auth_Disabled a" "sane env (ms_Quota (stateAt a k))"
    and "now < retryDeadline env result now (ms_Quota (stateAt a k))" "0 \<le> now"
    and "canonicalModelKey model = k" "t \<le> t1" "t1 \<le> t2" "t2 \<le> t3" "now \<le> t3"
    and "t3 < failureDeadline env result now (ms_Quota (stateAt a k))"
    and "fst (pickMixedWithStrategy t1 t2 t3 providers model rq tried strategy
           (mg_scheduler (MarkResult env models_of result headers now t m))) = Inr (c, pk)"
  shows "auth_ID c \<noteq> rs_AuthID result"
proof
  assume c: "auth_ID c = rs_AuthID result"
  define a' where "a' = markAuth env result headers now a"
  let ?a = "countResult result now a"
  note ns = mark_not_stale[OF assms(6,7) a'_def]
  have "mg_scheduler (MarkResult env models_of result headers now t m) =
      upsertAuthLocked models_of (Some a') t (mg_scheduler m)"
    using assms(2,3,5) by (simp add: MarkResult_def map_get_def a'_def Let_def)
  note pick = assms(24)[unfolded this]
  have "free_now (canonicalModelKey (canonicalModelKey model)) t3 a'"
    using pick_after_upsert[OF assms(1) _ _ ns(1) assms(19-21) pick] c ns(2) assms(3-5) by simp
  then have "\<not> fst (isAuthBlockedForModel (Some a') k t3)"
    using assms(9,18) by (simp add: free_now_def)
  moreover have "isAuthBlockedForModel (Some (failModel env result k now ?a)) k t3 = isAuthBlockedForModel (Some a') k t3"
    unfolding a'_def by (rule alike_blocked[OF mark_failed[OF assms(9-11)]])
  moreover have "fst (isAuthBlockedForModel (Some (failModel env result k now ?a)) k t3)"
    using failModel_verdict[of ?a k env result now t3 k] assms(8,9,12-17,22,23) by simp
  ultimately show False by simp
qed

theorem failed_credential_not_picked_witness:
  "case fst (pickMixedWithStrategy 6 7 8 [''Claude'', '' gemini''] ''m'' sample_request [] schedulerStrategyCurrent
      (mg_scheduler (MarkResult sample_env sample_models (sample_failure 429) [] 5 5
        \<lparr>mg_auths = [(''b'', Some sample_cred)], mg_scheduler = sample_scheduler\<rparr>))) of
     Inr (c, pk) \<Rightarrow> auth_ID c \<noteq> ''b'' | Inl _ \<Rightarrow> False"
proof -
  let ?m = "\<lparr>mg_auths = [(''b'', Some sample_cred)], mg_scheduler = sample_scheduler\<rparr>"
  let ?p = "fst (pickMixedWithStrategy 6 7 8 [''Claude'', '' gemini''] ''m'' sample_request [] schedulerStrategyCurrent
      (mg_scheduler (MarkResult sample_env sample_models (sample_failure 429) [] 5 5 ?m)))"
  have m: "sched_reach 5 (mg_scheduler ?m)" using sample_scheduler_reach by simp
  have i: "map_of (mg_auths ?m) (rs_AuthID (sample_failure 429)) = Some (Some sample_cred)"
    "auth_ID sample_cred = rs_AuthID (sample_failure 429)" "TrimSpace (auth_ID sample_cred) = auth_ID sample_cred"
    "auth_ID sample_cred \<noteq> []" "map_of (as_authGenerations (mg_scheduler ?m)) (auth_ID sample_cred) = Some (generation_of sample_cred)"
    "auth_Generation sample_cred \<noteq> - 1" by code_simp+
  have "case ?p of Inr _ \<Rightarrow> True | Inl _ \<Rightarrow> False" by code_simp
  then obtain c pk where p: "?p = Inr (c, pk)" by (auto split: sum.splits)
  from failed_credential_not_picked[OF m i sample_plain sample_facts(1-6) _ _ sample_facts(7) _ _ _ _ _ p]
  show ?thesis unfolding p by (simp add: sample_deadlines) (simp add: sample_failure_def)
qed

end
