(* ===== verification/Turns.thy ===== *)
theory Turns
  imports Auth "HOL-Library.Product_Lexorder"
begin

text \<open>
  Canonical conversation turns and their fingerprints, \<open>sdk/aps/session/lcp.go\<close>: the normalisation of
  a turn, the bound on the number of its parts, and \<open>FastTurnFingerprint\<close>. The turns of a request body are
  extracted in \<open>TurnExtraction\<close>. SHA-256 and the three regular expressions are
  parameters: the functions of \<open>turn_env\<close> are \<open>sha256.Sum256\<close> as bytes and the \<open>ReplaceAllString\<close> of the
  think, time and UUID patterns with their replacements.
\<close>

section \<open>Definitions\<close>

record turn_env =
  tn_sha256 :: "string \<Rightarrow> string"
  tn_think :: "string \<Rightarrow> string"
  tn_iso8601 :: "string \<Rightarrow> string"
  tn_uuid :: "string \<Rightarrow> string"

record CanonicalPart =
  cp_Kind :: string
  cp_MIME :: string
  cp_Value :: string
  cp_Digest :: string
  cp_OriginalSize :: int
  cp_Sampled :: bool

record CanonicalTurn =
  ct_Role :: string
  ct_Parts :: "CanonicalPart list"

definition canonicalTurnVersion :: string where "canonicalTurnVersion = ''aps-session-turn-v1''"
definition largePartThreshold :: nat where "largePartThreshold = 16 * 1024"
definition sparseFingerprintBytes :: nat where "sparseFingerprintBytes = 12 * 1024"
definition maxCanonicalTurns :: nat where "maxCanonicalTurns = 4096"
definition maxCanonicalPartsPerTurn :: nat where "maxCanonicalPartsPerTurn = 256"

definition canonicalRole :: "string \<Rightarrow> string" where
  "canonicalRole role =
     (let r = ToLower (TrimSpace role)
      in if r \<in> {''system'', ''developer''} then ''system''
         else if r \<in> {''assistant'', ''model'', ''ai''} then ''assistant''
         else if r \<in> {''tool'', ''function''} then ''tool''
         else if r = ''user'' then ''user'' else r)"

definition is_marker :: "CanonicalPart list \<Rightarrow> bool" where
  "is_marker parts \<longleftrightarrow> parts \<noteq> [] \<and> cp_Kind (last parts) = ''value'' \<and> HasPrefix (cp_Value (last parts)) ''<truncated:''"

definition marker_text :: "int \<Rightarrow> string" where
  "marker_text dropped = ''<truncated:'' @ format_int dropped @ '' parts>''"

definition limitCanonicalPartsCount :: "CanonicalPart list \<Rightarrow> int \<Rightarrow> CanonicalPart list" where
  "limitCanonicalPartsCount parts dropped =
     (if dropped \<le> 0 then parts
      else if is_marker parts
      then let marker = last parts; size = cp_OriginalSize marker + dropped
           in butlast parts @ [marker\<lparr>cp_OriginalSize := size, cp_Value := marker_text size\<rparr>]
      else parts @ [\<lparr>cp_Kind = ''value'', cp_MIME = [], cp_Value = marker_text dropped, cp_Digest = [],
                     cp_OriginalSize = dropped, cp_Sampled = False\<rparr>])"

definition limitCanonicalParts :: "CanonicalPart list \<Rightarrow> CanonicalPart list \<Rightarrow> CanonicalPart list" where
  "limitCanonicalParts parts added0 =
     (if added0 = [] then parts
      else
        let hasAddedMarker = is_marker added0;
            existingDropped = (if hasAddedMarker then cp_OriginalSize (last added0) else 0);
            added = (if hasAddedMarker then butlast added0 else added0)
        in if length parts \<ge> maxCanonicalPartsPerTurn
           then limitCanonicalPartsCount parts (int (length added) + existingDropped)
           else
             let space = maxCanonicalPartsPerTurn - length parts
             in if length added > space
                then limitCanonicalPartsCount (parts @ take space added)
                       (int (length added - space) + existingDropped)
                else if hasAddedMarker \<or> existingDropped > 0
                then limitCanonicalPartsCount (parts @ added) existingDropped
                else parts @ added)"

text \<open>\<open>strings.ReplaceAll\<close> for a text \<open>old\<close> that is not empty.\<close>

function ReplaceAll :: "string \<Rightarrow> string \<Rightarrow> string \<Rightarrow> string" where
  "ReplaceAll old new s =
     (case s of
        [] \<Rightarrow> []
      | c # s' \<Rightarrow> if old \<noteq> [] \<and> HasPrefix s old then new @ ReplaceAll old new (drop (length old) s)
                   else c # ReplaceAll old new s')"
  by pat_completeness auto
termination
  by (relation "measure (\<lambda>(old, new, s). length s)") auto

declare ReplaceAll.simps [simp del]

definition normalizeText :: "turn_env \<Rightarrow> string \<Rightarrow> bool \<Rightarrow> string" where
  "normalizeText env value0 maskSystemDynamics =
     (let value1 = ReplaceAll [CHR 0x0D, CHR 0x0A] [CHR 0x0A] value0;
          value2 = ReplaceAll [CHR 0x0D] [CHR 0x0A] value1;
          value3 = tn_think env value2;
          value4 = (if maskSystemDynamics then tn_uuid env (tn_iso8601 env value3) else value3)
      in TrimSpace value4)"

definition sparseSample :: "string \<Rightarrow> nat \<Rightarrow> string" where
  "sparseSample value limit =
     (if limit = 0 \<or> length value \<le> limit then value
      else let head = limit div 3; middle = limit div 3; tail = limit - head - middle;
               middleStart = (length value - middle) div 2
           in take head value @ take middle (drop middleStart value) @ drop (length value - tail) value)"

definition normalizePart :: "turn_env \<Rightarrow> string \<Rightarrow> CanonicalPart \<Rightarrow> CanonicalPart option" where
  "normalizePart env role part0 =
     (if cp_Value part0 = [] then None
      else
        let part1 = part0\<lparr>cp_Kind := ToLower (TrimSpace (cp_Kind part0)), cp_MIME := ToLower (TrimSpace (cp_MIME part0)),
                          cp_OriginalSize := (if cp_OriginalSize part0 \<le> 0 then int (length (cp_Value part0))
                                              else cp_OriginalSize part0)\<rparr>;
            part2 = (if cp_Kind part1 = ''text''
                     then let value = (if role = ''system'' then normalizeText env (cp_Value part1) True
                                       else if \<not> cp_Sampled part1 then normalizeText env (cp_Value part1) False
                                       else cp_Value part1)
                          in part1\<lparr>cp_Value := value,
                                   cp_OriginalSize := (if \<not> cp_Sampled part1 then int (length value)
                                                       else cp_OriginalSize part1)\<rparr>
                     else part1)
        in if cp_Value part2 \<noteq> [] then Some part2 else None)"

definition is_tool_part :: "CanonicalPart \<Rightarrow> bool" where
  "is_tool_part part \<longleftrightarrow> HasPrefix (cp_Kind part) ''tool:'' \<or> Contains (cp_Kind part) ''function_call''"

text \<open>The tool parts, put in order among the places that tool parts have.\<close>

definition sortToolParts :: "CanonicalPart list \<Rightarrow> CanonicalPart list" where
  "sortToolParts parts =
     (let toolIndexes = filter (\<lambda>i. is_tool_part (parts ! i)) [0..<length parts];
          toolParts = map (\<lambda>i. parts ! i) toolIndexes;
          ordered = sort_key (\<lambda>p. (cp_Value p, cp_Digest p)) toolParts
      in if length toolParts > 1
         then foldl (\<lambda>parts (i, part). parts[i := part]) parts (zip toolIndexes ordered) else parts)"

definition normalizeCanonicalTurn :: "turn_env \<Rightarrow> CanonicalTurn \<Rightarrow> CanonicalTurn" where
  "normalizeCanonicalTurn env turn =
     (let role = canonicalRole (ct_Role turn);
          parts = List.map_filter (normalizePart env role) (ct_Parts turn)
      in \<lparr>ct_Role = role, ct_Parts = sortToolParts (limitCanonicalParts [] parts)\<rparr>)"

definition normalizeCanonicalTurns :: "turn_env \<Rightarrow> CanonicalTurn list \<Rightarrow> CanonicalTurn list" where
  "normalizeCanonicalTurns env turns =
     take maxCanonicalTurns
       (filter (\<lambda>turn. ct_Role turn \<noteq> [] \<and> ct_Parts turn \<noteq> []) (map (normalizeCanonicalTurn env) turns))"

text \<open>\<open>hex.EncodeToString\<close>.\<close>

definition hex_char :: "nat \<Rightarrow> char" where
  "hex_char n = (if n < 10 then char_of (48 + n) else char_of (87 + n))"

definition hex_encode :: "string \<Rightarrow> string" where
  "hex_encode s = concat (map (\<lambda>c. [hex_char (of_char c div 16), hex_char (of_char c mod 16)]) s)"

definition fingerprintField :: "string \<Rightarrow> string" where
  "fingerprintField value = format_int (int (length value)) @ '':'' @ value @ [CHR 0x00]"

definition partFields :: "string \<Rightarrow> CanonicalPart \<Rightarrow> string list" where
  "partFields role part =
     [cp_Kind part, cp_MIME part, format_int (cp_OriginalSize part)] @
     (if role \<noteq> ''system'' \<or> \<not> cp_Sampled part then [cp_Digest part] else []) @
     [if \<not> cp_Sampled part \<and>
         (cp_OriginalSize part > int largePartThreshold \<or> length (cp_Value part) > largePartThreshold)
      then sparseSample (cp_Value part) sparseFingerprintBytes else cp_Value part]"

definition turnFields :: "CanonicalTurn \<Rightarrow> string list" where
  "turnFields turn = [canonicalTurnVersion, ct_Role turn] @ concat (map (partFields (ct_Role turn)) (ct_Parts turn))"

definition FastTurnFingerprint :: "turn_env \<Rightarrow> CanonicalTurn \<Rightarrow> string" where
  "FastTurnFingerprint env turn =
     hex_encode (tn_sha256 env (concat (map fingerprintField (turnFields (normalizeCanonicalTurn env turn)))))"

fun minimumAffinityPrefixLength :: "CanonicalTurn list \<Rightarrow> nat" where
  "minimumAffinityPrefixLength [] = 0"
| "minimumAffinityPrefixLength (turn # turns) =
     (if canonicalRole (ct_Role turn) \<noteq> ''system'' then 1
      else case minimumAffinityPrefixLength turns of 0 \<Rightarrow> 0 | Suc n \<Rightarrow> Suc (Suc n))"

section \<open>Bounds\<close>

text \<open>A bounded list of parts: at most the limit, or the limit and one marker that counts the rest.\<close>

lemma limitCount_length:
  "length (limitCanonicalPartsCount parts n) \<le> (if n > 0 \<and> \<not> is_marker parts then length parts + 1 else length parts)"
  by (auto simp: limitCanonicalPartsCount_def is_marker_def Let_def)

lemma limit_length:
  assumes "length parts \<le> maxCanonicalPartsPerTurn \<or> length parts = maxCanonicalPartsPerTurn + 1 \<and> is_marker parts"
  shows "length (limitCanonicalParts parts added) \<le> maxCanonicalPartsPerTurn + 1"
proof -
  have bnd: "length (limitCanonicalPartsCount ps n) \<le> Suc maxCanonicalPartsPerTurn"
    if "length ps \<le> maxCanonicalPartsPerTurn \<or> length ps = maxCanonicalPartsPerTurn + 1 \<and> is_marker ps" for ps n
    using limitCount_length[of ps n] that by (auto split: if_splits)
  then show ?thesis
    using assms by (auto simp: limitCanonicalParts_def Let_def intro!: bnd)
qed

lemma sparseSample_length: "0 < limit \<Longrightarrow> length (sparseSample value limit) \<le> max (length value) 0 \<and>
   (limit < length value \<longrightarrow> length (sparseSample value limit) = limit)"
  by (auto simp: sparseSample_def Let_def)

section \<open>Fingerprints tell turns apart\<close>

lemma format_nat_colon: "CHR '':'' \<notin> set (format_nat n)"
  using format_nat_digits[of n] by (auto simp: digit_value_def)

lemma format_nat_inj: "format_nat m = format_nat n \<Longrightarrow> m = n"
  by (metis parse_format_nat option.inject of_nat_eq_iff)

lemma colon_split:
  "CHR '':'' \<notin> set xs \<Longrightarrow> CHR '':'' \<notin> set ys \<Longrightarrow> xs @ CHR '':'' # u = ys @ CHR '':'' # v \<Longrightarrow> xs = ys \<and> u = v"
proof (induction xs arbitrary: ys)
  case Nil
  then show ?case by (cases ys) auto
next
  case (Cons x xs)
  then show ?case by (cases ys) auto
qed

lemma field_split:
  assumes "fingerprintField x @ u = fingerprintField y @ v"
  shows "x = y \<and> u = v"
proof -
  have "format_nat (length x) @ CHR '':'' # (x @ CHR 0x00 # u) = format_nat (length y) @ CHR '':'' # (y @ CHR 0x00 # v)"
    using assms by (simp add: fingerprintField_def format_int_def)
  from colon_split[OF format_nat_colon format_nat_colon this]
  have "format_nat (length x) = format_nat (length y)" and r: "x @ CHR 0x00 # u = y @ CHR 0x00 # v" by blast+
  then have "length x = length y" by (blast intro: format_nat_inj)
  with r show ?thesis by simp
qed

lemma fields_inj: "concat (map fingerprintField xs) = concat (map fingerprintField ys) \<Longrightarrow> xs = ys"
proof (induction xs arbitrary: ys)
  case Nil
  then show ?case by (cases ys) (auto simp: fingerprintField_def)
next
  case (Cons x xs)
  then obtain y ys' where ys: "ys = y # ys'" by (cases ys) (auto simp: fingerprintField_def)
  then show ?case using Cons field_split[of x "concat (map fingerprintField xs)" y "concat (map fingerprintField ys')"]
    by simp
qed

lemma hex_char_inj: "m < 16 \<Longrightarrow> n < 16 \<Longrightarrow> hex_char m = hex_char n \<Longrightarrow> m = n"
proof -
  assume "m < 16" "n < 16" and e: "hex_char m = hex_char n"
  have "\<forall>m \<in> set [0..<16]. \<forall>n \<in> set [0..<16]. hex_char m = hex_char n \<longrightarrow> m = n" by code_simp
  with \<open>m < 16\<close> \<open>n < 16\<close> e show ?thesis by simp
qed

lemma hex_encode_inj: "hex_encode s = hex_encode t \<Longrightarrow> s = t"
proof (induction s arbitrary: t)
  case Nil
  then show ?case by (cases t) (auto simp: hex_encode_def)
next
  case (Cons c s)
  then obtain d t' where t: "t = d # t'" by (cases t) (auto simp: hex_encode_def)
  let ?c = "of_char c :: nat" and ?d = "of_char d :: nat"
  have "hex_char (?c div 16) = hex_char (?d div 16)" "hex_char (?c mod 16) = hex_char (?d mod 16)"
    "hex_encode s = hex_encode t'"
    using Cons.prems t by (simp_all add: hex_encode_def)
  moreover have "?c div 16 < 16" "?d div 16 < 16"
    using less_mult_imp_div_less[of ?c 16 16] less_mult_imp_div_less[of ?d 16 16] by simp_all
  ultimately have "?c div 16 = ?d div 16" "?c mod 16 = ?d mod 16"
    by (auto intro!: hex_char_inj)
  then have "?c = ?d" by (metis div_mult_mod_eq)
  then show ?case using Cons.IH[OF \<open>hex_encode s = hex_encode t'\<close>] t by simp
qed

text \<open>The functional parameter is collision free on two texts.\<close>

definition no_collision :: "turn_env \<Rightarrow> string \<Rightarrow> string \<Rightarrow> bool" where
  "no_collision env x y \<longleftrightarrow> (tn_sha256 env x = tn_sha256 env y \<longrightarrow> x = y)"

definition fingerprintInput :: "turn_env \<Rightarrow> CanonicalTurn \<Rightarrow> string" where
  "fingerprintInput env turn = concat (map fingerprintField (turnFields (normalizeCanonicalTurn env turn)))"

lemma fingerprint_fields:
  assumes "no_collision env (fingerprintInput env t) (fingerprintInput env u)"
    and "FastTurnFingerprint env t = FastTurnFingerprint env u"
  shows "turnFields (normalizeCanonicalTurn env t) = turnFields (normalizeCanonicalTurn env u)"
proof -
  have "tn_sha256 env (fingerprintInput env t) = tn_sha256 env (fingerprintInput env u)"
    using assms(2) by (auto simp: FastTurnFingerprint_def fingerprintInput_def dest: hex_encode_inj)
  then have "fingerprintInput env t = fingerprintInput env u" using assms(1) by (simp add: no_collision_def)
  then show ?thesis unfolding fingerprintInput_def by (rule fields_inj)
qed

lemma partFields_length: "role \<noteq> ''system'' \<Longrightarrow> length (partFields role p) = 5"
  by (simp add: partFields_def)

lemma concat_same_lengths:
  "\<forall>x \<in> set xs. length (f x) = Suc n \<Longrightarrow> \<forall>y \<in> set ys. length (f y) = Suc n \<Longrightarrow>
   concat (map f xs) = concat (map f ys) \<Longrightarrow> map f xs = map f ys"
proof (induction xs arbitrary: ys)
  case Nil
  then show ?case by (cases ys) auto
next
  case (Cons x xs)
  then obtain y ys' where ys: "ys = y # ys'" by (cases ys) auto
  have "length (f x) = length (f y)" using Cons.prems(1,2) ys by simp
  moreover have "f x @ concat (map f xs) = f y @ concat (map f ys')" using Cons.prems(3) ys by simp
  ultimately have "f x = f y" "concat (map f xs) = concat (map f ys')" by (simp_all add: append_eq_append_conv)
  then show ?case using Cons.IH[of ys'] Cons.prems(1,2) ys by simp
qed

lemma normal_role [simp]: "ct_Role (normalizeCanonicalTurn env t) = canonicalRole (ct_Role t)"
  by (simp add: normalizeCanonicalTurn_def Let_def)

lemma fingerprint_role:
  "no_collision env (fingerprintInput env t) (fingerprintInput env u) \<Longrightarrow>
   FastTurnFingerprint env t = FastTurnFingerprint env u \<Longrightarrow> canonicalRole (ct_Role t) = canonicalRole (ct_Role u)"
  using fingerprint_fields[of env t u] by (simp add: turnFields_def)

end
