(* ===== verification/PrefixMatcher.thy ===== *)
theory PrefixMatcher
  imports Turns
begin

text \<open>
  The matcher that recognises a conversation by a prefix of its turns, \<open>MerklePrefixMatcher\<close> of
  \<open>sdk/aps/session/lcp.go\<close>. Sequences of turn fingerprints are bound to credentials in groups; the groups
  of a namespace are found by the rolling hashes of their prefixes.

  A \<open>*lcpGroup\<close> is an address, and the groups are the values of \<open>mm_heap\<close>; the maps, the buckets and the
  eviction list hold addresses. The list of recency and its map of elements change together and are one
  list here, least recently used first. Every operation is the section under the mutex with the reading
  of the clock as an argument (the cleanup in every 128th operation reads the same clock here). The empty
  namespace that \<open>namespaceLocked\<close> stores is filled before the section ends, and is not stored apart here.
\<close>

section \<open>State\<close>

record MerklePrefixMatch =
  mt_AuthID :: string
  mt_SessionID :: string
  mt_PrefixLength :: nat

record lcpGroup =
  lg_key :: string
  lg_namespace :: string
  lg_authID :: string
  lg_sessionID :: string
  lg_minPrefixLength :: nat
  lg_fingerprints :: "string list"
  lg_prefixKeys :: "string list"
  lg_expiresAt :: go_time
  lg_lastAccessNumber :: "64 word"

record lcpNamespace =
  nm_groups :: "(string, nat) go_map"
  nm_prefixes :: "(string, (string, nat) go_map) go_map"

record MerklePrefixMatcher =
  mm_ttl :: duration
  mm_maxTurns :: nat
  mm_maxGroups :: nat
  mm_maxPrefixes :: nat
  mm_groups :: "(string, lcpNamespace) go_map"
  mm_lru :: "nat list"
  mm_groupCount :: nat
  mm_prefixCount :: nat
  mm_accessCounter :: "64 word"
  mm_operations :: "64 word"
  mm_heap :: "(nat, lcpGroup) go_map"
  mm_next :: nat

definition NewMerklePrefixMatcherWithConfig :: "duration \<Rightarrow> int \<Rightarrow> int \<Rightarrow> int \<Rightarrow> MerklePrefixMatcher" where
  "NewMerklePrefixMatcherWithConfig ttl maxTurns0 maxGroups0 maxPrefixes0 =
     (let maxTurns = (if maxTurns0 \<le> 0 then 1024 else maxTurns0);
          maxGroups = (if maxGroups0 \<le> 0 then 4096 else maxGroups0);
          maxPrefixes = (if maxPrefixes0 \<le> 0 then 262144 else maxPrefixes0)
      in \<lparr>mm_ttl = (if ttl \<le> 0 then Hour else ttl), mm_maxTurns = nat maxTurns, mm_maxGroups = nat maxGroups,
          mm_maxPrefixes = nat (if maxPrefixes < maxTurns then maxTurns else maxPrefixes),
          mm_groups = [], mm_lru = [], mm_groupCount = 0, mm_prefixCount = 0, mm_accessCounter = 0,
          mm_operations = 0, mm_heap = [], mm_next = 0\<rparr>)"

definition NewMerklePrefixMatcher :: "duration \<Rightarrow> MerklePrefixMatcher" where
  "NewMerklePrefixMatcher ttl = NewMerklePrefixMatcherWithConfig ttl 0 0 0"

definition the_group :: "MerklePrefixMatcher \<Rightarrow> nat \<Rightarrow> lcpGroup" where
  "the_group m p = the (map_of (mm_heap m) p)"

section \<open>Prefix keys\<close>

text \<open>The rolling hash: each key depends on the whole prefix up to its turn.\<close>

fun rollingLoop :: "turn_env \<Rightarrow> nat \<Rightarrow> string \<Rightarrow> string list \<Rightarrow> string list" where
  "rollingLoop env index previous [] = []"
| "rollingLoop env index previous (fingerprint # fingerprints) =
     (let sum = tn_sha256 env (previous @ [CHR 0x00] @ fingerprint)
      in (format_nat (index + 1) @ '':'' @ hex_encode sum) # rollingLoop env (index + 1) sum fingerprints)"

definition rollingPrefixKeys :: "turn_env \<Rightarrow> string list \<Rightarrow> string list" where
  "rollingPrefixKeys env fingerprints = rollingLoop env 0 (replicate 32 (CHR 0x00)) fingerprints"

definition sequenceKey :: "turn_env \<Rightarrow> string list \<Rightarrow> string" where
  "sequenceKey env fingerprints =
     (let keys = rollingPrefixKeys env fingerprints in if keys = [] then [] else last keys)"

definition newLCPSessionID :: "turn_env \<Rightarrow> string \<Rightarrow> string \<Rightarrow> string" where
  "newLCPSessionID env namespace firstPrefix =
     ''lcp:v1:'' @ hex_encode (tn_sha256 env
       (''ai-provider-scheduling:lcp-session:v1'' @ [CHR 0x00] @ namespace @ [CHR 0x00] @ firstPrefix))"

section \<open>Adding and removing groups\<close>

definition namespaceLocked :: "string \<Rightarrow> MerklePrefixMatcher \<Rightarrow> lcpNamespace" where
  "namespaceLocked namespace m =
     (case map_of (mm_groups m) namespace of None \<Rightarrow> \<lparr>nm_groups = [], nm_prefixes = []\<rparr> | Some ns \<Rightarrow> ns)"

definition dropFromBucket :: "string \<Rightarrow> (string, (string, nat) go_map) go_map \<Rightarrow> string
    \<Rightarrow> (string, (string, nat) go_map) go_map" where
  "dropFromBucket key prefixes prefix_key =
     (case map_of prefixes prefix_key of
        None \<Rightarrow> prefixes
      | Some bucket0 \<Rightarrow>
          let bucket = AList.delete key bucket0
          in if bucket = [] then AList.delete prefix_key prefixes else AList.update prefix_key bucket prefixes)"

definition removeGroupLocked :: "nat \<Rightarrow> MerklePrefixMatcher \<Rightarrow> MerklePrefixMatcher" where
  "removeGroupLocked p m =
     (let g = the_group m p;
          m1 = (case map_of (mm_groups m) (lg_namespace g) of
                  None \<Rightarrow> m
                | Some ns \<Rightarrow>
                    let ns1 = \<lparr>nm_groups = (if map_of (nm_groups ns) (lg_key g) = Some p
                                            then AList.delete (lg_key g) (nm_groups ns) else nm_groups ns),
                               nm_prefixes = foldl (dropFromBucket (lg_key g)) (nm_prefixes ns) (lg_prefixKeys g)\<rparr>
                    in m\<lparr>mm_groups := (if nm_groups ns1 = [] then AList.delete (lg_namespace g) (mm_groups m)
                                       else AList.update (lg_namespace g) ns1 (mm_groups m))\<rparr>)
      in m1\<lparr>mm_lru := remove1 p (mm_lru m1),
            mm_groupCount := (if mm_groupCount m1 > 0 then mm_groupCount m1 - 1 else mm_groupCount m1),
            mm_prefixCount := (if mm_prefixCount m1 \<ge> length (lg_prefixKeys g)
                               then mm_prefixCount m1 - length (lg_prefixKeys g) else 0)\<rparr>)"

text \<open>
  The eviction loop. Every round takes an address off the front of the list, so its length is enough fuel.
\<close>

fun evictGroups :: "nat \<Rightarrow> MerklePrefixMatcher \<Rightarrow> MerklePrefixMatcher" where
  "evictGroups 0 m = m"
| "evictGroups (Suc fuel) m =
     (if mm_groupCount m > mm_maxGroups m \<or> mm_prefixCount m > mm_maxPrefixes m
      then case mm_lru m of [] \<Rightarrow> m | oldest # _ \<Rightarrow> evictGroups fuel (removeGroupLocked oldest m)
      else m)"

definition nextAccessNumberLocked :: "MerklePrefixMatcher \<Rightarrow> 64 word \<times> MerklePrefixMatcher" where
  "nextAccessNumberLocked m = (let n = mm_accessCounter m + 1 in (n, m\<lparr>mm_accessCounter := n\<rparr>))"

definition insertGroup :: "turn_env \<Rightarrow> lcpGroup \<Rightarrow> MerklePrefixMatcher \<Rightarrow> MerklePrefixMatcher" where
  "insertGroup env grp0 m0 =
     (let p = mm_next m0;
          ns = namespaceLocked (lg_namespace grp0) m0;
          (n, m) = nextAccessNumberLocked m0;
          grp = grp0\<lparr>lg_prefixKeys := (if lg_prefixKeys grp0 = [] then rollingPrefixKeys env (lg_fingerprints grp0)
                                         else lg_prefixKeys grp0),
                      lg_lastAccessNumber := n\<rparr>;
          ns1 = \<lparr>nm_groups = AList.update (lg_key grp) p (nm_groups ns),
                 nm_prefixes = foldl (\<lambda>prefixes k. AList.update k (AList.update (lg_key grp) p (map_get [] prefixes k)) prefixes)
                   (nm_prefixes ns) (lg_prefixKeys grp)\<rparr>
      in m\<lparr>mm_heap := AList.update p grp (mm_heap m), mm_next := Suc p,
           mm_groups := AList.update (lg_namespace grp) ns1 (mm_groups m),
           mm_lru := mm_lru m @ [p], mm_groupCount := mm_groupCount m + 1,
           mm_prefixCount := mm_prefixCount m + length (lg_prefixKeys grp)\<rparr>)"

definition addGroupLocked :: "turn_env \<Rightarrow> lcpGroup \<Rightarrow> MerklePrefixMatcher \<Rightarrow> MerklePrefixMatcher" where
  "addGroupLocked env grp m = (let m1 = insertGroup env grp m in evictGroups (length (mm_lru m1)) m1)"

definition removeLcpWhere :: "(lcpGroup \<Rightarrow> bool) \<Rightarrow> MerklePrefixMatcher \<Rightarrow> MerklePrefixMatcher" where
  "removeLcpWhere P m =
     foldl (\<lambda>m p. if P (the_group m p) then removeGroupLocked p m else m) m
       (concat (map (\<lambda>(_, ns). map snd (nm_groups ns)) (mm_groups m)))"

definition cleanupLocked :: "go_time \<Rightarrow> MerklePrefixMatcher \<Rightarrow> MerklePrefixMatcher" where
  "cleanupLocked now m = removeLcpWhere (\<lambda>g. \<not> now < lg_expiresAt g) m"

definition prepareLocked :: "go_time \<Rightarrow> MerklePrefixMatcher \<Rightarrow> MerklePrefixMatcher" where
  "prepareLocked now m =
     (let m1 = m\<lparr>mm_operations := mm_operations m + 1\<rparr>
      in if mm_operations m1 mod 128 = 0 then cleanupLocked now m1 else m1)"

section \<open>Matching\<close>

definition newestMatchingGroup :: "(nat \<Rightarrow> lcpGroup) \<Rightarrow> (string, nat) go_map \<Rightarrow> string list \<Rightarrow> go_time \<Rightarrow> nat option" where
  "newestMatchingGroup grp bucket fingerprints now =
     foldl (\<lambda>best (_, p).
        if \<not> now < lg_expiresAt (grp p) \<or> lg_minPrefixLength (grp p) > length fingerprints \<or>
           length (lg_fingerprints (grp p)) < length fingerprints \<or>
           take (length fingerprints) (lg_fingerprints (grp p)) \<noteq> fingerprints
        then best
        else case best of
               None \<Rightarrow> Some p
             | Some b \<Rightarrow>
                 if lg_lastAccessNumber (grp p) > lg_lastAccessNumber (grp b) \<or>
                    (lg_lastAccessNumber (grp p) = lg_lastAccessNumber (grp b) \<and> lg_expiresAt (grp p) > lg_expiresAt (grp b))
                 then Some p else best)
       None bucket"

text \<open>The binary search over prefix lengths: \<open>probe n\<close> is the candidate that shares the first \<open>n\<close> turns.\<close>

function searchLoop :: "(nat \<Rightarrow> nat option) \<Rightarrow> nat \<Rightarrow> nat \<Rightarrow> (nat \<times> nat) option \<Rightarrow> (nat \<times> nat) option" where
  "searchLoop probe low high best =
     (if low \<le> high
      then let middle = low + (high - low) div 2
           in case probe middle of
                None \<Rightarrow> if middle = 0 then best else searchLoop probe low (middle - 1) best
              | Some candidate \<Rightarrow> searchLoop probe (middle + 1) high (Some (candidate, middle))
      else best)"
  by pat_completeness auto
termination
  by (relation "measure (\<lambda>(probe, low, high, best). Suc high - low)") auto

definition touchGroup :: "nat \<Rightarrow> go_time \<Rightarrow> MerklePrefixMatcher \<Rightarrow> MerklePrefixMatcher" where
  "touchGroup p now m =
     (let (n, m1) = nextAccessNumberLocked m
      in m1\<lparr>mm_heap := AList.update p ((the_group m1 p)\<lparr>lg_expiresAt := now + mm_ttl m1, lg_lastAccessNumber := n\<rparr>) (mm_heap m1),
            mm_lru := (if p \<in> set (mm_lru m1) then remove1 p (mm_lru m1) @ [p] else mm_lru m1)\<rparr>)"

definition matchLocked ::
  "turn_env \<Rightarrow> string \<Rightarrow> string list \<Rightarrow> nat \<Rightarrow> go_time \<Rightarrow> MerklePrefixMatcher
    \<Rightarrow> MerklePrefixMatch option \<times> MerklePrefixMatcher" where
  "matchLocked env namespace fingerprints minPrefixLength now m =
     (case map_of (mm_groups m) namespace of
        None \<Rightarrow> (None, m)
      | Some ns \<Rightarrow>
          if fingerprints = [] \<or> minPrefixLength = 0 \<or> minPrefixLength > length fingerprints then (None, m)
          else
            let prefixKeys = rollingPrefixKeys env fingerprints;
                probe = (\<lambda>middle. newestMatchingGroup (the_group m)
                           (map_get [] (nm_prefixes ns) (prefixKeys ! (middle - 1))) (take middle fingerprints) now)
            in case searchLoop probe minPrefixLength (length fingerprints) None of
                 None \<Rightarrow> (None, m)
               | Some (best, bestLength) \<Rightarrow>
                   (Some \<lparr>mt_AuthID = lg_authID (the_group m best), mt_SessionID = lg_sessionID (the_group m best),
                          mt_PrefixLength = bestLength\<rparr>,
                    touchGroup best now m))"

section \<open>Binding and refreshing\<close>

definition bindLocked ::
  "turn_env \<Rightarrow> string \<Rightarrow> string list \<Rightarrow> nat \<Rightarrow> string \<Rightarrow> go_time \<Rightarrow> MerklePrefixMatcher
    \<Rightarrow> string \<times> MerklePrefixMatcher" where
  "bindLocked env namespace fingerprints minPrefixLength authID now m =
     (let ns = namespaceLocked namespace m;
          key = sequenceKey env fingerprints;
          grp = (\<lambda>sessionID prefixKeys.
             \<lparr>lg_key = key, lg_namespace = namespace, lg_authID = authID, lg_sessionID = sessionID,
              lg_minPrefixLength = minPrefixLength, lg_fingerprints = fingerprints, lg_prefixKeys = prefixKeys,
              lg_expiresAt = now + mm_ttl m, lg_lastAccessNumber = 0\<rparr>);
          fresh_bind = (\<lambda>m.
             let (match, m1) = matchLocked env namespace fingerprints minPrefixLength now m;
                 found = (case match of None \<Rightarrow> [] | Some r \<Rightarrow> mt_SessionID r);
                 prefixKeys = rollingPrefixKeys env fingerprints;
                 firstKey = (if prefixKeys = [] then []
                             else prefixKeys ! (if 0 < minPrefixLength \<and> minPrefixLength \<le> length prefixKeys
                                                then minPrefixLength - 1 else 0));
                 sessionID = (if found = [] then newLCPSessionID env namespace firstKey else found)
             in (sessionID, addGroupLocked env (grp sessionID prefixKeys) m1))
      in case map_of (nm_groups ns) key of
           None \<Rightarrow> fresh_bind m
         | Some existing \<Rightarrow>
             let e = the_group m existing; m1 = removeGroupLocked existing m
             in if now < lg_expiresAt e then (lg_sessionID e, addGroupLocked env (grp (lg_sessionID e) []) m1)
                else fresh_bind m1)"

definition touchLocked ::
  "turn_env \<Rightarrow> string \<Rightarrow> string list \<Rightarrow> nat \<Rightarrow> string \<Rightarrow> go_time \<Rightarrow> MerklePrefixMatcher
    \<Rightarrow> bool \<times> MerklePrefixMatcher" where
  "touchLocked env namespace fingerprints minPrefixLength authID now m =
     (case map_of (nm_groups (namespaceLocked namespace m)) (sequenceKey env fingerprints) of
        None \<Rightarrow> (True, snd (bindLocked env namespace fingerprints minPrefixLength authID now m))
      | Some existing \<Rightarrow>
          let e = the_group m existing
          in if \<not> now < lg_expiresAt e
             then (True, snd (bindLocked env namespace fingerprints minPrefixLength authID now (removeGroupLocked existing m)))
             else if lg_authID e \<noteq> authID then (False, m)
             else (True, touchGroup existing now m))"

section \<open>Operations\<close>

definition sanitizeFingerprints :: "nat \<Rightarrow> string list \<Rightarrow> nat \<Rightarrow> (string list \<times> nat) option" where
  "sanitizeFingerprints maxTurns0 fingerprints minPrefixLength =
     (if fingerprints = [] \<or> minPrefixLength = 0 \<or> minPrefixLength > length fingerprints then None
      else let maxTurns = (if maxTurns0 = 0 then 1024 else maxTurns0)
           in if length fingerprints > maxTurns
              then if minPrefixLength > maxTurns then None else Some (take maxTurns fingerprints, minPrefixLength)
              else Some (fingerprints, minPrefixLength))"

definition fingerprints_of :: "turn_env \<Rightarrow> nat \<Rightarrow> CanonicalTurn list \<Rightarrow> string list" where
  "fingerprints_of env maxTurns turns = map (FastTurnFingerprint env) (take maxTurns turns)"

definition Prepare :: "turn_env \<Rightarrow> CanonicalTurn list \<Rightarrow> MerklePrefixMatcher \<Rightarrow> string list \<times> nat" where
  "Prepare env turns m = (fingerprints_of env (mm_maxTurns m) turns, minimumAffinityPrefixLength turns)"

definition MatchFingerprints ::
  "turn_env \<Rightarrow> string \<Rightarrow> string list \<Rightarrow> nat \<Rightarrow> go_time \<Rightarrow> MerklePrefixMatcher
    \<Rightarrow> MerklePrefixMatch option \<times> MerklePrefixMatcher" where
  "MatchFingerprints env namespace fingerprints minPrefixLength now m =
     (if namespace = [] then (None, m)
      else case sanitizeFingerprints (mm_maxTurns m) fingerprints minPrefixLength of
             None \<Rightarrow> (None, m)
           | Some (fps, low) \<Rightarrow> matchLocked env namespace fps low now (prepareLocked now m))"

definition BindFingerprints ::
  "turn_env \<Rightarrow> string \<Rightarrow> string list \<Rightarrow> nat \<Rightarrow> string \<Rightarrow> go_time \<Rightarrow> MerklePrefixMatcher
    \<Rightarrow> string \<times> MerklePrefixMatcher" where
  "BindFingerprints env namespace fingerprints minPrefixLength authID now m =
     (if TrimSpace namespace = [] \<or> TrimSpace authID = [] then ([], m)
      else case sanitizeFingerprints (mm_maxTurns m) fingerprints minPrefixLength of
             None \<Rightarrow> ([], m)
           | Some (fps, low) \<Rightarrow> bindLocked env namespace fps low (TrimSpace authID) now (prepareLocked now m))"

definition TouchFingerprints ::
  "turn_env \<Rightarrow> string \<Rightarrow> string list \<Rightarrow> nat \<Rightarrow> string \<Rightarrow> go_time \<Rightarrow> MerklePrefixMatcher
    \<Rightarrow> bool \<times> MerklePrefixMatcher" where
  "TouchFingerprints env namespace fingerprints minPrefixLength authID now m =
     (if TrimSpace namespace = [] \<or> TrimSpace authID = [] then (False, m)
      else case sanitizeFingerprints (mm_maxTurns m) fingerprints minPrefixLength of
             None \<Rightarrow> (False, m)
           | Some (fps, low) \<Rightarrow> touchLocked env namespace fps low (TrimSpace authID) now (prepareLocked now m))"

definition RemoveFingerprints ::
  "turn_env \<Rightarrow> string \<Rightarrow> string list \<Rightarrow> string \<Rightarrow> go_time \<Rightarrow> MerklePrefixMatcher \<Rightarrow> bool \<times> MerklePrefixMatcher" where
  "RemoveFingerprints env namespace fingerprints0 authID now m0 =
     (if namespace = [] \<or> authID = [] \<or> fingerprints0 = [] then (False, m0)
      else
        let fingerprints = take (if mm_maxTurns m0 = 0 then 1024 else mm_maxTurns m0) fingerprints0;
            m = prepareLocked now m0
        in case map_of (mm_groups m) namespace of
             None \<Rightarrow> (False, m)
           | Some ns \<Rightarrow>
               (case map_of (nm_groups ns) (sequenceKey env fingerprints) of
                  None \<Rightarrow> (False, m)
                | Some p \<Rightarrow> if lg_authID (the_group m p) \<noteq> authID then (False, m)
                            else (True, removeGroupLocked p m)))"

definition matcher_InvalidateAuth :: "string \<Rightarrow> MerklePrefixMatcher \<Rightarrow> MerklePrefixMatcher" where
  "matcher_InvalidateAuth authID m = (if authID = [] then m else removeLcpWhere (\<lambda>g. lg_authID g = authID) m)"

definition matcher_Clear :: "MerklePrefixMatcher \<Rightarrow> MerklePrefixMatcher" where
  "matcher_Clear m = m\<lparr>mm_groups := [], mm_lru := [], mm_groupCount := 0, mm_prefixCount := 0, mm_accessCounter := 0\<rparr>"

text \<open>The operations on turns, which prepare them first.\<close>

definition Match_turns ::
  "turn_env \<Rightarrow> string \<Rightarrow> CanonicalTurn list \<Rightarrow> go_time \<Rightarrow> MerklePrefixMatcher
    \<Rightarrow> MerklePrefixMatch option \<times> MerklePrefixMatcher" where
  "Match_turns env namespace turns now m =
     (let (fingerprints, minPrefixLength) = Prepare env turns m
      in MatchFingerprints env namespace fingerprints minPrefixLength now m)"

definition Bind_turns ::
  "turn_env \<Rightarrow> string \<Rightarrow> CanonicalTurn list \<Rightarrow> string \<Rightarrow> go_time \<Rightarrow> MerklePrefixMatcher \<Rightarrow> string \<times> MerklePrefixMatcher" where
  "Bind_turns env namespace turns authID now m =
     (let (fingerprints, minPrefixLength) = Prepare env turns m
      in BindFingerprints env namespace fingerprints minPrefixLength authID now m)"

definition Touch_turns ::
  "turn_env \<Rightarrow> string \<Rightarrow> CanonicalTurn list \<Rightarrow> string \<Rightarrow> go_time \<Rightarrow> MerklePrefixMatcher \<Rightarrow> bool \<times> MerklePrefixMatcher" where
  "Touch_turns env namespace turns authID now m =
     (let (fingerprints, minPrefixLength) = Prepare env turns m
      in TouchFingerprints env namespace fingerprints minPrefixLength authID now m)"

definition Remove_turns ::
  "turn_env \<Rightarrow> string \<Rightarrow> CanonicalTurn list \<Rightarrow> string \<Rightarrow> go_time \<Rightarrow> MerklePrefixMatcher \<Rightarrow> bool \<times> MerklePrefixMatcher" where
  "Remove_turns env namespace turns authID now m =
     RemoveFingerprints env namespace (fst (Prepare env turns m)) authID now m"

end
