(* ===== verification/PrefixInv.thy ===== *)
theory PrefixInv
  imports PrefixMatcher
begin

text \<open>
  The invariant of the prefix matcher: the maps of every namespace, the buckets of the prefix index and
  the eviction list describe the same groups, the counters count them, and the limits hold.
\<close>

section \<open>Views\<close>

definition reg :: "MerklePrefixMatcher \<Rightarrow> string \<Rightarrow> string \<Rightarrow> nat option" where
  "reg m n k = (case map_of (mm_groups m) n of None \<Rightarrow> None | Some ns \<Rightarrow> map_of (nm_groups ns) k)"

definition bkt :: "MerklePrefixMatcher \<Rightarrow> string \<Rightarrow> string \<Rightarrow> (string, nat) go_map" where
  "bkt m n x = (case map_of (mm_groups m) n of None \<Rightarrow> [] | Some ns \<Rightarrow> map_get [] (nm_prefixes ns) x)"

lemma ns_reg: "map_of (nm_groups (namespaceLocked n m)) k = reg m n k"
  by (simp add: namespaceLocked_def reg_def split: option.split)

lemma ns_bkt: "map_get [] (nm_prefixes (namespaceLocked n m)) x = bkt m n x"
  by (simp add: namespaceLocked_def bkt_def split: option.split)

definition lcp_linked :: "MerklePrefixMatcher \<Rightarrow> bool" where
  "lcp_linked m \<longleftrightarrow> wf_map (mm_groups m) \<and> (\<forall>(n, ns) \<in> set (mm_groups m). wf_map (nm_groups ns)) \<and>
     distinct (mm_lru m) \<and> (\<forall>p \<in> set (mm_lru m). p < mm_next m) \<and>
     (\<forall>n k p. reg m n k = Some p \<longleftrightarrow>
        p \<in> set (mm_lru m) \<and> lg_namespace (the_group m p) = n \<and> lg_key (the_group m p) = k) \<and>
     (\<forall>n x k p. (k, p) \<in> set (bkt m n x) \<longleftrightarrow>
        p \<in> set (mm_lru m) \<and> lg_namespace (the_group m p) = n \<and> lg_key (the_group m p) = k \<and>
        x \<in> set (lg_prefixKeys (the_group m p)))"

lemma lcp_linked_reg: "lcp_linked m \<Longrightarrow> reg m n k = Some p \<longleftrightarrow>
    p \<in> set (mm_lru m) \<and> lg_namespace (the_group m p) = n \<and> lg_key (the_group m p) = k"
  by (simp add: lcp_linked_def)

lemma lcp_linked_bkt: "lcp_linked m \<Longrightarrow> (k, p) \<in> set (bkt m n x) \<longleftrightarrow> reg m n k = Some p \<and> x \<in> set (lg_prefixKeys (the_group m p))"
  unfolding lcp_linked_reg by (simp add: lcp_linked_def)

lemma lcp_linkedI:
  assumes "wf_map (mm_groups m)" "\<forall>(n, ns) \<in> set (mm_groups m). wf_map (nm_groups ns)"
    and "distinct (mm_lru m)" "\<And>p. p \<in> set (mm_lru m) \<Longrightarrow> p < mm_next m"
    and "\<And>n k p. reg m n k = Some p \<longleftrightarrow> p \<in> set (mm_lru m) \<and> lg_namespace (the_group m p) = n \<and> lg_key (the_group m p) = k"
    and "\<And>n x k p. (k, p) \<in> set (bkt m n x) \<longleftrightarrow> reg m n k = Some p \<and> x \<in> set (lg_prefixKeys (the_group m p))"
  shows "lcp_linked m"
  unfolding lcp_linked_def using assms(1-4) unfolding assms(6) unfolding assms(5) by simp

definition lcp_group_ok :: "turn_env \<Rightarrow> nat \<Rightarrow> lcpGroup \<Rightarrow> bool" where
  "lcp_group_ok env maxTurns g \<longleftrightarrow>
     lg_prefixKeys g = rollingPrefixKeys env (lg_fingerprints g) \<and> lg_key g = sequenceKey env (lg_fingerprints g) \<and>
     0 < lg_minPrefixLength g \<and> lg_minPrefixLength g \<le> length (lg_fingerprints g) \<and>
     length (lg_fingerprints g) \<le> maxTurns"

definition weight :: "MerklePrefixMatcher \<Rightarrow> nat list \<Rightarrow> nat" where
  "weight m ps = sum_list (map (\<lambda>p. length (lg_prefixKeys (the_group m p))) ps)"

definition counted :: "MerklePrefixMatcher \<Rightarrow> bool" where
  "counted m \<longleftrightarrow> mm_groupCount m = length (mm_lru m) \<and> mm_prefixCount m = weight m (mm_lru m)"

definition limited :: "MerklePrefixMatcher \<Rightarrow> bool" where
  "limited m \<longleftrightarrow> mm_groupCount m \<le> mm_maxGroups m \<and> mm_prefixCount m \<le> mm_maxPrefixes m"

definition configured :: "MerklePrefixMatcher \<Rightarrow> bool" where
  "configured m \<longleftrightarrow> 0 < mm_ttl m \<and> 0 < mm_maxTurns m \<and> 0 < mm_maxGroups m \<and> mm_maxTurns m \<le> mm_maxPrefixes m"

definition groups_ok :: "turn_env \<Rightarrow> MerklePrefixMatcher \<Rightarrow> bool" where
  "groups_ok env m \<longleftrightarrow> (\<forall>p \<in> set (mm_lru m). lcp_group_ok env (mm_maxTurns m) (the_group m p))"

section \<open>Removal\<close>

lemma bucket_drop: "map_get [] (dropFromBucket key ps x') x = (if x = x' then AList.delete key (map_get [] ps x) else map_get [] ps x)"
  by (auto simp: dropFromBucket_def map_get_def map_of_delete map_of_update Let_def split: option.split)

lemma bucket_drops:
  "map_get [] (foldl (dropFromBucket key) ps xs) x = (if x \<in> set xs then AList.delete key (map_get [] ps x) else map_get [] ps x)"
  by (induction xs arbitrary: ps) (auto simp: bucket_drop delete_idem)

lemma in_delete: "(k, p) \<in> set (AList.delete key al) \<longleftrightarrow> (k, p) \<in> set al \<and> k \<noteq> key"
  by (auto simp: AList.delete_eq)

lemma set_update_subset: "set (AList.update k v al) \<subseteq> insert (k, v) (set al)"
  by (induction al) auto

lemma remove_config [simp]:
  "mm_ttl (removeGroupLocked p m) = mm_ttl m" "mm_maxTurns (removeGroupLocked p m) = mm_maxTurns m"
  "mm_maxGroups (removeGroupLocked p m) = mm_maxGroups m" "mm_maxPrefixes (removeGroupLocked p m) = mm_maxPrefixes m"
  "mm_accessCounter (removeGroupLocked p m) = mm_accessCounter m" "mm_next (removeGroupLocked p m) = mm_next m"
  "mm_heap (removeGroupLocked p m) = mm_heap m" "the_group (removeGroupLocked p m) = the_group m"
  "mm_lru (removeGroupLocked p m) = remove1 p (mm_lru m)"
  by (auto simp: removeGroupLocked_def the_group_def Let_def fun_eq_iff split: option.split)

lemma remove_reg:
  assumes "lcp_linked m" "p \<in> set (mm_lru m)"
  shows "reg (removeGroupLocked p m) n k = (if reg m n k = Some p then None else reg m n k)"
proof -
  let ?g = "the_group m p"
  have "reg m (lg_namespace ?g) (lg_key ?g) = Some p" using assms by (simp add: lcp_linked_def)
  then obtain ns where ns: "map_of (mm_groups m) (lg_namespace ?g) = Some ns" "map_of (nm_groups ns) (lg_key ?g) = Some p"
    by (auto simp: reg_def split: option.splits)
  have only: "reg m n k = Some p \<longleftrightarrow> n = lg_namespace ?g \<and> k = lg_key ?g"
    using assms by (auto simp: lcp_linked_def)
  have gone: "map_of (nm_groups ns) k = None" if "AList.delete (lg_key ?g) (nm_groups ns) = []" "k \<noteq> lg_key ?g"
    using that map_of_delete[of "lg_key ?g" "nm_groups ns" k] by simp
  show ?thesis
    using only ns gone
    by (auto simp: removeGroupLocked_def reg_def Let_def map_of_delete map_of_update split: option.split)
qed

lemma remove_bkt:
  assumes "lcp_linked m" "p \<in> set (mm_lru m)"
  shows "(k, q) \<in> set (bkt (removeGroupLocked p m) n x) \<longleftrightarrow> (k, q) \<in> set (bkt m n x) \<and> q \<noteq> p"
proof -
  let ?g = "the_group m p"
  have "reg m (lg_namespace ?g) (lg_key ?g) = Some p" using assms by (simp add: lcp_linked_def)
  then obtain ns where ns: "map_of (mm_groups m) (lg_namespace ?g) = Some ns" "map_of (nm_groups ns) (lg_key ?g) = Some p"
    by (auto simp: reg_def split: option.splits)
  have mem: "(k, q) \<in> set (bkt m n x) \<longleftrightarrow> reg m n k = Some q \<and> x \<in> set (lg_prefixKeys (the_group m q))" for n x k q
    by (rule lcp_linked_bkt[OF assms(1)])
  show ?thesis
  proof (cases "n = lg_namespace ?g")
    case False
    then have "bkt (removeGroupLocked p m) n x = bkt m n x"
      using ns by (auto simp: removeGroupLocked_def bkt_def Let_def map_of_delete map_of_update)
    moreover have "(k, p) \<notin> set (bkt m n x)" using False assms(1) by (auto simp: lcp_linked_def)
    ultimately show ?thesis by auto
  next
    case True
    have b: "bkt m n x = map_get [] (nm_prefixes ns) x" using ns(1) True by (simp add: bkt_def)
    have r: "reg m n k = map_of (nm_groups ns) k" for k using ns(1) True by (simp add: reg_def)
    have qp: "q = p \<longleftrightarrow> k = lg_key ?g" if "(k, q) \<in> set (bkt m n x)"
    proof -
      have q: "reg m n k = Some q" using that mem by blast
      show ?thesis
      proof
        assume "q = p"
        with q show "k = lg_key ?g" using lcp_linked_reg[OF assms(1)] by simp
      qed (use q r ns(2) in simp)
    qed
    show ?thesis
    proof (cases "AList.delete (lg_key ?g) (nm_groups ns) = []")
      case last: True
      then have "bkt (removeGroupLocked p m) n x = []"
        using ns True by (simp add: removeGroupLocked_def bkt_def Let_def map_of_delete)
      moreover have "q = p" if "(k, q) \<in> set (bkt m n x)"
        using that mem[of k q n x] r ns(2) map_of_delete[of "lg_key ?g" "nm_groups ns" k] last by (auto split: if_splits)
      ultimately show ?thesis by auto
    next
      case False
      then have "bkt (removeGroupLocked p m) n x =
          (if x \<in> set (lg_prefixKeys ?g) then AList.delete (lg_key ?g) (bkt m n x) else bkt m n x)"
        using ns True b by (simp add: removeGroupLocked_def bkt_def Let_def map_of_update bucket_drops)
      moreover have "(k, p) \<notin> set (bkt m n x)" if "x \<notin> set (lg_prefixKeys ?g)" using that mem by blast
      ultimately show ?thesis using qp by (cases "x \<in> set (lg_prefixKeys ?g)") (auto simp: in_delete)
    qed
  qed
qed

lemma remove_wf:
  assumes "lcp_linked m"
  shows "\<forall>(n, ns) \<in> set (mm_groups (removeGroupLocked p m)). wf_map (nm_groups ns)"
proof (cases "map_of (mm_groups m) (lg_namespace (the_group m p))")
  case (Some ns)
  have w: "\<forall>x \<in> set (mm_groups m). wf_map (nm_groups (snd x))" using assms by (auto simp: lcp_linked_def)
  then have ns: "wf_map (nm_groups ns)" using map_of_SomeD[OF Some] by force
  let ?ns = "\<lparr>nm_groups = (if map_of (nm_groups ns) (lg_key (the_group m p)) = Some p
      then AList.delete (lg_key (the_group m p)) (nm_groups ns) else nm_groups ns),
    nm_prefixes = foldl (dropFromBucket (lg_key (the_group m p))) (nm_prefixes ns) (lg_prefixKeys (the_group m p))\<rparr>"
  have "set (mm_groups (removeGroupLocked p m)) \<subseteq> insert (lg_namespace (the_group m p), ?ns) (set (mm_groups m))"
    using Some set_update_subset[of "lg_namespace (the_group m p)" ?ns "mm_groups m"]
    by (auto simp: removeGroupLocked_def Let_def AList.delete_eq)
  then have "\<forall>x \<in> set (mm_groups (removeGroupLocked p m)). wf_map (nm_groups (snd x))"
    by (rule ball_insert_subset) (use ns w in \<open>auto intro: wf_map_delete\<close>)
  then show ?thesis by (simp add: split_beta)
qed (use assms in \<open>simp add: removeGroupLocked_def Let_def lcp_linked_def\<close>)

lemma remove_linked:
  assumes "lcp_linked m" "p \<in> set (mm_lru m)"
  shows "lcp_linked (removeGroupLocked p m)"
proof (rule lcp_linkedI)
  show "wf_map (mm_groups (removeGroupLocked p m))"
    using assms(1) by (auto simp: removeGroupLocked_def Let_def lcp_linked_def wf_map_update wf_map_delete split: option.split)
  show "\<forall>(n, ns) \<in> set (mm_groups (removeGroupLocked p m)). wf_map (nm_groups ns)"
    by (rule remove_wf[OF assms(1)])
  show "distinct (mm_lru (removeGroupLocked p m))" using assms by (simp add: lcp_linked_def)
  show "q < mm_next (removeGroupLocked p m)" if "q \<in> set (mm_lru (removeGroupLocked p m))" for q
    using that assms(1) by (auto simp: lcp_linked_def dest: set_remove1_subset[THEN subsetD])
  have only: "q \<noteq> p \<longleftrightarrow> reg m n k \<noteq> Some p" if "reg m n k = Some q" for n k q using that by auto
  have lru: "set (mm_lru (removeGroupLocked p m)) = set (mm_lru m) - {p}" using assms(1) by (simp add: lcp_linked_def)
  show "reg (removeGroupLocked p m) n k = Some q \<longleftrightarrow> q \<in> set (mm_lru (removeGroupLocked p m)) \<and>
      lg_namespace (the_group (removeGroupLocked p m) q) = n \<and> lg_key (the_group (removeGroupLocked p m) q) = k" for n k q
    unfolding remove_reg[OF assms] lru using lcp_linked_reg[OF assms(1), of n k q] only[of n k q] by auto
  show "(k, q) \<in> set (bkt (removeGroupLocked p m) n x) \<longleftrightarrow>
      reg (removeGroupLocked p m) n k = Some q \<and> x \<in> set (lg_prefixKeys (the_group (removeGroupLocked p m) q))" for n x k q
    unfolding remove_bkt[OF assms] remove_reg[OF assms] lcp_linked_bkt[OF assms(1)] by auto
qed

lemma weight_remove1: "p \<in> set ps \<Longrightarrow> weight m (remove1 p ps) = weight m ps - length (lg_prefixKeys (the_group m p))"
  and weight_member: "p \<in> set ps \<Longrightarrow> length (lg_prefixKeys (the_group m p)) \<le> weight m ps"
  by (induction ps) (auto simp: weight_def)

lemma weight_cong: "the_group m' = the_group m \<Longrightarrow> weight m' = weight m"
  by (simp add: weight_def fun_eq_iff)

lemma remove_counts:
  assumes "counted m" "p \<in> set (mm_lru m)"
  shows "counted (removeGroupLocked p m)"
    "mm_groupCount (removeGroupLocked p m) = mm_groupCount m - 1"
    "mm_prefixCount (removeGroupLocked p m) = mm_prefixCount m - length (lg_prefixKeys (the_group m p))"
proof -
  have c: "mm_groupCount (removeGroupLocked p m) = mm_groupCount m - 1"
    "mm_prefixCount (removeGroupLocked p m) = mm_prefixCount m - length (lg_prefixKeys (the_group m p))"
    by (auto simp: removeGroupLocked_def Let_def split: option.split)
  show "counted (removeGroupLocked p m)"
    using assms c by (simp add: counted_def length_remove1 weight_remove1 weight_cong[of "removeGroupLocked p m" m])
  show "mm_groupCount (removeGroupLocked p m) = mm_groupCount m - 1"
    "mm_prefixCount (removeGroupLocked p m) = mm_prefixCount m - length (lg_prefixKeys (the_group m p))"
    by (fact c)+
qed

lemma limited_remove: "limited m \<Longrightarrow> counted m \<Longrightarrow> p \<in> set (mm_lru m) \<Longrightarrow> limited (removeGroupLocked p m)"
  using remove_counts(2,3)[of m p] unfolding limited_def remove_config by linarith

text \<open>The whole invariant.\<close>

definition matcher_ok :: "turn_env \<Rightarrow> MerklePrefixMatcher \<Rightarrow> bool" where
  "matcher_ok env m \<longleftrightarrow> lcp_linked m \<and> counted m \<and> limited m \<and> configured m \<and> groups_ok env m"

lemma groups_ok_remove: "groups_ok env m \<Longrightarrow> groups_ok env (removeGroupLocked p m)"
  by (auto simp: groups_ok_def dest: set_remove1_subset[THEN subsetD])

lemma configured_remove [simp]: "configured (removeGroupLocked p m) = configured m"
  by (simp add: configured_def)

lemma remove_ok: "matcher_ok env m \<Longrightarrow> p \<in> set (mm_lru m) \<Longrightarrow> matcher_ok env (removeGroupLocked p m)"
  by (simp add: matcher_ok_def remove_linked remove_counts(1) limited_remove groups_ok_remove)

section \<open>Insertion\<close>

lemma bucket_inserts:
  "map_get [] (foldl (\<lambda>prefixes k. AList.update k (AList.update key p (map_get [] prefixes k)) prefixes) ps xs) x =
     (if x \<in> set xs then AList.update key p (map_get [] ps x) else map_get [] ps x)"
  by (induction xs arbitrary: ps) auto

lemma insert_config [simp]:
  "mm_ttl (insertGroup env g m) = mm_ttl m" "mm_maxTurns (insertGroup env g m) = mm_maxTurns m"
  "mm_maxGroups (insertGroup env g m) = mm_maxGroups m" "mm_maxPrefixes (insertGroup env g m) = mm_maxPrefixes m"
  "mm_next (insertGroup env g m) = Suc (mm_next m)" "mm_lru (insertGroup env g m) = mm_lru m @ [mm_next m]"
  "mm_accessCounter (insertGroup env g m) = mm_accessCounter m + 1"
  by (simp_all add: insertGroup_def nextAccessNumberLocked_def Let_def)

definition stored_group :: "turn_env \<Rightarrow> lcpGroup \<Rightarrow> MerklePrefixMatcher \<Rightarrow> lcpGroup" where
  "stored_group env g m = g\<lparr>lg_prefixKeys := (if lg_prefixKeys g = [] then rollingPrefixKeys env (lg_fingerprints g)
       else lg_prefixKeys g), lg_lastAccessNumber := mm_accessCounter m + 1\<rparr>"

lemma insert_group: "the_group (insertGroup env g m) p = (if p = mm_next m then stored_group env g m else the_group m p)"
  by (simp add: insertGroup_def nextAccessNumberLocked_def Let_def the_group_def stored_group_def map_of_update)

lemma insert_reg: "reg (insertGroup env g m) n k =
    (if n = lg_namespace g \<and> k = lg_key g then Some (mm_next m) else reg m n k)"
  by (auto simp: insertGroup_def nextAccessNumberLocked_def Let_def reg_def map_of_update namespaceLocked_def split: option.split)

lemma insert_bkt: "bkt (insertGroup env g m) n x =
    (if n = lg_namespace g \<and> x \<in> set (lg_prefixKeys (stored_group env g m))
     then AList.update (lg_key g) (mm_next m) (bkt m n x) else bkt m n x)"
proof -
  have "map_get [] (nm_prefixes (namespaceLocked (lg_namespace g) m)) x = bkt m (lg_namespace g) x" by (rule ns_bkt)
  then show ?thesis
    by (auto simp: insertGroup_def nextAccessNumberLocked_def Let_def bkt_def map_of_update bucket_inserts stored_group_def)
qed

lemma insert_wf:
  assumes "lcp_linked m"
  shows "\<forall>(n, ns) \<in> set (mm_groups (insertGroup env g m)). wf_map (nm_groups ns)"
proof -
  let ?n = "lg_namespace g" and ?ns = "namespaceLocked (lg_namespace g) m"
  have w: "\<forall>x \<in> set (mm_groups m). wf_map (nm_groups (snd x))" using assms by (auto simp: lcp_linked_def)
  have ns: "wf_map (nm_groups ?ns)"
  proof (cases "map_of (mm_groups m) ?n")
    case (Some ns)
    then show ?thesis using w map_of_SomeD[OF Some] by (force simp: namespaceLocked_def)
  qed (simp add: namespaceLocked_def)
  obtain ns1 where ns1: "mm_groups (insertGroup env g m) = AList.update ?n ns1 (mm_groups m)"
    "nm_groups ns1 = AList.update (lg_key g) (mm_next m) (nm_groups ?ns)"
    by (simp add: insertGroup_def nextAccessNumberLocked_def Let_def)
  have "set (mm_groups (insertGroup env g m)) \<subseteq> insert (?n, ns1) (set (mm_groups m))"
    unfolding ns1(1) by (rule set_update_subset)
  then have "\<forall>x \<in> set (mm_groups (insertGroup env g m)). wf_map (nm_groups (snd x))"
    by (rule ball_insert_subset) (use ns w ns1(2) in \<open>auto intro: wf_map_update\<close>)
  then show ?thesis by (simp add: split_beta)
qed

lemma insert_linked:
  assumes "lcp_linked m" "reg m (lg_namespace g) (lg_key g) = None"
  shows "lcp_linked (insertGroup env g m)"
proof (rule lcp_linkedI)
  have old: "q < mm_next m" if "q \<in> set (mm_lru m)" for q using that assms(1) by (simp add: lcp_linked_def)
  show "wf_map (mm_groups (insertGroup env g m))"
    using assms(1) by (auto simp: insertGroup_def nextAccessNumberLocked_def Let_def lcp_linked_def wf_map_update)
  show "\<forall>(n, ns) \<in> set (mm_groups (insertGroup env g m)). wf_map (nm_groups ns)"
    by (rule insert_wf[OF assms(1)])
  show "distinct (mm_lru (insertGroup env g m))" using assms(1) old by (auto simp: lcp_linked_def)
  show "q < mm_next (insertGroup env g m)" if "q \<in> set (mm_lru (insertGroup env g m))" for q
    using that old by (auto intro: less_SucI)
  show "reg (insertGroup env g m) n k = Some q \<longleftrightarrow> q \<in> set (mm_lru (insertGroup env g m)) \<and>
      lg_namespace (the_group (insertGroup env g m) q) = n \<and> lg_key (the_group (insertGroup env g m) q) = k" for n k q
    using lcp_linked_reg[OF assms(1), of n k q] assms(2) old[of q]
    by (auto simp: insert_reg insert_group stored_group_def)
  have "lg_key g \<notin> fst ` set (bkt m (lg_namespace g) x)" for x
    using lcp_linked_bkt[OF assms(1)] assms(2) by auto
  then have upd: "AList.update (lg_key g) (mm_next m) (bkt m (lg_namespace g) x) = bkt m (lg_namespace g) x @ [(lg_key g, mm_next m)]" for x
    by (rule update_fresh)
  have fresh: "reg m n k \<noteq> Some (mm_next m)" for n k using lcp_linked_reg[OF assms(1)] old by blast
  show "(k, q) \<in> set (bkt (insertGroup env g m) n x) \<longleftrightarrow>
      reg (insertGroup env g m) n k = Some q \<and> x \<in> set (lg_prefixKeys (the_group (insertGroup env g m) q))" for n x k q
    using lcp_linked_bkt[OF assms(1), of k q n x] assms(2) fresh[of n k]
    by (auto simp: insert_bkt insert_reg insert_group upd)
qed

lemma insert_counted:
  assumes "counted m" "lcp_linked m"
  shows "counted (insertGroup env g m)"
proof -
  have "mm_next m \<notin> set (mm_lru m)" using assms(2) by (auto simp: lcp_linked_def)
  then have "weight (insertGroup env g m) (mm_lru m) = weight m (mm_lru m)"
    unfolding weight_def by (intro arg_cong[of _ _ sum_list] map_cong) (auto simp: insert_group)
  moreover have "mm_prefixCount (insertGroup env g m) = mm_prefixCount m + length (lg_prefixKeys (stored_group env g m))"
    "mm_groupCount (insertGroup env g m) = mm_groupCount m + 1"
    by (simp_all add: insertGroup_def nextAccessNumberLocked_def Let_def stored_group_def)
  ultimately show ?thesis using assms(1) by (simp add: counted_def weight_def insert_group)
qed

section \<open>Eviction\<close>

text \<open>
  The groups that an eviction leaves are the newest ones: the front of the list goes until the limits hold.
  A group that is the only one fits the limits, so the newest group always stays.
\<close>

definition fits_alone :: "MerklePrefixMatcher \<Rightarrow> nat \<Rightarrow> bool" where
  "fits_alone m p \<longleftrightarrow> length (lg_prefixKeys (the_group m p)) \<le> mm_maxPrefixes m \<and> 0 < mm_maxGroups m"

lemma evict_spec:
  assumes "lcp_linked m" "counted m" "length (mm_lru m) \<le> fuel" "mm_lru m = ps @ [newest]" "fits_alone m newest"
  shows "lcp_linked (evictGroups fuel m) \<and> counted (evictGroups fuel m) \<and> limited (evictGroups fuel m) \<and>
    the_group (evictGroups fuel m) = the_group m \<and> mm_ttl (evictGroups fuel m) = mm_ttl m \<and>
    mm_maxTurns (evictGroups fuel m) = mm_maxTurns m \<and> mm_maxGroups (evictGroups fuel m) = mm_maxGroups m \<and>
    mm_maxPrefixes (evictGroups fuel m) = mm_maxPrefixes m \<and> mm_accessCounter (evictGroups fuel m) = mm_accessCounter m \<and>
    (\<exists>n \<le> length ps. mm_lru (evictGroups fuel m) = drop n ps @ [newest])"
  using assms
proof (induction fuel arbitrary: m ps)
  case (Suc fuel)
  show ?case
  proof (cases "mm_groupCount m > mm_maxGroups m \<or> mm_prefixCount m > mm_maxPrefixes m")
    case False
    then show ?thesis using Suc.prems by (auto simp: limited_def intro!: exI[of _ 0])
  next
    case True
    have "ps \<noteq> []"
    proof
      assume "ps = []"
      then have "mm_groupCount m = 1" "mm_prefixCount m = length (lg_prefixKeys (the_group m newest))"
        using Suc.prems(2,4) by (simp_all add: counted_def weight_def)
      then show False using True Suc.prems(5) by (simp add: fits_alone_def)
    qed
    then obtain o1 ps' where ps: "ps = o1 # ps'" by (cases ps) auto
    let ?m = "removeGroupLocked o1 m"
    have o1: "o1 \<in> set (mm_lru m)" using Suc.prems(4) ps by simp
    have lru: "mm_lru ?m = ps' @ [newest]" using Suc.prems(4) ps by simp
    have step: "evictGroups (Suc fuel) m = evictGroups fuel ?m" using True Suc.prems(4) ps by simp
    have "fits_alone ?m newest" using Suc.prems(5) by (simp add: fits_alone_def)
    from Suc.IH[OF remove_linked[OF Suc.prems(1) o1] remove_counts(1)[OF Suc.prems(2) o1] _ lru this] Suc.prems(3,4)
    have ih: "lcp_linked (evictGroups fuel ?m) \<and> counted (evictGroups fuel ?m) \<and> limited (evictGroups fuel ?m) \<and>
      the_group (evictGroups fuel ?m) = the_group ?m \<and> mm_ttl (evictGroups fuel ?m) = mm_ttl ?m \<and>
      mm_maxTurns (evictGroups fuel ?m) = mm_maxTurns ?m \<and> mm_maxGroups (evictGroups fuel ?m) = mm_maxGroups ?m \<and>
      mm_maxPrefixes (evictGroups fuel ?m) = mm_maxPrefixes ?m \<and> mm_accessCounter (evictGroups fuel ?m) = mm_accessCounter ?m \<and>
      (\<exists>n \<le> length ps'. mm_lru (evictGroups fuel ?m) = drop n ps' @ [newest])" using ps by simp
    then obtain n where n: "n \<le> length ps'" "mm_lru (evictGroups fuel ?m) = drop n ps' @ [newest]" by blast
    then have "Suc n \<le> length ps \<and> mm_lru (evictGroups fuel ?m) = drop (Suc n) ps @ [newest]" using ps by simp
    then show ?thesis unfolding step using ih by auto
  qed
qed simp

lemma add_ok:
  assumes "matcher_ok env m" "reg m (lg_namespace g) (lg_key g) = None"
    and "lcp_group_ok env (mm_maxTurns m) (stored_group env g m)"
  shows "matcher_ok env (addGroupLocked env g m)"
    "mm_ttl (addGroupLocked env g m) = mm_ttl m" "mm_maxTurns (addGroupLocked env g m) = mm_maxTurns m"
    "mm_accessCounter (addGroupLocked env g m) = mm_accessCounter m + 1"
    "the_group (addGroupLocked env g m) = the_group (insertGroup env g m)"
    "\<exists>n \<le> length (mm_lru m). mm_lru (addGroupLocked env g m) = drop n (mm_lru m) @ [mm_next m]"
proof -
  let ?i = "insertGroup env g m"
  have ok: "lcp_linked m" "counted m" "configured m" "groups_ok env m" using assms(1) by (simp_all add: matcher_ok_def)
  have "length (rollingPrefixKeys env fps) = length fps" for fps
  proof -
    have "length (rollingLoop env i prev fps) = length fps" for i prev
      by (induction fps arbitrary: i prev) (simp_all add: Let_def)
    then show ?thesis by (simp add: rollingPrefixKeys_def)
  qed
  then have f: "fits_alone ?i (mm_next m)"
    using assms(3) ok(3) by (auto simp: fits_alone_def insert_group lcp_group_ok_def configured_def)
  have e: "addGroupLocked env g m = evictGroups (length (mm_lru ?i)) ?i" by (simp add: addGroupLocked_def Let_def)
  have lru: "mm_lru ?i = mm_lru m @ [mm_next m]" by simp
  note ev = evict_spec[OF insert_linked[OF ok(1) assms(2)] insert_counted[OF ok(2,1)] order.refl lru f]
  show "mm_ttl (addGroupLocked env g m) = mm_ttl m" "mm_maxTurns (addGroupLocked env g m) = mm_maxTurns m"
    "mm_accessCounter (addGroupLocked env g m) = mm_accessCounter m + 1"
    "the_group (addGroupLocked env g m) = the_group (insertGroup env g m)"
    "\<exists>n \<le> length (mm_lru m). mm_lru (addGroupLocked env g m) = drop n (mm_lru m) @ [mm_next m]"
    unfolding e using ev by simp_all
  have "groups_ok env (evictGroups (length (mm_lru ?i)) ?i)"
    unfolding groups_ok_def
  proof
    fix p assume "p \<in> set (mm_lru (evictGroups (length (mm_lru ?i)) ?i))"
    then have "p \<in> set (mm_lru m) \<or> p = mm_next m" using ev by (auto dest: in_set_dropD)
    then show "lcp_group_ok env (mm_maxTurns (evictGroups (length (mm_lru ?i)) ?i)) (the_group (evictGroups (length (mm_lru ?i)) ?i) p)"
      using ev assms(3) ok(4) by (auto simp: insert_group groups_ok_def)
  qed
  then show "matcher_ok env (addGroupLocked env g m)"
    unfolding e matcher_ok_def using ev ok(3) by (simp add: configured_def)
qed

section \<open>The other steps\<close>

lemma touch_config [simp]:
  "mm_ttl (touchGroup p now m) = mm_ttl m" "mm_maxTurns (touchGroup p now m) = mm_maxTurns m"
  "mm_maxGroups (touchGroup p now m) = mm_maxGroups m" "mm_maxPrefixes (touchGroup p now m) = mm_maxPrefixes m"
  "mm_next (touchGroup p now m) = mm_next m" "mm_groupCount (touchGroup p now m) = mm_groupCount m"
  "mm_prefixCount (touchGroup p now m) = mm_prefixCount m" "mm_groups (touchGroup p now m) = mm_groups m"
  "mm_accessCounter (touchGroup p now m) = mm_accessCounter m + 1"
  by (simp_all add: touchGroup_def nextAccessNumberLocked_def Let_def)

lemma touch_lru: "p \<in> set (mm_lru m) \<Longrightarrow> mm_lru (touchGroup p now m) = remove1 p (mm_lru m) @ [p]"
  by (simp add: touchGroup_def nextAccessNumberLocked_def Let_def)

lemma touch_group: "the_group (touchGroup p now m) q =
    (if q = p then (the_group m p)\<lparr>lg_expiresAt := now + mm_ttl m, lg_lastAccessNumber := mm_accessCounter m + 1\<rparr>
     else the_group m q)"
  by (simp add: touchGroup_def nextAccessNumberLocked_def Let_def the_group_def map_of_update)

lemma touch_keeps:
  "lg_key (the_group (touchGroup p now m) q) = lg_key (the_group m q)"
  "lg_namespace (the_group (touchGroup p now m) q) = lg_namespace (the_group m q)"
  "lg_prefixKeys (the_group (touchGroup p now m) q) = lg_prefixKeys (the_group m q)"
  "lg_fingerprints (the_group (touchGroup p now m) q) = lg_fingerprints (the_group m q)"
  "lg_minPrefixLength (the_group (touchGroup p now m) q) = lg_minPrefixLength (the_group m q)"
  "lg_authID (the_group (touchGroup p now m) q) = lg_authID (the_group m q)"
  "lg_sessionID (the_group (touchGroup p now m) q) = lg_sessionID (the_group m q)"
  by (simp_all add: touch_group)

lemma touch_views [simp]: "reg (touchGroup p now m) = reg m" "bkt (touchGroup p now m) = bkt m"
  by (simp_all add: reg_def bkt_def fun_eq_iff)

lemma touch_ok:
  assumes "matcher_ok env m" "p \<in> set (mm_lru m)"
  shows "matcher_ok env (touchGroup p now m)"
proof -
  have ok: "lcp_linked m" "counted m" "limited m" "configured m" "groups_ok env m" using assms(1) by (simp_all add: matcher_ok_def)
  have d: "distinct (mm_lru m)" using ok(1) by (simp add: lcp_linked_def)
  have lru: "mm_lru (touchGroup p now m) = remove1 p (mm_lru m) @ [p]" by (rule touch_lru[OF assms(2)])
  then have lset: "set (mm_lru (touchGroup p now m)) = set (mm_lru m)" using assms(2) d by auto
  have w: "weight (touchGroup p now m) ps = weight m ps" for ps by (simp add: weight_def touch_keeps)
  have "lcp_linked (touchGroup p now m)"
    using ok(1) lset d unfolding lcp_linked_def touch_views touch_keeps touch_config lset by (simp add: lru)
  moreover have "weight m (remove1 p (mm_lru m) @ [p]) = weight m (mm_lru m)"
    using weight_remove1[OF assms(2), of m] weight_member[OF assms(2), of m] by (simp add: weight_def)
  then have "counted (touchGroup p now m)"
    using ok(2) assms(2) length_pos_if_in_set[OF assms(2)] unfolding counted_def w lru touch_config
    by (simp add: length_remove1)
  moreover have "groups_ok env (touchGroup p now m)"
    using ok(5) unfolding groups_ok_def lcp_group_ok_def lset touch_keeps touch_config .
  ultimately show ?thesis using ok(3,4) by (simp add: matcher_ok_def limited_def configured_def)
qed

text \<open>A step that removes groups: the rest keep their place, and nothing else changes.\<close>

definition shrinks :: "(nat \<Rightarrow> bool) \<Rightarrow> MerklePrefixMatcher \<Rightarrow> MerklePrefixMatcher \<Rightarrow> bool" where
  "shrinks Q m m' \<longleftrightarrow> the_group m' = the_group m \<and> mm_ttl m' = mm_ttl m \<and> mm_maxTurns m' = mm_maxTurns m \<and>
     mm_accessCounter m' = mm_accessCounter m \<and> mm_lru m' = filter (\<lambda>p. \<not> Q p) (mm_lru m)"

lemma shrinks_refl: "shrinks (\<lambda>p. False) m m"
  by (simp add: shrinks_def)

lemma shrinks_trans: "shrinks Q m m' \<Longrightarrow> shrinks R m' m'' \<Longrightarrow> shrinks (\<lambda>p. Q p \<or> R p) m m''"
  by (simp add: shrinks_def conj_commute)

lemma remove_shrinks: "lcp_linked m \<Longrightarrow> shrinks (\<lambda>q. q = p) m (removeGroupLocked p m)"
  by (simp add: shrinks_def lcp_linked_def distinct_remove1_removeAll removeAll_filter_not_eq eq_commute)

lemma shrinks_cong: "shrinks Q m m' \<Longrightarrow> (\<And>p. p \<in> set (mm_lru m) \<Longrightarrow> Q p = R p) \<Longrightarrow> shrinks R m m'"
  by (auto simp: shrinks_def intro!: filter_cong)

lemma removeWhere_loop:
  assumes "matcher_ok env m" "distinct ps" "set ps \<subseteq> set (mm_lru m)"
  shows "matcher_ok env (foldl (\<lambda>m p. if P (the_group m p) then removeGroupLocked p m else m) m ps) \<and>
    shrinks (\<lambda>p. p \<in> set ps \<and> P (the_group m p)) m
      (foldl (\<lambda>m p. if P (the_group m p) then removeGroupLocked p m else m) m ps)"
  using assms
proof (induction ps arbitrary: m)
  case (Cons p ps)
  let ?m = "if P (the_group m p) then removeGroupLocked p m else m"
  have l: "lcp_linked m" using Cons.prems(1) by (simp add: matcher_ok_def)
  then have d: "distinct (mm_lru m)" by (simp add: lcp_linked_def)
  have ok: "matcher_ok env ?m" using remove_ok[OF Cons.prems(1)] Cons.prems(1,3) by simp
  have s: "set ps \<subseteq> set (mm_lru ?m)" using Cons.prems(2,3) d by auto
  have first: "shrinks (\<lambda>q. q = p \<and> P (the_group m p)) m ?m"
    using remove_shrinks[OF l, of p] shrinks_refl[of m] by simp
  have "matcher_ok env (foldl (\<lambda>m p. if P (the_group m p) then removeGroupLocked p m else m) ?m ps)"
    "shrinks (\<lambda>p. p \<in> set ps \<and> P (the_group ?m p)) ?m
      (foldl (\<lambda>m p. if P (the_group m p) then removeGroupLocked p m else m) ?m ps)"
    using Cons.IH[OF ok _ s] Cons.prems(2) by simp_all
  with shrinks_trans[OF first this(2)] show ?case
    by (auto elim!: shrinks_cong simp: first[unfolded shrinks_def])
qed (simp add: shrinks_refl)

lemma concat_pointers:
  assumes "wf_map gs" "\<forall>(n, ns) \<in> set gs. wf_map (nm_groups ns)"
    and "\<And>n k p n' k'. (\<exists>ns. (n, ns) \<in> set gs \<and> (k, p) \<in> set (nm_groups ns)) \<Longrightarrow>
      (\<exists>ns. (n', ns) \<in> set gs \<and> (k', p) \<in> set (nm_groups ns)) \<Longrightarrow> n = n' \<and> k = k'"
  shows "distinct (concat (map (\<lambda>(_, ns). map snd (nm_groups ns)) gs))"
  using assms
proof (induction gs)
  case (Cons x gs)
  obtain n ns where x: "x = (n, ns)" by (cases x)
  have "inj_on snd (set (nm_groups ns))"
  proof (rule inj_onI)
    fix a b assume ab: "a \<in> set (nm_groups ns)" "b \<in> set (nm_groups ns)" "snd a = snd b"
    have "fst a = fst b"
      using Cons.prems(3)[of n "fst a" "snd a" n "fst b"] ab x by (metis list.set_intros(1) prod.collapse)
    with ab(3) show "a = b" by (simp add: prod_eq_iff)
  qed
  moreover have "distinct (nm_groups ns)" using Cons.prems(2) x by (auto simp: distinct_map)
  ultimately have "distinct (map snd (nm_groups ns))" by (simp add: distinct_map)
  moreover have "p \<notin> set (concat (map (\<lambda>(_, ns). map snd (nm_groups ns)) gs))" if p: "p \<in> set (map snd (nm_groups ns))" for p
  proof
    assume "p \<in> set (concat (map (\<lambda>(_, ns). map snd (nm_groups ns)) gs))"
    then obtain n' ns' k' where q: "(n', ns') \<in> set gs" "(k', p) \<in> set (nm_groups ns')" by auto
    obtain k where "(k, p) \<in> set (nm_groups ns)" using p by auto
    then have "n = n'" using Cons.prems(3)[of n k p n' k'] q x by auto
    then show False using Cons.prems(1) q(1) x by force
  qed
  moreover have "distinct (concat (map (\<lambda>(_, ns). map snd (nm_groups ns)) gs))"
  proof (rule Cons.IH)
    show "wf_map gs" "\<forall>(n, ns) \<in> set gs. wf_map (nm_groups ns)" using Cons.prems(1,2) by auto
    show "n = n' \<and> k = k'" if "\<exists>ns. (n, ns) \<in> set gs \<and> (k, p) \<in> set (nm_groups ns)"
      "\<exists>ns. (n', ns) \<in> set gs \<and> (k', p) \<in> set (nm_groups ns)" for n k p n' k'
      using Cons.prems(3)[of n k p n' k'] that by auto
  qed
  ultimately show ?case using x by auto
qed simp

lemma registered_pointers:
  assumes "lcp_linked m"
  defines "ps \<equiv> concat (map (\<lambda>(_, ns). map snd (nm_groups ns)) (mm_groups m))"
  shows "set ps = set (mm_lru m)" and "distinct ps"
proof -
  have w: "wf_map (mm_groups m)" "\<forall>(n, ns) \<in> set (mm_groups m). wf_map (nm_groups ns)"
    using assms(1) by (simp_all add: lcp_linked_def)
  have r: "(\<exists>ns. (n, ns) \<in> set (mm_groups m) \<and> (k, p) \<in> set (nm_groups ns)) \<longleftrightarrow> reg m n k = Some p" for n k p
  proof
    assume "\<exists>ns. (n, ns) \<in> set (mm_groups m) \<and> (k, p) \<in> set (nm_groups ns)"
    then obtain ns where ns: "(n, ns) \<in> set (mm_groups m)" "(k, p) \<in> set (nm_groups ns)" by blast
    then have "map_of (nm_groups ns) k = Some p" using w(2) by (auto intro: map_of_SomeI)
    then show "reg m n k = Some p" using map_of_SomeI[OF w(1) ns(1)] by (simp add: reg_def)
  next
    assume "reg m n k = Some p"
    then show "\<exists>ns. (n, ns) \<in> set (mm_groups m) \<and> (k, p) \<in> set (nm_groups ns)"
      by (auto simp: reg_def split: option.splits dest!: map_of_SomeD)
  qed
  show "distinct ps"
    unfolding ps_def using concat_pointers[OF w] r lcp_linked_reg[OF assms(1)] by metis
  have "p \<in> set ps \<longleftrightarrow> (\<exists>n k. reg m n k = Some p)" for p unfolding r[symmetric] ps_def by force
  then show "set ps = set (mm_lru m)" using lcp_linked_reg[OF assms(1)] by auto
qed

lemma removeWhere_ok:
  assumes "matcher_ok env m"
  shows "matcher_ok env (removeLcpWhere P m)" "shrinks (\<lambda>p. P (the_group m p)) m (removeLcpWhere P m)"
proof -
  have l: "lcp_linked m" using assms by (simp add: matcher_ok_def)
  define ps where "ps = concat (map (\<lambda>(_, ns). map snd (nm_groups ns)) (mm_groups m))"
  have rp: "set ps = set (mm_lru m)" "distinct ps" using registered_pointers[OF l] by (simp_all add: ps_def)
  have e: "removeLcpWhere P m = foldl (\<lambda>m p. if P (the_group m p) then removeGroupLocked p m else m) m ps"
    by (simp add: removeLcpWhere_def ps_def)
  have "matcher_ok env (removeLcpWhere P m)"
    and s: "shrinks (\<lambda>p. p \<in> set (mm_lru m) \<and> P (the_group m p)) m (removeLcpWhere P m)"
    using removeWhere_loop[OF assms rp(2), of P] rp(1) unfolding e by simp_all
  then show "matcher_ok env (removeLcpWhere P m)" by simp
  show "shrinks (\<lambda>p. P (the_group m p)) m (removeLcpWhere P m)" by (rule shrinks_cong[OF s]) simp
qed

end
