(* ===== verification/PrefixSpec.thy ===== *)
theory PrefixSpec
  imports PrefixInv
begin

text \<open>
  What the prefix matcher promises: the binary search over the prefix index finds the longest known
  prefix, a binding is found again, a longer turn of a conversation keeps its session, and the limits hold.
\<close>

section \<open>The rolling hash\<close>

lemma rolling_length [simp]: "length (rollingPrefixKeys env fps) = length fps"
proof -
  have "length (rollingLoop env i prev fps) = length fps" for i prev
    by (induction fps arbitrary: i prev) (simp_all add: Let_def)
  then show ?thesis by (simp add: rollingPrefixKeys_def)
qed

lemma rolling_take: "rollingPrefixKeys env (take n fps) = take n (rollingPrefixKeys env fps)"
proof -
  have "rollingLoop env i prev (take n fps) = take n (rollingLoop env i prev fps)" for i prev
  proof (induction fps arbitrary: i prev n)
    case (Cons f fps)
    then show ?case by (cases n) (simp_all add: Let_def)
  qed simp
  then show ?thesis by (simp add: rollingPrefixKeys_def)
qed

lemma rolling_shared:
  assumes "take n xs = take n ys" "0 < n" "n \<le> length xs" "n \<le> length ys"
  shows "rollingPrefixKeys env ys ! (n - 1) \<in> set (rollingPrefixKeys env xs)"
proof -
  have "take n (rollingPrefixKeys env xs) ! (n - 1) = take n (rollingPrefixKeys env ys) ! (n - 1)"
    unfolding rolling_take[symmetric] assms(1) ..
  then have "rollingPrefixKeys env ys ! (n - 1) = rollingPrefixKeys env xs ! (n - 1)" using assms(2) by simp
  then show ?thesis using assms(2,3) by simp
qed

section \<open>The binary search\<close>

declare searchLoop.simps [simp del]

text \<open>The outcome of a search: no length of the range has a candidate, or the candidate of the longest one.\<close>

definition search_outcome :: "(nat \<Rightarrow> nat option) \<Rightarrow> nat \<Rightarrow> nat \<Rightarrow> (nat \<times> nat) option \<Rightarrow> (nat \<times> nat) option \<Rightarrow> bool" where
  "search_outcome probe low high best r \<longleftrightarrow>
     (\<forall>n. low \<le> n \<and> n \<le> high \<longrightarrow> probe n = None) \<and> r = best \<or>
     (\<exists>c n. r = Some (c, n) \<and> low \<le> n \<and> n \<le> high \<and> probe n = Some c \<and> (\<forall>j. n < j \<and> j \<le> high \<longrightarrow> probe j = None))"

lemma outcome_lower:
  assumes "search_outcome probe low (mid - 1) best r" "low \<le> mid" "mid \<le> high" "0 < low"
    and "\<And>n. mid \<le> n \<Longrightarrow> n \<le> high \<Longrightarrow> probe n = None"
  shows "search_outcome probe low high best r"
proof -
  have up: "probe j = None" if "mid - 1 < j" "j \<le> high" for j using assms(5)[of j] that by linarith
  consider (none) "\<forall>n. low \<le> n \<and> n \<le> mid - 1 \<longrightarrow> probe n = None" "r = best"
    | (some) c n where "r = Some (c, n)" "low \<le> n" "n \<le> mid - 1" "probe n = Some c"
        "\<forall>j. n < j \<and> j \<le> mid - 1 \<longrightarrow> probe j = None"
    using assms(1) unfolding search_outcome_def by blast
  then show ?thesis
  proof cases
    case none
    then have "\<forall>n. low \<le> n \<and> n \<le> high \<longrightarrow> probe n = None" using up by (meson not_less)
    with none(2) show ?thesis unfolding search_outcome_def by blast
  next
    case some
    have "\<forall>j. n < j \<and> j \<le> high \<longrightarrow> probe j = None" using up some(5) by (meson not_less)
    moreover have "n \<le> high" using some(3) assms(3) by linarith
    ultimately show ?thesis using some(1,2,4) unfolding search_outcome_def by blast
  qed
qed

lemma outcome_upper:
  assumes "search_outcome probe (mid + 1) high (Some (c, mid)) r" "low \<le> mid" "mid \<le> high" "probe mid = Some c"
  shows "search_outcome probe low high best r"
proof -
  consider (none) "\<forall>n. mid + 1 \<le> n \<and> n \<le> high \<longrightarrow> probe n = None" "r = Some (c, mid)"
    | (some) c' n where "r = Some (c', n)" "mid + 1 \<le> n" "n \<le> high" "probe n = Some c'"
        "\<forall>j. n < j \<and> j \<le> high \<longrightarrow> probe j = None"
    using assms(1) unfolding search_outcome_def by blast
  then show ?thesis
  proof cases
    case none
    then have "\<forall>j. mid < j \<and> j \<le> high \<longrightarrow> probe j = None" by simp
    with none(2) assms(2-4) show ?thesis unfolding search_outcome_def by blast
  next
    case some
    have "low \<le> n" using some(2) assms(2) by linarith
    with some show ?thesis unfolding search_outcome_def by blast
  qed
qed

lemma searchLoop_spec:
  assumes "0 < low" "\<And>i j. low \<le> i \<Longrightarrow> i \<le> j \<Longrightarrow> j \<le> high \<Longrightarrow> probe j \<noteq> None \<Longrightarrow> probe i \<noteq> None"
  shows "search_outcome probe low high best (searchLoop probe low high best)"
  using assms
proof (induction probe low high best rule: searchLoop.induct)
  case (1 probe low high best)
  define mid where "mid = low + (high - low) div 2"
  note unfold = searchLoop.simps[of probe low high best, unfolded Let_def mid_def[symmetric]]
  show ?case
  proof (cases "low \<le> high")
    case False
    then show ?thesis unfolding unfold search_outcome_def by auto
  next
    case True
    have mid: "low \<le> mid" "mid \<le> high" "mid \<noteq> 0" using True "1.prems"(1) by (auto simp: mid_def)
    show ?thesis
    proof (cases "probe mid")
      case None
      have "search_outcome probe low (mid - 1) best (searchLoop probe low (mid - 1) best)"
      proof (rule "1.IH"(1)[OF True mid_def None mid(3) "1.prems"(1)])
        show "probe i \<noteq> None" if "low \<le> i" "i \<le> j" "j \<le> mid - 1" "probe j \<noteq> None" for i j
          by (rule "1.prems"(2)[OF that(1,2) _ that(4)]) (use that(3) mid in linarith)
      qed
      moreover have "probe n = None" if "mid \<le> n" "n \<le> high" for n
        using "1.prems"(2)[OF mid(1) that] None by blast
      ultimately have "search_outcome probe low high best (searchLoop probe low (mid - 1) best)"
        by (rule outcome_lower[OF _ mid(1,2) "1.prems"(1)])
      then show ?thesis unfolding unfold using True None mid(3) by simp
    next
      case (Some c)
      have "search_outcome probe (mid + 1) high (Some (c, mid)) (searchLoop probe (mid + 1) high (Some (c, mid)))"
      proof (rule "1.IH"(2)[OF True mid_def Some])
        show "0 < mid + 1" by simp
        show "probe i \<noteq> None" if "mid + 1 \<le> i" "i \<le> j" "j \<le> high" "probe j \<noteq> None" for i j
          by (rule "1.prems"(2)[OF _ that(2,3,4)]) (use that(1) mid in linarith)
      qed
      from outcome_upper[OF this mid(1,2) Some, of best] show ?thesis unfolding unfold using True Some by simp
    qed
  qed
qed

section \<open>The newest group of a bucket\<close>

definition eligible_group :: "lcpGroup \<Rightarrow> string list \<Rightarrow> go_time \<Rightarrow> bool" where
  "eligible_group g fps now \<longleftrightarrow> now < lg_expiresAt g \<and> lg_minPrefixLength g \<le> length fps \<and>
     length fps \<le> length (lg_fingerprints g) \<and> take (length fps) (lg_fingerprints g) = fps"

lemma eligible_take: "len \<le> length fps \<Longrightarrow> eligible_group g (take len fps) now \<longleftrightarrow>
   now < lg_expiresAt g \<and> lg_minPrefixLength g \<le> len \<and> len \<le> length (lg_fingerprints g) \<and>
   take len (lg_fingerprints g) = take len fps"
  by (simp add: eligible_group_def min_absorb2)

lemma newest_spec:
  "case newestMatchingGroup grp bucket fps now of
     None \<Rightarrow> \<forall>p \<in> snd ` set bucket. \<not> eligible_group (grp p) fps now
   | Some b \<Rightarrow> b \<in> snd ` set bucket \<and> eligible_group (grp b) fps now \<and>
       (\<forall>p \<in> snd ` set bucket. eligible_group (grp p) fps now \<longrightarrow>
          lg_lastAccessNumber (grp p) \<le> lg_lastAccessNumber (grp b))"
proof (induction bucket rule: rev_induct)
  case Nil
  then show ?case by (simp add: newestMatchingGroup_def)
next
  case (snoc x bucket)
  obtain k p where x: "x = (k, p)" by (cases x)
  have bad: "(\<not> now < lg_expiresAt (grp p) \<or> lg_minPrefixLength (grp p) > length fps \<or>
      length (lg_fingerprints (grp p)) < length fps \<or> take (length fps) (lg_fingerprints (grp p)) \<noteq> fps) \<longleftrightarrow>
      \<not> eligible_group (grp p) fps now" by (auto simp: eligible_group_def)
  have step: "newestMatchingGroup grp (bucket @ [x]) fps now =
      (let best = newestMatchingGroup grp bucket fps now
       in if \<not> eligible_group (grp p) fps now then best
          else case best of
                 None \<Rightarrow> Some p
               | Some b \<Rightarrow> if lg_lastAccessNumber (grp p) > lg_lastAccessNumber (grp b) \<or>
                     (lg_lastAccessNumber (grp p) = lg_lastAccessNumber (grp b) \<and> lg_expiresAt (grp p) > lg_expiresAt (grp b))
                   then Some p else best)"
    unfolding newestMatchingGroup_def x foldl_append foldl.simps Let_def prod.case bad ..
  show ?case
  proof (cases "newestMatchingGroup grp bucket fps now")
    case None
    then show ?thesis using snoc unfolding step unfolding x by (auto simp: Let_def)
  next
    case (Some b)
    then show ?thesis using snoc unfolding step unfolding x by (auto simp: not_less Let_def)
  qed
qed

section \<open>Candidates\<close>

text \<open>The live groups of a namespace that share the first turns of a sequence.\<close>

definition shares_prefix :: "MerklePrefixMatcher \<Rightarrow> string \<Rightarrow> string list \<Rightarrow> go_time \<Rightarrow> nat \<Rightarrow> nat \<Rightarrow> bool" where
  "shares_prefix m n fps now len p \<longleftrightarrow>
     p \<in> set (mm_lru m) \<and> lg_namespace (the_group m p) = n \<and> eligible_group (the_group m p) (take len fps) now"

text \<open>The answer of a search: nothing shares a prefix, or the newest of the groups that share the longest one.\<close>

definition longest_shared ::
  "MerklePrefixMatcher \<Rightarrow> string \<Rightarrow> string list \<Rightarrow> go_time \<Rightarrow> nat \<Rightarrow> (nat \<times> nat) option \<Rightarrow> bool" where
  "longest_shared m n fps now low r \<longleftrightarrow>
     (case r of
        None \<Rightarrow> \<forall>len p. low \<le> len \<longrightarrow> len \<le> length fps \<longrightarrow> \<not> shares_prefix m n fps now len p
      | Some (p, len) \<Rightarrow>
          low \<le> len \<and> len \<le> length fps \<and> shares_prefix m n fps now len p \<and>
          (\<forall>len' q. low \<le> len' \<longrightarrow> len' \<le> length fps \<longrightarrow> shares_prefix m n fps now len' q \<longrightarrow>
             len' \<le> len \<and> (len' = len \<longrightarrow> lg_lastAccessNumber (the_group m q) \<le> lg_lastAccessNumber (the_group m p))))"

definition probe_at :: "turn_env \<Rightarrow> MerklePrefixMatcher \<Rightarrow> string \<Rightarrow> string list \<Rightarrow> go_time \<Rightarrow> nat \<Rightarrow> nat option" where
  "probe_at env m n fps now len =
     newestMatchingGroup (the_group m) (bkt m n (rollingPrefixKeys env fps ! (len - 1))) (take len fps) now"

lemma bucket_candidates:
  assumes "lcp_linked m" "groups_ok env m" "0 < len" "len \<le> length fps"
  shows "p \<in> snd ` set (bkt m n (rollingPrefixKeys env fps ! (len - 1))) \<and> eligible_group (the_group m p) (take len fps) now
    \<longleftrightarrow> shares_prefix m n fps now len p"
proof
  assume "p \<in> snd ` set (bkt m n (rollingPrefixKeys env fps ! (len - 1))) \<and> eligible_group (the_group m p) (take len fps) now"
  then obtain k where "(k, p) \<in> set (bkt m n (rollingPrefixKeys env fps ! (len - 1)))"
    and e: "eligible_group (the_group m p) (take len fps) now" by auto
  then have "reg m n k = Some p" using lcp_linked_bkt[OF assms(1)] by blast
  then show "shares_prefix m n fps now len p" using e lcp_linked_reg[OF assms(1)] by (simp add: shares_prefix_def)
next
  assume s: "shares_prefix m n fps now len p"
  let ?g = "the_group m p"
  have p: "p \<in> set (mm_lru m)" "lg_namespace ?g = n" and e: "eligible_group ?g (take len fps) now"
    using s by (auto simp: shares_prefix_def)
  have t: "take len (lg_fingerprints ?g) = take len fps" "len \<le> length (lg_fingerprints ?g)"
    using e eligible_take[OF assms(4)] by blast+
  have "rollingPrefixKeys env fps ! (len - 1) \<in> set (rollingPrefixKeys env (lg_fingerprints ?g))"
    by (rule rolling_shared[OF t(1) assms(3) t(2) assms(4)])
  then have "rollingPrefixKeys env fps ! (len - 1) \<in> set (lg_prefixKeys ?g)"
    using assms(2) p(1) by (simp add: groups_ok_def lcp_group_ok_def)
  then have "(lg_key ?g, p) \<in> set (bkt m n (rollingPrefixKeys env fps ! (len - 1)))"
    using lcp_linked_bkt[OF assms(1)] lcp_linked_reg[OF assms(1)] p by blast
  then show "p \<in> snd ` set (bkt m n (rollingPrefixKeys env fps ! (len - 1))) \<and> eligible_group ?g (take len fps) now"
    using e by force
qed

lemma probe_spec:
  assumes "lcp_linked m" "groups_ok env m" "0 < len" "len \<le> length fps"
  shows "case probe_at env m n fps now len of
     None \<Rightarrow> \<forall>p. \<not> shares_prefix m n fps now len p
   | Some b \<Rightarrow> shares_prefix m n fps now len b \<and>
       (\<forall>p. shares_prefix m n fps now len p \<longrightarrow> lg_lastAccessNumber (the_group m p) \<le> lg_lastAccessNumber (the_group m b))"
proof -
  note c = bucket_candidates[OF assms, symmetric]
  show ?thesis
    using newest_spec[where grp = "the_group m" and bucket = "bkt m n (rollingPrefixKeys env fps ! (len - 1))" and fps = "take len fps" and now = now]
    unfolding probe_at_def[symmetric] by (cases "probe_at env m n fps now len") (auto simp: c)
qed

text \<open>
  The binary search needs that a group which shares a long prefix also counts for the shorter ones: the
  first prefix a group answers for is not longer than the first one that is asked for.
\<close>

definition min_fits :: "MerklePrefixMatcher \<Rightarrow> string \<Rightarrow> string list \<Rightarrow> nat \<Rightarrow> bool" where
  "min_fits m n fps low \<longleftrightarrow>
     (\<forall>p \<in> set (mm_lru m). lg_namespace (the_group m p) = n \<and> low \<le> length (lg_fingerprints (the_group m p)) \<and>
        take low (lg_fingerprints (the_group m p)) = take low fps \<longrightarrow> lg_minPrefixLength (the_group m p) \<le> low)"

lemma shares_shorter:
  assumes "min_fits m n fps low" "shares_prefix m n fps now j p" "low \<le> i" "i \<le> j" "j \<le> length fps"
  shows "shares_prefix m n fps now i p"
proof -
  let ?g = "the_group m p"
  have p: "p \<in> set (mm_lru m)" "lg_namespace ?g = n" and e: "eligible_group ?g (take j fps) now"
    using assms(2) by (auto simp: shares_prefix_def)
  have t: "take j (lg_fingerprints ?g) = take j fps" "j \<le> length (lg_fingerprints ?g)" "now < lg_expiresAt ?g"
    using e eligible_take[OF assms(5)] by blast+
  have shorter: "take k (lg_fingerprints ?g) = take k fps" if "k \<le> j" for k
    using arg_cong[OF t(1), of "take k"] that by (simp add: min_def)
  have "lg_minPrefixLength ?g \<le> low"
    using assms(1,3,4) p t(2) shorter[of low] by (auto simp: min_fits_def)
  then show ?thesis
    using p t(2,3) shorter[OF assms(4)] assms(3-5) by (simp add: shares_prefix_def eligible_take)
qed

end
