(* ===== verification/PrefixOps.thy ===== *)
theory PrefixOps
  imports PrefixSpec
begin

text \<open>
  The operations of the prefix matcher on states that satisfy the invariant: what a match answers, what a
  binding stores, and what every operation keeps.
\<close>

section \<open>Matching\<close>

lemma matchLocked_probe:
  assumes "fps \<noteq> []" "0 < low" "low \<le> length fps"
  shows "matchLocked env n fps low now m =
    (case map_of (mm_groups m) n of None \<Rightarrow> (None, m)
     | Some ns \<Rightarrow>
         (case searchLoop (probe_at env m n fps now) low (length fps) None of
            None \<Rightarrow> (None, m)
          | Some (best, len) \<Rightarrow>
              (Some \<lparr>mt_AuthID = lg_authID (the_group m best), mt_SessionID = lg_sessionID (the_group m best),
                     mt_PrefixLength = len\<rparr>, touchGroup best now m)))"
proof (cases "map_of (mm_groups m) n")
  case (Some ns)
  then have "probe_at env m n fps now = (\<lambda>len. newestMatchingGroup (the_group m)
      (map_get [] (nm_prefixes ns) (rollingPrefixKeys env fps ! (len - 1))) (take len fps) now)"
    by (simp add: probe_at_def bkt_def fun_eq_iff)
  then show ?thesis using assms Some by (simp add: matchLocked_def Let_def)
qed (simp add: matchLocked_def)

text \<open>What a match does to the state needs no assumption on the first prefixes.\<close>

lemma searchLoop_sound:
  "searchLoop probe low high best = Some (c, len) \<Longrightarrow> best = Some (c, len) \<or> low \<le> len \<and> len \<le> high \<and> probe len = Some c"
proof (induction probe low high best rule: searchLoop.induct)
  case (1 probe low high best)
  define mid where "mid = low + (high - low) div 2"
  note unfold = searchLoop.simps[of probe low high best, unfolded Let_def mid_def[symmetric]]
  show ?case
  proof (cases "low \<le> high")
    case False
    then show ?thesis using "1.prems" unfolding unfold by simp
  next
    case True
    have mid: "low \<le> mid" "mid \<le> high" using True by (auto simp: mid_def)
    show ?thesis
    proof (cases "probe mid")
      case None
      show ?thesis
      proof (cases "mid = 0")
        case False
        have "searchLoop probe low (mid - 1) best = Some (c, len)"
          using "1.prems" False True None unfolding unfold by simp
        from "1.IH"(1)[OF True mid_def None False this] mid show ?thesis by auto
      qed (use "1.prems" None True unfold in simp)
    next
      case (Some c')
      have "searchLoop probe (mid + 1) high (Some (c', mid)) = Some (c, len)"
        using "1.prems" True Some unfolding unfold by simp
      from "1.IH"(2)[OF True mid_def Some this] mid Some show ?thesis by auto
    qed
  qed
qed

lemma matchLocked_cases:
  assumes "matcher_ok env m"
  obtains "matchLocked env n fps low now m = (None, m)"
  | p len where "p \<in> set (mm_lru m)" "lg_namespace (the_group m p) = n"
      "matchLocked env n fps low now m =
         (Some \<lparr>mt_AuthID = lg_authID (the_group m p), mt_SessionID = lg_sessionID (the_group m p), mt_PrefixLength = len\<rparr>,
          touchGroup p now m)"
proof (cases "fps \<noteq> [] \<and> 0 < low \<and> low \<le> length fps")
  case False
  then have "matchLocked env n fps low now m = (None, m)"
    by (auto simp: matchLocked_def split: option.split)
  then show thesis by (rule that(1))
next
  case True
  have l: "lcp_linked m" "groups_ok env m" using assms by (simp_all add: matcher_ok_def)
  note form = matchLocked_probe[OF True[THEN conjunct1] True[THEN conjunct2, THEN conjunct1] True[THEN conjunct2, THEN conjunct2]]
  show thesis
  proof (cases "matchLocked env n fps low now m = (None, m)")
    case False
    then obtain p len where r: "searchLoop (probe_at env m n fps now) low (length fps) None = Some (p, len)"
      and m: "matchLocked env n fps low now m =
         (Some \<lparr>mt_AuthID = lg_authID (the_group m p), mt_SessionID = lg_sessionID (the_group m p), mt_PrefixLength = len\<rparr>,
          touchGroup p now m)"
      unfolding form by (auto split: option.splits)
    have "low \<le> len" "len \<le> length fps" "probe_at env m n fps now len = Some p"
      using searchLoop_sound[OF r] by auto
    then have "shares_prefix m n fps now len p" using probe_spec[OF l, of len fps n now] True by simp
    then show thesis using that(2) m by (auto simp: shares_prefix_def)
  qed (rule that(1))
qed

lemma matchLocked_spec:
  assumes "matcher_ok env m" "min_fits m n fps low" "0 < low"
  shows "\<exists>r. longest_shared m n fps now low r \<and>
    matchLocked env n fps low now m =
      (case r of None \<Rightarrow> (None, m)
       | Some (p, len) \<Rightarrow>
           (Some \<lparr>mt_AuthID = lg_authID (the_group m p), mt_SessionID = lg_sessionID (the_group m p), mt_PrefixLength = len\<rparr>,
            touchGroup p now m))"
proof -
  have l: "lcp_linked m" "groups_ok env m" using assms(1) by (simp_all add: matcher_ok_def)
  consider (short) "length fps < low" | (empty) "map_of (mm_groups m) n = None" "low \<le> length fps"
    | (found) ns where "map_of (mm_groups m) n = Some ns" "low \<le> length fps" by (cases "map_of (mm_groups m) n") force+
  then show ?thesis
  proof cases
    case short
    then have "longest_shared m n fps now low None" "matchLocked env n fps low now m = (None, m)"
      by (auto simp: longest_shared_def matchLocked_def split: option.split)
    then show ?thesis by (intro exI[of _ None]) simp
  next
    case empty
    have "\<not> shares_prefix m n fps now len p" for len p
    proof
      assume "shares_prefix m n fps now len p"
      then have "reg m n (lg_key (the_group m p)) = Some p" using lcp_linked_reg[OF l(1)] by (simp add: shares_prefix_def)
      then show False using empty(1) by (simp add: reg_def)
    qed
    then have "longest_shared m n fps now low None" "matchLocked env n fps low now m = (None, m)"
      using empty by (auto simp: longest_shared_def matchLocked_def)
    then show ?thesis by (intro exI[of _ None]) simp
  next
    case found
    let ?probe = "probe_at env m n fps now"
    have probe: "case ?probe len of None \<Rightarrow> \<forall>p. \<not> shares_prefix m n fps now len p
       | Some b \<Rightarrow> shares_prefix m n fps now len b \<and>
         (\<forall>p. shares_prefix m n fps now len p \<longrightarrow> lg_lastAccessNumber (the_group m p) \<le> lg_lastAccessNumber (the_group m b))"
      if "low \<le> len" "len \<le> length fps" for len
      using probe_spec[OF l, of len fps n now] that assms(3) by simp
    have mono: "?probe i \<noteq> None" if ij: "low \<le> i" "i \<le> j" "j \<le> length fps" "?probe j \<noteq> None" for i j
    proof -
      obtain b where "?probe j = Some b" using ij(4) by blast
      then have "shares_prefix m n fps now j b" using probe[of j] ij by simp
      then have "shares_prefix m n fps now i b" by (rule shares_shorter[OF assms(2) _ ij(1-3)])
      then show ?thesis using probe[of i] ij by (cases "?probe i") auto
    qed
    define r where "r = searchLoop ?probe low (length fps) None"
    have out: "search_outcome ?probe low (length fps) None r"
      unfolding r_def by (rule searchLoop_spec[OF assms(3) mono])
    have "longest_shared m n fps now low r"
    proof (cases r)
      case None
      then have "\<forall>len. low \<le> len \<and> len \<le> length fps \<longrightarrow> ?probe len = None" using out unfolding search_outcome_def by simp
      then have "\<not> shares_prefix m n fps now len p" if "low \<le> len" "len \<le> length fps" for len p
        using probe[OF that] that by simp
      then show ?thesis using None by (simp add: longest_shared_def)
    next
      case (Some x)
      obtain p len where x: "x = (p, len)" by (cases x)
      have b: "low \<le> len" "len \<le> length fps" "?probe len = Some p" "\<forall>j. len < j \<and> j \<le> length fps \<longrightarrow> ?probe j = None"
        using out Some x unfolding search_outcome_def by auto
      have "len' \<le> len \<and> (len' = len \<longrightarrow> lg_lastAccessNumber (the_group m q) \<le> lg_lastAccessNumber (the_group m p))"
        if q: "low \<le> len'" "len' \<le> length fps" "shares_prefix m n fps now len' q" for len' q
      proof -
        have "?probe len' \<noteq> None" using probe[OF q(1,2)] q(3) by (cases "?probe len'") auto
        then have "len' \<le> len" using b(4) q(2) by (meson not_less)
        then show ?thesis using probe[OF b(1,2)] b(3) q(3) by auto
      qed
      moreover have "shares_prefix m n fps now len p" using probe[OF b(1,2)] b(3) by simp
      ultimately show ?thesis unfolding Some x longest_shared_def using b(1,2) by simp blast
    qed
    moreover have "fps \<noteq> []" using found(2) assms(3) by auto
    then have "matchLocked env n fps low now m =
        (case r of None \<Rightarrow> (None, m)
         | Some (p, len) \<Rightarrow>
             (Some \<lparr>mt_AuthID = lg_authID (the_group m p), mt_SessionID = lg_sessionID (the_group m p), mt_PrefixLength = len\<rparr>,
              touchGroup p now m))"
      using matchLocked_probe[OF _ assms(3) found(2)] found(1) by (simp add: r_def)
    ultimately show ?thesis by blast
  qed
qed

section \<open>Steps that keep groups\<close>

text \<open>A step that adds no group: the groups that stay keep everything but their expiry and access number.\<close>

definition same_group :: "lcpGroup \<Rightarrow> lcpGroup \<Rightarrow> bool" where
  "same_group g g' \<longleftrightarrow> lg_key g' = lg_key g \<and> lg_namespace g' = lg_namespace g \<and> lg_authID g' = lg_authID g \<and>
     lg_sessionID g' = lg_sessionID g \<and> lg_minPrefixLength g' = lg_minPrefixLength g \<and>
     lg_fingerprints g' = lg_fingerprints g"

text \<open>The access numbers are in use up to the counter, which is at most \<open>k\<close>; so it has not wrapped.\<close>

definition numbered :: "nat \<Rightarrow> MerklePrefixMatcher \<Rightarrow> bool" where
  "numbered k m \<longleftrightarrow> unat (mm_accessCounter m) \<le> k \<and>
     (\<forall>p \<in> set (mm_lru m). lg_lastAccessNumber (the_group m p) \<le> mm_accessCounter m)"

definition step_keeps :: "turn_env \<Rightarrow> nat \<Rightarrow> MerklePrefixMatcher \<Rightarrow> MerklePrefixMatcher \<Rightarrow> bool" where
  "step_keeps env j m m' \<longleftrightarrow> matcher_ok env m' \<and> mm_ttl m' = mm_ttl m \<and> mm_maxTurns m' = mm_maxTurns m \<and>
     set (mm_lru m') \<subseteq> set (mm_lru m) \<and>
     (\<forall>p \<in> set (mm_lru m'). same_group (the_group m p) (the_group m' p)) \<and>
     (\<forall>k. numbered k m \<longrightarrow> k + j < 2 ^ 64 \<longrightarrow> numbered (k + j) m')"

lemma step_keeps_refl: "matcher_ok env m \<Longrightarrow> step_keeps env 0 m m"
  by (simp add: step_keeps_def same_group_def)

lemma step_keeps_trans: "step_keeps env i m m' \<Longrightarrow> step_keeps env j m' m'' \<Longrightarrow> step_keeps env (i + j) m m''"
proof -
  assume a: "step_keeps env i m m'" "step_keeps env j m' m''"
  have "numbered (k + (i + j)) m''" if "numbered k m" "k + (i + j) < 2 ^ 64" for k
  proof -
    have "numbered (k + i) m'" using a(1) that by (simp add: step_keeps_def)
    moreover have "k + i + j < 2 ^ 64" using that(2) by simp
    ultimately have "numbered (k + i + j) m''" using a(2) unfolding step_keeps_def by blast
    then show ?thesis by (simp add: add.assoc)
  qed
  moreover have "\<forall>p \<in> set (mm_lru m''). same_group (the_group m p) (the_group m'' p)"
    using a unfolding step_keeps_def same_group_def by (metis subsetD)
  ultimately show ?thesis using a unfolding step_keeps_def by auto
qed

lemma step_keeps_remove:
  assumes "matcher_ok env m" "p \<in> set (mm_lru m)"
  shows "step_keeps env 0 m (removeGroupLocked p m)"
  using remove_ok[OF assms] by (auto simp: step_keeps_def same_group_def numbered_def dest: set_remove1_subset[THEN subsetD])

lemma word_counter_inc:
  assumes "unat (c::64 word) \<le> k" "k + 1 < 2 ^ 64"
  shows "unat (c + 1) \<le> k + 1" "w \<le> c \<Longrightarrow> w < c + 1"
proof -
  have "unat (c + 1) = unat c + 1" using assms by (simp add: unat_word_ariths(1))
  then show "unat (c + 1) \<le> k + 1" "w \<le> c \<Longrightarrow> w < c + 1" using assms(1) by (simp_all add: word_less_nat_alt word_le_nat_alt)
qed

lemma step_keeps_touch:
  assumes "matcher_ok env m" "p \<in> set (mm_lru m)"
  shows "step_keeps env 1 m (touchGroup p now m)"
proof -
  have "distinct (mm_lru m)" using assms(1) by (simp add: matcher_ok_def lcp_linked_def)
  then have lru: "set (mm_lru (touchGroup p now m)) = set (mm_lru m)" using assms(2) by (auto simp: touch_lru)
  have "numbered (k + 1) (touchGroup p now m)" if "numbered k m" "k + 1 < 2 ^ 64" for k
  proof -
    have c: "unat (mm_accessCounter m) \<le> k" using that(1) by (simp add: numbered_def)
    have "lg_lastAccessNumber (the_group m q) \<le> mm_accessCounter m + 1" if "q \<in> set (mm_lru m)" for q
      using word_counter_inc(2)[OF c \<open>k + 1 < 2 ^ 64\<close>] \<open>numbered k m\<close> that by (auto simp: numbered_def intro: order.strict_implies_order)
    then show ?thesis using word_counter_inc(1)[OF c that(2)] by (simp add: numbered_def lru touch_group)
  qed
  then show ?thesis using touch_ok[OF assms, of now] lru by (simp add: step_keeps_def same_group_def touch_keeps)
qed

lemma step_keeps_where:
  assumes "matcher_ok env m"
  shows "step_keeps env 0 m (removeLcpWhere P m)"
  using removeWhere_ok[OF assms, of P] by (auto simp: step_keeps_def same_group_def numbered_def shrinks_def)

lemma operations_ok: "matcher_ok env (m\<lparr>mm_operations := x\<rparr>) = matcher_ok env m"
proof -
  have v: "the_group (m\<lparr>mm_operations := x\<rparr>) = the_group m" "reg (m\<lparr>mm_operations := x\<rparr>) = reg m"
    "bkt (m\<lparr>mm_operations := x\<rparr>) = bkt m"
    by (simp_all add: the_group_def reg_def bkt_def fun_eq_iff)
  show ?thesis
    unfolding matcher_ok_def lcp_linked_def counted_def weight_def limited_def configured_def groups_ok_def v by simp
qed

lemma step_keeps_prepare:
  assumes "matcher_ok env m"
  shows "step_keeps env 0 m (prepareLocked now m)"
proof -
  let ?m = "m\<lparr>mm_operations := mm_operations m + 1\<rparr>"
  have g: "the_group ?m = the_group m" by (simp add: the_group_def fun_eq_iff)
  have ok: "matcher_ok env ?m" using assms by (simp add: operations_ok)
  have "step_keeps env 0 m ?m" using ok by (simp add: step_keeps_def same_group_def numbered_def g)
  from step_keeps_trans[OF this step_keeps_where[OF ok]] this show ?thesis
    by (simp add: prepareLocked_def cleanupLocked_def Let_def)
qed

text \<open>The sweep before an operation does not change which groups can be found.\<close>

lemma shares_prepare:
  assumes "matcher_ok env m"
  shows "shares_prefix (prepareLocked now m) n fps now len p = shares_prefix m n fps now len p"
    and "p \<in> set (mm_lru (prepareLocked now m)) \<Longrightarrow> the_group (prepareLocked now m) p = the_group m p"
    and "shares_prefix m n fps now len p \<Longrightarrow> the_group (prepareLocked now m) p = the_group m p"
proof -
  let ?m = "m\<lparr>mm_operations := mm_operations m + 1\<rparr>"
  have g: "the_group ?m = the_group m" by (simp add: the_group_def fun_eq_iff)
  have ok: "matcher_ok env ?m" using assms by (simp add: operations_ok)
  have w: "shrinks (\<lambda>p. \<not> now < lg_expiresAt (the_group m p)) ?m (cleanupLocked now ?m)"
    using removeWhere_ok(2)[OF ok, of "\<lambda>g. \<not> now < lg_expiresAt g"] by (simp add: cleanupLocked_def g)
  show "shares_prefix (prepareLocked now m) n fps now len p = shares_prefix m n fps now len p"
    using w by (auto simp: prepareLocked_def Let_def shares_prefix_def shrinks_def g eligible_group_def)
  show "p \<in> set (mm_lru (prepareLocked now m)) \<Longrightarrow> the_group (prepareLocked now m) p = the_group m p"
    "shares_prefix m n fps now len p \<Longrightarrow> the_group (prepareLocked now m) p = the_group m p"
    using w by (auto simp: prepareLocked_def Let_def shrinks_def g)
qed

lemma step_keeps_match:
  assumes "matcher_ok env m"
  shows "step_keeps env 1 m (snd (matchLocked env n fps low now m))"
proof (cases rule: matchLocked_cases[OF assms, where n = n and fps = fps and low = low and now = now])
  case 1
  have "step_keeps env 1 m m" using assms by (auto simp: step_keeps_def same_group_def numbered_def)
  then show ?thesis unfolding 1 by simp
next
  case (2 p len)
  show ?thesis unfolding 2(3) using step_keeps_touch[OF assms 2(1)] by simp
qed

section \<open>Binding\<close>

text \<open>
  A binding stores one new group, the newest one, after steps that keep groups; an eviction may follow,
  but it leaves the new group.
\<close>

definition new_group :: "turn_env \<Rightarrow> string \<Rightarrow> string list \<Rightarrow> nat \<Rightarrow> string \<Rightarrow> string \<Rightarrow> go_time \<Rightarrow> 64 word \<Rightarrow> lcpGroup" where
  "new_group env n fps low auth s expires number =
     \<lparr>lg_key = sequenceKey env fps, lg_namespace = n, lg_authID = auth, lg_sessionID = s, lg_minPrefixLength = low,
      lg_fingerprints = fps, lg_prefixKeys = rollingPrefixKeys env fps, lg_expiresAt = expires,
      lg_lastAccessNumber = number\<rparr>"

definition binds ::
  "turn_env \<Rightarrow> nat \<Rightarrow> string \<Rightarrow> string list \<Rightarrow> nat \<Rightarrow> string \<Rightarrow> string \<Rightarrow> go_time \<Rightarrow> MerklePrefixMatcher
    \<Rightarrow> MerklePrefixMatcher \<Rightarrow> bool" where
  "binds env j n fps low auth s now m m2 \<longleftrightarrow>
     (\<exists>m1 p. step_keeps env j m m1 \<and> p \<notin> set (mm_lru m1) \<and> matcher_ok env m2 \<and> mm_ttl m2 = mm_ttl m \<and>
        mm_maxTurns m2 = mm_maxTurns m \<and> mm_accessCounter m2 = mm_accessCounter m1 + 1 \<and>
        p \<in> set (mm_lru m2) \<and> set (mm_lru m2) \<subseteq> insert p (set (mm_lru m1)) \<and>
        the_group m2 = (the_group m1)(p := new_group env n fps low auth s (now + mm_ttl m) (mm_accessCounter m1 + 1)))"

lemma add_binds:
  assumes "step_keeps env j m m1" "reg m1 n (sequenceKey env fps) = None" "pk = [] \<or> pk = rollingPrefixKeys env fps"
    and "0 < low" "low \<le> length fps" "length fps \<le> mm_maxTurns m"
  shows "binds env j n fps low auth s now m
    (addGroupLocked env \<lparr>lg_key = sequenceKey env fps, lg_namespace = n, lg_authID = auth, lg_sessionID = s,
       lg_minPrefixLength = low, lg_fingerprints = fps, lg_prefixKeys = pk, lg_expiresAt = now + mm_ttl m,
       lg_lastAccessNumber = 0\<rparr> m1)"
proof -
  let ?g = "\<lparr>lg_key = sequenceKey env fps, lg_namespace = n, lg_authID = auth, lg_sessionID = s,
       lg_minPrefixLength = low, lg_fingerprints = fps, lg_prefixKeys = pk, lg_expiresAt = now + mm_ttl m,
       lg_lastAccessNumber = 0\<rparr>"
  let ?n = "new_group env n fps low auth s (now + mm_ttl m) (mm_accessCounter m1 + 1)"
  have m1: "matcher_ok env m1" "mm_ttl m1 = mm_ttl m" "mm_maxTurns m1 = mm_maxTurns m" using assms(1) by (simp_all add: step_keeps_def)
  have st: "stored_group env ?g m1 = ?n" using assms(3) by (auto simp: stored_group_def new_group_def)
  have r: "reg m1 (lg_namespace ?g) (lg_key ?g) = None" using assms(2) by simp
  have "lcp_group_ok env (mm_maxTurns m1) ?n" using assms(4-6) m1(3) by (simp add: lcp_group_ok_def new_group_def)
  note add = add_ok[OF m1(1) r, unfolded st, OF this]
  have fresh: "mm_next m1 \<notin> set (mm_lru m1)" using m1(1) by (auto simp: matcher_ok_def lcp_linked_def)
  obtain k where lru: "mm_lru (addGroupLocked env ?g m1) = drop k (mm_lru m1) @ [mm_next m1]" using add(6) by blast
  have "the_group (addGroupLocked env ?g m1) = (the_group m1)(mm_next m1 := ?n)"
    unfolding add(5) by (simp add: insert_group st fun_eq_iff)
  moreover have "set (mm_lru (addGroupLocked env ?g m1)) \<subseteq> insert (mm_next m1) (set (mm_lru m1))"
    "mm_next m1 \<in> set (mm_lru (addGroupLocked env ?g m1))"
    unfolding lru using set_drop_subset[of k "mm_lru m1"] by auto
  ultimately show ?thesis
    unfolding binds_def using assms(1) fresh add(1-4) m1(2,3) by (intro exI[of _ m1] exI[of _ "mm_next m1"]) simp
qed

text \<open>The session identity of a binding: that of the live binding of the same sequence, or that of the
  conversation it continues, or a new one.\<close>

definition session_after :: "turn_env \<Rightarrow> string \<Rightarrow> string list \<Rightarrow> nat \<Rightarrow> MerklePrefixMatch option \<Rightarrow> string" where
  "session_after env n fps low match =
     (case match of
        Some r \<Rightarrow> if mt_SessionID r = [] then newLCPSessionID env n (rollingPrefixKeys env fps ! (low - 1)) else mt_SessionID r
      | None \<Rightarrow> newLCPSessionID env n (rollingPrefixKeys env fps ! (low - 1)))"

lemma bindLocked_spec:
  assumes "matcher_ok env m" "0 < low" "low \<le> length fps" "length fps \<le> mm_maxTurns m"
  obtains (exact) e where "reg m n (sequenceKey env fps) = Some e" "now < lg_expiresAt (the_group m e)"
      "fst (bindLocked env n fps low auth now m) = lg_sessionID (the_group m e)"
      "binds env 1 n fps low auth (lg_sessionID (the_group m e)) now m (snd (bindLocked env n fps low auth now m))"
  | (new) m0 where
      "m0 = (case reg m n (sequenceKey env fps) of None \<Rightarrow> m | Some e \<Rightarrow> removeGroupLocked e m)"
      "\<forall>e. reg m n (sequenceKey env fps) = Some e \<longrightarrow> \<not> now < lg_expiresAt (the_group m e)"
      "fst (bindLocked env n fps low auth now m) = session_after env n fps low (fst (matchLocked env n fps low now m0))"
      "binds env 1 n fps low auth (session_after env n fps low (fst (matchLocked env n fps low now m0))) now m
        (snd (bindLocked env n fps low auth now m))"
proof -
  let ?key = "sequenceKey env fps"
  have l: "lcp_linked m" using assms(1) by (simp add: matcher_ok_def)
  have fresh: thesis
    if m0: "m0 = (case reg m n ?key of None \<Rightarrow> m | Some e \<Rightarrow> removeGroupLocked e m)"
      and dead: "\<forall>e. reg m n ?key = Some e \<longrightarrow> \<not> now < lg_expiresAt (the_group m e)"
      and eq: "bindLocked env n fps low auth now m =
        (let (match, m1) = matchLocked env n fps low now m0;
             s = session_after env n fps low match
         in (s, addGroupLocked env \<lparr>lg_key = ?key, lg_namespace = n, lg_authID = auth, lg_sessionID = s,
           lg_minPrefixLength = low, lg_fingerprints = fps, lg_prefixKeys = rollingPrefixKeys env fps,
           lg_expiresAt = now + mm_ttl m, lg_lastAccessNumber = 0\<rparr> m1))"
    for m0
  proof -
    have lru: "e \<in> set (mm_lru m)" if "reg m n ?key = Some e" for e using that lcp_linked_reg[OF l] by blast
    have k0: "step_keeps env 0 m m0" and r0: "reg m0 n ?key = None"
      using step_keeps_remove[OF assms(1) lru] step_keeps_refl[OF assms(1)] remove_reg[OF l lru] m0 by (auto split: option.splits)
    have ok0: "matcher_ok env m0" using k0 by (simp add: step_keeps_def)
    obtain match m1 where mm: "matchLocked env n fps low now m0 = (match, m1)" by (cases "matchLocked env n fps low now m0")
    have "step_keeps env 1 m0 m1" using step_keeps_match[OF ok0, of n fps low now] mm by simp
    from step_keeps_trans[OF k0 this] have k1: "step_keeps env 1 m m1" by simp
    have "reg m1 = reg m0"
      by (cases rule: matchLocked_cases[OF ok0, where n = n and fps = fps and low = low and now = now]) (use mm in auto)
    then have "reg m1 n ?key = None" using r0 by simp
    from add_binds[OF k1 this disjI2[OF refl] assms(2-4)] eq mm
    have "binds env 1 n fps low auth (session_after env n fps low match) now m (snd (bindLocked env n fps low auth now m))"
      by (simp add: Let_def)
    then show thesis using new[OF m0 dead] eq mm by (simp add: Let_def)
  qed
  have len: "rollingPrefixKeys env fps \<noteq> []" "low \<le> length (rollingPrefixKeys env fps)"
    using assms(2,3) by (auto simp flip: length_greater_0_conv)
  show thesis
  proof (cases "reg m n ?key")
    case None
    show thesis
      by (rule fresh[of m])
        (use None len assms(2) in \<open>auto simp: bindLocked_def ns_reg session_after_def Let_def split: option.split prod.split\<close>)
  next
    case (Some e)
    have e: "e \<in> set (mm_lru m)" using Some lcp_linked_reg[OF l] by blast
    show thesis
    proof (cases "now < lg_expiresAt (the_group m e)")
      case False
      show thesis
        by (rule fresh[of "removeGroupLocked e m"])
          (use Some False len assms(2) in \<open>auto simp: bindLocked_def ns_reg session_after_def Let_def split: option.split prod.split\<close>)
    next
      case True
      have eq: "bindLocked env n fps low auth now m = (lg_sessionID (the_group m e),
        addGroupLocked env \<lparr>lg_key = ?key, lg_namespace = n, lg_authID = auth, lg_sessionID = lg_sessionID (the_group m e),
           lg_minPrefixLength = low, lg_fingerprints = fps, lg_prefixKeys = [],
           lg_expiresAt = now + mm_ttl m, lg_lastAccessNumber = 0\<rparr> (removeGroupLocked e m))"
        using Some True by (simp add: bindLocked_def ns_reg Let_def)
      have "step_keeps env 1 m (removeGroupLocked e m)"
        using step_keeps_remove[OF assms(1) e] by (auto simp: step_keeps_def numbered_def)
      moreover have "reg (removeGroupLocked e m) n ?key = None" using remove_reg[OF l e] Some by simp
      ultimately show thesis
        using exact[OF Some True] add_binds[of env 1 m "removeGroupLocked e m" n fps "[]"] assms(2-4) unfolding eq by simp
    qed
  qed
qed

end
