(* ===== verification/PrefixRuns.thy ===== *)
theory PrefixRuns
  imports PrefixOps
begin

text \<open>
  Runs of the prefix matcher: sequences of its operations on conversations. Every reachable state satisfies
  the invariant, a match answers with the longest known prefix, and a binding is found again.
\<close>

section \<open>Runs\<close>

datatype matcher_op =
    OpMatch string "CanonicalTurn list"
  | OpBind string "CanonicalTurn list" string
  | OpTouch string "CanonicalTurn list" string
  | OpRemove string "CanonicalTurn list" string
  | OpInvalidate string
  | OpClear

fun op_turns :: "matcher_op \<Rightarrow> CanonicalTurn list" where
  "op_turns (OpMatch n turns) = turns"
| "op_turns (OpBind n turns auth) = turns"
| "op_turns (OpTouch n turns auth) = turns"
| "op_turns (OpRemove n turns auth) = turns"
| "op_turns (OpInvalidate auth) = []"
| "op_turns OpClear = []"

fun matcher_exec :: "turn_env \<Rightarrow> go_time \<times> matcher_op \<Rightarrow> MerklePrefixMatcher \<Rightarrow> MerklePrefixMatcher" where
  "matcher_exec env (now, OpMatch n turns) m = snd (Match_turns env n turns now m)"
| "matcher_exec env (now, OpBind n turns auth) m = snd (Bind_turns env n turns auth now m)"
| "matcher_exec env (now, OpTouch n turns auth) m = snd (Touch_turns env n turns auth now m)"
| "matcher_exec env (now, OpRemove n turns auth) m = snd (Remove_turns env n turns auth now m)"
| "matcher_exec env (now, OpInvalidate auth) m = matcher_InvalidateAuth auth m"
| "matcher_exec env (now, OpClear) m = matcher_Clear m"

definition matcher_run :: "turn_env \<Rightarrow> (go_time \<times> matcher_op) list \<Rightarrow> MerklePrefixMatcher \<Rightarrow> MerklePrefixMatcher" where
  "matcher_run env ops m = fold (matcher_exec env) ops m"

definition run_turns :: "(go_time \<times> matcher_op) list \<Rightarrow> CanonicalTurn list" where
  "run_turns ops = concat (map (\<lambda>(now, op). op_turns op) ops)"

section \<open>Where the first prefix ends\<close>

lemma minimum_pos: "0 < minimumAffinityPrefixLength turns \<Longrightarrow>
    minimumAffinityPrefixLength turns \<le> length turns \<and>
    canonicalRole (ct_Role (turns ! (minimumAffinityPrefixLength turns - 1))) \<noteq> ''system''"
proof (induction turns)
  case (Cons t turns)
  show ?case
  proof (cases "canonicalRole (ct_Role t) = ''system''")
    case True
    then obtain n where n: "minimumAffinityPrefixLength turns = Suc n"
      using Cons.prems by (auto split: nat.splits)
    then show ?thesis using Cons.IH True by simp
  qed simp
qed simp

lemma minimum_least: "i < length turns \<Longrightarrow> canonicalRole (ct_Role (turns ! i)) \<noteq> ''system'' \<Longrightarrow>
    0 < minimumAffinityPrefixLength turns \<and> minimumAffinityPrefixLength turns \<le> i + 1"
proof (induction turns arbitrary: i)
  case (Cons t turns)
  show ?case
  proof (cases "canonicalRole (ct_Role t) = ''system''")
    case True
    then obtain j where j: "i = Suc j" using Cons.prems(2) by (cases i) auto
    from Cons.IH[of j] Cons.prems j True show ?thesis by (auto split: nat.split)
  qed simp
qed simp

section \<open>The invariant of runs\<close>

text \<open>Every group was bound from turns of the run, and has a session identity.\<close>

definition bound_from :: "turn_env \<Rightarrow> CanonicalTurn set \<Rightarrow> nat \<Rightarrow> lcpGroup \<Rightarrow> bool" where
  "bound_from env T maxTurns g \<longleftrightarrow> lg_sessionID g \<noteq> [] \<and>
     (\<exists>turns. set turns \<subseteq> T \<and> lg_fingerprints g = fingerprints_of env maxTurns turns \<and>
        lg_minPrefixLength g = minimumAffinityPrefixLength turns)"

definition from_turns :: "turn_env \<Rightarrow> CanonicalTurn set \<Rightarrow> MerklePrefixMatcher \<Rightarrow> bool" where
  "from_turns env T m \<longleftrightarrow>
     (\<forall>p \<in> set (mm_lru m). bound_from env T (mm_maxTurns m) (the_group m p))"

definition run_ok :: "turn_env \<Rightarrow> CanonicalTurn set \<Rightarrow> nat \<Rightarrow> MerklePrefixMatcher \<Rightarrow> bool" where
  "run_ok env T k m \<longleftrightarrow> matcher_ok env m \<and> from_turns env T m \<and> (k < 2 ^ 64 \<longrightarrow> numbered k m)"

lemma bound_from_mono: "bound_from env T k g \<Longrightarrow> T \<subseteq> T' \<Longrightarrow> bound_from env T' k g"
  by (auto simp: bound_from_def)

lemma bound_from_same: "same_group g g' \<Longrightarrow> bound_from env T k g' = bound_from env T k g"
  by (simp add: bound_from_def same_group_def)

lemma run_ok_mono: "run_ok env T k m \<Longrightarrow> T \<subseteq> T' \<Longrightarrow> k \<le> k' \<Longrightarrow> run_ok env T' k' m"
  unfolding run_ok_def from_turns_def numbered_def by (meson order_trans le_less_trans bound_from_mono)

lemma run_ok_keeps:
  assumes "step_keeps env j m m'" "run_ok env T k m"
  shows "run_ok env T (k + j) m'"
proof -
  have "bound_from env T (mm_maxTurns m') (the_group m' p)" if "p \<in> set (mm_lru m')" for p
    using assms that bound_from_same unfolding step_keeps_def run_ok_def from_turns_def by (metis subsetD)
  then show ?thesis using assms unfolding run_ok_def step_keeps_def from_turns_def by (auto dest: add_lessD1)
qed

lemma run_ok_binds:
  assumes "binds env 1 n (fingerprints_of env (mm_maxTurns m) turns) (minimumAffinityPrefixLength turns) auth s now m m2"
    and "run_ok env T k m" "set turns \<subseteq> T" "s \<noteq> []"
  shows "run_ok env T (k + 2) m2"
proof -
  let ?fps = "fingerprints_of env (mm_maxTurns m) turns" and ?low = "minimumAffinityPrefixLength turns"
  obtain m1 p where b: "step_keeps env 1 m m1" "p \<notin> set (mm_lru m1)" "matcher_ok env m2" "mm_ttl m2 = mm_ttl m"
    "mm_maxTurns m2 = mm_maxTurns m" "mm_accessCounter m2 = mm_accessCounter m1 + 1"
    "p \<in> set (mm_lru m2)" "set (mm_lru m2) \<subseteq> insert p (set (mm_lru m1))"
    and g: "the_group m2 = (the_group m1)(p := new_group env n ?fps ?low auth s (now + mm_ttl m) (mm_accessCounter m1 + 1))"
    using assms(1) unfolding binds_def by blast
  have ok1: "run_ok env T (k + 1) m1" using run_ok_keeps[OF b(1) assms(2)] by simp
  have mt: "mm_maxTurns m1 = mm_maxTurns m" using b(1) by (simp add: step_keeps_def)
  have "from_turns env T m2"
    unfolding from_turns_def
  proof (rule ball_insert_subset[OF b(8)])
    show "bound_from env T (mm_maxTurns m2) (the_group m2 p)"
      using assms(3,4) by (auto simp: g new_group_def b(5) bound_from_def)
    show "\<forall>q \<in> set (mm_lru m1). bound_from env T (mm_maxTurns m2) (the_group m2 q)"
      using ok1 b(2) by (auto simp: g run_ok_def from_turns_def b(5) mt)
  qed
  moreover have "numbered (k + 2) m2" if "k + 2 < 2 ^ 64"
  proof -
    have n1: "numbered (k + 1) m1" using ok1 that by (simp add: run_ok_def)
    then have c: "unat (mm_accessCounter m1) \<le> k + 1" by (simp add: numbered_def)
    have small: "k + 1 + 1 < 2 ^ 64" using that by simp
    have "\<forall>q \<in> set (mm_lru m2). lg_lastAccessNumber (the_group m2 q) \<le> mm_accessCounter m1 + 1"
      by (rule ball_insert_subset[OF b(8)])
        (use n1 word_counter_inc(2)[OF c small] b(2) in \<open>auto simp: g new_group_def numbered_def intro: order.strict_implies_order\<close>)
    then show ?thesis using word_counter_inc(1)[OF c small] by (simp add: numbered_def b(6))
  qed
  ultimately show ?thesis using b(3) by (simp add: run_ok_def)
qed

lemma binds_after: "step_keeps env i m m0 \<Longrightarrow> binds env j n fps low auth s now m0 m2 \<Longrightarrow> binds env (i + j) n fps low auth s now m m2"
proof -
  assume k: "step_keeps env i m m0" and "binds env j n fps low auth s now m0 m2"
  then obtain m1 p where b: "step_keeps env j m0 m1" and r: "p \<notin> set (mm_lru m1) \<and> matcher_ok env m2 \<and>
      mm_ttl m2 = mm_ttl m0 \<and> mm_maxTurns m2 = mm_maxTurns m0 \<and> mm_accessCounter m2 = mm_accessCounter m1 + 1 \<and>
      p \<in> set (mm_lru m2) \<and> set (mm_lru m2) \<subseteq> insert p (set (mm_lru m1)) \<and>
      the_group m2 = (the_group m1)(p := new_group env n fps low auth s (now + mm_ttl m0) (mm_accessCounter m1 + 1))"
    unfolding binds_def by blast
  have c: "mm_ttl m0 = mm_ttl m" "mm_maxTurns m0 = mm_maxTurns m" using k by (simp_all add: step_keeps_def)
  show ?thesis unfolding binds_def using step_keeps_trans[OF k b] r[unfolded c] by blast
qed

section \<open>The operations\<close>

lemma fingerprints_length [simp]: "length (fingerprints_of env k turns) = min (length turns) k"
  by (simp add: fingerprints_of_def)

text \<open>What \<open>sanitizeFingerprints\<close> leaves of prepared turns.\<close>

lemma sanitize_prepared:
  assumes "0 < mt"
  shows "sanitizeFingerprints mt (fingerprints_of env mt turns) low =
    (if 0 < low \<and> low \<le> length (fingerprints_of env mt turns) then Some (fingerprints_of env mt turns, low) else None)"
  using assms by (auto simp: sanitizeFingerprints_def fingerprints_of_def)

lemma prepare_config: "matcher_ok env m \<Longrightarrow> mm_maxTurns (prepareLocked now m) = mm_maxTurns m \<and> mm_ttl (prepareLocked now m) = mm_ttl m"
  using step_keeps_prepare[of env m now] by (simp add: step_keeps_def)

text \<open>The sequences an operation works on.\<close>

definition usable :: "turn_env \<Rightarrow> MerklePrefixMatcher \<Rightarrow> CanonicalTurn list \<Rightarrow> bool" where
  "usable env m turns \<longleftrightarrow> 0 < minimumAffinityPrefixLength turns \<and>
     minimumAffinityPrefixLength turns \<le> length (fingerprints_of env (mm_maxTurns m) turns)"

lemma Match_turns_eq:
  assumes "matcher_ok env m"
  shows "Match_turns env n turns now m =
    (if n \<noteq> [] \<and> usable env m turns
     then matchLocked env n (fingerprints_of env (mm_maxTurns m) turns) (minimumAffinityPrefixLength turns) now (prepareLocked now m)
     else (None, m))"
proof -
  have "0 < mm_maxTurns m" using assms by (simp add: matcher_ok_def configured_def)
  from sanitize_prepared[OF this] show ?thesis
    by (simp add: Match_turns_def Prepare_def MatchFingerprints_def usable_def)
qed

lemma Bind_turns_eq:
  assumes "matcher_ok env m"
  shows "Bind_turns env n turns auth now m =
    (if TrimSpace n \<noteq> [] \<and> TrimSpace auth \<noteq> [] \<and> usable env m turns
     then bindLocked env n (fingerprints_of env (mm_maxTurns m) turns) (minimumAffinityPrefixLength turns) (TrimSpace auth) now
       (prepareLocked now m)
     else ([], m))"
proof -
  have "0 < mm_maxTurns m" using assms by (simp add: matcher_ok_def configured_def)
  from sanitize_prepared[OF this] show ?thesis
    by (simp add: Bind_turns_def Prepare_def BindFingerprints_def usable_def)
qed

lemma Touch_turns_eq:
  assumes "matcher_ok env m"
  shows "Touch_turns env n turns auth now m =
    (if TrimSpace n \<noteq> [] \<and> TrimSpace auth \<noteq> [] \<and> usable env m turns
     then touchLocked env n (fingerprints_of env (mm_maxTurns m) turns) (minimumAffinityPrefixLength turns) (TrimSpace auth) now
       (prepareLocked now m)
     else (False, m))"
proof -
  have "0 < mm_maxTurns m" using assms by (simp add: matcher_ok_def configured_def)
  from sanitize_prepared[OF this] show ?thesis
    by (simp add: Touch_turns_def Prepare_def TouchFingerprints_def usable_def)
qed

lemma session_after_nonempty: "session_after env n fps low match \<noteq> []"
  by (simp add: session_after_def newLCPSessionID_def split: option.split)

text \<open>Binding and touching a prepared conversation keep the run invariant.\<close>

lemma bindLocked_run:
  assumes "run_ok env T k m" "set turns \<subseteq> T" "usable env m turns"
  shows "run_ok env T (k + 2) (snd (bindLocked env n (fingerprints_of env (mm_maxTurns m) turns)
    (minimumAffinityPrefixLength turns) auth now m))"
proof -
  have ok: "matcher_ok env m" "lcp_linked m" using assms(1) by (simp_all add: run_ok_def matcher_ok_def)
  have u: "0 < minimumAffinityPrefixLength turns"
    "minimumAffinityPrefixLength turns \<le> length (fingerprints_of env (mm_maxTurns m) turns)"
    "length (fingerprints_of env (mm_maxTurns m) turns) \<le> mm_maxTurns m"
    using assms(3) by (simp_all add: usable_def)
  show ?thesis
  proof (cases rule: bindLocked_spec[OF ok(1) u, where n = n and auth = auth and now = now])
    case (1 e)
    have "e \<in> set (mm_lru m)" using 1(1) lcp_linked_reg[OF ok(2)] by blast
    then have "lg_sessionID (the_group m e) \<noteq> []" using assms(1) by (simp add: run_ok_def from_turns_def bound_from_def)
    then show ?thesis by (rule run_ok_binds[OF 1(4) assms(1,2)])
  next
    case (2 m0)
    show ?thesis by (rule run_ok_binds[OF 2(4) assms(1,2) session_after_nonempty])
  qed
qed

lemma touchLocked_run:
  assumes "run_ok env T k m" "set turns \<subseteq> T" "usable env m turns"
  shows "run_ok env T (k + 2) (snd (touchLocked env n (fingerprints_of env (mm_maxTurns m) turns)
    (minimumAffinityPrefixLength turns) auth now m))"
proof (cases "reg m n (sequenceKey env (fingerprints_of env (mm_maxTurns m) turns))")
  case None
  then show ?thesis using bindLocked_run[OF assms] by (simp add: touchLocked_def ns_reg)
next
  case (Some e)
  have ok: "matcher_ok env m" "lcp_linked m" using assms(1) by (simp_all add: run_ok_def matcher_ok_def)
  have e: "e \<in> set (mm_lru m)" using Some lcp_linked_reg[OF ok(2)] by blast
  have m0: "run_ok env T k (removeGroupLocked e m)" using run_ok_keeps[OF step_keeps_remove[OF ok(1) e] assms(1)] by simp
  have "run_ok env T (k + 2) (snd (bindLocked env n (fingerprints_of env (mm_maxTurns m) turns)
    (minimumAffinityPrefixLength turns) auth now (removeGroupLocked e m)))"
    using bindLocked_run[OF m0 assms(2)] assms(3) by (simp add: usable_def)
  moreover have "run_ok env T (k + 2) m" by (rule run_ok_mono[OF assms(1)]) simp_all
  moreover have "run_ok env T (k + 2) (touchGroup e now m)"
    by (rule run_ok_mono[OF run_ok_keeps[OF step_keeps_touch[OF ok(1) e] assms(1)]]) simp_all
  ultimately show ?thesis using Some by (simp add: touchLocked_def ns_reg Let_def)
qed

lemma new_run_ok: "run_ok env T 0 (NewMerklePrefixMatcherWithConfig ttl maxTurns maxGroups maxPrefixes)"
  by (auto simp: NewMerklePrefixMatcherWithConfig_def Let_def run_ok_def matcher_ok_def lcp_linked_def counted_def limited_def
      configured_def groups_ok_def from_turns_def numbered_def reg_def bkt_def weight_def Hour_def Minute_def Second_def)

lemma exec_ok:
  assumes "run_ok env T k m" "set (op_turns op) \<subseteq> T"
  shows "run_ok env T (k + 2) (matcher_exec env (now, op) m)"
proof -
  have ok: "matcher_ok env m" using assms(1) by (simp add: run_ok_def)
  have keep: "run_ok env T (k + 2) m'" if "step_keeps env j m m'" "j \<le> 2" for j m'
    by (rule run_ok_mono[OF run_ok_keeps[OF that(1) assms(1)]]) (use that(2) in simp_all)
  let ?m = "prepareLocked now m"
  have prep: "step_keeps env 0 m ?m" by (rule step_keeps_prepare[OF ok])
  have okp: "matcher_ok env ?m" and run: "run_ok env T k ?m" and mt: "mm_maxTurns ?m = mm_maxTurns m"
    using prep run_ok_keeps[OF prep assms(1)] by (simp_all add: step_keeps_def)
  have use_p: "usable env ?m turns = usable env m turns" for turns by (simp add: usable_def mt)
  have same: "run_ok env T (k + 2) m" by (rule keep[OF step_keeps_refl[OF ok]]) simp
  show ?thesis
  proof (cases op)
    case (OpMatch n turns)
    have "run_ok env T (k + 2) (snd (matchLocked env n fps low now ?m))" for fps low
      using keep[OF step_keeps_trans[OF prep step_keeps_match[OF okp]]] by simp
    then show ?thesis using same by (simp add: OpMatch Match_turns_eq[OF ok])
  next
    case (OpBind n turns auth)
    then show ?thesis using bindLocked_run[OF run, of turns] assms(2) same by (simp add: Bind_turns_eq[OF ok] use_p mt)
  next
    case (OpTouch n turns auth)
    then show ?thesis using touchLocked_run[OF run, of turns] assms(2) same by (simp add: Touch_turns_eq[OF ok] use_p mt)
  next
    case (OpRemove n turns auth)
    have rem: "run_ok env T (k + 2) (removeGroupLocked p ?m)" if "reg ?m n x = Some p" for p x
    proof -
      have "p \<in> set (mm_lru ?m)" using that lcp_linked_reg okp by (auto simp: matcher_ok_def)
      from step_keeps_trans[OF prep step_keeps_remove[OF okp this]] show ?thesis by (rule keep) simp
    qed
    have stay: "run_ok env T (k + 2) ?m" by (rule keep[OF prep]) simp
    show ?thesis
      using rem stay same
      by (auto simp: OpRemove Remove_turns_def RemoveFingerprints_def Let_def reg_def split: option.splits)
  next
    case (OpInvalidate auth)
    show ?thesis using keep[OF step_keeps_where[OF ok]] same by (simp add: OpInvalidate matcher_InvalidateAuth_def)
  next
    case OpClear
    have "configured m" using ok by (simp add: matcher_ok_def)
    then show ?thesis
      by (simp add: OpClear matcher_Clear_def run_ok_def matcher_ok_def lcp_linked_def counted_def limited_def
        configured_def groups_ok_def from_turns_def numbered_def reg_def bkt_def weight_def)
  qed
qed

lemma run_ok_run:
  "run_ok env T k m \<Longrightarrow> set (run_turns ops) \<subseteq> T \<Longrightarrow> run_ok env T (k + 2 * length ops) (matcher_run env ops m)"
proof (induction ops arbitrary: k m)
  case (Cons x ops)
  obtain now op where x: "x = (now, op)" by (cases x)
  have "run_ok env T (k + 2) (matcher_exec env (now, op) m)"
    by (rule exec_ok[OF Cons.prems(1)]) (use Cons.prems(2) x in \<open>simp add: run_turns_def\<close>)
  from Cons.IH[OF this] Cons.prems(2) x show ?case by (simp add: matcher_run_def run_turns_def)
qed (simp add: matcher_run_def)

lemma matcher_run_new:
  "run_ok env (set (run_turns ops)) (2 * length ops)
    (matcher_run env ops (NewMerklePrefixMatcherWithConfig ttl maxTurns maxGroups maxPrefixes))"
  using run_ok_run[OF new_run_ok order.refl] by simp

end
