(* ===== verification/PrefixClaims.thy ===== *)
theory PrefixClaims
  imports PrefixRuns
begin

text \<open>
  The properties of the prefix matcher over its runs: the invariant, the longest known prefix, the round trip
  of a binding, the session identity of a binding and the removal of a credential.
\<close>

section \<open>The first prefix of conversations\<close>

definition collision_free :: "turn_env \<Rightarrow> CanonicalTurn set \<Rightarrow> bool" where
  "collision_free env T \<longleftrightarrow> (\<forall>t \<in> T. \<forall>u \<in> T. no_collision env (fingerprintInput env t) (fingerprintInput env u))"

lemma same_roles:
  assumes "collision_free env T" "set ts \<subseteq> T" "set us \<subseteq> T" "0 < i"
    and "take i (fingerprints_of env k ts) = take i (fingerprints_of env k us)"
    and "i \<le> length (fingerprints_of env k ts)" "i \<le> length (fingerprints_of env k us)"
  shows "canonicalRole (ct_Role (ts ! (i - 1))) = canonicalRole (ct_Role (us ! (i - 1)))"
proof -
  have l: "i - 1 < length ts" "i - 1 < length us" "i - 1 < k" "i - 1 < i" using assms(4,6,7) unfolding fingerprints_length by linarith+
  have "fingerprints_of env k ts ! (i - 1) = fingerprints_of env k us ! (i - 1)"
    using arg_cong[OF assms(5), of "\<lambda>xs. xs ! (i - 1)"] l(4) by simp
  then have "FastTurnFingerprint env (ts ! (i - 1)) = FastTurnFingerprint env (us ! (i - 1))"
    using l by (simp add: fingerprints_of_def)
  moreover have "ts ! (i - 1) \<in> T" "us ! (i - 1) \<in> T" using assms(2,3) l nth_mem by blast+
  ultimately show ?thesis using assms(1) by (auto simp: collision_free_def intro: fingerprint_role)
qed

lemma run_min_fits:
  assumes "run_ok env T k m" "collision_free env T'" "T \<subseteq> T'" "set turns \<subseteq> T'"
    and "0 < minimumAffinityPrefixLength turns"
  shows "min_fits m n (fingerprints_of env (mm_maxTurns m) turns) (minimumAffinityPrefixLength turns)"
  unfolding min_fits_def
proof (intro ballI impI, elim conjE)
  fix p
  let ?g = "the_group m p" and ?low = "minimumAffinityPrefixLength turns"
  assume p: "p \<in> set (mm_lru m)" and l: "?low \<le> length (lg_fingerprints ?g)"
    and t: "take ?low (lg_fingerprints ?g) = take ?low (fingerprints_of env (mm_maxTurns m) turns)"
  obtain us where us: "set us \<subseteq> T" "lg_fingerprints ?g = fingerprints_of env (mm_maxTurns m) us"
    "lg_minPrefixLength ?g = minimumAffinityPrefixLength us"
    using assms(1) p by (auto simp: run_ok_def from_turns_def bound_from_def)
  have low: "?low \<le> length turns" "canonicalRole (ct_Role (turns ! (?low - 1))) \<noteq> ''system''"
    using minimum_pos[OF assms(5)] by simp_all
  have "?low \<le> length (fingerprints_of env (mm_maxTurns m) turns)"
    using arg_cong[OF t, of length] l low(1) us(2) by (simp add: min_def split: if_splits)
  then have "canonicalRole (ct_Role (us ! (?low - 1))) = canonicalRole (ct_Role (turns ! (?low - 1)))"
    by (intro same_roles[OF assms(2) _ assms(4,5), where k = "mm_maxTurns m"]) (use us assms(3) t l in auto)
  moreover have "?low - 1 < length us" using l assms(5) unfolding us(2) fingerprints_length by linarith
  ultimately show "lg_minPrefixLength ?g \<le> ?low"
    using minimum_least[of "?low - 1" us] low(2) us(3) assms(5) by simp
qed

text \<open>A conversation without a first prefix, or one that does not fit, shares nothing.\<close>

lemma unusable_shares_nothing:
  assumes "run_ok env T k m" "collision_free env T'" "T \<subseteq> T'" "set turns \<subseteq> T'" "\<not> usable env m turns"
  shows "longest_shared m n (fingerprints_of env (mm_maxTurns m) turns) now (minimumAffinityPrefixLength turns) None"
proof (cases "minimumAffinityPrefixLength turns = 0")
  case False
  then show ?thesis using assms(5) by (auto simp: usable_def longest_shared_def)
next
  case True
  let ?fps = "fingerprints_of env (mm_maxTurns m) turns"
  have "\<not> shares_prefix m n ?fps now len p" if len: "len \<le> length ?fps" for len p
  proof
    assume s: "shares_prefix m n ?fps now len p"
    let ?g = "the_group m p"
    have p: "p \<in> set (mm_lru m)" and e: "lg_minPrefixLength ?g \<le> len" "len \<le> length (lg_fingerprints ?g)"
      "take len (lg_fingerprints ?g) = take len ?fps"
      using s eligible_take[OF len] by (auto simp: shares_prefix_def)
    obtain us where us: "set us \<subseteq> T" "lg_fingerprints ?g = fingerprints_of env (mm_maxTurns m) us"
      "lg_minPrefixLength ?g = minimumAffinityPrefixLength us"
      using assms(1) p by (auto simp: run_ok_def from_turns_def bound_from_def)
    have pos: "0 < lg_minPrefixLength ?g"
      using assms(1) p by (simp add: run_ok_def matcher_ok_def groups_ok_def lcp_group_ok_def)
    let ?i = "lg_minPrefixLength ?g"
    have "take ?i (lg_fingerprints ?g) = take ?i ?fps" using arg_cong[OF e(3), of "take ?i"] e(1) by (simp add: min_absorb1)
    then have "canonicalRole (ct_Role (us ! (?i - 1))) = canonicalRole (ct_Role (turns ! (?i - 1)))"
      by (intro same_roles[OF assms(2) _ assms(4) pos, where k = "mm_maxTurns m"]) (use us assms(3) e len in auto)
    then have "canonicalRole (ct_Role (turns ! (?i - 1))) \<noteq> ''system''"
      using minimum_pos[of us] us(3) pos by simp
    moreover have "?i - 1 < length turns" using e(1) len pos unfolding fingerprints_length by linarith
    ultimately show False using minimum_least[of "?i - 1" turns] True by simp
  qed
  then show ?thesis by (simp add: longest_shared_def)
qed

lemma minimum_append: "0 < minimumAffinityPrefixLength turns \<Longrightarrow>
    minimumAffinityPrefixLength (turns @ later) = minimumAffinityPrefixLength turns"
  by (induction turns) (auto split: nat.splits)

section \<open>Matching in a run\<close>

definition match_of :: "MerklePrefixMatcher \<Rightarrow> (nat \<times> nat) option \<Rightarrow> MerklePrefixMatch option" where
  "match_of m r = map_option (\<lambda>(p, len). \<lparr>mt_AuthID = lg_authID (the_group m p), mt_SessionID = lg_sessionID (the_group m p),
     mt_PrefixLength = len\<rparr>) r"

lemma longest_prepare:
  assumes "matcher_ok env m" "longest_shared (prepareLocked now m) n fps now low r"
  shows "longest_shared m n fps now low r" "match_of (prepareLocked now m) r = match_of m r"
proof -
  note s = shares_prepare(1,3)[OF assms(1), where now = now and n = n and fps = fps]
  show "longest_shared m n fps now low r"
  proof (cases r)
    case (Some x)
    obtain p len where x: "x = (p, len)" by (cases x)
    have a: "low \<le> len" "len \<le> length fps" "shares_prefix m n fps now len p"
      "\<And>len' q. low \<le> len' \<Longrightarrow> len' \<le> length fps \<Longrightarrow> shares_prefix m n fps now len' q \<Longrightarrow> len' \<le> len \<and>
        (len' = len \<longrightarrow> lg_lastAccessNumber (the_group (prepareLocked now m) q) \<le> lg_lastAccessNumber (the_group (prepareLocked now m) p))"
      using assms(2) unfolding longest_shared_def Some x s(1) option.case prod.case by blast+
    have "len' \<le> len \<and> (len' = len \<longrightarrow> lg_lastAccessNumber (the_group m q) \<le> lg_lastAccessNumber (the_group m p))"
      if "low \<le> len'" "len' \<le> length fps" "shares_prefix m n fps now len' q" for len' q
      using a(4)[OF that] unfolding s(2)[OF that(3)] s(2)[OF a(3)] .
    then show ?thesis using a(1-3) unfolding longest_shared_def Some x option.case prod.case by blast
  qed (use assms(2) s(1) in \<open>simp add: longest_shared_def\<close>)
  show "match_of (prepareLocked now m) r = match_of m r"
  proof (cases r)
    case (Some x)
    then have "shares_prefix m n fps now (snd x) (fst x)"
      using assms(2) s(1) by (auto simp: longest_shared_def split: prod.splits)
    from s(2)[OF this] show ?thesis by (cases x) (simp add: Some match_of_def)
  qed (simp add: match_of_def)
qed

lemma match_run:
  assumes "run_ok env T k m" "collision_free env T'" "T \<subseteq> T'" "set turns \<subseteq> T'" "n \<noteq> []"
  shows "\<exists>r. longest_shared m n (fingerprints_of env (mm_maxTurns m) turns) now (minimumAffinityPrefixLength turns) r \<and>
    fst (Match_turns env n turns now m) = match_of m r"
proof (cases "usable env m turns")
  case False
  then show ?thesis
    using unusable_shares_nothing[OF assms(1-4)] assms(1) by (intro exI[of _ None]) (simp add: Match_turns_eq run_ok_def match_of_def)
next
  case True
  let ?m = "prepareLocked now m" and ?fps = "fingerprints_of env (mm_maxTurns m) turns" and ?low = "minimumAffinityPrefixLength turns"
  have ok: "matcher_ok env m" using assms(1) by (simp add: run_ok_def)
  have prep: "step_keeps env 0 m ?m" by (rule step_keeps_prepare[OF ok])
  have run: "run_ok env T k ?m" and mt: "mm_maxTurns ?m = mm_maxTurns m"
    using run_ok_keeps[OF prep assms(1)] prep by (simp_all add: step_keeps_def)
  have low: "0 < ?low" using True by (simp add: usable_def)
  have fits: "min_fits ?m n ?fps ?low" using run_min_fits[OF run assms(2-4) low] by (simp add: mt)
  obtain r where r: "longest_shared ?m n ?fps now ?low r" and m: "fst (matchLocked env n ?fps ?low now ?m) = match_of ?m r"
  proof -
    have okp: "matcher_ok env ?m" using run by (simp add: run_ok_def)
    obtain r where r: "longest_shared ?m n ?fps now ?low r"
      "matchLocked env n ?fps ?low now ?m = (case r of None \<Rightarrow> (None, ?m) | Some (p, len) \<Rightarrow>
         (Some \<lparr>mt_AuthID = lg_authID (the_group ?m p), mt_SessionID = lg_sessionID (the_group ?m p), mt_PrefixLength = len\<rparr>,
          touchGroup p now ?m))"
      using matchLocked_spec[OF okp fits low] by blast
    moreover have "fst (matchLocked env n ?fps ?low now ?m) = match_of ?m r"
      unfolding r(2) by (cases r) (auto simp: match_of_def)
    ultimately show thesis using that by blast
  qed
  then show ?thesis
    using longest_prepare[OF ok r] True assms(5) by (intro exI[of _ r]) (simp add: Match_turns_eq[OF ok])
qed

section \<open>Binding in a run\<close>

text \<open>The new group is the newest of all.\<close>

lemma binds_newest:
  assumes "binds env 1 n fps low auth s now m m2" "numbered k m" "k + 2 < 2 ^ 64"
  obtains p where "p \<in> set (mm_lru m2)" "matcher_ok env m2" "mm_maxTurns m2 = mm_maxTurns m"
    "lg_namespace (the_group m2 p) = n" "lg_authID (the_group m2 p) = auth" "lg_sessionID (the_group m2 p) = s"
    "lg_fingerprints (the_group m2 p) = fps" "lg_minPrefixLength (the_group m2 p) = low"
    "lg_expiresAt (the_group m2 p) = now + mm_ttl m"
    "\<And>q. q \<in> set (mm_lru m2) \<Longrightarrow> q \<noteq> p \<Longrightarrow> lg_lastAccessNumber (the_group m2 q) < lg_lastAccessNumber (the_group m2 p)"
proof -
  obtain m1 p where b: "step_keeps env 1 m m1" "p \<notin> set (mm_lru m1)" "matcher_ok env m2"
    "mm_maxTurns m2 = mm_maxTurns m" "p \<in> set (mm_lru m2)" "set (mm_lru m2) \<subseteq> insert p (set (mm_lru m1))"
    and g: "the_group m2 = (the_group m1)(p := new_group env n fps low auth s (now + mm_ttl m) (mm_accessCounter m1 + 1))"
    using assms(1) unfolding binds_def by blast
  have "k + 1 < 2 ^ 64" using assms(3) by simp
  then have n1: "numbered (k + 1) m1" using b(1) assms(2) unfolding step_keeps_def by blast
  then have c: "unat (mm_accessCounter m1) \<le> k + 1" by (simp add: numbered_def)
  have small: "k + 1 + 1 < 2 ^ 64" using assms(3) by simp
  have "lg_lastAccessNumber (the_group m2 q) < lg_lastAccessNumber (the_group m2 p)" if "q \<in> set (mm_lru m2)" "q \<noteq> p" for q
  proof -
    have "q \<in> set (mm_lru m1)" using that b(6) by blast
    then have "lg_lastAccessNumber (the_group m1 q) \<le> mm_accessCounter m1" using n1 by (simp add: numbered_def)
    from word_counter_inc(2)[OF c small this] show ?thesis using that(2) by (simp add: g new_group_def)
  qed
  with b show thesis by (intro that[of p]) (simp_all add: g new_group_def)
qed

lemma Bind_turns_binds:
  assumes "run_ok env T k m" "TrimSpace n \<noteq> []" "TrimSpace auth \<noteq> []" "usable env m turns"
  shows "binds env 1 n (fingerprints_of env (mm_maxTurns m) turns) (minimumAffinityPrefixLength turns) (TrimSpace auth)
    (fst (Bind_turns env n turns auth now m)) now m (snd (Bind_turns env n turns auth now m))"
proof -
  let ?fps = "fingerprints_of env (mm_maxTurns m) turns" and ?low = "minimumAffinityPrefixLength turns"
  let ?m = "prepareLocked now m"
  have ok: "matcher_ok env m" using assms(1) by (simp add: run_ok_def)
  have prep: "step_keeps env 0 m ?m" by (rule step_keeps_prepare[OF ok])
  have okp: "matcher_ok env ?m" and mt: "mm_maxTurns ?m = mm_maxTurns m" using prep by (simp_all add: step_keeps_def)
  have u: "0 < ?low" "?low \<le> length ?fps" "length ?fps \<le> mm_maxTurns ?m" using assms(4) mt by (simp_all add: usable_def)
  have e: "Bind_turns env n turns auth now m = bindLocked env n ?fps ?low (TrimSpace auth) now ?m"
    using assms(2-4) by (simp add: Bind_turns_eq[OF ok])
  have "binds env 1 n ?fps ?low (TrimSpace auth) (fst (bindLocked env n ?fps ?low (TrimSpace auth) now ?m)) now ?m
      (snd (bindLocked env n ?fps ?low (TrimSpace auth) now ?m))"
    by (cases rule: bindLocked_spec[OF okp u, where n = n and auth = "TrimSpace auth" and now = now]) simp_all
  from binds_after[OF prep this] show ?thesis by (simp add: e)
qed

text \<open>What a match finds after a binding.\<close>

lemma match_bound:
  assumes "run_ok env T k m" "collision_free env T'" "T \<subseteq> T'" "set (turns @ later) \<subseteq> T'" "k + 2 < 2 ^ 64"
    and "TrimSpace n \<noteq> []" "TrimSpace auth \<noteq> []" "usable env m turns" "now' < now + mm_ttl m"
    and "Bind_turns env n turns auth now m = (s, m2)"
  shows "\<exists>r. fst (Match_turns env n (turns @ later) now' m2) = Some r \<and>
    length (fingerprints_of env (mm_maxTurns m) turns) \<le> mt_PrefixLength r \<and>
    mt_PrefixLength r \<le> length (fingerprints_of env (mm_maxTurns m) (turns @ later)) \<and>
    (mt_PrefixLength r = length (fingerprints_of env (mm_maxTurns m) turns) \<longrightarrow>
       mt_AuthID r = TrimSpace auth \<and> mt_SessionID r = s)"
proof -
  let ?fps = "fingerprints_of env (mm_maxTurns m) turns" and ?low = "minimumAffinityPrefixLength turns"
  let ?all = "fingerprints_of env (mm_maxTurns m) (turns @ later)"
  have b: "binds env 1 n ?fps ?low (TrimSpace auth) s now m m2"
    using Bind_turns_binds[OF assms(1,6-8), of now] assms(10) by simp
  have num: "numbered k m" using assms(1,5) by (simp add: run_ok_def)
  obtain p where p: "p \<in> set (mm_lru m2)" "matcher_ok env m2" "mm_maxTurns m2 = mm_maxTurns m"
    "lg_namespace (the_group m2 p) = n" "lg_authID (the_group m2 p) = TrimSpace auth" "lg_sessionID (the_group m2 p) = s"
    "lg_fingerprints (the_group m2 p) = ?fps" "lg_minPrefixLength (the_group m2 p) = ?low"
    "lg_expiresAt (the_group m2 p) = now + mm_ttl m"
    and newest: "\<And>q. q \<in> set (mm_lru m2) \<Longrightarrow> q \<noteq> p \<Longrightarrow> lg_lastAccessNumber (the_group m2 q) < lg_lastAccessNumber (the_group m2 p)"
    by (rule binds_newest[OF b num assms(5)]) blast
  have n: "n \<noteq> []" using assms(6) TrimSpace_Nil by blast
  have low: "0 < ?low" "?low \<le> length ?fps" using assms(8) by (simp_all add: usable_def)
  have low': "minimumAffinityPrefixLength (turns @ later) = ?low"
    using minimum_append[OF low(1)] .
  have pre: "take (length ?fps) ?all = ?fps" "length ?fps \<le> length ?all"
    by (auto simp: fingerprints_of_def take_map[symmetric] min_def)
  have run: "run_ok env T' (k + 2) m2"
  proof -
    have run': "run_ok env T' k m" by (rule run_ok_mono[OF assms(1,3) order.refl])
    show ?thesis using exec_ok[OF run', of "OpBind n turns auth" now] assms(4,10) by simp
  qed
  obtain r where r: "longest_shared m2 n ?all now' ?low r" and m: "fst (Match_turns env n (turns @ later) now' m2) = match_of m2 r"
    using match_run[OF run assms(2) order.refl assms(4) n, of now'] by (auto simp: low' p(3))
  have mine: "shares_prefix m2 n ?all now' (length ?fps) p"
    using p assms(9) low(2) pre by (simp add: shares_prefix_def eligible_group_def del: fingerprints_length)
  then obtain q len where q: "r = Some (q, len)"
    using r low(2) pre(2) by (cases r) (auto simp: longest_shared_def)
  have l: "len \<le> length ?all" "shares_prefix m2 n ?all now' len q" "length ?fps \<le> len"
    "length ?fps = len \<Longrightarrow> lg_lastAccessNumber (the_group m2 p) \<le> lg_lastAccessNumber (the_group m2 q)"
    using r mine low(2) pre(2) unfolding q longest_shared_def option.case prod.case by blast+
  have "q = p" if "length ?fps = len"
  proof (rule ccontr)
    assume "q \<noteq> p"
    moreover have "q \<in> set (mm_lru m2)" using l(2) by (simp add: shares_prefix_def)
    ultimately show False using newest[of q] l(4)[OF that] by simp
  qed
  then show ?thesis using m l(1,3) p(5,6) by (auto simp: q match_of_def)
qed

text \<open>The session identity that a binding answers.\<close>

lemma longest_removed:
  assumes "lcp_linked m" "\<not> now < lg_expiresAt (the_group m e)"
  shows "longest_shared (removeGroupLocked e m) n fps now low r = longest_shared m n fps now low r"
proof -
  have "shares_prefix (removeGroupLocked e m) n fps now len p = shares_prefix m n fps now len p" for len p
    using assms by (auto simp: shares_prefix_def eligible_group_def lcp_linked_def)
  then show ?thesis unfolding longest_shared_def remove_config by presburger
qed

lemma bind_session_run:
  fixes now :: go_time
  assumes "run_ok env T k m" "collision_free env T'" "T \<subseteq> T'" "set turns \<subseteq> T'"
    and "TrimSpace n \<noteq> []" "TrimSpace auth \<noteq> []" "usable env m turns"
    and fps: "fps = fingerprints_of env (mm_maxTurns m) turns" and low: "low = minimumAffinityPrefixLength turns"
    and s: "s = fst (Bind_turns env n turns auth now m)"
  shows "(\<exists>e \<in> set (mm_lru m). lg_key (the_group m e) = sequenceKey env fps \<and> lg_namespace (the_group m e) = n \<and>
      now < lg_expiresAt (the_group m e) \<and> s = lg_sessionID (the_group m e)) \<or>
    (\<exists>r. longest_shared m n fps now low r \<and>
       s = (case r of None \<Rightarrow> newLCPSessionID env n (rollingPrefixKeys env fps ! (low - 1))
                    | Some (p, len) \<Rightarrow> lg_sessionID (the_group m p)))"
proof -
  let ?m = "prepareLocked now m"
  have ok: "matcher_ok env m" using assms(1) by (simp add: run_ok_def)
  have prep: "step_keeps env 0 m ?m" by (rule step_keeps_prepare[OF ok])
  have run: "run_ok env T k ?m" using run_ok_keeps[OF prep assms(1)] by simp
  then have okp: "matcher_ok env ?m" by (simp add: run_ok_def)
  then have l: "lcp_linked ?m" by (simp add: matcher_ok_def)
  have mt: "mm_maxTurns ?m = mm_maxTurns m" and sub: "set (mm_lru ?m) \<subseteq> set (mm_lru m)" using prep by (simp_all add: step_keeps_def)
  have u: "0 < low" "low \<le> length fps" "length fps \<le> mm_maxTurns ?m" using assms(7) mt by (simp_all add: usable_def fps low)
  have e: "s = fst (bindLocked env n fps low (TrimSpace auth) now ?m)"
    using assms(5-7) by (simp add: s fps low Bind_turns_eq[OF ok])
  show ?thesis
  proof (cases rule: bindLocked_spec[OF okp u, where n = n and auth = "TrimSpace auth" and now = now])
    case (1 e')
    have e': "e' \<in> set (mm_lru ?m)" "lg_namespace (the_group ?m e') = n" "lg_key (the_group ?m e') = sequenceKey env fps"
      using 1(1) lcp_linked_reg[OF l] by blast+
    have g: "the_group ?m e' = the_group m e'" by (rule shares_prepare(2)[OF ok e'(1)])
    have "e' \<in> set (mm_lru m)" using e'(1) sub by blast
    then show ?thesis using e'(2,3) 1(2,3) e by (auto simp: g)
  next
    case (2 m0)
    have exp: "m0 = ?m \<or> (\<exists>e. m0 = removeGroupLocked e ?m \<and> e \<in> set (mm_lru ?m) \<and> \<not> now < lg_expiresAt (the_group ?m e))"
      using 2(1,2) lcp_linked_reg[OF l] by (auto split: option.splits)
    then have run0: "run_ok env T k m0"
      using run run_ok_keeps[OF step_keeps_remove[OF okp] run] by auto
    have same: "the_group m0 = the_group ?m" "mm_maxTurns m0 = mm_maxTurns m" using exp mt by auto
    have long: "longest_shared m0 n fps now low r = longest_shared ?m n fps now low r" for r
      using exp longest_removed[OF l] by auto
    have "min_fits m0 n fps low"
      using run_min_fits[OF run0 assms(2-4)] u(1) by (simp add: fps low same(2))
    from matchLocked_spec[OF _ this u(1)] run0 obtain r where r: "longest_shared m0 n fps now low r"
      "matchLocked env n fps low now m0 = (case r of None \<Rightarrow> (None, m0) | Some (p, len) \<Rightarrow>
         (Some \<lparr>mt_AuthID = lg_authID (the_group m0 p), mt_SessionID = lg_sessionID (the_group m0 p), mt_PrefixLength = len\<rparr>,
          touchGroup p now m0))"
      unfolding run_ok_def by blast
    have lm: "longest_shared m n fps now low r" "match_of ?m r = match_of m r"
      using longest_prepare[OF ok] r(1) long by blast+
    have m: "fst (matchLocked env n fps low now m0) = match_of m r"
      unfolding r(2) lm(2)[symmetric] by (cases r) (auto simp: match_of_def same(1))
    have "s = (case r of None \<Rightarrow> newLCPSessionID env n (rollingPrefixKeys env fps ! (low - 1))
                    | Some (p, len) \<Rightarrow> lg_sessionID (the_group m p))"
    proof (cases r)
      case None
      then show ?thesis using e 2(3) m by (simp add: session_after_def match_of_def)
    next
      case (Some x)
      obtain p len where x: "x = (p, len)" by (cases x)
      have "p \<in> set (mm_lru m)" using lm(1) by (simp add: longest_shared_def Some x shares_prefix_def)
      then have "lg_sessionID (the_group m p) \<noteq> []" using assms(1) by (simp add: run_ok_def from_turns_def bound_from_def)
      then show ?thesis using e 2(3) m by (simp add: session_after_def match_of_def Some x)
    qed
    then show ?thesis using lm(1) by blast
  qed
qed

section \<open>Removing a credential\<close>

lemma match_member:
  assumes "matcher_ok env m" "fst (Match_turns env n turns now m) = Some r"
  shows "\<exists>p \<in> set (mm_lru m). lg_authID (the_group m p) = mt_AuthID r"
proof -
  let ?m = "prepareLocked now m"
  have prep: "step_keeps env 0 m ?m" by (rule step_keeps_prepare[OF assms(1)])
  then have okp: "matcher_ok env ?m" by (simp add: step_keeps_def)
  obtain fps low where f: "fst (matchLocked env n fps low now ?m) = Some r"
    using assms(2) by (auto simp: Match_turns_eq[OF assms(1)] split: if_splits)
  show ?thesis
    by (cases rule: matchLocked_cases[OF okp, where n = n and fps = fps and low = low and now = now])
      (use f prep in \<open>auto simp: step_keeps_def same_group_def\<close>)
qed

section \<open>Properties\<close>

text \<open>C22. Whatever operations a prefix matcher serves, its maps, its prefix index and its list of recency describe the
  same groups, the counters count them, every group holds a valid prepared sequence, and the limits on
  groups and prefixes hold after every operation.\<close>

theorem matcher_invariant:
  "matcher_ok env (matcher_run env ops (NewMerklePrefixMatcherWithConfig ttl maxTurns maxGroups maxPrefixes))"
  using matcher_run_new[of env ops ttl maxTurns maxGroups maxPrefixes] by (simp add: run_ok_def)

text \<open>C20. A match answers with the longest known prefix: the binary search over the prefix index finds the live group
  of the namespace that shares the most leading turns with the conversation, the most recently used one among
  equals, and finds nothing only when no live group shares a prefix, provided that SHA-256 does not collide on the turns.\<close>

theorem match_longest_prefix:
  assumes "m = matcher_run env ops (NewMerklePrefixMatcherWithConfig ttl maxTurns maxGroups maxPrefixes)"
    and "collision_free env (set turns \<union> set (run_turns ops))" "n \<noteq> []"
  shows "\<exists>r. longest_shared m n (fingerprints_of env (mm_maxTurns m) turns) now (minimumAffinityPrefixLength turns) r \<and>
    fst (Match_turns env n turns now m) = match_of m r"
  unfolding assms(1) by (rule match_run[OF matcher_run_new assms(2) _ _ assms(3)]) auto

text \<open>C21. A binding is found again: until it expires, the conversation and its continuations match at least the bound
  turns, and the answer is the bound credential and the session identity that the binding returned unless another
  conversation shares more turns; it holds as long as the 64-bit access counter cannot have wrapped.\<close>

theorem bind_then_match:
  assumes "m = matcher_run env ops (NewMerklePrefixMatcherWithConfig ttl maxTurns maxGroups maxPrefixes)"
    and "collision_free env (set (turns @ later) \<union> set (run_turns ops))" "2 * length ops + 2 < 2 ^ 64"
    and "TrimSpace n \<noteq> []" "TrimSpace auth \<noteq> []" "usable env m turns" "now' < now + mm_ttl m"
    and "Bind_turns env n turns auth now m = (s, m2)"
  shows "\<exists>r. fst (Match_turns env n (turns @ later) now' m2) = Some r \<and>
    length (fingerprints_of env (mm_maxTurns m) turns) \<le> mt_PrefixLength r \<and>
    mt_PrefixLength r \<le> length (fingerprints_of env (mm_maxTurns m) (turns @ later)) \<and>
    (mt_PrefixLength r = length (fingerprints_of env (mm_maxTurns m) turns) \<longrightarrow>
       mt_AuthID r = TrimSpace auth \<and> mt_SessionID r = s)"
  by (rule match_bound[OF matcher_run_new[of env ops ttl maxTurns maxGroups maxPrefixes, folded assms(1)] assms(2) _ _ assms(3-8)]) auto

text \<open>A conversation keeps its session: the identity that a binding returns is that of a live binding under the same
  sequence key, or that of the conversation with the longest shared prefix, and only without either a new one
  made of the namespace and the first prefix.\<close>

theorem bind_session:
  assumes "m = matcher_run env ops (NewMerklePrefixMatcherWithConfig ttl maxTurns maxGroups maxPrefixes)"
    and "collision_free env (set turns \<union> set (run_turns ops))"
    and "TrimSpace n \<noteq> []" "TrimSpace auth \<noteq> []" "usable env m turns"
    and "fps = fingerprints_of env (mm_maxTurns m) turns" "low = minimumAffinityPrefixLength turns"
    and "s = fst (Bind_turns env n turns auth now m)"
  shows "(\<exists>e \<in> set (mm_lru m). lg_key (the_group m e) = sequenceKey env fps \<and> lg_namespace (the_group m e) = n \<and>
      now < lg_expiresAt (the_group m e) \<and> s = lg_sessionID (the_group m e)) \<or>
    (\<exists>r. longest_shared m n fps now low r \<and>
       s = (case r of None \<Rightarrow> newLCPSessionID env n (rollingPrefixKeys env fps ! (low - 1))
                    | Some (p, len) \<Rightarrow> lg_sessionID (the_group m p)))"
  by (rule bind_session_run[OF matcher_run_new[of env ops ttl maxTurns maxGroups maxPrefixes, folded assms(1)] assms(2) _ _ assms(3-8)]) auto

text \<open>Invalidating a credential removes exactly its groups: no conversation matches it any more, and the other
  groups keep their contents and their order.\<close>

theorem invalidated_not_matched:
  assumes "m = matcher_run env ops (NewMerklePrefixMatcherWithConfig ttl maxTurns maxGroups maxPrefixes)" "auth \<noteq> []"
  shows "(case fst (Match_turns env n turns now (matcher_InvalidateAuth auth m)) of None \<Rightarrow> True | Some r \<Rightarrow> mt_AuthID r \<noteq> auth) \<and>
    mm_lru (matcher_InvalidateAuth auth m) = filter (\<lambda>p. lg_authID (the_group m p) \<noteq> auth) (mm_lru m) \<and>
    the_group (matcher_InvalidateAuth auth m) = the_group m"
proof -
  have ok: "matcher_ok env m" using matcher_run_new[of env ops ttl maxTurns maxGroups maxPrefixes] by (simp add: assms(1) run_ok_def)
  have inv: "matcher_ok env (matcher_InvalidateAuth auth m)" "shrinks (\<lambda>p. lg_authID (the_group m p) = auth) m (matcher_InvalidateAuth auth m)"
    using removeWhere_ok[OF ok, of "\<lambda>g. lg_authID g = auth"] assms(2) by (simp_all add: matcher_InvalidateAuth_def)
  then have "mm_lru (matcher_InvalidateAuth auth m) = filter (\<lambda>p. lg_authID (the_group m p) \<noteq> auth) (mm_lru m)"
    and "the_group (matcher_InvalidateAuth auth m) = the_group m"
    by (simp_all add: shrinks_def)
  then show ?thesis using match_member[OF inv(1)] by (auto split: option.split)
qed

text \<open>Fingerprints tell turns apart: turns with one fingerprint have the same canonical role and, unless they are
  system turns, the same normalised parts as far as they are hashed (kind, MIME type, size, digest and value
  or sample), provided that SHA-256 does not collide on the two encodings.\<close>

theorem fingerprint_identifies_turn:
  assumes "no_collision env (fingerprintInput env t) (fingerprintInput env u)"
    and "FastTurnFingerprint env t = FastTurnFingerprint env u"
  shows "canonicalRole (ct_Role t) = canonicalRole (ct_Role u) \<and>
    (canonicalRole (ct_Role t) = ''system'' \<or>
     map (partFields (canonicalRole (ct_Role t))) (ct_Parts (normalizeCanonicalTurn env t)) =
     map (partFields (canonicalRole (ct_Role t))) (ct_Parts (normalizeCanonicalTurn env u)))"
proof -
  let ?r = "canonicalRole (ct_Role t)"
  have e: "?r = canonicalRole (ct_Role u)"
    "concat (map (partFields ?r) (ct_Parts (normalizeCanonicalTurn env t))) =
     concat (map (partFields ?r) (ct_Parts (normalizeCanonicalTurn env u)))"
    using fingerprint_fields[OF assms] by (auto simp: turnFields_def)
  show ?thesis
  proof (cases "?r = ''system''")
    case False
    then have "\<forall>p \<in> set ps. length (partFields ?r p) = Suc 4" for ps by (simp add: partFields_length)
    from concat_same_lengths[OF this this e(2)] e(1) show ?thesis by blast
  qed (use e(1) in blast)
qed

section \<open>Witnesses\<close>

text \<open>Concrete runs: a hash that is the identity, and short user turns.\<close>

definition wit_env :: turn_env where
  "wit_env = \<lparr>tn_sha256 = (\<lambda>x. x), tn_think = (\<lambda>x. x), tn_iso8601 = (\<lambda>x. x), tn_uuid = (\<lambda>x. x)\<rparr>"

definition wit_turn :: "string \<Rightarrow> CanonicalTurn" where
  "wit_turn value = \<lparr>ct_Role = ''user'', ct_Parts = [\<lparr>cp_Kind = ''text'', cp_MIME = [], cp_Value = value, cp_Digest = [],
     cp_OriginalSize = 0, cp_Sampled = False\<rparr>]\<rparr>"

definition wit_matcher :: MerklePrefixMatcher where
  "wit_matcher = matcher_run wit_env [(0, OpBind ''n'' [wit_turn ''a''] ''x'')] (NewMerklePrefixMatcherWithConfig 100 4 4 16)"

definition wit_new :: MerklePrefixMatcher where
  "wit_new = matcher_run wit_env [] (NewMerklePrefixMatcherWithConfig 100 4 4 16)"

lemma wit_collisions: "collision_free wit_env T"
  by (simp add: collision_free_def no_collision_def wit_env_def)

lemma wit_new_fields: "mm_ttl wit_new = 100" "mm_maxTurns wit_new = 4" "mm_lru wit_new = []"
  by (simp_all add: wit_new_def matcher_run_def NewMerklePrefixMatcherWithConfig_def Let_def)

lemma wit_minimum: "minimumAffinityPrefixLength [wit_turn ''a'', wit_turn ''b''] = 1"
  by code_simp

lemma wit_usable: "usable wit_env wit_new [wit_turn ''a'', wit_turn ''b'']"
  unfolding usable_def wit_minimum by (simp add: wit_new_fields)

lemma wit_names: "TrimSpace ''n'' = ''n''" "TrimSpace ''y'' = ''y''"
  by code_simp+

theorem fingerprint_identifies_turn_witness:
  "canonicalRole ''model'' = canonicalRole '' Assistant '' \<and>
   map (partFields ''assistant'') (ct_Parts (normalizeCanonicalTurn wit_env ((wit_turn ''a'')\<lparr>ct_Role := ''model''\<rparr>))) =
   map (partFields ''assistant'') (ct_Parts (normalizeCanonicalTurn wit_env ((wit_turn ''a'')\<lparr>ct_Role := '' Assistant ''\<rparr>)))"
proof -
  let ?t = "(wit_turn ''a'')\<lparr>ct_Role := ''model''\<rparr>" and ?u = "(wit_turn ''a'')\<lparr>ct_Role := '' Assistant ''\<rparr>"
  have r: "canonicalRole ''model'' = ''assistant''" "canonicalRole '' Assistant '' = ''assistant''" by code_simp+
  have "no_collision wit_env (fingerprintInput wit_env ?t) (fingerprintInput wit_env ?u)"
    by (simp add: no_collision_def wit_env_def)
  moreover have "normalizeCanonicalTurn wit_env ?t = normalizeCanonicalTurn wit_env ?u"
    by (simp add: normalizeCanonicalTurn_def r)
  then have "FastTurnFingerprint wit_env ?t = FastTurnFingerprint wit_env ?u" by (simp add: FastTurnFingerprint_def)
  ultimately show ?thesis using fingerprint_identifies_turn[of wit_env ?t ?u] r by simp
qed

theorem match_longest_prefix_witness:
  "\<exists>r. longest_shared wit_matcher ''n'' (fingerprints_of wit_env (mm_maxTurns wit_matcher) [wit_turn ''a'', wit_turn ''b'']) 5
      (minimumAffinityPrefixLength [wit_turn ''a'', wit_turn ''b'']) r \<and>
    fst (Match_turns wit_env ''n'' [wit_turn ''a'', wit_turn ''b''] 5 wit_matcher) = match_of wit_matcher r"
  by (rule match_longest_prefix[OF wit_matcher_def wit_collisions]) simp

theorem bind_then_match_witness:
  "\<exists>r. fst (Match_turns wit_env ''n'' [wit_turn ''a'', wit_turn ''b''] 50
      (snd (Bind_turns wit_env ''n'' [wit_turn ''a'', wit_turn ''b''] ''y'' 7 wit_new))) = Some r \<and> mt_AuthID r = ''y''"
proof -
  define m2 where "m2 = snd (Bind_turns wit_env ''n'' [wit_turn ''a'', wit_turn ''b''] ''y'' 7 wit_new)"
  have b: "Bind_turns wit_env ''n'' [wit_turn ''a'', wit_turn ''b''] ''y'' 7 wit_new =
      (fst (Bind_turns wit_env ''n'' [wit_turn ''a'', wit_turn ''b''] ''y'' 7 wit_new), m2)" by (simp add: m2_def)
  have "\<exists>r. fst (Match_turns wit_env ''n'' ([wit_turn ''a'', wit_turn ''b''] @ []) 50 m2) = Some r \<and>
    length (fingerprints_of wit_env (mm_maxTurns wit_new) [wit_turn ''a'', wit_turn ''b'']) \<le> mt_PrefixLength r \<and>
    mt_PrefixLength r \<le> length (fingerprints_of wit_env (mm_maxTurns wit_new) ([wit_turn ''a'', wit_turn ''b''] @ [])) \<and>
    (mt_PrefixLength r = length (fingerprints_of wit_env (mm_maxTurns wit_new) [wit_turn ''a'', wit_turn ''b'']) \<longrightarrow>
       mt_AuthID r = TrimSpace ''y'' \<and>
       mt_SessionID r = fst (Bind_turns wit_env ''n'' [wit_turn ''a'', wit_turn ''b''] ''y'' 7 wit_new))"
    by (rule bind_then_match[OF wit_new_def wit_collisions _ _ _ wit_usable _ b]) (simp_all add: wit_names wit_new_fields)
  then show ?thesis unfolding m2_def[symmetric] wit_names by auto
qed

theorem bind_session_witness:
  "fst (Bind_turns wit_env ''n'' [wit_turn ''a'', wit_turn ''b''] ''y'' 7 wit_new) =
     newLCPSessionID wit_env ''n'' (rollingPrefixKeys wit_env (fingerprints_of wit_env 4 [wit_turn ''a'', wit_turn ''b'']) ! 0)"
proof -
  have "(\<exists>e \<in> set (mm_lru wit_new). lg_key (the_group wit_new e) =
        sequenceKey wit_env (fingerprints_of wit_env (mm_maxTurns wit_new) [wit_turn ''a'', wit_turn ''b'']) \<and>
      lg_namespace (the_group wit_new e) = ''n'' \<and> 7 < lg_expiresAt (the_group wit_new e) \<and>
      fst (Bind_turns wit_env ''n'' [wit_turn ''a'', wit_turn ''b''] ''y'' 7 wit_new) = lg_sessionID (the_group wit_new e)) \<or>
    (\<exists>r. longest_shared wit_new ''n'' (fingerprints_of wit_env (mm_maxTurns wit_new) [wit_turn ''a'', wit_turn ''b'']) 7
         (minimumAffinityPrefixLength [wit_turn ''a'', wit_turn ''b'']) r \<and>
       fst (Bind_turns wit_env ''n'' [wit_turn ''a'', wit_turn ''b''] ''y'' 7 wit_new) =
         (case r of None \<Rightarrow> newLCPSessionID wit_env ''n'' (rollingPrefixKeys wit_env
              (fingerprints_of wit_env (mm_maxTurns wit_new) [wit_turn ''a'', wit_turn ''b'']) !
              (minimumAffinityPrefixLength [wit_turn ''a'', wit_turn ''b''] - 1))
          | Some (p, len) \<Rightarrow> lg_sessionID (the_group wit_new p)))"
    by (rule bind_session[OF wit_new_def wit_collisions _ _ wit_usable refl refl refl]) (simp_all add: wit_names)
  then show ?thesis
    unfolding wit_minimum wit_new_fields by (auto simp: longest_shared_def shares_prefix_def wit_new_fields split: option.splits)
qed

theorem invalidated_not_matched_witness:
  "(case fst (Match_turns wit_env ''n'' [wit_turn ''a'', wit_turn ''b''] 5 (matcher_InvalidateAuth ''x'' wit_matcher)) of
     None \<Rightarrow> True | Some r \<Rightarrow> mt_AuthID r \<noteq> ''x'') \<and>
   mm_lru (matcher_InvalidateAuth ''x'' wit_matcher) = filter (\<lambda>p. lg_authID (the_group wit_matcher p) \<noteq> ''x'') (mm_lru wit_matcher)"
  using invalidated_not_matched[OF wit_matcher_def, of "''x''" "''n''" "[wit_turn ''a'', wit_turn ''b'']" 5] by simp

end
