(* ===== verification/Gjson.thy ===== *)
theory Gjson
  imports Prelude
begin

text \<open>
  The package gjson as the code uses it, a parameter of the models that read request bodies: a record of
  the functions that are called, over an abstract type of results. \<open>gj_ForEach\<close> is the list of the values
  that \<open>ForEach\<close> visits, \<open>gj_Array\<close> that of \<open>Array\<close>, and \<open>gj_Raw\<close> the text of a result in its document.
\<close>

datatype gjson_type = TNull | TFalse | TNumber | TString | TTrue | TJSON

record 'r gjson =
  gj_Parse :: "string \<Rightarrow> 'r"
  gj_GetBytes :: "string \<Rightarrow> string \<Rightarrow> 'r"
  gj_Get :: "'r \<Rightarrow> string \<Rightarrow> 'r"
  gj_String :: "'r \<Rightarrow> string"
  gj_Raw :: "'r \<Rightarrow> string"
  gj_Type :: "'r \<Rightarrow> gjson_type"
  gj_Exists :: "'r \<Rightarrow> bool"
  gj_isArray :: "'r \<Rightarrow> bool"
  gj_Array :: "'r \<Rightarrow> 'r list"
  gj_ForEach :: "'r \<Rightarrow> 'r list"

definition gj_isString :: "'r gjson \<Rightarrow> 'r \<Rightarrow> bool" where
  "gj_isString G r \<longleftrightarrow> gj_Type G r = TString"

text \<open>A \<open>ForEach\<close> loop whose body may stop it.\<close>

fun for_each :: "('a \<Rightarrow> 's \<Rightarrow> 's \<times> bool) \<Rightarrow> 'a list \<Rightarrow> 's \<Rightarrow> 's" where
  "for_each body [] s = s"
| "for_each body (x # xs) s = (let (s', continue) = body x s in if continue then for_each body xs s' else s')"

text \<open>
  What the package documents about nested results: the member of an object under a plain name and the
  elements of an array lie inside its text.
\<close>

definition gjson_nested :: "'r gjson \<Rightarrow> bool" where
  "gjson_nested G \<longleftrightarrow>
     (\<forall>r. gj_Type G r = TJSON \<longrightarrow>
        (\<forall>name \<in> {''content'', ''parts'', ''steps''}. gj_Exists G (gj_Get G r name) \<longrightarrow>
           length (gj_Raw G (gj_Get G r name)) < length (gj_Raw G r)) \<and>
        (\<forall>c \<in> set (gj_ForEach G r). length (gj_Raw G c) < length (gj_Raw G r)))"

text \<open>The text members of a result by their path.\<close>

definition gj_text :: "'r gjson \<Rightarrow> 'r \<Rightarrow> string \<Rightarrow> string" where
  "gj_text G r path = gj_String G (gj_Get G r path)"

definition gj_has :: "'r gjson \<Rightarrow> 'r \<Rightarrow> string \<Rightarrow> bool" where
  "gj_has G r path = gj_Exists G (gj_Get G r path)"

definition nestedRequest :: "'r gjson \<Rightarrow> 'r \<Rightarrow> 'r option" where
  "nestedRequest G doc =
     (let req = gj_Get G doc ''request''
      in if gj_Exists G req \<and> \<not> gj_Exists G (gj_Get G doc ''contents'') then Some req else None)"

end
