(* ===== verification/TurnExtraction.thy ===== *)
theory TurnExtraction
  imports Turns Gjson "HOL-Library.Monad_Syntax"
begin

text \<open>
  \<open>ExtractCanonicalTurns\<close> of \<open>sdk/aps/session/lcp.go\<close>: the turns of a request body in the five supported
  protocols. The package gjson is a parameter, and so is the canonical form that \<open>json.Unmarshal\<close> and
  \<open>json.Marshal\<close> give a JSON text (\<open>xt_compact\<close>, the text itself when it cannot be decoded).

  The two functions that recurse over nested values are partial functions: a call that does not return is
  \<open>None\<close>, and so is the call of everything that waits for it. That the extraction returns is a theorem
  (\<open>turn_extraction_ends\<close>), from what the package documents about nested values.
\<close>

record 'r extract_env =
  xt_turn :: turn_env
  xt_gjson :: "'r gjson"
  xt_compact :: "string \<Rightarrow> string"

abbreviation xt_text :: "'r extract_env \<Rightarrow> 'r \<Rightarrow> string \<Rightarrow> string" where
  "xt_text E r path \<equiv> gj_text (xt_gjson E) r path"

abbreviation xt_has :: "'r extract_env \<Rightarrow> 'r \<Rightarrow> string \<Rightarrow> bool" where
  "xt_has E r path \<equiv> gj_has (xt_gjson E) r path"

abbreviation xt_get :: "'r extract_env \<Rightarrow> 'r \<Rightarrow> string \<Rightarrow> 'r" where
  "xt_get E r path \<equiv> gj_Get (xt_gjson E) r path"

section \<open>Parts\<close>

definition computeHexSHA256 :: "'r extract_env \<Rightarrow> string \<Rightarrow> string" where
  "computeHexSHA256 E text = hex_encode (tn_sha256 (xt_turn E) text)"

definition plain_part :: "string \<Rightarrow> string \<Rightarrow> CanonicalPart" where
  "plain_part kind value =
     \<lparr>cp_Kind = kind, cp_MIME = [], cp_Value = value, cp_Digest = [], cp_OriginalSize = int (length value), cp_Sampled = False\<rparr>"

definition sampled_part :: "'r extract_env \<Rightarrow> string \<Rightarrow> string \<Rightarrow> CanonicalPart" where
  "sampled_part E kind text =
     \<lparr>cp_Kind = kind, cp_MIME = [], cp_Value = sparseSample text sparseFingerprintBytes, cp_Digest = computeHexSHA256 E text,
      cp_OriginalSize = int (length text), cp_Sampled = True\<rparr>"

definition canonicalTextPart :: "'r extract_env \<Rightarrow> 'r \<Rightarrow> CanonicalPart" where
  "canonicalTextPart E value =
     (let text = normalizeText (xt_turn E) (gj_String (xt_gjson E) value) False
      in if length text > largePartThreshold then sampled_part E ''text'' text else plain_part ''text'' text)"

definition canonicalResourcePart :: "'r extract_env \<Rightarrow> 'r \<Rightarrow> CanonicalPart" where
  "canonicalResourcePart E value = (canonicalTextPart E value)\<lparr>cp_Kind := ''resource''\<rparr>"

definition canonicalJSONPart :: "'r extract_env \<Rightarrow> string \<Rightarrow> 'r \<Rightarrow> CanonicalPart" where
  "canonicalJSONPart E kind value =
     (let raw = gj_Raw (xt_gjson E) value
      in if length raw > largePartThreshold then sampled_part E kind raw else plain_part kind (xt_compact E raw))"

definition lower_type :: "'r extract_env \<Rightarrow> 'r \<Rightarrow> string" where
  "lower_type E value = ToLower (TrimSpace (xt_text E value ''type''))"

definition isReasoningJSONPart :: "'r extract_env \<Rightarrow> 'r \<Rightarrow> bool" where
  "isReasoningJSONPart E value =
     (if gj_Type (xt_gjson E) value \<noteq> TJSON \<or> gj_isArray (xt_gjson E) value then False
      else let typ = lower_type E value
           in typ \<in> {''thinking'', ''reasoning'', ''thought''} \<or> Contains typ ''reasoning'' \<or>
              gj_Type (xt_gjson E) (xt_get E value ''thought'') = TTrue)"

definition isToolPartType :: "string \<Rightarrow> bool" where
  "isToolPartType value \<longleftrightarrow> Contains value ''tool'' \<or> Contains value ''function_call'' \<or> value = ''function''"

definition geminiToolPartKind :: "'r extract_env \<Rightarrow> 'r \<Rightarrow> string" where
  "geminiToolPartKind E value =
     (if xt_has E value ''functionCall'' \<or> xt_has E value ''function_call'' then ''tool:function_call''
      else if xt_has E value ''functionResponse'' \<or> xt_has E value ''function_response'' then ''tool:function_response''
      else [])"

text \<open>An object without text, content or parts.\<close>

definition objectPart :: "'r extract_env \<Rightarrow> 'r \<Rightarrow> CanonicalPart" where
  "objectPart E value =
     (let typ = lower_type E value; kind = geminiToolPartKind E value
      in if typ \<in> {''input_text'', ''output_text'', ''text''} \<and> xt_has E value ''text''
         then canonicalTextPart E (xt_get E value ''text'')
         else if isToolPartType typ then canonicalJSONPart E (''tool:'' @ typ) value
         else if kind \<noteq> [] then canonicalJSONPart E kind value
         else if list_ex (xt_has E value) [''image_url'', ''inlineData'', ''inline_data'', ''fileData'', ''file_data'', ''source'']
         then canonicalJSONPart E ''media'' value
         else canonicalJSONPart E ''json'' value)"

text \<open>A \<open>ForEach\<close> loop whose body may stop it, or not return.\<close>

fun for_each_opt :: "('a \<Rightarrow> 's \<Rightarrow> ('s \<times> bool) option) \<Rightarrow> 'a list \<Rightarrow> 's \<Rightarrow> 's option" where
  "for_each_opt body [] s = Some s"
| "for_each_opt body (x # xs) s =
     do { (s', continue) \<leftarrow> body x s; if continue then for_each_opt body xs s' else Some s' }"

lemma for_each_opt_mono [partial_function_mono]:
  assumes "\<And>x s. mono_option (\<lambda>f. body f x s)"
  shows "mono_option (\<lambda>f. for_each_opt (body f) xs s)"
proof (induction xs arbitrary: s)
  case (Cons x xs)
  have "mono_option (\<lambda>f. case r of (s', continue) \<Rightarrow> if continue then for_each_opt (body f) xs s' else Some s')" for r
    by (cases r) (simp add: Cons.IH option.const_mono if_mono)
  then show ?case by (simp add: bind_mono assms)
qed (simp add: option.const_mono)

text \<open>The elements of an array, until the turn has its parts; the rest is counted.\<close>

definition arrayPart ::
  "('r \<Rightarrow> CanonicalPart list option) \<Rightarrow> 'r \<Rightarrow> CanonicalPart list \<times> int \<Rightarrow> ((CanonicalPart list \<times> int) \<times> bool) option" where
  "arrayPart parts_of child s =
     (let (parts, dropped) = s
      in if length parts \<ge> maxCanonicalPartsPerTurn then Some ((parts, dropped + 1), True)
         else do { childParts \<leftarrow> parts_of child; Some ((limitCanonicalParts parts childParts, dropped), True) })"

definition arrayParts :: "('r \<Rightarrow> CanonicalPart list option) \<Rightarrow> 'r list \<Rightarrow> CanonicalPart list option" where
  "arrayParts parts_of children =
     do { (parts, dropped) \<leftarrow> for_each_opt (arrayPart parts_of) children ([], 0);
          Some (if dropped > 0 then limitCanonicalPartsCount parts dropped else parts) }"

lemma arrayParts_mono [partial_function_mono]:
  assumes "\<And>c. mono_option (\<lambda>f. p f c)"
  shows "mono_option (\<lambda>f. arrayParts (p f) cs)"
proof -
  have "mono_option (\<lambda>f. arrayPart (p f) c s)" for c s
    by (cases s) (simp add: arrayPart_def if_mono option.const_mono bind_mono assms)
  then show ?thesis unfolding arrayParts_def by (intro bind_mono for_each_opt_mono option.const_mono)
qed

partial_function (option) canonicalPartsFromJSON :: "'r extract_env \<Rightarrow> 'r \<Rightarrow> CanonicalPart list option" where
  "canonicalPartsFromJSON E value =
     (if \<not> gj_Exists (xt_gjson E) value then Some []
      else case gj_Type (xt_gjson E) value of
             TString \<Rightarrow> Some [canonicalTextPart E value]
           | TNumber \<Rightarrow> Some [plain_part ''value'' (gj_Raw (xt_gjson E) value)]
           | TTrue \<Rightarrow> Some [plain_part ''value'' (gj_Raw (xt_gjson E) value)]
           | TFalse \<Rightarrow> Some [plain_part ''value'' (gj_Raw (xt_gjson E) value)]
           | TNull \<Rightarrow> Some [canonicalJSONPart E ''value'' value]
           | TJSON \<Rightarrow>
               if isReasoningJSONPart E value then Some []
               else if gj_isArray (xt_gjson E) value
               then arrayParts (canonicalPartsFromJSON E) (gj_ForEach (xt_gjson E) value)
               else if gj_Type (xt_gjson E) (xt_get E value ''text'') = TString
               then Some [canonicalTextPart E (xt_get E value ''text'')]
               else if xt_has E value ''content'' then canonicalPartsFromJSON E (xt_get E value ''content'')
               else if xt_has E value ''parts'' then canonicalPartsFromJSON E (xt_get E value ''parts'')
               else Some [objectPart E value])"

section \<open>Turns\<close>

definition hasCanonicalTurnCapacity :: "CanonicalTurn list \<Rightarrow> bool" where
  "hasCanonicalTurnCapacity turns \<longleftrightarrow> length turns < maxCanonicalTurns"

definition appendTurn :: "string \<Rightarrow> CanonicalPart list \<Rightarrow> CanonicalTurn list \<Rightarrow> CanonicalTurn list" where
  "appendTurn role parts turns =
     (if \<not> hasCanonicalTurnCapacity turns \<or> parts = [] then turns
      else turns @ [\<lparr>ct_Role = role, ct_Parts = limitCanonicalParts [] parts\<rparr>])"

text \<open>The parts of a member, or of the whole value where the member is missing.\<close>

definition member_parts :: "'r extract_env \<Rightarrow> string \<Rightarrow> 'r \<Rightarrow> CanonicalPart list option" where
  "member_parts E name value =
     do { parts \<leftarrow> canonicalPartsFromJSON E (xt_get E value name);
          if parts = [] \<and> \<not> xt_has E value name then canonicalPartsFromJSON E value else Some parts }"

definition known_role :: "'r extract_env \<Rightarrow> 'r \<Rightarrow> string" where
  "known_role E value = (let role = canonicalRole (xt_text E value ''role'') in if role = [] then ''unknown'' else role)"

text \<open>One member of a message that holds a tool call; its parts follow those found before.\<close>

definition messageCall ::
  "'r extract_env \<Rightarrow> 'r \<Rightarrow> string \<Rightarrow> CanonicalPart list \<Rightarrow> (CanonicalPart list \<times> bool) option" where
  "messageCall E message key parts =
     (if xt_has E message key
      then do { own \<leftarrow> canonicalPartsFromJSON E (xt_get E message key); Some (parts @ own, True) }
      else Some (parts, True))"

definition messageTurn :: "'r extract_env \<Rightarrow> 'r \<Rightarrow> CanonicalTurn list \<Rightarrow> (CanonicalTurn list \<times> bool) option" where
  "messageTurn E message turns =
     (if \<not> hasCanonicalTurnCapacity turns then Some (turns, False)
      else do {
        own \<leftarrow> canonicalPartsFromJSON E (xt_get E message ''content'');
        found \<leftarrow> for_each_opt (messageCall E message) [''tool_calls'', ''tool_call'', ''function_call'', ''tool_use''] own;
        parts \<leftarrow> (if found = [] \<and> \<not> xt_has E message ''content'' then canonicalPartsFromJSON E message else Some found);
        Some (appendTurn (known_role E message) parts turns, True) })"

definition append_member :: "'r extract_env \<Rightarrow> string \<Rightarrow> 'r \<Rightarrow> CanonicalTurn list \<Rightarrow> CanonicalTurn list option" where
  "append_member E name doc turns =
     (if xt_has E doc name
      then do { parts \<leftarrow> canonicalPartsFromJSON E (xt_get E doc name); Some (appendTurn ''system'' parts turns) }
      else Some turns)"

definition appendMessagesTurns :: "'r extract_env \<Rightarrow> 'r \<Rightarrow> bool \<Rightarrow> CanonicalTurn list \<Rightarrow> CanonicalTurn list option" where
  "appendMessagesTurns E doc includeTopLevelSystem turns =
     do { turns1 \<leftarrow> (if includeTopLevelSystem then append_member E ''system'' doc turns else Some turns);
          for_each_opt (messageTurn E) (gj_ForEach (xt_gjson E) (xt_get E doc ''messages'')) turns1 }"

definition responseTurn :: "'r extract_env \<Rightarrow> 'r \<Rightarrow> CanonicalTurn list \<Rightarrow> (CanonicalTurn list \<times> bool) option" where
  "responseTurn E item turns =
     (if \<not> hasCanonicalTurnCapacity turns then Some (turns, False)
      else let typ = lower_type E item; role0 = canonicalRole (xt_text E item ''role'')
           in if typ = ''reasoning'' \<or> typ = ''response.output_text'' then Some (turns, True)
              else let role = (if role0 \<noteq> [] then role0
                               else if Contains typ ''function_call_output'' \<or> Contains typ ''tool_result'' then ''tool''
                               else if Contains typ ''function_call'' \<or> Contains typ ''tool_call'' then ''assistant''
                               else if Contains typ ''compaction'' then ''system'' else ''unknown'')
                   in do { parts \<leftarrow> member_parts E ''content'' item; Some (appendTurn role parts turns, True) })"

definition appendResponsesTurns :: "'r extract_env \<Rightarrow> 'r \<Rightarrow> CanonicalTurn list \<Rightarrow> CanonicalTurn list option" where
  "appendResponsesTurns E doc turns0 =
     do { turns \<leftarrow> append_member E ''instructions'' doc turns0;
          let input = xt_get E doc ''input'';
          if \<not> hasCanonicalTurnCapacity turns \<or> \<not> gj_Exists (xt_gjson E) input then Some turns
          else if gj_isString (xt_gjson E) input
          then do { parts \<leftarrow> canonicalPartsFromJSON E input; Some (appendTurn ''user'' parts turns) }
          else for_each_opt (responseTurn E) (gj_ForEach (xt_gjson E) input) turns }"

definition geminiTurn :: "'r extract_env \<Rightarrow> 'r \<Rightarrow> CanonicalTurn list \<Rightarrow> (CanonicalTurn list \<times> bool) option" where
  "geminiTurn E content turns =
     (if \<not> hasCanonicalTurnCapacity turns then Some (turns, False)
      else do { parts \<leftarrow> member_parts E ''parts'' content; Some (appendTurn (known_role E content) parts turns, True) })"

definition inner_request :: "'r extract_env \<Rightarrow> 'r \<Rightarrow> 'r" where
  "inner_request E doc = (case nestedRequest (xt_gjson E) doc of None \<Rightarrow> doc | Some req \<Rightarrow> req)"

definition appendGeminiTurns :: "'r extract_env \<Rightarrow> 'r \<Rightarrow> CanonicalTurn list \<Rightarrow> CanonicalTurn list option" where
  "appendGeminiTurns E doc0 turns =
     (let doc = inner_request E doc0;
          cached = (if xt_has E doc ''cachedContent'' then xt_get E doc ''cachedContent'' else xt_get E doc ''cached_content'');
          turns1 = (if gj_Exists (xt_gjson E) cached then appendTurn ''system'' [canonicalResourcePart E cached] turns else turns)
      in do { turns2 \<leftarrow> (if xt_has E doc ''systemInstruction'' then append_member E ''systemInstruction'' doc turns1
                        else append_member E ''system_instruction'' doc turns1);
              for_each_opt (geminiTurn E) (gj_ForEach (xt_gjson E) (xt_get E doc ''contents'')) turns2 })"

definition defaultInteractionRole :: "string \<Rightarrow> string" where
  "defaultInteractionRole inheritedRole =
     (let role = canonicalRole inheritedRole in if role \<noteq> [] then role else ''user'')"

definition interactionRole :: "'r extract_env \<Rightarrow> 'r \<Rightarrow> string \<Rightarrow> string" where
  "interactionRole E value inheritedRole =
     (let typ = lower_type E value; role = canonicalRole (xt_text E value ''role'')
      in if role \<noteq> [] then role
         else if Contains typ ''system'' \<or> Contains typ ''developer'' then ''system''
         else if Contains typ ''user'' then ''user''
         else if Contains typ ''model'' \<or> Contains typ ''assistant'' then ''assistant''
         else if Contains typ ''tool'' \<or> Contains typ ''function'' then ''tool''
         else defaultInteractionRole inheritedRole)"

partial_function (option) appendInteractionValue ::
  "'r extract_env \<Rightarrow> 'r \<Rightarrow> string \<Rightarrow> CanonicalTurn list \<Rightarrow> (CanonicalTurn list \<times> bool) option" where
  "appendInteractionValue E value inheritedRole turns =
     (if \<not> gj_Exists (xt_gjson E) value then Some (turns, True)
      else if \<not> hasCanonicalTurnCapacity turns then Some (turns, False)
      else do {
        turns' \<leftarrow>
          (if gj_Type (xt_gjson E) value = TJSON \<and> gj_isArray (xt_gjson E) value
           then for_each_opt (\<lambda>child ts. appendInteractionValue E child inheritedRole ts) (gj_ForEach (xt_gjson E) value) turns
           else if gj_Type (xt_gjson E) value \<noteq> TJSON
           then do { parts \<leftarrow> canonicalPartsFromJSON E value;
                     Some (appendTurn (defaultInteractionRole inheritedRole) parts turns) }
           else if gj_isArray (xt_gjson E) (xt_get E value ''steps'')
           then for_each_opt
                  (\<lambda>child ts. appendInteractionValue E child
                     (if canonicalRole (xt_text E value ''role'') = [] then inheritedRole
                      else canonicalRole (xt_text E value ''role'')) ts)
                  (gj_ForEach (xt_gjson E) (xt_get E value ''steps'')) turns
           else do { parts \<leftarrow> member_parts E ''content'' value;
                     Some (appendTurn (interactionRole E value inheritedRole) parts turns) });
        Some (turns', hasCanonicalTurnCapacity turns') })"

definition appendInteractionTurns :: "'r extract_env \<Rightarrow> 'r \<Rightarrow> CanonicalTurn list \<Rightarrow> CanonicalTurn list option" where
  "appendInteractionTurns E doc turns =
     do { turns1 \<leftarrow> (if xt_has E doc ''system_instruction'' then append_member E ''system_instruction'' doc turns
                    else append_member E ''systemInstruction'' doc turns);
          (turns2, _) \<leftarrow> appendInteractionValue E (xt_get E doc ''input'') [] turns1;
          Some turns2 }"

section \<open>Formats\<close>

definition inferCanonicalFormat :: "'r extract_env \<Rightarrow> 'r \<Rightarrow> string" where
  "inferCanonicalFormat E doc0 =
     (let doc = inner_request E doc0; input = xt_get E doc ''input''
      in if gj_isArray (xt_gjson E) (xt_get E doc ''contents'') \<or> xt_has E doc ''systemInstruction'' \<or>
            xt_has E doc ''system_instruction'' then ''gemini''
         else if xt_has E doc ''instructions'' then ''openai-response''
         else if gj_Exists (xt_gjson E) input
         then if gj_isString (xt_gjson E) input \<or>
                 list_ex (\<lambda>item. let typ = lower_type E item in Contains typ ''user_input'' \<or> Contains typ ''instruction'')
                   (gj_Array (xt_gjson E) input)
              then ''interactions'' else ''openai-response''
         else if xt_has E doc ''system'' then ''claude'' else ''openai'')"

definition formatEqual :: "string \<Rightarrow> string \<Rightarrow> bool" where
  "formatEqual left right \<longleftrightarrow> EqualFold (TrimSpace left) (TrimSpace right)"

definition ExtractCanonicalTurns :: "'r extract_env \<Rightarrow> string \<Rightarrow> string \<Rightarrow> CanonicalTurn list option" where
  "ExtractCanonicalTurns E format0 payload =
     (let doc = gj_Parse (xt_gjson E) payload;
          format = (if format0 = [] then inferCanonicalFormat E doc else format0)
      in if payload = [] \<or> \<not> gj_Exists (xt_gjson E) doc then Some []
         else do {
           turns \<leftarrow>
             (if formatEqual format ''claude'' then appendMessagesTurns E doc True []
              else if formatEqual format ''gemini'' \<or> formatEqual format ''antigravity'' then appendGeminiTurns E doc []
              else if formatEqual format ''interactions'' then appendInteractionTurns E doc []
              else if formatEqual format ''openai-response'' \<or> formatEqual format ''codex'' then appendResponsesTurns E doc []
              else appendMessagesTurns E doc False []);
           Some (normalizeCanonicalTurns (xt_turn E) turns) })"

end
