(* ===== verification/SessionIds.thy ===== *)
theory SessionIds
  imports Turns QuotaSignals Gjson
begin

text \<open>
  Where a request's session identity comes from: \<open>NormalizeExplicitID\<close> and \<open>ClaudeMetadataIdentities\<close> of
  \<open>sdk/aps/session/identity.go\<close>, and the extraction of identities from headers, body and metadata in
  \<open>sdk/aps/auth/selector.go\<close> and \<open>home_session_alias.go\<close>.

  The package gjson is a parameter (theory \<open>Gjson\<close>). An iteration over the headers, a Go map, visits them in the order
  of their list. For an empty payload the code has the zero
  \<open>Result\<close>, which does not exist and has no members.
\<close>

section \<open>Explicit identities\<close>

text \<open>
  \<open>unicode.IsControl\<close> for some rune of a text: an ASCII control byte, or one of the runes U+0080 to
  U+009F, whose encodings are the byte C2 and a byte from 80 to 9F.
\<close>

fun has_control :: "string \<Rightarrow> bool" where
  "has_control [] \<longleftrightarrow> False"
| "has_control (c # s) \<longleftrightarrow>
     (let n = (of_char c :: nat) in n < 32 \<or> n = 127) \<or>
     (c = CHR 0xC2 \<and> (case s of [] \<Rightarrow> False | d # _ \<Rightarrow> 128 \<le> (of_char d :: nat) \<and> (of_char d :: nat) \<le> 159)) \<or>
     has_control s"

definition NormalizeExplicitID :: "string \<Rightarrow> string" where
  "NormalizeExplicitID raw0 =
     (if has_control raw0 then []
      else let raw = TrimSpace raw0 in if raw = [] \<or> length raw > 256 then [] else raw)"

definition is_id_char :: "char \<Rightarrow> bool" where
  "is_id_char c \<longleftrightarrow> c \<in> set ''abcdef0123456789-''"

text \<open>The pattern \<open>_session_([a-f0-9-]+)$\<close>: the group of its leftmost match.\<close>

fun legacyClaudeSession :: "string \<Rightarrow> string option" where
  "legacyClaudeSession [] = None"
| "legacyClaudeSession (c # s) =
     (let rest = drop 9 (c # s)
      in if HasPrefix (c # s) ''_session_'' \<and> rest \<noteq> [] \<and> list_all is_id_char rest then Some rest
         else legacyClaudeSession s)"

definition ClaudeMetadataIdentities :: "'r gjson \<Rightarrow> string \<Rightarrow> string \<times> string \<times> string" where
  "ClaudeMetadataIdentities G payload =
     (if payload = [] then ([], [], [])
      else
        let doc = gj_Parse G payload;
            userID0 = TrimSpace (gj_String G (gj_Get G doc ''metadata.user_id''));
            userID = (if userID0 = []
                      then case nestedRequest G doc of
                             None \<Rightarrow> userID0
                           | Some req \<Rightarrow> TrimSpace (gj_String G (gj_Get G req ''metadata.user_id''))
                      else userID0)
        in if userID = [] then ([], [], [])
           else if HasPrefix userID ''{''
           then let parsed = gj_Parse G userID; text = (\<lambda>path. NormalizeExplicitID (gj_String G (gj_Get G parsed path)))
                in (text ''session_id'', text ''parent_session_id'', text ''agent_id'')
           else case legacyClaudeSession userID of
                  Some m \<Rightarrow> (NormalizeExplicitID m, [], [])
                | None \<Rightarrow> ([], [], []))"

section \<open>Headers\<close>

fun first_nonempty :: "string list \<Rightarrow> string" where
  "first_nonempty [] = []"
| "first_nonempty (x # xs) = (if x \<noteq> [] then x else first_nonempty xs)"

definition header_Get :: "header \<Rightarrow> string \<Rightarrow> string" where
  "header_Get headers name =
     (case map_get [] headers (CanonicalHeaderKey name) of [] \<Rightarrow> [] | v # _ \<Rightarrow> v)"

definition sessionHeaderValue :: "header \<Rightarrow> string \<Rightarrow> string" where
  "sessionHeaderValue headers name =
     (let value = NormalizeExplicitID (header_Get headers name)
      in if value \<noteq> [] then value
         else first_nonempty (concat (map (\<lambda>(key, values). if EqualFold key name then map NormalizeExplicitID values else [])
                headers)))"

section \<open>Identities of a request\<close>

text \<open>A path of the body, or of the request nested in it.\<close>

definition body_id :: "'r gjson \<Rightarrow> 'r \<Rightarrow> string \<Rightarrow> string" where
  "body_id G doc path =
     (let v = NormalizeExplicitID (gj_String G (gj_Get G doc path))
      in if v \<noteq> [] then v
         else case nestedRequest G doc of
                None \<Rightarrow> []
              | Some req \<Rightarrow> NormalizeExplicitID (gj_String G (gj_Get G req path)))"

definition parentPaths :: "string list" where
  "parentPaths = [''parent_session_id'', ''parentSessionId'', ''parent_thread_id'', ''parentThreadId'',
     ''forked_from_thread_id'', ''forked_from_id'', ''parent_conversation_id'', ''parentConversationId'',
     ''metadata.parent_session_id'', ''metadata.parent_thread_id'',
     ''extra_body.parent_session_id'', ''extra_body.parent_thread_id'']"

definition parentCandidate :: "'r gjson \<Rightarrow> string \<Rightarrow> string" where
  "parentCandidate G payload =
     (if payload = [] then []
      else let doc = gj_Parse G payload; found = first_nonempty (map (body_id G doc) parentPaths)
           in if found \<noteq> [] then found else fst (snd (ClaudeMetadataIdentities G payload)))"

text \<open>The agent of the metadata in the body.\<close>

definition bodyAgent :: "'r gjson \<Rightarrow> 'r \<Rightarrow> string" where
  "bodyAgent G doc =
     first_nonempty (map (\<lambda>path. NormalizeExplicitID (gj_String G (gj_Get G doc path)))
       [''metadata.agent_id'', ''metadata.subagent_id''])"

definition nestedAgent :: "'r gjson \<Rightarrow> 'r \<Rightarrow> string" where
  "nestedAgent G doc = (case nestedRequest G doc of None \<Rightarrow> [] | Some req \<Rightarrow> bodyAgent G req)"

definition payloadAgent :: "'r gjson \<Rightarrow> string \<Rightarrow> string" where
  "payloadAgent G payload =
     (let doc = gj_Parse G payload
      in if payload = [] \<or> \<not> gj_Exists G doc then [] else first_nonempty [bodyAgent G doc, nestedAgent G doc])"

definition with_parent :: "string \<Rightarrow> string \<Rightarrow> string \<Rightarrow> string \<Rightarrow> string \<times> string" where
  "with_parent kind sid parent candidate =
     (if parent \<noteq> [] \<and> parent \<noteq> sid then (kind @ sid, kind @ parent)
      else if candidate \<noteq> [] \<and> candidate \<noteq> sid then (kind @ sid, kind @ candidate)
      else (kind @ sid, []))"

text \<open>Sessions of Claude Code, from the header or from the user ID.\<close>

definition claudeIDs :: "string \<Rightarrow> string \<Rightarrow> string \<Rightarrow> string \<Rightarrow> string \<Rightarrow> string \<times> string" where
  "claudeIDs sid parentSID agentID parentAgentID candidate =
     (if agentID \<noteq> [] \<and> agentID \<noteq> ''main''
      then (''claude:'' @ sid @ '':agent:'' @ agentID,
            if parentAgentID \<noteq> [] \<and> parentAgentID \<noteq> ''main'' \<and> parentAgentID \<noteq> agentID
            then ''claude:'' @ sid @ '':agent:'' @ parentAgentID
            else if parentSID \<noteq> [] \<and> parentSID \<noteq> sid then ''claude:'' @ parentSID
            else if candidate \<noteq> [] \<and> candidate \<noteq> sid then ''claude:'' @ candidate
            else ''claude:'' @ sid)
      else with_parent ''claude:'' sid parentSID candidate)"

definition claudeStage :: "'r gjson \<Rightarrow> header \<Rightarrow> string \<Rightarrow> string \<Rightarrow> (string \<times> string) option" where
  "claudeStage G headers payload candidate =
     (let h = sessionHeaderValue headers;
          (metaSID, metaParent, metaAgent) = ClaudeMetadataIdentities G payload
      in if h ''X-Claude-Code-Session-Id'' \<noteq> []
         then Some (claudeIDs (h ''X-Claude-Code-Session-Id'') []
                (first_nonempty [h ''X-Claude-Code-Agent-Id'', payloadAgent G payload, metaAgent])
                (h ''X-Claude-Code-Parent-Agent-Id'') candidate)
         else if metaSID \<noteq> []
         then Some (claudeIDs metaSID metaParent
                (first_nonempty [metaAgent, h ''X-Claude-Code-Agent-Id'', payloadAgent G payload])
                (h ''X-Claude-Code-Parent-Agent-Id'') candidate)
         else None)"

text \<open>The other headers in their order, with the kind of the session and the headers of a parent.\<close>

definition headerRules :: "(string \<times> string \<times> string list) list" where
  "headerRules =
     [(''Session-Id'', ''codex:'', [''x-codex-parent-thread-id'', ''X-Codex-Parent-Thread-Id'']),
      (''Session_id'', ''codex:'', [''x-codex-parent-thread-id'', ''X-Codex-Parent-Thread-Id'']),
      (''X-Http-Session-Id'', ''agy:'', [''X-Parent-Session-ID'', ''X-Parent-Session-Id'']),
      (''X-Session-ID'', ''header:'', [''X-Parent-Session-ID'', ''X-Parent-Session-Id'']),
      (''X-Session-Affinity'', ''affinity:'', [''X-Parent-Session-Affinity'', ''X-Parent-Session-ID'']),
      (''X-Slot-Session-Id'', ''slot:'', [''X-Parent-Session-ID'', ''X-Parent-Session-Id'']),
      (''X-Conversation-Id'', ''conv:'', []), (''X-Conversation-ID'', ''conv:'', []),
      (''X-Thread-Id'', ''thread:'', []), (''X-Thread-ID'', ''thread:'', []), (''Thread-Id'', ''thread:'', [])]"

fun headerStage :: "header \<Rightarrow> string \<Rightarrow> (string \<times> string \<times> string list) list \<Rightarrow> (string \<times> string) option" where
  "headerStage headers candidate [] =
     (let sid = sessionHeaderValue headers ''X-Client-Request-Id''
      in if sid \<noteq> [] then Some (''clientreq:'' @ sid, []) else None)"
| "headerStage headers candidate ((name, kind, parents) # rules) =
     (let sid = sessionHeaderValue headers name
      in if sid \<noteq> []
         then Some (with_parent kind sid (first_nonempty (map (sessionHeaderValue headers) parents)) candidate)
         else headerStage headers candidate rules)"

text \<open>The first path of the body that has an identity.\<close>

fun pathStage :: "(string \<Rightarrow> string) \<Rightarrow> (string \<Rightarrow> string \<times> string) \<Rightarrow> string list \<Rightarrow> (string \<times> string) option" where
  "pathStage get result [] = None"
| "pathStage get result (path # paths) =
     (let v = get path in if v \<noteq> [] then Some (result v) else pathStage get result paths)"

definition sessionIDs :: "string \<Rightarrow> string \<Rightarrow> string \<Rightarrow> string \<times> string" where
  "sessionIDs agentID candidate sid =
     (if agentID \<noteq> [] \<and> agentID \<noteq> ''main''
      then (''session:'' @ sid @ '':agent:'' @ agentID,
            if candidate \<noteq> [] \<and> candidate \<noteq> sid then ''session:'' @ candidate else ''session:'' @ sid)
      else with_parent ''session:'' sid [] candidate)"

definition conversationID :: "'r gjson \<Rightarrow> 'r \<Rightarrow> string" where
  "conversationID G doc =
     (let direct = gj_Get G doc ''conversation'';
          conversation = (if gj_Exists G direct then direct
                          else case nestedRequest G doc of None \<Rightarrow> direct | Some req \<Rightarrow> gj_Get G req ''conversation'');
          sid = NormalizeExplicitID (gj_String G (gj_Get G conversation ''id''));
          text = NormalizeExplicitID (gj_String G conversation)
      in if sid \<noteq> [] then ''conv:'' @ sid
         else if gj_isString G conversation \<and> text \<noteq> [] then ''conv:'' @ text else [])"

definition promptCacheKey :: "'r gjson \<Rightarrow> 'r \<Rightarrow> string" where
  "promptCacheKey G doc =
     (let paths = [''prompt_cache_key'', ''promptCacheKey''];
          direct = (\<lambda>r. first_nonempty (map (\<lambda>path. NormalizeExplicitID (gj_String G (gj_Get G r path))) paths))
      in first_nonempty [direct doc, case nestedRequest G doc of None \<Rightarrow> [] | Some req \<Rightarrow> direct req])"

definition first_stage :: "(string \<times> string) option list \<Rightarrow> (string \<times> string) option" where
  "first_stage stages = (case filter (\<lambda>x. x \<noteq> None) stages of [] \<Rightarrow> None | x # _ \<Rightarrow> x)"

definition bodyStage :: "'r gjson \<Rightarrow> header \<Rightarrow> string \<Rightarrow> string \<Rightarrow> (string \<times> string) option" where
  "bodyStage G headers payload candidate =
     (let doc = gj_Parse G payload;
          agentID = first_nonempty [bodyAgent G doc, sessionHeaderValue headers ''X-Claude-Code-Agent-Id'',
            sessionHeaderValue headers ''x-agent-id'', nestedAgent G doc];
          conversation = conversationID G doc;
          pck = promptCacheKey G doc;
          userID = body_id G doc ''metadata.user_id''
      in if payload = [] \<or> \<not> gj_Exists G doc then None
         else first_stage
           [pathStage (body_id G doc) (\<lambda>cacheID. with_parent ''geminicache:'' cacheID [] candidate)
              [''cachedContent'', ''cached_content''],
            pathStage (body_id G doc) (\<lambda>tid. with_parent ''thread:'' tid [] candidate)
              [''thread_id'', ''threadId'', ''metadata.thread_id''],
            pathStage (body_id G doc) (sessionIDs agentID candidate)
              [''session_id'', ''sessionId'', ''sessionID'', ''metadata.session_id'', ''extra_body.session_id''],
            if pck \<noteq> [] then Some (''pck:'' @ pck, conversation) else None,
            if conversation \<noteq> []
            then Some (conversation, if candidate \<noteq> [] \<and> ''conv:'' @ candidate \<noteq> conversation then ''conv:'' @ candidate else [])
            else None,
            if userID \<noteq> [] then Some (''user:'' @ userID, []) else None,
            pathStage (body_id G doc) (\<lambda>cid. with_parent ''conv:'' cid [] candidate)
              [''conversation_id'', ''conversationId'', ''chat_id'', ''chatId'', ''metadata.conversation_id'',
               ''extra_body.conversation_id'']])"

text \<open>The values of \<open>Options.Metadata\<close> as far as the code tells them apart.\<close>

datatype meta_value =
    MetaString string
  | MetaStrings "string list"
  | MetaList "meta_value list"
  | MetaInt int
  | MetaOther

type_synonym meta_map = "(string, meta_value) go_map"

definition meta_string :: "meta_map \<Rightarrow> string \<Rightarrow> string option" where
  "meta_string metadata key = (case map_of metadata key of Some (MetaString s) \<Rightarrow> Some s | _ \<Rightarrow> None)"

definition executionStage :: "meta_map \<Rightarrow> (string \<times> string) option" where
  "executionStage metadata =
     (case meta_string metadata ''execution_session_id'' of
        None \<Rightarrow> None
      | Some v \<Rightarrow> if NormalizeExplicitID v \<noteq> [] then Some (''execution:'' @ NormalizeExplicitID v, []) else None)"

definition extractExplicitSessionIDs :: "'r gjson \<Rightarrow> header \<Rightarrow> string \<Rightarrow> meta_map \<Rightarrow> string \<times> string" where
  "extractExplicitSessionIDs G headers payload metadata =
     (let candidate = parentCandidate G payload
      in case first_stage
                [claudeStage G headers payload candidate, headerStage headers candidate headerRules,
                 bodyStage G headers payload candidate, executionStage metadata] of
           None \<Rightarrow> ([], [])
         | Some ids \<Rightarrow> ids)"

section \<open>Identities made of the first messages\<close>

definition truncateString :: "string \<Rightarrow> nat \<Rightarrow> string" where
  "truncateString s maxLen = (if length s > maxLen then take maxLen s else s)"

definition joinTexts :: "'r gjson \<Rightarrow> string list \<Rightarrow> 'r \<Rightarrow> string" where
  "joinTexts G types content =
     (let texts = filter (\<lambda>text. text \<noteq> []) (map (\<lambda>part. gj_String G (gj_Get G part ''text''))
            (filter (\<lambda>part. gj_String G (gj_Get G part ''type'') \<in> set types) (gj_ForEach G content)))
      in if texts \<noteq> [] then strings_Join texts '' '' else [])"

definition extractMessageContent :: "'r gjson \<Rightarrow> 'r \<Rightarrow> string" where
  "extractMessageContent G content =
     (if gj_isString G content then gj_String G content
      else if gj_isArray G content then joinTexts G [''text''] content else [])"

definition extractResponsesAPIContent :: "'r gjson \<Rightarrow> 'r \<Rightarrow> string" where
  "extractResponsesAPIContent G content =
     (if \<not> gj_isArray G content then [] else joinTexts G [''input_text'', ''output_text'', ''text''] content)"

text \<open>The first texts of a conversation: system prompt, user message, assistant message.\<close>

record first_texts =
  ft_system :: string
  ft_user :: string
  ft_assistant :: string

definition set_once :: "string \<Rightarrow> string \<Rightarrow> string" where
  "set_once old text = (if old = [] then truncateString text 100 else old)"

definition note_role :: "string list \<Rightarrow> string list \<Rightarrow> string list \<Rightarrow> string \<Rightarrow> string \<Rightarrow> first_texts \<Rightarrow> first_texts" where
  "note_role systems users assistants role text t =
     (if role \<in> set systems then t\<lparr>ft_system := set_once (ft_system t) text\<rparr>
      else if role \<in> set users then t\<lparr>ft_user := set_once (ft_user t) text\<rparr>
      else if role \<in> set assistants then t\<lparr>ft_assistant := set_once (ft_assistant t) text\<rparr>
      else t)"

definition messageStep :: "'r gjson \<Rightarrow> 'r \<Rightarrow> first_texts \<Rightarrow> first_texts \<times> bool" where
  "messageStep G msg t =
     (let role = gj_String G (gj_Get G msg ''role''); content = extractMessageContent G (gj_Get G msg ''content'')
      in if content = [] then (t, True)
         else let t' = note_role [''system''] [''user''] [''assistant''] role content t
              in (t', \<not> (ft_system t' \<noteq> [] \<and> ft_user t' \<noteq> [] \<and> ft_assistant t' \<noteq> [])))"

definition messagesTexts :: "'r gjson \<Rightarrow> string \<Rightarrow> first_texts \<Rightarrow> first_texts" where
  "messagesTexts G payload t =
     (let messages = gj_GetBytes G payload ''messages''
      in if gj_Exists G messages \<and> gj_isArray G messages then for_each (messageStep G) (gj_ForEach G messages) t else t)"

text \<open>The first part with a text becomes the system prompt.\<close>

definition firstSystemPart :: "'r gjson \<Rightarrow> 'r \<Rightarrow> first_texts \<Rightarrow> first_texts" where
  "firstSystemPart G parts t =
     for_each (\<lambda>part t. let text = gj_String G (gj_Get G part ''text'')
                         in if text \<noteq> [] \<and> ft_system t = [] then (t\<lparr>ft_system := truncateString text 100\<rparr>, False) else (t, True))
       (gj_ForEach G parts) t"

definition topSystemTexts :: "'r gjson \<Rightarrow> string \<Rightarrow> first_texts \<Rightarrow> first_texts" where
  "topSystemTexts G payload t =
     (let topSystem = gj_GetBytes G payload ''system''
      in if ft_system t \<noteq> [] \<or> \<not> gj_Exists G topSystem then t
         else if gj_isArray G topSystem then firstSystemPart G topSystem t
         else if gj_isString G topSystem then t\<lparr>ft_system := truncateString (gj_String G topSystem) 100\<rparr>
         else t)"

definition geminiStep :: "'r gjson \<Rightarrow> 'r \<Rightarrow> first_texts \<Rightarrow> first_texts \<times> bool" where
  "geminiStep G msg t =
     (let role = gj_String G (gj_Get G msg ''role'');
          t' = for_each (\<lambda>part t. let text = gj_String G (gj_Get G part ''text'')
                                  in if text = [] then (t, True) else (note_role [] [''user''] [''model''] role text t, False))
                 (gj_ForEach G (gj_Get G msg ''parts'')) t
      in (t', \<not> (ft_user t' \<noteq> [] \<and> ft_assistant t' \<noteq> [])))"

definition geminiTexts :: "'r gjson \<Rightarrow> string \<Rightarrow> first_texts \<Rightarrow> first_texts" where
  "geminiTexts G payload t =
     (if ft_system t \<noteq> [] \<or> ft_user t \<noteq> [] then t
      else let sysInstr = gj_GetBytes G payload ''systemInstruction.parts'';
               contents = gj_GetBytes G payload ''contents'';
               t1 = (if gj_Exists G sysInstr \<and> gj_isArray G sysInstr then firstSystemPart G sysInstr t else t)
           in if gj_Exists G contents \<and> gj_isArray G contents then for_each (geminiStep G) (gj_ForEach G contents) t1 else t1)"

definition responsesStep :: "'r gjson \<Rightarrow> 'r \<Rightarrow> first_texts \<Rightarrow> first_texts \<times> bool" where
  "responsesStep G item t =
     (let itemType = gj_String G (gj_Get G item ''type''); role = gj_String G (gj_Get G item ''role'');
          content = gj_Get G item ''content'';
          text = (if gj_isString G content then gj_String G content else extractResponsesAPIContent G content)
      in if itemType = ''reasoning'' \<or> (itemType \<noteq> [] \<and> itemType \<noteq> ''message'') \<or> (itemType = [] \<and> role = []) \<or> text = []
         then (t, True)
         else let t' = note_role [''developer'', ''system''] [''user''] [''assistant''] role text t
              in (t', \<not> (ft_user t' \<noteq> [] \<and> ft_assistant t' \<noteq> [])))"

definition responsesTexts :: "'r gjson \<Rightarrow> string \<Rightarrow> first_texts \<Rightarrow> first_texts" where
  "responsesTexts G payload t =
     (if ft_system t \<noteq> [] \<or> ft_user t \<noteq> [] then t
      else let instr = gj_String G (gj_GetBytes G payload ''instructions'');
               input = gj_GetBytes G payload ''input'';
               t1 = (if instr \<noteq> [] then t\<lparr>ft_system := truncateString instr 100\<rparr> else t)
           in if gj_Exists G input \<and> gj_isArray G input then for_each (responsesStep G) (gj_ForEach G input) t1 else t1)"

definition no_texts :: first_texts where
  "no_texts = \<lparr>ft_system = [], ft_user = [], ft_assistant = []\<rparr>"

definition conversationTexts :: "'r gjson \<Rightarrow> string \<Rightarrow> first_texts" where
  "conversationTexts G payload =
     responsesTexts G payload (geminiTexts G payload (topSystemTexts G payload (messagesTexts G payload no_texts)))"

text \<open>The 64-bit FNV-1a hash, and \<open>%016x\<close>.\<close>

definition fnv64a :: "string \<Rightarrow> 64 word" where
  "fnv64a s = foldl (\<lambda>h c. xor h (word_of_nat (of_char c)) * 1099511628211) 14695981039346656037 s"

definition hex16 :: "64 word \<Rightarrow> string" where
  "hex16 w = map (\<lambda>i. hex_char ((unat w div 16 ^ (15 - i)) mod 16)) [0..<16]"

definition computeSessionHash :: "string \<Rightarrow> string \<Rightarrow> string \<Rightarrow> string" where
  "computeSessionHash systemPrompt userMsg assistantMsg =
     ''msg:'' @ hex16 (fnv64a (
       (if systemPrompt \<noteq> [] then ''sys:'' @ systemPrompt @ [CHR 0x0A] else []) @
       (if userMsg \<noteq> [] then ''usr:'' @ userMsg @ [CHR 0x0A] else []) @
       (if assistantMsg \<noteq> [] then ''ast:'' @ assistantMsg @ [CHR 0x0A] else [])))"

definition extractMessageHashIDs :: "'r gjson \<Rightarrow> string \<Rightarrow> string \<times> string" where
  "extractMessageHashIDs G payload =
     (let t = conversationTexts G payload
      in if ft_user t = [] then ([], [])
         else let shortHash = computeSessionHash (ft_system t) (ft_user t) []
              in if ft_assistant t = [] then (shortHash, [])
                 else (computeSessionHash (ft_system t) (ft_user t) (ft_assistant t), shortHash))"

definition DerivedID :: "meta_map \<Rightarrow> string" where
  "DerivedID metadata = (case meta_string metadata ''derived_session_id'' of None \<Rightarrow> [] | Some v \<Rightarrow> TrimSpace v)"

definition extractSessionIDs :: "'r gjson \<Rightarrow> header \<Rightarrow> string \<Rightarrow> meta_map \<Rightarrow> string \<times> string" where
  "extractSessionIDs G headers payload metadata =
     (let explicit = extractExplicitSessionIDs G headers payload metadata;
          derivedID = NormalizeExplicitID (DerivedID metadata)
      in if fst explicit \<noteq> [] then explicit
         else if derivedID \<noteq> [] then (''derived:'' @ derivedID, [])
         else if payload = [] then ([], []) else extractMessageHashIDs G payload)"

definition ExtractSessionID :: "'r gjson \<Rightarrow> header \<Rightarrow> string \<Rightarrow> meta_map \<Rightarrow> string" where
  "ExtractSessionID G headers payload metadata = fst (extractSessionIDs G headers payload metadata)"

definition CanonicalSessionID :: "'r gjson \<Rightarrow> header \<Rightarrow> string \<Rightarrow> meta_map \<Rightarrow> string" where
  "CanonicalSessionID G headers payload metadata =
     (let explicitID = fst (extractExplicitSessionIDs G headers payload metadata);
          stored = (\<lambda>key. case meta_string metadata key of None \<Rightarrow> [] | Some v \<Rightarrow> TrimSpace v)
      in first_nonempty [explicitID, stored ''canonical_session_id'', stored ''lcp_affinity_session_id'',
           ExtractSessionID G headers payload metadata])"

section \<open>Hierarchies\<close>

definition isHierarchyParent :: "string \<Rightarrow> string \<Rightarrow> bool" where
  "isHierarchyParent primary fallback =
     (if fallback = [] \<or> primary = [] \<or> primary = fallback then False
      else Contains primary '':agent:'' \<or>
        list_ex (\<lambda>p. HasPrefix primary p \<and> HasPrefix fallback p)
          [''codex:'', ''header:'', ''affinity:'', ''slot:'', ''thread:'', ''conv:'', ''session:'', ''claude:'', ''agy:'',
           ''geminicache:''])"

definition isSubagentSession :: "string \<Rightarrow> string \<Rightarrow> bool" where
  "isSubagentSession primaryID fallbackID =
     (if Contains primaryID '':agent:'' then True
      else if fallbackID = [] \<or> primaryID = [] \<or> primaryID = fallbackID then False
      else isHierarchyParent primaryID fallbackID)"

end
