(* ===== verification/Affinity.thy ===== *)
theory Affinity
  imports TurnExtraction SessionIds SessionSpec PrefixMatcher Selectors MarkResult
begin

text \<open>
  \<open>SessionAffinitySelector\<close> of \<open>sdk/aps/auth/selector.go\<close>: it keeps a session on one credential, with
  the session cache for explicit and derived identities and the prefix matcher for requests without one,
  and leaves cold picks to another selector.

  A call of \<open>Pick\<close> reads the clock several times; the readings are the fields of \<open>pick_times\<close>. It writes to
  the metadata of the request, which is returned. The wrapped selector is one of the three built-in ones; these
  return a credential or an error, so that the branches for neither have no counterpart. The logging, nil
  receivers, and the values that travel in the context (\<open>pick_ctx\<close>) are arguments or left out.
\<close>

section \<open>The wrapped selector\<close>

record pick_ctx =
  cx_websocket :: bool
  cx_routeModel :: string

datatype Selector =
    SelRoundRobin RoundRobinSelector
  | SelWeighted WeightedRoundRobinSelector
  | SelFillFirst

definition Selector_Pick ::
  "pick_ctx \<Rightarrow> string \<Rightarrow> string \<Rightarrow> go_time \<Rightarrow> auth list \<Rightarrow> Selector \<Rightarrow> (pick_error + auth) \<times> Selector" where
  "Selector_Pick cx provider model now auths sel =
     (case sel of
        SelRoundRobin s \<Rightarrow>
          (let (r, s') = RoundRobin_Pick (cx_websocket cx) provider model now auths s in (r, SelRoundRobin s'))
      | SelWeighted s \<Rightarrow>
          (let (r, s') = WeightedRoundRobin_Pick (cx_websocket cx) (cx_routeModel cx) provider model now auths s
           in (r, SelWeighted s'))
      | SelFillFirst \<Rightarrow> (FillFirst_Pick (cx_websocket cx) provider model now auths, SelFillFirst))"

definition is_weighted :: "Selector \<Rightarrow> bool" where
  "is_weighted sel \<longleftrightarrow> (case sel of SelWeighted _ \<Rightarrow> True | _ \<Rightarrow> False)"

definition availabilityCandidates :: "Selector \<Rightarrow> auth list \<Rightarrow> auth list" where
  "availabilityCandidates sel auths = (if is_weighted sel then positiveWeightAuths auths else auths)"

section \<open>State\<close>

record SessionAffinitySelector =
  sa_fallback :: Selector
  sa_cache :: SessionCache
  sa_matcher :: MerklePrefixMatcher

definition NewSessionAffinitySelectorWithConfig :: "Selector option \<Rightarrow> duration \<Rightarrow> SessionAffinitySelector" where
  "NewSessionAffinitySelectorWithConfig fallback ttl0 =
     (let ttl = (if ttl0 \<le> 0 then Hour else ttl0)
      in \<lparr>sa_fallback = (case fallback of None \<Rightarrow> SelRoundRobin \<lparr>rr_lastPicked = [], rr_maxKeys = 0\<rparr> | Some sel \<Rightarrow> sel),
          sa_cache = NewSessionCache ttl, sa_matcher = NewMerklePrefixMatcher ttl\<rparr>)"

definition NewSessionAffinitySelector :: "Selector option \<Rightarrow> SessionAffinitySelector" where
  "NewSessionAffinitySelector fallback = NewSessionAffinitySelectorWithConfig fallback Hour"

text \<open>The part of \<open>apsexecutor.Options\<close> that the selector reads.\<close>

record Options =
  op_Headers :: header
  op_OriginalRequest :: string
  op_SourceFormat :: string
  op_Metadata :: meta_map

record pick_times =
  pt_available :: go_time
  pt_lookup :: go_time
  pt_parent :: go_time
  pt_parent_locked :: go_time
  pt_fallback :: go_time
  pt_bind :: go_time

section \<open>Keys\<close>

definition sessionMetadataString :: "meta_map \<Rightarrow> string \<Rightarrow> string" where
  "sessionMetadataString metadata key = (case meta_string metadata key of None \<Rightarrow> [] | Some v \<Rightarrow> TrimSpace v)"

definition lcpAffinityNamespace :: "string \<Rightarrow> string \<Rightarrow> meta_map \<Rightarrow> string" where
  "lcpAffinityNamespace provider0 model0 metadata =
     (let provider = ToLower (TrimSpace provider0);
          model = canonicalModelKey model0;
          callerScope = sessionMetadataString metadata ''caller_scope''
      in if provider = [] \<or> callerScope = [] then []
         else strings_Join [''lcp:v1'', provider, model, callerScope] ''::'')"

definition lcpFingerprintsFromMetadata :: "meta_map \<Rightarrow> string list \<times> int" where
  "lcpFingerprintsFromMetadata metadata =
     (case map_of metadata ''lcp_fingerprints'' of
        None \<Rightarrow> ([], 0)
      | Some raw \<Rightarrow>
          ((case raw of
              MetaStrings v \<Rightarrow> v
            | MetaList v \<Rightarrow> concat (map (\<lambda>item. case item of MetaString s \<Rightarrow> if s \<noteq> [] then [s] else [] | _ \<Rightarrow> []) v)
            | _ \<Rightarrow> []),
           (case map_of metadata ''lcp_min_prefix_length'' of Some (MetaInt n) \<Rightarrow> n | _ \<Rightarrow> 0)))"

definition affinity_key :: "string \<Rightarrow> string \<Rightarrow> string \<Rightarrow> string" where
  "affinity_key provider sessionID modelKey = provider @ ''::'' @ sessionID @ ''::'' @ modelKey"

definition isNonInheritingProvider :: "string \<Rightarrow> bool" where
  "isNonInheritingProvider provider =
     (let p = ToLower (TrimSpace provider)
      in p \<in> {''antigravity'', ''gemini'', ''vertex'', ''gemini-vertex'', ''aistudio'', ''gemini-interactions''} \<or>
         Contains p ''antigravity'' \<or> Contains p ''gemini'')"

definition TrimPrefix :: "string \<Rightarrow> string \<Rightarrow> string" where
  "TrimPrefix s start = (if HasPrefix s start then drop (length start) s else s)"

definition isNonInheritingModel :: "string \<Rightarrow> bool" where
  "isNonInheritingModel model =
     (let base0 = ToLower (TrimSpace model);
          parsed = ParseSuffix base0;
          base1 = (if sr_ModelName parsed \<noteq> [] then ToLower (TrimSpace (sr_ModelName parsed)) else base0);
          base = TrimPrefix (TrimPrefix base1 ''models/'') ''google/''
      in HasPrefix base ''gemini-'' \<or> HasPrefix base ''antigravity-'' \<or> Contains base ''gemini'' \<or> Contains base ''antigravity'')"

definition allowsSubagentAuthInheritance :: "auth option \<Rightarrow> string \<Rightarrow> bool" where
  "allowsSubagentAuthInheritance ao model =
     (if (case ao of None \<Rightarrow> False | Some a \<Rightarrow> isNonInheritingProvider (auth_Provider a)) then False
      else if isNonInheritingModel model then False
      else True)"

section \<open>Picking\<close>

text \<open>What \<open>Pick\<close> knows of the request once the session is identified.\<close>

record affinity_request =
  ar_cacheKey :: string
  ar_fallbackKey :: string
  ar_isSubagent :: bool

definition bindSession :: "affinity_request \<Rightarrow> go_time \<Rightarrow> string \<Rightarrow> SessionCache \<Rightarrow> SessionCache" where
  "bindSession req now authID c =
     (if ar_fallbackKey req \<noteq> [] \<and> \<not> ar_isSubagent req
      then SetAliases now authID [ar_cacheKey req, ar_fallbackKey req] c
      else Set now (ar_cacheKey req) authID c)"

definition affinityRequest :: "string \<Rightarrow> string \<Rightarrow> string \<Rightarrow> string \<Rightarrow> affinity_request" where
  "affinityRequest provider model primaryID fallbackID =
     (let modelKey = canonicalModelKey model
      in \<lparr>ar_cacheKey = affinity_key provider primaryID modelKey,
          ar_fallbackKey = (if fallbackID \<noteq> [] \<and> fallbackID \<noteq> primaryID
                            then affinity_key provider fallbackID modelKey else []),
          ar_isSubagent = isSubagentSession primaryID fallbackID\<rparr>)"

definition rebind ::
  "pick_ctx \<Rightarrow> string \<Rightarrow> string \<Rightarrow> pick_times \<Rightarrow> affinity_request \<Rightarrow> auth list \<Rightarrow> SessionAffinitySelector
    \<Rightarrow> (pick_error + auth) \<times> SessionAffinitySelector" where
  "rebind cx provider model T req fallbackAuths s =
     (case Selector_Pick cx provider model (pt_fallback T) fallbackAuths (sa_fallback s) of
        (Inl err, sel) \<Rightarrow> (Inl err, s\<lparr>sa_fallback := sel\<rparr>)
      | (Inr a, sel) \<Rightarrow>
          (Inr a, s\<lparr>sa_fallback := sel, sa_cache := bindSession req (pt_bind T) (auth_ID a) (sa_cache s)\<rparr>))"

definition pickBound ::
  "pick_ctx \<Rightarrow> string \<Rightarrow> string \<Rightarrow> pick_times \<Rightarrow> affinity_request \<Rightarrow> auth list \<Rightarrow> SessionAffinitySelector
    \<Rightarrow> (pick_error + auth) \<times> SessionAffinitySelector" where
  "pickBound cx provider model T req available s =
     (let fallbackAuths = highestPriorityAuths available;
          bound = (\<lambda>a s. (Inr a, s\<lparr>sa_cache := bindSession req (pt_bind T) (auth_ID a) (sa_cache s)\<rparr>));
          (cached, c1) = GetAndRefresh (pt_lookup T) (ar_cacheKey req) (sa_cache s);
          s1 = s\<lparr>sa_cache := c1\<rparr>
      in case cached of
           Some cachedAuthID \<Rightarrow>
             (case find (\<lambda>a. auth_ID a = cachedAuthID) available of
                Some a \<Rightarrow> bound a s1
              | None \<Rightarrow> rebind cx provider model T req fallbackAuths s1)
         | None \<Rightarrow>
             if ar_fallbackKey req = [] then rebind cx provider model T req fallbackAuths s1
             else
               let (inherited, c2) = Get (pt_parent T) (pt_parent_locked T) (ar_fallbackKey req) c1;
                   s2 = s1\<lparr>sa_cache := c2\<rparr>
               in case inherited of
                    None \<Rightarrow> rebind cx provider model T req fallbackAuths s2
                  | Some cachedAuthID \<Rightarrow>
                      (case find (\<lambda>a. auth_ID a = cachedAuthID \<and>
                               (\<not> ar_isSubagent req \<or> allowsSubagentAuthInheritance (Some a) model)) available of
                         Some a \<Rightarrow> bound a s2
                       | None \<Rightarrow> rebind cx provider model T req fallbackAuths s2))"

text \<open>The pick by the prefix of a conversation: \<open>None\<close> when the request has no usable turns or no namespace.\<close>

definition matchedSession :: "string \<Rightarrow> meta_map \<Rightarrow> meta_map" where
  "matchedSession sessionID md =
     AList.update ''canonical_session_id'' (MetaString sessionID)
       (AList.update ''lcp_affinity_session_id'' (MetaString sessionID) md)"

text \<open>The turns of a request. The extraction returns (\<open>turn_extraction_ends\<close>), so there is always a value to take.\<close>

definition requestTurns :: "'r extract_env \<Rightarrow> Options \<Rightarrow> CanonicalTurn list" where
  "requestTurns E opts = the (ExtractCanonicalTurns E (op_SourceFormat opts) (op_OriginalRequest opts))"

definition pickLCP ::
  "'r extract_env \<Rightarrow> pick_ctx \<Rightarrow> string \<Rightarrow> string \<Rightarrow> pick_times \<Rightarrow> Options \<Rightarrow> auth list \<Rightarrow> SessionAffinitySelector
    \<Rightarrow> ((pick_error + auth) \<times> meta_map \<times> SessionAffinitySelector) option" where
  "pickLCP E cx provider model T opts auths s =
     (let env = xt_turn E;
          namespace = lcpAffinityNamespace provider model (op_Metadata opts);
          turns = requestTurns E opts;
          (fingerprints, minPrefixLength) = Prepare env turns (sa_matcher s);
          md = AList.update ''lcp_min_prefix_length'' (MetaInt (int minPrefixLength))
                 (AList.update ''lcp_fingerprints'' (MetaStrings fingerprints) (op_Metadata opts))
      in if namespace = [] \<or> turns = [] \<or> fingerprints = [] \<or> minPrefixLength = 0 \<or> minPrefixLength > length fingerprints
         then None
         else case getAvailableAuthsAcrossPriorities (availabilityCandidates (sa_fallback s) auths) provider model (pt_available T) of
                Inl err \<Rightarrow> Some (Inl err, md, s)
              | Inr available \<Rightarrow>
                  let (match, m1) = MatchFingerprints env namespace fingerprints minPrefixLength (pt_lookup T) (sa_matcher s);
                      s1 = s\<lparr>sa_matcher := m1\<rparr>;
                      hit = (case match of
                               None \<Rightarrow> None
                             | Some r \<Rightarrow> map_option (\<lambda>a. (r, a)) (find (\<lambda>a. auth_ID a = mt_AuthID r) available))
                  in case hit of
                       Some (r, a) \<Rightarrow>
                         Some (Inr a, if mt_SessionID r \<noteq> [] then matchedSession (mt_SessionID r) md else md,
                           s1\<lparr>sa_matcher := snd (TouchFingerprints env namespace fingerprints minPrefixLength (auth_ID a)
                                 (pt_bind T) m1)\<rparr>)
                     | None \<Rightarrow>
                         (case Selector_Pick cx provider model (pt_fallback T) (highestPriorityAuths available) (sa_fallback s1) of
                            (Inl err, sel) \<Rightarrow> Some (Inl err, md, s1\<lparr>sa_fallback := sel\<rparr>)
                          | (Inr a, sel) \<Rightarrow>
                              let (sessionID, m2) = BindFingerprints env namespace fingerprints minPrefixLength (auth_ID a) (pt_bind T) m1
                              in Some (Inr a, if sessionID \<noteq> [] then matchedSession sessionID md else md,
                                   s1\<lparr>sa_fallback := sel, sa_matcher := m2\<rparr>)))"

definition affinity_Pick ::
  "'r extract_env \<Rightarrow> pick_ctx \<Rightarrow> string \<Rightarrow> string \<Rightarrow> pick_times \<Rightarrow> Options \<Rightarrow> auth list \<Rightarrow> SessionAffinitySelector
    \<Rightarrow> (pick_error + auth) \<times> meta_map \<times> SessionAffinitySelector" where
  "affinity_Pick E cx provider model T opts0 auths s =
     (let opts = opts0\<lparr>op_Metadata := AList.update ''session_affinity_model'' (MetaString model)
                        (AList.update ''session_affinity_provider'' (MetaString provider) (op_Metadata opts0))\<rparr>;
          explicit = extractExplicitSessionIDs (xt_gjson E) (op_Headers opts) (op_OriginalRequest opts) (op_Metadata opts);
          lcp = (if fst explicit = [] then pickLCP E cx provider model T opts auths s else None)
      in case lcp of
           Some outcome \<Rightarrow> outcome
         | None \<Rightarrow>
             let (primaryID, fallbackID) =
                   (if fst explicit = []
                    then extractSessionIDs (xt_gjson E) (op_Headers opts) (op_OriginalRequest opts) (op_Metadata opts)
                    else explicit);
                 md = (if primaryID \<noteq> [] then AList.update ''canonical_session_id'' (MetaString primaryID) (op_Metadata opts)
                       else op_Metadata opts);
                 candidates = availabilityCandidates (sa_fallback s) auths
             in if primaryID = []
                then case getAvailableAuths candidates provider model (pt_available T) of
                       Inl err \<Rightarrow> (Inl err, md, s)
                     | Inr fallbackAuths \<Rightarrow>
                         (let (r, sel) = Selector_Pick cx provider model (pt_fallback T) fallbackAuths (sa_fallback s)
                          in (r, md, s\<lparr>sa_fallback := sel\<rparr>))
                else case getAvailableAuthsAcrossPriorities candidates provider model (pt_available T) of
                       Inl err \<Rightarrow> (Inl err, md, s)
                     | Inr available \<Rightarrow>
                         (let (r, s') = pickBound cx provider model T (affinityRequest provider model primaryID fallbackID) available s
                          in (r, md, s')))"

section \<open>Results and removals\<close>

definition affinity_Stop :: "SessionAffinitySelector \<Rightarrow> SessionAffinitySelector" where
  "affinity_Stop s = s\<lparr>sa_matcher := matcher_Clear (sa_matcher s)\<rparr>"

definition affinity_InvalidateAuth :: "string \<Rightarrow> SessionAffinitySelector \<Rightarrow> SessionAffinitySelector" where
  "affinity_InvalidateAuth authID s =
     s\<lparr>sa_cache := InvalidateAuth authID (sa_cache s), sa_matcher := matcher_InvalidateAuth authID (sa_matcher s)\<rparr>"

text \<open>The namespace and the model of a result: those of the selection when the metadata has them.\<close>

definition affinityProvider :: "Result \<Rightarrow> Options \<Rightarrow> string" where
  "affinityProvider res opts =
     (case meta_string (op_Metadata opts) ''session_affinity_provider'' of
        Some raw \<Rightarrow> if raw \<noteq> [] then raw else rs_Provider res
      | None \<Rightarrow> rs_Provider res)"

definition affinityModel :: "Result \<Rightarrow> Options \<Rightarrow> string" where
  "affinityModel res opts =
     (case meta_string (op_Metadata opts) ''session_affinity_model'' of
        Some raw \<Rightarrow> if raw \<noteq> [] then canonicalModelKey raw else canonicalModelKey (rs_Model res)
      | None \<Rightarrow> canonicalModelKey (rs_Model res))"

definition lcpResult :: "'r extract_env \<Rightarrow> go_time \<Rightarrow> Result \<Rightarrow> Options \<Rightarrow> MerklePrefixMatcher \<Rightarrow> MerklePrefixMatcher" where
  "lcpResult E now res opts m =
     (let namespace = lcpAffinityNamespace (affinityProvider res opts) (affinityModel res opts) (op_Metadata opts);
          stored = lcpFingerprintsFromMetadata (op_Metadata opts);
          (fingerprints, minPrefixLength) =
            (if fst stored = []
             then let (fps, n) = Prepare (xt_turn E) (requestTurns E opts) m
                  in (fps, int n)
             else stored)
      in if namespace \<noteq> [] \<and> fingerprints \<noteq> [] \<and> minPrefixLength > 0 \<and> minPrefixLength \<le> int (length fingerprints)
         then if rs_Success res
              then snd (TouchFingerprints (xt_turn E) namespace fingerprints (nat minPrefixLength) (rs_AuthID res) now m)
              else snd (RemoveFingerprints (xt_turn E) namespace fingerprints (rs_AuthID res) now m)
         else m)"

definition cacheResult :: "go_time \<Rightarrow> go_time \<Rightarrow> bool \<Rightarrow> string \<Rightarrow> string \<Rightarrow> string \<Rightarrow> SessionCache \<Rightarrow> SessionCache" where
  "cacheResult t1 t2 success authID cacheKey fallbackKey c =
     (if success
      then let c1 = snd (Touch t1 cacheKey authID c)
           in if fallbackKey \<noteq> [] then snd (Touch t2 fallbackKey authID c1) else c1
      else let c1 = snd (CompareAndDelete cacheKey authID c)
           in if fallbackKey \<noteq> [] then snd (CompareAndDelete fallbackKey authID c1) else c1)"

definition affinity_OnResult ::
  "'r extract_env \<Rightarrow> go_time \<Rightarrow> go_time \<Rightarrow> go_time \<Rightarrow> Result \<Rightarrow> Options \<Rightarrow> SessionAffinitySelector \<Rightarrow> SessionAffinitySelector" where
  "affinity_OnResult E t0 t1 t2 res opts s =
     (let explicit = extractExplicitSessionIDs (xt_gjson E) (op_Headers opts) (op_OriginalRequest opts) (op_Metadata opts);
          ns = affinityProvider res opts;
          nsModel = affinityModel res opts;
          s1 = (if fst explicit = [] then s\<lparr>sa_matcher := lcpResult E t0 res opts (sa_matcher s)\<rparr> else s);
          (primaryID, fallbackID) =
            (if fst explicit = []
             then extractSessionIDs (xt_gjson E) (op_Headers opts) (op_OriginalRequest opts) (op_Metadata opts)
             else explicit);
          cacheKey = affinity_key ns primaryID nsModel;
          fallbackKey = (if fallbackID \<noteq> [] \<and> fallbackID \<noteq> primaryID \<and> \<not> isSubagentSession primaryID fallbackID
                         then affinity_key ns fallbackID nsModel else [])
      in if rs_AuthID res = [] then s
         else if rs_Error res \<noteq> None \<and>
                 shouldSkipCredentialCooldown (\<lambda>body path. gj_text (xt_gjson E) (gj_Parse (xt_gjson E) body) path) (rs_Error res)
         then s
         else if primaryID = [] \<and> fallbackID = [] then s1
         else s1\<lparr>sa_cache := cacheResult t1 t2 (rs_Success res) (rs_AuthID res) cacheKey fallbackKey (sa_cache s1)\<rparr>)"

end
