(* ===== verification/SelectorContract.thy ===== *)
theory SelectorContract
  imports Affinity
begin

text \<open>
  What a selector promises to the one that wraps it: it returns a candidate that is free at its reading of the
  clock, and fails only when none is. The built-in selectors keep the promise, the weighted one for the
  candidates of positive weight.
\<close>

section \<open>Candidates over time\<close>

lemma free_now_later: "0 \<le> t \<Longrightarrow> t \<le> t' \<Longrightarrow> free_now model t a \<Longrightarrow> free_now model t' a"
proof -
  assume t: "0 \<le> t" "t \<le> t'" and free: "free_now model t a"
  obtain b r n where v: "isAuthBlockedForModel (Some a) model t = (b, r, n)" by (rule prod_cases3)
  have "\<not> b" using free v by (simp add: free_now_def)
  then show "free_now model t' a" using isAuthBlocked_over_time[OF t v] unfolding free_now_def by blast
qed

lemma across_priorities:
  assumes "0 \<le> now"
  shows "case getAvailableAuthsAcrossPriorities auths provider model now of
      Inl err \<Rightarrow> filter (free_now model now) auths = []
    | Inr available \<Rightarrow> available \<noteq> [] \<and> set available = set (filter (free_now model now) auths)"
proof -
  obtain av c e where col: "collectAvailableByPriority auths model now = (av, c, e)"
    by (cases "collectAvailableByPriority auths model now")
  have wf: "wf_map av" and keys: "\<And>p. has_key av p \<longleftrightarrow> map_get [] av p \<noteq> []"
    and bucket: "\<And>p. map_get [] av p = filter (\<lambda>a. free_now model now a \<and> authPriority (Some a) = p) auths"
    using collectAvailableLoop_spec[OF assms, of "[]" model auths 0 0] col by (simp_all add: collectAvailableByPriority_def)
  let ?all = "concat (map snd av)"
  have get: "map_get [] av p = as" if "(p, as) \<in> set av" for p as
    using map_of_SomeI[OF wf that] by (simp add: map_get_def)
  have "set ?all = set (filter (free_now model now) auths)"
  proof (intro equalityI subsetI)
    fix a assume "a \<in> set ?all"
    then obtain p as where "(p, as) \<in> set av" "a \<in> set as" by auto
    then show "a \<in> set (filter (free_now model now) auths)" using get[of p as] bucket[of p] by auto
  next
    fix a assume a: "a \<in> set (filter (free_now model now) auths)"
    let ?p = "authPriority (Some a)"
    have mem: "a \<in> set (map_get [] av ?p)" using a bucket by simp
    then have "has_key av ?p" using keys[of ?p] by (metis empty_iff empty_set)
    then obtain as where "(?p, as) \<in> set av" by (auto simp: has_key_iff)
    with mem get[of ?p as] show "a \<in> set ?all" by force
  qed
  moreover have "av = [] \<longleftrightarrow> ?all = []"
  proof
    assume "?all = []"
    then have none: "filter (free_now model now) auths = []" using \<open>set ?all = _\<close> by (metis empty_set set_empty)
    show "av = []"
    proof (rule ccontr)
      assume "av \<noteq> []"
      then obtain p as where pa: "(p, as) \<in> set av" by (metis list.set_intros(1) neq_Nil_conv surj_pair)
      then have "map_get [] av p \<noteq> []" using keys[of p] by (force simp: has_key_iff)
      then show False using bucket[of p] none by (simp add: filter_empty_conv)
    qed
  qed simp
  ultimately show ?thesis
    using col
    by (auto simp: getAvailableAuthsAcrossPriorities_def getAvailableAuthsWithPriorityMode_def
        availableAuthsFromPriorityBuckets_def Let_def filter_empty_conv simp del: set_filter)
qed

lemma highestPriority_loop:
  "0 < k \<Longrightarrow> (\<exists>x \<in> X. authPriority (Some x) = p0) \<Longrightarrow>
   \<exists>b n. foldl (\<lambda>(best, count) a.
       let priority = authPriority (Some a)
       in if count = 0 \<or> priority > best then (priority, 1::nat)
          else if priority = best then (best, count + 1) else (best, count)) (p0, k) auths = (b, n) \<and>
     (\<exists>x \<in> X \<union> set auths. authPriority (Some x) = b)"
proof (induction auths arbitrary: p0 k X)
  case (Cons a auths)
  let ?p = "authPriority (Some a)"
  let ?best = "if ?p > p0 then ?p else p0" and ?count = "if ?p > p0 then 1 else if ?p = p0 then k + 1 else k"
  have "\<exists>x \<in> insert a X. authPriority (Some x) = ?best" using Cons.prems(2) by auto
  from Cons.IH[OF _ this, of ?count] Cons.prems(1) show ?case by (auto simp: Let_def)
qed auto

lemma highestPriority_sub:
  assumes "available \<noteq> []"
  shows "highestPriorityAuths available \<noteq> [] \<and> set (highestPriorityAuths available) \<subseteq> set available"
proof -
  obtain a as where a: "available = a # as" using assms by (cases available) auto
  obtain b n where f: "foldl (\<lambda>(best, count) a.
       let priority = authPriority (Some a)
       in if count = 0 \<or> priority > best then (priority, 1::nat)
          else if priority = best then (best, count + 1) else (best, count)) (authPriority (Some a), 1) as = (b, n)"
    "\<exists>x \<in> {a} \<union> set as. authPriority (Some x) = b"
    using highestPriority_loop[of 1 "{a}" "authPriority (Some a)" as] by auto
  then have "filter (\<lambda>a. authPriority (Some a) = b) available \<noteq> []" by (auto simp: filter_empty_conv a)
  then show ?thesis using f(1) by (auto simp: highestPriorityAuths_def a Let_def)
qed

section \<open>The contract\<close>

locale picker =
  fixes pick :: "go_time \<Rightarrow> auth list \<Rightarrow> 's \<Rightarrow> (pick_error + auth) \<times> 's"
    and model :: string
    and eligible :: "'s \<Rightarrow> auth \<Rightarrow> bool"
  assumes picks: "0 \<le> now \<Longrightarrow> fst (pick now auths s) = Inr a \<Longrightarrow> a \<in> set auths \<and> eligible s a \<and> free_now model now a"
    and finds: "0 \<le> now \<Longrightarrow> b \<in> set auths \<Longrightarrow> eligible s b \<Longrightarrow> free_now model now b \<Longrightarrow> \<exists>a. fst (pick now auths s) = Inr a"
    and keeps: "eligible (snd (pick now auths s)) = eligible s"
begin

lemma pick_iff:
  "0 \<le> now \<Longrightarrow> (\<exists>a. fst (pick now auths s) = Inr a) \<longleftrightarrow> (\<exists>b \<in> set auths. eligible s b \<and> free_now model now b)"
  using picks finds by blast

lemma pick_later:
  assumes "0 \<le> t" "t \<le> now" "auths \<noteq> []" "\<forall>b \<in> set auths. eligible s b \<and> free_now model t b"
  obtains a where "fst (pick now auths s) = Inr a" "a \<in> set auths"
proof -
  have "0 \<le> now" using assms by linarith
  moreover have "hd auths \<in> set auths" using assms(3) by simp
  ultimately obtain a where "fst (pick now auths s) = Inr a"
    using finds[of now "hd auths" auths s] assms free_now_later by blast
  then show thesis using that picks[OF \<open>0 \<le> now\<close>] by blast
qed

end

lemma available_iff:
  assumes "0 \<le> now"
  shows "(\<exists>available. getAvailableAuths auths provider model now = Inr available) \<longleftrightarrow> (\<exists>b \<in> set auths. free_now model now b)"
  unfolding getAvailableAuths_eq[OF assms] by (auto simp: Let_def filter_empty_conv)

lemma selector_next_in: "selector_next xs lastID = Some a \<Longrightarrow> a \<in> set xs"
  by (auto simp: selector_next_def successorIndex_def Let_def not_le split: if_splits)

interpretation round_robin: picker "\<lambda>now auths s. RoundRobin_Pick ws provider model now auths s" model "\<lambda>s a. True"
  for ws provider model
proof
  fix now auths s a assume now: "0 \<le> (now :: go_time)"
  have pick: "\<exists>a. fst (RoundRobin_Pick ws provider model now auths s) = Inr a \<and> a \<in> set available"
    if "getAvailableAuths auths provider model now = Inr available" for available
    using RoundRobin_step[OF that getAvailableAuths_ne[OF now that], of ws s] selector_next_in
      preferCodex_filter[of ws provider available]
    by (metis filter_is_subset fst_conv in_mono)
  show "a \<in> set auths \<and> True \<and> free_now model now a" if r: "fst (RoundRobin_Pick ws provider model now auths s) = Inr a"
  proof -
    obtain available where av: "getAvailableAuths auths provider model now = Inr available"
      using r by (cases "getAvailableAuths auths provider model now") (auto simp: RoundRobin_Pick_def)
    then show ?thesis using pick[OF av] r getAvailableAuths_member[OF now av] by auto
  qed
  show "\<exists>a. fst (RoundRobin_Pick ws provider model now auths s) = Inr a" if "b \<in> set auths" "free_now model now b" for b
    using available_iff[OF now, of auths provider model] pick that by blast
qed simp

interpretation weighted: picker "\<lambda>now auths s. WeightedRoundRobin_Pick ws routeModel provider model now auths s" model
  "\<lambda>s a. 0 < authWeight (Some a)" for ws routeModel provider model
proof
  fix now auths s a assume now: "0 \<le> (now :: go_time)"
  note pick = weighted_pick_eligible[OF now, where ws = ws and routeModel = routeModel and provider = provider and model = model and auths = auths and s = s]
  show "a \<in> set auths \<and> 0 < authWeight (Some a) \<and> free_now model now a"
    if "fst (WeightedRoundRobin_Pick ws routeModel provider model now auths s) = Inr a"
    using pick that by simp
  show "\<exists>a. fst (WeightedRoundRobin_Pick ws routeModel provider model now auths s) = Inr a"
    if "b \<in> set auths" "0 < authWeight (Some b)" "free_now model now b" for b
    using pick that
    by (cases "fst (WeightedRoundRobin_Pick ws routeModel provider model now auths s)") (auto simp: list_all_iff not_le)
qed simp

interpretation fill_first: picker "\<lambda>now auths s. (FillFirst_Pick ws provider model now auths, s)" model "\<lambda>s a. True"
  for ws provider model
proof
  fix now auths a assume now: "0 \<le> (now :: go_time)"
  have pick: "\<exists>a. FillFirst_Pick ws provider model now auths = Inr a \<and> a \<in> set available"
    if "getAvailableAuths auths provider model now = Inr available" for available
    using preferCodex_filter[of ws provider available] getAvailableAuths_ne[OF now that] that
    by (metis FillFirst_Pick_def filter_is_subset in_mono length_greater_0_conv nth_mem sum.simps(6))
  show "a \<in> set auths \<and> True \<and> free_now model now a"
    if "fst (FillFirst_Pick ws provider model now auths, s) = Inr a" for s :: 'a
  proof -
    have r: "FillFirst_Pick ws provider model now auths = Inr a" using that by simp
    then obtain available where av: "getAvailableAuths auths provider model now = Inr available"
      by (cases "getAvailableAuths auths provider model now") (auto simp: FillFirst_Pick_def)
    then show ?thesis using pick[OF av] r getAvailableAuths_member[OF now av] by auto
  qed
  show "\<exists>a. fst (FillFirst_Pick ws provider model now auths, s) = Inr a" if "b \<in> set auths" "free_now model now b" for b and s :: 'a
    using available_iff[OF now, of auths provider model] pick that by fastforce
qed simp

text \<open>The wrapped selector of the session-affinity selector.\<close>

definition selector_eligible :: "Selector \<Rightarrow> auth \<Rightarrow> bool" where
  "selector_eligible sel a \<longleftrightarrow> (is_weighted sel \<longrightarrow> 0 < authWeight (Some a))"

interpretation wrapped: picker "\<lambda>now auths sel. Selector_Pick cx provider model now auths sel" model selector_eligible
  for cx provider model
proof
  fix now auths sel a b assume now: "0 \<le> (now :: go_time)"
  show "a \<in> set auths \<and> selector_eligible sel a \<and> free_now model now a"
    if "fst (Selector_Pick cx provider model now auths sel) = Inr a"
    using that round_robin.picks[OF now, of "cx_websocket cx" provider model auths] fill_first.picks[OF now, of "cx_websocket cx" provider model auths]
      weighted.picks[OF now, of "cx_websocket cx" "cx_routeModel cx" provider model auths]
    by (cases sel) (auto simp: Selector_Pick_def selector_eligible_def is_weighted_def split_beta Let_def)
  show "\<exists>a. fst (Selector_Pick cx provider model now auths sel) = Inr a"
    if "b \<in> set auths" "selector_eligible sel b" "free_now model now b"
    using that round_robin.finds[OF now, where b = b and auths = auths and model = model and ws = "cx_websocket cx" and provider = provider]
      fill_first.finds[OF now, where b = b and auths = auths and model = model and ws = "cx_websocket cx" and provider = provider]
      weighted.finds[OF now, where b = b and auths = auths and model = model and ws = "cx_websocket cx" and provider = provider
        and routeModel = "cx_routeModel cx"]
    by (cases sel) (simp_all add: Selector_Pick_def selector_eligible_def is_weighted_def split_beta Let_def)
qed (auto simp: Selector_Pick_def selector_eligible_def is_weighted_def fun_eq_iff split_beta Let_def split: Selector.splits)

lemma candidates_eligible: "set (availabilityCandidates sel auths) = {a \<in> set auths. selector_eligible sel a}"
  by (auto simp: availabilityCandidates_def selector_eligible_def positiveWeightAuths_def)

end
