(* ===== verification/AffinityFacts.thy ===== *)
theory AffinityFacts
  imports SelectorContract PrefixRuns
begin

text \<open>
  The operations of the session-affinity selector keep the invariants of the session cache and of the prefix
  matcher, and what they do to the binding of a session.
\<close>

section \<open>Sessions\<close>

lemma add_aliases_append: "\<exists>ys. add_aliases aliases xs = aliases @ ys"
  by (induction aliases xs rule: add_aliases.induct) auto

lemma merge_append: "\<exists>ys. mergeSessionAliases (s # xs) candidates = s # ys" if "s \<noteq> []"
proof -
  have "add_aliases [] (s # xs) = add_aliases [s] xs" using that by simp
  then obtain ys where "add_aliases [] (s # xs) = s # ys" using add_aliases_append[of "[s]" xs] by auto
  then show ?thesis using add_aliases_append[of "s # ys" candidates] by (auto simp: mergeSessionAliases_def)
qed

lemma merges_append: "s \<noteq> [] \<Longrightarrow> \<exists>ys. foldl (\<lambda>al g. mergeSessionAliases al (sn_aliases g)) (s # xs) live = s # ys"
proof (induction live arbitrary: xs)
  case (Cons g live)
  obtain zs where "mergeSessionAliases (s # xs) (sn_aliases g) = s # zs" using merge_append[OF Cons.prems] by blast
  then show ?case using Cons.IH[OF Cons.prems] by simp
qed simp

lemma compact_head: "\<exists>ys. compactSessionAliases (s # xs) = s # ys"
  by (simp add: compactSessionAliases_def compactSessionAliasesWith_def maxStableSessionAliases_def)

text \<open>Binding several identities binds at least the first.\<close>

lemma SetAliases_head:
  assumes ok: "cache_ok c" and s: "s \<noteq> []" "auth \<noteq> []" and room: "65 \<le> sc_maxEntries c"
  shows "fst (Get t1 t2 s (SetAliases now auth (s # ids) c)) =
    (if t1 < now + sc_ttl c \<or> t2 < now + sc_ttl c then Some auth else None)"
proof -
  let ?ids = "s # ids" and ?c' = "SetAliases now auth (s # ids) c"
  let ?live = "List.map_filter (\<lambda>a. spec_live now a (store c)) ?ids"
  let ?al = "compactSessionAliases (foldl (\<lambda>al g. mergeSessionAliases al (sn_aliases g)) (mergeSessionAliases [] ?ids) ?live)"
  let ?e = "\<lparr>sn_authID = auth, sn_expiresAt = now + sc_ttl c, sn_aliases = ?al\<rparr>"
  let ?rest = "filter (\<lambda>g. set (sn_aliases g) \<inter> set ?ids = {}) (store c)"
  have "mergeSessionAliases [] ?ids = add_aliases [s] ids" using s(1) by (simp add: mergeSessionAliases_def)
  then obtain xs where "mergeSessionAliases [] ?ids = s # xs" using add_aliases_append[of "[s]" ids] by auto
  then obtain zs where "foldl (\<lambda>al g. mergeSessionAliases al (sn_aliases g)) (mergeSessionAliases [] ?ids) ?live = s # zs"
    using merges_append[OF s(1), of xs ?live] by auto
  then obtain ys where al: "?al = s # ys" using compact_head[of s zs] by auto
  note new = SetAliases_spec[OF ok s(2), of now ?ids]
  have ok': "cache_ok ?c'" using new by blast
  have "store ?c' = fit (sc_maxEntries c) (?rest @ [?e])"
    using new al unfolding spec_bind_def Let_def by (metis list.distinct(1))
  moreover have "int (length (sn_aliases ?e)) \<le> sc_maxEntries c"
    using within_limits_length[OF compact_limits, of "foldl (\<lambda>al g. mergeSessionAliases al (sn_aliases g)) (mergeSessionAliases [] ?ids) ?live"] room
    by simp
  ultimately obtain hs where "store ?c' = hs @ [?e]" using fit_last[of ?e "sc_maxEntries c" ?rest] by auto
  then have "spec_lookup s (store ?c') = Some ?e"
    unfolding lookup_iff[OF cache_ok_linked[OF ok']] using al by simp
  then show ?thesis by (simp add: Get_answer[OF ok'] spec_answer_def)
qed

definition keeps_cache :: "SessionCache \<Rightarrow> SessionCache \<Rightarrow> bool" where
  "keeps_cache c c' \<longleftrightarrow> cache_ok c' \<and> sc_maxEntries c' = sc_maxEntries c \<and> sc_ttl c' = sc_ttl c"

lemma keeps_cache_refl: "cache_ok c \<Longrightarrow> keeps_cache c c"
  by (simp add: keeps_cache_def)

lemma keeps_cache_trans: "keeps_cache c c' \<Longrightarrow> keeps_cache c' c'' \<Longrightarrow> keeps_cache c c''"
  by (simp add: keeps_cache_def)

lemma keeps_cache_exec: "cache_ok c \<Longrightarrow> keeps_cache c (snd (cache_exec op c))"
  using exec_refines[of c op] by (simp add: refines_def keeps_cache_def)

lemma keeps_cache_ops:
  assumes "cache_ok c"
  shows "keeps_cache c (snd (GetAndRefresh now s c))" "keeps_cache c (snd (Get t1 t2 s c))"
    "keeps_cache c (SetAliases now auth ids c)" "keeps_cache c (Set now s auth c)" "keeps_cache c (snd (Touch now s auth c))"
    "keeps_cache c (snd (CompareAndDelete s auth c))" "keeps_cache c (InvalidateAuth auth c)" "keeps_cache c (cleanup now c)"
  using keeps_cache_exec[OF assms, of "Op_GetAndRefresh now s"] keeps_cache_exec[OF assms, of "Op_Get t1 t2 s"]
    keeps_cache_exec[OF assms, of "Op_SetAliases now auth ids"] keeps_cache_exec[OF assms, of "Op_Set now s auth"]
    keeps_cache_exec[OF assms, of "Op_Touch now s auth"] keeps_cache_exec[OF assms, of "Op_CompareAndDelete s auth"]
    keeps_cache_exec[OF assms, of "Op_InvalidateAuth auth"] keeps_cache_exec[OF assms, of "Op_cleanup now"]
  by simp_all

lemma GetAndRefresh_answer: "fst (GetAndRefresh now s c) = fst (Get now now s c)" if "cache_ok c"
  using cache_ok_lookup(3)[OF that, of s]
  by (auto simp: GetAndRefresh_def Get_def Get_locked_def cache_ok_entries[OF that] Let_def split: option.split)

lemma CompareAndDelete_answer:
  assumes "cache_ok c"
  shows "fst (Get t1 t2 b (snd (CompareAndDelete s auth c))) =
    (if b = s \<and> fst (Get t1 t2 b c) = Some auth then None else fst (Get t1 t2 b c))"
proof -
  have "fst (CompareAndDelete s auth c)" if got: "fst (Get t1 t2 s c) = Some auth"
  proof -
    obtain g where g: "spec_lookup s (store c) = Some g" "sn_authID g = auth"
      using got by (auto simp: Get_answer[OF assms] spec_answer_def split: option.splits if_splits)
    then show ?thesis
      using cache_ok_lookup(3,4)[OF assms g(1)] by (simp add: CompareAndDelete_def cache_ok_entries[OF assms] group_ok_def)
  qed
  moreover have "fst (Get t1 t2 s c) \<in> {None, Some auth}" if "fst (CompareAndDelete s auth c)"
    using that by (auto simp: CompareAndDelete_def cache_ok_entries[OF assms] Get_answer[OF assms] spec_answer_def split: option.splits if_splits)
  ultimately show ?thesis using removals_exact(2)[OF assms, of t1 t2 b s auth] by auto
qed

section \<open>Conversations\<close>

lemma sanitized:
  "0 < mt \<Longrightarrow> sanitizeFingerprints mt fps0 low0 = Some (fps, low) \<Longrightarrow> 0 < low \<and> low \<le> length fps \<and> length fps \<le> mt"
  by (auto simp: sanitizeFingerprints_def Let_def split: if_splits)

definition keeps_matcher :: "turn_env \<Rightarrow> MerklePrefixMatcher \<Rightarrow> MerklePrefixMatcher \<Rightarrow> bool" where
  "keeps_matcher env m m' \<longleftrightarrow> matcher_ok env m' \<and> mm_ttl m' = mm_ttl m \<and> mm_maxTurns m' = mm_maxTurns m"

lemma keeps_matcher_refl: "matcher_ok env m \<Longrightarrow> keeps_matcher env m m"
  by (simp add: keeps_matcher_def)

lemma keeps_matcher_trans: "keeps_matcher env m m' \<Longrightarrow> keeps_matcher env m' m'' \<Longrightarrow> keeps_matcher env m m''"
  by (simp add: keeps_matcher_def)

lemma step_keeps_matcher: "step_keeps env i m m' \<Longrightarrow> keeps_matcher env m m'"
  by (simp add: step_keeps_def keeps_matcher_def)

lemma binds_keeps: "binds env j n fps low auth s now m m2 \<Longrightarrow> keeps_matcher env m m2"
  by (auto simp: binds_def keeps_matcher_def)

lemma bindLocked_keeps:
  assumes "matcher_ok env m" "0 < low" "low \<le> length fps" "length fps \<le> mm_maxTurns m"
  shows "keeps_matcher env m (snd (bindLocked env n fps low auth now m))"
  by (cases rule: bindLocked_spec[OF assms, where n = n and auth = auth and now = now]) (auto dest: binds_keeps)

lemma touchLocked_keeps:
  assumes "matcher_ok env m" "0 < low" "low \<le> length fps" "length fps \<le> mm_maxTurns m"
  shows "keeps_matcher env m (snd (touchLocked env n fps low auth now m))"
proof (cases "reg m n (sequenceKey env fps)")
  case None
  then show ?thesis using bindLocked_keeps[OF assms] by (simp add: touchLocked_def ns_reg)
next
  case (Some e)
  have e: "e \<in> set (mm_lru m)" using Some assms(1) lcp_linked_reg by (auto simp: matcher_ok_def)
  have r: "keeps_matcher env m (removeGroupLocked e m)"
    using step_keeps_remove[OF assms(1) e] by (rule step_keeps_matcher)
  then have "keeps_matcher env m (snd (bindLocked env n fps low auth now (removeGroupLocked e m)))"
    using bindLocked_keeps[of env "removeGroupLocked e m" low fps n auth now] assms(2-4)
    by (auto simp: keeps_matcher_def)
  moreover have "keeps_matcher env m (touchGroup e now m)"
    using step_keeps_touch[OF assms(1) e] by (rule step_keeps_matcher)
  ultimately show ?thesis using Some keeps_matcher_refl[OF assms(1)] by (simp add: touchLocked_def ns_reg Let_def)
qed

lemma keeps_matcher_prepared:
  assumes "matcher_ok env m"
    and "\<And>m'. matcher_ok env m' \<Longrightarrow> mm_maxTurns m' = mm_maxTurns m \<Longrightarrow> keeps_matcher env m' (f m')"
  shows "keeps_matcher env m (f (prepareLocked now m))"
proof -
  have "keeps_matcher env m (prepareLocked now m)" using step_keeps_prepare[OF assms(1)] by (rule step_keeps_matcher)
  moreover then have "keeps_matcher env (prepareLocked now m) (f (prepareLocked now m))"
    using assms(2) by (simp add: keeps_matcher_def)
  ultimately show ?thesis by (rule keeps_matcher_trans)
qed

lemma keeps_matcher_ops:
  assumes "matcher_ok env m"
  shows "keeps_matcher env m (snd (MatchFingerprints env n fps low now m))"
    and "keeps_matcher env m (snd (BindFingerprints env n fps low auth now m))"
    and "keeps_matcher env m (snd (TouchFingerprints env n fps low auth now m))"
    and "keeps_matcher env m (snd (RemoveFingerprints env n fps auth now m))"
    and "keeps_matcher env m (matcher_InvalidateAuth auth m)"
    and "keeps_matcher env m (matcher_Clear m)"
proof -
  note refl = keeps_matcher_refl[OF assms]
  have mt: "0 < mm_maxTurns m" using assms by (simp add: matcher_ok_def configured_def)
  note bounds = sanitized[OF mt]
  have match: "keeps_matcher env m (snd (matchLocked env n f l now (prepareLocked now m)))" for f l
    using step_keeps_match by (intro keeps_matcher_prepared[OF assms] step_keeps_matcher) blast
  then show "keeps_matcher env m (snd (MatchFingerprints env n fps low now m))"
    using refl by (simp add: MatchFingerprints_def split: option.split)
  have bind: "keeps_matcher env m (snd (bindLocked env n f l a now (prepareLocked now m)))"
    if "0 < l \<and> l \<le> length f \<and> length f \<le> mm_maxTurns m" for f l a
    using bindLocked_keeps that by (intro keeps_matcher_prepared[OF assms]) auto
  then show "keeps_matcher env m (snd (BindFingerprints env n fps low auth now m))"
    using refl bounds by (simp add: BindFingerprints_def split: option.split)
  have touch: "keeps_matcher env m (snd (touchLocked env n f l a now (prepareLocked now m)))"
    if "0 < l \<and> l \<le> length f \<and> length f \<le> mm_maxTurns m" for f l a
    using touchLocked_keeps that by (intro keeps_matcher_prepared[OF assms]) auto
  then show "keeps_matcher env m (snd (TouchFingerprints env n fps low auth now m))"
    using refl bounds by (simp add: TouchFingerprints_def split: option.split)
  have prep: "keeps_matcher env m (prepareLocked now m)" using step_keeps_prepare[OF assms] by (rule step_keeps_matcher)
  have okp: "matcher_ok env (prepareLocked now m)" using prep by (simp add: keeps_matcher_def)
  have rem: "keeps_matcher env m (removeGroupLocked p (prepareLocked now m))" if "reg (prepareLocked now m) n x = Some p" for p x
  proof -
    have "p \<in> set (mm_lru (prepareLocked now m))" using that lcp_linked_reg okp by (auto simp: matcher_ok_def)
    from keeps_matcher_trans[OF prep step_keeps_matcher[OF step_keeps_remove[OF okp this]]] show ?thesis .
  qed
  show "keeps_matcher env m (snd (RemoveFingerprints env n fps auth now m))"
    using rem prep refl by (auto simp: RemoveFingerprints_def Let_def reg_def split: option.splits)
  show "keeps_matcher env m (matcher_InvalidateAuth auth m)"
    using step_keeps_matcher[OF step_keeps_where[OF assms]] refl by (simp add: matcher_InvalidateAuth_def)
  have "configured m" using assms by (simp add: matcher_ok_def)
  then show "keeps_matcher env m (matcher_Clear m)"
    by (simp add: matcher_Clear_def keeps_matcher_def matcher_ok_def lcp_linked_def counted_def limited_def
        configured_def groups_ok_def reg_def bkt_def weight_def)
qed

end
