(* ===== verification/AffinityClaims.thy ===== *)
theory AffinityClaims
  imports AffinityFacts
begin

text \<open>
  What the session-affinity selector promises: a pick returns a usable credential whenever there is one, a session
  stays on its credential until the binding expires or a failure releases it, and no sequence of operations
  breaks the invariants of the cache and of the matcher.
\<close>

section \<open>One pick\<close>

text \<open>What a pick among the available credentials leaves: the binding of the session to the returned one.\<close>

definition bound_pick ::
  "pick_times \<Rightarrow> affinity_request \<Rightarrow> auth list \<Rightarrow> SessionAffinitySelector \<Rightarrow> (pick_error + auth) \<times> SessionAffinitySelector \<Rightarrow> bool" where
  "bound_pick T req available s r \<longleftrightarrow>
     (\<exists>a c'. fst r = Inr a \<and> a \<in> set available \<and> keeps_cache (sa_cache s) c' \<and>
        sa_cache (snd r) = bindSession req (pt_bind T) (auth_ID a) c' \<and> sa_matcher (snd r) = sa_matcher s \<and>
        selector_eligible (sa_fallback (snd r)) = selector_eligible (sa_fallback s))"

lemma rebind_bound:
  assumes "0 \<le> t" "t \<le> pt_fallback T" "available \<noteq> []"
    and "\<forall>b \<in> set available. selector_eligible (sa_fallback s) b \<and> free_now model t b" "keeps_cache (sa_cache s) c'"
  shows "bound_pick T req available s (rebind cx provider model T req (highestPriorityAuths available) (s\<lparr>sa_cache := c'\<rparr>))"
proof -
  note high = highestPriority_sub[OF assms(3)]
  obtain a where a: "fst (Selector_Pick cx provider model (pt_fallback T) (highestPriorityAuths available) (sa_fallback s)) = Inr a"
    "a \<in> set (highestPriorityAuths available)"
    using wrapped.pick_later[OF assms(1,2), where auths = "highestPriorityAuths available" and s = "sa_fallback s" and model = model]
      high assms(4) by blast
  then show ?thesis
    using high assms(5) wrapped.keeps[of cx provider model "pt_fallback T" "highestPriorityAuths available" "sa_fallback s"]
    by (auto simp: bound_pick_def rebind_def split: prod.split sum.split)
qed

lemma pickBound_bound:
  assumes "0 \<le> t" "t \<le> pt_fallback T" "available \<noteq> []"
    and "\<forall>b \<in> set available. selector_eligible (sa_fallback s) b \<and> free_now model t b" "cache_ok (sa_cache s)"
  shows "bound_pick T req available s (pickBound cx provider model T req available s)"
proof -
  obtain cached c1 where g: "GetAndRefresh (pt_lookup T) (ar_cacheKey req) (sa_cache s) = (cached, c1)" by (rule prod.exhaust)
  have c1: "keeps_cache (sa_cache s) c1"
    using keeps_cache_ops(1)[OF assms(5), of "pt_lookup T" "ar_cacheKey req"] g by simp
  obtain inherited c2 where p: "Get (pt_parent T) (pt_parent_locked T) (ar_fallbackKey req) c1 = (inherited, c2)" by (rule prod.exhaust)
  have "keeps_cache c1 c2"
    using keeps_cache_ops(2)[of c1 "pt_parent T" "pt_parent_locked T" "ar_fallbackKey req"] c1 p by (simp add: keeps_cache_def)
  then have c2: "keeps_cache (sa_cache s) c2" using c1 keeps_cache_trans by blast
  have found: "bound_pick T req available s (Inr a, s\<lparr>sa_cache := bindSession req (pt_bind T) (auth_ID a) c'\<rparr>)"
    if "find P available = Some a" "keeps_cache (sa_cache s) c'" for P a c'
    using that by (auto simp: bound_pick_def find_Some_iff)
  note new = rebind_bound[OF assms(1-4), where req = req and cx = cx and provider = provider]
  show ?thesis
    using found[OF _ c1] found[OF _ c2] new[OF c1] new[OF c2]
    by (simp add: pickBound_def g p Let_def split: option.split)
qed

text \<open>The identity of the session is the same before and after the selector has noted its own keys.\<close>

lemma explicit_noted:
  "key \<noteq> ''execution_session_id'' \<Longrightarrow>
   extractExplicitSessionIDs G headers payload (AList.update key v md) = extractExplicitSessionIDs G headers payload md"
  by (simp add: extractExplicitSessionIDs_def executionStage_def meta_string_def map_of_update)

definition noted :: "string \<Rightarrow> string \<Rightarrow> Options \<Rightarrow> Options" where
  "noted provider model opts =
     opts\<lparr>op_Metadata := AList.update ''session_affinity_model'' (MetaString model)
       (AList.update ''session_affinity_provider'' (MetaString provider) (op_Metadata opts))\<rparr>"

definition explicit_ids :: "'r extract_env \<Rightarrow> Options \<Rightarrow> string \<times> string" where
  "explicit_ids E opts = extractExplicitSessionIDs (xt_gjson E) (op_Headers opts) (op_OriginalRequest opts) (op_Metadata opts)"

lemma explicit_ids_noted [simp]: "explicit_ids E (noted provider model opts) = explicit_ids E opts"
  by (simp add: explicit_ids_def noted_def explicit_noted)

text \<open>The pick of a request with an explicit session.\<close>

lemma affinity_Pick_explicit:
  assumes "explicit_ids E opts = (primaryID, fallbackID)" "primaryID \<noteq> []"
  shows "affinity_Pick E cx provider model T opts auths s =
    (case getAvailableAuthsAcrossPriorities (availabilityCandidates (sa_fallback s) auths) provider model (pt_available T) of
       Inl err \<Rightarrow> (Inl err, AList.update ''canonical_session_id'' (MetaString primaryID) (op_Metadata (noted provider model opts)), s)
     | Inr available \<Rightarrow>
         (let (r, s') = pickBound cx provider model T (affinityRequest provider model primaryID fallbackID) available s
          in (r, AList.update ''canonical_session_id'' (MetaString primaryID) (op_Metadata (noted provider model opts)), s')))"
proof -
  have "extractExplicitSessionIDs (xt_gjson E) (op_Headers (noted provider model opts)) (op_OriginalRequest (noted provider model opts))
      (op_Metadata (noted provider model opts)) = (primaryID, fallbackID)"
    using assms(1) explicit_ids_noted[of E provider model opts] by (simp only: explicit_ids_def)
  then show ?thesis
    using assms(2) by (simp add: affinity_Pick_def Let_def noted_def[symmetric] del: explicit_ids_noted)
qed

lemma available_candidates:
  assumes "0 \<le> now" "getAvailableAuthsAcrossPriorities (availabilityCandidates sel auths) provider model now = Inr available"
  shows "available \<noteq> [] \<and> set available = {a \<in> set auths. selector_eligible sel a \<and> free_now model now a}"
  using across_priorities[OF assms(1), where auths = "availabilityCandidates sel auths" and provider = provider and model = model] assms(2)
  by (auto simp: candidates_eligible)

lemma no_candidates:
  assumes "0 \<le> now" "getAvailableAuthsAcrossPriorities (availabilityCandidates sel auths) provider model now = Inl err"
  shows "\<forall>a \<in> set auths. \<not> (selector_eligible sel a \<and> free_now model now a)"
  using across_priorities[OF assms(1), where auths = "availabilityCandidates sel auths" and provider = provider and model = model] assms(2) candidates_eligible[of sel auths]
  by (auto simp: filter_empty_conv)

text \<open>The outcome of a pick: a usable credential, or an error because there is none.\<close>

definition serves :: "string \<Rightarrow> go_time \<Rightarrow> Selector \<Rightarrow> auth list \<Rightarrow> pick_error + auth \<Rightarrow> bool" where
  "serves model t sel auths r \<longleftrightarrow>
     (case r of
        Inr a \<Rightarrow> a \<in> set auths \<and> selector_eligible sel a \<and> free_now model t a
      | Inl _ \<Rightarrow> list_all (\<lambda>a. \<not> (selector_eligible sel a \<and> free_now model t a)) auths)"

lemma pickLCP_serves:
  assumes t: "0 \<le> pt_available T" "pt_available T \<le> pt_fallback T"
    and r: "pickLCP E cx provider model T opts auths s = Some (r, md, s')"
  shows "serves model (pt_available T) (sa_fallback s) auths r"
proof (cases "getAvailableAuthsAcrossPriorities (availabilityCandidates (sa_fallback s) auths) provider model (pt_available T)")
  case (Inl err)
  then show ?thesis
    using r no_candidates[OF t(1) Inl]
    by (auto simp: pickLCP_def serves_def list_all_iff Let_def split: if_splits prod.splits)
next
  case (Inr available)
  note av = available_candidates[OF t(1) Inr]
  note high = highestPriority_sub[OF conjunct1[OF av]]
  obtain a where a: "fst (Selector_Pick cx provider model (pt_fallback T) (highestPriorityAuths available) (sa_fallback s)) = Inr a"
    "a \<in> set (highestPriorityAuths available)"
    using wrapped.pick_later[OF t, where auths = "highestPriorityAuths available" and s = "sa_fallback s" and model = model]
      high av by blast
  obtain sel where sel: "Selector_Pick cx provider model (pt_fallback T) (highestPriorityAuths available) (sa_fallback s) = (Inr a, sel)"
    using a(1) by (cases "Selector_Pick cx provider model (pt_fallback T) (highestPriorityAuths available) (sa_fallback s)") auto
  have "\<exists>b \<in> set available. r = Inr b"
    using r a(2) high
    by (auto simp: pickLCP_def Inr sel Let_def find_Some_iff split: if_splits prod.splits option.splits)
  then show ?thesis using av by (auto simp: serves_def)
qed

text \<open>A pick serves whenever it can: whatever the bindings, the returned credential is one of the candidates, is free at
  the time of the pick, and has a positive weight when the wrapped selector is weighted; an error is returned
  only when no candidate is like that.\<close>

lemma pick_serves:
  assumes "0 \<le> pt_available T" "pt_available T \<le> pt_fallback T" "cache_ok (sa_cache s)"
  shows "serves model (pt_available T) (sa_fallback s) auths (fst (affinity_Pick E cx provider model T opts auths s))"
proof -
  let ?fb = "sa_fallback s" and ?opts = "noted provider model opts" and ?candidates = "availabilityCandidates (sa_fallback s) auths"
  let ?explicit = "extractExplicitSessionIDs (xt_gjson E) (op_Headers ?opts) (op_OriginalRequest ?opts) (op_Metadata ?opts)"
  let ?ids = "if fst ?explicit = [] then extractSessionIDs (xt_gjson E) (op_Headers ?opts) (op_OriginalRequest ?opts) (op_Metadata ?opts) else ?explicit"
  have bound: "serves model (pt_available T) ?fb auths (case getAvailableAuthsAcrossPriorities ?candidates provider model (pt_available T) of
      Inl err \<Rightarrow> Inl err | Inr available \<Rightarrow> fst (pickBound cx provider model T req available s))" for req
  proof (cases "getAvailableAuthsAcrossPriorities ?candidates provider model (pt_available T)")
    case (Inl err)
    then show ?thesis using no_candidates[OF assms(1) Inl] by (simp add: serves_def list_all_iff)
  next
    case (Inr available)
    note av = available_candidates[OF assms(1) Inr]
    have "bound_pick T req available s (pickBound cx provider model T req available s)"
      by (rule pickBound_bound[OF assms(1,2) _ _ assms(3)]) (use av in auto)
    then show ?thesis using av Inr by (auto simp: serves_def bound_pick_def)
  qed
  have cold: "serves model (pt_available T) ?fb auths (case getAvailableAuths ?candidates provider model (pt_available T) of
      Inl err \<Rightarrow> Inl err | Inr available \<Rightarrow> fst (Selector_Pick cx provider model (pt_fallback T) available ?fb))"
  proof (cases "getAvailableAuths ?candidates provider model (pt_available T)")
    case (Inl err)
    then show ?thesis
      using available_iff[OF assms(1), of ?candidates provider model] candidates_eligible[of ?fb auths] by (auto simp: serves_def list_all_iff)
  next
    case (Inr available)
    have sub: "b \<in> set auths \<and> selector_eligible ?fb b \<and> free_now model (pt_available T) b" if "b \<in> set available" for b
      using getAvailableAuths_member[OF assms(1) Inr that] candidates_eligible[of ?fb auths] by blast
    then obtain a where "fst (Selector_Pick cx provider model (pt_fallback T) available ?fb) = Inr a" "a \<in> set available"
      using wrapped.pick_later[OF assms(1,2) getAvailableAuths_ne[OF assms(1) Inr], of ?fb model] by blast
    then show ?thesis using sub Inr by (simp add: serves_def)
  qed
  show ?thesis
  proof (cases "if fst ?explicit = [] then pickLCP E cx provider model T ?opts auths s else None")
    case (Some outcome)
    then have p: "fst ?explicit = []" "pickLCP E cx provider model T ?opts auths s = Some outcome" by (simp_all split: if_splits)
    then have "affinity_Pick E cx provider model T opts auths s = outcome"
      by (simp add: affinity_Pick_def noted_def[symmetric] Let_def)
    then show ?thesis using pickLCP_serves[OF assms(1,2)] p(2) by (cases outcome) auto
  next
    case None
    then have "fst (affinity_Pick E cx provider model T opts auths s) =
        (if fst ?ids = []
         then (case getAvailableAuths ?candidates provider model (pt_available T) of
                 Inl err \<Rightarrow> Inl err | Inr available \<Rightarrow> fst (Selector_Pick cx provider model (pt_fallback T) available ?fb))
         else (case getAvailableAuthsAcrossPriorities ?candidates provider model (pt_available T) of
                 Inl err \<Rightarrow> Inl err
               | Inr available \<Rightarrow> fst (pickBound cx provider model T (affinityRequest provider model (fst ?ids) (snd ?ids)) available s)))"
      unfolding affinity_Pick_def noted_def[symmetric] Let_def split_beta by (simp split: sum.split)
    then show ?thesis using bound cold by (simp split: if_split)
  qed
qed

section \<open>Runs\<close>

datatype affinity_op =
    AffPick pick_ctx string string pick_times Options "auth list"
  | AffResult go_time go_time go_time Result Options
  | AffInvalidate string
  | AffCleanup go_time
  | AffStop

fun affinity_exec :: "'r extract_env \<Rightarrow> affinity_op \<Rightarrow> SessionAffinitySelector \<Rightarrow> SessionAffinitySelector" where
  "affinity_exec E (AffPick cx provider model T opts auths) s = snd (snd (affinity_Pick E cx provider model T opts auths s))"
| "affinity_exec E (AffResult t0 t1 t2 res opts) s = affinity_OnResult E t0 t1 t2 res opts s"
| "affinity_exec E (AffInvalidate authID) s = affinity_InvalidateAuth authID s"
| "affinity_exec E (AffCleanup now) s = s\<lparr>sa_cache := cleanup now (sa_cache s)\<rparr>"
| "affinity_exec E AffStop s = affinity_Stop s"

definition affinity_run :: "'r extract_env \<Rightarrow> affinity_op list \<Rightarrow> SessionAffinitySelector \<Rightarrow> SessionAffinitySelector" where
  "affinity_run E ops s = fold (affinity_exec E) ops s"

definition affinity_ok :: "'r extract_env \<Rightarrow> duration \<Rightarrow> SessionAffinitySelector \<Rightarrow> bool" where
  "affinity_ok E ttl s \<longleftrightarrow>
     cache_ok (sa_cache s) \<and> sc_maxEntries (sa_cache s) = defaultMaxSessionEntries \<and> sc_ttl (sa_cache s) = ttl \<and>
     matcher_ok (xt_turn E) (sa_matcher s) \<and> mm_ttl (sa_matcher s) = ttl \<and> mm_maxTurns (sa_matcher s) = 1024"

definition keeps_selector :: "'r extract_env \<Rightarrow> SessionAffinitySelector \<Rightarrow> SessionAffinitySelector \<Rightarrow> bool" where
  "keeps_selector E s s' \<longleftrightarrow> keeps_cache (sa_cache s) (sa_cache s') \<and> keeps_matcher (xt_turn E) (sa_matcher s) (sa_matcher s')"

lemma keeps_selector_ok: "affinity_ok E ttl s \<Longrightarrow> keeps_selector E s s' \<Longrightarrow> affinity_ok E ttl s'"
  by (simp add: affinity_ok_def keeps_selector_def keeps_cache_def keeps_matcher_def)

lemma bindSession_keeps: "keeps_cache c c1 \<Longrightarrow> keeps_cache c (bindSession req now auth c1)"
  using keeps_cache_ops(3,4)[of c1] keeps_cache_trans by (auto simp: bindSession_def keeps_cache_def)

lemma rebind_keeps:
  "keeps_cache (sa_cache s) (sa_cache s1) \<Longrightarrow> sa_matcher s1 = sa_matcher s \<Longrightarrow> matcher_ok (xt_turn E) (sa_matcher s) \<Longrightarrow>
   keeps_selector E s (snd (rebind cx provider model T req available s1))"
  by (simp add: rebind_def keeps_selector_def bindSession_keeps keeps_matcher_refl split: prod.split sum.split)

lemma pickBound_keeps:
  assumes "cache_ok (sa_cache s)" "matcher_ok (xt_turn E) (sa_matcher s)"
  shows "keeps_selector E s (snd (pickBound cx provider model T req available s))"
proof -
  obtain cached c1 where g: "GetAndRefresh (pt_lookup T) (ar_cacheKey req) (sa_cache s) = (cached, c1)" by (rule prod.exhaust)
  have c1: "keeps_cache (sa_cache s) c1"
    using keeps_cache_ops(1)[OF assms(1), of "pt_lookup T" "ar_cacheKey req"] g by simp
  obtain inherited c2 where p: "Get (pt_parent T) (pt_parent_locked T) (ar_fallbackKey req) c1 = (inherited, c2)" by (rule prod.exhaust)
  have "keeps_cache c1 c2"
    using keeps_cache_ops(2)[of c1 "pt_parent T" "pt_parent_locked T" "ar_fallbackKey req"] c1 p by (simp add: keeps_cache_def)
  then have c2: "keeps_cache (sa_cache s) c2" using c1 keeps_cache_trans by blast
  have new: "keeps_selector E s (snd (rebind cx provider model T req xs (s\<lparr>sa_cache := c\<rparr>)))"
    "keeps_selector E s (s\<lparr>sa_cache := bindSession req now auth c\<rparr>)" if "keeps_cache (sa_cache s) c" for c xs now auth
    using that rebind_keeps[of s "s\<lparr>sa_cache := c\<rparr>"] assms(2) bindSession_keeps[OF that]
    by (simp_all add: keeps_selector_def keeps_matcher_refl)
  show ?thesis
    using new[OF c1] new[OF c2] by (simp add: pickBound_def g p Let_def split: option.split)
qed

lemma pickLCP_keeps:
  assumes "cache_ok (sa_cache s)" "matcher_ok (xt_turn E) (sa_matcher s)"
    and "pickLCP E cx provider model T opts auths s = Some (r, md, s')"
  shows "keeps_selector E s s'"
proof -
  have step: "keeps_matcher (xt_turn E) (sa_matcher s) (snd (f m))"
    if "keeps_matcher (xt_turn E) (sa_matcher s) m"
      "\<And>m. matcher_ok (xt_turn E) m \<Longrightarrow> keeps_matcher (xt_turn E) m (snd (f m))" for f :: "MerklePrefixMatcher \<Rightarrow> 'b \<times> MerklePrefixMatcher" and m
    using that keeps_matcher_trans by (metis keeps_matcher_def)
  let ?fps = "fst (Prepare (xt_turn E) (requestTurns E opts) (sa_matcher s))"
  let ?low = "snd (Prepare (xt_turn E) (requestTurns E opts) (sa_matcher s))"
  let ?n = "lcpAffinityNamespace provider model (op_Metadata opts)"
  obtain match m1 where m: "MatchFingerprints (xt_turn E) ?n ?fps ?low (pt_lookup T) (sa_matcher s) = (match, m1)" by (rule prod.exhaust)
  have m1: "keeps_matcher (xt_turn E) (sa_matcher s) m1"
    using keeps_matcher_ops(1)[OF assms(2), of ?n ?fps ?low "pt_lookup T"] m by simp
  have touch: "keeps_matcher (xt_turn E) (sa_matcher s) (snd (TouchFingerprints (xt_turn E) ?n ?fps ?low auth (pt_bind T) m1))" for auth
    using step[OF m1 keeps_matcher_ops(3)] .
  have bind: "keeps_matcher (xt_turn E) (sa_matcher s) (snd (BindFingerprints (xt_turn E) ?n ?fps ?low auth (pt_bind T) m1))" for auth
    using step[OF m1 keeps_matcher_ops(2)] .
  have same: "keeps_cache (sa_cache s) (sa_cache s)" "keeps_matcher (xt_turn E) (sa_matcher s) (sa_matcher s)"
    using assms(1,2) by (simp_all add: keeps_cache_refl keeps_matcher_refl)
  show ?thesis
    using assms(3) same m1 touch bind
    by (auto simp: pickLCP_def split_beta Let_def m keeps_selector_def split: if_splits option.splits sum.splits)
qed

lemma lcpResult_keeps:
  assumes "matcher_ok (xt_turn E) m"
  shows "keeps_matcher (xt_turn E) m (lcpResult E now res opts m)"
  using keeps_matcher_ops(3,4)[OF assms] keeps_matcher_refl[OF assms] by (simp add: lcpResult_def split_beta Let_def)

lemma cacheResult_keeps: "cache_ok c \<Longrightarrow> keeps_cache c (cacheResult t1 t2 success auth k1 k2 c)"
  using keeps_cache_ops(5,6) keeps_cache_trans
  by (simp add: cacheResult_def Let_def) (meson keeps_cache_def)

lemma exec_keeps:
  assumes "cache_ok (sa_cache s)" "matcher_ok (xt_turn E) (sa_matcher s)"
  shows "keeps_selector E s (affinity_exec E op s)"
proof -
  have same: "keeps_cache (sa_cache s) (sa_cache s)" "keeps_matcher (xt_turn E) (sa_matcher s) (sa_matcher s)"
    using assms by (simp_all add: keeps_cache_refl keeps_matcher_refl)
  show ?thesis
  proof (cases op)
    case (AffPick cx provider model T opts auths)
    note bound = pickBound_keeps[OF assms, of cx provider model T]
    have lcp: "keeps_selector E s (snd (snd x))" if "pickLCP E cx provider model T opts auths s = Some x" for x opts
      using pickLCP_keeps[OF assms, of cx provider model T opts auths "fst x" "fst (snd x)" "snd (snd x)"] that by simp
    have sel: "keeps_selector E s (s\<lparr>sa_fallback := f\<rparr>)" "keeps_selector E s s" for f using same by (simp_all add: keeps_selector_def)
    show ?thesis
      using bound lcp sel
      by (auto simp: AffPick affinity_Pick_def split_beta Let_def split: option.split sum.split)
  next
    case (AffResult t0 t1 t2 res opts)
    show ?thesis
      using same lcpResult_keeps[OF assms(2)] cacheResult_keeps[OF assms(1)]
      by (simp add: AffResult affinity_OnResult_def split_beta Let_def keeps_selector_def)
  next
    case (AffInvalidate auth)
    then show ?thesis
      using keeps_cache_ops(7)[OF assms(1)] keeps_matcher_ops(5)[OF assms(2)] by (simp add: affinity_InvalidateAuth_def keeps_selector_def)
  next
    case (AffCleanup now)
    then show ?thesis using keeps_cache_ops(8)[OF assms(1)] same by (simp add: keeps_selector_def)
  next
    case AffStop
    then show ?thesis using keeps_matcher_ops(6)[OF assms(2)] same by (simp add: affinity_Stop_def keeps_selector_def)
  qed
qed

lemma run_ok_selector: "affinity_ok E ttl s \<Longrightarrow> affinity_ok E ttl (affinity_run E ops s)"
proof (induction ops arbitrary: s)
  case (Cons op ops)
  have "affinity_ok E ttl (affinity_exec E op s)"
    using keeps_selector_ok[OF Cons.prems exec_keeps] Cons.prems by (simp add: affinity_ok_def)
  from Cons.IH[OF this] show ?case by (simp add: affinity_run_def)
qed (simp add: affinity_run_def)

lemma new_selector_ok:
  "affinity_ok E (if ttl \<le> 0 then Hour else ttl) (NewSessionAffinitySelectorWithConfig fallback ttl)"
proof -
  let ?t = "if ttl \<le> 0 then Hour else ttl"
  have pos: "0 < ?t" by (simp add: Hour_def Minute_def Second_def)
  have "cache_ok (NewSessionCache ?t)" "sc_maxEntries (NewSessionCache ?t) = defaultMaxSessionEntries" "sc_ttl (NewSessionCache ?t) = ?t"
    using run_new(3)[of "[]" ?t defaultMaxSessionEntries] pos
    by (simp_all add: NewSessionCache_def NewSessionCacheWithCapacity_def defaultMaxSessionEntries_def)
  moreover have "matcher_ok (xt_turn E) (NewMerklePrefixMatcher ?t)"
    using new_run_ok[of "xt_turn E" "{}" ?t 0 0 0] by (simp add: run_ok_def NewMerklePrefixMatcher_def)
  moreover have "mm_ttl (NewMerklePrefixMatcher ?t) = ?t" "mm_maxTurns (NewMerklePrefixMatcher ?t) = 1024"
    using pos by (simp_all add: NewMerklePrefixMatcher_def NewMerklePrefixMatcherWithConfig_def)
  ultimately show ?thesis by (simp add: affinity_ok_def NewSessionAffinitySelectorWithConfig_def Let_def)
qed

text \<open>C17. Whatever requests are picked for, results reported, credentials invalidated and expired bindings cleaned up on a
  new selector, its session cache and its prefix matcher satisfy their invariants, within their limits and with
  the configured lifetime.\<close>

theorem affinity_invariant:
  "affinity_ok E (if ttl \<le> 0 then Hour else ttl) (affinity_run E ops (NewSessionAffinitySelectorWithConfig fallback ttl))"
  by (rule run_ok_selector[OF new_selector_ok])

end
