(* ===== verification/SessionIdFacts.thy ===== *)
theory SessionIdFacts
  imports SessionIds
begin

text \<open>
  Session identities are safe to use as keys and in logs: bounded and without control characters; and the
  identity made of the first messages of a conversation stays reachable when the conversation goes on.
\<close>

section \<open>Control characters\<close>

definition control_pair :: "string \<Rightarrow> string \<Rightarrow> bool" where
  "control_pair a b \<longleftrightarrow> a \<noteq> [] \<and> b \<noteq> [] \<and> last a = CHR 0xC2 \<and>
     128 \<le> (of_char (hd b) :: nat) \<and> (of_char (hd b) :: nat) \<le> 159"

lemma has_control_append: "has_control (a @ b) \<longleftrightarrow> has_control a \<or> has_control b \<or> control_pair a b"
proof (induction a)
  case (Cons c a)
  show ?case
  proof (cases a)
    case Nil
    then show ?thesis by (cases b) (auto simp: control_pair_def)
  next
    case (Cons d a')
    then show ?thesis using Cons.IH by (auto simp: control_pair_def)
  qed
qed (simp add: control_pair_def)

lemma has_control_take_drop:
  assumes "\<not> has_control s"
  shows "\<not> has_control (take n s)" "\<not> has_control (drop n s)"
  using assms has_control_append[of "take n s" "drop n s"] by simp_all

text \<open>A clean identity: no control characters, and at most \<open>n\<close> bytes.\<close>

definition clean_id :: "nat \<Rightarrow> string \<Rightarrow> bool" where
  "clean_id n s \<longleftrightarrow> \<not> has_control s \<and> length s \<le> n"

lemma clean_Nil [simp]: "clean_id n []"
  by (simp add: clean_id_def)

lemma clean_mono: "clean_id n s \<Longrightarrow> n \<le> m \<Longrightarrow> clean_id m s"
  by (simp add: clean_id_def)

text \<open>A fixed text that starts and ends in ASCII joins two clean identities.\<close>

definition ascii_text :: "string \<Rightarrow> bool" where
  "ascii_text k \<longleftrightarrow> k \<noteq> [] \<and> list_all (\<lambda>c. 32 \<le> (of_char c :: nat) \<and> (of_char c :: nat) < 127) k"

lemma ascii_no_control: "list_all (\<lambda>c. 32 \<le> (of_char c :: nat) \<and> (of_char c :: nat) < 127) k \<Longrightarrow> \<not> has_control k"
  by (induction k) (auto simp: Let_def)

lemma clean_prefixed:
  assumes "ascii_text k" "clean_id n s"
  shows "clean_id (length k + n) (k @ s)"
proof -
  have "(of_char (last k) :: nat) < 127"
    using assms(1) last_in_set[of k] by (auto simp: ascii_text_def list_all_iff)
  moreover have "(of_char (CHR 0xC2) :: nat) = 194" by simp
  ultimately have "last k \<noteq> CHR 0xC2" by auto
  then show ?thesis
    using assms ascii_no_control[of k] by (auto simp: ascii_text_def clean_id_def has_control_append control_pair_def)
qed

lemma clean_suffixed:
  assumes "clean_id n s" "ascii_text k" "clean_id m t"
  shows "clean_id (n + length k + m) (s @ k @ t)"
proof -
  have t: "clean_id (length k + m) (k @ t)" by (rule clean_prefixed[OF assms(2,3)])
  have "k \<noteq> []" "(of_char (hd k) :: nat) < 127" using assms(2) hd_in_set[of k] by (auto simp: ascii_text_def list_all_iff)
  then have "\<not> control_pair s (k @ t)" by (simp add: control_pair_def)
  then show ?thesis using t assms(1) by (auto simp: clean_id_def has_control_append)
qed

lemma normalize_clean: "clean_id 256 (NormalizeExplicitID raw)"
proof -
  obtain k n where "TrimSpace raw = take k (drop n raw)"
    using TrimRightSpace_take strip_with_drop by (metis TrimSpace_def TrimLeftSpace_def)
  then show ?thesis
    using has_control_take_drop by (auto simp: NormalizeExplicitID_def Let_def clean_id_def)
qed

lemma first_nonempty_clean: "\<forall>x \<in> set xs. clean_id n x \<Longrightarrow> clean_id n (first_nonempty xs)"
  by (induction xs) auto

lemma header_clean: "clean_id 256 (sessionHeaderValue headers name)"
  by (auto simp: sessionHeaderValue_def Let_def normalize_clean split: if_splits intro!: first_nonempty_clean)

lemma body_clean: "clean_id 256 (body_id G doc path)"
  by (auto simp: body_id_def Let_def normalize_clean split: option.split)

lemma identities_clean:
  "clean_id 256 (fst (ClaudeMetadataIdentities G payload))"
  "clean_id 256 (fst (snd (ClaudeMetadataIdentities G payload)))"
  "clean_id 256 (snd (snd (ClaudeMetadataIdentities G payload)))"
  by (auto simp: ClaudeMetadataIdentities_def Let_def normalize_clean split: option.split)

lemma parent_clean: "clean_id 256 (parentCandidate G payload)"
  by (auto simp: parentCandidate_def Let_def body_clean identities_clean intro!: first_nonempty_clean)

lemma agent_clean: "clean_id 256 (bodyAgent G doc)" "clean_id 256 (nestedAgent G doc)" "clean_id 256 (payloadAgent G payload)"
proof -
  show b: "clean_id 256 (bodyAgent G doc)" for doc
    unfolding bodyAgent_def by (rule first_nonempty_clean) (auto simp: normalize_clean)
  then show n: "clean_id 256 (nestedAgent G doc)" for doc by (simp add: nestedAgent_def split: option.split)
  show "clean_id 256 (payloadAgent G payload)"
    unfolding payloadAgent_def Let_def by (auto intro!: first_nonempty_clean simp: b n simp del: first_nonempty.simps)
qed

section \<open>Every stage\<close>

text \<open>The longest kinds are \<open>session:\<close> and \<open>claude:\<close> with an agent.\<close>

definition clean_pair :: "string \<times> string \<Rightarrow> bool" where
  "clean_pair ids \<longleftrightarrow> clean_id 527 (fst ids) \<and> clean_id 527 (snd ids)"

lemma ascii_kinds:
  "ascii_text ''claude:''" "ascii_text '':agent:''" "ascii_text ''session:''" "ascii_text ''conv:''" "ascii_text ''thread:''"
  "ascii_text ''geminicache:''" "ascii_text ''pck:''" "ascii_text ''user:''" "ascii_text ''execution:''" "ascii_text ''clientreq:''"
  by code_simp+

lemma clean_kind: "ascii_text k \<Longrightarrow> length k \<le> 20 \<Longrightarrow> clean_id 256 s \<Longrightarrow> clean_id 527 (k @ s)"
proof -
  assume k: "ascii_text k" "length k \<le> 20" and s: "clean_id 256 s"
  have "length k + 256 \<le> 527" using k(2) by linarith
  then show ?thesis by (rule clean_mono[OF clean_prefixed[OF k(1) s]])
qed

lemma clean_agent:
  assumes "ascii_text k" "length k \<le> 8" "clean_id 256 sid" "clean_id 256 agent"
  shows "clean_id 527 (k @ sid @ '':agent:'' @ agent)"
  by (rule clean_mono[OF clean_prefixed[OF assms(1) clean_suffixed[OF assms(3) ascii_kinds(2) assms(4)]]]) (use assms(2) in simp)

lemma with_parent_clean:
  assumes "ascii_text k" "length k \<le> 20" "clean_id 256 sid" "clean_id 256 parent" "clean_id 256 candidate"
  shows "clean_pair (with_parent k sid parent candidate)"
  using assms by (auto simp: with_parent_def clean_pair_def intro: clean_kind)

lemma claude_clean:
  assumes "clean_id 256 sid" "clean_id 256 parent" "clean_id 256 agent" "clean_id 256 parentAgent" "clean_id 256 candidate"
  shows "clean_pair (claudeIDs sid parent agent parentAgent candidate)"
  using assms with_parent_clean[OF ascii_kinds(1), of sid parent candidate]
  using clean_agent[OF ascii_kinds(1), of sid] clean_kind[OF ascii_kinds(1)]
  by (simp add: claudeIDs_def clean_pair_def del: append_Cons append_Nil)

lemma header_rules_ascii: "\<forall>(name, kind, parents) \<in> set headerRules. ascii_text kind \<and> length kind \<le> 20"
  unfolding headerRules_def by (simp add: ascii_text_def)

definition stage_clean :: "(string \<times> string) option \<Rightarrow> bool" where
  "stage_clean stage \<longleftrightarrow> (case stage of None \<Rightarrow> True | Some ids \<Rightarrow> clean_pair ids)"

lemma stage_simps [simp]: "stage_clean None" "stage_clean (Some ids) = clean_pair ids"
  by (simp_all add: stage_clean_def)

lemma headerStage_clean:
  assumes "\<forall>(name, kind, parents) \<in> set rules. ascii_text kind \<and> length kind \<le> 20" "clean_id 256 candidate"
  shows "stage_clean (headerStage headers candidate rules)"
  using assms
proof (induction rules)
  case Nil
  then show ?case
    by (auto simp: clean_pair_def Let_def header_clean simp del: append_Cons append_Nil split: if_splits
        intro!: clean_kind[OF ascii_kinds(10)])
next
  case (Cons rule rules)
  obtain name kind parents where r: "rule = (name, kind, parents)" by (cases rule)
  have "clean_id 256 (first_nonempty (map (sessionHeaderValue headers) parents))"
    by (rule first_nonempty_clean) (auto simp: header_clean)
  then show ?case
    using Cons with_parent_clean[OF _ _ header_clean] by (auto simp: r Let_def split: if_splits)
qed

lemma pathStage_clean:
  assumes "\<And>path. clean_id 256 (get path)" "\<And>v. clean_id 256 v \<Longrightarrow> clean_pair (result v)"
  shows "stage_clean (pathStage get result paths)"
  by (induction paths) (auto simp: Let_def assms)

lemma first_stage_clean: "list_all stage_clean stages \<Longrightarrow> stage_clean (first_stage stages)"
  by (induction stages) (auto simp: first_stage_def split: list.splits)

lemma session_clean:
  "clean_id 256 agent \<Longrightarrow> clean_id 256 candidate \<Longrightarrow> clean_id 256 sid \<Longrightarrow> clean_pair (sessionIDs agent candidate sid)"
  using with_parent_clean[OF ascii_kinds(3), of sid "[]" candidate]
  using clean_agent[OF ascii_kinds(3), of sid agent] clean_kind[OF ascii_kinds(3)]
  by (simp add: sessionIDs_def clean_pair_def del: append_Cons append_Nil)

lemma conversation_clean: "clean_id 527 (conversationID G doc)"
  by (auto simp: conversationID_def Let_def normalize_clean simp del: append_Cons append_Nil intro!: clean_kind[OF ascii_kinds(4)])

lemma cache_key_clean: "clean_id 256 (promptCacheKey G doc)"
proof -
  have d: "clean_id 256 (first_nonempty (map (\<lambda>path. NormalizeExplicitID (gj_String G (gj_Get G r path))) paths))" for r paths
    by (rule first_nonempty_clean) (auto simp: normalize_clean)
  show ?thesis unfolding promptCacheKey_def Let_def
    by (rule first_nonempty_clean) (auto simp: d split: option.split simp del: first_nonempty.simps list.map)
qed

section \<open>Properties\<close>

lemma bodyStage_clean:
  assumes "clean_id 256 candidate"
  shows "stage_clean (bodyStage G headers payload candidate)"
proof -
  let ?doc = "gj_Parse G payload"
  define agent where "agent = first_nonempty [bodyAgent G ?doc, sessionHeaderValue headers ''X-Claude-Code-Agent-Id'',
            sessionHeaderValue headers ''x-agent-id'', nestedAgent G ?doc]"
  have agent: "clean_id 256 agent"
    unfolding agent_def by (rule first_nonempty_clean) (auto simp: agent_clean header_clean)
  note paths = pathStage_clean[of "body_id G ?doc", OF body_clean]
  have kinds: "clean_pair (with_parent ''geminicache:'' v [] candidate)" "clean_pair (with_parent ''thread:'' v [] candidate)"
    "clean_pair (with_parent ''conv:'' v [] candidate)" "clean_pair (sessionIDs agent candidate v)" if "clean_id 256 v" for v
    using that assms agent by (auto intro!: with_parent_clean session_clean ascii_kinds)
  have pairs: "clean_pair (''pck:'' @ promptCacheKey G ?doc, conversationID G ?doc)"
    "clean_pair (conversationID G ?doc,
       if candidate \<noteq> [] \<and> ''conv:'' @ candidate \<noteq> conversationID G ?doc then ''conv:'' @ candidate else [])"
    "clean_pair (''user:'' @ body_id G ?doc ''metadata.user_id'', [])"
    unfolding clean_pair_def fst_conv snd_conv
    using clean_kind[OF ascii_kinds(7) _ cache_key_clean[of G ?doc]] clean_kind[OF ascii_kinds(4) _ assms]
      clean_kind[OF ascii_kinds(8) _ body_clean[of G ?doc "''metadata.user_id''"]] conversation_clean[of G ?doc]
    by (simp_all del: append_Cons)
  have stages: "stage_clean (first_stage
           [pathStage (body_id G ?doc) (\<lambda>cacheID. with_parent ''geminicache:'' cacheID [] candidate)
              [''cachedContent'', ''cached_content''],
            pathStage (body_id G ?doc) (\<lambda>tid. with_parent ''thread:'' tid [] candidate)
              [''thread_id'', ''threadId'', ''metadata.thread_id''],
            pathStage (body_id G ?doc) (sessionIDs agent candidate)
              [''session_id'', ''sessionId'', ''sessionID'', ''metadata.session_id'', ''extra_body.session_id''],
            if promptCacheKey G ?doc \<noteq> [] then Some (''pck:'' @ promptCacheKey G ?doc, conversationID G ?doc) else None,
            if conversationID G ?doc \<noteq> []
            then Some (conversationID G ?doc,
              if candidate \<noteq> [] \<and> ''conv:'' @ candidate \<noteq> conversationID G ?doc then ''conv:'' @ candidate else [])
            else None,
            if body_id G ?doc ''metadata.user_id'' \<noteq> [] then Some (''user:'' @ body_id G ?doc ''metadata.user_id'', []) else None,
            pathStage (body_id G ?doc) (\<lambda>cid. with_parent ''conv:'' cid [] candidate)
              [''conversation_id'', ''conversationId'', ''chat_id'', ''chatId'', ''metadata.conversation_id'',
               ''extra_body.conversation_id'']])"
    by (rule first_stage_clean)
      (simp only: list.pred_inject, intro conjI TrueI paths kinds, insert pairs, simp_all del: append_Cons)
  then show ?thesis
    unfolding bodyStage_def Let_def agent_def[symmetric] by (cases "payload = [] \<or> \<not> gj_Exists G ?doc") simp_all
qed

lemma explicit_clean: "clean_pair (extractExplicitSessionIDs G headers payload metadata)"
proof -
  have candidate: "clean_id 256 (parentCandidate G payload)" by (rule parent_clean)
  have agents: "clean_id 256 (first_nonempty [a, b, c])" if "clean_id 256 a" "clean_id 256 b" "clean_id 256 c" for a b c
    by (rule first_nonempty_clean) (use that in simp)
  have "stage_clean (claudeStage G headers payload (parentCandidate G payload))"
    using identities_clean[of G payload]
    by (auto simp: claudeStage_def Let_def split_beta header_clean simp del: first_nonempty.simps
        intro!: claude_clean agents candidate agent_clean)
  moreover have "stage_clean (headerStage headers (parentCandidate G payload) headerRules)"
    by (rule headerStage_clean[OF header_rules_ascii candidate])
  moreover have "stage_clean (executionStage metadata)"
    using clean_kind[OF ascii_kinds(9) _ normalize_clean]
    by (auto simp: executionStage_def clean_pair_def simp del: append_Cons split: option.split)
  ultimately have "stage_clean (first_stage [claudeStage G headers payload (parentCandidate G payload),
      headerStage headers (parentCandidate G payload) headerRules, bodyStage G headers payload (parentCandidate G payload),
      executionStage metadata])"
    using bodyStage_clean[OF candidate] by (intro first_stage_clean) simp
  then show ?thesis
    by (auto simp: extractExplicitSessionIDs_def Let_def clean_pair_def split: option.split)
qed

text \<open>An explicit session identity and its parent are safe as keys and in logs, whatever the headers, the body and the
  metadata of the request hold and whatever package gjson answers: they have at most 527 bytes and no control
  characters.\<close>

theorem explicit_ids_bounded:
  "\<not> has_control (fst (extractExplicitSessionIDs G headers payload metadata)) \<and>
   length (fst (extractExplicitSessionIDs G headers payload metadata)) \<le> 527 \<and>
   \<not> has_control (snd (extractExplicitSessionIDs G headers payload metadata)) \<and>
   length (snd (extractExplicitSessionIDs G headers payload metadata)) \<le> 527"
  using explicit_clean[of G headers payload metadata] by (simp add: clean_pair_def clean_id_def)

section \<open>The identity of the first messages\<close>

text \<open>What a text is once set stays; so the first texts only grow.\<close>

definition extends_texts :: "first_texts \<Rightarrow> first_texts \<Rightarrow> bool" where
  "extends_texts t t' \<longleftrightarrow> (ft_system t \<noteq> [] \<longrightarrow> ft_system t' = ft_system t) \<and>
     (ft_user t \<noteq> [] \<longrightarrow> ft_user t' = ft_user t) \<and> (ft_assistant t \<noteq> [] \<longrightarrow> ft_assistant t' = ft_assistant t)"

lemma extends_refl: "extends_texts t t"
  by (simp add: extends_texts_def)

lemma extends_trans: "extends_texts t t' \<Longrightarrow> extends_texts t' t'' \<Longrightarrow> extends_texts t t''"
  unfolding extends_texts_def by metis

lemma messageStep_extends: "extends_texts t (fst (messageStep G msg t))"
  by (auto simp: messageStep_def note_role_def set_once_def extends_texts_def Let_def)

lemma messages_extend: "extends_texts t (for_each (messageStep G) xs t)"
proof (induction xs arbitrary: t)
  case (Cons x xs)
  obtain t' go where s: "messageStep G x t = (t', go)" by (cases "messageStep G x t")
  then have "extends_texts t t'" using messageStep_extends[of t G x] by simp
  then show ?case using Cons.IH[of t'] s by (auto intro: extends_trans)
qed (simp add: extends_refl)

lemma messages_append_extend: "extends_texts (for_each (messageStep G) xs t) (for_each (messageStep G) (xs @ ys) t)"
proof (induction xs arbitrary: t)
  case Nil
  then show ?case by (simp add: messages_extend)
next
  case (Cons x xs)
  obtain t' go where "messageStep G x t = (t', go)" by (cases "messageStep G x t")
  then show ?case using Cons.IH[of t'] by (simp add: extends_refl)
qed

lemma messages_no_system:
  "\<forall>m \<in> set ys. gj_String G (gj_Get G m ''role'') \<noteq> ''system'' \<Longrightarrow>
   ft_system (for_each (messageStep G) (xs @ ys) t) = ft_system (for_each (messageStep G) xs t)"
proof (induction xs arbitrary: t)
  case Nil
  then show ?case
  proof (induction ys arbitrary: t)
    case (Cons y ys)
    obtain t' go where s: "messageStep G y t = (t', go)" by (cases "messageStep G y t")
    then have "ft_system t' = ft_system t"
      using Cons.prems by (auto simp: messageStep_def note_role_def Let_def split: if_splits)
    then show ?case using Cons.IH[of t'] Cons.prems s by simp
  qed simp
next
  case (Cons x xs)
  obtain t' go where "messageStep G x t = (t', go)" by (cases "messageStep G x t")
  then show ?case using Cons.IH[of t'] Cons.prems by simp
qed

lemma later_stages_idle:
  assumes "ft_user t \<noteq> []"
  shows "responsesTexts G payload (geminiTexts G payload (topSystemTexts G payload t)) = topSystemTexts G payload t"
    "ft_user (topSystemTexts G payload t) = ft_user t" "ft_assistant (topSystemTexts G payload t) = ft_assistant t"
    "ft_system (topSystemTexts G payload t) = (if ft_system t \<noteq> [] then ft_system t else ft_system (topSystemTexts G payload no_texts))"
proof -
  have loop: "ft_user (for_each body xs t) = ft_user t \<and> ft_assistant (for_each body xs t) = ft_assistant t"
    if "\<And>x t. ft_user (fst (body x t)) = ft_user t \<and> ft_assistant (fst (body x t)) = ft_assistant t" for body :: "'a \<Rightarrow> first_texts \<Rightarrow> first_texts \<times> bool" and xs t
  proof (induction xs arbitrary: t)
    case (Cons x xs)
    then show ?case using that[of x t] by (simp add: split_beta)
  qed simp
  show "ft_user (topSystemTexts G payload t) = ft_user t" "ft_assistant (topSystemTexts G payload t) = ft_assistant t"
    using loop[of "\<lambda>part t. let text = gj_String G (gj_Get G part ''text'')
                         in if text \<noteq> [] \<and> ft_system t = [] then (t\<lparr>ft_system := truncateString text 100\<rparr>, False) else (t, True)"]
    by (simp_all add: topSystemTexts_def firstSystemPart_def Let_def)
  then show "responsesTexts G payload (geminiTexts G payload (topSystemTexts G payload t)) = topSystemTexts G payload t"
    using assms by (simp add: responsesTexts_def geminiTexts_def)
  have sys: "ft_system (for_each (\<lambda>part t. let text = gj_String G (gj_Get G part ''text'')
        in if text \<noteq> [] \<and> ft_system t = [] then (t\<lparr>ft_system := truncateString text 100\<rparr>, False) else (t, True)) xs t) =
      ft_system (for_each (\<lambda>part t. let text = gj_String G (gj_Get G part ''text'')
        in if text \<noteq> [] \<and> ft_system t = [] then (t\<lparr>ft_system := truncateString text 100\<rparr>, False) else (t, True)) xs t')"
    if "ft_system t = []" "ft_system t' = []" for xs t t'
    using that by (induction xs) (simp_all add: Let_def)
  show "ft_system (topSystemTexts G payload t) = (if ft_system t \<noteq> [] then ft_system t else ft_system (topSystemTexts G payload no_texts))"
    using sys[of t no_texts] by (simp add: topSystemTexts_def firstSystemPart_def Let_def no_texts_def)
qed

lemma conversation_texts:
  assumes "ft_user (messagesTexts G payload no_texts) \<noteq> []"
  shows "conversationTexts G payload = topSystemTexts G payload (messagesTexts G payload no_texts)"
  using later_stages_idle(1)[OF assms] by (simp add: conversationTexts_def)

text \<open>C23. The hash identity of a conversation is not lost when the conversation goes on: after more messages, none of
  them a system message, the identity of the first request is still the primary identity or the fallback, so a
  binding made for it is found.\<close>

theorem message_hash_continues:
  assumes "gj_Exists G (gj_GetBytes G p ''messages'')" "gj_isArray G (gj_GetBytes G p ''messages'')"
    and "gj_Exists G (gj_GetBytes G p' ''messages'')" "gj_isArray G (gj_GetBytes G p' ''messages'')"
    and "gj_ForEach G (gj_GetBytes G p' ''messages'') = gj_ForEach G (gj_GetBytes G p ''messages'') @ later"
    and "\<forall>m \<in> set later. gj_String G (gj_Get G m ''role'') \<noteq> ''system''"
    and "gj_GetBytes G p' ''system'' = gj_GetBytes G p ''system''"
    and "ft_user (messagesTexts G p no_texts) \<noteq> []" "ft_assistant (messagesTexts G p no_texts) = []"
  shows "fst (extractMessageHashIDs G p) \<noteq> [] \<and>
    fst (extractMessageHashIDs G p) \<in> {fst (extractMessageHashIDs G p'), snd (extractMessageHashIDs G p')}"
proof -
  let ?t = "messagesTexts G p no_texts" and ?t' = "messagesTexts G p' no_texts"
  have t: "?t = for_each (messageStep G) (gj_ForEach G (gj_GetBytes G p ''messages'')) no_texts"
    "?t' = for_each (messageStep G) (gj_ForEach G (gj_GetBytes G p ''messages'') @ later) no_texts"
    using assms(1-5) by (simp_all add: messagesTexts_def Let_def)
  have "extends_texts ?t ?t'" unfolding t by (rule messages_append_extend)
  then have u: "ft_user ?t' = ft_user ?t" using assms(8) by (simp add: extends_texts_def)
  have s: "ft_system ?t' = ft_system ?t" unfolding t by (rule messages_no_system[OF assms(6)])
  have u': "ft_user ?t' \<noteq> []" using u assms(8) by simp
  have c: "conversationTexts G p = topSystemTexts G p ?t" "conversationTexts G p' = topSystemTexts G p' ?t'"
    by (rule conversation_texts[OF assms(8)], rule conversation_texts[OF u'])
  have top: "topSystemTexts G p' no_texts = topSystemTexts G p no_texts"
    by (simp add: topSystemTexts_def assms(7))
  have "ft_system (conversationTexts G p') = ft_system (conversationTexts G p)"
    unfolding c later_stages_idle(4)[OF assms(8)] later_stages_idle(4)[OF u'] s top ..
  moreover have "ft_user (conversationTexts G p') = ft_user (conversationTexts G p)"
    "ft_user (conversationTexts G p) \<noteq> []" "ft_assistant (conversationTexts G p) = []"
    unfolding c later_stages_idle(2,3)[OF assms(8)] later_stages_idle(2,3)[OF u'] using u assms(8,9) by simp_all
  ultimately show ?thesis
    by (simp add: extractMessageHashIDs_def Let_def computeSessionHash_def)
qed

section \<open>Witnesses\<close>

text \<open>A concrete instance of the parameter: results are small JSON documents, and three request bodies are known.\<close>

datatype wit_json = WText string | WArray "wit_json list" | WObject "(string \<times> wit_json) list" | WMissing

fun wit_get :: "wit_json \<Rightarrow> string \<Rightarrow> wit_json" where
  "wit_get (WObject members) path = (case map_of members path of None \<Rightarrow> WMissing | Some v \<Rightarrow> v)"
| "wit_get _ path = WMissing"

fun wit_raw :: "wit_json \<Rightarrow> string" where
  "wit_raw (WText s) = [CHR 0x22] @ s @ [CHR 0x22]"
| "wit_raw (WArray rs) = ''['' @ concat (map (\<lambda>r. wit_raw r @ '','') rs) @ '']''"
| "wit_raw (WObject members) = ''{'' @ concat (map (\<lambda>(k, r). [CHR 0x22] @ k @ [CHR 0x22] @ '':'' @ wit_raw r @ '','') members) @ ''}''"
| "wit_raw WMissing = []"

definition wit_message :: "string \<Rightarrow> string \<Rightarrow> wit_json" where
  "wit_message role content = WObject [(''role'', WText role), (''content'', WText content)]"

definition wit_bodies :: "(string \<times> wit_json) list" where
  "wit_bodies =
     [(''first'', WObject [(''messages'', WArray [wit_message ''user'' ''hello''])]),
      (''second'', WObject [(''messages'', WArray [wit_message ''user'' ''hello'', wit_message ''assistant'' ''hi''])])]"

definition wit_gjson :: "wit_json gjson" where
  "wit_gjson =
     \<lparr>gj_Parse = (\<lambda>payload. case map_of wit_bodies payload of None \<Rightarrow> WMissing | Some v \<Rightarrow> v),
      gj_GetBytes = (\<lambda>payload. wit_get (case map_of wit_bodies payload of None \<Rightarrow> WMissing | Some v \<Rightarrow> v)),
      gj_Get = wit_get, gj_String = (\<lambda>r. case r of WText s \<Rightarrow> s | _ \<Rightarrow> []), gj_Raw = wit_raw,
      gj_Type = (\<lambda>r. case r of WText s \<Rightarrow> TString | WMissing \<Rightarrow> TNull | _ \<Rightarrow> TJSON), gj_Exists = (\<lambda>r. r \<noteq> WMissing),
      gj_isArray = (\<lambda>r. case r of WArray rs \<Rightarrow> True | _ \<Rightarrow> False),
      gj_Array = (\<lambda>r. case r of WArray rs \<Rightarrow> rs | WMissing \<Rightarrow> [] | _ \<Rightarrow> [r]),
      gj_ForEach = (\<lambda>r. case r of WArray rs \<Rightarrow> rs | _ \<Rightarrow> [])\<rparr>"

theorem message_hash_continues_witness:
  "fst (extractMessageHashIDs wit_gjson ''first'') \<noteq> [] \<and>
   fst (extractMessageHashIDs wit_gjson ''first'') \<in>
     {fst (extractMessageHashIDs wit_gjson ''second''), snd (extractMessageHashIDs wit_gjson ''second'')}"
  by (rule message_hash_continues[where later = "[wit_message ''assistant'' ''hi'']"])
    (simp_all add: wit_gjson_def wit_bodies_def wit_message_def messagesTexts_def messageStep_def extractMessageContent_def
      note_role_def set_once_def truncateString_def no_texts_def gj_isString_def)

end
