(* ===== verification/TurnExtractionFacts.thy ===== *)
theory TurnExtractionFacts
  imports TurnExtraction SessionIdFacts
begin

text \<open>
  The extraction of turns ends, and what it extracts is bounded whatever the body holds.
\<close>

section \<open>Returning\<close>

lemma Some_returns: "Some x \<noteq> None"
  by simp

lemma bind_returns: "r \<noteq> None \<Longrightarrow> (\<And>x. r = Some x \<Longrightarrow> f x \<noteq> None) \<Longrightarrow> Option.bind r f \<noteq> None"
  by (cases r) auto

lemma if_returns: "(c \<Longrightarrow> r \<noteq> None) \<Longrightarrow> (\<not> c \<Longrightarrow> q \<noteq> None) \<Longrightarrow> (if c then r else q) \<noteq> None"
  by simp

lemma case_prod_returns: "(\<And>a b. f a b \<noteq> None) \<Longrightarrow> (case p of (a, b) \<Rightarrow> f a b) \<noteq> None"
  by (cases p) simp

lemmas returns = Some_returns bind_returns if_returns case_prod_returns

lemma for_each_opt_returns: "(\<And>c t. c \<in> set cs \<Longrightarrow> body c t \<noteq> None) \<Longrightarrow> for_each_opt body cs t \<noteq> None"
proof (induction cs arbitrary: t)
  case (Cons c cs)
  obtain t' continue where "body c t = Some (t', continue)" using Cons.prems[of c t] by auto
  then show ?case using Cons.IH[of t'] Cons.prems by simp
qed simp

lemma arrayParts_returns: "(\<And>c. c \<in> set cs \<Longrightarrow> p c \<noteq> None) \<Longrightarrow> arrayParts p cs \<noteq> None"
proof -
  assume p: "\<And>c. c \<in> set cs \<Longrightarrow> p c \<noteq> None"
  have "for_each_opt (arrayPart p) cs ([], 0) \<noteq> None"
    unfolding arrayPart_def Let_def by (intro for_each_opt_returns returns p)
  then show ?thesis unfolding arrayParts_def by (intro returns)
qed

lemma nested_child:
  "gjson_nested G \<Longrightarrow> gj_Type G r = TJSON \<Longrightarrow> c \<in> set (gj_ForEach G r) \<Longrightarrow> length (gj_Raw G c) < length (gj_Raw G r)"
  by (simp add: gjson_nested_def)

lemma nested_member:
  "gjson_nested G \<Longrightarrow> gj_Type G r = TJSON \<Longrightarrow> name \<in> {''content'', ''parts'', ''steps''} \<Longrightarrow> gj_has G r name \<Longrightarrow>
   length (gj_Raw G (gj_Get G r name)) < length (gj_Raw G r)"
  unfolding gjson_nested_def gj_has_def by blast

lemma parts_return:
  assumes "gjson_nested (xt_gjson E)"
  shows "canonicalPartsFromJSON E v \<noteq> None"
proof (induction "length (gj_Raw (xt_gjson E) v)" arbitrary: v rule: less_induct)
  case less
  show ?case
  proof (cases "gj_Type (xt_gjson E) v = TJSON")
    case True
    have "arrayParts (canonicalPartsFromJSON E) (gj_ForEach (xt_gjson E) v) \<noteq> None"
      by (rule arrayParts_returns) (rule less, rule nested_child[OF assms True])
    moreover have "canonicalPartsFromJSON E (xt_get E v name) \<noteq> None"
      if "name \<in> {''content'', ''parts'', ''steps''}" "xt_has E v name" for name
      by (rule less) (rule nested_member[OF assms True that])
    ultimately show ?thesis by (subst canonicalPartsFromJSON.simps) (simp add: True)
  qed (subst canonicalPartsFromJSON.simps, auto split: gjson_type.split)
qed

lemma member_parts_return: "gjson_nested (xt_gjson E) \<Longrightarrow> member_parts E name v \<noteq> None"
  unfolding member_parts_def by (intro returns parts_return)

lemma append_member_returns: "gjson_nested (xt_gjson E) \<Longrightarrow> append_member E name doc turns \<noteq> None"
  unfolding append_member_def by (intro returns parts_return)

lemma messageTurn_returns: "gjson_nested (xt_gjson E) \<Longrightarrow> messageTurn E message turns \<noteq> None"
  unfolding messageTurn_def messageCall_def by (intro returns parts_return for_each_opt_returns)

lemma responseTurn_returns: "gjson_nested (xt_gjson E) \<Longrightarrow> responseTurn E item turns \<noteq> None"
  unfolding responseTurn_def Let_def by (intro returns member_parts_return)

lemma geminiTurn_returns: "gjson_nested (xt_gjson E) \<Longrightarrow> geminiTurn E content turns \<noteq> None"
  unfolding geminiTurn_def by (intro returns member_parts_return)

lemma interaction_returns:
  assumes "gjson_nested (xt_gjson E)" "\<And>r. gj_isArray (xt_gjson E) r \<Longrightarrow> gj_Exists (xt_gjson E) r \<and> gj_Type (xt_gjson E) r = TJSON"
  shows "appendInteractionValue E v role turns \<noteq> None"
proof (induction "length (gj_Raw (xt_gjson E) v)" arbitrary: v role turns rule: less_induct)
  case less
  let ?loop = "\<lambda>r role turns. for_each_opt (\<lambda>child ts. appendInteractionValue E child role ts) (gj_ForEach (xt_gjson E) r) turns"
  have loop: "?loop r role turns \<noteq> None"
    if "gj_Type (xt_gjson E) r = TJSON" "length (gj_Raw (xt_gjson E) r) \<le> length (gj_Raw (xt_gjson E) v)" for r role turns
    by (rule for_each_opt_returns) (rule less, use nested_child[OF assms(1) that(1)] that(2) in force)
  let ?steps = "xt_get E v ''steps''"
  have steps: "?loop ?steps role turns \<noteq> None"
    if v: "gj_Type (xt_gjson E) v = TJSON" and "gj_isArray (xt_gjson E) ?steps" for role turns
  proof (rule loop)
    show "gj_Type (xt_gjson E) ?steps = TJSON" using assms(2)[OF that(2)] by simp
    show "length (gj_Raw (xt_gjson E) ?steps) \<le> length (gj_Raw (xt_gjson E) v)"
      using nested_member[OF assms(1) v, of "''steps''"] assms(2)[OF that(2)] by (simp add: gj_has_def)
  qed
  show ?case
    by (subst appendInteractionValue.simps)
      (intro returns parts_return[OF assms(1)] member_parts_return[OF assms(1)] loop steps, simp_all)
qed

lemma extraction_returns:
  assumes "gjson_nested (xt_gjson E)" "\<And>r. gj_isArray (xt_gjson E) r \<Longrightarrow> gj_Exists (xt_gjson E) r \<and> gj_Type (xt_gjson E) r = TJSON"
  shows "ExtractCanonicalTurns E format payload \<noteq> None"
proof -
  note turn = append_member_returns[OF assms(1)] messageTurn_returns[OF assms(1)] responseTurn_returns[OF assms(1)]
    geminiTurn_returns[OF assms(1)] parts_return[OF assms(1)] interaction_returns[OF assms]
  show ?thesis
    unfolding ExtractCanonicalTurns_def appendMessagesTurns_def appendGeminiTurns_def appendInteractionTurns_def
      appendResponsesTurns_def Let_def
    by (intro returns turn for_each_opt_returns)
qed

section \<open>Bounds\<close>

lemma foldl_update_length: "length (foldl (\<lambda>parts (i, part). parts[i := part]) parts xs) = length parts"
  by (induction xs arbitrary: parts) auto

lemma sortToolParts_length: "length (sortToolParts parts) = length parts"
  by (simp add: sortToolParts_def Let_def foldl_update_length)

lemma normal_turn_bounds: "length (ct_Parts (normalizeCanonicalTurn env turn)) \<le> maxCanonicalPartsPerTurn + 1"
  using limit_length[of "[]"] by (simp add: normalizeCanonicalTurn_def Let_def sortToolParts_length)

lemma extracted_turns_bounded:
  assumes "ExtractCanonicalTurns E format payload = Some turns"
  shows "length turns \<le> 4096 \<and> list_all (\<lambda>t. ct_Role t \<noteq> [] \<and> 0 < length (ct_Parts t) \<and> length (ct_Parts t) \<le> 257) turns"
proof -
  have "length (normalizeCanonicalTurns env ts) \<le> 4096 \<and>
      list_all (\<lambda>t. ct_Role t \<noteq> [] \<and> 0 < length (ct_Parts t) \<and> length (ct_Parts t) \<le> 257) (normalizeCanonicalTurns env ts)" for env ts
  proof
    show "length (normalizeCanonicalTurns env ts) \<le> 4096" by (simp add: normalizeCanonicalTurns_def maxCanonicalTurns_def)
    have "ct_Role t \<noteq> [] \<and> 0 < length (ct_Parts t) \<and> length (ct_Parts t) \<le> 257" if t: "t \<in> set (normalizeCanonicalTurns env ts)" for t
    proof -
      obtain u where "t = normalizeCanonicalTurn env u" "ct_Role t \<noteq> []" "ct_Parts t \<noteq> []"
        using t by (auto simp: normalizeCanonicalTurns_def dest!: in_set_takeD)
      then show ?thesis using normal_turn_bounds[of env u] by (simp add: maxCanonicalPartsPerTurn_def)
    qed
    then show "list_all (\<lambda>t. ct_Role t \<noteq> [] \<and> 0 < length (ct_Parts t) \<and> length (ct_Parts t) \<le> 257) (normalizeCanonicalTurns env ts)"
      by (simp add: list_all_iff)
  qed
  then show ?thesis using assms by (auto simp: ExtractCanonicalTurns_def Let_def split: if_splits bind_splits)
qed

text \<open>C24. The extraction of turns returns on every payload in every protocol, and what it extracts is bounded whatever
  the body holds. With values that lie inside the text of the values around them and with arrays that are JSON, as
  package gjson gives them, the recursions over nested parts and over nested interaction values end (a call that
  would not return is \<open>None\<close>), and the result has at most 4096 turns, each with a canonical role that is not
  empty and with at least one and at most 257 parts, the last one a count of the dropped parts.\<close>

theorem turn_extraction_ends:
  assumes "gjson_nested (xt_gjson E)"
    and "\<And>r. gj_isArray (xt_gjson E) r \<Longrightarrow> gj_Exists (xt_gjson E) r \<and> gj_Type (xt_gjson E) r = TJSON"
  shows "\<exists>turns. ExtractCanonicalTurns E format payload = Some turns \<and> length turns \<le> 4096 \<and>
    list_all (\<lambda>t. ct_Role t \<noteq> [] \<and> 0 < length (ct_Parts t) \<and> length (ct_Parts t) \<le> 257) turns"
  using extraction_returns[OF assms, of format payload] extracted_turns_bounded by blast

section \<open>Witness\<close>

definition wit_extract :: "wit_json extract_env" where
  "wit_extract =
     \<lparr>xt_turn = \<lparr>tn_sha256 = (\<lambda>x. x), tn_think = (\<lambda>x. x), tn_iso8601 = (\<lambda>x. x), tn_uuid = (\<lambda>x. x)\<rparr>,
      xt_gjson = wit_gjson, xt_compact = (\<lambda>x. x)\<rparr>"

lemma concat_member: "x \<in> set xs \<Longrightarrow> length (f x) \<le> length (concat (map f xs))"
  by (induction xs) auto

lemma wit_nested: "gjson_nested wit_gjson"
proof -
  have member: "length (wit_raw v) < length (wit_raw (WObject ms))" if "map_of ms name = Some v" for name v ms
    using concat_member[OF map_of_SomeD[OF that], of "\<lambda>(k, r). [CHR 0x22] @ k @ [CHR 0x22] @ '':'' @ wit_raw r @ '','' "] by simp
  have child: "length (wit_raw c) < length (wit_raw (WArray rs))" if "c \<in> set rs" for c rs
    using concat_member[OF that, of "\<lambda>r. wit_raw r @ '','' "] by simp
  have "length (wit_raw (wit_get r name)) < length (wit_raw r)" if "wit_get r name \<noteq> WMissing" for r name
    using that by (cases "(r, name)" rule: wit_get.cases) (auto simp del: wit_raw.simps split: option.splits intro: member)
  moreover have "length (wit_raw c) < length (wit_raw r)" if "c \<in> set (gj_ForEach wit_gjson r)" for r c
    using that by (cases r) (auto simp: wit_gjson_def simp del: wit_raw.simps intro: child)
  ultimately show ?thesis by (auto simp: gjson_nested_def wit_gjson_def)
qed

theorem turn_extraction_ends_witness:
  "\<exists>turns. ExtractCanonicalTurns wit_extract ''openai'' ''body'' = Some turns \<and> length turns \<le> 4096 \<and>
    list_all (\<lambda>t. ct_Role t \<noteq> [] \<and> 0 < length (ct_Parts t) \<and> length (ct_Parts t) \<le> 257) turns"
  by (rule turn_extraction_ends)
    (simp_all add: wit_nested wit_extract_def, auto simp: wit_gjson_def wit_message_def split: wit_json.splits)

end
