(* ===== verification/AffinitySessions.thy ===== *)
theory AffinitySessions
  imports AffinityClaims TurnExtractionFacts
begin

text \<open>
  Sessions with an identity: a pick binds the session to the credential it returns, the next pick stays on it, a
  failure releases it, and an invalidated credential is not bound to any session.
\<close>

lemma key_nonempty [simp]: "affinity_key provider sid model \<noteq> []"
  by (simp add: affinity_key_def)

lemma request_key [simp]:
  "ar_cacheKey (affinityRequest provider model sid fid) = affinity_key provider sid (canonicalModelKey model)"
  by (simp add: affinityRequest_def Let_def)

lemma bindSession_answer:
  assumes "cache_ok c" "auth \<noteq> []" "65 \<le> sc_maxEntries c" "ar_cacheKey req \<noteq> []"
  shows "fst (Get t1 t2 (ar_cacheKey req) (bindSession req now auth c)) =
    (if t1 < now + sc_ttl c \<or> t2 < now + sc_ttl c then Some auth else None)"
  using SetAliases_head[OF assms(1,4,2,3)] by (simp add: bindSession_def Set_def)

lemma run_selector:
  "s = affinity_run E ops (NewSessionAffinitySelectorWithConfig fallback ttl) \<Longrightarrow>
   affinity_ok E (if ttl \<le> 0 then Hour else ttl) s"
  by (simp only: run_ok_selector[OF new_selector_ok])

text \<open>The pick of a request with an identity, in terms of the available credentials.\<close>

lemma explicit_pick:
  assumes "explicit_ids E opts = (sid, fid)" "sid \<noteq> []" "0 \<le> pt_available T"
    and "fst (affinity_Pick E cx provider model T opts auths s) = Inr a"
  obtains available where "available \<noteq> []"
    "set available = {a \<in> set auths. selector_eligible (sa_fallback s) a \<and> free_now model (pt_available T) a}"
    "fst (pickBound cx provider model T (affinityRequest provider model sid fid) available s) = Inr a"
    "snd (snd (affinity_Pick E cx provider model T opts auths s)) =
       snd (pickBound cx provider model T (affinityRequest provider model sid fid) available s)"
proof (cases "getAvailableAuthsAcrossPriorities (availabilityCandidates (sa_fallback s) auths) provider model (pt_available T)")
  case (Inl err)
  then show thesis using assms(4) by (simp add: affinity_Pick_explicit[OF assms(1,2)])
next
  case (Inr available)
  then show thesis
    using available_candidates[OF assms(3) Inr] assms(4) that[of available]
    by (simp add: affinity_Pick_explicit[OF assms(1,2)] split_beta Let_def)
qed

lemma pick_binds:
  assumes ok: "cache_ok (sa_cache s)" "65 \<le> sc_maxEntries (sa_cache s)"
    and ids: "explicit_ids E opts = (sid, fid)" "sid \<noteq> []"
    and t: "0 \<le> pt_available T" "pt_available T \<le> pt_fallback T"
    and r: "affinity_Pick E cx provider model T opts auths s = (Inr a, md, s')" "auth_ID a \<noteq> []"
  shows "fst (Get t1 t2 (affinity_key provider sid (canonicalModelKey model)) (sa_cache s')) =
      (if t1 < pt_bind T + sc_ttl (sa_cache s) \<or> t2 < pt_bind T + sc_ttl (sa_cache s) then Some (auth_ID a) else None) \<and>
    keeps_cache (sa_cache s) (sa_cache s') \<and> selector_eligible (sa_fallback s') = selector_eligible (sa_fallback s)"
proof -
  let ?req = "affinityRequest provider model sid fid"
  have "fst (affinity_Pick E cx provider model T opts auths s) = Inr a" using r(1) by simp
  then obtain available where av: "available \<noteq> []"
    "set available = {a \<in> set auths. selector_eligible (sa_fallback s) a \<and> free_now model (pt_available T) a}"
    "fst (pickBound cx provider model T ?req available s) = Inr a"
    "snd (snd (affinity_Pick E cx provider model T opts auths s)) = snd (pickBound cx provider model T ?req available s)"
    by (rule explicit_pick[OF ids t(1)])
  have "bound_pick T ?req available s (pickBound cx provider model T ?req available s)"
    by (rule pickBound_bound[OF t av(1) _ ok(1)]) (use av(2) in auto)
  then obtain c' where c': "keeps_cache (sa_cache s) c'" "sa_cache s' = bindSession ?req (pt_bind T) (auth_ID a) c'"
    "selector_eligible (sa_fallback s') = selector_eligible (sa_fallback s)"
    using av(3,4) r(1) by (auto simp: bound_pick_def)
  have "keeps_cache (sa_cache s) (sa_cache s')" using bindSession_keeps[OF c'(1)] c'(2) by simp
  then show ?thesis
    using bindSession_answer[of c' "auth_ID a" ?req t1 t2 "pt_bind T"] c' ok r(2) by (simp add: keeps_cache_def)
qed

text \<open>C13. A pick serves whenever it can: whatever happened before, the returned credential is one of the candidates, is
  free at the time of the pick, and has a positive weight when the wrapped selector is weighted; an error is
  returned only when no candidate is like that.\<close>

theorem affinity_pick_serves:
  assumes "s = affinity_run E ops (NewSessionAffinitySelectorWithConfig fallback ttl)"
    and "0 \<le> pt_available T" "pt_available T \<le> pt_fallback T"
  shows "case fst (affinity_Pick E cx provider model T opts auths s) of
      Inr a \<Rightarrow> a \<in> set auths \<and> selector_eligible (sa_fallback s) a \<and> free_now model (pt_available T) a
    | Inl _ \<Rightarrow> list_all (\<lambda>a. \<not> (selector_eligible (sa_fallback s) a \<and> free_now model (pt_available T) a)) auths"
  using pick_serves[OF assms(2,3), of s model auths E cx provider opts] run_selector[OF assms(1)]
  by (simp add: serves_def affinity_ok_def)

text \<open>C15. A pick binds its session: afterwards the session answers with the returned credential, whether it was bound
  before, moved from another credential that had failed, or new; until the lifetime has passed.\<close>

theorem affinity_pick_binds:
  assumes "s = affinity_run E ops (NewSessionAffinitySelectorWithConfig fallback ttl)"
    and "explicit_ids E opts = (sid, fid)" "sid \<noteq> []" "0 \<le> pt_available T" "pt_available T \<le> pt_fallback T"
    and "affinity_Pick E cx provider model T opts auths s = (Inr a, md, s')" "auth_ID a \<noteq> []"
    and "expires = pt_bind T + (if ttl \<le> 0 then Hour else ttl)"
  shows "fst (Get t1 t2 (affinity_key provider sid (canonicalModelKey model)) (sa_cache s')) =
    (if t1 < expires \<or> t2 < expires then Some (auth_ID a) else None)"
  using pick_binds[OF _ _ assms(2-7), of t1 t2] run_selector[OF assms(1)]
  by (simp add: affinity_ok_def assms(8) defaultMaxSessionEntries_def)

text \<open>C14. A session stays on its credential: as long as the binding lives and the credential is available, the next pick
  of the session returns it again, whatever other candidates there are, of a higher priority as well, and
  whatever the wrapped selector would choose.\<close>

theorem affinity_sticky:
  assumes "s = affinity_run E ops (NewSessionAffinitySelectorWithConfig fallback ttl)"
    and "explicit_ids E opts = (sid, fid)" "sid \<noteq> []" "0 \<le> pt_available T" "pt_available T \<le> pt_fallback T"
    and "affinity_Pick E cx provider model T opts auths s = (Inr a, md, s')" "auth_ID a \<noteq> []"
    and "explicit_ids E opts' = (sid, fid')" "0 \<le> pt_available T'"
    and "pt_lookup T' < pt_bind T + (if ttl \<le> 0 then Hour else ttl)"
    and "{b \<in> set auths'. auth_ID b = auth_ID a} = {a'}" "selector_eligible (sa_fallback s) a'" "free_now model (pt_available T') a'"
  shows "fst (affinity_Pick E cx' provider model T' opts' auths' s') = Inr a'"
proof -
  let ?key = "affinity_key provider sid (canonicalModelKey model)" and ?req = "affinityRequest provider model sid fid'"
  have ok: "cache_ok (sa_cache s)" "65 \<le> sc_maxEntries (sa_cache s)" "sc_ttl (sa_cache s) = (if ttl \<le> 0 then Hour else ttl)"
    using run_selector[OF assms(1)] by (simp_all add: affinity_ok_def defaultMaxSessionEntries_def)
  note new = pick_binds[OF ok(1,2) assms(2-7), of "pt_lookup T'" "pt_lookup T'"]
  then have ok': "cache_ok (sa_cache s')" and el: "selector_eligible (sa_fallback s') = selector_eligible (sa_fallback s)"
    by (simp_all add: keeps_cache_def)
  have "fst (Get (pt_lookup T') (pt_lookup T') ?key (sa_cache s')) = Some (auth_ID a)"
    using new assms(10) ok(3) by simp
  then have hit: "fst (GetAndRefresh (pt_lookup T') ?key (sa_cache s')) = Some (auth_ID a)"
    using GetAndRefresh_answer[OF ok'] by simp
  have usable: "a' \<in> set auths'" "auth_ID a' = auth_ID a" using assms(11) by auto
  show ?thesis
  proof (cases "getAvailableAuthsAcrossPriorities (availabilityCandidates (sa_fallback s') auths') provider model (pt_available T')")
    case (Inl err)
    then show ?thesis using no_candidates[OF assms(9) Inl] usable(1) assms(12,13) el by auto
  next
    case (Inr available)
    have av: "set available = {b \<in> set auths'. selector_eligible (sa_fallback s) b \<and> free_now model (pt_available T') b}"
      using available_candidates[OF assms(9) Inr] el by simp
    have "find (\<lambda>b. auth_ID b = auth_ID a) available = Some a'"
    proof (cases "find (\<lambda>b. auth_ID b = auth_ID a) available")
      case None
      then show ?thesis using usable assms(12,13) av by (auto simp: find_None_iff)
    next
      case (Some b)
      then have "b \<in> set available" "auth_ID b = auth_ID a" by (auto simp: find_Some_iff)
      then have "b = a'" using assms(11) av by auto
      then show ?thesis using Some by simp
    qed
    then have "fst (pickBound cx' provider model T' ?req available s') = Inr a'"
      using hit by (simp add: pickBound_def split_beta Let_def)
    then show ?thesis using Inr by (simp add: affinity_Pick_explicit[OF assms(8,3)] split_beta Let_def)
  qed
qed

section \<open>Failures\<close>

text \<open>C16. A failure that the credential is to blame for releases the session: afterwards the session, and the identity it
  continues, do not answer with that credential, and every other session answers as before. A failure that the
  request is to blame for changes nothing.\<close>

theorem affinity_failure_releases:
  assumes "s = affinity_run E ops (NewSessionAffinitySelectorWithConfig fallback ttl)"
    and "explicit_ids E opts = (sid, fid)" "sid \<noteq> []" "\<not> rs_Success res" "rs_AuthID res \<noteq> []"
    and "s' = affinity_OnResult E t0 t1 t2 res opts s"
    and "released = {affinity_key (affinityProvider res opts) sid (affinityModel res opts)} \<union>
      (if fid \<noteq> [] \<and> fid \<noteq> sid \<and> \<not> isSubagentSession sid fid
       then {affinity_key (affinityProvider res opts) fid (affinityModel res opts)} else {})"
    and "blameless = (rs_Error res \<noteq> None \<and>
      shouldSkipCredentialCooldown (\<lambda>body path. gj_text (xt_gjson E) (gj_Parse (xt_gjson E) body) path) (rs_Error res))"
  shows "(if blameless then s' = s
    else sa_matcher s' = sa_matcher s \<and>
      fst (Get u1 u2 b (sa_cache s')) =
        (if b \<in> released \<and> fst (Get u1 u2 b (sa_cache s)) = Some (rs_AuthID res) then None else fst (Get u1 u2 b (sa_cache s))))"
proof -
  have ids: "extractExplicitSessionIDs (xt_gjson E) (op_Headers opts) (op_OriginalRequest opts) (op_Metadata opts) = (sid, fid)"
    using assms(2) by (simp add: explicit_ids_def)
  have ok: "cache_ok (sa_cache s)" using run_selector[OF assms(1)] by (simp add: affinity_ok_def)
  have ok1: "cache_ok (snd (CompareAndDelete k auth (sa_cache s)))" for k auth
    using keeps_cache_ops(6)[OF ok] by (simp add: keeps_cache_def)
  show ?thesis
    using ids assms(3-5)
    by (auto simp: assms(6-8) affinity_OnResult_def Let_def cacheResult_def CompareAndDelete_answer[OF ok] CompareAndDelete_answer[OF ok1])
qed

text \<open>Invalidating a credential takes away exactly its bindings: no session and no conversation answers with it any
  more, and every other session answers as before.\<close>

theorem affinity_invalidate:
  assumes "s = affinity_run E ops (NewSessionAffinitySelectorWithConfig fallback ttl)" "auth \<noteq> []"
    and "s' = affinity_InvalidateAuth auth s"
  shows "fst (Get t1 t2 b (sa_cache s')) =
      (if fst (Get t1 t2 b (sa_cache s)) = Some auth then None else fst (Get t1 t2 b (sa_cache s))) \<and>
    mm_lru (sa_matcher s') = filter (\<lambda>p. lg_authID (the_group (sa_matcher s) p) \<noteq> auth) (mm_lru (sa_matcher s)) \<and>
    the_group (sa_matcher s') = the_group (sa_matcher s)"
proof -
  have ok: "cache_ok (sa_cache s)" "matcher_ok (xt_turn E) (sa_matcher s)"
    using run_selector[OF assms(1)] by (simp_all add: affinity_ok_def)
  show ?thesis
    using removals_exact(3)[OF ok(1), of t1 t2 b auth] removeWhere_ok[OF ok(2), of "\<lambda>g. lg_authID g = auth"] assms(2)
    by (simp add: assms(3) affinity_InvalidateAuth_def matcher_InvalidateAuth_def shrinks_def)
qed

section \<open>Witnesses\<close>

definition wit_options :: Options where
  "wit_options = \<lparr>op_Headers = [(''X-Session-ID'', [''s1''])], op_OriginalRequest = [], op_SourceFormat = [], op_Metadata = []\<rparr>"

definition wit_times :: "go_time \<Rightarrow> pick_times" where
  "wit_times t = \<lparr>pt_available = t, pt_lookup = t, pt_parent = t, pt_parent_locked = t, pt_fallback = t, pt_bind = t\<rparr>"

definition wit_ctx :: pick_ctx where
  "wit_ctx = \<lparr>cx_websocket = False, cx_routeModel = []\<rparr>"

definition wit_selector :: SessionAffinitySelector where
  "wit_selector = affinity_run wit_extract [] (NewSessionAffinitySelectorWithConfig None 1000)"

definition wit_preferred :: auth where
  "wit_preferred = (sample_auth ''c'' ''claude'')\<lparr>auth_Attributes := [(''priority'', ''9'')]\<rparr>"

abbreviation wit_pick :: "(pick_error + auth) \<times> meta_map \<times> SessionAffinitySelector" where
  "wit_pick \<equiv> affinity_Pick wit_extract wit_ctx ''claude'' ''m'' (wit_times 10) wit_options [sample_auth ''b'' ''claude''] wit_selector"

lemma wit_ids: "explicit_ids wit_extract wit_options = (''header:s1'', [])"
  by code_simp

lemma wit_free: "free_now ''m'' 10 (sample_auth ''b'' ''claude'')" "free_now ''m'' 20 (sample_auth ''b'' ''claude'')"
  by code_simp+

lemma wit_eligible: "selector_eligible (sa_fallback wit_selector) a"
  by (simp add: wit_selector_def affinity_run_def NewSessionAffinitySelectorWithConfig_def selector_eligible_def is_weighted_def)

lemma wit_times: "pt_available (wit_times t) = t" "pt_fallback (wit_times t) = t" "pt_lookup (wit_times t) = t" "pt_bind (wit_times t) = t"
  by (simp_all add: wit_times_def)

lemma wit_picked: "wit_pick = (Inr (sample_auth ''b'' ''claude''), fst (snd wit_pick), snd (snd wit_pick))"
proof -
  have "cache_ok (sa_cache wit_selector)" using run_selector[OF wit_selector_def] by (simp add: affinity_ok_def)
  then have "serves ''m'' 10 (sa_fallback wit_selector) [sample_auth ''b'' ''claude''] (fst wit_pick)"
    using pick_serves[of "wit_times 10" wit_selector "''m''" "[sample_auth ''b'' ''claude'']" wit_extract wit_ctx "''claude''" wit_options]
    by (simp add: wit_times)
  then have "fst wit_pick = Inr (sample_auth ''b'' ''claude'')"
    using wit_free wit_eligible by (auto simp: serves_def split: sum.splits)
  then show ?thesis by (metis prod.collapse)
qed

theorem affinity_pick_serves_witness:
  "case fst wit_pick of
      Inr a \<Rightarrow> a \<in> set [sample_auth ''b'' ''claude''] \<and> selector_eligible (sa_fallback wit_selector) a \<and>
        free_now ''m'' (pt_available (wit_times 10)) a
    | Inl _ \<Rightarrow> list_all (\<lambda>a. \<not> (selector_eligible (sa_fallback wit_selector) a \<and> free_now ''m'' (pt_available (wit_times 10)) a))
        [sample_auth ''b'' ''claude'']"
  by (rule affinity_pick_serves[OF wit_selector_def]) (simp_all add: wit_times)

theorem affinity_pick_binds_witness:
  "fst (Get 900 900 (affinity_key ''claude'' ''header:s1'' (canonicalModelKey ''m'')) (sa_cache (snd (snd wit_pick)))) = Some ''b''"
  using affinity_pick_binds[OF wit_selector_def wit_ids _ _ _ wit_picked _ refl, of 900 900]
  by (simp add: wit_times sample_auth_def)

theorem affinity_sticky_witness:
  "fst (affinity_Pick wit_extract wit_ctx ''claude'' ''m'' (wit_times 20) wit_options
     [wit_preferred, sample_auth ''b'' ''claude''] (snd (snd wit_pick))) = Inr (sample_auth ''b'' ''claude'')"
  by (rule affinity_sticky[OF wit_selector_def wit_ids _ _ _ wit_picked _ wit_ids])
    (simp_all add: wit_times wit_free wit_eligible, auto simp: wit_preferred_def sample_auth_def)

definition wit_result :: Result where
  "wit_result = \<lparr>rs_AuthID = ''b'', rs_Provider = ''claude'', rs_Model = ''m'', rs_RouteModel = ''m'', rs_Success = False,
     rs_RetryAfter = None, rs_CredentialScope = False, rs_Error = None, rs_SkipQuotaObservation = False\<rparr>"

definition wit_run :: "affinity_op list" where
  "wit_run = [AffPick wit_ctx ''claude'' ''m'' (wit_times 10) wit_options [sample_auth ''b'' ''claude'']]"

definition wit_bound :: SessionAffinitySelector where
  "wit_bound = affinity_run wit_extract wit_run (NewSessionAffinitySelectorWithConfig None 1000)"

lemma wit_bound: "wit_bound = snd (snd wit_pick)"
  by (simp add: wit_bound_def wit_run_def affinity_run_def wit_selector_def)

lemma wit_bound_answer: "fst (Get 900 900 (affinity_key ''claude'' ''header:s1'' ''m'') (sa_cache wit_bound)) = Some ''b''"
proof -
  have "cache_ok (sa_cache wit_selector)" "65 \<le> sc_maxEntries (sa_cache wit_selector)" "sc_ttl (sa_cache wit_selector) = 1000"
    using run_selector[OF wit_selector_def] by (simp_all add: affinity_ok_def defaultMaxSessionEntries_def)
  from pick_binds[OF this(1,2) wit_ids _ _ _ wit_picked, of 900 900] this(3)
  have "fst (Get 900 900 (affinity_key ''claude'' ''header:s1'' (canonicalModelKey ''m'')) (sa_cache wit_bound)) = Some ''b''"
    by (simp add: wit_bound wit_times sample_auth_def)
  moreover have "canonicalModelKey ''m'' = ''m''" by code_simp
  ultimately show ?thesis by simp
qed

theorem affinity_failure_releases_witness:
  "fst (Get 900 900 (affinity_key ''claude'' ''header:s1'' ''m'') (sa_cache wit_bound)) = Some ''b'' \<and>
   fst (Get 900 900 (affinity_key ''claude'' ''header:s1'' ''m'')
     (sa_cache (affinity_OnResult wit_extract 30 30 30 wit_result wit_options wit_bound))) = None"
proof -
  have k: "affinityProvider wit_result wit_options = ''claude''" "affinityModel wit_result wit_options = ''m''" by code_simp+
  have r: "\<not> rs_Success wit_result" "rs_AuthID wit_result = ''b''" "rs_Error wit_result = None" by (simp_all add: wit_result_def)
  show ?thesis
    using affinity_failure_releases[OF wit_bound_def wit_ids _ _ _ refl refl refl, where res = wit_result and ?u1.0 = 900 and ?u2.0 = 900
        and b = "affinity_key ''claude'' ''header:s1'' ''m''" and ?t0.0 = 30 and ?t1.0 = 30 and ?t2.0 = 30]
      wit_bound_answer by (simp add: k r)
qed

theorem affinity_invalidate_witness:
  "fst (Get 900 900 (affinity_key ''claude'' ''header:s1'' ''m'') (sa_cache wit_bound)) = Some ''b'' \<and>
   fst (Get 900 900 (affinity_key ''claude'' ''header:s1'' ''m'') (sa_cache (affinity_InvalidateAuth ''b'' wit_bound))) = None"
  using affinity_invalidate[OF wit_bound_def _ refl, of "''b''" 900 900 "affinity_key ''claude'' ''header:s1'' ''m''"] wit_bound_answer
  by simp

end
