(* ===== verification/Usage.thy ===== *)
theory Usage
  imports Prelude
begin

text \<open>
  The accounting of tokens, \<open>sdk/aps/usage/accounting.go\<close>: the constructors of the non-overlapping
  \<open>TokenBreakdown\<close> and the breakdown of a \<open>Detail\<close> by the semantics of its provider. Counts are 64-bit
  integers; a sum in the code is \<open>int64\<close> of the sum.
\<close>

section \<open>Data\<close>

datatype TokenAccountingQuality =
    QualityNone
  | TokenAccountingQualityComplete
  | TokenAccountingQualityInconsistent
  | TokenAccountingQualityUnclassified

datatype tokenAccountingSemantics = SemanticsUnknown | SemanticsSubset | SemanticsIndependent | SemanticsSeparateReasoning

record TokenInputBreakdown =
  ti_TotalTokens :: int
  ti_UncachedTokens :: int
  ti_CacheReadTokens :: int
  ti_CacheWriteTokens :: int

record TokenOutputBreakdown =
  to_TotalTokens :: int
  to_NonReasoningTokens :: int
  to_ReasoningTokens :: int

record TokenBreakdown =
  tb_SchemaVersion :: int
  tb_Quality :: TokenAccountingQuality
  tb_TotalTokens :: int
  tb_Input :: TokenInputBreakdown
  tb_Output :: TokenOutputBreakdown
  tb_UnclassifiedTokens :: int

record Detail =
  dt_InputTokens :: int
  dt_OutputTokens :: int
  dt_ReasoningTokens :: int
  dt_CachedTokens :: int
  dt_CacheReadTokens :: int
  dt_CacheCreationTokens :: int
  dt_TotalTokens :: int
  dt_TokenBreakdown :: TokenBreakdown
  dt_ResponseServiceTier :: string

definition TokenAccountingSchemaVersion :: int where "TokenAccountingSchemaVersion = 2"

definition validTokenAccountingQuality :: "TokenAccountingQuality \<Rightarrow> bool" where
  "validTokenAccountingQuality quality \<longleftrightarrow>
     (case quality of
        TokenAccountingQualityComplete \<Rightarrow> True
      | TokenAccountingQualityInconsistent \<Rightarrow> True
      | TokenAccountingQualityUnclassified \<Rightarrow> True
      | QualityNone \<Rightarrow> False)"

definition breakdown_Valid :: "TokenBreakdown \<Rightarrow> bool" where
  "breakdown_Valid b =
     (if tb_SchemaVersion b \<noteq> TokenAccountingSchemaVersion \<or> \<not> validTokenAccountingQuality (tb_Quality b) then False
      else if tb_TotalTokens b < 0 \<or> tb_UnclassifiedTokens b < 0 \<or>
              ti_TotalTokens (tb_Input b) < 0 \<or> ti_UncachedTokens (tb_Input b) < 0 \<or>
              ti_CacheReadTokens (tb_Input b) < 0 \<or> ti_CacheWriteTokens (tb_Input b) < 0 \<or>
              to_TotalTokens (tb_Output b) < 0 \<or> to_NonReasoningTokens (tb_Output b) < 0 \<or>
              to_ReasoningTokens (tb_Output b) < 0 then False
      else if ti_TotalTokens (tb_Input b) \<noteq>
              int64 (int64 (ti_UncachedTokens (tb_Input b) + ti_CacheReadTokens (tb_Input b)) + ti_CacheWriteTokens (tb_Input b))
      then False
      else if to_TotalTokens (tb_Output b) \<noteq> int64 (to_NonReasoningTokens (tb_Output b) + to_ReasoningTokens (tb_Output b))
      then False
      else if tb_TotalTokens b \<noteq>
              int64 (int64 (ti_TotalTokens (tb_Input b) + to_TotalTokens (tb_Output b)) + tb_UnclassifiedTokens b)
      then False
      else if tb_Quality b = TokenAccountingQualityComplete \<and> tb_UnclassifiedTokens b \<noteq> 0 then False
      else True)"

section \<open>Sums\<close>

fun sumLoop :: "int list \<Rightarrow> int \<Rightarrow> int option" where
  "sumLoop [] tot = Some tot"
| "sumLoop (value # values) tot =
     (if value < 0 \<or> tot > MaxInt64 - value then None else sumLoop values (int64 (tot + value)))"

definition nonNegativeSum :: "int list \<Rightarrow> int \<times> bool" where
  "nonNegativeSum values = (case sumLoop values 0 of None \<Rightarrow> (0, False) | Some tot \<Rightarrow> (tot, True))"

definition resolveAccountingTotal :: "int \<Rightarrow> int \<Rightarrow> int \<times> bool" where
  "resolveAccountingTotal tot expected =
     (if tot < 0 \<or> expected < 0 then (0, False)
      else if tot = 0 then (expected, True)
      else (tot, tot = expected))"

section \<open>Constructors\<close>

definition no_input :: TokenInputBreakdown where
  "no_input = \<lparr>ti_TotalTokens = 0, ti_UncachedTokens = 0, ti_CacheReadTokens = 0, ti_CacheWriteTokens = 0\<rparr>"

definition no_output :: TokenOutputBreakdown where
  "no_output = \<lparr>to_TotalTokens = 0, to_NonReasoningTokens = 0, to_ReasoningTokens = 0\<rparr>"

definition inconsistentTokenBreakdown :: "int \<Rightarrow> int \<Rightarrow> TokenBreakdown" where
  "inconsistentTokenBreakdown tot fallback =
     (let resolved0 = (if tot \<le> 0 then fallback else tot);
          resolved = (if resolved0 < 0 then 0 else resolved0)
      in \<lparr>tb_SchemaVersion = TokenAccountingSchemaVersion, tb_Quality = TokenAccountingQualityInconsistent,
          tb_TotalTokens = resolved, tb_Input = no_input, tb_Output = no_output, tb_UnclassifiedTokens = resolved\<rparr>)"

definition NewSubsetTokenBreakdown :: "int \<Rightarrow> int \<Rightarrow> int \<Rightarrow> int \<Rightarrow> int \<Rightarrow> int \<Rightarrow> TokenBreakdown" where
  "NewSubsetTokenBreakdown inputTotal cacheRead cacheWrite outputTotal reasoning tot =
     (let (expectedTotal, okExpected) = nonNegativeSum [inputTotal, outputTotal];
          (resolvedTotal, okTotal) = resolveAccountingTotal tot expectedTotal
      in if \<not> okExpected \<or> cacheRead < 0 \<or> cacheWrite < 0 \<or> reasoning < 0 \<or>
            int64 (cacheRead + cacheWrite) > inputTotal \<or> reasoning > outputTotal
         then inconsistentTokenBreakdown tot expectedTotal
         else if \<not> okTotal then inconsistentTokenBreakdown tot expectedTotal
         else \<lparr>tb_SchemaVersion = TokenAccountingSchemaVersion, tb_Quality = TokenAccountingQualityComplete,
               tb_TotalTokens = resolvedTotal,
               tb_Input = \<lparr>ti_TotalTokens = inputTotal, ti_UncachedTokens = int64 (int64 (inputTotal - cacheRead) - cacheWrite),
                           ti_CacheReadTokens = cacheRead, ti_CacheWriteTokens = cacheWrite\<rparr>,
               tb_Output = \<lparr>to_TotalTokens = outputTotal, to_NonReasoningTokens = int64 (outputTotal - reasoning),
                            to_ReasoningTokens = reasoning\<rparr>,
               tb_UnclassifiedTokens = 0\<rparr>)"

definition NewPartialSubsetTokenBreakdown :: "int \<Rightarrow> int \<Rightarrow> int \<Rightarrow> int \<Rightarrow> int \<Rightarrow> int \<Rightarrow> TokenBreakdown" where
  "NewPartialSubsetTokenBreakdown inputTotal cacheRead cacheWrite outputTotal reasoning tot =
     (let (cacheTotal, okCache) = nonNegativeSum [cacheRead, cacheWrite];
          (expectedTotal, okExpected) = nonNegativeSum [inputTotal, outputTotal];
          resolvedTotal = (if tot = 0 then expectedTotal else tot);
          unclassified = int64 (resolvedTotal - expectedTotal)
      in if \<not> okCache \<or> \<not> okExpected \<or> inputTotal < 0 \<or> outputTotal < 0 \<or> reasoning < 0 \<or>
            cacheTotal > inputTotal \<or> reasoning > outputTotal \<or> tot < 0
         then inconsistentTokenBreakdown tot expectedTotal
         else if resolvedTotal < expectedTotal then inconsistentTokenBreakdown tot expectedTotal
         else \<lparr>tb_SchemaVersion = TokenAccountingSchemaVersion,
               tb_Quality = (if unclassified > 0 then TokenAccountingQualityUnclassified else TokenAccountingQualityComplete),
               tb_TotalTokens = resolvedTotal,
               tb_Input = \<lparr>ti_TotalTokens = inputTotal, ti_UncachedTokens = int64 (inputTotal - cacheTotal),
                           ti_CacheReadTokens = cacheRead, ti_CacheWriteTokens = cacheWrite\<rparr>,
               tb_Output = \<lparr>to_TotalTokens = outputTotal, to_NonReasoningTokens = int64 (outputTotal - reasoning),
                            to_ReasoningTokens = reasoning\<rparr>,
               tb_UnclassifiedTokens = unclassified\<rparr>)"

definition NewIndependentTokenBreakdown :: "int \<Rightarrow> int \<Rightarrow> int \<Rightarrow> int \<Rightarrow> int \<Rightarrow> int \<Rightarrow> TokenBreakdown" where
  "NewIndependentTokenBreakdown uncachedInput cacheRead cacheWrite nonReasoningOutput reasoning tot =
     (let (inputTotal, okInput) = nonNegativeSum [uncachedInput, cacheRead, cacheWrite];
          (outputTotal, okOutput) = nonNegativeSum [nonReasoningOutput, reasoning];
          (expectedTotal, okExpected) = nonNegativeSum [inputTotal, outputTotal];
          (resolvedTotal, okTotal) = resolveAccountingTotal tot expectedTotal
      in if \<not> okInput \<or> \<not> okOutput \<or> \<not> okExpected then inconsistentTokenBreakdown tot expectedTotal
         else if \<not> okTotal then inconsistentTokenBreakdown tot expectedTotal
         else \<lparr>tb_SchemaVersion = TokenAccountingSchemaVersion, tb_Quality = TokenAccountingQualityComplete,
               tb_TotalTokens = resolvedTotal,
               tb_Input = \<lparr>ti_TotalTokens = inputTotal, ti_UncachedTokens = uncachedInput,
                           ti_CacheReadTokens = cacheRead, ti_CacheWriteTokens = cacheWrite\<rparr>,
               tb_Output = \<lparr>to_TotalTokens = outputTotal, to_NonReasoningTokens = nonReasoningOutput,
                            to_ReasoningTokens = reasoning\<rparr>,
               tb_UnclassifiedTokens = 0\<rparr>)"

definition NewSeparateReasoningTokenBreakdown :: "int \<Rightarrow> int \<Rightarrow> int \<Rightarrow> int \<Rightarrow> int \<Rightarrow> int \<Rightarrow> TokenBreakdown" where
  "NewSeparateReasoningTokenBreakdown inputTotal cacheRead cacheWrite nonReasoningOutput reasoning tot =
     (let (outputTotal, okOutput) = nonNegativeSum [nonReasoningOutput, reasoning];
          (expectedTotal, okExpected) = nonNegativeSum [inputTotal, outputTotal];
          (resolvedTotal, okTotal) = resolveAccountingTotal tot expectedTotal
      in if inputTotal < 0 \<or> cacheRead < 0 \<or> cacheWrite < 0 \<or> int64 (cacheRead + cacheWrite) > inputTotal
         then inconsistentTokenBreakdown tot 0
         else if \<not> okOutput \<or> \<not> okExpected then inconsistentTokenBreakdown tot expectedTotal
         else if \<not> okTotal then inconsistentTokenBreakdown tot expectedTotal
         else \<lparr>tb_SchemaVersion = TokenAccountingSchemaVersion, tb_Quality = TokenAccountingQualityComplete,
               tb_TotalTokens = resolvedTotal,
               tb_Input = \<lparr>ti_TotalTokens = inputTotal, ti_UncachedTokens = int64 (int64 (inputTotal - cacheRead) - cacheWrite),
                           ti_CacheReadTokens = cacheRead, ti_CacheWriteTokens = cacheWrite\<rparr>,
               tb_Output = \<lparr>to_TotalTokens = outputTotal, to_NonReasoningTokens = nonReasoningOutput,
                            to_ReasoningTokens = reasoning\<rparr>,
               tb_UnclassifiedTokens = 0\<rparr>)"

definition NewUnclassifiedTokenBreakdown :: "int \<Rightarrow> TokenBreakdown" where
  "NewUnclassifiedTokenBreakdown tot =
     (if tot \<le> 0
      then \<lparr>tb_SchemaVersion = TokenAccountingSchemaVersion,
            tb_Quality = (if tot < 0 then TokenAccountingQualityInconsistent else TokenAccountingQualityComplete),
            tb_TotalTokens = 0, tb_Input = no_input, tb_Output = no_output, tb_UnclassifiedTokens = 0\<rparr>
      else \<lparr>tb_SchemaVersion = TokenAccountingSchemaVersion, tb_Quality = TokenAccountingQualityUnclassified,
            tb_TotalTokens = tot, tb_Input = no_input, tb_Output = no_output, tb_UnclassifiedTokens = tot\<rparr>)"

section \<open>The breakdown of a detail\<close>

definition unclassifiedTokenLowerBound :: "Detail \<Rightarrow> int \<times> bool" where
  "unclassifiedTokenLowerBound detail =
     (let (cacheTokens, okCache) = nonNegativeSum [dt_CacheReadTokens detail, dt_CacheCreationTokens detail];
          input0 = dt_InputTokens detail;
          input1 = (if cacheTokens > input0 then cacheTokens else input0);
          inputTotal = (if dt_CachedTokens detail > input1 then dt_CachedTokens detail else input1);
          outputTotal = (if dt_ReasoningTokens detail > dt_OutputTokens detail then dt_ReasoningTokens detail
                         else dt_OutputTokens detail)
      in if \<not> okCache \<or> dt_InputTokens detail < 0 \<or> dt_OutputTokens detail < 0 \<or> dt_ReasoningTokens detail < 0 \<or>
            dt_CachedTokens detail < 0 then (0, False)
         else nonNegativeSum [inputTotal, outputTotal])"

definition tokenAccountingSemanticsFor :: "string \<Rightarrow> string \<Rightarrow> tokenAccountingSemantics" where
  "tokenAccountingSemanticsFor provider executorType =
     (let normalizedProvider = ToLower (TrimSpace provider);
          normalizedExecutor = ToLower (TrimSpace executorType);
          value = TrimSpace (normalizedProvider @ '' '' @ normalizedExecutor)
      in if value = [] \<or> value = ''unknown'' \<or> value = ''unknown unknown'' then SemanticsUnknown
         else if normalizedExecutor = ''openaicompatexecutor'' \<or> normalizedProvider = ''openai-compatibility'' \<or>
                 HasPrefix normalizedProvider ''openai-compatible-'' then SemanticsSubset
         else if Contains value ''claude'' \<or> Contains value ''anthropic'' then SemanticsIndependent
         else if list_ex (Contains value) [''gemini'', ''aistudio'', ''antigravity'', ''vertex'', ''interaction'']
         then SemanticsSeparateReasoning
         else if list_ex (Contains value)
                   [''openai'', ''codex'', ''xai'', ''grok'', ''kimi'', ''qwen'', ''deepseek'', ''openrouter'']
         then SemanticsSubset
         else SemanticsUnknown)"

definition semanticBreakdown :: "Detail \<Rightarrow> tokenAccountingSemantics \<Rightarrow> TokenBreakdown" where
  "semanticBreakdown detail semantics =
     (let apply_to = (\<lambda>f. f (dt_InputTokens detail) (dt_CacheReadTokens detail) (dt_CacheCreationTokens detail)
                           (dt_OutputTokens detail) (dt_ReasoningTokens detail) (dt_TotalTokens detail))
      in case semantics of
           SemanticsSubset \<Rightarrow> apply_to NewSubsetTokenBreakdown
         | SemanticsIndependent \<Rightarrow> apply_to NewIndependentTokenBreakdown
         | SemanticsSeparateReasoning \<Rightarrow> apply_to NewSeparateReasoningTokenBreakdown
         | SemanticsUnknown \<Rightarrow>
             if dt_TotalTokens detail = 0
             then let (tot, okTotal) = unclassifiedTokenLowerBound detail
                  in if \<not> okTotal then inconsistentTokenBreakdown (dt_TotalTokens detail) 0
                     else NewUnclassifiedTokenBreakdown tot
             else NewUnclassifiedTokenBreakdown (dt_TotalTokens detail))"

definition tokenBreakdownForSemantics :: "Detail \<Rightarrow> tokenAccountingSemantics \<Rightarrow> TokenBreakdown" where
  "tokenBreakdownForSemantics detail semantics =
     (let (tot, okTotal) = unclassifiedTokenLowerBound detail;
          empty = dt_TotalTokens detail = 0 \<and> dt_InputTokens detail = 0 \<and> dt_OutputTokens detail = 0
      in if empty \<and> \<not> okTotal then inconsistentTokenBreakdown (dt_TotalTokens detail) 0
         else if empty \<and> tot > 0 \<and>
                 (semantics = SemanticsUnknown \<or> semantics = SemanticsSubset \<or>
                  semantics = SemanticsSeparateReasoning \<and>
                    (dt_CacheReadTokens detail > 0 \<or> dt_CacheCreationTokens detail > 0 \<or> dt_CachedTokens detail > 0))
         then NewUnclassifiedTokenBreakdown tot
         else semanticBreakdown detail semantics)"

definition EnsureTokenBreakdownForProvider :: "Detail \<Rightarrow> string \<Rightarrow> string \<Rightarrow> Detail" where
  "EnsureTokenBreakdownForProvider detail provider executorType =
     (let semantics = tokenAccountingSemanticsFor provider executorType;
          counted = (if dt_CacheReadTokens detail = 0 \<and> dt_CachedTokens detail > 0 \<and> dt_InputTokens detail = 0 \<and>
                        dt_OutputTokens detail = 0 \<and> dt_ReasoningTokens detail = 0 \<and> dt_CacheCreationTokens detail = 0 \<and>
                        dt_TotalTokens detail = 0 \<and> (semantics = SemanticsSubset \<or> semantics = SemanticsSeparateReasoning)
                     then detail\<lparr>dt_CacheReadTokens := dt_CachedTokens detail\<rparr> else detail);
          ensured = (if breakdown_Valid (dt_TokenBreakdown detail) then detail
                     else counted\<lparr>dt_TokenBreakdown := tokenBreakdownForSemantics counted semantics\<rparr>)
      in if dt_TotalTokens ensured = 0
         then ensured\<lparr>dt_TotalTokens := tb_TotalTokens (dt_TokenBreakdown ensured)\<rparr> else ensured)"

definition EnsureTokenBreakdown :: "Detail \<Rightarrow> Detail" where
  "EnsureTokenBreakdown detail = EnsureTokenBreakdownForProvider detail [] []"

section \<open>Exact breakdowns\<close>

text \<open>The sums of the buckets as integers, with nothing lost to the width of the machine.\<close>

definition exact_breakdown :: "TokenBreakdown \<Rightarrow> bool" where
  "exact_breakdown b \<longleftrightarrow>
     tb_SchemaVersion b = 2 \<and> tb_Quality b \<noteq> QualityNone \<and>
     0 \<le> ti_UncachedTokens (tb_Input b) \<and> 0 \<le> ti_CacheReadTokens (tb_Input b) \<and> 0 \<le> ti_CacheWriteTokens (tb_Input b) \<and>
     0 \<le> to_NonReasoningTokens (tb_Output b) \<and> 0 \<le> to_ReasoningTokens (tb_Output b) \<and> 0 \<le> tb_UnclassifiedTokens b \<and>
     ti_TotalTokens (tb_Input b) = ti_UncachedTokens (tb_Input b) + ti_CacheReadTokens (tb_Input b) + ti_CacheWriteTokens (tb_Input b) \<and>
     to_TotalTokens (tb_Output b) = to_NonReasoningTokens (tb_Output b) + to_ReasoningTokens (tb_Output b) \<and>
     tb_TotalTokens b = ti_TotalTokens (tb_Input b) + to_TotalTokens (tb_Output b) + tb_UnclassifiedTokens b \<and>
     tb_TotalTokens b \<le> MaxInt64 \<and>
     (tb_Quality b = TokenAccountingQualityComplete \<longrightarrow> tb_UnclassifiedTokens b = 0)"

lemma int64_fits: "0 \<le> x \<Longrightarrow> x \<le> MaxInt64 \<Longrightarrow> int64 x = x"
  by (simp add: in_int64_def MinInt64_def)

lemma exact_Valid: "exact_breakdown b \<Longrightarrow> breakdown_Valid b"
  by (auto simp: exact_breakdown_def breakdown_Valid_def TokenAccountingSchemaVersion_def validTokenAccountingQuality_def int64_fits
      split: TokenAccountingQuality.split)

lemma sumLoop_exact: "0 \<le> tot \<Longrightarrow> tot \<le> MaxInt64 \<Longrightarrow>
   sumLoop values tot = Some s \<Longrightarrow> s = tot + sum_list values \<and> s \<le> MaxInt64 \<and> (\<forall>v \<in> set values. 0 \<le> v)"
proof (induction "values" arbitrary: tot)
  case (Cons v vs)
  have v: "0 \<le> v" "tot + v \<le> MaxInt64" using Cons.prems(3) by (auto split: if_splits)
  then have "int64 (tot + v) = tot + v" using Cons.prems(1) by (intro int64_fits) auto
  then show ?case using Cons.IH[of "tot + v"] Cons.prems v by (auto split: if_splits)
qed simp

lemma nonNegativeSum_ok:
  "nonNegativeSum vs = (s, True) \<Longrightarrow> s = sum_list vs \<and> s \<le> MaxInt64 \<and> (\<forall>v \<in> set vs. 0 \<le> v)"
  using sumLoop_exact[of 0 vs s] by (simp add: nonNegativeSum_def MaxInt64_def split: option.splits)

lemma nonNegativeSum_bad: "nonNegativeSum vs = (s, False) \<Longrightarrow> s = 0"
  by (simp add: nonNegativeSum_def split: option.splits)

lemma nonNegativeSum_range: "fst (nonNegativeSum vs) \<le> MaxInt64 \<and> 0 \<le> fst (nonNegativeSum vs)"
proof (cases "nonNegativeSum vs")
  case (Pair s ok)
  then show ?thesis
    using nonNegativeSum_ok[of vs s] nonNegativeSum_bad[of vs s] sum_list_nonneg[of vs] by (cases ok) (auto simp: MaxInt64_def)
qed

lemma resolve_ok: "resolveAccountingTotal tot expected = (r, True) \<Longrightarrow> r = expected \<and> (tot = 0 \<or> tot = expected)"
  by (auto simp: resolveAccountingTotal_def split: if_splits)

lemma inconsistent_exact: "tot \<le> MaxInt64 \<Longrightarrow> fallback \<le> MaxInt64 \<Longrightarrow> exact_breakdown (inconsistentTokenBreakdown tot fallback)"
  by (simp add: inconsistentTokenBreakdown_def exact_breakdown_def no_input_def no_output_def TokenAccountingSchemaVersion_def
      Let_def MaxInt64_def)

lemma unclassified_exact: "tot \<le> MaxInt64 \<Longrightarrow> exact_breakdown (NewUnclassifiedTokenBreakdown tot)"
  by (simp add: NewUnclassifiedTokenBreakdown_def exact_breakdown_def no_input_def no_output_def TokenAccountingSchemaVersion_def
      MaxInt64_def)

end
