(* ===== verification/UsageClaims.thy ===== *)
theory UsageClaims
  imports Usage
begin

text \<open>
  Every breakdown is exact, that is, its buckets add up as integers, as long as the cache counts of a detail can be
  added; two constructors add them without a check, and break when the sum overflows.
\<close>

lemma int64_sub: "0 \<le> y \<Longrightarrow> y \<le> x \<Longrightarrow> x \<le> MaxInt64 \<Longrightarrow> int64 (x - y) = x - y"
  by (rule int64_fits) auto

lemma two_sum: "nonNegativeSum [x, y] = (s, True) \<Longrightarrow> s = x + y \<and> 0 \<le> x \<and> 0 \<le> y \<and> s \<le> MaxInt64"
  using nonNegativeSum_ok[of "[x, y]" s] by simp

lemma three_sum: "nonNegativeSum [x, y, z] = (s, True) \<Longrightarrow> s = x + y + z \<and> 0 \<le> x \<and> 0 \<le> y \<and> 0 \<le> z \<and> s \<le> MaxInt64"
  using nonNegativeSum_ok[of "[x, y, z]" s] by simp

lemma sum_max: "nonNegativeSum vs = (s, ok) \<Longrightarrow> s \<le> MaxInt64"
  using nonNegativeSum_range[of vs] by simp

lemma subset_exact:
  assumes "cacheRead + cacheWrite \<le> MaxInt64" "tot \<le> MaxInt64"
  shows "exact_breakdown (NewSubsetTokenBreakdown inputTotal cacheRead cacheWrite outputTotal reasoning tot)"
proof -
  obtain e ok where e: "nonNegativeSum [inputTotal, outputTotal] = (e, ok)" by (rule prod.exhaust)
  obtain r okr where r: "resolveAccountingTotal tot e = (r, okr)" by (rule prod.exhaust)
  note bad = inconsistent_exact[OF assms(2) sum_max[OF e]]
  show ?thesis
  proof (cases "ok \<and> okr \<and> 0 \<le> cacheRead \<and> 0 \<le> cacheWrite \<and> 0 \<le> reasoning \<and>
      int64 (cacheRead + cacheWrite) \<le> inputTotal \<and> reasoning \<le> outputTotal")
    case True
    have s: "e = inputTotal + outputTotal" "0 \<le> inputTotal" "0 \<le> outputTotal" "e \<le> MaxInt64" "r = e"
      using two_sum[of inputTotal outputTotal e] resolve_ok[of tot e r] e r True by auto
    have "cacheRead + cacheWrite \<le> inputTotal" using True int64_fits[of "cacheRead + cacheWrite"] assms(1) by simp
    then have "int64 (inputTotal - cacheRead) = inputTotal - cacheRead"
      "int64 (inputTotal - cacheRead - cacheWrite) = inputTotal - cacheRead - cacheWrite"
      "int64 (outputTotal - reasoning) = outputTotal - reasoning"
      using True s by (auto intro!: int64_fits)
    then show ?thesis
      using True s e r \<open>cacheRead + cacheWrite \<le> inputTotal\<close>
      by (simp add: NewSubsetTokenBreakdown_def exact_breakdown_def TokenAccountingSchemaVersion_def)
  next
    case False
    then have "NewSubsetTokenBreakdown inputTotal cacheRead cacheWrite outputTotal reasoning tot = inconsistentTokenBreakdown tot e"
      by (auto simp: NewSubsetTokenBreakdown_def e r)
    with bad show ?thesis by simp
  qed
qed

lemma separate_exact:
  assumes "cacheRead + cacheWrite \<le> MaxInt64" "tot \<le> MaxInt64"
  shows "exact_breakdown (NewSeparateReasoningTokenBreakdown inputTotal cacheRead cacheWrite nonReasoning reasoning tot)"
proof -
  obtain u oku where u: "nonNegativeSum [nonReasoning, reasoning] = (u, oku)" by (rule prod.exhaust)
  obtain e ok where e: "nonNegativeSum [inputTotal, u] = (e, ok)" by (rule prod.exhaust)
  obtain r okr where r: "resolveAccountingTotal tot e = (r, okr)" by (rule prod.exhaust)
  note bad = inconsistent_exact[OF assms(2) sum_max[OF e]] inconsistent_exact[OF assms(2), of 0]
  show ?thesis
  proof (cases "oku \<and> ok \<and> okr \<and> 0 \<le> cacheRead \<and> 0 \<le> cacheWrite \<and> int64 (cacheRead + cacheWrite) \<le> inputTotal")
    case True
    have s: "u = nonReasoning + reasoning" "0 \<le> nonReasoning" "0 \<le> reasoning" "e = inputTotal + u" "0 \<le> inputTotal"
      "e \<le> MaxInt64" "r = e"
      using two_sum[of nonReasoning reasoning u] two_sum[of inputTotal u e] resolve_ok[of tot e r] u e r True by auto
    have "cacheRead + cacheWrite \<le> inputTotal" using True int64_fits[of "cacheRead + cacheWrite"] assms(1) by simp
    then have "int64 (inputTotal - cacheRead) = inputTotal - cacheRead"
      "int64 (inputTotal - cacheRead - cacheWrite) = inputTotal - cacheRead - cacheWrite"
      using True s by (auto intro!: int64_fits)
    then show ?thesis
      using True s u e r \<open>cacheRead + cacheWrite \<le> inputTotal\<close>
      by (simp add: NewSeparateReasoningTokenBreakdown_def exact_breakdown_def TokenAccountingSchemaVersion_def)
  next
    case False
    then have "NewSeparateReasoningTokenBreakdown inputTotal cacheRead cacheWrite nonReasoning reasoning tot \<in>
        {inconsistentTokenBreakdown tot e, inconsistentTokenBreakdown tot 0}"
      by (auto simp: NewSeparateReasoningTokenBreakdown_def u e r)
    with bad show ?thesis by (auto simp: MaxInt64_def)
  qed
qed

lemma independent_exact:
  assumes "tot \<le> MaxInt64"
  shows "exact_breakdown (NewIndependentTokenBreakdown uncached cacheRead cacheWrite nonReasoning reasoning tot)"
proof -
  obtain i oki where i: "nonNegativeSum [uncached, cacheRead, cacheWrite] = (i, oki)" by (rule prod.exhaust)
  obtain u oku where u: "nonNegativeSum [nonReasoning, reasoning] = (u, oku)" by (rule prod.exhaust)
  obtain e ok where e: "nonNegativeSum [i, u] = (e, ok)" by (rule prod.exhaust)
  obtain r okr where r: "resolveAccountingTotal tot e = (r, okr)" by (rule prod.exhaust)
  show ?thesis
  proof (cases "oki \<and> oku \<and> ok \<and> okr")
    case True
    have "i = uncached + cacheRead + cacheWrite" "0 \<le> uncached" "0 \<le> cacheRead" "0 \<le> cacheWrite"
      "u = nonReasoning + reasoning" "0 \<le> nonReasoning" "0 \<le> reasoning" "e = i + u" "e \<le> MaxInt64" "r = e"
      using three_sum[of uncached cacheRead cacheWrite i] two_sum[of nonReasoning reasoning u] two_sum[of i u e]
        resolve_ok[of tot e r] i u e r True by auto
    then show ?thesis
      using True i u e r by (simp add: NewIndependentTokenBreakdown_def exact_breakdown_def TokenAccountingSchemaVersion_def)
  next
    case False
    then have "NewIndependentTokenBreakdown uncached cacheRead cacheWrite nonReasoning reasoning tot = inconsistentTokenBreakdown tot e"
      by (auto simp: NewIndependentTokenBreakdown_def i u e r)
    with inconsistent_exact[OF assms sum_max[OF e]] show ?thesis by simp
  qed
qed

lemma partial_exact:
  assumes "tot \<le> MaxInt64"
  shows "exact_breakdown (NewPartialSubsetTokenBreakdown inputTotal cacheRead cacheWrite outputTotal reasoning tot)"
proof -
  obtain k okc where k: "nonNegativeSum [cacheRead, cacheWrite] = (k, okc)" by (rule prod.exhaust)
  obtain e ok where e: "nonNegativeSum [inputTotal, outputTotal] = (e, ok)" by (rule prod.exhaust)
  let ?r = "if tot = 0 then e else tot"
  show ?thesis
  proof (cases "okc \<and> ok \<and> 0 \<le> reasoning \<and> k \<le> inputTotal \<and> reasoning \<le> outputTotal \<and> 0 \<le> tot \<and> e \<le> ?r")
    case True
    have s: "k = cacheRead + cacheWrite" "0 \<le> cacheRead" "0 \<le> cacheWrite" "e = inputTotal + outputTotal" "0 \<le> inputTotal"
      "0 \<le> outputTotal" "e \<le> MaxInt64"
      using two_sum[of cacheRead cacheWrite k] two_sum[of inputTotal outputTotal e] k e True by auto
    have "int64 (inputTotal - k) = inputTotal - k" "int64 (outputTotal - reasoning) = outputTotal - reasoning"
      "int64 (?r - e) = ?r - e"
      using True s assms by (auto intro!: int64_fits simp: MaxInt64_def)
    then show ?thesis
      using True s assms k e
      by (auto simp: NewPartialSubsetTokenBreakdown_def exact_breakdown_def TokenAccountingSchemaVersion_def Let_def)
  next
    case False
    then have "NewPartialSubsetTokenBreakdown inputTotal cacheRead cacheWrite outputTotal reasoning tot = inconsistentTokenBreakdown tot e"
      by (auto simp: NewPartialSubsetTokenBreakdown_def k e Let_def)
    with inconsistent_exact[OF assms sum_max[OF e]] show ?thesis by simp
  qed
qed

section \<open>Details\<close>

lemma lower_bound_max: "fst (unclassifiedTokenLowerBound detail) \<le> MaxInt64"
  using nonNegativeSum_range
  by (simp add: unclassifiedTokenLowerBound_def split_beta Let_def MaxInt64_def)

lemma semantics_exact:
  assumes "dt_TotalTokens detail \<le> MaxInt64" "dt_CacheReadTokens detail + dt_CacheCreationTokens detail \<le> MaxInt64"
  shows "exact_breakdown (tokenBreakdownForSemantics detail semantics)"
  using assms lower_bound_max[of detail] subset_exact[OF assms(2,1)] separate_exact[OF assms(2,1)] independent_exact[OF assms(1)]
    unclassified_exact inconsistent_exact[OF assms(1), of 0]
  by (auto simp: tokenBreakdownForSemantics_def semanticBreakdown_def split_beta Let_def MaxInt64_def split: tokenAccountingSemantics.split)

text \<open>C32. The buckets of a breakdown never overlap and lose nothing: every constructor returns buckets that are not negative
  and add up, as integers, to the totals they report, provided that the two cache counts can be added without an
  overflow; the constructors that check the sum need no such condition.\<close>

theorem breakdowns_exact:
  assumes "tot \<le> MaxInt64"
  shows "exact_breakdown (NewPartialSubsetTokenBreakdown i r w u k tot) \<and> exact_breakdown (NewIndependentTokenBreakdown i r w u k tot) \<and>
    exact_breakdown (NewUnclassifiedTokenBreakdown tot) \<and>
    (r + w \<le> MaxInt64 \<longrightarrow> exact_breakdown (NewSubsetTokenBreakdown i r w u k tot) \<and>
       exact_breakdown (NewSeparateReasoningTokenBreakdown i r w u k tot))"
  using partial_exact[OF assms] independent_exact[OF assms] unclassified_exact[OF assms] subset_exact[OF _ assms] separate_exact[OF _ assms]
  by blast

theorem breakdowns_exact_witness:
  "exact_breakdown (NewSubsetTokenBreakdown 100 30 20 50 10 150) \<and> tb_Quality (NewSubsetTokenBreakdown 100 30 20 50 10 150) = TokenAccountingQualityComplete \<and>
   exact_breakdown (NewPartialSubsetTokenBreakdown 100 30 20 50 10 160)"
proof -
  have "tb_Quality (NewSubsetTokenBreakdown 100 30 20 50 10 150) = TokenAccountingQualityComplete" by code_simp
  then show ?thesis
    using breakdowns_exact[of 150 100 30 20 50 10] breakdowns_exact[of 160 100 30 20 50 10] by (simp add: MaxInt64_def)
qed

text \<open>The counts of a detail that come from a provider.\<close>

definition counts_ok :: "Detail \<Rightarrow> bool" where
  "counts_ok detail \<longleftrightarrow> in_int64 (dt_TotalTokens detail) \<and> in_int64 (dt_CachedTokens detail) \<and>
     dt_CacheReadTokens detail + dt_CacheCreationTokens detail \<le> MaxInt64"

lemma ensured_Valid:
  assumes "counts_ok detail"
  shows "breakdown_Valid (dt_TokenBreakdown (EnsureTokenBreakdownForProvider detail provider executorType))"
proof -
  have "exact_breakdown (tokenBreakdownForSemantics detail s)"
    "dt_CacheCreationTokens detail = 0 \<Longrightarrow>
       exact_breakdown (tokenBreakdownForSemantics (detail\<lparr>dt_CacheReadTokens := dt_CachedTokens detail\<rparr>) s)" for s
    using assms by (auto simp: counts_ok_def in_int64_def intro!: semantics_exact)
  then show ?thesis by (auto simp: EnsureTokenBreakdownForProvider_def Let_def exact_Valid)
qed

text \<open>C33. Accounting is stable: provided that the total and the cached count are machine integers and that the cache read
  and cache creation counts can be added without an overflow, the result has a valid breakdown, a valid breakdown that
  was there is kept, and doing it again, for the same provider or any other, changes nothing. Without the condition the
  result need not be valid (\<open>cache_sum_overflows\<close>).\<close>

theorem ensure_breakdown_stable:
  assumes "counts_ok detail" and "d = EnsureTokenBreakdownForProvider detail provider executorType"
  shows "breakdown_Valid (dt_TokenBreakdown d) \<and> EnsureTokenBreakdownForProvider d provider' executorType' = d \<and>
    (breakdown_Valid (dt_TokenBreakdown detail) \<longrightarrow> dt_TokenBreakdown d = dt_TokenBreakdown detail)"
proof -
  have v: "breakdown_Valid (dt_TokenBreakdown d)" using ensured_Valid[OF assms(1)] assms(2) by simp
  have "dt_TotalTokens d = 0 \<longrightarrow> tb_TotalTokens (dt_TokenBreakdown d) = 0"
    by (simp add: assms(2) EnsureTokenBreakdownForProvider_def Let_def)
  then have "EnsureTokenBreakdownForProvider d provider' executorType' = d"
    using v by (auto simp: EnsureTokenBreakdownForProvider_def Let_def)
  moreover have "breakdown_Valid (dt_TokenBreakdown detail) \<Longrightarrow> dt_TokenBreakdown d = dt_TokenBreakdown detail"
    by (simp add: assms(2) EnsureTokenBreakdownForProvider_def Let_def)
  ultimately show ?thesis using v by blast
qed

definition wit_detail :: Detail where
  "wit_detail = \<lparr>dt_InputTokens = 100, dt_OutputTokens = 50, dt_ReasoningTokens = 10, dt_CachedTokens = 30, dt_CacheReadTokens = 30,
     dt_CacheCreationTokens = 0, dt_TotalTokens = 0,
     dt_TokenBreakdown = \<lparr>tb_SchemaVersion = 0, tb_Quality = QualityNone, tb_TotalTokens = 0, tb_Input = no_input,
       tb_Output = no_output, tb_UnclassifiedTokens = 0\<rparr>, dt_ResponseServiceTier = []\<rparr>"

theorem ensure_breakdown_stable_witness:
  "\<not> breakdown_Valid (dt_TokenBreakdown wit_detail) \<and>
   breakdown_Valid (dt_TokenBreakdown (EnsureTokenBreakdownForProvider wit_detail ''codex'' [])) \<and>
   EnsureTokenBreakdownForProvider (EnsureTokenBreakdownForProvider wit_detail ''codex'' []) ''claude'' [] =
     EnsureTokenBreakdownForProvider wit_detail ''codex'' []"
proof -
  have "counts_ok wit_detail" "\<not> breakdown_Valid (dt_TokenBreakdown wit_detail)" by code_simp+
  then show ?thesis using ensure_breakdown_stable[OF _ refl, of wit_detail "''codex''" "[]" "''claude''" "[]"] by simp
qed

text \<open>Without the condition the property fails: counts whose sum overflows pass the unchecked comparison, and the result
  is called complete with a negative bucket.\<close>

lemma cache_sum_overflows:
  "tb_Quality (NewSubsetTokenBreakdown 10 (2 ^ 62) (2 ^ 62) 0 0 10) = TokenAccountingQualityComplete \<and>
   ti_UncachedTokens (tb_Input (NewSubsetTokenBreakdown 10 (2 ^ 62) (2 ^ 62) 0 0 10)) < 0 \<and>
   \<not> breakdown_Valid (NewSubsetTokenBreakdown 10 (2 ^ 62) (2 ^ 62) 0 0 10)"
  by code_simp

section \<open>Totals\<close>

lemma inconsistent_total: "0 < tot \<Longrightarrow> tb_TotalTokens (inconsistentTokenBreakdown tot e) = tot"
  by (simp add: inconsistentTokenBreakdown_def)

lemma resolved_total: "0 < tot \<Longrightarrow> resolveAccountingTotal tot e = (r, True) \<Longrightarrow> r = tot"
  using resolve_ok[of tot e r] by auto

text \<open>A reported total is authoritative: whatever the provider's semantics and however the other counts contradict
  it, the breakdown of a detail with a positive total has exactly that total.\<close>

theorem reported_total_kept:
  assumes "0 < dt_TotalTokens detail"
  shows "tb_TotalTokens (tokenBreakdownForSemantics detail semantics) = dt_TotalTokens detail"
proof -
  note keep = inconsistent_total[OF assms]
  have r: "fst (resolveAccountingTotal (dt_TotalTokens detail) e) = dt_TotalTokens detail"
    if "snd (resolveAccountingTotal (dt_TotalTokens detail) e)" for e
    using resolved_total[OF assms, of e "fst (resolveAccountingTotal (dt_TotalTokens detail) e)"] that
    by (cases "resolveAccountingTotal (dt_TotalTokens detail) e") simp
  show ?thesis
    using assms
    by (cases semantics)
      (simp_all add: tokenBreakdownForSemantics_def semanticBreakdown_def NewSubsetTokenBreakdown_def NewIndependentTokenBreakdown_def
        NewSeparateReasoningTokenBreakdown_def NewUnclassifiedTokenBreakdown_def split_beta Let_def keep r)
qed

theorem reported_total_kept_witness:
  "tb_TotalTokens (tokenBreakdownForSemantics (wit_detail\<lparr>dt_TotalTokens := 7\<rparr>) SemanticsSubset) = 7"
  using reported_total_kept[of "wit_detail\<lparr>dt_TotalTokens := 7\<rparr>" SemanticsSubset] by simp

end
