(* ===== verification/ExecutionRegistry.thy ===== *)
theory ExecutionRegistry
  imports Prelude
begin

text \<open>
  The registry of dispatched executions, \<open>sdk/aps/executionregistry\<close> (\<open>registry.go\<close>, \<open>observation.go\<close>).

  A section under the mutex of the registry or of a scope is one step of a function on the registry. What runs
  across several sections (the end of a scope, \<open>Drain\<close>, \<open>Close\<close>, \<open>WaitPending\<close>, the replay of a new release
  sink) is a \<open>Thread\<close>: its constructor says which section comes next and holds the local variables, and
  \<open>thread_step\<close> is that section, \<open>None\<close> while the thread is blocked. Tokens and scopes are objects named by their
  ID; a channel that is only ever closed is a \<open>bool\<close>, and \<open>changed\<close>, which is replaced whenever it is closed, is the
  number of its replacements. A resource is named by a number, which stands for its close
  function. \<open>sc_closing\<close> is the close function that the goroutine of \<open>startBoundResourceClose\<close> has captured and has not
  called yet. Four fields record what happens and are read by no step: \<open>sc_bound\<close> the resource that a successful
  \<open>Bind\<close> was given, \<open>sc_closed\<close> the close functions that were called, \<open>sc_releases\<close> the number of calls of
  \<open>markReleasedLocked\<close>, and \<open>rg_sent\<close> the calls of release sinks.

  A release sink runs between two sections (\<open>EndSink\<close>): it may block, which is a thread that takes no step, and it
  may call the registry, which is a step of another thread; its answer depends on its arguments alone. In the replay to a
  new sink the call is part of the section.
\<close>

section \<open>Data\<close>

datatype registry_error =
    ErrRegistryNotAccepting
  | ErrRegistryClosed
  | ErrInvalidPendingDispatch
  | ErrInvalidExecutionResource
  | ErrExecutionResourceAlreadyBound
  | ErrContextDone

datatype State = StateAccepting | StateDraining | StateClosed

record ScopeSpec =
  sp_RequestID :: string
  sp_CredentialID :: string
  sp_Model :: string
  sp_Kind :: string
  sp_StartedAt :: go_time
  sp_Accounted :: bool

record ReleaseGroup =
  rl_CredentialID :: string
  rl_Model :: string

record ReleaseTicket =
  tk_Group :: ReleaseGroup
  tk_Sequence :: int

type_synonym ReleaseSink = "ReleaseGroup \<Rightarrow> int \<Rightarrow> ReleaseTicket option"

text \<open>The state of a \<open>sync.Once\<close>.\<close>

datatype Once = OnceNew | OnceRunning | OnceDone

record Scope =
  sc_spec :: ScopeSpec
  sc_closeFn :: "nat option"
  sc_closeDone :: "bool option"
  sc_releaseTicket :: "ReleaseTicket option"
  sc_active :: bool
  sc_ended :: Once
  sc_bound :: "nat option"
  sc_closing :: "nat option"
  sc_closed :: "nat list"
  sc_releases :: nat

text \<open>The maps \<open>pending\<close> and \<open>scopes\<close> are the lists of their keys; \<open>rg_tokens\<close> tells of every token whether its
  \<open>once\<close> has fired, and \<open>rg_heap\<close> holds every scope ever installed.\<close>

record Registry =
  rg_state :: State
  rg_next :: int
  rg_snapshotRevision :: int
  rg_observedBarrier :: int
  rg_pendingBarrierSequence :: int
  rg_publishedBarrier :: int
  rg_pending :: "int list"
  rg_scopes :: "int list"
  rg_releaseSequences :: "(ReleaseGroup, int) go_map"
  rg_releaseSink :: "ReleaseSink option"
  rg_changed :: nat
  rg_closeStarted :: bool
  rg_closeDone :: "bool option"
  rg_tokens :: "(int, bool) go_map"
  rg_heap :: "(int, Scope) go_map"
  rg_sent :: "(ReleaseGroup \<times> int) list"

definition New :: Registry where
  "New = \<lparr>rg_state = StateAccepting, rg_next = 0, rg_snapshotRevision = 0, rg_observedBarrier = 0,
     rg_pendingBarrierSequence = 0, rg_publishedBarrier = 0, rg_pending = [], rg_scopes = [], rg_releaseSequences = [],
     rg_releaseSink = None, rg_changed = 0, rg_closeStarted = False, rg_closeDone = None, rg_tokens = [], rg_heap = [],
     rg_sent = []\<rparr>"

abbreviation scope_of :: "Registry \<Rightarrow> int \<Rightarrow> Scope" where
  "scope_of r i \<equiv> the (map_of (rg_heap r) i)"

definition modify_scope :: "int \<Rightarrow> (Scope \<Rightarrow> Scope) \<Rightarrow> Registry \<Rightarrow> Registry" where
  "modify_scope i f r = r\<lparr>rg_heap := AList.update i (f (scope_of r i)) (rg_heap r)\<rparr>"

definition uint64 :: "int \<Rightarrow> int" where
  "uint64 x = x mod 2 ^ 64"

definition NewReleaseTicket :: "ReleaseGroup \<Rightarrow> int \<Rightarrow> bool \<Rightarrow> ReleaseTicket option" where
  "NewReleaseTicket grp sequence hasDone =
     (if sequence \<le> 0 \<or> \<not> hasDone then None else Some \<lparr>tk_Group = grp, tk_Sequence = sequence\<rparr>)"

definition signalLocked :: "Registry \<Rightarrow> Registry" where
  "signalLocked r = r\<lparr>rg_changed := Suc (rg_changed r)\<rparr>"

section \<open>Dispatches\<close>

definition BeginDispatch :: "Registry \<Rightarrow> (registry_error + int) \<times> Registry" where
  "BeginDispatch r =
     (if rg_state r \<noteq> StateAccepting then (Inl ErrRegistryNotAccepting, r)
      else let n = uint64 (rg_next r + 1)
           in (Inr n, r\<lparr>rg_next := n, rg_pending := n # removeAll n (rg_pending r),
                        rg_tokens := AList.update n False (rg_tokens r)\<rparr>))"

text \<open>What \<open>once.Do\<close> of a token guards in both of its users: the token leaves the map.\<close>

definition resolve_token :: "int \<Rightarrow> Registry \<Rightarrow> Registry" where
  "resolve_token i r = r\<lparr>rg_tokens := AList.update i True (rg_tokens r), rg_pending := removeAll i (rg_pending r)\<rparr>"

definition PendingDispatch_End :: "int \<Rightarrow> Registry \<Rightarrow> Registry" where
  "PendingDispatch_End i r =
     (if map_of (rg_tokens r) i = Some False then signalLocked (resolve_token i r) else r)"

definition new_scope :: "ScopeSpec \<Rightarrow> Scope" where
  "new_scope spec = \<lparr>sc_spec = spec, sc_closeFn = None, sc_closeDone = None, sc_releaseTicket = None, sc_active = True,
     sc_ended = OnceNew, sc_bound = None, sc_closing = None, sc_closed = [], sc_releases = 0\<rparr>"

definition Install :: "int \<Rightarrow> ScopeSpec \<Rightarrow> Registry \<Rightarrow> (registry_error + int) \<times> Registry" where
  "Install i spec r =
     (if \<not> has_key (rg_tokens r) i then (Inl ErrInvalidPendingDispatch, r)
      else if rg_state r \<noteq> StateAccepting then (Inl ErrRegistryNotAccepting, signalLocked (resolve_token i r))
      else if i \<notin> set (rg_pending r) then (Inl ErrInvalidPendingDispatch, r)
      else let r1 = resolve_token i r
           in (Inr i, signalLocked (r1\<lparr>rg_heap := AList.update i (new_scope spec) (rg_heap r1),
                                       rg_scopes := i # removeAll i (rg_scopes r1)\<rparr>)))"

section \<open>Scopes\<close>

definition Bind :: "int \<Rightarrow> nat option \<Rightarrow> Registry \<Rightarrow> registry_error option \<times> Registry" where
  "Bind i closeFn r =
     (if \<not> has_key (rg_heap r) i \<or> closeFn = None then (Some ErrInvalidExecutionResource, r)
      else if rg_state r \<noteq> StateAccepting \<or> \<not> sc_active (scope_of r i) then (Some ErrRegistryNotAccepting, r)
      else if sc_closeFn (scope_of r i) \<noteq> None \<or> sc_closeDone (scope_of r i) \<noteq> None
      then (Some ErrExecutionResourceAlreadyBound, r)
      else (None, modify_scope i (\<lambda>s. s\<lparr>sc_closeFn := closeFn, sc_bound := closeFn\<rparr>) r))"

text \<open>\<open>startBoundResourceClose\<close> answers whether there is a channel to wait for; the goroutine it starts runs until
  \<open>closer_step\<close>.\<close>

definition startBoundResourceClose :: "int \<Rightarrow> Registry \<Rightarrow> bool \<times> Registry" where
  "startBoundResourceClose i r =
     (if sc_closeDone (scope_of r i) \<noteq> None then (True, r)
      else if sc_closeFn (scope_of r i) = None then (False, r)
      else (True, modify_scope i (\<lambda>s. s\<lparr>sc_closeFn := None, sc_closeDone := Some False, sc_closing := sc_closeFn s\<rparr>) r))"

definition closer_step :: "int \<Rightarrow> Registry \<Rightarrow> Registry" where
  "closer_step i r = modify_scope i (\<lambda>s.
     s\<lparr>sc_closed := sc_closed s @ (case sc_closing s of None \<Rightarrow> [] | Some f \<Rightarrow> [f]), sc_closing := None,
       sc_closeDone := Some True\<rparr>) r"

definition markReleasedLocked :: "int \<Rightarrow> Registry \<Rightarrow> (ReleaseSink option \<times> ReleaseGroup \<times> int) \<times> Registry" where
  "markReleasedLocked i r0 =
     (let r = modify_scope i (\<lambda>s. s\<lparr>sc_releases := Suc (sc_releases s)\<rparr>) r0;
          spec = sc_spec (scope_of r i)
      in if \<not> sp_Accounted spec then ((None, \<lparr>rl_CredentialID = [], rl_Model = []\<rparr>, 0), r)
         else let grp = \<lparr>rl_CredentialID = sp_CredentialID spec, rl_Model = sp_Model spec\<rparr>;
                  sequence = int64 (map_get 0 (rg_releaseSequences r) grp + 1)
              in ((rg_releaseSink r, grp, sequence),
                  r\<lparr>rg_releaseSequences := AList.update grp sequence (rg_releaseSequences r)\<rparr>))"

section \<open>Observation\<close>

record Observation =
  ob_RequestID :: string
  ob_CredentialID :: string
  ob_Model :: string
  ob_RequestKind :: string
  ob_StartedAt :: go_time
  ob_Accounted :: bool

record Freeze =
  fz_Revision :: int
  fz_BarrierRevision :: int
  fz_Executions :: "Observation list"

definition ObserveBarrier :: "int \<Rightarrow> Registry \<Rightarrow> Registry" where
  "ObserveBarrier revision r =
     (if revision \<le> 0 then r
      else if revision > rg_observedBarrier r
      then r\<lparr>rg_observedBarrier := revision, rg_pendingBarrierSequence := rg_next r\<rparr>
      else r)"

definition observation_of :: "ScopeSpec \<Rightarrow> Observation" where
  "observation_of spec =
     \<lparr>ob_RequestID = sp_RequestID spec, ob_CredentialID = sp_CredentialID spec, ob_Model = sp_Model spec,
      ob_RequestKind = sp_Kind spec, ob_StartedAt = sp_StartedAt spec, ob_Accounted = sp_Accounted spec\<rparr>"

definition FreezeInFlight :: "Registry \<Rightarrow> Freeze \<times> Registry" where
  "FreezeInFlight r =
     (let blocked = list_ex (\<lambda>sequence. sequence \<le> rg_pendingBarrierSequence r) (rg_pending r);
          published = (if rg_observedBarrier r > rg_publishedBarrier r \<and> \<not> blocked then rg_observedBarrier r
                       else rg_publishedBarrier r);
          revision = int64 (rg_snapshotRevision r + 1)
      in (\<lparr>fz_Revision = revision, fz_BarrierRevision = published,
           fz_Executions = map (\<lambda>i. observation_of (sc_spec (scope_of r i))) (rg_scopes r)\<rparr>,
          r\<lparr>rg_publishedBarrier := published, rg_snapshotRevision := revision\<rparr>))"

section \<open>Threads\<close>

text \<open>The constructors are named after the section that comes next.\<close>

datatype Thread =
    EndCalled int
  | EndDeactivate int
  | EndClose int
  | EndAwait int
  | EndRelease int
  | EndNotify int "ReleaseSink option" ReleaseGroup int
  | EndSink int ReleaseSink ReleaseGroup int
  | EndRecord int "ReleaseTicket option"
  | EndRemove int
  | EndRead int
  | EndReturned int "ReleaseTicket option"
  | DrainCalled
  | DrainSnapshot
  | DrainClosing "int list"
  | DrainCheck
  | DrainWait nat
  | DrainReturned "registry_error option"
  | CloseCalled
  | CloseAwait
  | CloseSwap
  | CloseSnapshot
  | CloseClosing "int list"
  | CloseWait int "int list"
  | CloseFinish
  | CloseReturned
  | PendingCheck
  | PendingWait nat
  | PendingReturned "registry_error option"
  | SinkCalled "ReleaseSink option"
  | SinkReplay ReleaseSink "(ReleaseGroup \<times> int) list"
  | SinkReturned

text \<open>\<open>EndWithRelease\<close>. The last section of \<open>once.Do\<close> and its end are one step: between them only callers that are
  blocked by \<open>once\<close> could notice a difference.\<close>

fun end_step :: "Registry \<Rightarrow> Thread \<Rightarrow> (Registry \<times> Thread) option" where
  "end_step r (EndCalled i) =
     (case sc_ended (scope_of r i) of
        OnceNew \<Rightarrow> Some (modify_scope i (\<lambda>s. s\<lparr>sc_ended := OnceRunning\<rparr>) r, EndDeactivate i)
      | OnceRunning \<Rightarrow> None
      | OnceDone \<Rightarrow> Some (r, EndRead i))"
| "end_step r (EndDeactivate i) = Some (modify_scope i (\<lambda>s. s\<lparr>sc_active := False\<rparr>) r, EndClose i)"
| "end_step r (EndClose i) =
     (let (waits, r1) = startBoundResourceClose i r in Some (r1, if waits then EndAwait i else EndRelease i))"
| "end_step r (EndAwait i) = (if sc_closeDone (scope_of r i) = Some True then Some (r, EndRelease i) else None)"
| "end_step r (EndRelease i) =
     (let ((sink, grp, sequence), r1) = markReleasedLocked i r in Some (r1, EndNotify i sink grp sequence))"
| "end_step r (EndNotify i sink grp sequence) =
     (case sink of
        Some f \<Rightarrow> if sequence > 0 then Some (r\<lparr>rg_sent := rg_sent r @ [(grp, sequence)]\<rparr>, EndSink i f grp sequence)
                  else Some (r, EndRecord i None)
      | None \<Rightarrow> Some (r, EndRecord i None))"
| "end_step r (EndSink i f grp sequence) = Some (r, EndRecord i (f grp sequence))"
| "end_step r (EndRecord i ticket) = Some (modify_scope i (\<lambda>s. s\<lparr>sc_releaseTicket := ticket\<rparr>) r, EndRemove i)"
| "end_step r (EndRemove i) =
     (let r1 = modify_scope i (\<lambda>s. s\<lparr>sc_ended := OnceDone\<rparr>) r
      in Some (signalLocked (r1\<lparr>rg_scopes := removeAll i (rg_scopes r1)\<rparr>), EndRead i))"
| "end_step r (EndRead i) = Some (r, EndReturned i (sc_releaseTicket (scope_of r i)))"
| "end_step r _ = None"

fun drain_step :: "Registry \<Rightarrow> Thread \<Rightarrow> (Registry \<times> Thread) option" where
  "drain_step r DrainCalled =
     (case rg_state r of
        StateAccepting \<Rightarrow> Some (r\<lparr>rg_state := StateDraining\<rparr>, DrainSnapshot)
      | StateDraining \<Rightarrow> Some (r, DrainSnapshot)
      | StateClosed \<Rightarrow> Some (r, DrainReturned (Some ErrRegistryClosed)))"
| "drain_step r DrainSnapshot = Some (r, DrainClosing (rg_scopes r))"
| "drain_step r (DrainClosing []) = Some (r, DrainCheck)"
| "drain_step r (DrainClosing (i # rest)) = Some (snd (startBoundResourceClose i r), DrainClosing rest)"
| "drain_step r DrainCheck =
     (if rg_pending r \<noteq> [] \<or> rg_scopes r \<noteq> [] then Some (r, DrainWait (rg_changed r))
      else Some (r\<lparr>rg_state := StateClosed\<rparr>, DrainReturned None))"
| "drain_step r (DrainWait seen) = (if rg_changed r \<noteq> seen then Some (r, DrainCheck) else None)"
| "drain_step r _ = None"

fun close_step :: "Registry \<Rightarrow> Thread \<Rightarrow> (Registry \<times> Thread) option" where
  "close_step r CloseCalled =
     (if rg_closeStarted r then Some (r, CloseAwait)
      else if rg_state r = StateClosed then Some (r, CloseReturned)
      else Some (r\<lparr>rg_closeStarted := True, rg_closeDone := Some False\<rparr>, CloseSwap))"
| "close_step r CloseAwait = (if rg_closeDone r = Some True then Some (r, CloseReturned) else None)"
| "close_step r CloseSwap = Some (r\<lparr>rg_state := StateClosed\<rparr>, CloseSnapshot)"
| "close_step r CloseSnapshot = Some (r, CloseClosing (rg_scopes r))"
| "close_step r (CloseClosing []) = Some (r, CloseFinish)"
| "close_step r (CloseClosing (i # rest)) =
     (let (waits, r1) = startBoundResourceClose i r in Some (r1, if waits then CloseWait i rest else CloseClosing rest))"
| "close_step r (CloseWait i rest) = (if sc_closeDone (scope_of r i) = Some True then Some (r, CloseClosing rest) else None)"
| "close_step r CloseFinish = Some (r\<lparr>rg_closeDone := Some True\<rparr>, CloseReturned)"
| "close_step r _ = None"

fun pending_step :: "Registry \<Rightarrow> Thread \<Rightarrow> (Registry \<times> Thread) option" where
  "pending_step r PendingCheck =
     (if rg_pending r \<noteq> [] then Some (r, PendingWait (rg_changed r)) else Some (r, PendingReturned None))"
| "pending_step r (PendingWait seen) = (if rg_changed r \<noteq> seen then Some (r, PendingCheck) else None)"
| "pending_step r _ = None"

fun sink_step :: "Registry \<Rightarrow> Thread \<Rightarrow> (Registry \<times> Thread) option" where
  "sink_step r (SinkCalled sink) =
     Some (r\<lparr>rg_releaseSink := sink\<rparr>,
           case sink of None \<Rightarrow> SinkReturned | Some f \<Rightarrow> SinkReplay f (rg_releaseSequences r))"
| "sink_step r (SinkReplay f []) = Some (r, SinkReturned)"
| "sink_step r (SinkReplay f ((grp, sequence) # rest)) =
     Some (if sequence > 0 then r\<lparr>rg_sent := rg_sent r @ [(grp, sequence)]\<rparr> else r, SinkReplay f rest)"
| "sink_step r _ = None"

text \<open>The sections of one thread are told apart by its constructor.\<close>

definition thread_step :: "Registry \<Rightarrow> Thread \<Rightarrow> (Registry \<times> Thread) option" where
  "thread_step r th =
     (case end_step r th of Some x \<Rightarrow> Some x | None \<Rightarrow>
      case drain_step r th of Some x \<Rightarrow> Some x | None \<Rightarrow>
      case close_step r th of Some x \<Rightarrow> Some x | None \<Rightarrow>
      case pending_step r th of Some x \<Rightarrow> Some x | None \<Rightarrow> sink_step r th)"

text \<open>The context of a waiting \<open>Drain\<close> or \<open>WaitPending\<close> is done.\<close>

fun expire_step :: "Thread \<Rightarrow> Thread option" where
  "expire_step (DrainWait seen) = Some (DrainReturned (Some ErrContextDone))"
| "expire_step (PendingWait seen) = Some (PendingReturned (Some ErrContextDone))"
| "expire_step _ = None"

fun callable :: "Registry \<Rightarrow> Thread \<Rightarrow> bool" where
  "callable r (EndCalled i) = has_key (rg_heap r) i"
| "callable r DrainCalled = True"
| "callable r CloseCalled = True"
| "callable r PendingCheck = True"
| "callable r (SinkCalled sink) = True"
| "callable r _ = False"

text \<open>A registry with the threads that work on it, and all that can happen next.\<close>

record World =
  w_registry :: Registry
  w_threads :: "Thread list"

inductive world_step :: "World \<Rightarrow> World \<Rightarrow> bool" where
  call: "callable (w_registry w) th \<Longrightarrow> world_step w (w\<lparr>w_threads := w_threads w @ [th]\<rparr>)"
| thread: "k < length (w_threads w) \<Longrightarrow> thread_step (w_registry w) (w_threads w ! k) = Some (r', th') \<Longrightarrow>
    world_step w (w\<lparr>w_registry := r', w_threads := (w_threads w)[k := th']\<rparr>)"
| expire: "k < length (w_threads w) \<Longrightarrow> expire_step (w_threads w ! k) = Some th' \<Longrightarrow>
    world_step w (w\<lparr>w_threads := (w_threads w)[k := th']\<rparr>)"
| closer: "has_key (rg_heap (w_registry w)) i \<Longrightarrow> sc_closeDone (scope_of (w_registry w) i) = Some False \<Longrightarrow>
    world_step w (w\<lparr>w_registry := closer_step i (w_registry w)\<rparr>)"
| begin_dispatch: "world_step w (w\<lparr>w_registry := snd (BeginDispatch (w_registry w))\<rparr>)"
| end_dispatch: "world_step w (w\<lparr>w_registry := PendingDispatch_End i (w_registry w)\<rparr>)"
| install: "world_step w (w\<lparr>w_registry := snd (Install i spec (w_registry w))\<rparr>)"
| bind_resource: "world_step w (w\<lparr>w_registry := snd (Bind i closeFn (w_registry w))\<rparr>)"
| observe: "world_step w (w\<lparr>w_registry := ObserveBarrier revision (w_registry w)\<rparr>)"
| freeze: "world_step w (w\<lparr>w_registry := snd (FreezeInFlight (w_registry w))\<rparr>)"

text \<open>What a number of steps can lead to. The counters are machine integers: a run of at most \<open>MaxInt64\<close> steps
  does not exhaust them.\<close>

inductive runs :: "World \<Rightarrow> nat \<Rightarrow> World \<Rightarrow> bool" where
  none: "runs w 0 w"
| more: "runs w n w' \<Longrightarrow> world_step w' w'' \<Longrightarrow> runs w (Suc n) w''"

definition start :: World where
  "start = \<lparr>w_registry = New, w_threads = []\<rparr>"

code_pred world_step .

inductive_simps runs_0: "runs w 0 w'"
inductive_cases runs_SucE: "runs w (Suc n) w'"

end
