(* ===== verification/RegistryInv.thy ===== *)
theory RegistryInv
  imports ExecutionRegistry
begin

text \<open>
  The invariant of a registry and its threads. \<open>registry_ok\<close> is the invariant of the registry, \<open>thread_ok\<close> what a
  thread relies on between two of its sections, and \<open>advance\<close> what every section of another thread guarantees:
  \<open>thread_ok\<close> is stable under it. The invariant of a world is preserved by every step.
\<close>

section \<open>Invariant\<close>

definition scope_ok :: "Scope \<Rightarrow> bool" where
  "scope_ok s \<longleftrightarrow>
     (sc_closeDone s \<noteq> None \<longrightarrow> sc_closeFn s = None) \<and>
     (sc_closeDone s = None \<longrightarrow> sc_bound s = sc_closeFn s \<and> sc_closing s = None \<and> sc_closed s = []) \<and>
     (sc_closeDone s = Some False \<longrightarrow> sc_bound s \<noteq> None \<and> sc_closing s = sc_bound s \<and> sc_closed s = []) \<and>
     (sc_closeDone s = Some True \<longrightarrow> (\<exists>f. sc_bound s = Some f \<and> sc_closing s = None \<and> sc_closed s = [f])) \<and>
     (sc_ended s = OnceNew \<longrightarrow> sc_releases s = 0) \<and>
     (sc_ended s = OnceDone \<longrightarrow> \<not> sc_active s \<and> sc_closeFn s = None \<and> sc_closeDone s \<noteq> Some False \<and> sc_releases s = 1) \<and>
     sc_releases s \<le> 1"

text \<open>Nothing bound is left to close.\<close>

definition settled :: "Scope \<Rightarrow> bool" where
  "settled s \<longleftrightarrow> sc_closeFn s = None \<and> sc_closeDone s \<noteq> Some False"

definition all_settled :: "Registry \<Rightarrow> bool" where
  "all_settled r \<longleftrightarrow> rg_state r = StateClosed \<and> (\<forall>i s. map_of (rg_heap r) i = Some s \<longrightarrow> settled s)"

definition registry_ok :: "Registry \<Rightarrow> bool" where
  "registry_ok r \<longleftrightarrow>
     (\<forall>i. i \<in> set (rg_pending r) \<longleftrightarrow> map_of (rg_tokens r) i = Some False) \<and>
     (\<forall>i. map_of (rg_heap r) i \<noteq> None \<longrightarrow> map_of (rg_tokens r) i = Some True) \<and>
     (\<forall>i. i \<in> set (rg_scopes r) \<longleftrightarrow> (\<exists>s. map_of (rg_heap r) i = Some s \<and> sc_ended s \<noteq> OnceDone)) \<and>
     (\<forall>i s. map_of (rg_heap r) i = Some s \<longrightarrow> scope_ok s) \<and>
     (rg_closeDone r \<noteq> None \<longleftrightarrow> rg_closeStarted r) \<and>
     (rg_closeDone r = Some True \<longrightarrow> all_settled r) \<and>
     (rg_state r = StateClosed \<and> \<not> rg_closeStarted r \<longrightarrow> rg_pending r = [] \<and> rg_scopes r = [])"

fun owns :: "Thread \<Rightarrow> int option" where
  "owns (EndDeactivate i) = Some i"
| "owns (EndClose i) = Some i"
| "owns (EndAwait i) = Some i"
| "owns (EndRelease i) = Some i"
| "owns (EndNotify i _ _ _) = Some i"
| "owns (EndSink i _ _ _) = Some i"
| "owns (EndRecord i _) = Some i"
| "owns (EndRemove i) = Some i"
| "owns _ = None"

definition ending :: "Registry \<Rightarrow> int \<Rightarrow> nat \<Rightarrow> bool" where
  "ending r i n \<longleftrightarrow> (\<exists>s. map_of (rg_heap r) i = Some s \<and> sc_ended s = OnceRunning \<and> sc_releases s = n)"

definition quiet :: "Registry \<Rightarrow> int \<Rightarrow> bool" where
  "quiet r i \<longleftrightarrow> \<not> sc_active (scope_of r i) \<and> settled (scope_of r i)"

fun thread_ok :: "Registry \<Rightarrow> Thread \<Rightarrow> bool" where
  "thread_ok r (EndCalled i) \<longleftrightarrow> map_of (rg_heap r) i \<noteq> None"
| "thread_ok r (EndDeactivate i) \<longleftrightarrow> ending r i 0"
| "thread_ok r (EndClose i) \<longleftrightarrow> ending r i 0 \<and> \<not> sc_active (scope_of r i)"
| "thread_ok r (EndAwait i) \<longleftrightarrow> ending r i 0 \<and> \<not> sc_active (scope_of r i) \<and> sc_closeDone (scope_of r i) \<noteq> None"
| "thread_ok r (EndRelease i) \<longleftrightarrow> ending r i 0 \<and> quiet r i"
| "thread_ok r (EndNotify i _ _ _) \<longleftrightarrow> ending r i 1 \<and> quiet r i"
| "thread_ok r (EndRecord i _) \<longleftrightarrow> ending r i 1 \<and> quiet r i"
| "thread_ok r (EndRemove i) \<longleftrightarrow> ending r i 1 \<and> quiet r i"
| "thread_ok r (EndRead i) \<longleftrightarrow> (\<exists>s. map_of (rg_heap r) i = Some s \<and> sc_ended s = OnceDone)"
| "thread_ok r (EndReturned i _) \<longleftrightarrow> (\<exists>s. map_of (rg_heap r) i = Some s \<and> sc_ended s = OnceDone)"
| "thread_ok r DrainCalled \<longleftrightarrow> True"
| "thread_ok r DrainSnapshot \<longleftrightarrow> rg_state r \<noteq> StateAccepting"
| "thread_ok r (DrainClosing is) \<longleftrightarrow> rg_state r \<noteq> StateAccepting \<and>
     (\<forall>i s. map_of (rg_heap r) i = Some s \<longrightarrow> i \<in> set is \<or> sc_closeFn s = None) \<and>
     (\<forall>i \<in> set is. map_of (rg_heap r) i \<noteq> None)"
| "thread_ok r DrainCheck \<longleftrightarrow> rg_state r \<noteq> StateAccepting \<and>
     (\<forall>i s. map_of (rg_heap r) i = Some s \<longrightarrow> sc_closeFn s = None)"
| "thread_ok r (DrainWait g) \<longleftrightarrow> rg_state r \<noteq> StateAccepting \<and>
     (\<forall>i s. map_of (rg_heap r) i = Some s \<longrightarrow> sc_closeFn s = None) \<and>
     g \<le> rg_changed r \<and> (g = rg_changed r \<longrightarrow> rg_pending r \<noteq> [] \<or> rg_scopes r \<noteq> [])"
| "thread_ok r (DrainReturned err) \<longleftrightarrow>
     (err = None \<longrightarrow> rg_state r = StateClosed \<and> rg_pending r = [] \<and> rg_scopes r = [])"
| "thread_ok r CloseCalled \<longleftrightarrow> True"
| "thread_ok r CloseAwait \<longleftrightarrow> rg_closeStarted r"
| "thread_ok r CloseSwap \<longleftrightarrow> rg_closeStarted r"
| "thread_ok r CloseSnapshot \<longleftrightarrow> rg_closeStarted r \<and> rg_state r = StateClosed"
| "thread_ok r (CloseClosing is) \<longleftrightarrow> rg_closeStarted r \<and> rg_state r = StateClosed \<and>
     (\<forall>i s. map_of (rg_heap r) i = Some s \<longrightarrow> i \<in> set is \<or> settled s) \<and>
     (\<forall>i \<in> set is. map_of (rg_heap r) i \<noteq> None)"
| "thread_ok r (CloseWait i is) \<longleftrightarrow> rg_closeStarted r \<and> rg_state r = StateClosed \<and>
     (\<forall>j s. map_of (rg_heap r) j = Some s \<longrightarrow> j \<in> set is \<or> j = i \<or> settled s) \<and>
     (\<forall>j \<in> set is. map_of (rg_heap r) j \<noteq> None) \<and>
     (\<exists>s. map_of (rg_heap r) i = Some s \<and> sc_closeFn s = None \<and> sc_closeDone s \<noteq> None)"
| "thread_ok r CloseFinish \<longleftrightarrow> rg_closeStarted r \<and> all_settled r"
| "thread_ok r CloseReturned \<longleftrightarrow> all_settled r"
| "thread_ok r PendingCheck \<longleftrightarrow> True"
| "thread_ok r (PendingWait g) \<longleftrightarrow> g \<le> rg_changed r \<and> (g = rg_changed r \<longrightarrow> rg_pending r \<noteq> [])"
| "thread_ok r (PendingReturned _) \<longleftrightarrow> True"
| "thread_ok r (SinkCalled _) \<longleftrightarrow> True"
| "thread_ok r (SinkReplay _ _) \<longleftrightarrow> True"
| "thread_ok r SinkReturned \<longleftrightarrow> True"
| "thread_ok r (EndSink i _ _ _) \<longleftrightarrow> ending r i 1 \<and> quiet r i"

text \<open>A scope between two states. Only the thread that ends the scope counts a release or ends it.\<close>

definition scope_advance :: "bool \<Rightarrow> bool \<Rightarrow> Scope \<Rightarrow> Scope \<Rightarrow> bool" where
  "scope_advance acc mine s t \<longleftrightarrow>
     sc_spec t = sc_spec s \<and> (sc_bound s \<noteq> None \<longrightarrow> sc_bound t = sc_bound s) \<and>
     (mine \<or> sc_releases t = sc_releases s \<and> (sc_ended t = sc_ended s \<or> sc_ended s = OnceNew \<and> sc_ended t = OnceRunning)) \<and>
     (sc_ended s = OnceDone \<longrightarrow> sc_ended t = OnceDone) \<and>
     (\<not> sc_active s \<longrightarrow> \<not> sc_active t) \<and>
     (sc_closeDone s \<noteq> None \<longrightarrow> sc_closeDone t \<noteq> None) \<and>
     (sc_closeDone s = Some True \<longrightarrow> sc_closeDone t = Some True) \<and>
     (sc_closeFn s = None \<and> (\<not> acc \<or> \<not> sc_active s \<or> sc_closeDone s \<noteq> None) \<longrightarrow> sc_closeFn t = None) \<and>
     (sc_closeFn s = None \<and> sc_closeDone s = None \<longrightarrow> sc_closeDone t = None)"

definition advance :: "int option \<Rightarrow> Registry \<Rightarrow> Registry \<Rightarrow> bool" where
  "advance own r r' \<longleftrightarrow>
     (rg_state r \<noteq> StateAccepting \<longrightarrow> rg_state r' \<noteq> StateAccepting) \<and>
     (rg_state r = StateClosed \<longrightarrow> rg_state r' = StateClosed) \<and>
     (\<forall>i s. map_of (rg_heap r) i = Some s \<longrightarrow>
        (\<exists>t. map_of (rg_heap r') i = Some t \<and> scope_advance (rg_state r = StateAccepting) (own = Some i) s t)) \<and>
     (rg_state r \<noteq> StateAccepting \<longrightarrow> dom (map_of (rg_heap r')) = dom (map_of (rg_heap r)) \<and>
        set (rg_pending r') \<subseteq> set (rg_pending r) \<and> set (rg_scopes r') \<subseteq> set (rg_scopes r)) \<and>
     rg_changed r \<le> rg_changed r' \<and>
     (rg_changed r = rg_changed r' \<longrightarrow> set (rg_pending r) \<subseteq> set (rg_pending r') \<and> set (rg_scopes r) \<subseteq> set (rg_scopes r')) \<and>
     (rg_closeStarted r \<longrightarrow> rg_closeStarted r')"

section \<open>Stability\<close>

lemma advance_scope: "advance own r r' \<Longrightarrow> map_of (rg_heap r) i = Some s \<Longrightarrow>
   \<exists>t. map_of (rg_heap r') i = Some t \<and> scope_advance (rg_state r = StateAccepting) (own = Some i) s t"
  by (simp add: advance_def)

lemma advance_back:
  assumes "advance own r r'" "rg_state r \<noteq> StateAccepting" "map_of (rg_heap r') i = Some t"
  shows "\<exists>s. map_of (rg_heap r) i = Some s \<and> scope_advance False (own = Some i) s t"
proof -
  have "i \<in> dom (map_of (rg_heap r))" using assms unfolding advance_def by blast
  then show ?thesis using assms unfolding advance_def by force
qed

lemma ending_stable: "advance own r r' \<Longrightarrow> own \<noteq> Some i \<Longrightarrow> ending r i n \<Longrightarrow> ending r' i n"
  unfolding ending_def using advance_scope[of own r r' i] by (fastforce simp: scope_advance_def)

lemma inactive_stable: "advance own r r' \<Longrightarrow> ending r i n \<Longrightarrow> \<not> sc_active (scope_of r i) \<Longrightarrow> \<not> sc_active (scope_of r' i)"
  unfolding ending_def using advance_scope[of own r r' i] by (fastforce simp: scope_advance_def)

lemma settled_advance: "scope_advance False m s t \<Longrightarrow> settled s \<Longrightarrow> settled t"
  by (cases "sc_closeDone s") (auto simp: scope_advance_def settled_def)

lemma quiet_stable: "advance own r r' \<Longrightarrow> ending r i n \<Longrightarrow> quiet r i \<Longrightarrow> quiet r' i"
  unfolding ending_def quiet_def settled_def using advance_scope[of own r r' i]
  by (cases "sc_closeDone (scope_of r i)") (fastforce simp: scope_advance_def)+

lemma await_stable: "advance own r r' \<Longrightarrow> ending r i n \<Longrightarrow> sc_closeDone (scope_of r i) \<noteq> None \<Longrightarrow> sc_closeDone (scope_of r' i) \<noteq> None"
  unfolding ending_def using advance_scope[of own r r' i] by (fastforce simp: scope_advance_def)

lemma done_stable: "advance own r r' \<Longrightarrow> \<exists>s. map_of (rg_heap r) i = Some s \<and> sc_ended s = OnceDone \<Longrightarrow>
   \<exists>s. map_of (rg_heap r') i = Some s \<and> sc_ended s = OnceDone"
  using advance_scope[of own r r' i] by (fastforce simp: scope_advance_def)

lemma heap_stable: "advance own r r' \<Longrightarrow> map_of (rg_heap r) i \<noteq> None \<Longrightarrow> map_of (rg_heap r') i \<noteq> None"
  using advance_scope[of own r r' i] by auto

lemma state_stable: "advance own r r' \<Longrightarrow> rg_state r \<noteq> StateAccepting \<Longrightarrow> rg_state r' \<noteq> StateAccepting"
  "advance own r r' \<Longrightarrow> rg_state r = StateClosed \<Longrightarrow> rg_state r' = StateClosed"
  "advance own r r' \<Longrightarrow> rg_closeStarted r \<Longrightarrow> rg_closeStarted r'"
  by (simp_all add: advance_def)

lemma unbound_advance: "scope_advance False m s t \<Longrightarrow> sc_closeFn s = None \<Longrightarrow> sc_closeFn t = None"
  by (simp add: scope_advance_def)

lemma unbound_stable:
  assumes "advance own r r'" "rg_state r \<noteq> StateAccepting"
    and "\<forall>i s. map_of (rg_heap r) i = Some s \<longrightarrow> i \<in> A \<or> sc_closeFn s = None"
  shows "\<forall>i s. map_of (rg_heap r') i = Some s \<longrightarrow> i \<in> A \<or> sc_closeFn s = None"
  using advance_back[OF assms(1,2)] assms(3) unbound_advance by fastforce

lemma settled_stable:
  assumes "advance own r r'" "rg_state r = StateClosed"
    and "\<forall>i s. map_of (rg_heap r) i = Some s \<longrightarrow> i \<in> A \<or> settled s"
  shows "\<forall>i s. map_of (rg_heap r') i = Some s \<longrightarrow> i \<in> A \<or> settled s"
  using advance_back[OF assms(1)] assms(2,3) settled_advance by fastforce

lemma all_settled_stable: "advance own r r' \<Longrightarrow> all_settled r \<Longrightarrow> all_settled r'"
  unfolding all_settled_def using settled_stable[of own r r' "{}"] state_stable(2)[of own r r'] by simp

lemma wait_stable:
  assumes "advance own r r'" "g \<le> rg_changed r"
  shows "g \<le> rg_changed r' \<and> (g = rg_changed r' \<longrightarrow> g = rg_changed r \<and> set (rg_pending r) \<subseteq> set (rg_pending r') \<and>
           set (rg_scopes r) \<subseteq> set (rg_scopes r'))"
  using assms unfolding advance_def by linarith

lemma thread_ok_stable:
  assumes "advance own r r'" "thread_ok r th" "owns th = None \<or> owns th \<noteq> own"
  shows "thread_ok r' th"
proof (cases th)
  case (DrainClosing "is")
  then show ?thesis using assms(2) unbound_stable[OF assms(1), of "set is"] state_stable[OF assms(1)] heap_stable[OF assms(1)] by simp
next
  case DrainCheck
  then show ?thesis using assms(2) unbound_stable[OF assms(1), of "{}"] state_stable[OF assms(1)] by simp
next
  case (DrainWait g)
  then show ?thesis
    using assms(2) unbound_stable[OF assms(1), of "{}"] state_stable[OF assms(1)] wait_stable[OF assms(1), of g] by auto
next
  case (DrainReturned err)
  then show ?thesis using assms(1,2) by (auto simp: advance_def)
next
  case (CloseClosing "is")
  then show ?thesis using assms(2) settled_stable[OF assms(1), of "set is"] state_stable[OF assms(1)] heap_stable[OF assms(1)] by simp
next
  case (CloseWait i "is")
  have "\<exists>s. map_of (rg_heap r') i = Some s \<and> sc_closeFn s = None \<and> sc_closeDone s \<noteq> None"
    using CloseWait assms(2) advance_scope[OF assms(1), of i] by (fastforce simp: scope_advance_def)
  then show ?thesis
    using CloseWait assms(2) settled_stable[OF assms(1), of "insert i (set is)"] state_stable[OF assms(1)] heap_stable[OF assms(1)]
    by auto
next
  case (EndAwait i)
  then show ?thesis
    using assms ending_stable[OF assms(1)] inactive_stable[OF assms(1)] await_stable[OF assms(1), of i 0] by auto
next
  case (PendingWait g)
  then show ?thesis using assms(2) wait_stable[OF assms(1), of g] by auto
qed (use assms in \<open>auto simp: ending_stable inactive_stable quiet_stable await_stable heap_stable state_stable all_settled_stable
       intro: done_stable\<close>)

section \<open>Sections that keep the invariant\<close>

lemma scope_advance_refl: "scope_advance acc mine s s"
  by (simp add: scope_advance_def)

lemma modify_get: "map_of (rg_heap (modify_scope i f r)) j = (if j = i then Some (f (scope_of r i)) else map_of (rg_heap r) j)"
  by (simp add: modify_scope_def map_of_update)

lemma modify_select [simp]:
  "rg_state (modify_scope i f r) = rg_state r" "rg_next (modify_scope i f r) = rg_next r"
  "rg_pending (modify_scope i f r) = rg_pending r" "rg_scopes (modify_scope i f r) = rg_scopes r"
  "rg_tokens (modify_scope i f r) = rg_tokens r" "rg_changed (modify_scope i f r) = rg_changed r"
  "rg_closeStarted (modify_scope i f r) = rg_closeStarted r" "rg_closeDone (modify_scope i f r) = rg_closeDone r"
  "rg_releaseSequences (modify_scope i f r) = rg_releaseSequences r" "rg_releaseSink (modify_scope i f r) = rg_releaseSink r"
  "rg_observedBarrier (modify_scope i f r) = rg_observedBarrier r" "rg_publishedBarrier (modify_scope i f r) = rg_publishedBarrier r"
  "rg_pendingBarrierSequence (modify_scope i f r) = rg_pendingBarrierSequence r"
  "rg_snapshotRevision (modify_scope i f r) = rg_snapshotRevision r" "rg_sent (modify_scope i f r) = rg_sent r"
  by (simp_all add: modify_scope_def)

lemma modify_ok:
  assumes "registry_ok r" "map_of (rg_heap r) i = Some s" "scope_ok (f s)"
    and "sc_ended (f s) = OnceDone \<longleftrightarrow> sc_ended s = OnceDone" "rg_state r = StateClosed \<Longrightarrow> settled s \<Longrightarrow> settled (f s)"
  shows "registry_ok (modify_scope i f r)"
  using assms unfolding registry_ok_def all_settled_def by (simp add: modify_get)

lemma modify_advance:
  assumes "map_of (rg_heap r) i = Some s" "scope_advance (rg_state r = StateAccepting) (own = Some i) s (f s)"
  shows "advance own r (modify_scope i f r)"
  using assms by (auto simp: advance_def modify_get scope_advance_refl split: if_splits)

lemma advance_refl: "advance own r r"
  by (auto simp: advance_def scope_advance_refl)

text \<open>A section that leaves maps, scopes and state alone.\<close>

lemma same_ok:
  assumes "registry_ok r" "rg_state r' = rg_state r" "rg_pending r' = rg_pending r" "rg_scopes r' = rg_scopes r" "rg_tokens r' = rg_tokens r"
    and "rg_heap r' = rg_heap r" "rg_closeStarted r' = rg_closeStarted r" "rg_closeDone r' = rg_closeDone r"
  shows "registry_ok r'"
  using assms by (simp add: registry_ok_def all_settled_def)

lemma same_advance:
  assumes "rg_state r' = rg_state r" "rg_pending r' = rg_pending r" "rg_scopes r' = rg_scopes r"
    and "rg_heap r' = rg_heap r" "rg_closeStarted r' = rg_closeStarted r" "rg_changed r' = rg_changed r"
  shows "advance own r r'"
  using assms advance_refl[of own r] by (simp add: advance_def)

lemma registry_okD:
  assumes "registry_ok r"
  shows "i \<in> set (rg_pending r) \<longleftrightarrow> map_of (rg_tokens r) i = Some False"
    and "map_of (rg_heap r) i = Some s \<Longrightarrow> map_of (rg_tokens r) i = Some True"
    and "i \<in> set (rg_scopes r) \<longleftrightarrow> (\<exists>s. map_of (rg_heap r) i = Some s \<and> sc_ended s \<noteq> OnceDone)"
    and "map_of (rg_heap r) i = Some s \<Longrightarrow> scope_ok s"
  using assms unfolding registry_ok_def by blast+

lemma start_close_sets:
  assumes "registry_ok r" "map_of (rg_heap r) i = Some s" "startBoundResourceClose i r = (w, r')"
  shows "registry_ok r' \<and> advance own r r' \<and> (w \<longleftrightarrow> sc_closeDone (scope_of r' i) \<noteq> None) \<and> sc_closeFn (scope_of r' i) = None \<and>
    dom (map_of (rg_heap r')) = dom (map_of (rg_heap r))"
proof (cases "sc_closeDone s \<noteq> None \<or> sc_closeFn s = None")
  case True
  then show ?thesis
    using assms registry_okD(4)[OF assms(1,2)] by (auto simp: startBoundResourceClose_def advance_refl scope_ok_def split: if_splits)
next
  case False
  let ?f = "\<lambda>s. s\<lparr>sc_closeFn := None, sc_closeDone := Some False, sc_closing := sc_closeFn s\<rparr>"
  have r': "r' = modify_scope i ?f r" "w" using False assms(2,3) by (auto simp: startBoundResourceClose_def)
  have "registry_ok r'"
    unfolding r'(1)
    by (rule modify_ok[where f = ?f, OF assms(1,2)]) (use False registry_okD(4)[OF assms(1,2)] in \<open>auto simp: scope_ok_def settled_def\<close>)
  moreover have "advance own r r'"
    unfolding r'(1) by (rule modify_advance[where f = ?f, OF assms(2)]) (use False in \<open>auto simp: scope_advance_def\<close>)
  ultimately show ?thesis using r' assms(2) by (auto simp: modify_get split: if_splits)
qed

lemma closer_sets:
  assumes "registry_ok r" "map_of (rg_heap r) i = Some s" "sc_closeDone s = Some False"
  shows "registry_ok (closer_step i r) \<and> advance own r (closer_step i r)"
proof -
  let ?f = "\<lambda>s. s\<lparr>sc_closed := sc_closed s @ (case sc_closing s of None \<Rightarrow> [] | Some f \<Rightarrow> [f]), sc_closing := None,
    sc_closeDone := Some True\<rparr>"
  have "registry_ok (modify_scope i ?f r)"
    by (rule modify_ok[where f = ?f, OF assms(1,2)]) (use assms(3) registry_okD(4)[OF assms(1,2)] in \<open>auto simp: scope_ok_def settled_def\<close>)
  moreover have "advance own r (modify_scope i ?f r)"
    by (rule modify_advance[where f = ?f, OF assms(2)]) (use assms(3) in \<open>auto simp: scope_advance_def\<close>)
  ultimately show ?thesis by (simp add: closer_step_def)
qed

lemma bind_sets:
  assumes "registry_ok r"
  shows "registry_ok (snd (Bind i closeFn r)) \<and> advance own r (snd (Bind i closeFn r))"
proof (cases "fst (Bind i closeFn r) = None")
  case True
  let ?f = "\<lambda>s. s\<lparr>sc_closeFn := closeFn, sc_bound := closeFn\<rparr>"
  obtain s where s: "map_of (rg_heap r) i = Some s" "rg_state r = StateAccepting" "sc_active s" "sc_closeFn s = None"
      "sc_closeDone s = None" "snd (Bind i closeFn r) = modify_scope i ?f r"
    using True by (auto simp: Bind_def has_key_iff split: if_splits dest: weak_map_of_SomeI)
  have "registry_ok (modify_scope i ?f r)"
    by (rule modify_ok[where f = ?f, OF assms s(1)]) (use s registry_okD(4)[OF assms s(1)] in \<open>auto simp: scope_ok_def settled_def\<close>)
  moreover have "advance own r (modify_scope i ?f r)"
    by (rule modify_advance[where f = ?f, OF s(1)])
      (use s registry_okD(4)[OF assms s(1)] in \<open>auto simp: scope_advance_def scope_ok_def\<close>)
  ultimately show ?thesis using s by simp
next
  case False
  then have "snd (Bind i closeFn r) = r" by (auto simp: Bind_def)
  then show ?thesis using assms advance_refl by simp
qed

lemma set_removeAll_eq: "set (removeAll x xs) = set xs - {x}"
  by simp

lemma resolve_sets:
  assumes "registry_ok r" "has_key (rg_tokens r) i"
  shows "registry_ok (signalLocked (resolve_token i r)) \<and> advance own r (signalLocked (resolve_token i r))"
  using assms by (auto simp: registry_ok_def all_settled_def advance_def signalLocked_def resolve_token_def map_of_update scope_advance_refl)

lemma end_dispatch_sets:
  assumes "registry_ok r"
  shows "registry_ok (PendingDispatch_End i r) \<and> advance own r (PendingDispatch_End i r)"
proof -
  have "has_key (rg_tokens r) i" if "map_of (rg_tokens r) i = Some False"
    using map_of_SomeD[OF that] by (force simp: has_key_iff)
  then show ?thesis using assms resolve_sets[OF assms] advance_refl by (simp add: PendingDispatch_End_def)
qed

lemma begin_sets:
  assumes "registry_ok r" "map_of (rg_tokens r) (uint64 (rg_next r + 1)) = None"
  shows "registry_ok (snd (BeginDispatch r)) \<and> advance own r (snd (BeginDispatch r))"
proof (cases "rg_state r = StateAccepting")
  case True
  have "map_of (rg_heap r) (uint64 (rg_next r + 1)) = None"
    using assms registry_okD(2)[OF assms(1)] by (cases "map_of (rg_heap r) (uint64 (rg_next r + 1))") auto
  then show ?thesis
    using True assms
    by (auto simp: BeginDispatch_def registry_ok_def all_settled_def advance_def map_of_update Let_def scope_advance_refl)
qed (use assms advance_refl in \<open>simp add: BeginDispatch_def\<close>)

lemma install_sets:
  assumes "registry_ok r"
  shows "registry_ok (snd (Install i spec r)) \<and> advance own r (snd (Install i spec r))"
proof (cases "has_key (rg_tokens r) i \<and> rg_state r = StateAccepting \<and> i \<in> set (rg_pending r)")
  case True
  then have "map_of (rg_tokens r) i = Some False" using registry_okD(1)[OF assms] by simp
  then have n: "map_of (rg_heap r) i = None"
    using registry_okD(2)[OF assms] by (cases "map_of (rg_heap r) i") auto
  let ?r = "snd (Install i spec r)"
  have "registry_ok ?r"
    using True assms
    by (auto simp: Install_def registry_ok_def all_settled_def map_of_update Let_def signalLocked_def resolve_token_def
        new_scope_def scope_ok_def)
  moreover have "advance own r ?r"
    using True n
    by (auto simp: Install_def advance_def map_of_update Let_def signalLocked_def resolve_token_def scope_advance_refl)
  ultimately show ?thesis by simp
next
  case False
  then have "snd (Install i spec r) = r \<or>
      has_key (rg_tokens r) i \<and> snd (Install i spec r) = signalLocked (resolve_token i r)"
    by (auto simp: Install_def)
  then show ?thesis using resolve_sets[OF assms] assms advance_refl by auto
qed

lemma observe_sets: "registry_ok r \<Longrightarrow> registry_ok (ObserveBarrier revision r) \<and> advance own r (ObserveBarrier revision r)"
  by (simp add: ObserveBarrier_def advance_refl same_advance) (auto intro: same_ok)

lemma freeze_sets: "registry_ok r \<Longrightarrow> registry_ok (snd (FreezeInFlight r)) \<and> advance own r (snd (FreezeInFlight r))"
  by (simp add: FreezeInFlight_def Let_def same_advance) (auto intro: same_ok)

end
