(* ===== verification/RegistryRuns.thy ===== *)
theory RegistryRuns
  imports RegistryInv
begin

text \<open>
  Runs of a registry: what a section of a thread keeps and establishes, the counters, and the invariant of every
  world that a run can reach.
\<close>

section \<open>Sections of threads\<close>

definition section_ok :: "Registry \<Rightarrow> Thread \<Rightarrow> Registry \<Rightarrow> Thread \<Rightarrow> bool" where
  "section_ok r th r' th' \<longleftrightarrow>
     registry_ok r' \<and> advance (owns th) r r' \<and> thread_ok r' th' \<and>
     (owns th' = owns th \<or> owns th' = None \<and> (\<forall>i. owns th = Some i \<longrightarrow> sc_ended (scope_of r' i) = OnceDone) \<or>
      (\<exists>i. th = EndCalled i \<and> owns th' = Some i \<and> sc_ended (scope_of r i) = OnceNew))"

lemma section_same:
  assumes "registry_ok r" "thread_ok r th'" "owns th' = owns th"
  shows "section_ok r th r th'"
  using assms advance_refl by (simp add: section_ok_def)

lemma modify_section:
  assumes "registry_ok r" "map_of (rg_heap r) i = Some s" "scope_ok (f s)"
    and "sc_ended (f s) = OnceDone \<longleftrightarrow> sc_ended s = OnceDone" "rg_state r = StateClosed \<Longrightarrow> settled s \<Longrightarrow> settled (f s)"
    and "scope_advance (rg_state r = StateAccepting) (owns th = Some i) s (f s)"
    and "thread_ok (modify_scope i f r) th'"
    and "owns th' = owns th \<or> (th = EndCalled i \<and> owns th' = Some i \<and> sc_ended s = OnceNew)"
  shows "section_ok r th (modify_scope i f r) th'"
  using modify_ok[where f = f, OF assms(1-5)] modify_advance[where f = f, OF assms(2), of "owns th"] assms(2,6-8)
  by (auto simp: section_ok_def)

lemma end_called:
  assumes "registry_ok r" "thread_ok r (EndCalled i)" "end_step r (EndCalled i) = Some (r', th')"
  shows "section_ok r (EndCalled i) r' th'"
proof -
  obtain s where s: "map_of (rg_heap r) i = Some s" using assms(2) by auto
  note ok = registry_okD(4)[OF assms(1) s]
  show ?thesis
  proof (cases "sc_ended s")
    case OnceNew
    let ?f = "\<lambda>s. s\<lparr>sc_ended := OnceRunning\<rparr>"
    have "section_ok r (EndCalled i) (modify_scope i ?f r) (EndDeactivate i)"
      by (rule modify_section[where f = ?f, OF assms(1) s])
        (use ok OnceNew s in \<open>auto simp: scope_ok_def settled_def scope_advance_def ending_def modify_get\<close>)
    then show ?thesis using assms(3) s OnceNew by simp
  qed (use assms s in \<open>auto simp: section_same\<close>)
qed

lemma end_deactivate:
  assumes "registry_ok r" "thread_ok r (EndDeactivate i)" "end_step r (EndDeactivate i) = Some (r', th')"
  shows "section_ok r (EndDeactivate i) r' th'"
proof -
  obtain s where s: "map_of (rg_heap r) i = Some s" "sc_ended s = OnceRunning" "sc_releases s = 0" using assms(2) by (auto simp: ending_def)
  let ?f = "\<lambda>s. s\<lparr>sc_active := False\<rparr>"
  have "section_ok r (EndDeactivate i) (modify_scope i ?f r) (EndClose i)"
    by (rule modify_section[where f = ?f, OF assms(1) s(1)])
      (use registry_okD(4)[OF assms(1) s(1)] s in \<open>auto simp: scope_ok_def settled_def scope_advance_def ending_def modify_get\<close>)
  then show ?thesis using assms(3) by simp
qed

lemma end_close:
  assumes "registry_ok r" "thread_ok r (EndClose i)" "end_step r (EndClose i) = Some (r', th')"
  shows "section_ok r (EndClose i) r' th'"
proof -
  obtain s where s: "map_of (rg_heap r) i = Some s" using assms(2) by (auto simp: ending_def)
  obtain w where st: "startBoundResourceClose i r = (w, r')" "th' = (if w then EndAwait i else EndRelease i)"
    using assms(3) by (auto split: prod.splits)
  note * = start_close_sets[OF assms(1) s st(1)]
  have adv: "advance None r r'" using start_close_sets[OF assms(1) s st(1), of None] by simp
  have "ending r' i 0" "\<not> sc_active (scope_of r' i)"
    using assms(2) ending_stable[OF adv, of i 0] inactive_stable[OF adv, of i 0] by auto
  then have "thread_ok r' th'" using * st(2) by (auto simp: quiet_def settled_def)
  then show ?thesis using start_close_sets[OF assms(1) s st(1), of "Some i"] st(2) by (simp add: section_ok_def)
qed

lemma end_await:
  assumes "registry_ok r" "thread_ok r (EndAwait i)" "end_step r (EndAwait i) = Some (r', th')"
  shows "section_ok r (EndAwait i) r' th'"
proof -
  obtain s where s: "map_of (rg_heap r) i = Some s" using assms(2) by (auto simp: ending_def)
  show ?thesis
    using assms s registry_okD(4)[OF assms(1) s] by (auto simp: section_same quiet_def settled_def scope_ok_def split: if_splits)
qed

lemma end_release:
  assumes "registry_ok r" "thread_ok r (EndRelease i)" "end_step r (EndRelease i) = Some (r', th')"
  shows "section_ok r (EndRelease i) r' th'"
proof -
  obtain s where s: "map_of (rg_heap r) i = Some s" "sc_ended s = OnceRunning" "sc_releases s = 0" "quiet r i"
    using assms(2) by (auto simp: ending_def)
  let ?f = "\<lambda>s. s\<lparr>sc_releases := Suc (sc_releases s)\<rparr>"
  obtain sink grp sequence where st: "markReleasedLocked i r = ((sink, grp, sequence), r')" "th' = EndNotify i sink grp sequence"
    using assms(3) by (auto split: prod.splits)
  have m: "section_ok r (EndRelease i) (modify_scope i ?f r) th'"
    by (rule modify_section[where f = ?f, OF assms(1) s(1)])
      (use registry_okD(4)[OF assms(1) s(1)] s st(2) in
        \<open>auto simp: scope_ok_def settled_def scope_advance_def ending_def modify_get quiet_def\<close>)
  have same: "rg_heap r' = rg_heap (modify_scope i ?f r)" "rg_state r' = rg_state r" "rg_pending r' = rg_pending r"
    "rg_scopes r' = rg_scopes r" "rg_tokens r' = rg_tokens r" "rg_changed r' = rg_changed r" "rg_closeStarted r' = rg_closeStarted r"
    "rg_closeDone r' = rg_closeDone r"
    using st(1) by (auto simp: markReleasedLocked_def Let_def split: if_splits)
  have "registry_ok r'" using m same by (auto simp: section_ok_def intro!: same_ok[of "modify_scope i ?f r"])
  moreover have "advance (Some i) r r'" using m same by (auto simp: section_ok_def advance_def)
  moreover have "thread_ok r' th'" using m same st(2) by (simp add: section_ok_def ending_def quiet_def)
  ultimately show ?thesis using st(2) by (simp add: section_ok_def)
qed

lemma end_notify:
  assumes "registry_ok r" "thread_ok r (EndNotify i sink grp sequence)"
    and "end_step r (EndNotify i sink grp sequence) = Some (r', th')"
  shows "section_ok r (EndNotify i sink grp sequence) r' th'"
proof -
  have "((\<exists>t. th' = EndRecord i t) \<or> (\<exists>f. th' = EndSink i f grp sequence)) \<and> (r' = r \<or> r' = r\<lparr>rg_sent := rg_sent r @ [(grp, sequence)]\<rparr>)"
    using assms(3) by (auto split: option.splits if_splits)
  then show ?thesis
    using assms(1,2) same_ok[of r r'] same_advance[of r' r] by (auto simp: section_ok_def ending_def quiet_def advance_refl)
qed

lemma end_sink:
  assumes "registry_ok r" "thread_ok r (EndSink i f grp sequence)" "end_step r (EndSink i f grp sequence) = Some (r', th')"
  shows "section_ok r (EndSink i f grp sequence) r' th'"
  using assms by (auto intro!: section_same)

lemma end_record:
  assumes "registry_ok r" "thread_ok r (EndRecord i ticket)" "end_step r (EndRecord i ticket) = Some (r', th')"
  shows "section_ok r (EndRecord i ticket) r' th'"
proof -
  obtain s where s: "map_of (rg_heap r) i = Some s" "sc_ended s = OnceRunning" "sc_releases s = 1" "quiet r i"
    using assms(2) by (auto simp: ending_def)
  let ?f = "\<lambda>s. s\<lparr>sc_releaseTicket := ticket\<rparr>"
  have "section_ok r (EndRecord i ticket) (modify_scope i ?f r) (EndRemove i)"
    by (rule modify_section[where f = ?f, OF assms(1) s(1)])
      (use registry_okD(4)[OF assms(1) s(1)] s in \<open>auto simp: scope_ok_def settled_def scope_advance_def ending_def modify_get quiet_def\<close>)
  then show ?thesis using assms(3) by simp
qed

lemma end_remove:
  assumes "registry_ok r" "thread_ok r (EndRemove i)" "end_step r (EndRemove i) = Some (r', th')"
  shows "section_ok r (EndRemove i) r' th'"
proof -
  obtain s where s: "map_of (rg_heap r) i = Some s" "sc_ended s = OnceRunning" "sc_releases s = 1" "quiet r i"
    using assms(2) by (auto simp: ending_def)
  have sok: "scope_ok s" "\<not> sc_active s" "settled s" using registry_okD(4)[OF assms(1) s(1)] s by (auto simp: quiet_def)
  let ?f = "\<lambda>s. s\<lparr>sc_ended := OnceDone\<rparr>"
  have r': "r' = signalLocked ((modify_scope i ?f r)\<lparr>rg_scopes := removeAll i (rg_scopes r)\<rparr>)" "th' = EndRead i"
    using assms(3) by (auto simp: Let_def)
  have f: "scope_ok (?f s)" "settled (?f s)" using sok s by (auto simp: scope_ok_def settled_def)
  have "registry_ok r'"
    using assms(1) s(1) f unfolding r' registry_ok_def all_settled_def by (auto simp: signalLocked_def modify_get)
  moreover have "advance (Some i) r r'"
    using s by (auto simp: r' advance_def signalLocked_def modify_get scope_advance_refl scope_advance_def split: if_splits)
  moreover have "thread_ok r' th'" by (auto simp: r' signalLocked_def modify_get)
  moreover have "sc_ended (scope_of r' i) = OnceDone" by (simp add: r' signalLocked_def modify_get)
  ultimately show ?thesis by (simp add: section_ok_def r'(2))
qed

lemma end_sections:
  assumes "registry_ok r" "thread_ok r th" "end_step r th = Some (r', th')"
  shows "section_ok r th r' th'"
proof (cases th)
  case (EndRead i)
  then show ?thesis using assms by (auto intro!: section_same)
qed (insert assms, (blast intro: end_called end_deactivate end_close end_await end_release end_notify end_sink end_record end_remove | simp)+)

lemma drain_called:
  assumes "registry_ok r" "drain_step r DrainCalled = Some (r', th')"
  shows "section_ok r DrainCalled r' th'"
  using assms
  by (cases "rg_state r") (auto simp: section_ok_def registry_ok_def all_settled_def advance_def scope_advance_refl)

text \<open>An unfinished scope is in the map, so what is not in the map has nothing left to close.\<close>

lemma outside_settled: "registry_ok r \<Longrightarrow> map_of (rg_heap r) i = Some s \<Longrightarrow> i \<notin> set (rg_scopes r) \<Longrightarrow> settled s"
  using registry_okD(3)[of r i] registry_okD(4)[of r i s] by (auto simp: scope_ok_def settled_def)

lemma unsettled_inside: "registry_ok r \<Longrightarrow> map_of (rg_heap r) i = Some s \<Longrightarrow> \<not> settled s \<Longrightarrow> i \<in> set (rg_scopes r)"
  using outside_settled by blast

lemma scope_exists: "registry_ok r \<Longrightarrow> i \<in> set (rg_scopes r) \<Longrightarrow> map_of (rg_heap r) i \<noteq> None"
  using registry_okD(3)[of r i] by auto

lemma drop_member:
  "\<forall>j u. m j = Some u \<longrightarrow> j \<in> set (i # rest) \<or> Q u \<Longrightarrow> m i = Some t \<Longrightarrow> Q t \<Longrightarrow>
   \<forall>j u. m j = Some u \<longrightarrow> j \<in> set rest \<or> Q u"
  by (metis option.inject set_ConsD)

lemma drain_closing:
  assumes "registry_ok r" "thread_ok r (DrainClosing (i # rest))"
  shows "section_ok r (DrainClosing (i # rest)) (snd (startBoundResourceClose i r)) (DrainClosing rest)"
proof -
  obtain s where s: "map_of (rg_heap r) i = Some s" using assms(2) by auto
  obtain w r' where st: "startBoundResourceClose i r = (w, r')" by (rule prod.exhaust)
  note * = start_close_sets[OF assms(1) s st, of None]
  have "thread_ok r' (DrainClosing (i # rest))"
    by (rule thread_ok_stable[OF _ assms(2), of None]) (use * in auto)
  then obtain t where "thread_ok r' (DrainClosing (i # rest))" "map_of (rg_heap r') i = Some t" "sc_closeFn t = None"
    using * by auto
  then have "thread_ok r' (DrainClosing rest)"
    using drop_member[of "map_of (rg_heap r')" i rest "\<lambda>u. sc_closeFn u = None" t] by simp
  then show ?thesis using * st by (simp add: section_ok_def)
qed

lemma drain_check:
  assumes "registry_ok r" "thread_ok r DrainCheck" "drain_step r DrainCheck = Some (r', th')"
  shows "section_ok r DrainCheck r' th'"
proof (cases "rg_pending r = [] \<and> rg_scopes r = []")
  case True
  then have r': "r' = r\<lparr>rg_state := StateClosed\<rparr>" "th' = DrainReturned None" using assms(3) by auto
  have "registry_ok r'" using assms(1) True unfolding r' registry_ok_def all_settled_def by auto
  moreover have "advance None r r'" using assms(2) by (auto simp: r' advance_def scope_advance_refl)
  ultimately show ?thesis using True r' by (simp add: section_ok_def)
next
  case False
  then have "r' = r" "th' = DrainWait (rg_changed r)" using assms(3) by auto
  then show ?thesis using assms(1,2) False by (auto intro!: section_same)
qed

lemma drain_sections:
  assumes "registry_ok r" "thread_ok r th" "drain_step r th = Some (r', th')"
  shows "section_ok r th r' th'"
proof (cases th)
  case DrainSnapshot
  then show ?thesis
    using assms unsettled_inside[OF assms(1)] scope_exists[OF assms(1)] by (auto simp: settled_def intro!: section_same)
next
  case (DrainClosing "is")
  then show ?thesis using assms drain_closing[OF assms(1)] by (cases "is") (auto intro!: section_same simp del: thread_ok.simps(13), auto)
next
  case (DrainWait g)
  then show ?thesis using assms by (auto intro!: section_same split: if_splits)
qed (insert assms, (blast intro: drain_called drain_check | simp)+)

lemma close_called:
  assumes "registry_ok r" "close_step r CloseCalled = Some (r', th')"
  shows "section_ok r CloseCalled r' th'"
proof -
  have "all_settled r" if "\<not> rg_closeStarted r" "rg_state r = StateClosed"
    using that assms(1) outside_settled[OF assms(1)] unfolding all_settled_def by (simp add: registry_ok_def)
  then show ?thesis
    using assms by (auto simp: section_ok_def registry_ok_def all_settled_def advance_def scope_advance_refl split: if_splits)
qed

lemma close_swap:
  assumes "registry_ok r" "thread_ok r CloseSwap"
  shows "section_ok r CloseSwap (r\<lparr>rg_state := StateClosed\<rparr>) CloseSnapshot"
  using assms by (auto simp: section_ok_def registry_ok_def all_settled_def advance_def scope_advance_refl)

lemma close_closing:
  assumes "registry_ok r" "thread_ok r (CloseClosing (i # rest))"
    and "close_step r (CloseClosing (i # rest)) = Some (r', th')"
  shows "section_ok r (CloseClosing (i # rest)) r' th'"
proof -
  obtain s where s: "map_of (rg_heap r) i = Some s" using assms(2) by auto
  obtain w where st: "startBoundResourceClose i r = (w, r')" "th' = (if w then CloseWait i rest else CloseClosing rest)"
    using assms(3) by (auto split: prod.splits)
  note * = start_close_sets[OF assms(1) s st(1), of None]
  have t: "thread_ok r' (CloseClosing (i # rest))"
    by (rule thread_ok_stable[OF _ assms(2), of None]) (use * in auto)
  obtain t where ti: "map_of (rg_heap r') i = Some t" using t by auto
  then have "sc_closeFn t = None" "w \<longleftrightarrow> sc_closeDone t \<noteq> None" using * by auto
  then have "\<forall>j u. map_of (rg_heap r') j = Some u \<longrightarrow> j \<in> set rest \<or> w \<and> j = i \<or> settled u"
    using t ti by (simp add: settled_def) (metis option.inject option.distinct(1))
  then have "thread_ok r' th'" using t ti st(2) \<open>sc_closeFn t = None\<close> \<open>w \<longleftrightarrow> sc_closeDone t \<noteq> None\<close> by auto
  then show ?thesis using * st(2) by (auto simp: section_ok_def)
qed

lemma close_sections:
  assumes "registry_ok r" "thread_ok r th" "close_step r th = Some (r', th')"
  shows "section_ok r th r' th'"
proof (cases th)
  case CloseAwait
  then show ?thesis using assms by (auto simp: registry_ok_def intro!: section_same split: if_splits)
next
  case CloseSnapshot
  then show ?thesis
    using assms unsettled_inside[OF assms(1)] scope_exists[OF assms(1)] by (auto intro!: section_same)
next
  case (CloseClosing "is")
  then show ?thesis
    using assms close_closing[OF assms(1)] by (cases "is") (auto intro!: section_same simp: all_settled_def simp del: close_step.simps(6))
next
  case (CloseWait i "is")
  then obtain t where t: "map_of (rg_heap r) i = Some t" "sc_closeFn t = None" using assms(2) by auto
  have "thread_ok r (CloseClosing (i # is))" using CloseWait assms(2) t by auto
  moreover have "sc_closeDone t = Some True" "r' = r" "th' = CloseClosing is" using CloseWait t assms(3) by (auto split: if_splits)
  ultimately have "thread_ok r th'"
    using t drop_member[of "map_of (rg_heap r)" i "is" settled t] by (simp add: settled_def)
  then show ?thesis using assms(1) CloseWait \<open>r' = r\<close> \<open>th' = CloseClosing is\<close> by (auto intro!: section_same)
next
  case CloseFinish
  then have "r' = r\<lparr>rg_closeDone := Some True\<rparr>" "th' = CloseReturned" "all_settled r" "rg_closeStarted r" using assms by auto
  then show ?thesis
    using assms(1) CloseFinish by (auto simp: section_ok_def registry_ok_def all_settled_def advance_def scope_advance_refl)
next
  case CloseSwap
  then show ?thesis using assms close_swap[OF assms(1)] by auto
qed (insert assms, (blast intro: close_called | simp)+)

lemma other_sections:
  assumes "registry_ok r" "thread_ok r th" "pending_step r th = Some (r', th') \<or> sink_step r th = Some (r', th')"
  shows "section_ok r th r' th'"
proof (cases th)
  case (SinkReplay f gs)
  then have "(\<exists>gs. th' = SinkReplay f gs \<or> th' = SinkReturned) \<and> (r' = r \<or> (\<exists>x. r' = r\<lparr>rg_sent := x\<rparr>))"
    using assms(3) by (cases "(r, th)" rule: sink_step.cases) (auto split: if_splits)
  then show ?thesis
    using assms(1) SinkReplay same_ok[of r r'] same_advance[of r' r] by (auto simp: section_ok_def advance_refl)
next
  case (SinkCalled sink)
  then have "r' = r\<lparr>rg_releaseSink := sink\<rparr>" "owns th' = None" "thread_ok r' th'" using assms(3) by (auto split: option.splits)
  then show ?thesis using assms(1) SinkCalled same_ok[of r r'] same_advance[of r' r] by (simp add: section_ok_def)
next
  case PendingCheck
  then show ?thesis using assms by (auto intro!: section_same split: if_splits)
next
  case (PendingWait g)
  then show ?thesis using assms by (auto intro!: section_same split: if_splits)
qed (insert assms, simp_all)

lemma thread_sections:
  assumes "registry_ok r" "thread_ok r th" "thread_step r th = Some (r', th')"
  shows "section_ok r th r' th'"
  using assms(3) end_sections[OF assms(1,2)] drain_sections[OF assms(1,2)] close_sections[OF assms(1,2)] other_sections[OF assms(1,2)]
  by (auto simp: thread_step_def split: option.splits)

end
