(* ===== verification/RegistryWorld.thy ===== *)
theory RegistryWorld
  imports RegistryRuns
begin

text \<open>
  The counters of a registry, the owners of the scopes that are being ended, and the invariant of every reachable
  world.
\<close>

section \<open>What sections leave alone\<close>

definition running :: "Registry \<Rightarrow> int set" where
  "running r = {i. \<exists>s. map_of (rg_heap r) i = Some s \<and> sc_ended s = OnceRunning}"

definition release_group :: "ScopeSpec \<Rightarrow> ReleaseGroup" where
  "release_group spec = \<lparr>rl_CredentialID = sp_CredentialID spec, rl_Model = sp_Model spec\<rparr>"

text \<open>The accounted scopes of a group whose release has been counted.\<close>

definition released :: "Registry \<Rightarrow> ReleaseGroup \<Rightarrow> int set" where
  "released r grp = {i. \<exists>s. map_of (rg_heap r) i = Some s \<and> sp_Accounted (sc_spec s) \<and> release_group (sc_spec s) = grp \<and> sc_releases s = 1}"

lemma finite_released: "finite (released r grp)"
  by (rule finite_subset[OF _ finite_dom_map_of[of "rg_heap r"]]) (auto simp: released_def)

lemma modify_released:
  "map_of (rg_heap r) i = Some s \<Longrightarrow> sc_spec (f s) = sc_spec s \<Longrightarrow> sc_releases (f s) = sc_releases s \<Longrightarrow>
   released (modify_scope i f r) grp = released r grp"
  by (auto simp: released_def modify_get split: if_splits)

lemma modify_running:
  "map_of (rg_heap r) i = Some s \<Longrightarrow> (sc_ended (f s) = OnceRunning \<Longrightarrow> sc_ended s = OnceRunning) \<Longrightarrow>
   running (modify_scope i f r) \<subseteq> running r"
  by (auto simp: running_def modify_get split: if_splits)

lemma start_close_counts:
  assumes "map_of (rg_heap r) i = Some s"
  shows "released (snd (startBoundResourceClose i r)) grp = released r grp \<and> running (snd (startBoundResourceClose i r)) \<subseteq> running r"
  using assms by (auto simp: startBoundResourceClose_def released_def running_def modify_get split: if_splits)

text \<open>A section of a thread changes neither dispatches nor barriers.\<close>

definition same_dispatches :: "Registry \<Rightarrow> Registry \<Rightarrow> bool" where
  "same_dispatches r r' \<longleftrightarrow> rg_next r' = rg_next r \<and> rg_pending r' = rg_pending r \<and> rg_tokens r' = rg_tokens r \<and>
     rg_snapshotRevision r' = rg_snapshotRevision r \<and> rg_observedBarrier r' = rg_observedBarrier r \<and>
     rg_pendingBarrierSequence r' = rg_pendingBarrierSequence r \<and> rg_publishedBarrier r' = rg_publishedBarrier r"

lemma start_close_dispatches: "startBoundResourceClose i r = (w, r') \<Longrightarrow> same_dispatches r r' \<and> rg_releaseSequences r' = rg_releaseSequences r"
  by (auto simp: startBoundResourceClose_def same_dispatches_def split: if_splits)

lemma end_dispatches: "end_step r th = Some (r', th') \<Longrightarrow> same_dispatches r r'"
  by (cases "(r, th)" rule: end_step.cases)
    (auto simp: same_dispatches_def signalLocked_def Let_def markReleasedLocked_def split: Once.splits option.splits if_splits prod.splits
      dest: start_close_dispatches[unfolded same_dispatches_def])

lemma drain_dispatches: "drain_step r th = Some (r', th') \<Longrightarrow> same_dispatches r r' \<and> rg_releaseSequences r' = rg_releaseSequences r"
  by (cases "(r, th)" rule: drain_step.cases)
    (auto simp: same_dispatches_def split: State.splits if_splits dest: start_close_dispatches[unfolded same_dispatches_def]
      simp: start_close_dispatches[OF prod.collapse[symmetric], unfolded same_dispatches_def])

lemma close_dispatches: "close_step r th = Some (r', th') \<Longrightarrow> same_dispatches r r' \<and> rg_releaseSequences r' = rg_releaseSequences r"
  by (cases "(r, th)" rule: close_step.cases)
    (auto simp: same_dispatches_def split: if_splits prod.splits dest: start_close_dispatches[unfolded same_dispatches_def])

lemma other_dispatches: "pending_step r th = Some (r', th') \<or> sink_step r th = Some (r', th') \<Longrightarrow>
   same_dispatches r r' \<and> rg_releaseSequences r' = rg_releaseSequences r \<and> rg_heap r' = rg_heap r"
  by (cases "(r, th)" rule: pending_step.cases; cases "(r, th)" rule: sink_step.cases) (auto simp: same_dispatches_def split: if_splits)

lemma thread_dispatches: "thread_step r th = Some (r', th') \<Longrightarrow> same_dispatches r r'"
  using end_dispatches[of r th r' th'] drain_dispatches[of r th r' th'] close_dispatches[of r th r' th'] other_dispatches[of r th r' th']
  by (auto simp: thread_step_def split: option.splits)

text \<open>Only the section that ends a scope's once or counts its release changes what is running or released.\<close>

definition same_scopes :: "Registry \<Rightarrow> Registry \<Rightarrow> bool" where
  "same_scopes r r' \<longleftrightarrow> (\<forall>grp. released r' grp = released r grp) \<and> running r' \<subseteq> running r"

lemma same_scopes_heap: "rg_heap r' = rg_heap r \<Longrightarrow> same_scopes r r'"
  by (simp add: same_scopes_def released_def running_def)

lemma same_scopes_modify:
  "map_of (rg_heap r) i = Some s \<Longrightarrow> sc_spec (f s) = sc_spec s \<Longrightarrow> sc_releases (f s) = sc_releases s \<Longrightarrow>
   (sc_ended (f s) = OnceRunning \<Longrightarrow> sc_ended s = OnceRunning) \<Longrightarrow> same_scopes r (modify_scope i f r)"
  using modify_released[of r i s f] modify_running[of r i s f] by (simp add: same_scopes_def)

lemma same_scopes_trans: "same_scopes r r' \<Longrightarrow> rg_heap r'' = rg_heap r' \<Longrightarrow> same_scopes r r''"
  by (simp add: same_scopes_def released_def running_def)

lemma same_scopes_close: "map_of (rg_heap r) i = Some s \<Longrightarrow> startBoundResourceClose i r = (w, r') \<Longrightarrow> same_scopes r r'"
  using start_close_counts[of r i s] by (simp add: same_scopes_def)

lemma drain_scopes: "thread_ok r th \<Longrightarrow> drain_step r th = Some (r', th') \<Longrightarrow> same_scopes r r'"
  by (cases "(r, th)" rule: drain_step.cases)
    (auto split: State.splits if_splits intro: same_scopes_heap same_scopes_close[OF _ prod.collapse[symmetric]])

lemma close_scopes: "thread_ok r th \<Longrightarrow> close_step r th = Some (r', th') \<Longrightarrow> same_scopes r r'"
  by (cases "(r, th)" rule: close_step.cases) (auto split: if_splits prod.splits intro: same_scopes_heap same_scopes_close)

text \<open>The section of \<open>markReleasedLocked\<close> counts exactly its scope.\<close>

lemma mark_released:
  assumes "map_of (rg_heap r) i = Some s" "sc_releases s = 0" "markReleasedLocked i r = (x, r')"
  shows "running r' = running r \<and> i \<notin> released r grp \<and>
    released r' grp = (if sp_Accounted (sc_spec s) \<and> release_group (sc_spec s) = grp then insert i (released r grp) else released r grp) \<and>
    map_get 0 (rg_releaseSequences r') grp =
      (if sp_Accounted (sc_spec s) \<and> release_group (sc_spec s) = grp then int64 (map_get 0 (rg_releaseSequences r) grp + 1)
       else map_get 0 (rg_releaseSequences r) grp)"
  using assms
  by (auto simp: markReleasedLocked_def Let_def released_def running_def modify_get release_group_def split: if_splits)

lemma end_scopes:
  assumes "thread_ok r th" "end_step r th = Some (r', th')" "\<And>i. th \<noteq> EndRelease i"
  shows "(\<forall>grp. released r' grp = released r grp) \<and> (\<forall>i. i \<in> running r' \<longrightarrow> i \<in> running r \<or> owns th' = Some i) \<and>
    rg_releaseSequences r' = rg_releaseSequences r"
proof (cases th)
  case (EndClose i)
  then obtain s w where "map_of (rg_heap r) i = Some s" "startBoundResourceClose i r = (w, r')"
    using assms(1,2) by (auto simp: ending_def split: prod.splits)
  then have "same_scopes r r'" "rg_releaseSequences r' = rg_releaseSequences r"
    using same_scopes_close[of r i s w r'] start_close_dispatches[of i r w r'] by simp_all
  then show ?thesis by (auto simp: same_scopes_def)
next
  case (EndNotify i sink grp sequence)
  then show ?thesis using assms(2) by (auto simp: released_def running_def split: option.splits if_splits)
qed (use assms in \<open>auto simp: ending_def signalLocked_def Let_def released_def running_def modify_get split: Once.splits if_splits\<close>)

section \<open>Counters\<close>

definition counters_ok :: "nat \<Rightarrow> Registry \<Rightarrow> bool" where
  "counters_ok n r \<longleftrightarrow>
     0 \<le> rg_next r \<and> rg_next r \<le> int n \<and>
     (\<forall>i. map_of (rg_tokens r) i \<noteq> None \<longrightarrow> i \<le> rg_next r) \<and>
     0 \<le> rg_snapshotRevision r \<and> rg_snapshotRevision r \<le> int n \<and>
     rg_publishedBarrier r \<le> rg_observedBarrier r \<and>
     (\<forall>grp. map_get 0 (rg_releaseSequences r) grp = int (card (released r grp)) \<and> card (released r grp) \<le> n)"

lemma counters_same:
  assumes "counters_ok n r" "same_dispatches r r'" "\<forall>grp. released r' grp = released r grp" "rg_releaseSequences r' = rg_releaseSequences r"
  shows "counters_ok (Suc n) r'"
  using assms by (auto simp: counters_ok_def same_dispatches_def le_SucI)

lemma counters_release:
  assumes "counters_ok n r" "int n < MaxInt64" "map_of (rg_heap r) i = Some s" "sc_releases s = 0"
    and m: "markReleasedLocked i r = (x, r')"
  shows "counters_ok (Suc n) r'"
proof -
  have "same_dispatches r r'"
    using m by (auto simp: markReleasedLocked_def Let_def same_dispatches_def split: if_splits)
  moreover have "map_get 0 (rg_releaseSequences r') grp = int (card (released r' grp)) \<and> card (released r' grp) \<le> Suc n" for grp
  proof -
    have c: "map_get 0 (rg_releaseSequences r) grp = int (card (released r grp))" "card (released r grp) \<le> n"
      using assms(1) by (auto simp: counters_ok_def)
    then have "int64 (int (card (released r grp)) + 1) = int (card (released r grp)) + 1"
      using assms(2) by (intro int64_id) (simp add: in_int64_def MinInt64_def)
    then show ?thesis using mark_released[OF assms(3-5), of grp] c finite_released[of r grp] by auto
  qed
  ultimately show ?thesis using assms(1) by (auto simp: counters_ok_def same_dispatches_def)
qed

lemma thread_counters:
  assumes "thread_ok r th" "counters_ok n r" "int n < MaxInt64" "thread_step r th = Some (r', th')"
  shows "counters_ok (Suc n) r' \<and> (\<forall>i. i \<in> running r' \<longrightarrow> i \<in> running r \<or> owns th' = Some i)"
proof -
  consider (release) i where "th = EndRelease i" "end_step r th = Some (r', th')"
    | (end_thread) "\<And>i. th \<noteq> EndRelease i" "end_step r th = Some (r', th')"
    | (drain) "drain_step r th = Some (r', th')" | (close) "close_step r th = Some (r', th')"
    | (other) "pending_step r th = Some (r', th') \<or> sink_step r th = Some (r', th')"
    using assms(4) by (cases "\<exists>i. th = EndRelease i") (auto simp: thread_step_def split: option.splits)
  then show ?thesis
  proof cases
    case release
    then obtain s where s: "map_of (rg_heap r) i = Some s" "sc_releases s = 0" using assms(1) by (auto simp: ending_def)
    obtain x where "markReleasedLocked i r = (x, r')" using release by (auto split: prod.splits)
    then show ?thesis using counters_release[OF assms(2,3) s] mark_released[OF s] by blast
  next
    case end_thread
    then show ?thesis using end_scopes[OF assms(1)] counters_same[OF assms(2) end_dispatches] by auto
  next
    case drain
    then show ?thesis
      using drain_scopes[OF assms(1) drain] drain_dispatches[OF drain] counters_same[OF assms(2)] by (auto simp: same_scopes_def)
  next
    case close
    then show ?thesis
      using close_scopes[OF assms(1) close] close_dispatches[OF close] counters_same[OF assms(2)] by (auto simp: same_scopes_def)
  next
    case other
    then show ?thesis
      using other_dispatches[OF other] counters_same[OF assms(2)] same_scopes_heap[of r' r] by (auto simp: same_scopes_def)
  qed
qed

text \<open>The other sections.\<close>

lemma uint64_small: "0 \<le> x \<Longrightarrow> x < MaxInt64 \<Longrightarrow> uint64 (x + 1) = x + 1"
  by (simp add: uint64_def MaxInt64_def)

lemma begin_counters:
  assumes "counters_ok n r" "int n < MaxInt64"
  shows "counters_ok (Suc n) (snd (BeginDispatch r)) \<and> map_of (rg_tokens r) (uint64 (rg_next r + 1)) = None"
proof -
  have u: "uint64 (rg_next r + 1) = rg_next r + 1" using assms by (intro uint64_small) (auto simp: counters_ok_def)
  then have "map_of (rg_tokens r) (uint64 (rg_next r + 1)) = None" using assms(1) by (force simp: counters_ok_def)
  then show ?thesis
    using assms(1) u by (auto simp: BeginDispatch_def counters_ok_def Let_def map_of_update released_def le_SucI)
qed

lemma token_counters:
  assumes "counters_ok n r" "has_key (rg_tokens r) i"
  shows "counters_ok (Suc n) (signalLocked (resolve_token i r))"
proof -
  have "map_of (rg_tokens r) i \<noteq> None" using assms(2) by (simp add: has_key_iff map_of_eq_None_iff)
  then have "i \<le> rg_next r" using assms(1) unfolding counters_ok_def by blast
  then show ?thesis
    using assms(1) by (auto simp: counters_ok_def signalLocked_def resolve_token_def map_of_update released_def le_SucI)
qed

lemma counters_mono: "counters_ok n r \<Longrightarrow> counters_ok (Suc n) r"
  by (rule counters_same) (simp_all add: same_dispatches_def)

lemma install_counters:
  assumes "registry_ok r" "counters_ok n r"
  shows "counters_ok (Suc n) (snd (Install i spec r)) \<and> running (snd (Install i spec r)) \<subseteq> running r"
proof (cases "has_key (rg_tokens r) i")
  case True
  let ?r1 = "signalLocked (resolve_token i r)"
  note t = token_counters[OF assms(2) True]
  have one: "running ?r1 = running r" "rg_heap ?r1 = rg_heap r" by (simp_all add: running_def signalLocked_def resolve_token_def)
  show ?thesis
  proof (cases "rg_state r = StateAccepting \<and> i \<in> set (rg_pending r)")
    case ok: True
    let ?r2 = "?r1\<lparr>rg_heap := AList.update i (new_scope spec) (rg_heap ?r1), rg_scopes := i # removeAll i (rg_scopes ?r1)\<rparr>"
    have "map_of (rg_tokens r) i = Some False" using ok registry_okD(1)[OF assms(1)] by simp
    then have "map_of (rg_heap r) i = None" using registry_okD(2)[OF assms(1), of i] by (cases "map_of (rg_heap r) i") auto
    then have "released ?r2 grp = released ?r1 grp" "running ?r2 = running ?r1" for grp
      by (auto simp: released_def running_def one(2) map_of_update new_scope_def)
    moreover have "snd (Install i spec r) = ?r2" using True ok by (simp add: Install_def Let_def signalLocked_def resolve_token_def)
    ultimately show ?thesis using t one by (auto simp: counters_ok_def)
  next
    case False
    then have "snd (Install i spec r) = r \<or> snd (Install i spec r) = ?r1" using True by (auto simp: Install_def)
    then show ?thesis
      by (rule disjE) (simp_all add: t one(1) counters_mono[OF assms(2)])
  qed
next
  case False
  then show ?thesis using counters_mono[OF assms(2)] by (simp add: Install_def)
qed

lemma end_dispatch_counters:
  assumes "counters_ok n r"
  shows "counters_ok (Suc n) (PendingDispatch_End i r) \<and> running (PendingDispatch_End i r) \<subseteq> running r"
proof -
  have "has_key (rg_tokens r) i" if "map_of (rg_tokens r) i = Some False"
    using map_of_SomeD[OF that] by (force simp: has_key_iff)
  then show ?thesis
    using token_counters[OF assms] counters_mono[OF assms]
    by (auto simp: PendingDispatch_End_def running_def signalLocked_def resolve_token_def)
qed

lemma bind_counters:
  assumes "counters_ok n r"
  shows "counters_ok (Suc n) (snd (Bind i closeFn r)) \<and> running (snd (Bind i closeFn r)) \<subseteq> running r"
proof -
  have "\<exists>s. map_of (rg_heap r) i = Some s" if "has_key (rg_heap r) i"
    using that by (auto simp: has_key_iff dest: weak_map_of_SomeI)
  moreover have "same_scopes r (modify_scope i (\<lambda>s. s\<lparr>sc_closeFn := closeFn, sc_bound := closeFn\<rparr>) r)" if "map_of (rg_heap r) i = Some s" for s
    by (rule same_scopes_modify[OF that]) simp_all
  ultimately have "same_scopes r (snd (Bind i closeFn r)) \<and> same_dispatches r (snd (Bind i closeFn r)) \<and>
      rg_releaseSequences (snd (Bind i closeFn r)) = rg_releaseSequences r"
    by (auto simp: Bind_def same_dispatches_def same_scopes_heap)
  then show ?thesis using counters_same[OF assms] by (auto simp: same_scopes_def)
qed

lemma closer_counters:
  assumes "counters_ok n r" "map_of (rg_heap r) i = Some s"
  shows "counters_ok (Suc n) (closer_step i r) \<and> running (closer_step i r) \<subseteq> running r"
proof -
  have "same_scopes r (closer_step i r)" unfolding closer_step_def by (rule same_scopes_modify[OF assms(2)]) auto
  then show ?thesis
    using counters_same[OF assms(1), of "closer_step i r"] by (auto simp: same_scopes_def closer_step_def same_dispatches_def)
qed

lemma observe_counters: "counters_ok n r \<Longrightarrow> counters_ok (Suc n) (ObserveBarrier revision r) \<and> running (ObserveBarrier revision r) = running r"
  by (auto simp: ObserveBarrier_def counters_ok_def released_def running_def le_SucI)

lemma freeze_counters:
  assumes "counters_ok n r" "int n < MaxInt64"
  shows "counters_ok (Suc n) (snd (FreezeInFlight r)) \<and> running (snd (FreezeInFlight r)) = running r"
proof -
  have "int64 (rg_snapshotRevision r + 1) = rg_snapshotRevision r + 1"
    using assms by (intro int64_id) (simp add: counters_ok_def in_int64_def MinInt64_def)
  then show ?thesis
    using assms(1) by (auto simp: FreezeInFlight_def counters_ok_def released_def running_def Let_def le_SucI)
qed

section \<open>Worlds\<close>

definition world_ok :: "World \<Rightarrow> bool" where
  "world_ok w \<longleftrightarrow>
     registry_ok (w_registry w) \<and>
     (\<forall>k < length (w_threads w). thread_ok (w_registry w) (w_threads w ! k)) \<and>
     (\<forall>k < length (w_threads w). \<forall>l < length (w_threads w). \<forall>i.
        owns (w_threads w ! k) = Some i \<and> owns (w_threads w ! l) = Some i \<longrightarrow> k = l) \<and>
     (\<forall>i \<in> running (w_registry w). \<exists>k < length (w_threads w). owns (w_threads w ! k) = Some i)"

lemma world_okD:
  assumes "world_ok w"
  shows "registry_ok (w_registry w)"
    and "k < length (w_threads w) \<Longrightarrow> thread_ok (w_registry w) (w_threads w ! k)"
    and "k < length (w_threads w) \<Longrightarrow> l < length (w_threads w) \<Longrightarrow> owns (w_threads w ! k) = Some i \<Longrightarrow>
      owns (w_threads w ! l) = Some i \<Longrightarrow> k = l"
    and "i \<in> running (w_registry w) \<Longrightarrow> \<exists>k < length (w_threads w). owns (w_threads w ! k) = Some i"
  using assms unfolding world_ok_def by blast+

text \<open>A section outside the threads.\<close>

lemma world_section:
  assumes "world_ok w" "registry_ok r'" "advance None (w_registry w) r'" "running r' \<subseteq> running (w_registry w)"
  shows "world_ok (w\<lparr>w_registry := r'\<rparr>)"
proof -
  have "thread_ok r' (w_threads w ! k)" if "k < length (w_threads w)" for k
    by (rule thread_ok_stable[OF assms(3) world_okD(2)[OF assms(1) that]]) auto
  then show ?thesis using assms(2,4) world_okD(3,4)[OF assms(1)] unfolding world_ok_def by auto
qed

text \<open>A thread changes where it is.\<close>

lemma owns_running: "thread_ok r th \<Longrightarrow> owns th = Some i \<Longrightarrow> i \<in> running r"
  by (cases th) (auto simp: ending_def running_def)

lemma world_thread:
  assumes w: "world_ok w" and k: "k < length (w_threads w)" and n: "counters_ok n (w_registry w)" "int n < MaxInt64"
    and step: "thread_step (w_registry w) (w_threads w ! k) = Some (r', th')"
  shows "world_ok (w\<lparr>w_registry := r', w_threads := (w_threads w)[k := th']\<rparr>)"
proof -
  let ?r = "w_registry w" and ?ths = "w_threads w" and ?th = "w_threads w ! k"
  have s: "section_ok ?r ?th r' th'" by (rule thread_sections[OF world_okD(1)[OF w] world_okD(2)[OF w k] step])
  have run: "i \<in> running ?r \<or> owns th' = Some i" if "i \<in> running r'" for i
    using thread_counters[OF world_okD(2)[OF w k] n step] that by blast
  have fresh: "owns (?ths ! l) \<noteq> Some i" if "owns th' = Some i" "l < length ?ths" "l \<noteq> k" for i l
  proof
    assume l: "owns (?ths ! l) = Some i"
    then have "i \<in> running ?r" using owns_running[OF world_okD(2)[OF w that(2)]] by simp
    then have "owns ?th = Some i" using s that(1) by (auto simp: section_ok_def running_def)
    then show False using world_okD(3)[OF w k that(2)] l that(3) by blast
  qed
  have stable: "thread_ok r' (?ths ! l)" if "l < length ?ths" "l \<noteq> k" for l
  proof (rule thread_ok_stable)
    show "advance (owns ?th) ?r r'" using s by (simp add: section_ok_def)
    show "thread_ok ?r (?ths ! l)" by (rule world_okD(2)[OF w that(1)])
    show "owns (?ths ! l) = None \<or> owns (?ths ! l) \<noteq> owns ?th"
      using world_okD(3)[OF w that(1) k] that(2) by (cases "owns (?ths ! l)") auto
  qed
  have owner: "\<exists>l < length ?ths. owns (?ths[k := th'] ! l) = Some i" if i: "i \<in> running r'" for i
  proof (cases "owns th' = Some i")
    case True
    then show ?thesis using k by (intro exI[of _ k]) simp
  next
    case False
    then obtain l where l: "l < length ?ths" "owns (?ths ! l) = Some i" using run[OF i] world_okD(4)[OF w] by blast
    have "l \<noteq> k"
      using s l False i by (auto simp: section_ok_def running_def)
    then show ?thesis using l by (intro exI[of _ l]) simp
  qed
  have "owns (?ths[k := th'] ! a) = Some i \<Longrightarrow> owns (?ths[k := th'] ! b) = Some i \<Longrightarrow> a = b"
    if "a < length ?ths" "b < length ?ths" for a b i
    using fresh[of i a] fresh[of i b] world_okD(3)[OF w that] that k by (auto simp: nth_list_update split: if_splits)
  then show ?thesis
    using s stable owner k by (auto simp: world_ok_def section_ok_def nth_list_update)
qed

lemma world_call:
  assumes "world_ok w" "thread_ok (w_registry w) th" "owns th = None"
  shows "world_ok (w\<lparr>w_threads := w_threads w @ [th]\<rparr>)"
  using assms world_okD[OF assms(1)] unfolding world_ok_def
  by (auto simp: nth_append less_Suc_eq) (metis (no_types, lifting) less_Suc_eq)+

lemma world_expire:
  assumes "world_ok w" "k < length (w_threads w)" "expire_step (w_threads w ! k) = Some th'"
  shows "world_ok (w\<lparr>w_threads := (w_threads w)[k := th']\<rparr>)"
proof -
  have o: "owns (w_threads w ! k) = None" "owns th' = None" "thread_ok (w_registry w) th'"
    using assms(3) by (cases "w_threads w ! k"; auto)+
  have "\<exists>l < length (w_threads w). owns ((w_threads w)[k := th'] ! l) = Some i" if if_running: "i \<in> running (w_registry w)" for i
  proof -
    obtain l where "l < length (w_threads w)" "owns (w_threads w ! l) = Some i" using world_okD(4)[OF assms(1) if_running] by blast
    then show ?thesis using o(1) by (intro exI[of _ l]) (cases "l = k"; simp)
  qed
  then show ?thesis
    using world_okD(1-3)[OF assms(1)] o assms(2) by (auto simp: world_ok_def nth_list_update split: if_splits)
qed

lemma callable_ok: "callable r th \<Longrightarrow> thread_ok r th \<and> owns th = None"
  by (cases th) (auto simp: has_key_iff dest: weak_map_of_SomeI)

lemma world_step_ok:
  assumes "world_step w w'" "world_ok w" "counters_ok n (w_registry w)" "int n < MaxInt64"
  shows "world_ok w' \<and> counters_ok (Suc n) (w_registry w')"
  using assms(1)
proof cases
  case (call th)
  then show ?thesis using world_call[OF assms(2)] callable_ok counters_mono[OF assms(3)] by auto
next
  case (thread k r' th')
  then show ?thesis
    using world_thread[OF assms(2) thread(2) assms(3,4) thread(3)] thread_counters[OF world_okD(2)[OF assms(2) thread(2)] assms(3,4) thread(3)]
    by simp
next
  case (expire k th')
  then show ?thesis using world_expire[OF assms(2)] counters_mono[OF assms(3)] by simp
next
  case (closer i)
  then obtain s where s: "map_of (rg_heap (w_registry w)) i = Some s" "sc_closeDone s = Some False"
    by (auto simp: has_key_iff dest: weak_map_of_SomeI)
  then show ?thesis
    using closer closer_sets[OF world_okD(1)[OF assms(2)] s, of None] closer_counters[OF assms(3) s(1)] world_section[OF assms(2)] by simp
next
  case begin_dispatch
  note b = begin_counters[OF assms(3,4)]
  have "running (snd (BeginDispatch (w_registry w))) = running (w_registry w)" by (simp add: BeginDispatch_def running_def Let_def)
  then show ?thesis using begin_dispatch b begin_sets[OF world_okD(1)[OF assms(2)], of None] world_section[OF assms(2)] by simp
next
  case (end_dispatch i)
  then show ?thesis
    using end_dispatch_counters[OF assms(3), of i] end_dispatch_sets[OF world_okD(1)[OF assms(2)], of i None] world_section[OF assms(2)] by simp
next
  case (install i spec)
  then show ?thesis
    using install_counters[OF world_okD(1)[OF assms(2)] assms(3), of i spec] install_sets[OF world_okD(1)[OF assms(2)], of i spec None]
      world_section[OF assms(2)] by simp
next
  case (bind_resource i closeFn)
  then show ?thesis
    using bind_counters[OF assms(3), of i closeFn] bind_sets[OF world_okD(1)[OF assms(2)], of i closeFn None] world_section[OF assms(2)] by simp
next
  case (observe revision)
  then show ?thesis
    using observe_counters[OF assms(3), of revision] observe_sets[OF world_okD(1)[OF assms(2)], of revision None] world_section[OF assms(2)] by simp
next
  case freeze
  then show ?thesis
    using freeze_counters[OF assms(3,4)] freeze_sets[OF world_okD(1)[OF assms(2)], of None] world_section[OF assms(2)] by simp
qed

lemma start_ok: "world_ok start \<and> counters_ok 0 (w_registry start)"
  by (simp add: start_def New_def world_ok_def registry_ok_def counters_ok_def running_def released_def all_settled_def)

lemma runs_ok: "runs w m w' \<Longrightarrow> world_ok w \<Longrightarrow> counters_ok n (w_registry w) \<Longrightarrow> int (n + m) \<le> MaxInt64 \<Longrightarrow>
   world_ok w' \<and> counters_ok (n + m) (w_registry w')"
proof (induction rule: runs.induct)
  case (more w m w' w'')
  then show ?case using world_step_ok[OF more.hyps(2), of "n + m"] by simp
qed simp

lemma reachable_ok: "runs start n w \<Longrightarrow> int n \<le> MaxInt64 \<Longrightarrow> world_ok w \<and> counters_ok n (w_registry w)"
  using runs_ok[of start n w 0] start_ok by simp

end
