(* ===== verification/RegistryClaims.thy ===== *)
theory RegistryClaims
  imports RegistryWorld
begin

text \<open>
  The properties of the execution registry over all runs: shutdown closes everything, releases are counted exactly,
  a waiting \<open>Drain\<close> is never forgotten, and a barrier is published only after the dispatches it covers.
\<close>

section \<open>Playing a run\<close>

text \<open>A run given by its actions; \<open>plays\<close> computes the world it leads to.\<close>

datatype Action =
    Call Thread
  | Run nat
  | Expire nat
  | Closer int
  | Begin
  | EndDispatch int
  | InstallScope int ScopeSpec
  | BindResource int "nat option"
  | Observe int
  | TakeFreeze

fun play :: "Action \<Rightarrow> World \<Rightarrow> World option" where
  "play (Call th) w = (if callable (w_registry w) th then Some (w\<lparr>w_threads := w_threads w @ [th]\<rparr>) else None)"
| "play (Run k) w =
     (if k < length (w_threads w)
      then (case thread_step (w_registry w) (w_threads w ! k) of
              Some (r', th') \<Rightarrow> Some (w\<lparr>w_registry := r', w_threads := (w_threads w)[k := th']\<rparr>) | None \<Rightarrow> None)
      else None)"
| "play (Expire k) w =
     (if k < length (w_threads w)
      then (case expire_step (w_threads w ! k) of Some th' \<Rightarrow> Some (w\<lparr>w_threads := (w_threads w)[k := th']\<rparr>) | None \<Rightarrow> None)
      else None)"
| "play (Closer i) w =
     (if has_key (rg_heap (w_registry w)) i \<and> sc_closeDone (scope_of (w_registry w) i) = Some False
      then Some (w\<lparr>w_registry := closer_step i (w_registry w)\<rparr>) else None)"
| "play Begin w = Some (w\<lparr>w_registry := snd (BeginDispatch (w_registry w))\<rparr>)"
| "play (EndDispatch i) w = Some (w\<lparr>w_registry := PendingDispatch_End i (w_registry w)\<rparr>)"
| "play (InstallScope i spec) w = Some (w\<lparr>w_registry := snd (Install i spec (w_registry w))\<rparr>)"
| "play (BindResource i closeFn) w = Some (w\<lparr>w_registry := snd (Bind i closeFn (w_registry w))\<rparr>)"
| "play (Observe revision) w = Some (w\<lparr>w_registry := ObserveBarrier revision (w_registry w)\<rparr>)"
| "play TakeFreeze w = Some (w\<lparr>w_registry := snd (FreezeInFlight (w_registry w))\<rparr>)"

fun plays :: "Action list \<Rightarrow> World \<Rightarrow> World option" where
  "plays [] w = Some w"
| "plays (a # as) w = (case play a w of Some w' \<Rightarrow> plays as w' | None \<Rightarrow> None)"

lemma play_step: "play a w = Some w' \<Longrightarrow> world_step w w'"
  by (cases a) (auto intro: world_step.intros split: if_splits option.splits)

lemma runs_trans: "runs w m w' \<Longrightarrow> runs v n w \<Longrightarrow> runs v (n + m) w'"
  by (induction rule: runs.induct) (auto intro: runs.more)

lemma plays_runs: "plays as w = Some w' \<Longrightarrow> runs w (length as) w'"
proof (induction "as" arbitrary: w)
  case (Cons a "as")
  then obtain w1 where w1: "play a w = Some w1" "runs w1 (length as) w'" by (auto split: option.splits)
  then have "runs w 1 w1" using runs.more[OF runs.none play_step] by fastforce
  then show ?case using runs_trans[OF w1(2), of w 1] by simp
qed (simp add: runs.none)

section \<open>Shutdown\<close>

lemma world_step_advance:
  assumes "world_step w w'" "world_ok w" "counters_ok n (w_registry w)" "int n < MaxInt64"
  shows "\<exists>own. advance own (w_registry w) (w_registry w')"
  using assms(1)
proof cases
  case (thread k r' th')
  then show ?thesis
    using thread_sections[OF world_okD(1)[OF assms(2)] world_okD(2)[OF assms(2)]] by (fastforce simp: section_ok_def)
next
  case (closer i)
  then obtain s where "map_of (rg_heap (w_registry w)) i = Some s" "sc_closeDone s = Some False"
    by (auto simp: has_key_iff dest: weak_map_of_SomeI)
  then show ?thesis using closer closer_sets[OF world_okD(1)[OF assms(2)]] by auto
next
  case begin_dispatch
  then show ?thesis using begin_sets[OF world_okD(1)[OF assms(2)]] begin_counters[OF assms(3,4)] by auto
qed (use advance_refl end_dispatch_sets install_sets bind_sets observe_sets freeze_sets world_okD(1)[OF assms(2)] in
      \<open>auto intro!: exI[of _ None]\<close>)

lemma bound_stays:
  assumes "runs w k w'" "world_ok w" "counters_ok n (w_registry w)" "int (n + k) \<le> MaxInt64"
    and "map_of (rg_heap (w_registry w)) i = Some s" "sc_bound s = Some f"
  shows "\<exists>t. map_of (rg_heap (w_registry w')) i = Some t \<and> sc_bound t = Some f"
  using assms
proof (induction rule: runs.induct)
  case (more w k w' w'')
  then obtain t where t: "map_of (rg_heap (w_registry w')) i = Some t" "sc_bound t = Some f" by auto
  have "world_ok w' \<and> counters_ok (n + k) (w_registry w')" using runs_ok[OF more.hyps(1) more.prems(1,2)] more.prems(3) by simp
  then obtain own where "advance own (w_registry w') (w_registry w'')"
    using world_step_advance[OF more.hyps(2), of "n + k"] more.prems(3) by auto
  from advance_scope[OF this t(1)] t(2) show ?case by (auto simp: scope_advance_def)
qed auto

lemma bind_bound:
  assumes "fst (Bind i (Some f) r) = None"
  shows "\<exists>s. map_of (rg_heap (snd (Bind i (Some f) r))) i = Some s \<and> sc_bound s = Some f"
  using assms by (auto simp: Bind_def modify_get split: if_splits)

text \<open>C25. When \<open>Drain\<close> has returned without an error, or \<open>Close\<close> has returned, in whatever way the two and all other
  users of the registry were interleaved: the registry is closed, every resource that was bound to a scope has been
  closed exactly once and no other close function has been called, so that what a \<open>Bind\<close> accepted at any moment
  before has been closed, and nothing can be dispatched, installed or bound any more.\<close>

theorem shutdown_closes_all:
  assumes "runs start n w" "int n \<le> MaxInt64" "CloseReturned \<in> set (w_threads w) \<or> DrainReturned None \<in> set (w_threads w)"
  shows "rg_state (w_registry w) = StateClosed \<and>
    (\<forall>i s. map_of (rg_heap (w_registry w)) i = Some s \<longrightarrow>
       sc_closeFn s = None \<and> sc_closed s = (case sc_bound s of None \<Rightarrow> [] | Some f \<Rightarrow> [f])) \<and>
    (\<forall>m k v i f. runs start m v \<and> fst (Bind i (Some f) (w_registry v)) = None \<and>
       runs (v\<lparr>w_registry := snd (Bind i (Some f) (w_registry v))\<rparr>) k w \<and> int (m + k) < MaxInt64 \<longrightarrow>
       sc_closed (scope_of (w_registry w) i) = [f]) \<and>
    (\<forall>i closeFn spec. fst (BeginDispatch (w_registry w)) = Inl ErrRegistryNotAccepting \<and>
       isl (fst (Install i spec (w_registry w))) \<and> fst (Bind i closeFn (w_registry w)) \<noteq> None)"
proof -
  let ?r = "w_registry w"
  note ok = conjunct1[OF reachable_ok[OF assms(1,2)]]
  obtain th where th: "thread_ok ?r th" "th = CloseReturned \<or> th = DrainReturned None"
    using assms(3) world_okD(2)[OF ok] by (metis in_set_conv_nth)
  have all: "all_settled ?r"
    using th outside_settled[OF world_okD(1)[OF ok]] by (auto simp: all_settled_def)
  have closed_all: "sc_closeFn s = None \<and> sc_closed s = (case sc_bound s of None \<Rightarrow> [] | Some f \<Rightarrow> [f])"
    if "map_of (rg_heap ?r) i = Some s" for i s
  proof -
    have "settled s" using all that unfolding all_settled_def by blast
    then show ?thesis
      using registry_okD(4)[OF world_okD(1)[OF ok] that] by (cases "sc_closeDone s") (auto simp: settled_def scope_ok_def)
  qed
  have "sc_closed (scope_of ?r i) = [f]"
    if v: "runs start m v" "fst (Bind i (Some f) (w_registry v)) = None" "int (m + k) < MaxInt64"
      and k: "runs (v\<lparr>w_registry := snd (Bind i (Some f) (w_registry v))\<rparr>) k w" for m k v i f
  proof -
    let ?v = "v\<lparr>w_registry := snd (Bind i (Some f) (w_registry v))\<rparr>"
    have "runs start (Suc m) ?v" by (rule runs.more[OF v(1) world_step.bind_resource])
    then have "world_ok ?v \<and> counters_ok (Suc m) (w_registry ?v)" using v(3) by (intro reachable_ok) auto
    moreover obtain s where "map_of (rg_heap (w_registry ?v)) i = Some s" "sc_bound s = Some f" using bind_bound[OF v(2)] by auto
    ultimately obtain t where "map_of (rg_heap ?r) i = Some t" "sc_bound t = Some f"
      using bound_stays[OF k, of "Suc m" i s f] v(3) by auto
    then show ?thesis using closed_all by fastforce
  qed
  then show ?thesis using closed_all all by (auto simp: all_settled_def BeginDispatch_def Install_def Bind_def)
qed

text \<open>One dispatch is installed and bound; a \<open>Drain\<close> closes its resource, waits, and returns after the scope has
  been ended by its owner.\<close>

definition wit_spec :: ScopeSpec where
  "wit_spec = \<lparr>sp_RequestID = ''r'', sp_CredentialID = ''c'', sp_Model = ''m'', sp_Kind = ''http'', sp_StartedAt = 5, sp_Accounted = True\<rparr>"

definition wit_actions :: "Action list" where
  "wit_actions = [Begin, InstallScope 1 wit_spec, BindResource 1 (Some 7), Call DrainCalled, Run 0, Run 0, Run 0, Run 0, Run 0,
     Call (EndCalled 1), Run 1, Run 1, Run 1, Closer 1, Run 1, Run 1, Run 1, Run 1, Run 1, Run 0, Run 0]"

fun drained :: "Thread \<Rightarrow> bool" where
  "drained (DrainReturned None) = True"
| "drained _ = False"

lemma drained_iff: "drained th \<longleftrightarrow> th = DrainReturned None"
  by (cases th rule: drained.cases) simp_all

lemma wit_run:
  "(case plays wit_actions start of
      Some w \<Rightarrow> list_ex drained (w_threads w) \<and> map_get 0 (rg_releaseSequences (w_registry w)) (release_group wit_spec) = 1
    | None \<Rightarrow> False) \<and> length wit_actions = 21"
  by code_simp

lemma wit_bind:
  "case plays (take 2 wit_actions) start of Some v \<Rightarrow> fst (Bind 1 (Some 7) (w_registry v)) = None | None \<Rightarrow> False"
  by code_simp

lemma wit_split:
  "wit_actions = take 2 wit_actions @ BindResource 1 (Some 7) # drop 3 wit_actions" "length (drop 3 wit_actions) = 18"
  by (simp_all add: wit_actions_def)

lemma plays_append: "plays (as @ bs) w = (case plays as w of Some v \<Rightarrow> plays bs v | None \<Rightarrow> None)"
  by (induction "as" arbitrary: w) (auto split: option.split)

theorem shutdown_closes_all_witness:
  "\<exists>w. runs start 21 w \<and> DrainReturned None \<in> set (w_threads w) \<and> rg_state (w_registry w) = StateClosed \<and>
     sc_closed (scope_of (w_registry w) 1) = [7]"
proof -
  obtain w where w: "plays wit_actions start = Some w" "list_ex drained (w_threads w)" using wit_run by (auto split: option.splits)
  have r: "runs start 21 w" using plays_runs[OF w(1)] wit_run by simp
  have d: "DrainReturned None \<in> set (w_threads w)" using w(2) by (auto simp: list_ex_iff drained_iff)
  obtain v where v: "plays (take 2 wit_actions) start = Some v" "fst (Bind 1 (Some 7) (w_registry v)) = None"
    using wit_bind by (auto split: option.splits)
  have "plays (drop 3 wit_actions) (v\<lparr>w_registry := snd (Bind 1 (Some 7) (w_registry v))\<rparr>) = Some w"
    using w(1)[unfolded arg_cong[OF wit_split(1), of plays]] v(1) by (simp add: plays_append)
  from plays_runs[OF this] have k: "runs (v\<lparr>w_registry := snd (Bind 1 (Some 7) (w_registry v))\<rparr>) 18 w"
    unfolding wit_split(2) .
  have m: "runs start 2 v" using plays_runs[OF v(1)] by (simp add: wit_actions_def numeral_2_eq_2)
  have "int 21 \<le> MaxInt64" "int (2 + 18) < MaxInt64" by (simp_all add: MaxInt64_def)
  note c = shutdown_closes_all[OF r this(1) disjI2[OF d]] and n = this(2)
  have "sc_closed (scope_of (w_registry w) 1) = [7]"
    by (rule c[THEN conjunct2, THEN conjunct2, THEN conjunct1, rule_format, of 2 v 1 7 18]) (intro conjI m v(2) k n)
  then show ?thesis using r d c by blast
qed

section \<open>Releases\<close>

text \<open>C26. Releases are counted exactly: the sequence of a group is the number of its accounted scopes whose end has been
  counted, no scope is counted twice or before its resource has been closed, and no scope leaves the registry uncounted.\<close>

theorem release_counts_exact:
  assumes "runs start n w" "int n \<le> MaxInt64"
  shows "map_get 0 (rg_releaseSequences (w_registry w)) grp =
      int (card {i. \<exists>s. map_of (rg_heap (w_registry w)) i = Some s \<and> sp_Accounted (sc_spec s) \<and>
                       release_group (sc_spec s) = grp \<and> sc_releases s = 1}) \<and>
    (\<forall>i s. map_of (rg_heap (w_registry w)) i = Some s \<longrightarrow> sc_releases s \<le> 1 \<and>
       (sc_releases s = 1 \<longrightarrow> sc_closeFn s = None \<and> sc_closeDone s \<noteq> Some False) \<and>
       (i \<notin> set (rg_scopes (w_registry w)) \<longrightarrow> sc_releases s = 1))"
proof -
  let ?r = "w_registry w"
  note ok = conjunct1[OF reachable_ok[OF assms]] and counters = conjunct2[OF reachable_ok[OF assms]]
  have "sc_releases s \<le> 1 \<and> (sc_releases s = 1 \<longrightarrow> settled s) \<and> (i \<notin> set (rg_scopes ?r) \<longrightarrow> sc_releases s = 1)"
    if s: "map_of (rg_heap ?r) i = Some s" for i s
  proof -
    note sok = registry_okD(4)[OF world_okD(1)[OF ok] s]
    have "settled s" if running: "sc_ended s = OnceRunning" and one: "sc_releases s = 1"
    proof -
      have "i \<in> running ?r" using s running by (simp add: running_def)
      then obtain k where k: "k < length (w_threads w)" "owns (w_threads w ! k) = Some i" using world_okD(4)[OF ok] by blast
      show ?thesis
        using world_okD(2)[OF ok k(1)] k(2) s one by (cases "w_threads w ! k") (auto simp: ending_def quiet_def)
    qed
    then have "sc_releases s = 1 \<longrightarrow> settled s" using sok by (cases "sc_ended s") (auto simp: scope_ok_def settled_def)
    moreover have "sc_releases s = 1" if "i \<notin> set (rg_scopes ?r)"
      using that s sok registry_okD(3)[OF world_okD(1)[OF ok], of i] by (auto simp: scope_ok_def)
    ultimately show ?thesis using sok by (simp add: scope_ok_def)
  qed
  then show ?thesis using counters by (auto simp: counters_ok_def released_def settled_def)
qed

theorem release_counts_exact_witness:
  "\<exists>w. runs start 21 w \<and> map_get 0 (rg_releaseSequences (w_registry w)) (release_group wit_spec) = 1 \<and>
    int (card {i. \<exists>s. map_of (rg_heap (w_registry w)) i = Some s \<and> sp_Accounted (sc_spec s) \<and>
                       release_group (sc_spec s) = release_group wit_spec \<and> sc_releases s = 1}) = 1"
proof -
  obtain w where w: "plays wit_actions start = Some w" "map_get 0 (rg_releaseSequences (w_registry w)) (release_group wit_spec) = 1"
    using wit_run by (auto split: option.splits)
  have r: "runs start 21 w" using plays_runs[OF w(1)] wit_run by simp
  then show ?thesis using release_counts_exact[OF r, of "release_group wit_spec"] w(2) by (auto simp: MaxInt64_def)
qed

section \<open>Progress\<close>

text \<open>C27. A wake-up is never lost: whenever a waiting \<open>Drain\<close> cannot move, there is a dispatch still to be resolved, a scope
  whose owner has not begun to end it, a resource whose close function is still running, or a thread that ends a
  scope and can move.\<close>

theorem drain_not_stuck:
  assumes "runs start n w" "int n \<le> MaxInt64"
    and "k < length (w_threads w)" "w_threads w ! k = DrainWait seen" "thread_step (w_registry w) (w_threads w ! k) = None"
  shows "rg_pending (w_registry w) \<noteq> [] \<or>
    (\<exists>i s. map_of (rg_heap (w_registry w)) i = Some s \<and> (sc_ended s = OnceNew \<or> sc_closeDone s = Some False)) \<or>
    (\<exists>l < length (w_threads w). owns (w_threads w ! l) \<noteq> None \<and> thread_step (w_registry w) (w_threads w ! l) \<noteq> None)"
proof -
  let ?r = "w_registry w"
  note ok = conjunct1[OF reachable_ok[OF assms(1,2)]]
  have "rg_changed ?r = seen" using assms(4,5) by (auto simp: thread_step_def split: if_splits)
  then have "rg_pending ?r \<noteq> [] \<or> rg_scopes ?r \<noteq> []" using world_okD(2)[OF ok assms(3)] assms(4) by auto
  then consider "rg_pending ?r \<noteq> []" | i where "i \<in> set (rg_scopes ?r)" by (cases "rg_scopes ?r") auto
  then show ?thesis
  proof cases
    case 2
    then obtain s where s: "map_of (rg_heap ?r) i = Some s" "sc_ended s \<noteq> OnceDone"
      using registry_okD(3)[OF world_okD(1)[OF ok]] by blast
    show ?thesis
    proof (cases "sc_ended s = OnceRunning \<and> sc_closeDone s \<noteq> Some False")
      case True
      then have "i \<in> running ?r" using s by (simp add: running_def)
      then obtain l where l: "l < length (w_threads w)" "owns (w_threads w ! l) = Some i" using world_okD(4)[OF ok] by blast
      have "end_step ?r (w_threads w ! l) \<noteq> None"
        using l(2) world_okD(2)[OF ok l(1)] s True by (cases "w_threads w ! l") (auto simp: Let_def split: prod.splits option.splits)
      then have "thread_step ?r (w_threads w ! l) \<noteq> None" by (auto simp: thread_step_def split: option.splits)
      then show ?thesis using l by blast
    next
      case False
      then show ?thesis using s by (cases "sc_ended s") auto
    qed
  qed blast
qed

lemma wit_wait:
  "(case plays (take 9 wit_actions) start of
      Some w \<Rightarrow> length (w_threads w) = 1 \<and> (case w_threads w ! 0 of DrainWait seen \<Rightarrow> seen = 1 | _ \<Rightarrow> False) \<and>
        rg_changed (w_registry w) = 1 \<and> rg_pending (w_registry w) = []
    | None \<Rightarrow> False) \<and> length (take 9 wit_actions) = 9"
  by code_simp

theorem drain_not_stuck_witness:
  "\<exists>w. runs start 9 w \<and> w_threads w = [DrainWait 1] \<and>
    (\<exists>i s. map_of (rg_heap (w_registry w)) i = Some s \<and> (sc_ended s = OnceNew \<or> sc_closeDone s = Some False))"
proof -
  obtain w where w: "plays (take 9 wit_actions) start = Some w" "length (w_threads w) = 1" "rg_changed (w_registry w) = 1"
      "rg_pending (w_registry w) = []" "w_threads w ! 0 = DrainWait 1"
    using wit_wait by (auto split: option.splits Thread.splits)
  have r: "runs start 9 w" using plays_runs[OF w(1)] wit_wait by simp
  have one: "w_threads w = [DrainWait 1]" using w(2,5) by (cases "w_threads w") auto
  have "thread_step (w_registry w) (w_threads w ! 0) = None" using w(3,5) by (simp add: thread_step_def)
  then show ?thesis using drain_not_stuck[OF r _ _ w(5)] one r w(4) by (auto simp: MaxInt64_def)
qed

section \<open>Barriers\<close>

text \<open>What keeps a barrier from being published too early: as long as dispatch \<open>i\<close> is pending, the barrier is observed
  and not published.\<close>

definition barrier_ok :: "int \<Rightarrow> int \<Rightarrow> Registry \<Rightarrow> bool" where
  "barrier_ok b i r \<longleftrightarrow> i \<le> rg_next r \<and>
     (i \<in> set (rg_pending r) \<longrightarrow> rg_publishedBarrier r < b \<and> b \<le> rg_observedBarrier r \<and> i \<le> rg_pendingBarrierSequence r)"

lemma barrier_step:
  assumes "world_step w w'" "counters_ok n (w_registry w)" "int n < MaxInt64" "barrier_ok b i (w_registry w)"
  shows "barrier_ok b i (w_registry w')"
  using assms(1)
proof cases
  case (thread k r' th')
  then show ?thesis using thread_dispatches[OF thread(3)] assms(4) by (simp add: barrier_ok_def same_dispatches_def)
next
  case begin_dispatch
  have "uint64 (rg_next (w_registry w) + 1) = rg_next (w_registry w) + 1"
    using assms(2,3) by (intro uint64_small) (auto simp: counters_ok_def)
  then show ?thesis using begin_dispatch assms(4) by (auto simp: barrier_ok_def BeginDispatch_def Let_def)
next
  case freeze
  then show ?thesis using assms(4) by (auto simp: barrier_ok_def FreezeInFlight_def Let_def list_ex_iff)
qed (use assms(4) in \<open>auto simp: barrier_ok_def closer_step_def PendingDispatch_End_def Install_def Bind_def ObserveBarrier_def
      signalLocked_def resolve_token_def Let_def\<close>)

lemma barrier_runs: "runs w m w' \<Longrightarrow> world_ok w \<Longrightarrow> counters_ok n (w_registry w) \<Longrightarrow> int (n + m) \<le> MaxInt64 \<Longrightarrow>
   barrier_ok b i (w_registry w) \<Longrightarrow> barrier_ok b i (w_registry w')"
proof (induction rule: runs.induct)
  case (more w m w' w'')
  then have "counters_ok (n + m) (w_registry w')" using runs_ok[OF more.hyps(1)] by simp
  then show ?case using barrier_step[OF more.hyps(2)] more by simp
qed

text \<open>C28. A barrier waits for the dispatches it covers: when a snapshot reports a barrier, every dispatch that was unresolved
  when the barrier was observed has been installed or ended, so that the snapshot shows it if it runs.\<close>

theorem barrier_waits:
  assumes "runs start n w" "i \<in> set (rg_pending (w_registry w))" "rg_observedBarrier (w_registry w) < b" "0 < b"
    and "runs (w\<lparr>w_registry := ObserveBarrier b (w_registry w)\<rparr>) m w'" "int (n + m) < MaxInt64"
    and "b \<le> fz_BarrierRevision (fst (FreezeInFlight (w_registry w')))"
  shows "i \<notin> set (rg_pending (w_registry w'))"
proof
  let ?w = "w\<lparr>w_registry := ObserveBarrier b (w_registry w)\<rparr>"
  assume pending: "i \<in> set (rg_pending (w_registry w'))"
  have ok: "world_ok w" "counters_ok n (w_registry w)" using reachable_ok[OF assms(1)] assms(6) by auto
  have later: "world_ok ?w \<and> counters_ok (Suc n) (w_registry ?w)"
    using world_step_ok[OF world_step.observe ok] assms(6) by simp
  have "map_of (rg_tokens (w_registry w)) i \<noteq> None" using registry_okD(1)[OF world_okD(1)[OF ok(1)], of i] assms(2) by simp
  then have "i \<le> rg_next (w_registry w)" using ok(2) unfolding counters_ok_def by blast
  then have "barrier_ok b i (w_registry ?w)"
    using assms(3,4) ok(2) by (auto simp: barrier_ok_def ObserveBarrier_def counters_ok_def)
  then have "barrier_ok b i (w_registry w')"
    using barrier_runs[OF assms(5), of "Suc n"] later assms(6) by simp
  then show False
    using pending assms(7) by (auto simp: barrier_ok_def FreezeInFlight_def Let_def list_ex_iff split: if_splits)
qed

definition wit_after :: "Action list" where
  "wit_after = [TakeFreeze, InstallScope 1 wit_spec]"

lemma wit_barrier:
  "(case plays [Begin] start of
      Some w \<Rightarrow> 1 \<in> set (rg_pending (w_registry w)) \<and> rg_observedBarrier (w_registry w) < 4 \<and>
        (case plays wit_after (w\<lparr>w_registry := ObserveBarrier 4 (w_registry w)\<rparr>) of
           Some w' \<Rightarrow> rg_publishedBarrier (w_registry w') = 0 \<and> 4 \<le> fz_BarrierRevision (fst (FreezeInFlight (w_registry w')))
         | None \<Rightarrow> False)
    | None \<Rightarrow> False)"
  by code_simp

theorem barrier_waits_witness:
  "\<exists>w w'. runs start 1 w \<and> 1 \<in> set (rg_pending (w_registry w)) \<and>
     runs (w\<lparr>w_registry := ObserveBarrier 4 (w_registry w)\<rparr>) 2 w' \<and> 1 \<notin> set (rg_pending (w_registry w'))"
proof -
  obtain w w' where w: "plays [Begin] start = Some w" "1 \<in> set (rg_pending (w_registry w))" "rg_observedBarrier (w_registry w) < 4"
      "plays wit_after (w\<lparr>w_registry := ObserveBarrier 4 (w_registry w)\<rparr>) = Some w'"
      "4 \<le> fz_BarrierRevision (fst (FreezeInFlight (w_registry w')))"
    using wit_barrier by (auto simp del: plays.simps split: option.splits)
  have r: "runs start 1 w" "runs (w\<lparr>w_registry := ObserveBarrier 4 (w_registry w)\<rparr>) 2 w'"
    using plays_runs[OF w(1)] plays_runs[OF w(4)] by (simp_all add: wit_after_def numeral_2_eq_2)
  then show ?thesis using barrier_waits[OF r(1) w(2,3) _ r(2) _ w(5)] w(2) by (auto simp: MaxInt64_def)
qed

end
