(* ===== verification/HomeConcurrency.thy ===== *)
theory HomeConcurrency
  imports Suffix ExecutionRegistry
begin

text \<open>
  The keys under which a Home server limits concurrency, \<open>sdk/aps/auth/home_concurrency.go\<close>, and the split of a
  reasoning suffix in \<open>home_selection.go\<close>. A string is a list of bytes.
\<close>

section \<open>Strings\<close>

text \<open>\<open>utf8.ValidString\<close>: shortest encodings only, no surrogates, at most U+10FFFF.\<close>

definition cont_byte :: "char \<Rightarrow> bool" where
  "cont_byte c \<longleftrightarrow> 128 \<le> (of_char c :: nat) \<and> (of_char c :: nat) \<le> 191"

definition byte_in :: "nat \<Rightarrow> nat \<Rightarrow> char \<Rightarrow> bool" where
  "byte_in lo hi c \<longleftrightarrow> lo \<le> (of_char c :: nat) \<and> of_char c \<le> hi"

definition rune_len :: "string \<Rightarrow> nat option" where
  "rune_len s =
     (case s of
        [] \<Rightarrow> None
      | a # r \<Rightarrow>
          if byte_in 0 127 a then Some 1
          else if byte_in 194 223 a then (case r of b # _ \<Rightarrow> if cont_byte b then Some 2 else None | _ \<Rightarrow> None)
          else if byte_in 224 239 a then
            (case r of
               b # c # _ \<Rightarrow>
                 if byte_in (if a = CHR 0xE0 then 160 else 128) (if a = CHR 0xED then 159 else 191) b \<and> cont_byte c
                 then Some 3 else None
             | _ \<Rightarrow> None)
          else if byte_in 240 244 a then
            (case r of
               b # c # d # _ \<Rightarrow>
                 if byte_in (if a = CHR 0xF0 then 144 else 128) (if a = CHR 0xF4 then 143 else 191) b \<and> cont_byte c \<and> cont_byte d
                 then Some 4 else None
             | _ \<Rightarrow> None)
          else None)"

lemma rune_len_pos: "rune_len s = Some n \<Longrightarrow> 0 < n \<and> s \<noteq> []"
  by (auto simp: rune_len_def split: list.splits if_splits)

function ValidString :: "string \<Rightarrow> bool" where
  "ValidString s = (if s = [] then True else case rune_len s of None \<Rightarrow> False | Some n \<Rightarrow> ValidString (drop n s))"
  by auto
termination by (relation "measure length") (auto dest: rune_len_pos)

declare ValidString.simps [simp del]

definition asciiWhitespace :: string where
  "asciiWhitespace = [CHR '' '', CHR 0x09, CHR 0x0D, CHR 0x0A, CHR 0x0B, CHR 0x0C]"

text \<open>\<open>strings.Trim\<close> for a set of single bytes.\<close>

definition strings_Trim :: "string \<Rightarrow> string \<Rightarrow> string" where
  "strings_Trim s cutset = rev (dropWhile (\<lambda>c. c \<in> set cutset) (rev (dropWhile (\<lambda>c. c \<in> set cutset) s)))"

section \<open>Model keys\<close>

text \<open>The digits of a budget; \<open>None\<close> is the return in the loop.\<close>

fun suffixLoop :: "string \<Rightarrow> int \<Rightarrow> int option" where
  "suffixLoop [] parsed = Some parsed"
| "suffixLoop (c # value) parsed =
     (case digit_value c of
        None \<Rightarrow> None
      | Some d \<Rightarrow> let parsed' = parsed * 10 + d in if parsed' > 2147483647 then None else suffixLoop value parsed')"

definition recognizedHomeConcurrencySuffix :: "string \<Rightarrow> bool" where
  "recognizedHomeConcurrencySuffix value =
     (if value = ''-1'' then True
      else if ToLower value \<in> {''none'', ''auto'', ''minimal'', ''low'', ''medium'', ''high'', ''xhigh'', ''max''} then True
      else if value = [] \<or> length value > 10 then False
      else suffixLoop value 0 \<noteq> None)"

definition canonicalHomeConcurrencyModelKey :: "string \<Rightarrow> string" where
  "canonicalHomeConcurrencyModelKey model =
     (if \<not> ValidString model then []
      else let trimmed = ToLower (strings_Trim model asciiWhitespace)
           in if \<not> HasSuffix trimmed '')'' then trimmed
              else case last_index (CHR ''('') trimmed of
                     None \<Rightarrow> trimmed
                   | Some i \<Rightarrow>
                       if \<not> recognizedHomeConcurrencySuffix (take (length trimmed - 1 - (i + 1)) (drop (i + 1) trimmed)) then trimmed
                       else let base = strings_Trim (take i trimmed) asciiWhitespace
                            in if base = [] then trimmed else base)"

definition maxHomeConcurrencyTupleFieldLength :: nat where "maxHomeConcurrencyTupleFieldLength = 256"

definition validCanonicalHomeConcurrencyModelKey :: "string \<Rightarrow> string \<times> bool" where
  "validCanonicalHomeConcurrencyModelKey model =
     (let key = canonicalHomeConcurrencyModelKey model
      in (key, key \<noteq> [] \<and> ValidString key \<and> length key \<le> maxHomeConcurrencyTupleFieldLength))"

definition splitRecognizedHomeReasoningSuffix :: "string \<Rightarrow> string \<times> string" where
  "splitRecognizedHomeReasoningSuffix model0 =
     (let model = strings_Trim model0 asciiWhitespace
      in if \<not> HasSuffix model '')'' then (model, [])
         else case last_index (CHR ''('') model of
                None \<Rightarrow> (model, [])
              | Some i \<Rightarrow>
                  if \<not> recognizedHomeConcurrencySuffix (take (length model - 1 - (i + 1)) (drop (i + 1) model)) then (model, [])
                  else let base = strings_Trim (take i model) asciiWhitespace
                       in if base = [] then (model, []) else (base, drop i model))"

section \<open>Tuples\<close>

record homeConcurrencyTuple =
  hc_Accounted :: bool
  hc_CredentialID :: string
  hc_Model :: string

definition validHomeConcurrencyTupleField :: "string \<Rightarrow> bool" where
  "validHomeConcurrencyTupleField value \<longleftrightarrow>
     value \<noteq> [] \<and> ValidString value \<and> TrimSpace value = value \<and> length value \<le> maxHomeConcurrencyTupleFieldLength"

datatype home_error = ErrMalformedHomeConcurrencyTuple | RegistryError registry_error

definition validateAccountedHomeConcurrencyTuple :: "homeConcurrencyTuple \<Rightarrow> home_error option" where
  "validateAccountedHomeConcurrencyTuple tuple =
     (let (model, validModel) = validCanonicalHomeConcurrencyModelKey (hc_Model tuple)
      in if \<not> hc_Accounted tuple \<or> \<not> validHomeConcurrencyTupleField (hc_CredentialID tuple) \<or> \<not> validModel \<or>
            hc_Model tuple \<noteq> model
         then Some ErrMalformedHomeConcurrencyTuple else None)"

definition registry_result :: "(registry_error + int) \<times> Registry \<Rightarrow> (home_error + int) \<times> Registry" where
  "registry_result x = (case x of (Inl e, r) \<Rightarrow> (Inl (RegistryError e), r) | (Inr i, r) \<Rightarrow> (Inr i, r))"

definition installHomeConcurrencyScope ::
    "int \<Rightarrow> homeConcurrencyTuple \<Rightarrow> ScopeSpec \<Rightarrow> Registry \<Rightarrow> (home_error + int) \<times> Registry" where
  "installHomeConcurrencyScope pending tuple base r =
     (if \<not> hc_Accounted tuple then registry_result (Install pending (base\<lparr>sp_Accounted := False\<rparr>) r)
      else case validateAccountedHomeConcurrencyTuple tuple of
             Some e \<Rightarrow> (Inl e, r)
           | None \<Rightarrow>
               registry_result (Install pending
                 (base\<lparr>sp_CredentialID := hc_CredentialID tuple, sp_Model := hc_Model tuple, sp_Accounted := True\<rparr>) r))"

text \<open>The seconds of the header \<open>Retry-After\<close>; \<open>None\<close> is no header.\<close>

definition safeRetryAfterHeader :: "duration \<Rightarrow> int option" where
  "safeRetryAfterHeader retryAfter =
     (if retryAfter \<le> 0 then None
      else let seconds0 = go_div retryAfter Second;
               seconds = (if go_rem retryAfter Second \<noteq> 0 then seconds0 + 1 else seconds0)
           in Some (if seconds < 1 then 1 else seconds))"

section \<open>Facts\<close>

text \<open>The header never sends a client back too early, and at most a second too late.\<close>

lemma retry_after_covers:
  assumes "0 < d"
  shows "\<exists>s. safeRetryAfterHeader d = Some s \<and> d \<le> s * Second \<and> s * Second < d + Second"
proof -
  obtain q r where qr: "d div Second = q" "d mod Second = r" by simp
  have d: "d = q * Second + r" "0 \<le> q" "0 \<le> r" "r < Second"
    using assms qr by (auto simp: Second_def pos_imp_zdiv_nonneg_iff)
  have "go_div d Second = q" "go_rem d Second = r"
    using assms qr minus_mult_div_eq_mod[of d 1000000000] by (simp_all add: go_div_def go_rem_def Second_def)
  then show ?thesis using assms d by (auto simp: safeRetryAfterHeader_def Let_def Second_def)
qed

text \<open>What an accepted tuple is: its key is its own canonical form.\<close>

lemma valid_tuple: "validateAccountedHomeConcurrencyTuple t = None \<longleftrightarrow>
   hc_Accounted t \<and> validHomeConcurrencyTupleField (hc_CredentialID t) \<and> canonicalHomeConcurrencyModelKey (hc_Model t) = hc_Model t \<and>
   hc_Model t \<noteq> [] \<and> ValidString (hc_Model t) \<and> length (hc_Model t) \<le> 256"
  by (auto simp: validateAccountedHomeConcurrencyTuple_def validCanonicalHomeConcurrencyModelKey_def Let_def
      maxHomeConcurrencyTupleFieldLength_def)

text \<open>Only one suffix is removed: a key can have another one, and is then rejected as the model of a tuple.\<close>

lemma key_keeps_inner_suffix:
  "canonicalHomeConcurrencyModelKey ''m(high)(low)'' = ''m(high)'' \<and> canonicalHomeConcurrencyModelKey ''m(high)'' = ''m''"
  by code_simp

end
