(* ===== verification/InFlight.thy ===== *)
theory InFlight
  imports HomeConcurrency "HOL-Library.Product_Lexorder"
begin

text \<open>
  The frames of an in-flight snapshot, \<open>sdk/aps/auth/home_in_flight_publisher.go\<close> with the frame types of
  \<open>internal/home/requests.go\<close>: the aggregates and details of a frozen registry, and their distribution over frames of
  bounded size. The length of the JSON text of a frame is the parameter \<open>marshalled\<close> (\<open>None\<close> where \<open>json.Marshal\<close> fails).
  Times are instants, so \<open>UTC\<close> changes nothing. \<open>sort.Slice\<close> sorts by all the fields of an element, so elements it
  may order either way are equal, and it is \<open>sort_key\<close>.
\<close>

section \<open>Data\<close>

datatype InFlightFrameKind = InFlightFramePart | InFlightFrameOverflow

definition InFlightAccounted :: string where "InFlightAccounted = ''accounted''"
definition InFlightUnaccounted :: string where "InFlightUnaccounted = ''unaccounted''"

record InFlightAggregate =
  ia_CredentialID :: string
  ia_Model :: string
  ia_Status :: string
  ia_Count :: int

record InFlightRequestDetail =
  id_RequestID :: string
  id_CredentialID :: string
  id_Model :: string
  id_RequestKind :: string
  id_StartedAt :: go_time

record InFlightSnapshotFrame =
  if_Kind :: InFlightFrameKind
  if_Revision :: int
  if_ObservedAt :: go_time
  if_BarrierRevision :: int
  if_PartIndex :: "int option"
  if_PartCount :: "int option"
  if_DetailsTruncated :: bool
  if_Aggregates :: "InFlightAggregate list"
  if_Details :: "InFlightRequestDetail list"
  if_AggregateGroupCount :: int

record HomeInFlightPublisherConfig =
  pc_SnapshotInterval :: duration
  pc_MaxPartBytes :: int
  pc_MaxPartCount :: int
  pc_MaxRevisionBytes :: int
  pc_MaxAggregateGroups :: int
  pc_MaxDetails :: int
  pc_MaxStringBytes :: int

type_synonym frame_size = "InFlightSnapshotFrame \<Rightarrow> nat option"

text \<open>The key \<open>homeInFlightAggregateKey\<close>: credential, model, accounted.\<close>

type_synonym homeInFlightAggregateKey = "string \<times> string \<times> bool"

definition homeInFlightStatus :: "bool \<Rightarrow> string" where
  "homeInFlightStatus accounted = (if accounted then InFlightAccounted else InFlightUnaccounted)"

definition validHomeInFlightPublisherConfig :: "HomeInFlightPublisherConfig \<Rightarrow> bool" where
  "validHomeInFlightPublisherConfig cfg =
     (if pc_SnapshotInterval cfg \<le> 0 \<or> pc_MaxPartBytes cfg < 1024 \<or> pc_MaxPartCount cfg \<le> 0 \<or> pc_MaxPartCount cfg > 64 \<or>
         pc_MaxRevisionBytes cfg < pc_MaxPartBytes cfg \<or> pc_MaxRevisionBytes cfg > 16 * 1024 * 1024 \<or>
         pc_MaxAggregateGroups cfg \<le> 0 \<or> pc_MaxAggregateGroups cfg > 100000 \<or>
         pc_MaxDetails cfg < 0 \<or> pc_MaxDetails cfg > 10000 \<or>
         pc_MaxStringBytes cfg \<le> 0 \<or> pc_MaxStringBytes cfg > 256
      then False
      else go_div (pc_MaxRevisionBytes cfg + pc_MaxPartBytes cfg - 1) (pc_MaxPartBytes cfg) \<le> pc_MaxPartCount cfg)"

definition validHomeInFlightPublisherBounds :: "HomeInFlightPublisherConfig \<Rightarrow> bool" where
  "validHomeInFlightPublisherBounds cfg \<longleftrightarrow>
     pc_MaxPartBytes cfg > 0 \<and> pc_MaxPartCount cfg > 0 \<and> pc_MaxRevisionBytes cfg \<ge> pc_MaxPartBytes cfg \<and>
     pc_MaxAggregateGroups cfg > 0 \<and> pc_MaxDetails cfg \<ge> 0 \<and> pc_MaxStringBytes cfg > 0"

section \<open>Aggregates and details\<close>

definition homeInFlightObservationModel :: "Observation \<Rightarrow> string" where
  "homeInFlightObservationModel observation =
     (if ob_Accounted observation then ob_Model observation
      else case validCanonicalHomeConcurrencyModelKey (ob_Model observation) of
             (model, valid) \<Rightarrow> if valid then model else ''unknown'')"

definition observation_key :: "Observation \<Rightarrow> homeInFlightAggregateKey" where
  "observation_key observation =
     (ob_CredentialID observation, homeInFlightObservationModel observation, ob_Accounted observation)"

definition aggregateCounts :: "Observation list \<Rightarrow> (homeInFlightAggregateKey, int) go_map" where
  "aggregateCounts executions =
     fold (\<lambda>observation counts. AList.update (observation_key observation)
             (int64 (map_get 0 counts (observation_key observation) + 1)) counts) executions []"

definition aggregate_of :: "homeInFlightAggregateKey \<times> int \<Rightarrow> InFlightAggregate" where
  "aggregate_of entry =
     (case entry of ((credential, model, accounted), n) \<Rightarrow>
        \<lparr>ia_CredentialID = credential, ia_Model = model, ia_Status = homeInFlightStatus accounted, ia_Count = n\<rparr>)"

definition sorted_aggregates :: "(homeInFlightAggregateKey, int) go_map \<Rightarrow> InFlightAggregate list" where
  "sorted_aggregates counts =
     sort_key (\<lambda>a. (ia_CredentialID a, ia_Model a, ia_Status a)) (map aggregate_of counts)"

definition key_valid :: "int \<Rightarrow> homeInFlightAggregateKey \<Rightarrow> bool" where
  "key_valid maxBytes key \<longleftrightarrow> int (length (fst key)) \<le> maxBytes \<and> int (length (fst (snd key))) \<le> maxBytes"

function truncateLoop :: "string \<Rightarrow> string" where
  "truncateLoop value = (if value \<noteq> [] \<and> \<not> ValidString value then truncateLoop (butlast value) else value)"
  by auto
termination by (relation "measure length") auto

declare truncateLoop.simps [simp del]

definition homeInFlightTruncateString :: "string \<Rightarrow> int \<Rightarrow> string" where
  "homeInFlightTruncateString value maxBytes =
     (if maxBytes \<le> 0 \<or> int (length value) \<le> maxBytes then value else truncateLoop (take (nat maxBytes) value))"

definition homeInFlightBoundDetail :: "InFlightRequestDetail \<Rightarrow> int \<Rightarrow> InFlightRequestDetail \<times> bool" where
  "homeInFlightBoundDetail detail maxBytes =
     (let bound = (\<lambda>value. homeInFlightTruncateString value maxBytes);
          cut = (\<lambda>value. bound value \<noteq> value)
      in (detail\<lparr>id_RequestID := bound (id_RequestID detail), id_CredentialID := bound (id_CredentialID detail),
                 id_Model := bound (id_Model detail), id_RequestKind := bound (id_RequestKind detail)\<rparr>,
          cut (id_RequestID detail) \<or> cut (id_CredentialID detail) \<or> cut (id_Model detail) \<or> cut (id_RequestKind detail)))"

definition validHomeInFlightDetail :: "InFlightRequestDetail \<Rightarrow> int \<Rightarrow> bool" where
  "validHomeInFlightDetail detail maxStringBytes =
     (let validString = (\<lambda>value. ValidString value \<and> TrimSpace value \<noteq> [] \<and> int (length value) \<le> maxStringBytes)
      in validString (id_RequestID detail) \<and> validString (id_CredentialID detail) \<and> validString (id_Model detail) \<and>
         validString (id_RequestKind detail) \<and> \<not> IsZero (id_StartedAt detail))"

definition detail_of :: "Observation \<Rightarrow> InFlightRequestDetail" where
  "detail_of observation =
     \<lparr>id_RequestID = ob_RequestID observation, id_CredentialID = ob_CredentialID observation,
      id_Model = homeInFlightObservationModel observation, id_RequestKind = ob_RequestKind observation,
      id_StartedAt = ob_StartedAt observation\<rparr>"

fun detailsLoop :: "int \<Rightarrow> Observation list \<Rightarrow> InFlightRequestDetail list \<Rightarrow> bool \<Rightarrow> InFlightRequestDetail list \<times> bool" where
  "detailsLoop maxBytes [] details truncated = (details, truncated)"
| "detailsLoop maxBytes (observation # rest) details truncated =
     (let (detail, bounded) = homeInFlightBoundDetail (detail_of observation) maxBytes
      in if \<not> validHomeInFlightDetail detail maxBytes then detailsLoop maxBytes rest details True
         else detailsLoop maxBytes rest (details @ [detail]) (truncated \<or> bounded))"

definition sorted_details :: "InFlightRequestDetail list \<Rightarrow> InFlightRequestDetail list" where
  "sorted_details details =
     sort_key (\<lambda>d. (id_StartedAt d, id_RequestID d, id_CredentialID d, id_Model d, id_RequestKind d)) details"

section \<open>Frames\<close>

definition homeInFlightPartFrame :: "Freeze \<Rightarrow> go_time \<Rightarrow> int \<Rightarrow> bool \<Rightarrow> InFlightSnapshotFrame" where
  "homeInFlightPartFrame freeze observedAt partCount detailsTruncated =
     \<lparr>if_Kind = InFlightFramePart, if_Revision = fz_Revision freeze, if_ObservedAt = observedAt,
      if_BarrierRevision = fz_BarrierRevision freeze, if_PartIndex = Some 0, if_PartCount = Some partCount,
      if_DetailsTruncated = detailsTruncated, if_Aggregates = [], if_Details = [], if_AggregateGroupCount = 0\<rparr>"

definition homeInFlightOverflow :: "Freeze \<Rightarrow> go_time \<Rightarrow> int \<Rightarrow> InFlightSnapshotFrame list" where
  "homeInFlightOverflow freeze observedAt aggregateGroupCount =
     [\<lparr>if_Kind = InFlightFrameOverflow, if_Revision = fz_Revision freeze, if_ObservedAt = observedAt,
       if_BarrierRevision = fz_BarrierRevision freeze, if_PartIndex = None, if_PartCount = None,
       if_DetailsTruncated = False, if_Aggregates = [], if_Details = [], if_AggregateGroupCount = aggregateGroupCount\<rparr>]"

definition homeInFlightFrameWithinPartLimit :: "frame_size \<Rightarrow> InFlightSnapshotFrame \<Rightarrow> int \<Rightarrow> bool" where
  "homeInFlightFrameWithinPartLimit marshalled frame maxPartBytes =
     (case marshalled frame of None \<Rightarrow> False | Some n \<Rightarrow> int n \<le> maxPartBytes)"

fun boundsLoop :: "frame_size \<Rightarrow> HomeInFlightPublisherConfig \<Rightarrow> InFlightSnapshotFrame list \<Rightarrow> int \<Rightarrow> bool" where
  "boundsLoop marshalled cfg [] totalBytes = True"
| "boundsLoop marshalled cfg (frame # rest) totalBytes =
     (case marshalled frame of
        None \<Rightarrow> False
      | Some n \<Rightarrow>
          if int n > pc_MaxPartBytes cfg then False
          else if totalBytes + int n > pc_MaxRevisionBytes cfg then False
          else boundsLoop marshalled cfg rest (totalBytes + int n))"

definition homeInFlightFramesWithinBounds :: "frame_size \<Rightarrow> InFlightSnapshotFrame list \<Rightarrow> HomeInFlightPublisherConfig \<Rightarrow> bool" where
  "homeInFlightFramesWithinBounds marshalled frames cfg =
     (if frames = [] \<or> int (length frames) > pc_MaxPartCount cfg then False else boundsLoop marshalled cfg frames 0)"

text \<open>Packing: the frames filled so far and the current one. \<open>blank\<close> is a new part frame; the slices of a frame are
  replaced and never written in place below their length, so frames share nothing.\<close>

definition with_aggregate :: "InFlightSnapshotFrame \<Rightarrow> InFlightAggregate \<Rightarrow> InFlightSnapshotFrame" where
  "with_aggregate current aggregate = current\<lparr>if_Aggregates := if_Aggregates current @ [aggregate]\<rparr>"

definition with_detail :: "InFlightSnapshotFrame \<Rightarrow> InFlightRequestDetail \<Rightarrow> InFlightSnapshotFrame" where
  "with_detail current detail = current\<lparr>if_Details := if_Details current @ [detail]\<rparr>"

fun packAggregates :: "frame_size \<Rightarrow> HomeInFlightPublisherConfig \<Rightarrow> InFlightSnapshotFrame \<Rightarrow> InFlightAggregate list \<Rightarrow>
    InFlightSnapshotFrame list \<Rightarrow> InFlightSnapshotFrame \<Rightarrow> (InFlightSnapshotFrame list \<times> InFlightSnapshotFrame) option" where
  "packAggregates marshalled cfg blank [] frames current = Some (frames, current)"
| "packAggregates marshalled cfg blank (aggregate # rest) frames current =
     (if homeInFlightFrameWithinPartLimit marshalled (with_aggregate current aggregate) (pc_MaxPartBytes cfg)
      then packAggregates marshalled cfg blank rest frames (with_aggregate current aggregate)
      else if if_Aggregates current = [] \<and> if_Details current = [] then None
      else if int (length frames) \<ge> pc_MaxPartCount cfg then None
      else if \<not> homeInFlightFrameWithinPartLimit marshalled (with_aggregate blank aggregate) (pc_MaxPartBytes cfg) then None
      else packAggregates marshalled cfg blank rest (frames @ [current]) (with_aggregate blank aggregate))"

text \<open>\<open>Inl\<close> is a return in the loop: frames and the number of details they include.\<close>

fun packDetails :: "frame_size \<Rightarrow> HomeInFlightPublisherConfig \<Rightarrow> InFlightSnapshotFrame \<Rightarrow> InFlightRequestDetail list \<Rightarrow> nat \<Rightarrow>
    InFlightSnapshotFrame list \<Rightarrow> InFlightSnapshotFrame \<Rightarrow>
    (InFlightSnapshotFrame list \<times> nat) + (InFlightSnapshotFrame list \<times> InFlightSnapshotFrame \<times> nat)" where
  "packDetails marshalled cfg blank [] includedDetails frames current = Inr (frames, current, includedDetails)"
| "packDetails marshalled cfg blank (detail # rest) includedDetails frames current =
     (if homeInFlightFrameWithinPartLimit marshalled (with_detail current detail) (pc_MaxPartBytes cfg)
      then packDetails marshalled cfg blank rest (Suc includedDetails) frames (with_detail current detail)
      else if if_Aggregates current = [] \<and> if_Details current = [] then Inl (frames, includedDetails)
      else if int (length frames) \<ge> pc_MaxPartCount cfg then Inl (frames, includedDetails - length (if_Details current))
      else if \<not> homeInFlightFrameWithinPartLimit marshalled (with_detail blank detail) (pc_MaxPartBytes cfg)
      then Inl (frames @ [current], includedDetails)
      else packDetails marshalled cfg blank rest (Suc includedDetails) (frames @ [current]) (with_detail blank detail))"

fun numberLoop :: "int \<Rightarrow> int \<Rightarrow> InFlightSnapshotFrame list \<Rightarrow> InFlightSnapshotFrame list" where
  "numberLoop index partCount [] = []"
| "numberLoop index partCount (frame # rest) =
     frame\<lparr>if_PartIndex := Some index, if_PartCount := Some partCount\<rparr> # numberLoop (index + 1) partCount rest"

definition packHomeInFlightFrames :: "frame_size \<Rightarrow> Freeze \<Rightarrow> go_time \<Rightarrow> HomeInFlightPublisherConfig \<Rightarrow> InFlightAggregate list \<Rightarrow>
    InFlightRequestDetail list \<Rightarrow> bool \<Rightarrow> InFlightSnapshotFrame list \<times> bool \<times> nat" where
  "packHomeInFlightFrames marshalled freeze observedAt cfg aggregates details detailsTruncated =
     (let blank = homeInFlightPartFrame freeze observedAt (pc_MaxPartCount cfg) detailsTruncated
      in case packAggregates marshalled cfg blank aggregates [] blank of
           None \<Rightarrow> ([], False, 0)
         | Some (frames0, current0) \<Rightarrow>
             (case packDetails marshalled cfg blank details 0 frames0 current0 of
                Inl (frames, included) \<Rightarrow> (frames, True, included)
              | Inr (frames, current, included) \<Rightarrow>
                  if if_Aggregates current \<noteq> [] \<or> if_Details current \<noteq> [] \<or> frames = []
                  then if int (length frames) \<ge> pc_MaxPartCount cfg
                       then if if_Aggregates current \<noteq> [] then ([], False, 0)
                            else (frames, True, included - length (if_Details current))
                       else (numberLoop 0 (int (length (frames @ [current]))) (frames @ [current]), True, included)
                  else (numberLoop 0 (int (length frames)) frames, True, included)))"

text \<open>Every round but the last shortens the details, so the loop ends.\<close>

function encodeLoop :: "frame_size \<Rightarrow> Freeze \<Rightarrow> go_time \<Rightarrow> HomeInFlightPublisherConfig \<Rightarrow> InFlightAggregate list \<Rightarrow>
    InFlightRequestDetail list \<Rightarrow> bool \<Rightarrow> InFlightSnapshotFrame list" where
  "encodeLoop marshalled freeze observedAt cfg aggregates details detailsTruncated =
     (let (frames, aggregatesPacked, includedDetails) =
            packHomeInFlightFrames marshalled freeze observedAt cfg aggregates details detailsTruncated
      in if \<not> aggregatesPacked then homeInFlightOverflow freeze observedAt (int (length aggregates))
         else if includedDetails < length details
         then encodeLoop marshalled freeze observedAt cfg aggregates (take includedDetails details) True
         else if homeInFlightFramesWithinBounds marshalled frames cfg then frames
         else if details = [] then homeInFlightOverflow freeze observedAt (int (length aggregates))
         else encodeLoop marshalled freeze observedAt cfg aggregates (butlast details) True)"
  by pat_completeness auto
termination
  by (relation "measure (\<lambda>(marshalled, freeze, observedAt, cfg, aggregates, details, truncated). length details)") auto

declare encodeLoop.simps [simp del]

definition encodeHomeInFlightFreeze :: "frame_size \<Rightarrow> Freeze \<Rightarrow> go_time \<Rightarrow> HomeInFlightPublisherConfig \<Rightarrow> InFlightSnapshotFrame list" where
  "encodeHomeInFlightFreeze marshalled freeze observedAt cfg =
     (let counts = aggregateCounts (fz_Executions freeze);
          aggregateKeysValid = list_all (\<lambda>observation. key_valid (pc_MaxStringBytes cfg) (observation_key observation)) (fz_Executions freeze);
          aggregates = sorted_aggregates counts;
          (collected, cut) = detailsLoop (pc_MaxStringBytes cfg) (fz_Executions freeze) [] False;
          details = sorted_details collected;
          tooMany = int (length details) > pc_MaxDetails cfg
      in if \<not> validHomeInFlightPublisherBounds cfg \<or> \<not> aggregateKeysValid \<or> int (length aggregates) > pc_MaxAggregateGroups cfg
         then homeInFlightOverflow freeze observedAt (int (length aggregates))
         else encodeLoop marshalled freeze observedAt cfg aggregates
                (if tooMany then take (nat (pc_MaxDetails cfg)) details else details) (cut \<or> tooMany))"

end
