(* ===== verification/InFlightClaims.thy ===== *)
theory InFlightClaims
  imports InFlight "HOL-Library.Multiset"
begin

text \<open>
  The properties of in-flight snapshots: the frames respect the configured bounds, and unless they report an overflow
  they carry every aggregate with its exact count and a prefix of the details, numbered and marked as cut when it is.
\<close>

section \<open>Packing\<close>

abbreviation all_aggregates :: "InFlightSnapshotFrame list \<Rightarrow> InFlightAggregate list" where
  "all_aggregates frames \<equiv> concat (map if_Aggregates frames)"

abbreviation all_details :: "InFlightSnapshotFrame list \<Rightarrow> InFlightRequestDetail list" where
  "all_details frames \<equiv> concat (map if_Details frames)"

text \<open>A frame made from a blank one.\<close>

definition filled :: "InFlightSnapshotFrame \<Rightarrow> InFlightSnapshotFrame \<Rightarrow> bool" where
  "filled blank f \<longleftrightarrow> f\<lparr>if_Aggregates := [], if_Details := []\<rparr> = blank\<lparr>if_Aggregates := [], if_Details := []\<rparr>"

lemma filled_blank: "filled blank blank"
  by (simp add: filled_def)

lemma filled_with [intro]: "filled blank f \<Longrightarrow> filled blank (with_aggregate f a)" "filled blank f \<Longrightarrow> filled blank (with_detail f d)"
  by (simp_all add: filled_def with_aggregate_def with_detail_def)

lemma with_select [simp]:
  "if_Aggregates (with_aggregate f a) = if_Aggregates f @ [a]" "if_Details (with_aggregate f a) = if_Details f"
  "if_Details (with_detail f d) = if_Details f @ [d]" "if_Aggregates (with_detail f d) = if_Aggregates f"
  by (simp_all add: with_aggregate_def with_detail_def)

lemma packAggregates_all:
  assumes "packAggregates marshalled cfg blank aggregates frames current = Some (frames', current')"
    and "if_Aggregates blank = []" "if_Details blank = []" "\<forall>f \<in> set (current # frames). filled blank f \<and> if_Details f = []"
  shows "all_aggregates frames' @ if_Aggregates current' = all_aggregates frames @ if_Aggregates current @ aggregates \<and>
    (\<forall>f \<in> set (current' # frames'). filled blank f \<and> if_Details f = [])"
  using assms
proof (induction aggregates arbitrary: frames current)
  case (Cons a aggregates)
  show ?case
  proof (cases "homeInFlightFrameWithinPartLimit marshalled (with_aggregate current a) (pc_MaxPartBytes cfg)")
    case True
    then have "packAggregates marshalled cfg blank aggregates frames (with_aggregate current a) = Some (frames', current')"
      using Cons.prems(1) by simp
    from Cons.IH[OF this Cons.prems(2,3)] show ?thesis using Cons.prems(4) by auto
  next
    case False
    then have "packAggregates marshalled cfg blank aggregates (frames @ [current]) (with_aggregate blank a) = Some (frames', current')"
      using Cons.prems(1) by (simp split: if_splits)
    from Cons.IH[OF this Cons.prems(2,3)] show ?thesis using Cons.prems(2-4) filled_blank by auto
  qed
qed auto

lemma packDetails_all:
  assumes "packDetails marshalled cfg blank details n frames current = Inr (frames', current', n')"
    and "if_Aggregates blank = []" "if_Details blank = []" "\<forall>f \<in> set (current # frames). filled blank f"
  shows "all_details frames' @ if_Details current' = all_details frames @ if_Details current @ details \<and>
    all_aggregates frames' @ if_Aggregates current' = all_aggregates frames @ if_Aggregates current \<and>
    (\<forall>f \<in> set (current' # frames'). filled blank f) \<and> n' = n + length details"
  using assms
proof (induction details arbitrary: n frames current)
  case (Cons d details)
  show ?case
  proof (cases "homeInFlightFrameWithinPartLimit marshalled (with_detail current d) (pc_MaxPartBytes cfg)")
    case True
    then have "packDetails marshalled cfg blank details (Suc n) frames (with_detail current d) = Inr (frames', current', n')"
      using Cons.prems(1) by simp
    from Cons.IH[OF this Cons.prems(2,3)] show ?thesis using Cons.prems(4) by auto
  next
    case False
    then have "packDetails marshalled cfg blank details (Suc n) (frames @ [current]) (with_detail blank d) = Inr (frames', current', n')"
      using Cons.prems(1) by (simp split: if_splits)
    from Cons.IH[OF this Cons.prems(2,3)] show ?thesis using Cons.prems(2-4) filled_blank by auto
  qed
qed auto

lemma packDetails_short:
  "packDetails marshalled cfg blank details n frames current = Inl (frames', n') \<Longrightarrow> n' < n + length details"
proof (induction details arbitrary: n frames current)
  case (Cons d details)
  then show ?case by (force split: if_splits)
qed simp

lemma numberLoop_all: "all_details (numberLoop i c frames) = all_details frames \<and> all_aggregates (numberLoop i c frames) = all_aggregates frames \<and>
   length (numberLoop i c frames) = length frames"
  by (induction frames arbitrary: i) auto

lemma numberLoop_nth: "k < length frames \<Longrightarrow>
   numberLoop i c frames ! k = (frames ! k)\<lparr>if_PartIndex := Some (i + int k), if_PartCount := Some c\<rparr>"
proof (induction frames arbitrary: i k)
  case (Cons f frames)
  then show ?case by (cases k) (auto simp: algebra_simps)
qed simp

text \<open>What a complete packing is.\<close>

definition packed :: "Freeze \<Rightarrow> bool \<Rightarrow> InFlightAggregate list \<Rightarrow> InFlightRequestDetail list \<Rightarrow> InFlightSnapshotFrame list \<Rightarrow> bool" where
  "packed freeze truncated aggregates details frames \<longleftrightarrow>
     all_aggregates frames = aggregates \<and> all_details frames = details \<and>
     (\<forall>k < length frames. if_Kind (frames ! k) = InFlightFramePart \<and> if_PartIndex (frames ! k) = Some (int k) \<and>
        if_PartCount (frames ! k) = Some (int (length frames)) \<and> if_DetailsTruncated (frames ! k) = truncated \<and>
        if_Revision (frames ! k) = fz_Revision freeze \<and> if_BarrierRevision (frames ! k) = fz_BarrierRevision freeze)"

lemma numbered_packed:
  assumes "blank = homeInFlightPartFrame freeze observedAt c truncated" "\<forall>f \<in> set frames. filled blank f"
    and "all_aggregates frames = aggregates" "all_details frames = details"
  shows "packed freeze truncated aggregates details (numberLoop 0 (int (length frames)) frames)"
proof -
  have "if_Kind (frames ! k) = InFlightFramePart \<and> if_DetailsTruncated (frames ! k) = truncated \<and>
      if_Revision (frames ! k) = fz_Revision freeze \<and> if_BarrierRevision (frames ! k) = fz_BarrierRevision freeze"
    if k: "k < length frames" for k
  proof -
    have "filled blank (frames ! k)" using assms(2) k by simp
    then have "(frames ! k)\<lparr>if_Aggregates := [], if_Details := []\<rparr> = blank\<lparr>if_Aggregates := [], if_Details := []\<rparr>"
      by (simp add: filled_def)
    from arg_cong[OF this, of if_Kind] arg_cong[OF this, of if_DetailsTruncated] arg_cong[OF this, of if_Revision]
      arg_cong[OF this, of if_BarrierRevision]
    show ?thesis by (simp add: assms(1) homeInFlightPartFrame_def)
  qed
  then show ?thesis using assms(3,4) numberLoop_all[of 0 "int (length frames)" frames]
    by (simp add: packed_def numberLoop_nth)
qed

lemma pack_complete:
  assumes "packHomeInFlightFrames marshalled freeze observedAt cfg aggregates details truncated = (frames, True, included)"
    and "\<not> included < length details"
    and "0 < pc_MaxPartCount cfg"
  shows "packed freeze truncated aggregates details frames"
proof -
  let ?blank = "homeInFlightPartFrame freeze observedAt (pc_MaxPartCount cfg) truncated"
  have blank: "if_Aggregates ?blank = []" "if_Details ?blank = []" by (simp_all add: homeInFlightPartFrame_def)
  obtain fs0 c0 where a: "packAggregates marshalled cfg ?blank aggregates [] ?blank = Some (fs0, c0)"
    using assms(1) by (auto simp: packHomeInFlightFrames_def Let_def split: option.splits)
  note A = packAggregates_all[OF a blank]
  have A': "all_aggregates fs0 @ if_Aggregates c0 = aggregates" "\<forall>f \<in> set (c0 # fs0). filled ?blank f \<and> if_Details f = []"
    using A blank filled_blank by auto
  have none: "all_details fs0 = []" "if_Details c0 = []" using A'(2) by auto
  show ?thesis
  proof (cases "packDetails marshalled cfg ?blank details 0 fs0 c0")
    case (Inl x)
    then show ?thesis
      using assms(1,2) a packDetails_short[of marshalled cfg ?blank details 0 fs0 c0]
      by (cases x) (auto simp: packHomeInFlightFrames_def Let_def)
  next
    case (Inr x)
    obtain fs c n where x: "x = (fs, c, n)" by (cases x)
    have D: "all_details fs @ if_Details c = details" "all_aggregates fs @ if_Aggregates c = aggregates"
        "\<forall>f \<in> set (c # fs). filled ?blank f" "n = length details"
      using packDetails_all[OF Inr[unfolded x] blank] A' none by auto
    have out: "packHomeInFlightFrames marshalled freeze observedAt cfg aggregates details truncated =
        (if if_Aggregates c \<noteq> [] \<or> if_Details c \<noteq> [] \<or> fs = []
         then if int (length fs) \<ge> pc_MaxPartCount cfg
              then if if_Aggregates c \<noteq> [] then ([], False, 0) else (fs, True, n - length (if_Details c))
              else (numberLoop 0 (int (length (fs @ [c]))) (fs @ [c]), True, n)
         else (numberLoop 0 (int (length fs)) fs, True, n))"
      using a Inr x by (simp add: packHomeInFlightFrames_def Let_def)
    consider (keep) "frames = numberLoop 0 (int (length (fs @ [c]))) (fs @ [c])"
      | (drop) "if_Aggregates c = []" "if_Details c = []" "frames = numberLoop 0 (int (length fs)) fs"
      | (cut) "if_Details c \<noteq> []" "included = n - length (if_Details c)" | (none) "fs = []" "0 \<ge> pc_MaxPartCount cfg"
      using assms(1) unfolding out by (auto split: if_splits)
    then show ?thesis
    proof cases
      case keep
      then show ?thesis using numbered_packed[OF refl, of "fs @ [c]"] D by auto
    next
      case drop
      then show ?thesis using numbered_packed[OF refl, of fs] D by auto
    next
      case cut
      then show ?thesis using assms(2) D by (cases "if_Details c") auto
    next
      case none
      then show ?thesis using assms(3) by simp
    qed
  qed
qed

section \<open>The loop\<close>

definition frames_within :: "frame_size \<Rightarrow> HomeInFlightPublisherConfig \<Rightarrow> InFlightSnapshotFrame list \<Rightarrow> bool" where
  "frames_within marshalled cfg frames \<longleftrightarrow>
     frames \<noteq> [] \<and> int (length frames) \<le> pc_MaxPartCount cfg \<and>
     (\<forall>f \<in> set frames. \<exists>n. marshalled f = Some n \<and> int n \<le> pc_MaxPartBytes cfg) \<and>
     (\<Sum>f \<leftarrow> frames. int (the (marshalled f))) \<le> pc_MaxRevisionBytes cfg"

lemma boundsLoop_within: "boundsLoop marshalled cfg frames t \<Longrightarrow> t \<le> pc_MaxRevisionBytes cfg \<Longrightarrow>
   (\<forall>f \<in> set frames. \<exists>n. marshalled f = Some n \<and> int n \<le> pc_MaxPartBytes cfg) \<and>
   t + (\<Sum>f \<leftarrow> frames. int (the (marshalled f))) \<le> pc_MaxRevisionBytes cfg"
proof (induction frames arbitrary: t)
  case (Cons f frames)
  then obtain n where n: "marshalled f = Some n" "int n \<le> pc_MaxPartBytes cfg" "t + int n \<le> pc_MaxRevisionBytes cfg"
      "boundsLoop marshalled cfg frames (t + int n)"
    by (auto split: option.splits if_splits)
  then show ?case using Cons.IH[OF n(4,3)] by (auto simp: algebra_simps)
qed simp

lemma bounds_within:
  assumes "homeInFlightFramesWithinBounds marshalled frames cfg" "0 \<le> pc_MaxRevisionBytes cfg"
  shows "frames_within marshalled cfg frames"
  using assms boundsLoop_within[of marshalled cfg frames 0]
  by (auto simp: homeInFlightFramesWithinBounds_def frames_within_def split: if_splits)

text \<open>The result of the loop: an overflow, or a complete packing of a prefix of the details.\<close>

lemma encodeLoop_result:
  assumes "0 < pc_MaxPartCount cfg" "0 \<le> pc_MaxRevisionBytes cfg"
  shows "encodeLoop marshalled freeze observedAt cfg aggregates details truncated = homeInFlightOverflow freeze observedAt (int (length aggregates)) \<or>
    frames_within marshalled cfg (encodeLoop marshalled freeze observedAt cfg aggregates details truncated) \<and>
    (\<exists>n. packed freeze (truncated \<or> n < length details) aggregates (take n details)
       (encodeLoop marshalled freeze observedAt cfg aggregates details truncated))"
proof (induction "length details" arbitrary: details truncated rule: less_induct)
  case less
  obtain frames ok included where p:
    "packHomeInFlightFrames marshalled freeze observedAt cfg aggregates details truncated = (frames, ok, included)"
    by (rule prod_cases3)
  have step: "encodeLoop marshalled freeze observedAt cfg aggregates details truncated =
      (if \<not> ok then homeInFlightOverflow freeze observedAt (int (length aggregates))
       else if included < length details then encodeLoop marshalled freeze observedAt cfg aggregates (take included details) True
       else if homeInFlightFramesWithinBounds marshalled frames cfg then frames
       else if details = [] then homeInFlightOverflow freeze observedAt (int (length aggregates))
       else encodeLoop marshalled freeze observedAt cfg aggregates (butlast details) True)"
    by (subst encodeLoop.simps) (simp add: p)
  have shorter: ?case
    if m: "m < length details"
      and e: "encodeLoop marshalled freeze observedAt cfg aggregates details truncated =
        encodeLoop marshalled freeze observedAt cfg aggregates (take m details) True" for m
  proof -
    have "\<exists>n'. packed freeze (truncated \<or> n' < length details) aggregates (take n' details) frames'"
      if "packed freeze (True \<or> n < length (take m details)) aggregates (take n (take m details)) frames'" for n frames'
      using that m by (intro exI[of _ "min n m"]) (simp add: min_less_iff_disj)
    then show ?thesis using less[of "take m details" True] m unfolding e by (simp add: min.absorb2) blast
  qed
  consider (over) "\<not> ok" | (fewer) "ok" "included < length details"
    | (fits) "ok" "\<not> included < length details" "homeInFlightFramesWithinBounds marshalled frames cfg"
    | (empty) "ok" "\<not> included < length details" "\<not> homeInFlightFramesWithinBounds marshalled frames cfg" "details = []"
    | (last) "ok" "\<not> included < length details" "\<not> homeInFlightFramesWithinBounds marshalled frames cfg" "details \<noteq> []"
    by blast
  then show ?case
  proof cases
    case fewer
    then show ?thesis using shorter[of included] step by simp
  next
    case fits
    then have "packed freeze truncated aggregates details frames"
      using pack_complete[OF p[unfolded eqTrueI[OF fits(1)]] fits(2) assms(1)] by simp
    then have "\<exists>n. packed freeze (truncated \<or> n < length details) aggregates (take n details) frames"
      by (intro exI[of _ "length details"]) simp
    then show ?thesis using fits step bounds_within[OF fits(3) assms(2)] by simp
  next
    case last
    then show ?thesis using shorter[of "length details - 1"] step by (simp add: butlast_conv_take)
  qed (use step in simp_all)
qed

section \<open>Counts\<close>

lemma aggregateCounts_snoc:
  "aggregateCounts (xs @ [x]) = AList.update (observation_key x) (int64 (map_get 0 (aggregateCounts xs) (observation_key x) + 1)) (aggregateCounts xs)"
  by (simp add: aggregateCounts_def)

lemma aggregateCounts_exact:
  "int (length xs) \<le> MaxInt64 \<Longrightarrow> wf_map (aggregateCounts xs) \<and>
   map_get 0 (aggregateCounts xs) k = int (length (filter (\<lambda>x. observation_key x = k) xs))"
proof (induction xs arbitrary: k rule: rev_induct)
  case Nil
  then show ?case by (simp add: aggregateCounts_def)
next
  case (snoc x xs)
  let ?n = "length (filter (\<lambda>y. observation_key y = observation_key x) xs)"
  have small: "int (length xs) \<le> MaxInt64" using snoc.prems by simp
  have "int ?n \<le> int (length xs)" using length_filter_le by (rule of_nat_mono)
  moreover have "int (length xs) + 1 \<le> MaxInt64" using snoc.prems by simp
  ultimately have "in_int64 (int ?n + 1)" unfolding in_int64_def MinInt64_def by linarith
  then have "int64 (int ?n + 1) = int ?n + 1" by (rule int64_id)
  then show ?case using snoc.IH[OF small] by (auto simp: aggregateCounts_snoc)
qed

text \<open>What the frames report for a credential, a model and a status.\<close>

definition reported :: "InFlightSnapshotFrame list \<Rightarrow> string \<Rightarrow> string \<Rightarrow> string \<Rightarrow> int" where
  "reported frames credential model status =
     (\<Sum>a \<leftarrow> all_aggregates frames.
        if ia_CredentialID a = credential \<and> ia_Model a = model \<and> ia_Status a = status then ia_Count a else 0)"

lemma sum_sort: "(\<Sum>x \<leftarrow> sort_key k xs. (g x :: int)) = (\<Sum>x \<leftarrow> xs. g x)"
  by (simp flip: sum_mset_sum_list)

lemma status_inj: "homeInFlightStatus a = homeInFlightStatus b \<longleftrightarrow> a = b"
  by (simp add: homeInFlightStatus_def InFlightAccounted_def InFlightUnaccounted_def)

lemma sum_key:
  "wf_map counts \<Longrightarrow> (\<Sum>e \<leftarrow> counts. if fst e = k then snd e else 0) = map_get (0 :: int) counts k"
proof (induction counts)
  case (Cons e counts)
  have "(\<Sum>e \<leftarrow> counts. if fst e = k then snd e else 0) = 0" if "k \<notin> fst ` set counts"
    using that by (induction counts) auto
  then show ?case using Cons by (cases e) (auto simp: map_get_def)
qed simp

lemma reported_counts:
  assumes "wf_map counts"
  shows "(\<Sum>a \<leftarrow> sorted_aggregates counts.
     if ia_CredentialID a = c \<and> ia_Model a = m \<and> ia_Status a = homeInFlightStatus acc then ia_Count a else 0) = map_get 0 counts (c, m, acc)"
proof -
  have one: "(if ia_CredentialID (aggregate_of e) = c \<and> ia_Model (aggregate_of e) = m \<and> ia_Status (aggregate_of e) = homeInFlightStatus acc
      then ia_Count (aggregate_of e) else 0) = (if fst e = (c, m, acc) then snd e else 0)" for e
    by (cases e) (auto simp: aggregate_of_def status_inj split: prod.splits)
  show ?thesis using sum_key[OF assms, of "(c, m, acc)"] by (simp add: sorted_aggregates_def sum_sort o_def one)
qed

section \<open>Details\<close>

lemma truncate_same: "fst (homeInFlightBoundDetail d n) = d" if "\<not> snd (homeInFlightBoundDetail d n)"
  using that by (simp add: homeInFlightBoundDetail_def Let_def)

lemma detailsLoop_result:
  "detailsLoop n xs ds t = (ds', t') \<Longrightarrow>
     (\<forall>d \<in> set ds'. d \<in> set ds \<or> validHomeInFlightDetail d n) \<and> (\<not> t' \<longrightarrow> \<not> t \<and> ds' = ds @ map detail_of xs)"
proof (induction xs arbitrary: ds t)
  case (Cons x xs)
  obtain d b where db: "homeInFlightBoundDetail (detail_of x) n = (d, b)" by (rule prod.exhaust)
  show ?case
  proof (cases "validHomeInFlightDetail d n")
    case True
    then have "detailsLoop n xs (ds @ [d]) (t \<or> b) = (ds', t')" using Cons.prems db by simp
    from Cons.IH[OF this] show ?thesis using True truncate_same[of "detail_of x" n] db by auto
  next
    case False
    then have "detailsLoop n xs ds True = (ds', t')" using Cons.prems db by simp
    from Cons.IH[OF this] show ?thesis by auto
  qed
qed simp

section \<open>Snapshots\<close>

text \<open>What a snapshot is.\<close>

lemma encode_result:
  assumes "counts = aggregateCounts (fz_Executions freeze)"
    and "detailsLoop (pc_MaxStringBytes cfg) (fz_Executions freeze) [] False = (collected, lost)"
    and "frames = encodeHomeInFlightFreeze marshalled freeze observedAt cfg"
  shows "frames = homeInFlightOverflow freeze observedAt (int (length counts)) \<or>
    frames_within marshalled cfg frames \<and>
    (\<exists>n. packed freeze (lost \<or> n < length collected) (sorted_aggregates counts) (take n (sorted_details collected)) frames)"
proof -
  let ?k = "nat (pc_MaxDetails cfg)" and ?over = "homeInFlightOverflow freeze observedAt (int (length counts))"
  have len: "length (sorted_aggregates counts) = length counts" "length (sorted_details collected) = length collected"
    by (simp_all add: sorted_aggregates_def sorted_details_def)
  define details where "details = (if int (length collected) > pc_MaxDetails cfg then take ?k (sorted_details collected) else sorted_details collected)"
  define truncated where "truncated = (lost \<or> int (length collected) > pc_MaxDetails cfg)"
  have "frames = ?over \<or> validHomeInFlightPublisherBounds cfg \<and>
      frames = encodeLoop marshalled freeze observedAt cfg (sorted_aggregates counts) details truncated"
    using assms len by (auto simp: encodeHomeInFlightFreeze_def Let_def details_def truncated_def)
  then consider "frames = ?over" | (loop) "validHomeInFlightPublisherBounds cfg"
      "frames = encodeLoop marshalled freeze observedAt cfg (sorted_aggregates counts) details truncated" by blast
  then show ?thesis
  proof cases
    case loop
    have pos: "0 < pc_MaxPartCount cfg" "0 \<le> pc_MaxRevisionBytes cfg" "0 \<le> pc_MaxDetails cfg"
      using loop(1) by (auto simp: validHomeInFlightPublisherBounds_def)
    have "\<exists>n'. packed freeze (lost \<or> n' < length collected) (sorted_aggregates counts) (take n' (sorted_details collected)) frames"
      if "packed freeze (truncated \<or> n < length details) (sorted_aggregates counts) (take n details) frames" for n
    proof (cases "int (length collected) > pc_MaxDetails cfg")
      case True
      then have "?k < length collected" using pos(3) by linarith
      then show ?thesis
        using that True len by (intro exI[of _ "min n ?k"]) (simp add: details_def truncated_def min_less_iff_disj)
    next
      case False
      then show ?thesis using that len by (intro exI[of _ n]) (simp add: details_def truncated_def)
    qed
    then show ?thesis
      using encodeLoop_result[OF pos(1,2), of marshalled freeze observedAt "sorted_aggregates counts" details truncated] loop(2) len by auto
  qed simp
qed

text \<open>A snapshot without an overflow frame.\<close>

definition overflowed :: "InFlightSnapshotFrame list \<Rightarrow> bool" where
  "overflowed frames \<longleftrightarrow> (\<exists>f \<in> set frames. if_Kind f = InFlightFrameOverflow)"

lemma encode_packed:
  assumes "detailsLoop (pc_MaxStringBytes cfg) (fz_Executions freeze) [] False = (collected, lost)"
    and "frames = encodeHomeInFlightFreeze marshalled freeze observedAt cfg" "\<not> overflowed frames"
  shows "frames \<noteq> [] \<and> (\<exists>n. packed freeze (lost \<or> n < length collected) (sorted_aggregates (aggregateCounts (fz_Executions freeze)))
    (take n (sorted_details collected)) frames)"
  using encode_result[OF refl assms(1,2)] assms(3) by (auto simp: overflowed_def homeInFlightOverflow_def frames_within_def)

text \<open>C30. A snapshot never exceeds the bounds of the publisher: it is a single overflow frame, or at least one and at most
  the configured number of parts, each of at most the configured size, with at most the configured size in total.
  The text of the frames is that of the final part numbers, whatever was assumed while packing.\<close>

theorem frames_bounded:
  assumes "frames = encodeHomeInFlightFreeze marshalled freeze observedAt cfg"
  shows "(\<exists>n. frames = homeInFlightOverflow freeze observedAt n) \<or>
    frames \<noteq> [] \<and> int (length frames) \<le> pc_MaxPartCount cfg \<and>
    (\<forall>f \<in> set frames. \<exists>n. marshalled f = Some n \<and> int n \<le> pc_MaxPartBytes cfg) \<and>
    (\<Sum>f \<leftarrow> frames. int (the (marshalled f))) \<le> pc_MaxRevisionBytes cfg"
proof -
  obtain collected lost where "detailsLoop (pc_MaxStringBytes cfg) (fz_Executions freeze) [] False = (collected, lost)" by (rule prod.exhaust)
  from encode_result[OF refl this assms] show ?thesis unfolding frames_within_def by blast
qed

text \<open>Two executions of one key and one of another, in frames for two entries each.\<close>

definition wit_obs :: "string \<Rightarrow> string \<Rightarrow> Observation" where
  "wit_obs request credential = \<lparr>ob_RequestID = request, ob_CredentialID = credential, ob_Model = ''m'', ob_RequestKind = ''http'',
     ob_StartedAt = 5, ob_Accounted = True\<rparr>"

definition wit_freeze :: Freeze where
  "wit_freeze = \<lparr>fz_Revision = 3, fz_BarrierRevision = 1,
     fz_Executions = [wit_obs ''r2'' ''b'', wit_obs ''r1'' ''a'', wit_obs ''r3'' ''b'']\<rparr>"

definition wit_cfg :: HomeInFlightPublisherConfig where
  "wit_cfg = \<lparr>pc_SnapshotInterval = 1, pc_MaxPartBytes = 50, pc_MaxPartCount = 4, pc_MaxRevisionBytes = 160,
     pc_MaxAggregateGroups = 10, pc_MaxDetails = 10, pc_MaxStringBytes = 16\<rparr>"

definition wit_marshalled :: frame_size where
  "wit_marshalled frame = Some (10 + 20 * (length (if_Aggregates frame) + length (if_Details frame)))"

definition wit_frames :: "InFlightSnapshotFrame list" where
  "wit_frames = encodeHomeInFlightFreeze wit_marshalled wit_freeze 7 wit_cfg"

lemma wit_frames_values:
  "length wit_frames = 3 \<and> list_all (\<lambda>f. if_Kind f = InFlightFramePart \<and> \<not> if_DetailsTruncated f) wit_frames"
  unfolding wit_frames_def by code_simp

theorem frames_bounded_witness:
  "length wit_frames = 3 \<and> (\<Sum>f \<leftarrow> wit_frames. int (the (wit_marshalled f))) \<le> 160"
proof -
  have "length (homeInFlightOverflow wit_freeze 7 n) = 1" for n by (simp add: homeInFlightOverflow_def)
  then have "wit_frames \<noteq> homeInFlightOverflow wit_freeze 7 n" for n using wit_frames_values by (metis numeral_eq_one_iff semiring_norm(86))
  then show ?thesis using frames_bounded[OF wit_frames_def] wit_frames_values by (simp add: wit_cfg_def)
qed

text \<open>C29. Snapshots count exactly: unless they report an overflow, what the aggregates of all frames together report for a
  credential, a model and a status is the number of the executions of the frozen registry that have them; no part
  loses or repeats an aggregate.\<close>

theorem snapshot_counts_exact:
  assumes "frames = encodeHomeInFlightFreeze marshalled freeze observedAt cfg" "\<not> overflowed frames"
    and "int (length (fz_Executions freeze)) \<le> MaxInt64"
  shows "reported frames credential model (homeInFlightStatus accounted) =
    int (length (filter (\<lambda>x. ob_CredentialID x = credential \<and> homeInFlightObservationModel x = model \<and> ob_Accounted x = accounted)
      (fz_Executions freeze)))"
proof -
  obtain collected lost where d: "detailsLoop (pc_MaxStringBytes cfg) (fz_Executions freeze) [] False = (collected, lost)" by (rule prod.exhaust)
  have "all_aggregates frames = sorted_aggregates (aggregateCounts (fz_Executions freeze))"
    using encode_packed[OF d assms(1,2)] by (auto simp: packed_def)
  then show ?thesis
    using reported_counts aggregateCounts_exact[OF assms(3)] by (simp add: reported_def observation_key_def)
qed

theorem snapshot_counts_exact_witness: "reported wit_frames ''b'' ''m'' ''accounted'' = 2"
proof -
  have "\<not> overflowed wit_frames" using wit_frames_values by (auto simp: overflowed_def list_all_iff)
  then show ?thesis
    using snapshot_counts_exact[OF wit_frames_def, of "''b''" "''m''" True]
    by (simp add: wit_freeze_def wit_obs_def MaxInt64_def homeInFlightStatus_def InFlightAccounted_def homeInFlightObservationModel_def)
qed

text \<open>C31. A snapshot says what it leaves out: unless it reports an overflow, its parts are numbered from zero with their
  number, show only valid details, and all carry the same mark; without the mark the details of all frames together
  are those of all the executions of the frozen registry, uncut.\<close>

theorem snapshot_details_honest:
  assumes "frames = encodeHomeInFlightFreeze marshalled freeze observedAt cfg" "\<not> overflowed frames"
  shows "(\<forall>k < length frames. if_PartIndex (frames ! k) = Some (int k) \<and> if_PartCount (frames ! k) = Some (int (length frames)) \<and>
      if_DetailsTruncated (frames ! k) = if_DetailsTruncated (hd frames)) \<and>
    (\<forall>d \<in> set (all_details frames). validHomeInFlightDetail d (pc_MaxStringBytes cfg)) \<and>
    (\<not> if_DetailsTruncated (hd frames) \<longrightarrow> mset (all_details frames) = mset (map detail_of (fz_Executions freeze)))"
proof -
  obtain collected lost where d: "detailsLoop (pc_MaxStringBytes cfg) (fz_Executions freeze) [] False = (collected, lost)" by (rule prod.exhaust)
  note loop = detailsLoop_result[OF d]
  obtain n where ne: "frames \<noteq> []" and p: "packed freeze (lost \<or> n < length collected) (sorted_aggregates (aggregateCounts (fz_Executions freeze)))
      (take n (sorted_details collected)) frames"
    using encode_packed[OF d assms] by blast
  have mark: "if_DetailsTruncated (hd frames) = (lost \<or> n < length collected)" using p ne by (auto simp: packed_def hd_conv_nth)
  have "mset (all_details frames) = mset (map detail_of (fz_Executions freeze))" if "\<not> (lost \<or> n < length collected)"
    using that p loop by (simp add: packed_def sorted_details_def)
  moreover have valid: "validHomeInFlightDetail e (pc_MaxStringBytes cfg)" if "e \<in> set (all_details frames)" for e
  proof -
    have "all_details frames = take n (sorted_details collected)" using p by (simp add: packed_def)
    then have "e \<in> set (take n (sorted_details collected))" using that by (simp only:)
    then have "e \<in> set collected" using set_take_subset[of n "sorted_details collected"] by (auto simp: sorted_details_def)
    then show ?thesis using loop by auto
  qed
  moreover have "\<forall>k < length frames. if_PartIndex (frames ! k) = Some (int k) \<and> if_PartCount (frames ! k) = Some (int (length frames)) \<and>
      if_DetailsTruncated (frames ! k) = if_DetailsTruncated (hd frames)"
    using p mark by (simp add: packed_def)
  ultimately show ?thesis unfolding mark by blast
qed

theorem snapshot_details_honest_witness:
  "mset (all_details wit_frames) = mset (map detail_of (fz_Executions wit_freeze)) \<and> if_PartCount (wit_frames ! 2) = Some 3"
proof -
  have "\<not> overflowed wit_frames" "length wit_frames = 3" "\<not> if_DetailsTruncated (hd wit_frames)"
    using wit_frames_values hd_in_set[of wit_frames] by (cases "wit_frames = []"; auto simp: overflowed_def list_all_iff)+
  then show ?thesis using snapshot_details_honest[OF wit_frames_def] by simp
qed

end
