(* ===== verification/Spec2Isabelle.thy ===== *)
theory Spec2Isabelle
  imports Thinking QuotaSignals SchedulerGen SchedulerBest SessionSpec CooldownPicks PrefixClaims AffinitySessions UsageClaims RegistryClaims InFlightClaims
begin

text \<open>
  AIProviderScheduling is a proxy that spreads requests for AI models over the credentials
  ("auths") of several providers. This development verifies the part that decides: which credential
  serves a request, for how long a failed credential rests, and which reasoning ("thinking")
  configuration a request is given.

  Paths are under \<open>src/\<close>; the auth package is \<open>sdk/aps/auth\<close>.

  \<^bold>\<open>Prelude\<close> holds what the source uses of the Go language and its standard library: 64-bit
  integers, times, strings, \<open>strconv\<close>, maps as association lists, and \<open>sort.Search\<close>.

  \<^bold>\<open>Suffix\<close> (\<open>internal/thinking/suffix.go\<close>, \<open>types.go\<close>; \<open>canonicalModelKey\<close> of \<open>selector.go\<close>)
  parses model names such as \<open>name(high)\<close>. \<^bold>\<open>Thinking\<close> (\<open>convert.go\<close>, \<open>validate.go\<close>, parts of
  \<open>apply.go\<close>) converts between levels and budgets, clamps them, and validates a configuration
  against the capabilities of a model; the stages of \<open>ValidateConfig\<close> are definitions of their own.

  \<^bold>\<open>Auth\<close> (\<open>types.go\<close>, \<open>classification.go\<close>, \<open>credential_policy.go\<close>, \<open>weight.go\<close> and
  \<open>internal/credentialweight\<close>) is the record of a credential with what selection reads of it:
  priority, weight, kind, policy, eligibility, and the ring of recent requests.
  \<^bold>\<open>QuotaSignals\<close> (\<open>quota_signals.go\<close>) is the bounded snapshot of quota headers.

  \<^bold>\<open>Availability\<close> (\<open>selector.go\<close>) decides whether a credential is blocked for a model and until
  when, and collects the candidates of a selection. \<^bold>\<open>SmoothWeighted\<close> is the smooth weighted
  choice with its credits; \<^bold>\<open>Selectors\<close> are the three selectors over it. The locale
  \<open>rotation\<close> states what a fair rotation over a ring needs; it is interpreted on the code's
  successor search and again on the scheduler's.

  \<^bold>\<open>Shard\<close> (\<open>scheduler.go\<close>, \<open>modelScheduler\<close>) is the incremental index of one provider and
  model: entries, ready views per priority, and the queue of blocked entries. A pointer in a view
  or in the queue is the ID of its entry. \<^bold>\<open>ShardIndex\<close> proves that the indexes always agree with
  the entries; \<^bold>\<open>ShardPicks\<close> that the shard refines the selectors: after promotion, the ready
  entries are exactly the credentials that are free now, so what it picks is what the selector picks; where
  websockets are preferred, credentials with websockets of every priority come first.

  \<^bold>\<open>Scheduler\<close> and \<^bold>\<open>SchedulerMixed\<close> (\<open>scheduler.go\<close>, \<open>authScheduler\<close> and \<open>providerScheduler\<close>) keep
  the registered credentials of all providers with their epochs and generations, build shards lazily and
  pick for one provider or for several. The model registry is not modelled: an upsert or rebuild takes the models it
  lists as an argument, which may differ from one upsert to the next. \<^bold>\<open>SchedulerInv\<close>
  shows the invariant of every reachable state (registrations, provider links and shards agree),
  \<^bold>\<open>SchedulerGen\<close> that the newest snapshot wins in whatever order the snapshots come and that a removal
  lasts, \<^bold>\<open>SchedulerPicks\<close> and \<^bold>\<open>SchedulerBest\<close> that a pick is safe, refines the selector, fails only
  when nothing is eligible and otherwise has the highest priority.

  \<^bold>\<open>Json\<close> and \<^bold>\<open>Failures\<close> (\<open>errors.go\<close>, \<open>conductor_request_scoped_errors.go\<close>, parts of
  \<open>conductor_cooldown.go\<close> and \<open>internal/clienterror\<close>) classify what an executor reports: faults of the
  request, lifecycle errors, quota and transient failures. The package gjson is a parameter.
  \<^bold>\<open>Cooldown\<close> is the backoff ladder, the state of a model and the aggregation over models;
  \<^bold>\<open>MarkResult\<close> is \<open>Manager.MarkResult\<close> in full (failure, success, neutral results, what it counts and
  what it hands to the scheduler), the reset of quotas, and saving and restoring of cooldowns. The resolution of
  a route model to its key (\<open>selectionModelKeyForAuth\<close>, alias tables of the configuration) is an argument.
  \<^bold>\<open>CooldownFacts\<close> and \<^bold>\<open>MarkFacts\<close> hold the facts of these operations; \<^bold>\<open>CooldownSpec\<close> relates them to
  the verdict of \<open>Availability\<close>: a failure blocks its model exactly until the deadline of its kind, quota
  windows refine a small machine, success unblocks, other models keep their verdict (except that the first
  model state of a credential lifts a block of the credential as a whole), a restored cooldown
  blocks at the same times. \<^bold>\<open>CooldownPicks\<close> joins this with the scheduler: after a failure no pick returns
  the credential for the model before the deadline.

  \<^bold>\<open>SessionCache\<close> (\<open>session_cache.go\<close>) binds session identities to credentials in groups of aliases;
  \<^bold>\<open>SessionStore\<close> relates its maps to a list of groups, and \<^bold>\<open>SessionSpec\<close> shows that every sequence of
  operations answers as that list does, and which bindings survive.

  \<^bold>\<open>Turns\<close> and \<^bold>\<open>PrefixMatcher\<close> (\<open>sdk/aps/session/lcp.go\<close>) normalise and fingerprint the turns of a
  conversation and recognise a conversation by its longest known prefix. SHA-256 and the regular
  expressions are parameters. A group is an address in a heap; the maps, the prefix index and the list of
  recency hold addresses. The eviction loop runs on fuel: the length of the list is enough, because every
  round takes one group off it. \<^bold>\<open>PrefixInv\<close> is the invariant with one lemma per step, \<^bold>\<open>PrefixSpec\<close> the
  binary search and the candidates of a match, \<^bold>\<open>PrefixOps\<close> matching and binding on states that satisfy
  the invariant, \<^bold>\<open>PrefixRuns\<close> the runs, and \<^bold>\<open>PrefixClaims\<close> the properties: the limits hold, a match is the
  longest known prefix, a binding is found again, a conversation keeps its session.

  \<^bold>\<open>Gjson\<close> is the package gjson as a record of functions, a parameter of what reads request bodies.
  \<^bold>\<open>SessionIds\<close> (\<open>selector.go\<close>, \<open>sdk/aps/session/identity.go\<close>) finds the identity of a session in headers,
  body, metadata and first messages; \<^bold>\<open>SessionIdFacts\<close> bounds the explicit ones and shows that the hashed one
  survives the growth of a conversation. \<^bold>\<open>TurnExtraction\<close> (\<open>lcp.go\<close>) extracts the turns of a body in the five
  protocols; the recursions over nested values are partial functions whose value is \<open>None\<close> where a call does not
  return, and \<^bold>\<open>TurnExtractionFacts\<close> shows that the extraction returns on every payload and that its turns are
  bounded.

  \<^bold>\<open>Affinity\<close> (\<open>selector.go\<close>, \<open>SessionAffinitySelector\<close>) joins these: it keeps a session on one credential by the
  session cache, a conversation without an identity by the prefix matcher, and leaves cold picks to one of the
  built-in selectors. What a wrapped selector promises is the locale \<open>picker\<close> of \<^bold>\<open>SelectorContract\<close>, interpreted
  on the three selectors and on the choice between them. \<^bold>\<open>AffinityFacts\<close> and \<^bold>\<open>AffinityClaims\<close> show that every
  operation keeps the invariants of cache and matcher and that a pick serves whenever it can;
  \<^bold>\<open>AffinitySessions\<close> that a session is bound by a pick, stays on its credential, and is released by a failure
  or an invalidation.

  \<^bold>\<open>Usage\<close> (\<open>sdk/aps/usage/accounting.go\<close>) has the constructors of a token breakdown, its validity and the
  breakdown of a usage detail by the semantics of its provider; \<^bold>\<open>UsageClaims\<close> shows that the buckets add up as
  integers, that accounting is idempotent, and where an unchecked sum breaks this.

  \<^bold>\<open>ExecutionRegistry\<close> (\<open>sdk/aps/executionregistry\<close>) is the registry of dispatched executions as an interleaving:
  a section under a mutex is a step, and what runs over several sections (the end of a scope, \<open>Drain\<close>, \<open>Close\<close>,
  \<open>WaitPending\<close>, the replay of a release sink) is a thread whose constructor is its next section. \<^bold>\<open>RegistryInv\<close>
  states the invariant, what a thread relies on between its sections, and the contract under which this is stable;
  \<^bold>\<open>RegistryRuns\<close> and \<^bold>\<open>RegistryWorld\<close> show it for every section and every run, with counters of machine width that
  a run of at most \<open>MaxInt64\<close> steps does not exhaust. \<^bold>\<open>RegistryClaims\<close>: a finished shutdown has closed every resource that was
  bound exactly once, releases are counted exactly, a waiting drain is never forgotten, a barrier waits for the dispatches it covers.

  \<^bold>\<open>HomeConcurrency\<close> (\<open>home_concurrency.go\<close>) has the model keys under which a Home server limits concurrency, the
  validation of its tuples and the installation of accounted scopes. \<^bold>\<open>InFlight\<close> (\<open>home_in_flight_publisher.go\<close>)
  encodes a frozen registry into frames of bounded size; the length of a marshalled frame is a parameter, and the
  loop ends because every round shortens the details. \<^bold>\<open>InFlightClaims\<close>: the frames respect every bound, count
  exactly, and say what they leave out.

  Conventions: a nil pointer is \<open>None\<close>; the reading of the clock is an argument \<open>now\<close> (nanoseconds
  since the zero time, so \<open>0\<close> is \<open>IsZero\<close>); a section under a mutex is one step; an iteration over
  a Go map visits the association list in its order, and properties that matter are shown for every
  order; log calls and the texts of error messages are left out.

  \<^bold>\<open>Not modelled\<close>: network and file I/O (executors, stores, servers, OAuth flows), the translators
  between provider protocols (gjson and sjson carry their logic), configuration loading, goroutines
  and timers around the modelled steps.
\<close>

end
